(* ===== verification/Prelude.thy ===== *)
theory Prelude
  imports Main "HOL-Library.Word"
begin

section \<open>Shared vocabulary of the development\<close>

text \<open>
  What every component uses: the machine integers of the C++ code, little-endian
  byte images (what \<open>memcpy\<close> of an integer leaves in memory on the x86 targets the server
  is built for), a flat byte memory with range-checked copies, C's truncating division,
  and a few list lemmas. The collections \<open>mem_simps\<close> (reads after writes) and \<open>le_simps\<close>
  (byte images) are what the component proofs hand to the simplifier.
\<close>

unbundle bit_operations_syntax

named_theorems mem_simps \<open>reads and writes of the flat byte memory\<close>
named_theorems le_simps \<open>little-endian images of integers\<close>
named_theorems range_simps \<open>bounds of wrapped machine integers\<close>

type_synonym byte = "8 word"
type_synonym u32 = "32 word"

subsection \<open>Wrap-around of the unsigned C types\<close>

definition u8 :: "nat \<Rightarrow> nat" where
  "u8 n = n mod 2 ^ 8"

definition u16 :: "nat \<Rightarrow> nat" where
  "u16 n = n mod 2 ^ 16"

definition u32i :: "int \<Rightarrow> nat" where
  "u32i i = nat (i mod 2 ^ 32)"

definition u16i :: "int \<Rightarrow> nat" where
  "u16i i = nat (i mod 2 ^ 16)"

lemma u8_lt [range_simps, simp]: "u8 n < 256"
  by (simp add: u8_def)

lemma u16_lt [range_simps, simp]: "u16 n < 65536"
  by (simp add: u16_def)

lemma u8_id [simp]: "n < 256 \<Longrightarrow> u8 n = n"
  by (simp add: u8_def)

lemma u16_id [simp]: "n < 65536 \<Longrightarrow> u16 n = n"
  by (simp add: u16_def)

lemma u32i_lt [range_simps, simp]: "u32i i < 4294967296"
  by (simp add: u32i_def nat_less_iff)

lemma u32i_id [simp]: "0 \<le> i \<Longrightarrow> i < 4294967296 \<Longrightarrow> u32i i = nat i"
  by (simp add: u32i_def)

subsection \<open>Truncating division\<close>

text \<open>C++ rounds the quotient of signed integers towards zero.\<close>

definition c_div :: "int \<Rightarrow> int \<Rightarrow> int" where
  "c_div a b = sgn a * sgn b * (\<bar>a\<bar> div \<bar>b\<bar>)"

definition c_mod :: "int \<Rightarrow> int \<Rightarrow> int" where
  "c_mod a b = a - b * c_div a b"

lemma c_div_nonneg [simp]: "0 \<le> a \<Longrightarrow> 0 < b \<Longrightarrow> c_div a b = a div b"
  by (cases "a = 0") (auto simp: c_div_def)

lemma c_mod_nonneg [simp]: "0 \<le> a \<Longrightarrow> 0 < b \<Longrightarrow> c_mod a b = a mod b"
  by (simp add: c_mod_def minus_mult_div_eq_mod)

subsection \<open>Little-endian images\<close>

fun le_bytes :: "nat \<Rightarrow> nat \<Rightarrow> byte list" where
  "le_bytes 0 v = []"
| "le_bytes (Suc k) v = of_nat (v mod 256) # le_bytes k (v div 256)"

fun le_val :: "byte list \<Rightarrow> nat" where
  "le_val [] = 0"
| "le_val (b # bs) = unat b + 256 * le_val bs"

lemma length_le_bytes [le_simps, simp]: "length (le_bytes k v) = k"
  by (induction k arbitrary: v) auto

lemma unat_of_nat_byte [simp]: "unat (of_nat (v mod 256) :: byte) = v mod 256"
  by (simp add: unat_of_nat)

lemma le_val_le_bytes [le_simps]: "le_val (le_bytes k v) = v mod 256 ^ k"
proof (induction k arbitrary: v)
  case 0
  then show ?case by simp
next
  case (Suc k)
  have "le_val (le_bytes (Suc k) v) = v mod 256 + 256 * (v div 256 mod 256 ^ k)"
    using Suc.IH by simp
  also have "\<dots> = v mod (256 * 256 ^ k)"
    by (simp add: mod_mult2_eq)
  finally show ?case by simp
qed

lemma le_val_bound [range_simps]: "le_val bs < 256 ^ length bs"
proof (induction bs)
  case Nil
  then show ?case by simp
next
  case (Cons b bs)
  have "unat b < 256"
    using unsigned_less [of b] by simp
  moreover have "le_val bs + 1 \<le> 256 ^ length bs"
    using Cons.IH by simp
  ultimately show ?case by simp
qed

lemma le_bytes_le_val [le_simps]: "length bs = k \<Longrightarrow> le_bytes k (le_val bs) = bs"
proof (induction bs arbitrary: k)
  case Nil
  then show ?case by simp
next
  case (Cons b bs)
  have "unat b < 256"
    using unsigned_less [of b] by simp
  then have "(unat b + 256 * le_val bs) mod 256 = unat b"
    and "(unat b + 256 * le_val bs) div 256 = le_val bs"
    by simp_all
  with Cons show ?case by auto
qed

text \<open>Concrete words evaluate with the width-two rule that the message headers use.\<close>

lemma le_val2 [le_simps]: "le_val [a, b] = unat a + 256 * unat b"
  by simp

subsection \<open>A flat byte memory\<close>

type_synonym mem = "nat \<Rightarrow> byte"

definition rd :: "mem \<Rightarrow> nat \<Rightarrow> nat \<Rightarrow> byte list" where
  "rd m p n = map m [p..<p + n]"

definition wr :: "mem \<Rightarrow> nat \<Rightarrow> byte list \<Rightarrow> mem" where
  "wr m p bs = (\<lambda>a. if p \<le> a \<and> a < p + length bs then bs ! (a - p) else m a)"

text \<open>\<open>memcpy\<close> into an array of \<open>cap\<close> bytes: leaving the array is an error, not a value.\<close>

definition wr_chk :: "nat \<Rightarrow> mem \<Rightarrow> nat \<Rightarrow> byte list \<Rightarrow> mem option" where
  "wr_chk cap m p bs = (if p + length bs \<le> cap then Some (wr m p bs) else None)"

lemma length_rd [mem_simps, simp]: "length (rd m p n) = n"
  by (simp add: rd_def)

lemma rd_0 [mem_simps, simp]: "rd m p 0 = []"
  by (simp add: rd_def)

lemma rd_nth [mem_simps]: "i < n \<Longrightarrow> rd m p n ! i = m (p + i)"
  by (simp add: rd_def)

lemma rd_add [mem_simps]: "rd m p (a + b) = rd m p a @ rd m (p + a) b"
proof -
  have "[p..<p + (a + b)] = [p..<p + a] @ [p + a..<p + a + b]"
    using upt_add_eq_append [of p "p + a" b] by (simp add: add.assoc)
  then show ?thesis by (simp add: rd_def)
qed

lemma rd_Suc: "rd m p (Suc n) = m p # rd m (Suc p) n"
  by (simp add: rd_def upt_conv_Cons del: upt_Suc)

lemma rd_wr_same [mem_simps, simp]: "rd (wr m p bs) p (length bs) = bs"
  by (rule nth_equalityI) (simp_all add: rd_def wr_def)

lemma rd_wr_same' [mem_simps]: "n = length bs \<Longrightarrow> rd (wr m p bs) p n = bs"
  by simp

lemma rd_wr_other [mem_simps]:
  "q + n \<le> p \<or> p + length bs \<le> q \<Longrightarrow> rd (wr m p bs) q n = rd m q n"
  by (auto simp: rd_def wr_def)

lemma wr_other [mem_simps]: "a < p \<or> p + length bs \<le> a \<Longrightarrow> wr m p bs a = m a"
  by (auto simp: wr_def)

lemma wr_Nil [mem_simps, simp]: "wr m p [] = m"
  by (rule ext) (auto simp: wr_def)

lemma wr_append: "wr m p (xs @ ys) = wr (wr m p xs) (p + length xs) ys"
  by (rule ext) (auto simp: wr_def nth_append)

lemma wr_rd_id [mem_simps, simp]: "wr m p (rd m p n) = m"
  by (rule ext) (auto simp: wr_def rd_def)

lemma wr_chk_Some_iff [mem_simps]:
  "wr_chk cap m p bs = Some m' \<longleftrightarrow> p + length bs \<le> cap \<and> m' = wr m p bs"
  by (auto simp: wr_chk_def)

subsection \<open>Lists\<close>

lemma find_None_iff_all: "find P xs = None \<longleftrightarrow> (\<forall>x\<in>set xs. \<not> P x)"
  by (auto simp: find_None_iff)

lemma sum_list_update:
  fixes f :: "'a \<Rightarrow> nat"
  assumes "i < length xs"
  shows "sum_list (map f (xs[i := y])) + f (xs ! i) = sum_list (map f xs) + f y"
  using assms
proof (induction xs arbitrary: i)
  case Nil
  then show ?case by simp
next
  case (Cons x xs)
  then show ?case by (cases i) (simp_all add: add.commute add.left_commute)
qed

end
