(* ===== verification/Position_Model.thy ===== *)
theory Position_Model
  imports Prelude "HOL-Library.Char_ord"
begin

section \<open>Positions and directions\<close>

text \<open>
  \<open>src/src/position.h\<close>, \<open>position.cpp\<close> and the direction functions of \<open>tools.cpp\<close>. A
  position is two 16-bit coordinates and an 8-bit floor; the fields are words, so the
  steps of \<open>getNextPosition\<close> and the arithmetic operators wrap as the C++ ones do. The
  offsets are computed after the getters widen the fields to signed integers, hence over
  \<open>int\<close>. \<open>Position\<close> keys ordered containers (\<open>std::map\<close> and \<open>std::set\<close> of towns, raids
  and houses), so its \<open>operator<\<close> is the order instance of the record here.
\<close>

datatype Direction =
    DIRECTION_NORTH | DIRECTION_EAST | DIRECTION_SOUTH | DIRECTION_WEST
  | DIRECTION_SOUTHWEST | DIRECTION_SOUTHEAST | DIRECTION_NORTHWEST | DIRECTION_NORTHEAST
  | DIRECTION_NONE

fun dir_code :: "Direction \<Rightarrow> nat" where
  "dir_code DIRECTION_NORTH = 0"
| "dir_code DIRECTION_EAST = 1"
| "dir_code DIRECTION_SOUTH = 2"
| "dir_code DIRECTION_WEST = 3"
| "dir_code DIRECTION_SOUTHWEST = 4"
| "dir_code DIRECTION_SOUTHEAST = 5"
| "dir_code DIRECTION_NORTHWEST = 6"
| "dir_code DIRECTION_NORTHEAST = 7"
| "dir_code DIRECTION_NONE = 8"

datatype Position = Position (posx: "16 word") (posy: "16 word") (posz: "8 word")

definition getX :: "Position \<Rightarrow> int" where "getX p = uint (posx p)"
definition getY :: "Position \<Rightarrow> int" where "getY p = uint (posy p)"
definition getZ :: "Position \<Rightarrow> int" where "getZ p = uint (posz p)"

definition getOffsetX :: "Position \<Rightarrow> Position \<Rightarrow> int" where
  "getOffsetX p1 p2 = getX p1 - getX p2"

definition getOffsetY :: "Position \<Rightarrow> Position \<Rightarrow> int" where
  "getOffsetY p1 p2 = getY p1 - getY p2"

definition getOffsetZ :: "Position \<Rightarrow> Position \<Rightarrow> int" where
  "getOffsetZ p1 p2 = getZ p1 - getZ p2"

definition getDistanceX :: "Position \<Rightarrow> Position \<Rightarrow> int" where
  "getDistanceX p1 p2 = \<bar>getOffsetX p1 p2\<bar>"

definition getDistanceY :: "Position \<Rightarrow> Position \<Rightarrow> int" where
  "getDistanceY p1 p2 = \<bar>getOffsetY p1 p2\<bar>"

definition getDistanceZ :: "Position \<Rightarrow> Position \<Rightarrow> int" where
  "getDistanceZ p1 p2 = \<bar>getOffsetZ p1 p2\<bar>"

text \<open>The two template versions of \<open>areInRange\<close>.\<close>

definition areInRange2 :: "int \<Rightarrow> int \<Rightarrow> Position \<Rightarrow> Position \<Rightarrow> bool" where
  "areInRange2 deltax deltay p1 p2 \<longleftrightarrow>
     getDistanceX p1 p2 \<le> deltax \<and> getDistanceY p1 p2 \<le> deltay"

definition areInRange3 :: "int \<Rightarrow> int \<Rightarrow> int \<Rightarrow> Position \<Rightarrow> Position \<Rightarrow> bool" where
  "areInRange3 deltax deltay deltaz p1 p2 \<longleftrightarrow>
     getDistanceX p1 p2 \<le> deltax \<and> getDistanceY p1 p2 \<le> deltay \<and> getDistanceZ p1 p2 \<le> deltaz"

definition pos_lt :: "Position \<Rightarrow> Position \<Rightarrow> bool" where
  "pos_lt a p =
     (if posz a < posz p then True
      else if posz a > posz p then False
      else if posy a < posy p then True
      else if posy a > posy p then False
      else if posx a < posx p then True
      else False)"

definition pos_gt :: "Position \<Rightarrow> Position \<Rightarrow> bool" where
  "pos_gt a p \<longleftrightarrow> \<not> pos_lt a p"

definition pos_eq :: "Position \<Rightarrow> Position \<Rightarrow> bool" where
  "pos_eq a p \<longleftrightarrow> posx p = posx a \<and> posy p = posy a \<and> posz p = posz a"

definition pos_add :: "Position \<Rightarrow> Position \<Rightarrow> Position" where
  "pos_add a p1 = Position (posx a + posx p1) (posy a + posy p1) (posz a + posz p1)"

definition pos_sub :: "Position \<Rightarrow> Position \<Rightarrow> Position" where
  "pos_sub a p1 = Position (posx a - posx p1) (posy a - posy p1) (posz a - posz p1)"

subsection \<open>Printing\<close>

text \<open>\<open>std::setw\<close> with \<open>setfill('0')\<close> pads the decimal numeral on the left.\<close>

fun dec_digits :: "nat \<Rightarrow> string" where
  "dec_digits n = (if n < 10 then [char_of (48 + n)]
                   else dec_digits (n div 10) @ [char_of (48 + n mod 10)])"

declare dec_digits.simps [simp del]

definition setw0 :: "nat \<Rightarrow> nat \<Rightarrow> string" where
  "setw0 w n = replicate (w - length (dec_digits n)) CHR ''0'' @ dec_digits n"

definition show_pos :: "Position \<Rightarrow> string" where
  "show_pos p = ''( '' @ setw0 5 (unat (posx p)) @ '' / '' @ setw0 5 (unat (posy p)) @ '' / ''
     @ setw0 3 (unat (posz p)) @ '' )''"

fun show_dir :: "Direction \<Rightarrow> string" where
  "show_dir DIRECTION_NORTH = ''North''"
| "show_dir DIRECTION_EAST = ''East''"
| "show_dir DIRECTION_WEST = ''West''"
| "show_dir DIRECTION_SOUTH = ''South''"
| "show_dir DIRECTION_SOUTHWEST = ''South-West''"
| "show_dir DIRECTION_SOUTHEAST = ''South-East''"
| "show_dir DIRECTION_NORTHWEST = ''North-West''"
| "show_dir DIRECTION_NORTHEAST = ''North-East''"
| "show_dir DIRECTION_NONE = ''''"

subsection \<open>The direction functions of tools.cpp\<close>

definition getDirection :: "string \<Rightarrow> Direction" where
  "getDirection s =
     (if s \<in> {''north'', ''n'', ''0''} then DIRECTION_NORTH
      else if s \<in> {''east'', ''e'', ''1''} then DIRECTION_EAST
      else if s \<in> {''south'', ''s'', ''2''} then DIRECTION_SOUTH
      else if s \<in> {''west'', ''w'', ''3''} then DIRECTION_WEST
      else if s \<in> {''southwest'', ''south west'', ''south-west'', ''sw'', ''4''}
        then DIRECTION_SOUTHWEST
      else if s \<in> {''southeast'', ''south east'', ''south-east'', ''se'', ''5''}
        then DIRECTION_SOUTHEAST
      else if s \<in> {''northwest'', ''north west'', ''north-west'', ''nw'', ''6''}
        then DIRECTION_NORTHWEST
      else if s \<in> {''northeast'', ''north east'', ''north-east'', ''ne'', ''7''}
        then DIRECTION_NORTHEAST
      else DIRECTION_NORTH)"

fun getNextPosition :: "Direction \<Rightarrow> Position \<Rightarrow> Position" where
  "getNextPosition DIRECTION_NORTH (Position x y z) = Position x (y - 1) z"
| "getNextPosition DIRECTION_SOUTH (Position x y z) = Position x (y + 1) z"
| "getNextPosition DIRECTION_WEST (Position x y z) = Position (x - 1) y z"
| "getNextPosition DIRECTION_EAST (Position x y z) = Position (x + 1) y z"
| "getNextPosition DIRECTION_SOUTHWEST (Position x y z) = Position (x - 1) (y + 1) z"
| "getNextPosition DIRECTION_NORTHWEST (Position x y z) = Position (x - 1) (y - 1) z"
| "getNextPosition DIRECTION_NORTHEAST (Position x y z) = Position (x + 1) (y - 1) z"
| "getNextPosition DIRECTION_SOUTHEAST (Position x y z) = Position (x + 1) (y + 1) z"
| "getNextPosition DIRECTION_NONE p = p"

definition getDirectionTo :: "Position \<Rightarrow> Position \<Rightarrow> Direction" where
  "getDirectionTo from to =
     (let x0 = getOffsetX from to;
          dir = (if x0 < 0 then DIRECTION_EAST else DIRECTION_WEST);
          x_offset = (if x0 < 0 then \<bar>x0\<bar> else x0);
          y0 = getOffsetY from to
      in if y0 \<ge> 0 then
           (if y0 > x_offset then DIRECTION_NORTH
            else if y0 = x_offset then
              (if dir = DIRECTION_EAST then DIRECTION_NORTHEAST else DIRECTION_NORTHWEST)
            else dir)
         else
           (let y_offset = \<bar>y0\<bar>
            in if y_offset > x_offset then DIRECTION_SOUTH
               else if y_offset = x_offset then
                 (if dir = DIRECTION_EAST then DIRECTION_SOUTHEAST else DIRECTION_SOUTHWEST)
               else dir))"

subsection \<open>The order of positions\<close>

lemma pos_eq_iff [simp]: "pos_eq a p \<longleftrightarrow> a = p"
  by (cases a; cases p) (auto simp: pos_eq_def)

lemma pos_lt_Position:
  "pos_lt (Position x y z) (Position x' y' z') \<longleftrightarrow>
     z < z' \<or> z = z' \<and> (y < y' \<or> y = y' \<and> x < x')"
  by (auto simp: pos_lt_def)

instantiation Position :: linorder
begin

definition less_Position :: "Position \<Rightarrow> Position \<Rightarrow> bool" where
  "less_Position a b = pos_lt a b"

definition less_eq_Position :: "Position \<Rightarrow> Position \<Rightarrow> bool" where
  "less_eq_Position a b \<longleftrightarrow> pos_lt a b \<or> a = b"

instance
proof
  fix a b c :: Position
  show "(a < b) = (a \<le> b \<and> \<not> b \<le> a)"
    by (cases a; cases b) (auto simp: less_Position_def less_eq_Position_def pos_lt_Position)
  show "a \<le> a"
    by (simp add: less_eq_Position_def)
  show "a \<le> b \<Longrightarrow> b \<le> c \<Longrightarrow> a \<le> c"
    by (cases a; cases b; cases c) (auto simp: less_eq_Position_def pos_lt_Position)
  show "a \<le> b \<Longrightarrow> b \<le> a \<Longrightarrow> a = b"
    by (cases a; cases b) (auto simp: less_eq_Position_def pos_lt_Position)
  show "a \<le> b \<or> b \<le> a"
    by (cases a; cases b) (auto simp: less_eq_Position_def pos_lt_Position)
qed

end

subsection \<open>Offsets and steps\<close>

lemmas pos_defs = getOffsetX_def getOffsetY_def getOffsetZ_def getX_def getY_def getZ_def
  getDistanceX_def getDistanceY_def getDistanceZ_def

text \<open>A coordinate with room on both sides steps without wrapping.\<close>

definition interior :: "Position \<Rightarrow> bool" where
  "interior p \<longleftrightarrow> 0 < getX p \<and> getX p < 65535 \<and> 0 < getY p \<and> getY p < 65535"

lemma uint_step [simp]:
  fixes x :: "16 word"
  shows "uint x < 65535 \<Longrightarrow> uint (x + 1) = uint x + 1"
    and "0 < uint x \<Longrightarrow> uint (x - 1) = uint x - 1"
proof -
  have lt: "uint x < 65536" using uint_lt2p [of x] by simp
  show "uint x < 65535 \<Longrightarrow> uint (x + 1) = uint x + 1"
    by (simp add: uint_word_ariths)
  show "0 < uint x \<Longrightarrow> uint (x - 1) = uint x - 1"
    using lt by (simp add: uint_word_ariths)
qed

fun dir_dx :: "Direction \<Rightarrow> int" where
  "dir_dx DIRECTION_NORTH = 0"
| "dir_dx DIRECTION_SOUTH = 0"
| "dir_dx DIRECTION_WEST = -1"
| "dir_dx DIRECTION_EAST = 1"
| "dir_dx DIRECTION_SOUTHWEST = -1"
| "dir_dx DIRECTION_NORTHWEST = -1"
| "dir_dx DIRECTION_NORTHEAST = 1"
| "dir_dx DIRECTION_SOUTHEAST = 1"
| "dir_dx DIRECTION_NONE = 0"

fun dir_dy :: "Direction \<Rightarrow> int" where
  "dir_dy DIRECTION_NORTH = -1"
| "dir_dy DIRECTION_SOUTH = 1"
| "dir_dy DIRECTION_WEST = 0"
| "dir_dy DIRECTION_EAST = 0"
| "dir_dy DIRECTION_SOUTHWEST = 1"
| "dir_dy DIRECTION_NORTHWEST = -1"
| "dir_dy DIRECTION_NORTHEAST = -1"
| "dir_dy DIRECTION_SOUTHEAST = 1"
| "dir_dy DIRECTION_NONE = 0"

lemma getNextPosition_coords:
  assumes "interior p"
  shows "getX (getNextPosition d p) = getX p + dir_dx d"
    and "getY (getNextPosition d p) = getY p + dir_dy d"
    and "getZ (getNextPosition d p) = getZ p"
  using assms by (cases p; cases d; simp add: interior_def pos_defs)+

text \<open>What \<open>getDirectionTo\<close> computes, as a function of the displacement to the target.\<close>

definition dir_of_delta :: "int \<Rightarrow> int \<Rightarrow> Direction" where
  "dir_of_delta dx dy =
     (if \<bar>dy\<bar> > \<bar>dx\<bar> then (if dy < 0 then DIRECTION_NORTH else DIRECTION_SOUTH)
      else if \<bar>dy\<bar> = \<bar>dx\<bar> then
        (if dx > 0 then (if dy \<le> 0 then DIRECTION_NORTHEAST else DIRECTION_SOUTHEAST)
         else (if dy \<le> 0 then DIRECTION_NORTHWEST else DIRECTION_SOUTHWEST))
      else if dx > 0 then DIRECTION_EAST else DIRECTION_WEST)"

lemma getDirectionTo_delta:
  "getDirectionTo p q = dir_of_delta (getX q - getX p) (getY q - getY p)"
  by (auto simp: getDirectionTo_def dir_of_delta_def getOffsetX_def getOffsetY_def Let_def)

lemma dir_of_delta_step: "d \<noteq> DIRECTION_NONE \<Longrightarrow> dir_of_delta (dir_dx d) (dir_dy d) = d"
  by (cases d) (simp_all add: dir_of_delta_def)

lemma interior_next_delta:
  assumes "interior p"
  shows "getX (getNextPosition d p) - getX p = dir_dx d"
    and "getY (getNextPosition d p) - getY p = dir_dy d"
  using getNextPosition_coords [OF assms, of d] by simp_all

lemma getDirectionTo_next:
  assumes "interior p" and "d \<noteq> DIRECTION_NONE"
  shows "getDirectionTo p (getNextPosition d p) = d"
  using assms by (simp add: getDirectionTo_delta interior_next_delta dir_of_delta_step)

text \<open>Following the direction strictly shortens the larger of the two distances.\<close>

lemma dir_of_delta_progress:
  assumes "dx \<noteq> 0 \<or> dy \<noteq> 0"
  shows "max \<bar>dx - dir_dx (dir_of_delta dx dy)\<bar> \<bar>dy - dir_dy (dir_of_delta dx dy)\<bar>
       = max \<bar>dx\<bar> \<bar>dy\<bar> - 1"
  using assms
  by (cases "dx < 0"; cases "dy < 0"; cases "\<bar>dy\<bar> > \<bar>dx\<bar>"; cases "\<bar>dy\<bar> = \<bar>dx\<bar>";
      cases "dy = 0"; cases "dx = 0"; simp add: dir_of_delta_def max_def)

lemma getDirectionTo_approaches:
  assumes "interior p" and "getX p \<noteq> getX q \<or> getY p \<noteq> getY q"
  defines "p' \<equiv> getNextPosition (getDirectionTo p q) p"
  shows "max (getDistanceX p' q) (getDistanceY p' q)
       = max (getDistanceX p q) (getDistanceY p q) - 1"
proof -
  let ?dx = "getX q - getX p" and ?dy = "getY q - getY p"
  have "max \<bar>?dx - dir_dx (dir_of_delta ?dx ?dy)\<bar> \<bar>?dy - dir_dy (dir_of_delta ?dx ?dy)\<bar>
      = max \<bar>?dx\<bar> \<bar>?dy\<bar> - 1"
    using assms(2) by (intro dir_of_delta_progress) auto
  moreover have gx: "getX p' = getX p + dir_dx (dir_of_delta ?dx ?dy)"
    and gy: "getY p' = getY p + dir_dy (dir_of_delta ?dx ?dy)"
    using getNextPosition_coords [OF assms(1), of "getDirectionTo p q"]
    by (simp_all add: p'_def getDirectionTo_delta)
  moreover have "getDistanceX p' q = \<bar>?dx - dir_dx (dir_of_delta ?dx ?dy)\<bar>"
    unfolding getDistanceX_def getOffsetX_def gx by arith
  moreover have "getDistanceY p' q = \<bar>?dy - dir_dy (dir_of_delta ?dx ?dy)\<bar>"
    unfolding getDistanceY_def getOffsetY_def gy by arith
  moreover have "getDistanceX p q = \<bar>?dx\<bar>" and "getDistanceY p q = \<bar>?dy\<bar>"
    by (simp_all add: getDistanceX_def getDistanceY_def getOffsetX_def getOffsetY_def)
  ultimately show ?thesis by simp
qed

end
