(* ===== verification/Network_Message.thy ===== *)
theory Network_Message
  imports Position_Model
begin

section \<open>Network messages\<close>

text \<open>
  \<open>src/src/networkmessage.h\<close>, \<open>networkmessage.cpp\<close> and the class \<open>OutputMessage\<close> of
  \<open>outputmessage.h\<close>. A message is a fixed buffer of \<open>NETWORKMESSAGE_MAXSIZE\<close> bytes with a
  16-bit length and a 16-bit cursor, both wrapping (\<open>u16\<close>). \<open>OutputMessage\<close> extends the
  record, as it extends the class. Every write goes through \<open>wr_chk\<close>, so \<open>None\<close> is a
  \<open>memcpy\<close> or \<open>memset\<close> outside the buffer; the reads return their value and the message.
  Multi-byte integers are read and written by \<open>memcpy\<close>, little-endian on the targets the
  server runs on (\<open>decodeHeader\<close> relies on it too).
\<close>

abbreviation (input) "NETWORKMESSAGE_MAXSIZE \<equiv> (24590::nat)"
abbreviation (input) "HEADER_LENGTH \<equiv> (2::nat)"
abbreviation (input) "CHECKSUM_LENGTH \<equiv> (4::nat)"
abbreviation (input) "XTEA_MULTIPLE \<equiv> (8::nat)"
abbreviation (input) "INITIAL_BUFFER_POSITION \<equiv> (4::nat)"

definition MAX_BODY_LENGTH :: nat where
  "MAX_BODY_LENGTH = NETWORKMESSAGE_MAXSIZE - HEADER_LENGTH - CHECKSUM_LENGTH - XTEA_MULTIPLE"

definition MAX_PROTOCOL_BODY_LENGTH :: nat where
  "MAX_PROTOCOL_BODY_LENGTH = MAX_BODY_LENGTH - 10"

lemma MAX_BODY_LENGTH_eq: "MAX_BODY_LENGTH = 24576"
  by (simp add: MAX_BODY_LENGTH_def)

record NetworkMessage =
  nm_length :: nat
  nm_position :: nat
  nm_overrun :: bool
  nm_buffer :: mem

definition nm_reset :: "'a NetworkMessage_scheme \<Rightarrow> 'a NetworkMessage_scheme" where
  "nm_reset m = m\<lparr>nm_overrun := False, nm_length := 0, nm_position := INITIAL_BUFFER_POSITION\<rparr>"

subsection \<open>Guards\<close>

definition canAdd :: "nat \<Rightarrow> 'a NetworkMessage_scheme \<Rightarrow> bool" where
  "canAdd sz m \<longleftrightarrow> sz + nm_position m < MAX_BODY_LENGTH"

definition canRead :: "nat \<Rightarrow> 'a NetworkMessage_scheme \<Rightarrow> bool \<times> 'a NetworkMessage_scheme" where
  "canRead sz m =
     (if nm_position m + sz > nm_length m + 4
         \<or> int sz \<ge> int NETWORKMESSAGE_MAXSIZE - int (nm_position m)
      then (False, m\<lparr>nm_overrun := True\<rparr>) else (True, m))"

subsection \<open>Reading\<close>

definition getByte :: "'a NetworkMessage_scheme \<Rightarrow> byte \<times> 'a NetworkMessage_scheme" where
  "getByte m =
     (case canRead 1 m of
        (False, m') \<Rightarrow> (0, m')
      | (True, m') \<Rightarrow> (nm_buffer m' (nm_position m'), m'\<lparr>nm_position := u16 (nm_position m' + 1)\<rparr>))"

text \<open>\<open>getPreviousByte\<close> has no guard: outside the buffer it is \<open>None\<close>.\<close>

definition getPreviousByte ::
    "'a NetworkMessage_scheme \<Rightarrow> (byte \<times> 'a NetworkMessage_scheme) option" where
  "getPreviousByte m =
     (let p = u16i (int (nm_position m) - 1)
      in if p < NETWORKMESSAGE_MAXSIZE then Some (nm_buffer m p, m\<lparr>nm_position := p\<rparr>) else None)"

text \<open>\<open>get<T>\<close>, with \<open>k = sizeof(T)\<close>.\<close>

definition nm_get :: "nat \<Rightarrow> 'a NetworkMessage_scheme \<Rightarrow> nat \<times> 'a NetworkMessage_scheme" where
  "nm_get k m =
     (case canRead k m of
        (False, m') \<Rightarrow> (0, m')
      | (True, m') \<Rightarrow> (le_val (rd (nm_buffer m') (nm_position m') k),
                       m'\<lparr>nm_position := u16 (nm_position m' + k)\<rparr>))"

definition getString ::
    "nat \<Rightarrow> 'a NetworkMessage_scheme \<Rightarrow> byte list \<times> 'a NetworkMessage_scheme" where
  "getString stringLen m =
     (let (len, m1) = (if stringLen = 0 then nm_get 2 m else (stringLen, m))
      in case canRead len m1 of
           (False, m2) \<Rightarrow> ([], m2)
         | (True, m2) \<Rightarrow> (rd (nm_buffer m2) (nm_position m2) len,
                          m2\<lparr>nm_position := u16 (nm_position m2 + len)\<rparr>))"

definition getPosition :: "'a NetworkMessage_scheme \<Rightarrow> Position \<times> 'a NetworkMessage_scheme" where
  "getPosition m =
     (let (x, m1) = nm_get 2 m; (y, m2) = nm_get 2 m1; (z, m3) = getByte m2
      in (Position (of_nat x) (of_nat y) z, m3))"

definition skipBytes :: "int \<Rightarrow> 'a NetworkMessage_scheme \<Rightarrow> 'a NetworkMessage_scheme" where
  "skipBytes count m = m\<lparr>nm_position := u16i (int (nm_position m) + count)\<rparr>"

definition decodeHeader :: "'a NetworkMessage_scheme \<Rightarrow> nat \<times> 'a NetworkMessage_scheme" where
  "decodeHeader m =
     (let newSize = unat (nm_buffer m 0) + 256 * unat (nm_buffer m 1)
      in (u16 newSize, m\<lparr>nm_length := u16 newSize\<rparr>))"

definition setLength :: "nat \<Rightarrow> 'a NetworkMessage_scheme \<Rightarrow> 'a NetworkMessage_scheme" where
  "setLength newLength m = m\<lparr>nm_length := u16 newLength\<rparr>"

text \<open>\<open>getBodyBuffer\<close> moves the cursor behind the length header and returns that offset.\<close>

definition getBodyBuffer :: "'a NetworkMessage_scheme \<Rightarrow> nat \<times> 'a NetworkMessage_scheme" where
  "getBodyBuffer m = (HEADER_LENGTH, m\<lparr>nm_position := 2\<rparr>)"

subsection \<open>Writing\<close>

text \<open>The copy every write ends with: bytes at the cursor, cursor and length advanced.\<close>

definition put_bytes ::
    "byte list \<Rightarrow> 'a NetworkMessage_scheme \<Rightarrow> 'a NetworkMessage_scheme option" where
  "put_bytes bs m =
     map_option (\<lambda>b. m\<lparr>nm_buffer := b, nm_position := u16 (nm_position m + length bs),
                       nm_length := u16 (nm_length m + length bs)\<rparr>)
       (wr_chk NETWORKMESSAGE_MAXSIZE (nm_buffer m) (nm_position m) bs)"

definition addByte :: "byte \<Rightarrow> 'a NetworkMessage_scheme \<Rightarrow> 'a NetworkMessage_scheme option" where
  "addByte value m = (if \<not> canAdd 1 m then Some m else put_bytes [value] m)"

text \<open>\<open>add<T>\<close>, with \<open>k = sizeof(T)\<close>.\<close>

definition nm_add :: "nat \<Rightarrow> nat \<Rightarrow> 'a NetworkMessage_scheme \<Rightarrow> 'a NetworkMessage_scheme option" where
  "nm_add k value m = (if \<not> canAdd k m then Some m else put_bytes (le_bytes k value) m)"

definition addBytes ::
    "byte list \<Rightarrow> 'a NetworkMessage_scheme \<Rightarrow> 'a NetworkMessage_scheme option" where
  "addBytes bytes m =
     (if \<not> canAdd (length bytes) m \<or> length bytes > 8192 then Some m else put_bytes bytes m)"

definition addString ::
    "byte list \<Rightarrow> 'a NetworkMessage_scheme \<Rightarrow> 'a NetworkMessage_scheme option" where
  "addString value m =
     (let stringLen = length value
      in if \<not> canAdd (stringLen + 2) m \<or> stringLen > 8192 then Some m
         else Option.bind (nm_add 2 stringLen m) (put_bytes value))"

text \<open>\<open>addPaddingBytes\<close> fills behind the cursor and does not move it.\<close>

definition addPaddingBytes ::
    "nat \<Rightarrow> 'a NetworkMessage_scheme \<Rightarrow> 'a NetworkMessage_scheme option" where
  "addPaddingBytes n m =
     (if \<not> canAdd n m then Some m
      else map_option (\<lambda>b. m\<lparr>nm_buffer := b, nm_length := u16 (nm_length m + n)\<rparr>)
             (wr_chk NETWORKMESSAGE_MAXSIZE (nm_buffer m) (nm_position m) (replicate n 0x33)))"

definition addPosition ::
    "Position \<Rightarrow> 'a NetworkMessage_scheme \<Rightarrow> 'a NetworkMessage_scheme option" where
  "addPosition pos m =
     Option.bind (nm_add 2 (unat (posx pos)) m) (\<lambda>m1.
     Option.bind (nm_add 2 (unat (posy pos)) m1) (addByte (posz pos)))"

subsection \<open>Output messages\<close>

record OutputMessage = NetworkMessage +
  outputBufferStart :: nat

definition new_OutputMessage :: "mem \<Rightarrow> OutputMessage" where
  "new_OutputMessage b = \<lparr>nm_length = 0, nm_position = INITIAL_BUFFER_POSITION, nm_overrun = False,
     nm_buffer = b, outputBufferStart = INITIAL_BUFFER_POSITION\<rparr>"

text \<open>\<open>add_header<T>\<close>: the assertion and the copy are the two ways to fail.\<close>

definition add_header :: "nat \<Rightarrow> nat \<Rightarrow> OutputMessage \<Rightarrow> OutputMessage option" where
  "add_header k value m =
     (if outputBufferStart m < k then None
      else let s = outputBufferStart m - k
           in map_option (\<lambda>b. m\<lparr>outputBufferStart := s, nm_buffer := b,
                               nm_length := u16 (nm_length m + k)\<rparr>)
                (wr_chk NETWORKMESSAGE_MAXSIZE (nm_buffer m) s (le_bytes k value)))"

definition writeMessageLength :: "OutputMessage \<Rightarrow> OutputMessage option" where
  "writeMessageLength m = add_header 2 (nm_length m) m"

definition addCryptoHeader :: "OutputMessage \<Rightarrow> OutputMessage option" where
  "addCryptoHeader m = writeMessageLength m"

text \<open>\<open>append\<close> copies the body of another message without a guard.\<close>

definition om_append ::
    "'a NetworkMessage_scheme \<Rightarrow> 'b NetworkMessage_scheme \<Rightarrow> 'b NetworkMessage_scheme option" where
  "om_append msg m =
     (let msgLen = nm_length msg
      in if 4 + msgLen > NETWORKMESSAGE_MAXSIZE then None
         else put_bytes (rd (nm_buffer msg) 4 msgLen) m)"

subsection \<open>Well-formed messages\<close>

text \<open>
  A message under construction: the cursor stands behind the bytes written so far, and
  everything written so far fits. Reading starts behind the four header bytes.
\<close>

definition nm_wf :: "'a NetworkMessage_scheme \<Rightarrow> bool" where
  "nm_wf m \<longleftrightarrow> nm_position m = nm_length m + 4 \<and> nm_position m < MAX_BODY_LENGTH"

definition body :: "'a NetworkMessage_scheme \<Rightarrow> byte list" where
  "body m = rd (nm_buffer m) 4 (nm_length m)"

lemma nm_wf_reset: "nm_wf (nm_reset m)"
  by (simp add: nm_wf_def nm_reset_def MAX_BODY_LENGTH_eq)

lemma put_bytes_ok:
  assumes "nm_wf m" and "canAdd (length bs) m"
  shows "\<exists>m'. put_bytes bs m = Some m' \<and> nm_wf m' \<and> body m' = body m @ bs
     \<and> nm_length m' = nm_length m + length bs"
proof -
  have fit: "nm_position m + length bs < 24576" "nm_position m = nm_length m + 4"
    using assms by (auto simp: nm_wf_def canAdd_def MAX_BODY_LENGTH_eq)
  have "rd (wr (nm_buffer m) (4 + nm_length m) bs) 4 (nm_length m + length bs) = body m @ bs"
    by (simp add: rd_add body_def rd_wr_other)
  with fit show ?thesis
    by (simp add: put_bytes_def wr_chk_def nm_wf_def body_def MAX_BODY_LENGTH_eq add.commute)
qed

text \<open>
  One contract for every guarded write: nothing is written outside the buffer, the message
  stays well formed, and the body grows by exactly \<open>bs\<close> or, when the guard refuses, not at
  all.
\<close>

definition appends :: "byte list \<Rightarrow> ('a NetworkMessage_scheme \<Rightarrow> 'a NetworkMessage_scheme option) \<Rightarrow> bool" where
  "appends bs f \<longleftrightarrow>
     (\<forall>m. nm_wf m \<longrightarrow> (\<exists>m'. f m = Some m' \<and> nm_wf m' \<and>
        (if canAdd (length bs) m then body m' = body m @ bs else m' = m)))"

lemma appends_addByte: "appends [b] (addByte b)"
  using put_bytes_ok [of _ "[b]"] by (fastforce simp: appends_def addByte_def)

lemma appends_nm_add: "appends (le_bytes k v) (nm_add k v)"
  using put_bytes_ok [of _ "le_bytes k v"] by (fastforce simp: appends_def nm_add_def)

lemma appends_addBytes:
  "length bs \<le> 8192 \<Longrightarrow> appends bs (addBytes bs)"
  using put_bytes_ok [of _ bs] by (fastforce simp: appends_def addBytes_def)

lemma addString_ok:
  assumes "nm_wf m" and "canAdd (length s + 2) m" and "length s \<le> 8192"
  shows "\<exists>m'. addString s m = Some m' \<and> nm_wf m' \<and>
           body m' = body m @ le_bytes 2 (length s) @ s"
proof -
  have c2: "canAdd 2 m" using assms(2) by (simp add: canAdd_def)
  obtain m1 where m1: "nm_add 2 (length s) m = Some m1" "nm_wf m1"
      "body m1 = body m @ le_bytes 2 (length s)" "nm_length m1 = nm_length m + 2"
    using put_bytes_ok [OF assms(1), of "le_bytes 2 (length s)"] c2
    by (auto simp: nm_add_def simp del: le_bytes.simps)
  have "canAdd (length s) m1"
    using assms(1,2) m1 by (simp add: canAdd_def nm_wf_def)
  from put_bytes_ok [OF m1(2) this] show ?thesis
    using assms m1 by (auto simp: addString_def Let_def)
qed

subsection \<open>Reading back what was written\<close>

text \<open>
  The reader's view: \<open>rest m\<close> is what lies between the cursor and the end of the body.
\<close>

definition rest :: "'a NetworkMessage_scheme \<Rightarrow> byte list" where
  "rest m = rd (nm_buffer m) (nm_position m) (nm_length m + 4 - nm_position m)"

definition nm_readable :: "'a NetworkMessage_scheme \<Rightarrow> bool" where
  "nm_readable m \<longleftrightarrow> nm_position m \<le> nm_length m + 4 \<and> nm_length m + 4 < NETWORKMESSAGE_MAXSIZE"

definition start_reading :: "'a NetworkMessage_scheme \<Rightarrow> 'a NetworkMessage_scheme" where
  "start_reading m = m\<lparr>nm_position := INITIAL_BUFFER_POSITION\<rparr>"

lemma rest_start_reading [simp]: "rest (start_reading m) = body m"
  by (simp add: rest_def start_reading_def body_def)

lemma nm_readable_start: "nm_wf m \<Longrightarrow> nm_readable (start_reading m)"
  by (simp add: nm_wf_def nm_readable_def start_reading_def MAX_BODY_LENGTH_eq)

lemma canRead_iff:
  assumes "nm_readable m"
  shows "canRead k m = (if k \<le> length (rest m) then (True, m) else (False, m\<lparr>nm_overrun := True\<rparr>))"
  using assms by (auto simp: canRead_def nm_readable_def rest_def)

lemma rest_split:
  assumes "nm_readable m" and "rest m = bs @ r"
  shows "rd (nm_buffer m) (nm_position m) (length bs) = bs"
    and "rest (m\<lparr>nm_position := u16 (nm_position m + length bs)\<rparr>) = r"
    and "nm_readable (m\<lparr>nm_position := u16 (nm_position m + length bs)\<rparr>)"
proof -
  let ?n = "nm_length m + 4 - nm_position m"
  have len: "?n = length bs + length r"
    using assms(2) by (metis length_append length_rd rest_def)
  have "rd (nm_buffer m) (nm_position m) (length bs)
      @ rd (nm_buffer m) (nm_position m + length bs) (length r) = bs @ r"
    using assms(2) by (simp add: rest_def len rd_add)
  then have parts: "rd (nm_buffer m) (nm_position m) (length bs) = bs"
      "rd (nm_buffer m) (nm_position m + length bs) (length r) = r"
    by (simp_all add: append_eq_append_conv)
  have small: "nm_position m + length bs < 65536"
    using assms(1) len unfolding nm_readable_def by linarith
  have left: "nm_length m + 4 - (nm_position m + length bs) = length r"
    using len by simp
  show "rd (nm_buffer m) (nm_position m) (length bs) = bs" by (rule parts(1))
  show "rest (m\<lparr>nm_position := u16 (nm_position m + length bs)\<rparr>) = r"
    using small left parts(2) by (simp add: rest_def)
  show "nm_readable (m\<lparr>nm_position := u16 (nm_position m + length bs)\<rparr>)"
    using assms(1) small len by (auto simp: nm_readable_def)
qed

lemma nm_get_rest:
  assumes "nm_readable m" and "rest m = bs @ r" and "length bs = k"
  shows "\<exists>m'. nm_get k m = (le_val bs, m') \<and> rest m' = r \<and> nm_readable m'
     \<and> nm_buffer m' = nm_buffer m \<and> nm_length m' = nm_length m"
  using assms rest_split [OF assms(1,2)] by (simp add: nm_get_def canRead_iff)

lemma getByte_rest:
  assumes "nm_readable m" and "rest m = b # r"
  shows "\<exists>m'. getByte m = (b, m') \<and> rest m' = r \<and> nm_readable m'"
proof -
  have "rest m = [b] @ r" using assms(2) by simp
  note split = rest_split [OF assms(1) this]
  from split(1) have "nm_buffer m (nm_position m) = b" by (simp add: rd_def)
  with split assms show ?thesis by (simp add: getByte_def canRead_iff)
qed

lemma canRead_all:
  assumes "nm_readable m" and "rest m = bs @ r"
  shows "canRead (length bs) m = (True, m)"
  using assms by (simp add: canRead_iff)

lemma getString_rest:
  assumes "nm_readable m" and "rest m = le_bytes 2 (length s) @ s @ r" and "length s < 65536"
  shows "\<exists>m'. getString 0 m = (s, m') \<and> rest m' = r \<and> nm_readable m'"
proof -
  obtain m1 where m1: "nm_get 2 m = (length s, m1)" "rest m1 = s @ r" "nm_readable m1"
    using nm_get_rest [OF assms(1,2)] assms(3) by (auto simp: le_val_le_bytes simp del: le_bytes.simps)
  then show ?thesis
    using rest_split [OF m1(3,2)] canRead_all [OF m1(3,2)]
    by (simp add: getString_def)
qed

lemma getPosition_rest:
  assumes "nm_readable m"
    and "rest m = le_bytes 2 (unat (posx p)) @ le_bytes 2 (unat (posy p)) @ [posz p] @ r"
  shows "\<exists>m'. getPosition m = (p, m') \<and> rest m' = r \<and> nm_readable m'"
proof -
  have unat16: "unat w mod 256 ^ 2 = unat w" for w :: "16 word"
    using unsigned_less [of w, where ?'a = nat] by simp
  obtain m1 where m1: "nm_get 2 m = (unat (posx p), m1)"
      "rest m1 = le_bytes 2 (unat (posy p)) @ [posz p] @ r" "nm_readable m1"
    using nm_get_rest [OF assms] unat16 by (auto simp: le_val_le_bytes simp del: le_bytes.simps)
  obtain m2 where m2: "nm_get 2 m1 = (unat (posy p), m2)" "rest m2 = posz p # r" "nm_readable m2"
    using nm_get_rest [OF m1(3,2)] unat16 by (auto simp: le_val_le_bytes simp del: le_bytes.simps)
  obtain m3 where "getByte m2 = (posz p, m3)" "rest m3 = r" "nm_readable m3"
    using getByte_rest [OF m2(3,2)] by blast
  with m1 m2 show ?thesis by (cases p) (simp add: getPosition_def)
qed

end
