(* ===== verification/Protocol_Crypto.thy ===== *)
theory Protocol_Crypto
  imports Network_Message
begin

section \<open>The protocol layer: framing and XTEA\<close>

text \<open>
  \<open>src/src/protocol.cpp\<close>. The cipher works on pairs of 32-bit words, so the rounds are
  over \<open>32 word\<close> and wrap as \<open>uint32_t\<close> does. The block loop reads and writes eight bytes
  of the message buffer at a time; leaving the buffer is \<open>None\<close>. The key is the array
  \<open>key[4]\<close>. The loops of the two directions differ in their round function only and share
  \<open>xtea_loop\<close>.
\<close>

definition xtea_delta :: u32 where
  "xtea_delta = 0x61C88647"

definition xtea_mix :: "u32 \<Rightarrow> u32" where
  "xtea_mix v = (push_bit 4 v XOR drop_bit 5 v) + v"

definition xtea_key :: "u32 list \<Rightarrow> u32 \<Rightarrow> u32" where
  "xtea_key k s = k ! unat (s AND 3)"

definition enc_round :: "u32 list \<Rightarrow> u32 \<times> u32 \<times> u32 \<Rightarrow> u32 \<times> u32 \<times> u32" where
  "enc_round k = (\<lambda>(v0, v1, sum).
     let v0' = v0 + (xtea_mix v1 XOR (sum + xtea_key k sum));
         sum' = sum - xtea_delta;
         v1' = v1 + (xtea_mix v0' XOR (sum' + xtea_key k (drop_bit 11 sum')))
     in (v0', v1', sum'))"

definition dec_round :: "u32 list \<Rightarrow> u32 \<times> u32 \<times> u32 \<Rightarrow> u32 \<times> u32 \<times> u32" where
  "dec_round k = (\<lambda>(v0, v1, sum).
     let v1' = v1 - (xtea_mix v0 XOR (sum + xtea_key k (drop_bit 11 sum)));
         sum' = sum + xtea_delta;
         v0' = v0 - (xtea_mix v1' XOR (sum' + xtea_key k sum'))
     in (v0', v1', sum'))"

definition enc_block :: "u32 list \<Rightarrow> u32 \<times> u32 \<Rightarrow> u32 \<times> u32" where
  "enc_block k v = (case (enc_round k ^^ 32) (fst v, snd v, 0) of (v0, v1, _) \<Rightarrow> (v0, v1))"

definition dec_block :: "u32 list \<Rightarrow> u32 \<times> u32 \<Rightarrow> u32 \<times> u32" where
  "dec_block k v = (case (dec_round k ^^ 32) (fst v, snd v, 0xC6EF3720) of (v0, v1, _) \<Rightarrow> (v0, v1))"

definition load_block :: "mem \<Rightarrow> nat \<Rightarrow> u32 \<times> u32" where
  "load_block m p = (of_nat (le_val (rd m p 4)), of_nat (le_val (rd m (p + 4) 4)))"

definition block_bytes :: "u32 \<times> u32 \<Rightarrow> byte list" where
  "block_bytes v = le_bytes 4 (unat (fst v)) @ le_bytes 4 (unat (snd v))"

text \<open>The \<open>while (readPos < messageLength)\<close> loop over the buffer at offset \<open>base\<close>.\<close>

function xtea_loop ::
    "(u32 \<times> u32 \<Rightarrow> u32 \<times> u32) \<Rightarrow> nat \<Rightarrow> nat \<Rightarrow> nat \<Rightarrow> mem \<Rightarrow> mem option" where
  "xtea_loop f base readPos len m =
     (if readPos < len then
        (if base + readPos + 8 \<le> NETWORKMESSAGE_MAXSIZE
         then xtea_loop f base (readPos + 8) len
                (wr m (base + readPos) (block_bytes (f (load_block m (base + readPos)))))
         else None)
      else Some m)"
  by pat_completeness auto
termination
  by (relation "measure (\<lambda>(f, base, readPos, len, m). len - readPos)") auto

declare xtea_loop.simps [simp del]

record Protocol =
  pr_key :: "u32 list"
  encryptionEnabled :: bool
  rawMessages :: bool

definition XTEA_encrypt :: "Protocol \<Rightarrow> OutputMessage \<Rightarrow> OutputMessage option" where
  "XTEA_encrypt p msg =
     (let paddingBytes = nm_length msg mod 8
      in Option.bind (if paddingBytes \<noteq> 0 then addPaddingBytes (8 - paddingBytes) msg else Some msg)
           (\<lambda>msg1. map_option (\<lambda>b. msg1\<lparr>nm_buffer := b\<rparr>)
              (xtea_loop (enc_block (pr_key p)) (outputBufferStart msg1) 0 (nm_length msg1)
                 (nm_buffer msg1))))"

definition XTEA_decrypt ::
    "Protocol \<Rightarrow> 'a NetworkMessage_scheme \<Rightarrow> (bool \<times> 'a NetworkMessage_scheme) option" where
  "XTEA_decrypt p msg =
     (if (int (nm_length msg) - 2) AND 7 \<noteq> 0 then Some (False, msg)
      else let messageLength = nm_length msg - 2
           in map_option (\<lambda>b.
                let (innerLength, msg2) = nm_get 2 (msg\<lparr>nm_buffer := b\<rparr>)
                in if int innerLength > int (nm_length msg2) - 4 then (False, msg2)
                   else (True, setLength innerLength msg2))
              (xtea_loop (dec_block (pr_key p)) (nm_position msg) 0 messageLength (nm_buffer msg)))"

definition onSendMessage :: "Protocol \<Rightarrow> OutputMessage \<Rightarrow> OutputMessage option" where
  "onSendMessage p msg =
     (if \<not> rawMessages p then
        Option.bind (writeMessageLength msg) (\<lambda>msg1.
          if encryptionEnabled p then Option.bind (XTEA_encrypt p msg1) addCryptoHeader
          else Some msg1)
      else Some msg)"

text \<open>\<open>onRecvMessage\<close> hands the message to \<open>parsePacket\<close>, a virtual function: a parameter.\<close>

definition onRecvMessage ::
    "('a NetworkMessage_scheme \<Rightarrow> 's \<Rightarrow> 's) \<Rightarrow> Protocol \<Rightarrow> 'a NetworkMessage_scheme \<Rightarrow> 's \<Rightarrow> 's option" where
  "onRecvMessage parsePacket p msg s =
     (if encryptionEnabled p then
        (case XTEA_decrypt p msg of
           None \<Rightarrow> None
         | Some (False, _) \<Rightarrow> Some s
         | Some (True, msg') \<Rightarrow> Some (parsePacket msg' s))
      else Some (parsePacket msg s))"

text \<open>
  \<open>RSA_decrypt\<close> replaces the 128 bytes at the cursor by what the key \<open>g_RSA\<close> (GMP
  arithmetic, a parameter) makes of them and checks the leading zero byte.
\<close>

definition RSA_decrypt ::
    "(byte list \<Rightarrow> byte list) \<Rightarrow> 'a NetworkMessage_scheme \<Rightarrow> (bool \<times> 'a NetworkMessage_scheme) option" where
  "RSA_decrypt rsa msg =
     (if int (nm_length msg) - int (nm_position msg) \<noteq> 128 then Some (False, msg)
      else map_option (\<lambda>b. let (v, msg') = getByte (msg\<lparr>nm_buffer := b\<rparr>) in (v = 0, msg'))
             (wr_chk NETWORKMESSAGE_MAXSIZE (nm_buffer msg) (nm_position msg)
                (rsa (rd (nm_buffer msg) (nm_position msg) 128))))"

text \<open>\<open>getOutputBuffer\<close>: reuse the pending buffer while the new packet still fits.\<close>

definition getOutputBuffer :: "mem \<Rightarrow> nat \<Rightarrow> OutputMessage option \<Rightarrow> OutputMessage" where
  "getOutputBuffer fresh sz outputBuffer =
     (case outputBuffer of
        Some b \<Rightarrow> if MAX_BODY_LENGTH \<ge> nm_length b + sz then b else new_OutputMessage fresh
      | None \<Rightarrow> new_OutputMessage fresh)"

subsection \<open>The rounds are inverse\<close>

lemma dec_enc_round: "dec_round k (enc_round k st) = st"
  by (cases st) (simp add: dec_round_def enc_round_def Let_def)

lemma funpow_inverse:
  fixes f g :: "'a \<Rightarrow> 'a"
  assumes "\<And>x. g (f x) = x"
  shows "(g ^^ n) ((f ^^ n) x) = x"
proof (induction n arbitrary: x)
  case 0
  then show ?case by simp
next
  case (Suc n)
  have "(g ^^ Suc n) ((f ^^ Suc n) x) = (g ^^ n) (g (f ((f ^^ n) x)))"
    by (simp add: funpow_swap1)
  with Suc.IH assms show ?case by simp
qed

lemma enc_round_sum: "snd (snd (enc_round k st)) = snd (snd st) - xtea_delta"
  by (cases st) (simp add: enc_round_def Let_def)

lemma enc_rounds_sum: "snd (snd ((enc_round k ^^ n) st)) = snd (snd st) - of_nat n * xtea_delta"
  by (induction n) (simp_all add: enc_round_sum algebra_simps)

lemma enc_sum_32: "snd (snd ((enc_round k ^^ 32) (v0, v1, 0))) = 0xC6EF3720"
  by (simp add: enc_rounds_sum xtea_delta_def)

lemma dec_enc_block: "dec_block k (enc_block k v) = v"
proof -
  obtain w0 w1 s where e: "(enc_round k ^^ 32) (fst v, snd v, 0) = (w0, w1, s)"
    by (cases "(enc_round k ^^ 32) (fst v, snd v, 0)")
  have "s = 0xC6EF3720"
    using enc_sum_32 [of k "fst v" "snd v"] e by simp
  with e have "(dec_round k ^^ 32) (w0, w1, 0xC6EF3720) = (fst v, snd v, 0)"
    using funpow_inverse [of "dec_round k" "enc_round k" 32 "(fst v, snd v, 0)"]
    by (simp add: dec_enc_round)
  with e show ?thesis by (simp add: enc_block_def dec_block_def)
qed

subsection \<open>The block loop as a function on byte lists\<close>

definition list_block :: "byte list \<Rightarrow> u32 \<times> u32" where
  "list_block bs = (of_nat (le_val (take 4 bs)), of_nat (le_val (take 4 (drop 4 bs))))"

fun xblocks :: "(u32 \<times> u32 \<Rightarrow> u32 \<times> u32) \<Rightarrow> nat \<Rightarrow> byte list \<Rightarrow> byte list" where
  "xblocks f 0 bs = []"
| "xblocks f (Suc n) bs = block_bytes (f (list_block bs)) @ xblocks f n (drop 8 bs)"

lemma length_block_bytes [simp]: "length (block_bytes v) = 8"
  by (simp add: block_bytes_def)

lemma length_xblocks [simp]: "length (xblocks f n bs) = 8 * n"
  by (induction n arbitrary: bs) auto

lemma unat_u32_mod: "unat w mod 4294967296 = unat (w :: u32)"
  using unsigned_less [of w, where ?'a = nat] by simp

lemma le_val_u32 [simp]: "of_nat (le_val (le_bytes 4 (unat w))) = (w :: u32)"
  by (simp add: le_val_le_bytes unat_u32_mod del: le_bytes.simps)

lemma list_block_bytes [simp]: "list_block (block_bytes v @ r) = v"
  by (simp add: list_block_def block_bytes_def del: le_bytes.simps)

lemma unat_of_le_val:
  assumes "length bs = 4"
  shows "unat (of_nat (le_val bs) :: u32) = le_val bs"
  using le_val_bound [of bs] assms by (simp add: unat_of_nat)

lemma block_bytes_list_block:
  assumes "8 \<le> length bs"
  shows "block_bytes (list_block bs) = take 8 bs"
proof -
  have "take 8 bs = take 4 bs @ take 4 (drop 4 bs)"
    using take_add [of 4 4 bs] by simp
  with assms show ?thesis
    by (simp add: block_bytes_def list_block_def unat_of_le_val le_bytes_le_val)
qed

lemma xblocks_inverse:
  assumes "\<And>v. g (f v) = v"
  shows "8 * n \<le> length bs \<Longrightarrow> xblocks g n (xblocks f n bs) = take (8 * n) bs"
proof (induction n arbitrary: bs)
  case 0
  then show ?case by simp
next
  case (Suc n)
  have "xblocks g n (xblocks f n (drop 8 bs)) = take (8 * n) (drop 8 bs)"
    using Suc by simp
  then have "xblocks g (Suc n) (xblocks f (Suc n) bs) = take 8 bs @ take (8 * n) (drop 8 bs)"
    using Suc.prems assms by (simp add: block_bytes_list_block)
  then show ?case
    using take_add [of 8 "8 * n" bs] by simp
qed

lemma load_block_rd: "load_block m p = list_block (rd m p 8)"
  using rd_add [of m p 4 4] by (simp add: load_block_def list_block_def)

lemma list_block_rd_prefix: "8 \<le> n \<Longrightarrow> list_block (rd m p n) = list_block (rd m p 8)"
  using rd_add [of m p 8 "n - 8"] by (simp add: list_block_def)

lemma drop_rd: "drop k (rd m p (k + n)) = rd m (p + k) n"
  by (simp add: rd_add)

lemma xtea_loop_blocks:
  assumes "len = r + 8 * n" and "base + len \<le> NETWORKMESSAGE_MAXSIZE"
  shows "xtea_loop f base r len m = Some (wr m (base + r) (xblocks f n (rd m (base + r) (8 * n))))"
  using assms
proof (induction n arbitrary: r m)
  case 0
  then show ?case by (simp add: xtea_loop.simps)
next
  case (Suc n)
  let ?b = "block_bytes (f (load_block m (base + r)))"
  let ?m1 = "wr m (base + r) ?b"
  have "xtea_loop f base r len m = xtea_loop f base (r + 8) len ?m1"
    using Suc.prems by (simp add: xtea_loop.simps [of f base r])
  also have "\<dots> = Some (wr ?m1 (base + (r + 8)) (xblocks f n (rd ?m1 (base + (r + 8)) (8 * n))))"
    using Suc.prems by (intro Suc.IH) auto
  also have "rd ?m1 (base + (r + 8)) (8 * n) = rd m (base + r + 8) (8 * n)"
    by (simp add: rd_wr_other add.assoc)
  also have "\<dots> = drop 8 (rd m (base + r) (8 * Suc n))"
    using drop_rd [of 8 m "base + r" "8 * n"] by simp
  finally have "xtea_loop f base r len m
      = Some (wr ?m1 (base + r + 8) (xblocks f n (drop 8 (rd m (base + r) (8 * Suc n)))))"
    by (simp only: add.assoc)
  moreover have "xblocks f (Suc n) (rd m (base + r) (8 * Suc n))
      = ?b @ xblocks f n (drop 8 (rd m (base + r) (8 * Suc n)))"
    using list_block_rd_prefix [of "8 * Suc n" m "base + r"]
    by (simp only: xblocks.simps load_block_rd) simp
  ultimately show ?case
    by (simp only: wr_append length_block_bytes)
qed

subsection \<open>What goes on the wire, and back\<close>

definition pad_len :: "nat \<Rightarrow> nat" where
  "pad_len n = (if n mod 8 = 0 then 0 else 8 - n mod 8)"

text \<open>The plaintext of an encrypted packet: inner length, body, padding.\<close>

definition plain :: "byte list \<Rightarrow> byte list" where
  "plain bs = le_bytes 2 (length bs) @ bs @ replicate (pad_len (length bs + 2)) 0x33"

definition cipher :: "u32 list \<Rightarrow> byte list \<Rightarrow> byte list" where
  "cipher k bs = xblocks (enc_block k) (length (plain bs) div 8) (plain bs)"

lemma length_plain: "length (plain bs) = length bs + 2 + pad_len (length bs + 2)"
  by (simp add: plain_def)

lemma plain_dvd: "length (plain bs) mod 8 = 0"
  unfolding length_plain pad_len_def by presburger

lemma pad_len_lt: "pad_len n < 8"
  by (simp add: pad_len_def)

lemma length_cipher: "length (cipher k bs) = length (plain bs)"
  using plain_dvd [of bs] by (auto simp: cipher_def)

lemma decipher: "xblocks (dec_block k) (length (plain bs) div 8) (cipher k bs) = plain bs"
proof -
  have "8 * (length (plain bs) div 8) = length (plain bs)"
    using plain_dvd [of bs] by auto
  then show ?thesis
    using xblocks_inverse [of "dec_block k" "enc_block k" "length (plain bs) div 8" "plain bs"]
    by (simp add: cipher_def dec_enc_block)
qed

lemma add_header_ok:
  assumes "k \<le> outputBufferStart m" and "outputBufferStart m \<le> 4" and "nm_length m + k < 65536"
  shows "add_header k v m = Some (m\<lparr>outputBufferStart := outputBufferStart m - k,
     nm_buffer := wr (nm_buffer m) (outputBufferStart m - k) (le_bytes k v),
     nm_length := nm_length m + k\<rparr>)"
  using assms by (simp add: add_header_def wr_chk_def Let_def)

lemma XTEA_encrypt_ok:
  assumes "outputBufferStart m = 2" and "nm_length m = n + 2" and "nm_position m = n + 4"
    and "n + 16 < MAX_BODY_LENGTH" and "rd (nm_buffer m) 2 (n + 2) = le_bytes 2 n @ bs"
    and "length bs = n"
  shows "\<exists>m'. XTEA_encrypt p m = Some m' \<and> outputBufferStart m' = 2
     \<and> nm_length m' = length (plain bs) \<and> rd (nm_buffer m') 2 (length (plain bs)) = cipher (pr_key p) bs"
proof -
  let ?pad = "pad_len (n + 2)"
  let ?b = "wr (nm_buffer m) (n + 4) (replicate ?pad 0x33)"
  let ?m1 = "m\<lparr>nm_buffer := ?b, nm_length := n + 2 + ?pad\<rparr>"
  have padok: "n + 4 + ?pad < 24576" using assms(4) pad_len_lt [of "n + 2"] by (simp add: MAX_BODY_LENGTH_eq)
  have pad: "(if nm_length m mod 8 \<noteq> 0 then addPaddingBytes (8 - nm_length m mod 8) m else Some m) = Some ?m1"
    using padok assms(2,3)
    by (auto simp: pad_len_def addPaddingBytes_def canAdd_def MAX_BODY_LENGTH_eq wr_chk_def)
  have plen: "length (plain bs) = n + 2 + ?pad" by (simp add: length_plain assms(6))
  have "rd ?b 2 (n + 2) = le_bytes 2 n @ bs"
    using assms(5) by (simp add: rd_wr_other del: le_bytes.simps)
  moreover have "rd ?b (2 + (n + 2)) ?pad = replicate ?pad 0x33"
    using rd_wr_same' [of ?pad "replicate ?pad 0x33" "nm_buffer m" "n + 4"]
    by (simp add: numeral_eq_Suc)
  ultimately have "rd ?b 2 (n + 2 + ?pad) = plain bs"
    by (simp only: rd_add plain_def assms(6) append_assoc)
  moreover have "8 * (length (plain bs) div 8) = length (plain bs)"
    using plain_dvd [of bs] by auto
  ultimately have "xtea_loop (enc_block (pr_key p)) 2 0 (n + 2 + ?pad) ?b = Some (wr ?b 2 (cipher (pr_key p) bs))"
    using xtea_loop_blocks [of "n + 2 + ?pad" 0 "length (plain bs) div 8" 2 "enc_block (pr_key p)" ?b]
      padok plen by (simp add: cipher_def)
  then show ?thesis
    using pad assms(1) plen length_cipher [of "pr_key p" bs]
    by (simp add: XTEA_encrypt_def Let_def rd_wr_same')
qed

lemma onSendMessage_wire:
  assumes "nm_wf m" and "outputBufferStart m = 4" and "nm_length m + 16 < MAX_BODY_LENGTH"
    and "encryptionEnabled p" and "\<not> rawMessages p"
  shows "\<exists>out. onSendMessage p m = Some out \<and> outputBufferStart out = 0
     \<and> nm_length out = length (plain (body m)) + 2
     \<and> rd (nm_buffer out) 0 (nm_length out)
         = le_bytes 2 (length (plain (body m))) @ cipher (pr_key p) (body m)"
proof -
  let ?n = "nm_length m"
  let ?m1 = "m\<lparr>outputBufferStart := 2, nm_buffer := wr (nm_buffer m) 2 (le_bytes 2 ?n), nm_length := ?n + 2\<rparr>"
  have small: "?n + 16 < 24576" using assms(3) by (simp add: MAX_BODY_LENGTH_eq)
  have h1: "writeMessageLength m = Some ?m1"
    using assms(2) small by (simp add: writeMessageLength_def add_header_ok)
  have lb: "length (body m) = ?n" by (simp add: body_def)
  have "rd (wr (nm_buffer m) 2 (le_bytes 2 ?n)) 2 (?n + 2) = le_bytes 2 ?n @ body m"
    using rd_add [of "wr (nm_buffer m) 2 (le_bytes 2 ?n)" 2 2 ?n]
    by (simp add: body_def rd_wr_other rd_wr_same' add.commute del: le_bytes.simps)
  then obtain m2 where m2: "XTEA_encrypt p ?m1 = Some m2" "outputBufferStart m2 = 2"
      "nm_length m2 = length (plain (body m))"
      "rd (nm_buffer m2) 2 (length (plain (body m))) = cipher (pr_key p) (body m)"
    using XTEA_encrypt_ok [of ?m1 ?n "body m" p] assms(1,3) lb by (auto simp: nm_wf_def)
  have plen: "length (plain (body m)) + 2 < 65536"
    using small pad_len_lt [of "?n + 2"] by (simp add: length_plain lb)
  let ?m3 = "m2\<lparr>outputBufferStart := 0, nm_buffer := wr (nm_buffer m2) 0 (le_bytes 2 (nm_length m2)),
     nm_length := nm_length m2 + 2\<rparr>"
  have "addCryptoHeader m2 = Some ?m3"
    using m2(2,3) plen by (simp add: addCryptoHeader_def writeMessageLength_def add_header_ok)
  moreover have "rd (wr (nm_buffer m2) 0 (le_bytes 2 (nm_length m2))) 0 (2 + nm_length m2)
      = le_bytes 2 (nm_length m2) @ rd (nm_buffer m2) 2 (nm_length m2)"
    by (simp only: rd_add) (simp add: rd_wr_other rd_wr_same' numeral_2_eq_2 del: le_bytes.simps)
  ultimately show ?thesis
    using h1 m2 assms(4,5) by (simp add: onSendMessage_def add.commute del: le_bytes.simps)
qed

lemma and7: "(i :: int) AND 7 = i mod 8"
  using take_bit_eq_mask [of 3 i] by (simp add: take_bit_eq_mod mask_eq_exp_minus_1)

lemma rd_parts:
  assumes "rd m q (a + (b + c)) = xs @ ys @ zs" and "length xs = a" and "length ys = b"
  shows "rd m q a = xs \<and> rd m (q + a) b = ys"
  using assms by (simp add: rd_add append_eq_append_conv)

lemma XTEA_decrypt_cipher:
  assumes "nm_position m = 2" and "nm_length m = length (plain bs) + 2"
    and "length (plain bs) + 16 < NETWORKMESSAGE_MAXSIZE"
    and "rd (nm_buffer m) 2 (length (plain bs)) = cipher (pr_key p) bs"
  shows "\<exists>m'. XTEA_decrypt p m = Some (True, m') \<and> nm_length m' = length bs
     \<and> nm_position m' = 4 \<and> body m' = bs \<and> nm_overrun m' = nm_overrun m"
proof -
  let ?L = "length (plain bs)"
  let ?b = "wr (nm_buffer m) 2 (plain bs)"
  have blocks: "8 * (?L div 8) = ?L" using plain_dvd [of bs] by auto
  have loop: "xtea_loop (dec_block (pr_key p)) 2 0 ?L (nm_buffer m) = Some ?b"
    using xtea_loop_blocks [of ?L 0 "?L div 8" 2 "dec_block (pr_key p)" "nm_buffer m"]
      blocks assms(3,4) by (simp add: decipher)
  have guard: "(int (nm_length m) - 2) AND 7 = 0"
    using plain_dvd [of bs] assms(2) by (simp add: and7) presburger
  have fits: "length bs + 2 \<le> ?L" "?L < 24574" using assms(3) by (simp_all add: length_plain)
  have whole: "rd ?b 2 (2 + (length bs + pad_len (length bs + 2))) = plain bs"
    using rd_wr_same' [of "2 + (length bs + pad_len (length bs + 2))" "plain bs" "nm_buffer m" 2]
    by (simp add: length_plain)
  have head: "rd ?b 2 2 = le_bytes 2 (length bs)" and bod: "rd ?b 4 (length bs) = bs"
    using rd_parts [OF whole [unfolded plain_def]] by (simp_all add: plain_def del: le_bytes.simps)
  have get: "nm_get 2 (m\<lparr>nm_buffer := ?b\<rparr>) = (length bs, m\<lparr>nm_buffer := ?b, nm_position := 4\<rparr>)"
    using assms(1,2) fits head by (simp add: nm_get_def canRead_def le_val_le_bytes del: le_bytes.simps)
  show ?thesis
    using guard loop get assms(1,2) fits bod
    by (simp add: XTEA_decrypt_def setLength_def body_def)
qed

end
