(* ===== verification/Connection_Model.thy ===== *)
theory Connection_Model
  imports Protocol_Crypto
begin

section \<open>Connections\<close>

text \<open>
  \<open>src/src/connection.cpp\<close>: one TCP connection as a state machine. The socket, the two
  deadline timers and the completion handlers belong to Boost.Asio; of them the model keeps
  what the code relies on: whether the socket is open, which read is outstanding
  (\<open>c_reading\<close>) and whether a write is (\<open>c_writing\<close>). A completion handler consumes the
  outstanding operation, gets an error flag from the environment, and starts the next one.
  \<open>thr\<close> says that starting an operation threw \<open>boost::system::system_error\<close>.
  Every method takes \<open>connectionLock\<close>, so the steps are atomic. History variables: the
  packets handed to \<open>async_write\<close> (\<open>c_wire\<close>), the messages \<open>send\<close> accepted
  (\<open>c_accepted\<close>), the messages given to the protocol (\<open>c_delivered\<close>) and the tasks posted
  to the dispatcher (\<open>c_tasks\<close>). \<open>None\<close> is undefined behaviour: a null \<open>protocol\<close>
  dereferenced or a buffer left.
\<close>

datatype read_op = NoRead | ReadHeader | ReadBody nat

datatype conn_task = ProtocolRelease | ProtocolOnConnect

record Connection =
  c_open :: bool            \<comment> \<open>\<open>connectionState == CONNECTION_STATE_OPEN\<close>\<close>
  receivedFirst :: bool
  packetsSent :: nat
  timeConnected :: int
  messageQueue :: "OutputMessage list"
  c_protocol :: "Protocol option"
  c_msg :: NetworkMessage
  c_socket :: bool
  c_reading :: read_op
  c_writing :: bool
  c_managed :: bool         \<comment> \<open>member of the connection manager's set\<close>
  c_wire :: "byte list list"
  c_accepted :: "OutputMessage list"
  c_delivered :: "NetworkMessage list"
  c_tasks :: "conn_task list"

definition new_Connection :: "int \<Rightarrow> NetworkMessage \<Rightarrow> Connection" where
  "new_Connection now m = \<lparr>c_open = True, receivedFirst = False, packetsSent = 0,
     timeConnected = now, messageQueue = [], c_protocol = None, c_msg = m, c_socket = True,
     c_reading = NoRead, c_writing = False, c_managed = True, c_wire = [], c_accepted = [],
     c_delivered = [], c_tasks = []\<rparr>"

definition wire_bytes :: "OutputMessage \<Rightarrow> byte list" where
  "wire_bytes m = rd (nm_buffer m) (outputBufferStart m) (nm_length m)"

definition closeSocket :: "Connection \<Rightarrow> Connection" where
  "closeSocket c = (if c_socket c then c\<lparr>c_socket := False\<rparr> else c)"

definition conn_close :: "bool \<Rightarrow> Connection \<Rightarrow> Connection" where
  "conn_close force c0 =
     (let c = c0\<lparr>c_managed := False\<rparr>
      in if \<not> c_open c then c
         else let c1 = c\<lparr>c_open := False,
                         c_tasks := c_tasks c @ (if c_protocol c \<noteq> None then [ProtocolRelease] else [])\<rparr>
              in if messageQueue c1 = [] \<or> force then closeSocket c1 else c1)"

definition conn_accept :: "bool \<Rightarrow> Connection \<Rightarrow> Connection" where
  "conn_accept thr c = (if thr then conn_close True c else c\<lparr>c_reading := ReadHeader\<rparr>)"

definition conn_accept_protocol :: "bool \<Rightarrow> Protocol \<Rightarrow> Connection \<Rightarrow> Connection" where
  "conn_accept_protocol thr p c =
     conn_accept thr (c\<lparr>c_protocol := Some p, c_tasks := c_tasks c @ [ProtocolOnConnect]\<rparr>)"

definition conn_parseHeader ::
    "int \<Rightarrow> nat \<Rightarrow> bool \<Rightarrow> bool \<Rightarrow> Connection \<Rightarrow> Connection" where
  "conn_parseHeader now maxPackets error thr c0 =
     (let (sz, m) = decodeHeader (c_msg c0);
          c1 = c0\<lparr>c_msg := m, c_reading := NoRead\<rparr>;
          c2 = (if error \<or> sz \<le> 0 \<or> sz \<ge> NETWORKMESSAGE_MAXSIZE - 16 then conn_close True c1 else c1)
      in if \<not> c_open c2 then c2
         else let timePassed = max 1 (u32i (now - timeConnected c2 + 1));
                  c3 = c2\<lparr>packetsSent := u32i (int (packetsSent c2) + 1)\<rparr>
              in if packetsSent c3 div timePassed > maxPackets then conn_close False c3
                 else let c4 = (if timePassed > 2 then c3\<lparr>timeConnected := now, packetsSent := 0\<rparr> else c3)
                      in if thr then conn_close True c4
                         else c4\<lparr>c_msg := snd (getBodyBuffer (setLength (sz + HEADER_LENGTH) (c_msg c4))),
                                c_reading := ReadBody sz\<rparr>)"

definition conn_internalSend :: "bool \<Rightarrow> OutputMessage \<Rightarrow> Connection \<Rightarrow> Connection option" where
  "conn_internalSend thr m c =
     (case c_protocol c of
        None \<Rightarrow> None
      | Some p \<Rightarrow> map_option (\<lambda>out.
          let c1 = c\<lparr>messageQueue := out # tl (messageQueue c)\<rparr>
          in if thr then conn_close True c1
             else c1\<lparr>c_writing := True, c_wire := c_wire c1 @ [wire_bytes out]\<rparr>)
          (onSendMessage p m))"

definition conn_send :: "bool \<Rightarrow> OutputMessage \<Rightarrow> Connection \<Rightarrow> Connection option" where
  "conn_send thr m c =
     (if \<not> c_open c then Some c
      else let noPendingWrite = (messageQueue c = []);
               c1 = c\<lparr>messageQueue := messageQueue c @ [m], c_accepted := c_accepted c @ [m]\<rparr>
           in if noPendingWrite then conn_internalSend thr m c1 else Some c1)"

definition conn_onWriteOperation :: "bool \<Rightarrow> bool \<Rightarrow> Connection \<Rightarrow> Connection option" where
  "conn_onWriteOperation error thr c =
     (let c1 = c\<lparr>messageQueue := tl (messageQueue c), c_writing := False\<rparr>
      in if error then Some (conn_close True (c1\<lparr>messageQueue := []\<rparr>))
         else if messageQueue c1 \<noteq> [] then conn_internalSend thr (hd (messageQueue c1)) c1
         else if \<not> c_open c1 then Some (closeSocket c1)
         else Some c1)"

text \<open>The timer handler; \<open>aborted\<close> is \<open>boost::asio::error::operation_aborted\<close>.\<close>

definition conn_handleTimeout :: "bool \<Rightarrow> Connection \<Rightarrow> Connection" where
  "conn_handleTimeout aborted c = (if aborted then c else conn_close True c)"

text \<open>
  While it handles a packet the protocol may send and close on the same connection (the
  lock is recursive). Those calls are a list of actions run where the handler runs.
\<close>

datatype conn_act = ActSend bool OutputMessage | ActClose bool

fun conn_acts :: "conn_act list \<Rightarrow> Connection \<Rightarrow> Connection option" where
  "conn_acts [] c = Some c"
| "conn_acts (ActSend thr m # as) c = Option.bind (conn_send thr m c) (conn_acts as)"
| "conn_acts (ActClose f # as) c = conn_acts as (conn_close f c)"

text \<open>
  \<open>make_protocol\<close> (the service port) and \<open>onRecvFirstMessage\<close> (virtual; it sets the key and
  turns encryption on) are parameters.
\<close>

definition conn_parsePacket ::
    "(NetworkMessage \<Rightarrow> Protocol option \<times> NetworkMessage)
     \<Rightarrow> (Protocol \<Rightarrow> NetworkMessage \<Rightarrow> Protocol) \<Rightarrow> conn_act list \<Rightarrow> bool \<Rightarrow> bool
     \<Rightarrow> Connection \<Rightarrow> Connection option" where
  "conn_parsePacket make_protocol recvFirst acts error thr c0 =
     (let c1 = c0\<lparr>c_reading := NoRead\<rparr>;
          c2 = (if error then conn_close True c1 else c1);
          next_read = (\<lambda>c. if thr then conn_close True c else c\<lparr>c_reading := ReadHeader\<rparr>);
          first = (\<lambda>p m c. map_option next_read
             (conn_acts acts (c\<lparr>c_protocol := Some (recvFirst p m), c_msg := m,
                               c_delivered := c_delivered c @ [m]\<rparr>)))
      in if \<not> c_open c2 then Some c2
         else if \<not> receivedFirst c2 then
           (let c3 = c2\<lparr>receivedFirst := True\<rparr>
            in case c_protocol c3 of
                 None \<Rightarrow> (case make_protocol (c_msg c3) of
                    (None, m) \<Rightarrow> Some (conn_close True (c3\<lparr>c_msg := m\<rparr>))
                  | (Some p, m) \<Rightarrow> first p m c3)
               | Some p \<Rightarrow> first p (skipBytes 1 (c_msg c3)) c3)
         else
           (case c_protocol c2 of
              None \<Rightarrow> None
            | Some p \<Rightarrow>
                (if encryptionEnabled p then
                   (case XTEA_decrypt p (c_msg c2) of
                      None \<Rightarrow> None
                    | Some (False, m) \<Rightarrow> Some (next_read (c2\<lparr>c_msg := m\<rparr>))
                    | Some (True, m) \<Rightarrow> map_option next_read
                        (conn_acts acts (c2\<lparr>c_msg := m, c_delivered := c_delivered c2 @ [m]\<rparr>)))
                 else map_option next_read
                        (conn_acts acts (c2\<lparr>c_delivered := c_delivered c2 @ [c_msg c2]\<rparr>)))))"

subsection \<open>The write queue\<close>

text \<open>
  \<open>outs\<close> are the processed messages handed to \<open>async_write\<close>: they are a prefix of what
  \<open>send\<close> accepted, in that order. While a write is outstanding its message is the head of
  the queue and the tail is the rest of the accepted ones; an open connection with no write
  outstanding has written everything.
\<close>

definition processed :: "OutputMessage \<Rightarrow> OutputMessage \<Rightarrow> bool" where
  "processed out m \<longleftrightarrow> (\<exists>p. onSendMessage p m = Some out)"

definition queue_inv :: "Connection \<Rightarrow> OutputMessage list \<Rightarrow> bool" where
  "queue_inv c outs \<longleftrightarrow>
     c_wire c = map wire_bytes outs \<and> length outs \<le> length (c_accepted c)
     \<and> list_all2 processed outs (take (length outs) (c_accepted c))
     \<and> (c_writing c \<longrightarrow> (messageQueue c \<noteq> [] \<and> outs \<noteq> [] \<and> hd (messageQueue c) = last outs
          \<and> tl (messageQueue c) = drop (length outs) (c_accepted c)))
     \<and> (\<not> c_writing c \<and> c_open c \<longrightarrow> messageQueue c = [] \<and> length outs = length (c_accepted c))"

definition conn_inv :: "Connection \<Rightarrow> bool" where
  "conn_inv c \<longleftrightarrow> (\<exists>outs. queue_inv c outs)"

lemmas queue_fields = queue_inv_def

lemma conn_close_frame [simp]:
  "messageQueue (conn_close f c) = messageQueue c" "c_writing (conn_close f c) = c_writing c"
  "c_wire (conn_close f c) = c_wire c" "c_accepted (conn_close f c) = c_accepted c"
  "\<not> c_open (conn_close f c)" "c_protocol (conn_close f c) = c_protocol c"
  "\<not> c_managed (conn_close f c)" "c_delivered (conn_close f c) = c_delivered c"
  by (auto simp: conn_close_def closeSocket_def Let_def)

lemma closeSocket_frame [simp]:
  "messageQueue (closeSocket c) = messageQueue c" "c_writing (closeSocket c) = c_writing c"
  "c_wire (closeSocket c) = c_wire c" "c_accepted (closeSocket c) = c_accepted c"
  "c_open (closeSocket c) = c_open c" "\<not> c_socket (closeSocket c)"
  by (auto simp: closeSocket_def)

lemma conn_inv_close: "conn_inv c \<Longrightarrow> conn_inv (conn_close f c)"
  by (auto simp: conn_inv_def queue_inv_def)

text \<open>The invariant reads five fields only.\<close>

lemma conn_inv_upd [simp]:
  "conn_inv (c\<lparr>c_protocol := p\<rparr>) = conn_inv c" "conn_inv (c\<lparr>c_msg := m\<rparr>) = conn_inv c"
  "conn_inv (c\<lparr>c_delivered := d\<rparr>) = conn_inv c" "conn_inv (c\<lparr>receivedFirst := b\<rparr>) = conn_inv c"
  "conn_inv (c\<lparr>c_reading := r\<rparr>) = conn_inv c" "conn_inv (c\<lparr>packetsSent := n\<rparr>) = conn_inv c"
  "conn_inv (c\<lparr>timeConnected := t\<rparr>) = conn_inv c" "conn_inv (c\<lparr>c_tasks := ts\<rparr>) = conn_inv c"
  by (simp_all add: conn_inv_def queue_inv_def)

lemma list_all2_processed_snoc:
  assumes "list_all2 processed outs (take (length outs) acc)"
    and "length outs < length acc" and "processed o' (acc ! length outs)"
  shows "list_all2 processed (outs @ [o']) (take (Suc (length outs)) acc)"
  using assms by (auto simp: take_Suc_conv_app_nth list_all2_append)

lemma internalSend_inv:
  assumes "conn_internalSend thr m c = Some c'"
    and "c_wire c = map wire_bytes outs" and "list_all2 processed outs (take (length outs) (c_accepted c))"
    and "messageQueue c = drop (length outs) (c_accepted c)" and "messageQueue c \<noteq> []"
    and "hd (messageQueue c) = m" and "\<not> c_writing c"
  shows "conn_inv c'"
proof -
  from assms(1) obtain p out where p: "c_protocol c = Some p" "onSendMessage p m = Some out"
    and c': "c' = (let c1 = c\<lparr>messageQueue := out # tl (messageQueue c)\<rparr>
          in if thr then conn_close True c1
             else c1\<lparr>c_writing := True, c_wire := c_wire c1 @ [wire_bytes out]\<rparr>)"
    by (auto simp: conn_internalSend_def split: option.splits)
  have lt: "length outs < length (c_accepted c)"
    using assms(4,5) by (metis drop_all leI)
  have "c_accepted c ! length outs = m"
    using assms(4,6) lt by (simp add: hd_drop_conv_nth)
  then have all2: "list_all2 processed (outs @ [out]) (take (Suc (length outs)) (c_accepted c))"
    using list_all2_processed_snoc [OF assms(3) lt] p(2) by (auto simp: processed_def)
  show ?thesis
  proof (cases thr)
    case True
    then have "queue_inv c' outs"
      using c' assms lt by (auto simp: queue_inv_def)
    then show ?thesis by (auto simp: conn_inv_def)
  next
    case False
    then have "queue_inv c' (outs @ [out])"
      using c' assms lt all2 by (auto simp: queue_inv_def Let_def tl_drop drop_Suc)
    then show ?thesis by (auto simp: conn_inv_def)
  qed
qed

lemma conn_send_inv:
  assumes "conn_inv c" and "conn_send thr m c = Some c'"
  shows "conn_inv c'"
proof (cases "c_open c \<and> messageQueue c = []")
  case True
  from assms(1) obtain outs where q: "queue_inv c outs" by (auto simp: conn_inv_def)
  with True have nw: "\<not> c_writing c" and len: "length outs = length (c_accepted c)"
    by (auto simp: queue_inv_def)
  let ?c1 = "c\<lparr>messageQueue := [m], c_accepted := c_accepted c @ [m]\<rparr>"
  have "conn_internalSend thr m ?c1 = Some c'"
    using assms(2) True by (simp add: conn_send_def)
  then show ?thesis
    by (rule internalSend_inv [where outs = outs]) (use q nw len in \<open>auto simp: queue_inv_def\<close>)
next
  case False
  with assms show ?thesis
    by (auto simp: conn_send_def conn_inv_def queue_inv_def split: if_splits)
qed

lemma conn_onWrite_inv:
  assumes "conn_inv c" and "c_writing c" and "conn_onWriteOperation error thr c = Some c'"
  shows "conn_inv c'"
proof -
  from assms(1) obtain outs where q: "queue_inv c outs" by (auto simp: conn_inv_def)
  let ?c1 = "c\<lparr>messageQueue := tl (messageQueue c), c_writing := False\<rparr>"
  consider "error" | "\<not> error" "tl (messageQueue c) \<noteq> []" | "\<not> error" "tl (messageQueue c) = []"
    by blast
  then show ?thesis
  proof cases
    case 1
    then have "queue_inv c' outs" using assms(3) q by (auto simp: conn_onWriteOperation_def Let_def queue_inv_def)
    then show ?thesis by (auto simp: conn_inv_def)
  next
    case 2
    then have "conn_internalSend thr (hd (tl (messageQueue c))) ?c1 = Some c'"
      using assms(3) by (simp add: conn_onWriteOperation_def Let_def)
    then show ?thesis
      by (rule internalSend_inv [where outs = outs]) (use q 2 assms(2) in \<open>auto simp: queue_inv_def\<close>)
  next
    case 3
    then have "queue_inv c' outs"
      using assms(2,3) q by (auto simp: conn_onWriteOperation_def Let_def queue_inv_def split: if_splits)
    then show ?thesis by (auto simp: conn_inv_def)
  qed
qed

lemma conn_acts_inv: "conn_inv c \<Longrightarrow> conn_acts as c = Some c' \<Longrightarrow> conn_inv c'"
  by (induction as c rule: conn_acts.induct)
    (auto simp: bind_eq_Some_conv intro: conn_send_inv conn_inv_close)

lemma conn_parseHeader_inv: "conn_inv c \<Longrightarrow> conn_inv (conn_parseHeader now mx error thr c)"
  by (simp add: conn_parseHeader_def Let_def decodeHeader_def conn_inv_close)

lemma conn_parsePacket_inv:
  assumes "conn_inv c" and "conn_parsePacket mk rf acts error thr c = Some c'"
  shows "conn_inv c'"
proof -
  have run: "conn_acts acts c1 = Some c2 \<Longrightarrow> conn_inv c1 \<Longrightarrow> conn_inv c2" for c1 c2
    by (rule conn_acts_inv)
  show ?thesis
    using assms
    by (auto simp: conn_parsePacket_def Let_def conn_inv_close
        split: if_splits option.splits prod.splits bool.splits dest!: run)
qed

subsection \<open>Runs of a connection\<close>

text \<open>The bytes of a completed read, placed where \<open>async_read\<close> was told to put them.\<close>

definition fill :: "nat \<Rightarrow> byte list \<Rightarrow> Connection \<Rightarrow> Connection" where
  "fill p bs c = c\<lparr>c_msg := (c_msg c)\<lparr>nm_buffer := wr (nm_buffer (c_msg c)) p bs\<rparr>\<rparr>"

inductive conn_step :: "Connection \<Rightarrow> Connection \<Rightarrow> bool" where
  accept: "conn_step c (conn_accept thr c)"
| accept_protocol: "conn_step c (conn_accept_protocol thr p c)"
| header: "c_reading c = ReadHeader \<Longrightarrow> length h = 2 \<Longrightarrow>
     conn_step c (conn_parseHeader now mx err thr (fill 0 h c))"
| packet: "c_reading c = ReadBody n \<Longrightarrow> length b = n \<Longrightarrow>
     conn_parsePacket mk rf acts err thr (fill 2 b c) = Some c' \<Longrightarrow> conn_step c c'"
| written: "c_writing c \<Longrightarrow> conn_onWriteOperation err thr c = Some c' \<Longrightarrow> conn_step c c'"
| send: "conn_send thr m c = Some c' \<Longrightarrow> conn_step c c'"
| close: "conn_step c (conn_close f c)"
| timeout: "conn_step c (conn_handleTimeout aborted c)"

inductive conn_reach :: "Connection \<Rightarrow> bool" where
  start: "conn_reach (new_Connection now m)"
| step: "conn_reach c \<Longrightarrow> conn_step c c' \<Longrightarrow> conn_reach c'"

lemma conn_inv_fill [simp]: "conn_inv (fill p bs c) = conn_inv c"
  by (simp add: fill_def)

lemma conn_step_inv: "conn_step c c' \<Longrightarrow> conn_inv c \<Longrightarrow> conn_inv c'"
proof (induction rule: conn_step.induct)
  case (packet c n b mk rf acts err thr c')
  then show ?case by (metis conn_inv_fill conn_parsePacket_inv)
next
  case (written c err thr c')
  then show ?case by (metis conn_onWrite_inv)
next
  case (send thr m c c')
  then show ?case by (metis conn_send_inv)
qed (auto simp: conn_accept_def conn_accept_protocol_def conn_handleTimeout_def
       conn_inv_close conn_parseHeader_inv)

lemma conn_reach_inv: "conn_reach c \<Longrightarrow> conn_inv c"
proof (induction rule: conn_reach.induct)
  case (start now m)
  show ?case by (simp add: conn_inv_def queue_inv_def new_Connection_def)
next
  case (step c c')
  then show ?case by (blast intro: conn_step_inv)
qed

subsection \<open>Reads stay inside the message buffer\<close>

definition read_bounded :: "Connection \<Rightarrow> bool" where
  "read_bounded c \<longleftrightarrow> (\<forall>n. c_reading c = ReadBody n \<longrightarrow>
      0 < n \<and> n + HEADER_LENGTH < NETWORKMESSAGE_MAXSIZE - 14 \<and> nm_length (c_msg c) = n + 2
      \<and> nm_position (c_msg c) = 2)"

lemma conn_close_reading [simp]:
  "c_reading (conn_close f c) = c_reading c" "c_msg (conn_close f c) = c_msg c"
  by (simp_all add: conn_close_def closeSocket_def Let_def)

lemma closeSocket_reading [simp]:
  "c_reading (closeSocket c) = c_reading c" "c_msg (closeSocket c) = c_msg c"
  by (simp_all add: closeSocket_def)

lemma internalSend_reading:
  "conn_internalSend thr m c = Some c' \<Longrightarrow> c_reading c' = c_reading c \<and> c_msg c' = c_msg c"
  by (auto simp: conn_internalSend_def Let_def split: option.splits if_splits)

lemma conn_send_reading:
  "conn_send thr m c = Some c' \<Longrightarrow> c_reading c' = c_reading c \<and> c_msg c' = c_msg c"
  by (auto simp: conn_send_def Let_def dest!: internalSend_reading split: if_splits)

lemma conn_acts_reading:
  "conn_acts as c = Some c' \<Longrightarrow> c_reading c' = c_reading c \<and> c_msg c' = c_msg c"
  by (induction as c rule: conn_acts.induct)
    (fastforce simp: bind_eq_Some_conv dest: conn_send_reading)+

lemma conn_onWrite_reading:
  "conn_onWriteOperation e thr c = Some c' \<Longrightarrow> c_reading c' = c_reading c \<and> c_msg c' = c_msg c"
  by (auto simp: conn_onWriteOperation_def Let_def dest!: internalSend_reading split: if_splits)

lemma parsePacket_reading:
  assumes "conn_parsePacket mk rf acts e thr c = Some c'"
  shows "c_reading c' = NoRead \<or> c_reading c' = ReadHeader"
proof -
  have run: "conn_acts acts c1 = Some c2 \<Longrightarrow> c_reading c2 = c_reading c1" for c1 c2
    using conn_acts_reading by blast
  show ?thesis
    using assms
    by (auto simp: conn_parsePacket_def Let_def
        split: if_splits option.splits prod.splits bool.splits dest!: run)
qed

lemma conn_step_bounded: "conn_step c c' \<Longrightarrow> read_bounded c \<Longrightarrow> read_bounded c'"
proof (induction rule: conn_step.induct)
  case (header c h now mx err thr)
  have "unat (nm_buffer (c_msg (fill 0 h c)) 0) + 256 * unat (nm_buffer (c_msg (fill 0 h c)) 1) < 65536"
    using le_val_bound [of "[nm_buffer (c_msg (fill 0 h c)) 0, nm_buffer (c_msg (fill 0 h c)) 1]"] by simp
  then show ?case
    by (auto simp: read_bounded_def conn_parseHeader_def Let_def decodeHeader_def getBodyBuffer_def
        setLength_def split: if_splits)
next
  case (packet c n b mk rf acts err thr c')
  then show ?case using parsePacket_reading by (fastforce simp: read_bounded_def)
next
  case (written c err thr c')
  then show ?case using conn_onWrite_reading by (fastforce simp: read_bounded_def)
next
  case (send thr m c c')
  then show ?case using conn_send_reading by (fastforce simp: read_bounded_def)
qed (auto simp: read_bounded_def conn_accept_def conn_accept_protocol_def conn_handleTimeout_def)

lemma conn_reach_bounded: "conn_reach c \<Longrightarrow> read_bounded c"
proof (induction rule: conn_reach.induct)
  case (start now m)
  show ?case by (simp add: read_bounded_def new_Connection_def)
next
  case (step c c')
  then show ?case by (blast intro: conn_step_bounded)
qed

subsection \<open>Receiving a packet\<close>




subsection \<open>Properties\<close>

text \<open>C2: In every reachable state of a connection the packets handed to the socket are, in
  order and without loss or repetition, the framed and encrypted images of a prefix of the
  messages \<open>send\<close> accepted; an open connection with no write outstanding has handed over
  all of them.\<close>

theorem conn_writes_in_order:
  assumes "conn_reach c"
  shows "\<exists>outs. c_wire c = map wire_bytes outs
     \<and> list_all2 processed outs (take (length outs) (c_accepted c))
     \<and> (c_open c \<and> \<not> c_writing c \<longrightarrow> length outs = length (c_accepted c))"
  using conn_reach_inv [OF assms] by (auto simp: conn_inv_def queue_inv_def)

definition demo_protocol :: Protocol where
  "demo_protocol = \<lparr>pr_key = [1, 2, 3, 4], encryptionEnabled = False, rawMessages = True\<rparr>"

definition demo_conn :: Connection where
  "demo_conn = conn_accept_protocol False demo_protocol (new_Connection 0
     \<lparr>nm_length = 0, nm_position = 4, nm_overrun = False, nm_buffer = (\<lambda>_. 0)\<rparr>)"

lemma demo_conn_reach: "conn_reach demo_conn"
  unfolding demo_conn_def by (rule conn_reach.step [OF conn_reach.start conn_step.accept_protocol])

theorem conn_writes_in_order_witness:
  "conn_reach demo_conn \<and> (\<exists>outs. c_wire demo_conn = map wire_bytes outs
     \<and> list_all2 processed outs (take (length outs) (c_accepted demo_conn))
     \<and> (c_open demo_conn \<and> \<not> c_writing demo_conn \<longrightarrow> length outs = length (c_accepted demo_conn)))"
  using conn_writes_in_order [OF demo_conn_reach] demo_conn_reach by blast

text \<open>C5: Whenever a connection is waiting for a packet body, the announced size is positive and
  the body, read at offset 2, ends inside the message buffer; the message length covers
  exactly header and body.\<close>

theorem conn_body_read_in_bounds:
  assumes "conn_reach c" and "c_reading c = ReadBody n"
  shows "0 < n \<and> HEADER_LENGTH + n < NETWORKMESSAGE_MAXSIZE \<and> nm_length (c_msg c) = n + 2"
  using conn_reach_bounded [OF assms(1)] assms(2) by (auto simp: read_bounded_def)

lemma demo_header_reach:
  "conn_reach (conn_parseHeader 0 10 False False (fill 0 [8, 0] demo_conn))"
  by (rule conn_reach.step [OF demo_conn_reach], rule conn_step.header)
    (simp_all add: demo_conn_def conn_accept_protocol_def conn_accept_def)

lemma demo_header_reading:
  "c_reading (conn_parseHeader 0 10 False False (fill 0 [8, 0] demo_conn)) = ReadBody 8"
  by (simp add: conn_parseHeader_def decodeHeader_def fill_def demo_conn_def wr_def
      conn_accept_protocol_def conn_accept_def new_Connection_def Let_def)

theorem conn_body_read_in_bounds_witness:
  "c_reading (conn_parseHeader 0 10 False False (fill 0 [8, 0] demo_conn)) = ReadBody 8
   \<and> nm_length (c_msg (conn_parseHeader 0 10 False False (fill 0 [8, 0] demo_conn))) = 8 + 2"
  using conn_body_read_in_bounds [OF demo_header_reach demo_header_reading] demo_header_reading
  by simp






text \<open>The write timer cannot stop a connection that was closed while messages were still
  queued: once the state is closed, the forced close of \<open>handleTimeout\<close> returns early and the
  socket stays open with its write outstanding, however often the timer fires.\<close>

lemma timeout_ignored_after_graceful_close:
  assumes "c_open c" and "messageQueue c \<noteq> []" and "c_socket c" and "c_writing c"
  shows "((conn_handleTimeout False) ^^ n) (conn_close False c) = conn_close False c
     \<and> c_socket (conn_close False c) \<and> c_writing (conn_close False c)"
proof -
  have "conn_handleTimeout False (conn_close False c) = conn_close False c"
    using assms(1) by (simp add: conn_handleTimeout_def conn_close_def [of True] Let_def)
  then have "((conn_handleTimeout False) ^^ n) (conn_close False c) = conn_close False c"
    by (induction n) simp_all
  then show ?thesis using assms by (simp add: conn_close_def Let_def)
qed

definition demo_busy :: Connection where
  "demo_busy = demo_conn\<lparr>messageQueue := [new_OutputMessage (\<lambda>_. 0)], c_writing := True\<rparr>"

lemma timeout_ignored_after_graceful_close_witness:
  "((conn_handleTimeout False) ^^ 3) (conn_close False demo_busy) = conn_close False demo_busy
     \<and> c_socket (conn_close False demo_busy) \<and> c_writing (conn_close False demo_busy)"
  by (rule timeout_ignored_after_graceful_close)
    (simp_all add: demo_busy_def demo_conn_def conn_accept_protocol_def conn_accept_def new_Connection_def)

end
