(* ===== verification/Tools_Model.thy ===== *)
theory Tools_Model
  imports Position_Model "HOL-Library.Sublist"
begin

section \<open>Return values and the string tools\<close>

text \<open>
  The result codes of \<open>src/src/enums.h\<close> with their texts, and the pure functions of
  \<open>src/src/tools.cpp\<close>: case folding, trimming, splitting and replacing, the fluid and combat
  type tables, attribute names. Strings are byte strings; \<open>tolower\<close> and \<open>toupper\<close> are those
  of the C locale, which the server never changes. \<open>explodeString\<close> and \<open>replaceString\<close> loop
  for ever on an empty pattern, so they are partial functions and their totality for the
  other patterns is proved.
\<close>

datatype (plugins only: code) ReturnValue =
    RETURNVALUE_NOERROR | RETURNVALUE_NOTPOSSIBLE
  | RETURNVALUE_NOTENOUGHROOM | RETURNVALUE_PLAYERISPZLOCKED
  | RETURNVALUE_PLAYERISNOTINVITED | RETURNVALUE_CANNOTTHROW
  | RETURNVALUE_THEREISNOWAY | RETURNVALUE_DESTINATIONOUTOFREACH
  | RETURNVALUE_CREATUREBLOCK | RETURNVALUE_NOTMOVEABLE
  | RETURNVALUE_DROPTWOHANDEDITEM | RETURNVALUE_BOTHHANDSNEEDTOBEFREE
  | RETURNVALUE_CANONLYUSEONEWEAPON | RETURNVALUE_NEEDEXCHANGE
  | RETURNVALUE_CANNOTBEDRESSED | RETURNVALUE_PUTTHISOBJECTINYOURHAND
  | RETURNVALUE_PUTTHISOBJECTINBOTHHANDS | RETURNVALUE_TOOFARAWAY
  | RETURNVALUE_FIRSTGODOWNSTAIRS | RETURNVALUE_FIRSTGOUPSTAIRS
  | RETURNVALUE_CONTAINERNOTENOUGHROOM | RETURNVALUE_NOTENOUGHCAPACITY
  | RETURNVALUE_CANNOTPICKUP | RETURNVALUE_THISISIMPOSSIBLE
  | RETURNVALUE_DEPOTISFULL | RETURNVALUE_CREATUREDOESNOTEXIST
  | RETURNVALUE_CANNOTUSETHISOBJECT | RETURNVALUE_PLAYERWITHTHISNAMEISNOTONLINE
  | RETURNVALUE_NOTREQUIREDLEVELTOUSERUNE | RETURNVALUE_YOUAREALREADYTRADING
  | RETURNVALUE_THISPLAYERISALREADYTRADING | RETURNVALUE_YOUMAYNOTLOGOUTDURINGAFIGHT
  | RETURNVALUE_DIRECTPLAYERSHOOT | RETURNVALUE_NOTENOUGHLEVEL
  | RETURNVALUE_NOTENOUGHMAGICLEVEL | RETURNVALUE_NOTENOUGHMANA
  | RETURNVALUE_NOTENOUGHSOUL | RETURNVALUE_YOUAREEXHAUSTED
  | RETURNVALUE_PLAYERISNOTREACHABLE | RETURNVALUE_CANONLYUSETHISRUNEONCREATURES
  | RETURNVALUE_ACTIONNOTPERMITTEDINPROTECTIONZONE | RETURNVALUE_YOUMAYNOTATTACKTHISPLAYER
  | RETURNVALUE_YOUMAYNOTATTACKAPERSONINPROTECTIONZONE | RETURNVALUE_YOUMAYNOTATTACKAPERSONWHILEINPROTECTIONZONE
  | RETURNVALUE_YOUMAYNOTATTACKTHISCREATURE | RETURNVALUE_YOUCANONLYUSEITONCREATURES
  | RETURNVALUE_CREATUREISNOTREACHABLE | RETURNVALUE_TURNSECUREMODETOATTACKUNMARKEDPLAYERS
  | RETURNVALUE_YOUNEEDPREMIUMACCOUNT | RETURNVALUE_YOUNEEDTOLEARNTHISSPELL
  | RETURNVALUE_YOURVOCATIONCANNOTUSETHISSPELL | RETURNVALUE_YOUNEEDAWEAPONTOUSETHISSPELL
  | RETURNVALUE_PLAYERISPZLOCKEDLEAVEPVPZONE | RETURNVALUE_PLAYERISPZLOCKEDENTERPVPZONE
  | RETURNVALUE_ACTIONNOTPERMITTEDINANOPVPZONE | RETURNVALUE_YOUCANNOTLOGOUTHERE
  | RETURNVALUE_YOUNEEDAMAGICITEMTOCASTSPELL | RETURNVALUE_CANNOTCONJUREITEMHERE
  | RETURNVALUE_YOUNEEDTOSPLITYOURSPEARS | RETURNVALUE_NAMEISTOOAMBIGIOUS
  | RETURNVALUE_CANONLYUSEONESHIELD | RETURNVALUE_NOPARTYMEMBERSINRANGE
  | RETURNVALUE_YOUARENOTTHEOWNER

primrec getReturnMessage :: "ReturnValue \<Rightarrow> string" where
  "getReturnMessage RETURNVALUE_DESTINATIONOUTOFREACH = ''Destination is out of reach.''"
| "getReturnMessage RETURNVALUE_NOTMOVEABLE = ''You cannot move this object.''"
| "getReturnMessage RETURNVALUE_DROPTWOHANDEDITEM = ''Drop the double-handed object first.''"
| "getReturnMessage RETURNVALUE_BOTHHANDSNEEDTOBEFREE = ''Both hands need to be free.''"
| "getReturnMessage RETURNVALUE_CANNOTBEDRESSED = ''You cannot dress this object there.''"
| "getReturnMessage RETURNVALUE_PUTTHISOBJECTINYOURHAND = ''Put this object in your hand.''"
| "getReturnMessage RETURNVALUE_PUTTHISOBJECTINBOTHHANDS = ''Put this object in both hands.''"
| "getReturnMessage RETURNVALUE_CANONLYUSEONEWEAPON = ''You may only use one weapon.''"
| "getReturnMessage RETURNVALUE_TOOFARAWAY = ''Too far away.''"
| "getReturnMessage RETURNVALUE_FIRSTGODOWNSTAIRS = ''First go downstairs.''"
| "getReturnMessage RETURNVALUE_FIRSTGOUPSTAIRS = ''First go upstairs.''"
| "getReturnMessage RETURNVALUE_NOTENOUGHCAPACITY = ''This object is too heavy for you to carry.''"
| "getReturnMessage RETURNVALUE_CONTAINERNOTENOUGHROOM = ''You cannot put more objects in this container.''"
| "getReturnMessage RETURNVALUE_NEEDEXCHANGE = ''There is not enough room.''"
| "getReturnMessage RETURNVALUE_NOTENOUGHROOM = ''There is not enough room.''"
| "getReturnMessage RETURNVALUE_CANNOTPICKUP = ''You cannot take this object.''"
| "getReturnMessage RETURNVALUE_CANNOTTHROW = ''You cannot throw there.''"
| "getReturnMessage RETURNVALUE_THEREISNOWAY = ''There is no way.''"
| "getReturnMessage RETURNVALUE_THISISIMPOSSIBLE = ''This is impossible.''"
| "getReturnMessage RETURNVALUE_PLAYERISPZLOCKED = ''You can not enter a protection zone after attacking another player.''"
| "getReturnMessage RETURNVALUE_PLAYERISNOTINVITED = ''You are not invited.''"
| "getReturnMessage RETURNVALUE_CREATUREDOESNOTEXIST = ''Creature does not exist.''"
| "getReturnMessage RETURNVALUE_DEPOTISFULL = ''You cannot put more items in this depot.''"
| "getReturnMessage RETURNVALUE_CANNOTUSETHISOBJECT = ''You cannot use this object.''"
| "getReturnMessage RETURNVALUE_PLAYERWITHTHISNAMEISNOTONLINE = ''A player with this name is not online.''"
| "getReturnMessage RETURNVALUE_NOTREQUIREDLEVELTOUSERUNE = ''You do not have the required magic level to use this rune.''"
| "getReturnMessage RETURNVALUE_YOUAREALREADYTRADING = ''You are already trading.''"
| "getReturnMessage RETURNVALUE_THISPLAYERISALREADYTRADING = ''This player is already trading.''"
| "getReturnMessage RETURNVALUE_YOUMAYNOTLOGOUTDURINGAFIGHT = ''You may not logout during or immediately after a fight!''"
| "getReturnMessage RETURNVALUE_DIRECTPLAYERSHOOT = ''You are not allowed to shoot directly on players.''"
| "getReturnMessage RETURNVALUE_NOTENOUGHLEVEL = ''You do not have enough level.''"
| "getReturnMessage RETURNVALUE_NOTENOUGHMAGICLEVEL = ''You do not have enough magic level.''"
| "getReturnMessage RETURNVALUE_NOTENOUGHMANA = ''You do not have enough mana.''"
| "getReturnMessage RETURNVALUE_NOTENOUGHSOUL = ''You do not have enough soul.''"
| "getReturnMessage RETURNVALUE_YOUAREEXHAUSTED = ''You are exhausted.''"
| "getReturnMessage RETURNVALUE_CANONLYUSETHISRUNEONCREATURES = ''You can only use this rune on creatures.''"
| "getReturnMessage RETURNVALUE_PLAYERISNOTREACHABLE = ''Player is not reachable.''"
| "getReturnMessage RETURNVALUE_CREATUREISNOTREACHABLE = ''Creature is not reachable.''"
| "getReturnMessage RETURNVALUE_ACTIONNOTPERMITTEDINPROTECTIONZONE = ''This action is not permitted in a protection zone.''"
| "getReturnMessage RETURNVALUE_YOUMAYNOTATTACKTHISPLAYER = ''You may not attack this player.''"
| "getReturnMessage RETURNVALUE_YOUMAYNOTATTACKTHISCREATURE = ''You may not attack this creature.''"
| "getReturnMessage RETURNVALUE_YOUMAYNOTATTACKAPERSONINPROTECTIONZONE = ''You may not attack a person in a protection zone.''"
| "getReturnMessage RETURNVALUE_YOUMAYNOTATTACKAPERSONWHILEINPROTECTIONZONE = ''You may not attack a person while you are in a protection zone.''"
| "getReturnMessage RETURNVALUE_YOUCANONLYUSEITONCREATURES = ''You can only use it on creatures.''"
| "getReturnMessage RETURNVALUE_TURNSECUREMODETOATTACKUNMARKEDPLAYERS = ''Turn secure mode off if you really want to attack unmarked players.''"
| "getReturnMessage RETURNVALUE_YOUNEEDPREMIUMACCOUNT = ''You need a premium account.''"
| "getReturnMessage RETURNVALUE_YOUNEEDTOLEARNTHISSPELL = ''You need to learn this spell first.''"
| "getReturnMessage RETURNVALUE_YOURVOCATIONCANNOTUSETHISSPELL = ''Your vocation cannot use this spell.''"
| "getReturnMessage RETURNVALUE_YOUNEEDAWEAPONTOUSETHISSPELL = ''You need to equip a weapon to use this spell.''"
| "getReturnMessage RETURNVALUE_PLAYERISPZLOCKEDLEAVEPVPZONE = ''You can not leave a pvp zone after attacking another player.''"
| "getReturnMessage RETURNVALUE_PLAYERISPZLOCKEDENTERPVPZONE = ''You can not enter a pvp zone after attacking another player.''"
| "getReturnMessage RETURNVALUE_ACTIONNOTPERMITTEDINANOPVPZONE = ''This action is not permitted in a non pvp zone.''"
| "getReturnMessage RETURNVALUE_YOUCANNOTLOGOUTHERE = ''You can not logout here.''"
| "getReturnMessage RETURNVALUE_YOUNEEDAMAGICITEMTOCASTSPELL = ''You need a magic item to cast this spell.''"
| "getReturnMessage RETURNVALUE_CANNOTCONJUREITEMHERE = ''You cannot conjure items here.''"
| "getReturnMessage RETURNVALUE_YOUNEEDTOSPLITYOURSPEARS = ''You need to split your spears first.''"
| "getReturnMessage RETURNVALUE_NAMEISTOOAMBIGIOUS = ''Name is too ambigious.''"
| "getReturnMessage RETURNVALUE_CANONLYUSEONESHIELD = ''You may use only one shield.''"
| "getReturnMessage RETURNVALUE_NOPARTYMEMBERSINRANGE = ''No party members in range.''"
| "getReturnMessage RETURNVALUE_YOUARENOTTHEOWNER = ''You are not the owner.''"
| "getReturnMessage RETURNVALUE_NOERROR = ''Sorry, not possible.''"
| "getReturnMessage RETURNVALUE_NOTPOSSIBLE = ''Sorry, not possible.''"
| "getReturnMessage RETURNVALUE_CREATUREBLOCK = ''Sorry, not possible.''"

subsection \<open>Case folding and trimming\<close>

definition tolower :: "char \<Rightarrow> char" where
  "tolower c = (let n = of_char c :: nat in if 65 \<le> n \<and> n \<le> 90 then char_of (n + 32) else c)"

definition toupper :: "char \<Rightarrow> char" where
  "toupper c = (let n = of_char c :: nat in if 97 \<le> n \<and> n \<le> 122 then char_of (n - 32) else c)"

definition asLowerCaseString :: "string \<Rightarrow> string" where
  "asLowerCaseString source = map tolower source"

definition asUpperCaseString :: "string \<Rightarrow> string" where
  "asUpperCaseString source = map toupper source"

text \<open>
  \<open>erase(find_last_not_of(t) + 1)\<close>: with no other character \<open>npos + 1\<close> is 0 and everything
  goes. \<open>erase(0, find_first_not_of(t))\<close>: with none, \<open>npos\<close> erases everything.
\<close>

definition trim_right :: "char \<Rightarrow> string \<Rightarrow> string" where
  "trim_right t source = rev (dropWhile (\<lambda>c. c = t) (rev source))"

definition trim_left :: "char \<Rightarrow> string \<Rightarrow> string" where
  "trim_left t source = dropWhile (\<lambda>c. c = t) source"

definition trimString :: "string \<Rightarrow> string" where
  "trimString str = trim_left CHR '' '' (trim_right CHR '' '' str)"

fun ucfirst :: "string \<Rightarrow> string" where
  "ucfirst [] = []"
| "ucfirst (c # cs) = (if c \<noteq> CHR '' '' then toupper c # cs else c # ucfirst cs)"

text \<open>The loop of \<open>ucwords\<close> looks at the character before the one it changes.\<close>

fun ucwords_from :: "char \<Rightarrow> string \<Rightarrow> string" where
  "ucwords_from prev [] = []"
| "ucwords_from prev (c # cs) =
     (let c' = (if prev = CHR '' '' then toupper c else c) in c' # ucwords_from c' cs)"

fun ucwords :: "string \<Rightarrow> string" where
  "ucwords [] = []"
| "ucwords (c # cs) = toupper c # ucwords_from (toupper c) cs"

definition booleanString :: "string \<Rightarrow> bool" where
  "booleanString str =
     (case str of [] \<Rightarrow> False
      | c # _ \<Rightarrow> (let ch = tolower c in ch \<noteq> CHR ''f'' \<and> ch \<noteq> CHR ''n'' \<and> ch \<noteq> CHR ''0''))"

definition getFirstLine :: "string \<Rightarrow> string" where
  "getFirstLine str = takeWhile (\<lambda>c. c \<noteq> CHR 0x0A) str"

definition convertIPToString :: "u32 \<Rightarrow> string" where
  "convertIPToString ip =
     dec_digits (unat (ip AND 0xFF)) @ ''.'' @ dec_digits (unat (drop_bit 8 ip AND 0xFF)) @ ''.''
     @ dec_digits (unat (drop_bit 16 ip AND 0xFF)) @ ''.'' @ dec_digits (unat (drop_bit 24 ip))"

subsection \<open>Searching, splitting, replacing\<close>

text \<open>\<open>find_sub sought s\<close> is \<open>s.find(sought)\<close>; \<open>str_find\<close> adds the start offset.\<close>

fun find_sub :: "string \<Rightarrow> string \<Rightarrow> nat option" where
  "find_sub sought [] = (if sought = [] then Some 0 else None)"
| "find_sub sought (c # s) =
     (if prefix sought (c # s) then Some 0 else map_option Suc (find_sub sought s))"

definition str_find :: "string \<Rightarrow> string \<Rightarrow> nat \<Rightarrow> nat option" where
  "str_find str sought start =
     (if start \<le> length str then map_option (\<lambda>i. start + i) (find_sub sought (drop start str)) else None)"

partial_function (option) replace_loop ::
    "string \<Rightarrow> string \<Rightarrow> string \<Rightarrow> nat \<Rightarrow> string option" where
  "replace_loop sought replacement str start =
     (case str_find str sought start of
        None \<Rightarrow> Some str
      | Some pos \<Rightarrow> replace_loop sought replacement
          (take pos str @ replacement @ drop (pos + length sought) str) (pos + length replacement))"

definition replaceString :: "string \<Rightarrow> string \<Rightarrow> string \<Rightarrow> string option" where
  "replaceString str sought replacement = replace_loop sought replacement str 0"

partial_function (option) explode_loop ::
    "string \<Rightarrow> string \<Rightarrow> int \<Rightarrow> nat \<Rightarrow> string list \<Rightarrow> string list option" where
  "explode_loop inString separator limit start acc =
     (if limit - 1 \<noteq> -1 then
        (case str_find inString separator start of
           None \<Rightarrow> Some (acc @ [drop start inString])
         | Some end' \<Rightarrow> explode_loop inString separator (limit - 1) (end' + length separator)
                          (acc @ [take (end' - start) (drop start inString)]))
      else Some (acc @ [drop start inString]))"

definition explodeString :: "string \<Rightarrow> string \<Rightarrow> int \<Rightarrow> string list option" where
  "explodeString inString separator limit = explode_loop inString separator limit 0 []"

subsection \<open>Tables\<close>

definition getSkillName :: "nat \<Rightarrow> string" where
  "getSkillName skillid =
     (if skillid = 0 then ''fist fighting'' else if skillid = 1 then ''club fighting''
      else if skillid = 2 then ''sword fighting'' else if skillid = 3 then ''axe fighting''
      else if skillid = 4 then ''distance fighting'' else if skillid = 5 then ''shielding''
      else if skillid = 6 then ''fishing'' else if skillid = 7 then ''magic level''
      else if skillid = 8 then ''level'' else ''unknown'')"

datatype WeaponType_t = WEAPON_NONE | WEAPON_SWORD | WEAPON_CLUB | WEAPON_AXE | WEAPON_SHIELD
  | WEAPON_DISTANCE | WEAPON_WAND | WEAPON_AMMO

fun getWeaponName :: "WeaponType_t \<Rightarrow> string" where
  "getWeaponName WEAPON_SWORD = ''sword''"
| "getWeaponName WEAPON_CLUB = ''club''"
| "getWeaponName WEAPON_AXE = ''axe''"
| "getWeaponName WEAPON_DISTANCE = ''distance''"
| "getWeaponName WEAPON_WAND = ''wand''"
| "getWeaponName WEAPON_AMMO = ''ammunition''"
| "getWeaponName _ = ''''"

text \<open>\<open>CombatType_t\<close> is a set of flags: its values are numbers.\<close>

abbreviation (input) "COMBAT_NONE \<equiv> (0::nat)"
abbreviation (input) "COMBAT_PHYSICALDAMAGE \<equiv> (1::nat)"
abbreviation (input) "COMBAT_ENERGYDAMAGE \<equiv> (2::nat)"
abbreviation (input) "COMBAT_EARTHDAMAGE \<equiv> (4::nat)"
abbreviation (input) "COMBAT_FIREDAMAGE \<equiv> (8::nat)"
abbreviation (input) "COMBAT_UNDEFINEDDAMAGE \<equiv> (16::nat)"
abbreviation (input) "COMBAT_LIFEDRAIN \<equiv> (32::nat)"
abbreviation (input) "COMBAT_MANADRAIN \<equiv> (64::nat)"
abbreviation (input) "COMBAT_HEALING \<equiv> (128::nat)"
abbreviation (input) "COMBAT_COUNT \<equiv> (8::nat)"

definition combatTypeToIndex :: "nat \<Rightarrow> nat" where
  "combatTypeToIndex t =
     (if t = COMBAT_PHYSICALDAMAGE then 0 else if t = COMBAT_ENERGYDAMAGE then 1
      else if t = COMBAT_EARTHDAMAGE then 2 else if t = COMBAT_FIREDAMAGE then 3
      else if t = COMBAT_UNDEFINEDDAMAGE then 4 else if t = COMBAT_LIFEDRAIN then 5
      else if t = COMBAT_MANADRAIN then 6 else if t = COMBAT_HEALING then 7 else 0)"

definition indexToCombatType :: "nat \<Rightarrow> nat" where
  "indexToCombatType v = 2 ^ v"

definition clientToServerFluidMap :: "nat list" where
  "clientToServerFluidMap = [0, 1, 7, 3, 3 + 16, 2, 4, 3 + 24, 5, 6, 7 + 8, 2 + 8, 5 + 8, 3 + 8,
     5 + 16, 6 + 8, 3 + 32, 3 + 40]"

fun first_index :: "nat \<Rightarrow> nat \<Rightarrow> nat list \<Rightarrow> nat option" where
  "first_index i v [] = None"
| "first_index i v (x # xs) = (if x = v then Some i else first_index (Suc i) v xs)"

definition serverFluidToClient :: "nat \<Rightarrow> nat" where
  "serverFluidToClient serverFluid =
     (case first_index 0 serverFluid clientToServerFluidMap of Some i \<Rightarrow> i | None \<Rightarrow> 0)"

definition clientFluidToServer :: "nat \<Rightarrow> nat" where
  "clientFluidToServer clientFluid =
     (if clientFluid \<ge> length clientToServerFluidMap then 0 else clientToServerFluidMap ! clientFluid)"

text \<open>The attribute bits of \<open>itemAttrTypes\<close> by name.\<close>

definition item_attr_names :: "(string \<times> nat) list" where
  "item_attr_names =
     [(''aid'', 0), (''uid'', 1), (''description'', 2), (''text'', 3), (''date'', 4), (''writer'', 5),
      (''name'', 6), (''article'', 7), (''pluralname'', 8), (''weight'', 9), (''attack'', 10),
      (''defense'', 11), (''extradefense'', 12), (''armor'', 13), (''hitchance'', 14),
      (''shootrange'', 15), (''owner'', 16), (''duration'', 17), (''decaystate'', 18),
      (''corpseowner'', 19), (''charges'', 20), (''fluidtype'', 21), (''doorid'', 22)]"

definition stringToItemAttribute :: "string \<Rightarrow> nat" where
  "stringToItemAttribute str =
     (case map_of item_attr_names str of Some b \<Rightarrow> 2 ^ b | None \<Rightarrow> 0)"

definition uniform_random :: "(int \<Rightarrow> int \<Rightarrow> int) \<Rightarrow> int \<Rightarrow> int \<Rightarrow> int" where
  "uniform_random uniformRand minNumber maxNumber =
     (if minNumber = maxNumber then minNumber
      else if minNumber > maxNumber then uniformRand maxNumber minNumber
      else uniformRand minNumber maxNumber)"

subsection \<open>Facts\<close>

lemma tolower_idem [simp]: "tolower (tolower c) = tolower c"
  by (auto simp: tolower_def Let_def)

lemma asLowerCaseString_idem [simp]: "asLowerCaseString (asLowerCaseString s) = asLowerCaseString s"
  by (simp add: asLowerCaseString_def)

lemma asLowerCaseString_Nil [simp]: "asLowerCaseString s = [] \<longleftrightarrow> s = []"
  by (simp add: asLowerCaseString_def)

lemma trimString_no_space:
  assumes "trimString s \<noteq> []"
  shows "hd (trimString s) \<noteq> CHR '' '' \<and> last (trimString s) \<noteq> CHR '' ''"
proof -
  let ?P = "\<lambda>c. c = CHR '' ''"
  let ?r = "trim_right CHR '' '' s"
  have t: "trimString s = dropWhile ?P ?r" by (simp add: trimString_def trim_left_def)
  have hd: "hd (trimString s) \<noteq> CHR '' ''"
    using assms hd_dropWhile [of ?P ?r] by (simp add: t)
  have "?r \<noteq> []" using assms t by auto
  then have "last ?r \<noteq> CHR '' ''"
    using hd_dropWhile [of ?P "rev s"] by (simp add: trim_right_def last_rev)
  moreover have "last (dropWhile ?P ?r) = last ?r"
    using assms unfolding t by (metis last_appendR takeWhile_dropWhile_id)
  ultimately show ?thesis using hd t by simp
qed

lemma find_sub_Some:
  assumes "find_sub sought s = Some i"
  shows "i + length sought \<le> length s \<and> take (length sought) (drop i s) = sought"
  using assms
proof (induction s arbitrary: i)
  case Nil
  then show ?case by (simp split: if_splits)
next
  case (Cons c s)
  show ?case
  proof (cases "prefix sought (c # s)")
    case True
    then have "take (length sought) (c # s) = sought" by (metis append_eq_conv_conj prefix_def)
    with True Cons.prems show ?thesis using prefix_length_le [OF True] by simp
  next
    case False
    with Cons.prems obtain j where "find_sub sought s = Some j" "i = Suc j" by auto
    with Cons.IH show ?thesis by auto
  qed
qed

text \<open>The reference: cut at the first occurrence, go on behind it.\<close>

function pieces :: "string \<Rightarrow> string \<Rightarrow> string list" where
  "pieces sought s =
     (if sought = [] then [s]
      else case find_sub sought s of
             None \<Rightarrow> [s]
           | Some i \<Rightarrow> take i s # pieces sought (drop (i + length sought) s))"
  by pat_completeness auto
termination
proof (relation "measure (\<lambda>(sought, s). length s)")
  fix sought s i
  assume "sought \<noteq> []" and f: "find_sub sought s = Some i"
  then show "((sought, drop (i + length sought) s), (sought, s)) \<in> measure (\<lambda>(sought, s). length s)"
    using find_sub_Some [OF f] by (cases sought) auto
qed simp

declare pieces.simps [simp del]

fun join :: "string \<Rightarrow> string list \<Rightarrow> string" where
  "join sep [] = []"
| "join sep [x] = x"
| "join sep (x # y # xs) = x @ sep @ join sep (y # xs)"

lemma pieces_nonempty: "pieces sought s \<noteq> []"
  by (subst pieces.simps) (simp split: option.splits)

lemma join_Cons: "xs \<noteq> [] \<Longrightarrow> join sep (x # xs) = x @ sep @ join sep xs"
  by (cases xs) auto

lemma join_pieces: "join sought (pieces sought s) = s"
proof (induction sought s rule: pieces.induct)
  case (1 sought s)
  show ?case
  proof (cases "sought = [] \<or> find_sub sought s = None")
    case True
    then show ?thesis by (auto simp: pieces.simps [of sought s])
  next
    case False
    then obtain i where i: "find_sub sought s = Some i" "sought \<noteq> []" by auto
    have "take i s @ sought @ drop (i + length sought) s = s"
      using find_sub_Some [OF i(1)] by (metis append_take_drop_id drop_drop add.commute)
    with 1 i show ?thesis
      by (simp add: pieces.simps [of sought s] join_Cons pieces_nonempty)
  qed
qed

lemma explode_loop_pieces:
  assumes "separator \<noteq> []" and "limit < 0" and "start \<le> length s"
  shows "explode_loop s separator limit start acc = Some (acc @ pieces separator (drop start s))"
  using assms(2,3)
proof (induction "length s - start" arbitrary: start limit acc rule: less_induct)
  case less
  show ?case
  proof (cases "find_sub separator (drop start s)")
    case None
    then show ?thesis
      using less.prems assms(1)
      by (simp add: explode_loop.simps [of s] str_find_def pieces.simps [of _ "drop start s"])
  next
    case (Some i)
    note fits = find_sub_Some [OF Some]
    then have "start + i + length separator \<le> length s"
      using less.prems unfolding length_drop by linarith
    moreover have "length s - (start + i + length separator) < length s - start"
      using fits assms(1) less.prems by (cases separator) auto
    ultimately have "explode_loop s separator (limit - 1) (start + i + length separator)
        (acc @ [take i (drop start s)])
        = Some ((acc @ [take i (drop start s)]) @ pieces separator (drop (start + i + length separator) s))"
      using less.prems by (intro less.hyps) auto
    then show ?thesis
      using Some less.prems assms(1)
      by (simp add: explode_loop.simps [of s _ limit] str_find_def
          pieces.simps [of _ "drop start s"] add.commute add.left_commute)
  qed
qed

lemma replace_loop_pieces:
  assumes "sought \<noteq> []"
  shows "replace_loop sought r (a @ s) (length a) = Some (a @ join r (pieces sought s))"
proof (induction "length s" arbitrary: a s rule: less_induct)
  case less
  show ?case
  proof (cases "find_sub sought s")
    case None
    then show ?thesis
      using assms by (simp add: replace_loop.simps [of _ _ "a @ s"] str_find_def pieces.simps [of _ s])
  next
    case (Some i)
    note fits = find_sub_Some [OF Some]
    let ?a = "a @ take i s @ r" and ?s = "drop (i + length sought) s"
    have "length ?s < length s" using fits assms by (cases sought) auto
    then have "replace_loop sought r (?a @ ?s) (length ?a) = Some (?a @ join r (pieces sought ?s))"
      by (rule less.hyps)
    then show ?thesis
      using Some assms fits
      by (simp add: replace_loop.simps [of _ _ "a @ s"] str_find_def pieces.simps [of _ s]
          join_Cons pieces_nonempty min_absorb2 ac_simps)
  qed
qed

text \<open>Splitting by a non-empty separator without a limit always returns, and joining the pieces
  with the separator gives the string back.\<close>

lemma explodeString_join:
  assumes "separator \<noteq> []"
  shows "\<exists>parts. explodeString s separator (-1) = Some parts \<and> join separator parts = s"
  using explode_loop_pieces [OF assms, of "-1" 0 s "[]"]
  by (simp add: explodeString_def join_pieces)

lemma explodeString_join_witness:
  "\<exists>parts. explodeString ''a,b'' '','' (-1) = Some parts \<and> join '','' parts = ''a,b''"
  by (rule explodeString_join) simp

text \<open>Replacing a non-empty pattern always returns, in one left-to-right pass over the original
  text: the result is the original split at the pattern and joined by the replacement (text
  that the replacement brings in is never searched again).\<close>

lemma replaceString_spec:
  assumes "sought \<noteq> []"
  shows "\<exists>parts. explodeString s sought (-1) = Some parts
     \<and> replaceString s sought replacement = Some (join replacement parts)"
  using explode_loop_pieces [OF assms, of "-1" 0 s "[]"] replace_loop_pieces [OF assms, of replacement "[]" s]
  by (simp add: explodeString_def replaceString_def)

lemma replaceString_spec_witness:
  "\<exists>parts. explodeString ''a*b'' ''*'' (-1) = Some parts
     \<and> replaceString ''a*b'' ''*'' ''.*'' = Some (join ''.*'' parts)"
  by (rule replaceString_spec) simp

lemma combatType_roundtrip: "i < COMBAT_COUNT \<Longrightarrow> combatTypeToIndex (indexToCombatType i) = i"
proof -
  assume "i < COMBAT_COUNT"
  then have "i \<in> {0, 1, 2, 3, 4, 5, 6, 7}" by auto
  then show ?thesis by (auto simp: combatTypeToIndex_def indexToCombatType_def)
qed

lemma fluid_roundtrip:
  assumes "c < length clientToServerFluidMap"
  shows "serverFluidToClient (clientFluidToServer c) = c"
proof -
  have "list_all (\<lambda>c. serverFluidToClient (clientFluidToServer c) = c) [0..<length clientToServerFluidMap]"
    by code_simp
  with assms show ?thesis by (simp add: list_all_iff)
qed

end
