(* ===== verification/Wildcard_Tree.thy ===== *)
theory Wildcard_Tree
  imports Tools_Model "HOL-Library.AList"
begin

section \<open>The name index\<close>

text \<open>
  \<open>src/src/wildcardtree.cpp\<close>: the trie that resolves abbreviated player names, and the
  registry of online players in \<open>game.cpp\<close> that keeps it in step with the name map.
  The children of a node are a \<open>std::map\<close>; the code never depends on their order (it takes
  \<open>begin()\<close> of one-element maps only), so they are an association list with distinct keys.
  \<open>insert\<close> walks down creating nodes, \<open>remove\<close> walks down with a stack and prunes on the way
  back: both are recursions over the string here, the recursion being the stack.
\<close>

datatype WildcardTreeNode = Node (children: "(char \<times> WildcardTreeNode) list") (breakpoint: bool)

definition getChild :: "WildcardTreeNode \<Rightarrow> char \<Rightarrow> WildcardTreeNode option" where
  "getChild n ch = map_of (children n) ch"

definition setChild :: "char \<Rightarrow> WildcardTreeNode \<Rightarrow> WildcardTreeNode \<Rightarrow> WildcardTreeNode" where
  "setChild ch c n = Node (AList.update ch c (children n)) (breakpoint n)"

definition eraseChild :: "char \<Rightarrow> WildcardTreeNode \<Rightarrow> WildcardTreeNode" where
  "eraseChild ch n = Node (AList.delete ch (children n)) (breakpoint n)"

text \<open>\<open>addChild\<close> returns the child it found or created, which the caller goes on to change.\<close>

definition addChild :: "char \<Rightarrow> bool \<Rightarrow> WildcardTreeNode \<Rightarrow> WildcardTreeNode" where
  "addChild ch bp n =
     (case getChild n ch of
        Some child \<Rightarrow> if bp \<and> \<not> breakpoint child then Node (children child) True else child
      | None \<Rightarrow> Node [] bp)"

text \<open>On the empty string \<open>str.length() - 1\<close> wraps and the loop reads past the string: \<open>None\<close>.\<close>

fun wt_insert :: "string \<Rightarrow> WildcardTreeNode \<Rightarrow> WildcardTreeNode option" where
  "wt_insert [] n = None"
| "wt_insert [c] n = Some (setChild c (addChild c True n) n)"
| "wt_insert (c # d # s) n =
     map_option (\<lambda>child. setChild c child n) (wt_insert (d # s) (addChild c False n))"

fun wt_descend :: "string \<Rightarrow> WildcardTreeNode \<Rightarrow> WildcardTreeNode option" where
  "wt_descend [] n = Some n"
| "wt_descend (c # s) n = Option.bind (getChild n c) (wt_descend s)"

text \<open>The way back up: clear the breakpoint, erase every node left without purpose.\<close>

fun wt_prune :: "string \<Rightarrow> WildcardTreeNode \<Rightarrow> WildcardTreeNode" where
  "wt_prune [] n = Node (children n) False"
| "wt_prune (c # s) n =
     (case getChild n c of
        None \<Rightarrow> n
      | Some ch \<Rightarrow> (let ch' = wt_prune s ch
                    in if children ch' \<noteq> [] \<or> breakpoint ch' then setChild c ch' n
                       else eraseChild c n))"

definition wt_remove :: "string \<Rightarrow> WildcardTreeNode \<Rightarrow> WildcardTreeNode" where
  "wt_remove str n = (case wt_descend str n of None \<Rightarrow> n | Some _ \<Rightarrow> wt_prune str n)"

fun wt_follow :: "WildcardTreeNode \<Rightarrow> string \<Rightarrow> ReturnValue \<times> string" where
  "wt_follow (Node [] bp) result = (RETURNVALUE_NOERROR, result)"
| "wt_follow (Node [(c, ch)] bp) result =
     (if bp then (RETURNVALUE_NAMEISTOOAMBIGIOUS, result) else wt_follow ch (result @ [c]))"
| "wt_follow (Node (a # b # cs) bp) result = (RETURNVALUE_NAMEISTOOAMBIGIOUS, result)"

definition findOne :: "WildcardTreeNode \<Rightarrow> string \<Rightarrow> ReturnValue \<times> string" where
  "findOne n query =
     (case wt_descend query n of
        None \<Rightarrow> (RETURNVALUE_PLAYERWITHTHISNAMEISNOTONLINE, [])
      | Some cur \<Rightarrow> wt_follow cur query)"

subsection \<open>The words of a tree\<close>

fun has_word :: "WildcardTreeNode \<Rightarrow> string \<Rightarrow> bool" where
  "has_word n [] = breakpoint n"
| "has_word n (c # s) = (case getChild n c of None \<Rightarrow> False | Some ch \<Rightarrow> has_word ch s)"

text \<open>Every node below the root is there for a word: it ends one or leads on to one.\<close>

inductive wt_wf :: "WildcardTreeNode \<Rightarrow> bool" where
  wt_wfI: "distinct (map fst cs) \<Longrightarrow>
     (\<And>c ch. (c, ch) \<in> set cs \<Longrightarrow> wt_wf ch \<and> (children ch \<noteq> [] \<or> breakpoint ch)) \<Longrightarrow>
     wt_wf (Node cs bp)"

inductive_simps wt_wf_Node: "wt_wf (Node cs bp)"

lemma wt_wf_alt:
  "wt_wf n \<longleftrightarrow> distinct (map fst (children n)) \<and>
     (\<forall>c ch. getChild n c = Some ch \<longrightarrow> wt_wf ch \<and> (children ch \<noteq> [] \<or> breakpoint ch))"
  by (cases n) (auto simp: wt_wf_Node getChild_def dest: map_of_SomeD map_of_is_SomeI)

abbreviation live :: "WildcardTreeNode \<Rightarrow> bool" where
  "live n \<equiv> children n \<noteq> [] \<or> breakpoint n"

lemma getChild_wf: "wt_wf n \<Longrightarrow> getChild n c = Some ch \<Longrightarrow> wt_wf ch \<and> live ch"
  unfolding wt_wf_alt [of n] by blast

lemma getChild_setChild [simp]:
  "getChild (setChild c ch n) d = (if d = c then Some ch else getChild n d)"
  by (simp add: getChild_def setChild_def update_conv')

lemma getChild_eraseChild [simp]:
  "getChild (eraseChild c n) d = (if d = c then None else getChild n d)"
  by (simp add: getChild_def eraseChild_def delete_conv')

lemma node_upd [simp]:
  "breakpoint (setChild c ch n) = breakpoint n" "breakpoint (eraseChild c n) = breakpoint n"
  "children (setChild c ch n) \<noteq> []"
  by (simp_all add: setChild_def eraseChild_def)

lemma getChild_Node_Nil [simp]: "getChild (Node [] b) c = None"
  by (simp add: getChild_def)

lemma setChild_wf: "wt_wf n \<Longrightarrow> wt_wf ch \<Longrightarrow> live ch \<Longrightarrow> wt_wf (setChild c ch n)"
  unfolding wt_wf_alt [of n] wt_wf_alt [of "setChild c ch n"]
  by (auto simp: setChild_def distinct_update getChild_def update_conv')

lemma eraseChild_wf: "wt_wf n \<Longrightarrow> wt_wf (eraseChild c n)"
  unfolding wt_wf_alt [of n] wt_wf_alt [of "eraseChild c n"]
  by (auto simp: eraseChild_def distinct_delete getChild_def delete_conv')

lemma wt_wf_leaf [simp]: "wt_wf (Node [] b)"
  by (simp add: wt_wf_Node)

lemma wt_wf_breakpoint: "wt_wf n \<Longrightarrow> wt_wf (Node (children n) b)"
  by (cases n) (simp add: wt_wf_Node)

lemma getChild_children [simp]: "getChild (Node (children n) b) c = getChild n c"
  by (simp add: getChild_def)

lemma has_word_breakpoint:
  "has_word (Node (children n) b) w = (if w = [] then b else has_word n w)"
  by (cases w) simp_all

lemma has_word_dead: "children n = [] \<Longrightarrow> \<not> breakpoint n \<Longrightarrow> \<not> has_word n w"
  by (cases w; cases n) (auto simp: getChild_def)

lemma addChild_wf: "wt_wf n \<Longrightarrow> wt_wf (addChild c b n)"
  by (auto simp: addChild_def wt_wf_breakpoint dest: getChild_wf split: option.splits)

lemma has_word_addChild:
  "has_word (addChild c b n) w \<longleftrightarrow> b \<and> w = [] \<or> has_word n (c # w)"
  by (cases w) (auto simp: addChild_def has_word_breakpoint split: option.splits)

subsection \<open>Insertion and removal\<close>

lemma wt_insert_words:
  assumes "wt_wf n" and "s \<noteq> []"
  shows "\<exists>n'. wt_insert s n = Some n' \<and> wt_wf n' \<and> children n' \<noteq> [] \<and>
     (\<forall>w. has_word n' w \<longleftrightarrow> w = s \<or> has_word n w)"
  using assms
proof (induction s n rule: wt_insert.induct)
  case (2 c n)
  let ?ch = "addChild c True n"
  have "breakpoint ?ch" using has_word_addChild [of c True n "[]"] by simp
  then have "wt_wf (setChild c ?ch n)" using 2 by (simp add: setChild_wf addChild_wf)
  moreover have "has_word (setChild c ?ch n) w \<longleftrightarrow> w = [c] \<or> has_word n w" for w
    by (cases w) (auto simp: has_word_addChild)
  ultimately show ?case by simp
next
  case (3 c d s n)
  obtain ch where ch: "wt_insert (d # s) (addChild c False n) = Some ch" "wt_wf ch" "children ch \<noteq> []"
      "\<And>w. has_word ch w \<longleftrightarrow> w = d # s \<or> has_word (addChild c False n) w"
    using 3 addChild_wf by blast
  then have "wt_wf (setChild c ch n)" using 3 by (simp add: setChild_wf)
  moreover have "has_word (setChild c ch n) w \<longleftrightarrow> w = c # d # s \<or> has_word n w" for w
    using ch(4) by (cases w) (auto simp: has_word_addChild)
  ultimately show ?case using ch(1) by simp
qed simp

lemma wt_prune_words:
  assumes "wt_wf n" and "wt_descend s n \<noteq> None"
  shows "wt_wf (wt_prune s n) \<and> (\<forall>w. has_word (wt_prune s n) w \<longleftrightarrow> w \<noteq> s \<and> has_word n w)"
  using assms
proof (induction s n rule: wt_prune.induct)
  case (1 n)
  then show ?case by (simp add: wt_wf_breakpoint has_word_breakpoint)
next
  case (2 c s n)
  then obtain ch where ch: "getChild n c = Some ch" "wt_descend s ch \<noteq> None"
    by (auto simp: bind_eq_None_conv)
  with 2 getChild_wf have IH: "wt_wf (wt_prune s ch)"
      "\<And>w. has_word (wt_prune s ch) w \<longleftrightarrow> w \<noteq> s \<and> has_word ch w" by auto
  show ?case
  proof (cases "live (wt_prune s ch)")
    case True
    then have p: "wt_prune (c # s) n = setChild c (wt_prune s ch) n"
      using ch by auto
    moreover have "has_word (setChild c (wt_prune s ch) n) w \<longleftrightarrow> w \<noteq> c # s \<and> has_word n w" for w
      using IH(2) ch by (cases w) auto
    ultimately show ?thesis using True 2 IH(1) setChild_wf by simp
  next
    case False
    then have p: "wt_prune (c # s) n = eraseChild c n" using ch by auto
    moreover have "has_word (eraseChild c n) w \<longleftrightarrow> w \<noteq> c # s \<and> has_word n w" for w
      using IH(2) ch False has_word_dead [of "wt_prune s ch"] by (cases w) auto
    ultimately show ?thesis using 2 eraseChild_wf by simp
  qed
qed

lemma has_word_append:
  "has_word n (q @ w) = (case wt_descend q n of None \<Rightarrow> False | Some m \<Rightarrow> has_word m w)"
  by (induction q n rule: wt_descend.induct) (auto split: option.splits)

lemma wt_remove_words:
  assumes "wt_wf n"
  shows "wt_wf (wt_remove s n) \<and> (\<forall>w. has_word (wt_remove s n) w \<longleftrightarrow> w \<noteq> s \<and> has_word n w)"
proof (cases "wt_descend s n")
  case None
  then have "\<not> has_word n s" using has_word_append [of n s "[]"] by simp
  with None assms show ?thesis by (auto simp: wt_remove_def)
next
  case (Some m)
  with wt_prune_words [OF assms, of s] show ?thesis by (simp add: wt_remove_def)
qed

subsection \<open>Abbreviated names\<close>

lemma wt_descend_wf:
  "wt_wf n \<Longrightarrow> wt_descend q n = Some m \<Longrightarrow> wt_wf m \<and> (q \<noteq> [] \<longrightarrow> live m)"
proof (induction q n rule: wt_descend.induct)
  case (2 c s n)
  then obtain ch where "getChild n c = Some ch" "wt_descend s ch = Some m"
    by (auto simp: bind_eq_Some_conv)
  with 2 getChild_wf show ?case by (cases s) auto
qed simp

lemma live_has_word: "wt_wf n \<Longrightarrow> live n \<Longrightarrow> \<exists>w. has_word n w"
proof (induction rule: wt_wf.induct)
  case (wt_wfI cs bp)
  show ?case
  proof (cases cs)
    case Nil
    with wt_wfI.prems show ?thesis by (intro exI [of _ "[]"]) simp
  next
    case (Cons a cs')
    obtain c ch where a: "a = (c, ch)" by (cases a)
    then obtain w where "has_word ch w" using wt_wfI.IH [of c ch] Cons by auto
    then show ?thesis using Cons a by (intro exI [of _ "c # w"]) (simp add: getChild_def)
  qed
qed

lemma wt_follow_spec:
  assumes "wt_wf n" and "live n"
  shows "(\<exists>w. wt_follow n r = (RETURNVALUE_NOERROR, r @ w) \<and> (\<forall>v. has_word n v \<longleftrightarrow> v = w))
       \<or> (fst (wt_follow n r) = RETURNVALUE_NAMEISTOOAMBIGIOUS
          \<and> (\<exists>v w. v \<noteq> w \<and> has_word n v \<and> has_word n w))"
  using assms
proof (induction n r rule: wt_follow.induct)
  case (1 bp r)
  then have "has_word (Node [] bp) v \<longleftrightarrow> v = []" for v by (cases v) auto
  then show ?case by auto
next
  case (2 c ch bp r)
  have ch: "wt_wf ch" "live ch" using 2(2) by (simp_all add: wt_wf_Node)
  have hw: "has_word (Node [(c, ch)] bp) v \<longleftrightarrow> bp \<and> v = [] \<or> (\<exists>u. v = c # u \<and> has_word ch u)" for v
    by (cases v) (auto simp: getChild_def)
  show ?case
  proof (cases bp)
    case True
    obtain u where "has_word ch u" using live_has_word [OF ch] by blast
    then have "has_word (Node [(c, ch)] bp) [] \<and> has_word (Node [(c, ch)] bp) (c # u)"
      using True by (simp add: getChild_def)
    then show ?thesis using True by (metis list.distinct(1) fst_conv wt_follow.simps(2))
  next
    case False
    from 2(1) [OF False ch] show ?thesis
    proof (elim disjE exE conjE)
      fix w assume "wt_follow ch (r @ [c]) = (RETURNVALUE_NOERROR, (r @ [c]) @ w)" "\<forall>v. has_word ch v \<longleftrightarrow> v = w"
      then show ?thesis using False hw by (intro disjI1 exI [of _ "c # w"]) auto
    next
      fix v w assume "fst (wt_follow ch (r @ [c])) = RETURNVALUE_NAMEISTOOAMBIGIOUS"
        "v \<noteq> w" "has_word ch v" "has_word ch w"
      then show ?thesis using False
        by (intro disjI2 conjI exI [of _ "c # v"] exI [of _ "c # w"]) (simp_all add: getChild_def)
    qed
  qed
next
  case (3 a b cs bp r)
  obtain c ch d dh where ab: "a = (c, ch)" "b = (d, dh)" by (cases a; cases b)
  with 3(1) have "c \<noteq> d" "wt_wf ch" "live ch" "wt_wf dh" "live dh" by (auto simp: wt_wf_Node)
  then obtain u v where "has_word ch u" "has_word dh v" using live_has_word by meson
  then have "has_word (Node (a # b # cs) bp) (c # u) \<and> has_word (Node (a # b # cs) bp) (d # v)"
    using ab \<open>c \<noteq> d\<close> by (simp add: getChild_def)
  then show ?case using \<open>c \<noteq> d\<close> by (metis list.inject fst_conv wt_follow.simps(3))
qed

definition completions :: "WildcardTreeNode \<Rightarrow> string \<Rightarrow> string set" where
  "completions n q = {w. has_word n w \<and> prefix q w}"

lemma completions_descend:
  "completions n q = (case wt_descend q n of None \<Rightarrow> {} | Some m \<Rightarrow> (\<lambda>w. q @ w) ` {w. has_word m w})"
  by (cases "wt_descend q n") (auto simp: completions_def prefix_def has_word_append)

lemma findOne_cases:
  assumes "wt_wf n" and "q \<noteq> [] \<or> live n"
  shows "findOne n q = (RETURNVALUE_PLAYERWITHTHISNAMEISNOTONLINE, []) \<and> completions n q = {}
    \<or> (\<exists>r. findOne n q = (RETURNVALUE_NOERROR, r) \<and> completions n q = {r})
    \<or> fst (findOne n q) = RETURNVALUE_NAMEISTOOAMBIGIOUS
       \<and> (\<exists>v w. v \<noteq> w \<and> v \<in> completions n q \<and> w \<in> completions n q)"
proof (cases "wt_descend q n")
  case None
  then show ?thesis by (simp add: findOne_def completions_descend)
next
  case (Some m)
  then have m: "wt_wf m" "live m" using wt_descend_wf [OF assms(1) Some] assms(2) by auto
  from wt_follow_spec [OF m, of q] show ?thesis
  proof (elim disjE exE conjE)
    fix w assume "wt_follow m q = (RETURNVALUE_NOERROR, q @ w)" "\<forall>v. has_word m v \<longleftrightarrow> v = w"
    then have "findOne n q = (RETURNVALUE_NOERROR, q @ w)" and "completions n q = {q @ w}"
      unfolding findOne_def completions_descend Some by auto
    then show ?thesis by blast
  next
    fix v w assume vw: "fst (wt_follow m q) = RETURNVALUE_NAMEISTOOAMBIGIOUS"
      "v \<noteq> w" "has_word m v" "has_word m w"
    have "q @ v \<noteq> q @ w" "q @ v \<in> completions n q" "q @ w \<in> completions n q"
      using Some vw by (simp_all add: completions_descend)
    then have "\<exists>v w. v \<noteq> w \<and> v \<in> completions n q \<and> w \<in> completions n q" by blast
    moreover have "fst (findOne n q) = RETURNVALUE_NAMEISTOOAMBIGIOUS"
      using Some vw(1) by (simp add: findOne_def)
    ultimately show ?thesis by blast
  qed
qed

subsection \<open>What a client of the index relies on\<close>

text \<open>
  The interface between the registry and the index: a set of words, changed by insertion and
  removal, and a search that returns the one word with a prefix, or says that there is none
  or more than one.
\<close>

lemma two_elements: "v \<noteq> w \<Longrightarrow> {v, w} \<subseteq> S \<Longrightarrow> S \<noteq> {} \<and> S \<noteq> {r}"
  by auto

locale prefix_index =
  fixes ins :: "string \<Rightarrow> 't \<Rightarrow> 't option"
    and del :: "string \<Rightarrow> 't \<Rightarrow> 't"
    and search :: "'t \<Rightarrow> string \<Rightarrow> ReturnValue \<times> string"
    and words :: "'t \<Rightarrow> string set"
    and inv :: "'t \<Rightarrow> bool"
  assumes ins: "inv t \<Longrightarrow> s \<noteq> [] \<Longrightarrow> \<exists>t'. ins s t = Some t' \<and> inv t' \<and> words t' = insert s (words t)"
    and del: "inv t \<Longrightarrow> inv (del s t) \<and> words (del s t) = words t - {s}"
    and search: "inv t \<Longrightarrow> q \<noteq> [] \<or> words t \<noteq> {} \<Longrightarrow>
      fst (search t q) = RETURNVALUE_PLAYERWITHTHISNAMEISNOTONLINE \<and> {w \<in> words t. prefix q w} = {}
      \<or> (\<exists>r. search t q = (RETURNVALUE_NOERROR, r) \<and> {w \<in> words t. prefix q w} = {r})
      \<or> fst (search t q) = RETURNVALUE_NAMEISTOOAMBIGIOUS
         \<and> (\<exists>v w. v \<noteq> w \<and> {v, w} \<subseteq> {w \<in> words t. prefix q w})"
begin

lemma search_unique:
  assumes "inv t" and "{w \<in> words t. prefix q w} = {r}"
  shows "search t q = (RETURNVALUE_NOERROR, r)"
proof -
  have "words t \<noteq> {}" using assms(2) by blast
  with search [OF assms(1), of q] assms(2) show ?thesis by auto
qed

lemma search_none:
  assumes "inv t" and "q \<noteq> [] \<or> words t \<noteq> {}" and "{w \<in> words t. prefix q w} = {}"
  shows "fst (search t q) = RETURNVALUE_PLAYERWITHTHISNAMEISNOTONLINE"
  using search [OF assms(1,2)] assms(3) by auto

lemma search_ambiguous:
  assumes "inv t" and "v \<noteq> w" and "{v, w} \<subseteq> {w \<in> words t. prefix q w}"
  shows "fst (search t q) = RETURNVALUE_NAMEISTOOAMBIGIOUS"
proof -
  let ?S = "{w \<in> words t. prefix q w}"
  have two: "?S \<noteq> {}" "?S \<noteq> {r}" for r
    using two_elements [OF assms(2,3)] by simp_all
  then have "q \<noteq> [] \<or> words t \<noteq> {}" by auto
  from search [OF assms(1) this] show ?thesis
    by (elim disjE exE conjE) (simp_all only: two simp_thms)
qed

end

definition wt_words :: "WildcardTreeNode \<Rightarrow> string set" where
  "wt_words n = {w. has_word n w}"

definition wt_index_inv :: "WildcardTreeNode \<Rightarrow> bool" where
  "wt_index_inv n \<longleftrightarrow> wt_wf n"

lemma wt_words_live: "wt_words n \<noteq> {} \<Longrightarrow> live n"
  using has_word_dead [of n] by (auto simp: wt_words_def)

lemma completions_words: "{w \<in> wt_words n. prefix q w} = completions n q"
  by (simp add: wt_words_def completions_def)

interpretation wt: prefix_index wt_insert wt_remove findOne wt_words wt_index_inv
proof
  fix t :: WildcardTreeNode and s q :: string
  show "wt_index_inv t \<Longrightarrow> s \<noteq> [] \<Longrightarrow>
      \<exists>t'. wt_insert s t = Some t' \<and> wt_index_inv t' \<and> wt_words t' = insert s (wt_words t)"
    using wt_insert_words [of t s] by (fastforce simp: wt_words_def wt_index_inv_def)
  show "wt_index_inv t \<Longrightarrow>
      wt_index_inv (wt_remove s t) \<and> wt_words (wt_remove s t) = wt_words t - {s}"
    using wt_remove_words [of t s] by (auto simp: wt_words_def wt_index_inv_def)
  assume "wt_index_inv t" "q \<noteq> [] \<or> wt_words t \<noteq> {}"
  then have "wt_wf t" "q \<noteq> [] \<or> live t" using wt_words_live by (auto simp: wt_index_inv_def)
  from findOne_cases [OF this]
  show "fst (findOne t q) = RETURNVALUE_PLAYERWITHTHISNAMEISNOTONLINE
      \<and> {w \<in> wt_words t. prefix q w} = {}
      \<or> (\<exists>r. findOne t q = (RETURNVALUE_NOERROR, r) \<and> {w \<in> wt_words t. prefix q w} = {r})
      \<or> fst (findOne t q) = RETURNVALUE_NAMEISTOOAMBIGIOUS
         \<and> (\<exists>v w. v \<noteq> w \<and> {v, w} \<subseteq> {w \<in> wt_words t. prefix q w})"
    unfolding completions_words by auto
qed

subsection \<open>The registry of online players\<close>

text \<open>
  \<open>Game::addPlayer\<close>, \<open>removePlayer\<close> and the lookups. A player pointer is the record of what
  the registry reads of the player; \<open>players\<close> is a hash map, scanned in its iteration order.
\<close>

record reg_player =
  rp_id :: nat
  rp_name :: string
  rp_guid :: nat
  rp_account :: nat

record PlayerRegistry =
  mappedPlayerNames :: "string \<rightharpoonup> reg_player"
  wildcardTree :: WildcardTreeNode
  players :: "(nat \<times> reg_player) list"

definition empty_registry :: PlayerRegistry where
  "empty_registry = \<lparr>mappedPlayerNames = Map.empty, wildcardTree = Node [] False, players = []\<rparr>"

definition reg_addPlayer :: "reg_player \<Rightarrow> PlayerRegistry \<Rightarrow> PlayerRegistry option" where
  "reg_addPlayer player g =
     (let lowercase_name = asLowerCaseString (rp_name player)
      in map_option (\<lambda>t. g\<lparr>mappedPlayerNames := (mappedPlayerNames g)(lowercase_name \<mapsto> player),
                          wildcardTree := t, players := AList.update (rp_id player) player (players g)\<rparr>)
           (wt_insert lowercase_name (wildcardTree g)))"

definition reg_removePlayer :: "reg_player \<Rightarrow> PlayerRegistry \<Rightarrow> PlayerRegistry" where
  "reg_removePlayer player g =
     (let lowercase_name = asLowerCaseString (rp_name player)
      in g\<lparr>mappedPlayerNames := (mappedPlayerNames g)(lowercase_name := None),
           wildcardTree := wt_remove lowercase_name (wildcardTree g),
           players := AList.delete (rp_id player) (players g)\<rparr>)"

definition getPlayerByName :: "PlayerRegistry \<Rightarrow> string \<Rightarrow> reg_player option" where
  "getPlayerByName g s = (if s = [] then None else mappedPlayerNames g (asLowerCaseString s))"

definition getPlayerByGUID :: "PlayerRegistry \<Rightarrow> nat \<Rightarrow> reg_player option" where
  "getPlayerByGUID g guid =
     (if guid = 0 then None else find (\<lambda>p. guid = rp_guid p) (map snd (players g)))"

definition getPlayerByAccount :: "PlayerRegistry \<Rightarrow> nat \<Rightarrow> reg_player option" where
  "getPlayerByAccount g acc = find (\<lambda>p. rp_account p = acc) (map snd (players g))"

definition getPlayerByNameWildcard ::
    "PlayerRegistry \<Rightarrow> string \<Rightarrow> ReturnValue \<times> reg_player option" where
  "getPlayerByNameWildcard g s =
     (let strlen = length s
      in if strlen = 0 \<or> strlen > 20 then (RETURNVALUE_PLAYERWITHTHISNAMEISNOTONLINE, None)
         else let finish = (\<lambda>player. case player of
                     None \<Rightarrow> (RETURNVALUE_PLAYERWITHTHISNAMEISNOTONLINE, None)
                   | Some p \<Rightarrow> (RETURNVALUE_NOERROR, Some p))
              in if last s = CHR ''~'' then
                   (let query = asLowerCaseString (take (strlen - 1) s);
                        (ret, result) = findOne (wildcardTree g) query
                    in if ret \<noteq> RETURNVALUE_NOERROR then (ret, None)
                       else finish (getPlayerByName g result))
                 else finish (getPlayerByName g s))"

text \<open>The registry's invariant: the index holds the keys of the name map, which are lower-case.\<close>

definition reg_inv :: "PlayerRegistry \<Rightarrow> bool" where
  "reg_inv g \<longleftrightarrow> wt_index_inv (wildcardTree g)
     \<and> wt_words (wildcardTree g) = dom (mappedPlayerNames g) \<and> [] \<notin> dom (mappedPlayerNames g)
     \<and> (\<forall>w p. mappedPlayerNames g w = Some p \<longrightarrow> w = asLowerCaseString (rp_name p))"

lemma reg_inv_empty: "reg_inv empty_registry"
proof -
  have "has_word (Node [] False) w = False" for w by (cases w) simp_all
  then show ?thesis by (simp add: reg_inv_def empty_registry_def wt_index_inv_def wt_words_def)
qed

lemma reg_addPlayer_inv:
  assumes "reg_inv g" and "rp_name p \<noteq> []"
  shows "\<exists>g'. reg_addPlayer p g = Some g' \<and> reg_inv g'"
proof -
  obtain t where "wt_insert (asLowerCaseString (rp_name p)) (wildcardTree g) = Some t" "wt_index_inv t"
      "wt_words t = insert (asLowerCaseString (rp_name p)) (wt_words (wildcardTree g))"
    using wt.ins [of "wildcardTree g" "asLowerCaseString (rp_name p)"] assms by (auto simp: reg_inv_def)
  then show ?thesis using assms by (auto simp: reg_addPlayer_def Let_def reg_inv_def)
qed

lemma reg_removePlayer_inv: "reg_inv g \<Longrightarrow> reg_inv (reg_removePlayer p g)"
  using wt.del [of "wildcardTree g" "asLowerCaseString (rp_name p)"]
  by (auto simp: reg_inv_def reg_removePlayer_def Let_def split: if_splits)

text \<open>The registries a server run can build.\<close>

inductive reg_reach :: "PlayerRegistry \<Rightarrow> bool" where
  empty: "reg_reach empty_registry"
| add: "reg_reach g \<Longrightarrow> rp_name p \<noteq> [] \<Longrightarrow> reg_addPlayer p g = Some g' \<Longrightarrow> reg_reach g'"
| remove: "reg_reach g \<Longrightarrow> reg_reach (reg_removePlayer p g)"

lemma reg_reach_inv: "reg_reach g \<Longrightarrow> reg_inv g"
proof (induction rule: reg_reach.induct)
  case (add g p g')
  then show ?case using reg_addPlayer_inv by fastforce
qed (simp_all add: reg_inv_empty reg_removePlayer_inv)

definition online_matches :: "PlayerRegistry \<Rightarrow> string \<Rightarrow> string set" where
  "online_matches g q = {w \<in> dom (mappedPlayerNames g). prefix (asLowerCaseString q) w}"

lemma wildcard_unfold:
  assumes "length q < 20"
  shows "getPlayerByNameWildcard g (q @ ''~'') =
    (case findOne (wildcardTree g) (asLowerCaseString q) of (ret, result) \<Rightarrow>
       if ret \<noteq> RETURNVALUE_NOERROR then (ret, None)
       else case getPlayerByName g result of
              None \<Rightarrow> (RETURNVALUE_PLAYERWITHTHISNAMEISNOTONLINE, None)
            | Some p \<Rightarrow> (RETURNVALUE_NOERROR, Some p))"
  using assms by (simp add: getPlayerByNameWildcard_def Let_def)

lemma wildcard_empty_tree:
  assumes "wt_index_inv t" and "wt_words t = {}"
  shows "findOne t [] = (RETURNVALUE_NOERROR, [])"
proof -
  have "children t = []"
    using live_has_word [of t] assms by (auto simp: wt_index_inv_def wt_words_def)
  then show ?thesis by (cases t) (simp add: findOne_def)
qed

text \<open>C3: In every registry the server can reach, looking up an abbreviated name \<open>q~\<close> answers
  "not online" when no online player's name starts with \<open>q\<close> (ignoring case), "ambiguous" when
  at least two do, and otherwise returns exactly the one player whose name does.\<close>

theorem wildcard_lookup_correct:
  assumes "reg_reach g" and "length q < 20"
  shows "(online_matches g q = {} \<longrightarrow>
           fst (getPlayerByNameWildcard g (q @ ''~'')) = RETURNVALUE_PLAYERWITHTHISNAMEISNOTONLINE)
     \<and> (\<forall>w. online_matches g q = {w} \<longrightarrow>
           getPlayerByNameWildcard g (q @ ''~'') = (RETURNVALUE_NOERROR, mappedPlayerNames g w)
           \<and> mappedPlayerNames g w \<noteq> None)
     \<and> (\<forall>v w. v \<noteq> w \<and> {v, w} \<subseteq> online_matches g q \<longrightarrow>
           fst (getPlayerByNameWildcard g (q @ ''~'')) = RETURNVALUE_NAMEISTOOAMBIGIOUS)"
proof -
  let ?t = "wildcardTree g" and ?q = "asLowerCaseString q"
  from reg_reach_inv [OF assms(1)] have inv: "wt_index_inv ?t" "[] \<notin> dom (mappedPlayerNames g)"
    and keys: "\<And>w p. mappedPlayerNames g w = Some p \<Longrightarrow> w = asLowerCaseString (rp_name p)"
    and words: "{w \<in> wt_words ?t. prefix ?q w} = online_matches g q" "wt_words ?t = dom (mappedPlayerNames g)"
    by (auto simp: reg_inv_def online_matches_def)
  have lower: "asLowerCaseString w = w" if "mappedPlayerNames g w = Some p" for w p
    using keys [OF that] by (metis asLowerCaseString_idem)
  note lookup = wildcard_unfold [OF assms(2), of g]
  have none: "fst (getPlayerByNameWildcard g (q @ ''~'')) = RETURNVALUE_PLAYERWITHTHISNAMEISNOTONLINE"
    if "online_matches g q = {}"
  proof (cases "?q \<noteq> [] \<or> wt_words ?t \<noteq> {}")
    case True
    then have "fst (findOne ?t ?q) = RETURNVALUE_PLAYERWITHTHISNAMEISNOTONLINE"
      using wt.search_none [OF inv(1) True] that words(1) by simp
    then show ?thesis by (cases "findOne ?t ?q") (simp add: lookup)
  next
    case False
    then show ?thesis unfolding lookup
      using wildcard_empty_tree [OF inv(1)] by (simp add: getPlayerByName_def asLowerCaseString_def)
  qed
  have one: "getPlayerByNameWildcard g (q @ ''~'') = (RETURNVALUE_NOERROR, mappedPlayerNames g w)
      \<and> mappedPlayerNames g w \<noteq> None" if m: "online_matches g q = {w}" for w
  proof -
    from m obtain p where p: "mappedPlayerNames g w = Some p" by (auto simp: online_matches_def)
    then have "w \<noteq> []" using inv(2) by auto
    with wt.search_unique [OF inv(1)] m words(1) p lower [OF p] show ?thesis
      by (simp add: lookup getPlayerByName_def)
  qed
  have many: "fst (getPlayerByNameWildcard g (q @ ''~'')) = RETURNVALUE_NAMEISTOOAMBIGIOUS"
    if "v \<noteq> w" "{v, w} \<subseteq> online_matches g q" for v w
    using wt.search_ambiguous [OF inv(1) that(1), of ?q] that(2) words(1)
    by (cases "findOne ?t ?q") (simp add: lookup)
  show ?thesis using none one many by blast
qed

definition demo_alice :: reg_player where
  "demo_alice = \<lparr>rp_id = 1, rp_name = ''Al'', rp_guid = 7, rp_account = 9\<rparr>"

definition demo_registry :: PlayerRegistry where
  "demo_registry = the (reg_addPlayer demo_alice empty_registry)"

lemma demo_registry_add: "reg_addPlayer demo_alice empty_registry = Some demo_registry"
  by (simp add: demo_registry_def reg_addPlayer_def Let_def demo_alice_def empty_registry_def
      asLowerCaseString_def)

lemma demo_lower: "asLowerCaseString ''Al'' = ''al''" "asLowerCaseString ''A'' = ''a''"
  by code_simp+

lemma demo_registry_names: "mappedPlayerNames demo_registry = [''al'' \<mapsto> demo_alice]"
  by (simp add: demo_registry_def reg_addPlayer_def Let_def demo_alice_def empty_registry_def demo_lower)

theorem wildcard_lookup_correct_witness:
  "getPlayerByNameWildcard demo_registry (''A'' @ ''~'')
     = (RETURNVALUE_NOERROR, mappedPlayerNames demo_registry ''al'')"
proof -
  have reach: "reg_reach demo_registry"
    by (rule reg_reach.add [OF reg_reach.empty _ demo_registry_add]) (simp add: demo_alice_def)
  have match: "online_matches demo_registry ''A'' = {''al''}"
    by (auto simp: online_matches_def demo_registry_names demo_lower)
  have len: "length ''A'' < 20" by simp
  show ?thesis using wildcard_lookup_correct [OF reach len] match by blast
qed

text \<open>C4: Insertion and removal keep the index well formed, and the set of names it holds changes by
  exactly the name inserted or removed; in particular removing a name that is not there
  changes nothing the index answers.\<close>

theorem wildcard_tree_is_a_set:
  assumes "wt_wf n" and "s \<noteq> []"
  shows "(\<exists>n'. wt_insert s n = Some n' \<and> wt_wf n' \<and> (\<forall>w. has_word n' w \<longleftrightarrow> w = s \<or> has_word n w))
    \<and> wt_wf (wt_remove r n) \<and> (\<forall>w. has_word (wt_remove r n) w \<longleftrightarrow> w \<noteq> r \<and> has_word n w)"
  using wt_insert_words [OF assms] wt_remove_words [OF assms(1), of r] by blast

theorem wildcard_tree_is_a_set_witness:
  "\<exists>n'. wt_insert ''ab'' (Node [] False) = Some n' \<and> wt_wf n'
     \<and> (\<forall>w. has_word n' w \<longleftrightarrow> w = ''ab'' \<or> has_word (Node [] False) w)"
  using wildcard_tree_is_a_set [of "Node [] False" "''ab''"] by simp

end
