(* ===== verification/File_Loader.thy ===== *)
theory File_Loader
  imports Prelude
begin

section \<open>The node file format\<close>

text \<open>
  \<open>src/src/fileloader.cpp\<close>: maps and the item table come as trees of nodes in a byte-stuffed
  format. \<open>parseNode\<close> builds the tree of node headers (offset, size of the property bytes,
  type); \<open>getProps\<close> reads a node's property bytes later and removes the stuffing. Reading goes
  through a cache of three blocks; the parser here reads the file itself (\<open>rdb\<close>), and the
  second half models the cache and shows that it reads the same bytes.
  A sibling chain (\<open>next\<close> pointers) is a list, the first child pointer the list of children.
  \<open>Some None\<close> is \<open>return false\<close>; the functions are partial (\<open>None\<close> would be a loop that
  never ends).
\<close>

definition ESCAPE_CHAR :: byte where "ESCAPE_CHAR = 0xFD"
definition NODE_START :: byte where "NODE_START = 0xFE"
definition NODE_END :: byte where "NODE_END = 0xFF"

lemma special_distinct [simp]:
  "NODE_START \<noteq> NODE_END" "NODE_END \<noteq> NODE_START" "ESCAPE_CHAR \<noteq> NODE_START" "ESCAPE_CHAR \<noteq> NODE_END"
  "NODE_START \<noteq> ESCAPE_CHAR" "NODE_END \<noteq> ESCAPE_CHAR"
  by (simp_all add: ESCAPE_CHAR_def NODE_START_def NODE_END_def)

datatype NodeStruct = NodeStruct (nd_start: nat) (nd_propsSize: nat) (nd_type: byte)
  (nd_child: "NodeStruct list")

text \<open>The byte at an offset of the file.\<close>

definition rdb :: "byte list \<Rightarrow> nat \<Rightarrow> byte option" where
  "rdb f p = (if p < length f then Some (f ! p) else None)"

text \<open>
  The inner loop of \<open>parseNode\<close> with the outer one folded in: \<open>pos\<close> is the read offset, the
  next four arguments are \<open>currentNode\<close> (start, type, \<open>propsSize\<close> once set, children) and
  \<open>acc\<close> the finished siblings before it. \<open>safeTell\<close> after reading the byte at \<open>pos\<close> gives
  \<open>pos\<close>; the \<open>safeTell\<close>/\<open>safeSeek\<close> pair on a second \<open>NODE_END\<close> makes the parent read it again.
\<close>

partial_function (option) scan ::
    "byte list \<Rightarrow> nat \<Rightarrow> nat \<Rightarrow> byte \<Rightarrow> nat option \<Rightarrow> NodeStruct list \<Rightarrow> NodeStruct list
     \<Rightarrow> (NodeStruct list \<times> nat) option option" where
  "scan f pos st ty ps ch acc =
     (case rdb f pos of
        None \<Rightarrow> Some None
      | Some b \<Rightarrow>
          if b = NODE_START then
            (case rdb f (pos + 1) of
               None \<Rightarrow> Some None
             | Some ty' \<Rightarrow>
                 Option.bind (scan f (pos + 2) pos ty' None [] []) (\<lambda>r.
                   case r of
                     None \<Rightarrow> Some None
                   | Some (nodes, pos') \<Rightarrow> scan f pos' st ty (Some (pos - st - 2)) nodes acc))
          else if b = NODE_END then
            (let node = NodeStruct st (case ps of Some n \<Rightarrow> n | None \<Rightarrow> pos - st - 2) ty ch
             in case rdb f (pos + 1) of
                  None \<Rightarrow> Some (Some (acc @ [node], pos + 1))
                | Some b2 \<Rightarrow>
                    if b2 = NODE_START then
                      (case rdb f (pos + 2) of
                         None \<Rightarrow> Some None
                       | Some ty2 \<Rightarrow> scan f (pos + 3) (pos + 1) ty2 None [] (acc @ [node]))
                    else if b2 = NODE_END then Some (Some (acc @ [node], pos + 1))
                    else Some None)
          else if b = ESCAPE_CHAR then
            (case rdb f (pos + 1) of
               None \<Rightarrow> Some None
             | Some _ \<Rightarrow> scan f (pos + 2) st ty ps ch acc)
          else scan f (pos + 1) st ty ps ch acc)"

definition parseNode :: "byte list \<Rightarrow> nat \<Rightarrow> nat \<Rightarrow> (NodeStruct list \<times> nat) option option" where
  "parseNode f pos start =
     (case rdb f pos of None \<Rightarrow> Some None | Some ty \<Rightarrow> scan f (pos + 1) start ty None [] [])"

datatype fl_error = ERROR_NONE | ERROR_INVALID_FILE_VERSION | ERROR_CAN_NOT_OPEN | ERROR_EOF
  | ERROR_SEEK_ERROR | ERROR_INVALID_FORMAT | ERROR_CACHE_ERROR

text \<open>
  \<open>openFile\<close> on the bytes of an existing file. The identifier check leaves an error code; a
  parse failure is \<open>return false\<close>, which the callers report as one.
\<close>

definition openFile :: "byte list \<Rightarrow> byte list \<Rightarrow> (fl_error + NodeStruct) option" where
  "openFile accept_identifier f =
     (if length f < 4 then Some (Inl ERROR_EOF)
      else if take 4 f \<noteq> accept_identifier \<and> take 4 f \<noteq> [0, 0, 0, 0]
        then Some (Inl ERROR_INVALID_FILE_VERSION)
      else (case rdb f 4 of
              None \<Rightarrow> Some (Inl ERROR_NONE)
            | Some b \<Rightarrow>
                if b = NODE_START then
                  map_option (\<lambda>r. case r of
                       None \<Rightarrow> Inl ERROR_INVALID_FORMAT
                     | Some (nodes, _) \<Rightarrow> (case nodes of [] \<Rightarrow> Inl ERROR_INVALID_FORMAT | n # _ \<Rightarrow> Inr n))
                    (parseNode f 5 4)
                else Some (Inl ERROR_NONE)))"

text \<open>
  The unstuffing loop of \<open>getProps\<close>. A stuffing byte at the very end would make the loop read
  one byte behind the properties, whatever the buffer holds there (\<open>stale\<close>).
\<close>

fun unescape :: "byte \<Rightarrow> byte list \<Rightarrow> byte list" where
  "unescape stale [] = []"
| "unescape stale [b] = (if b = ESCAPE_CHAR then [stale] else [b])"
| "unescape stale (b # c # bs) =
     (if b = ESCAPE_CHAR then c # unescape stale bs else b # unescape stale (c # bs))"

definition getProps :: "byte \<Rightarrow> byte list \<Rightarrow> NodeStruct \<Rightarrow> byte list" where
  "getProps stale f node = unescape stale (take (nd_propsSize node) (drop (nd_start node + 2) f))"

definition getChildNode :: "NodeStruct \<Rightarrow> NodeStruct option \<Rightarrow> NodeStruct option" where
  "getChildNode root parent =
     (case parent of
        Some n \<Rightarrow> (case nd_child n of [] \<Rightarrow> None | c # _ \<Rightarrow> Some c)
      | None \<Rightarrow> Some root)"

subsection \<open>The format, and that parsing inverts it\<close>

datatype otree = OT (ot_type: byte) (ot_props: "byte list") (ot_children: "otree list")

fun escape :: "byte list \<Rightarrow> byte list" where
  "escape [] = []"
| "escape (b # bs) =
     (if b \<in> {ESCAPE_CHAR, NODE_START, NODE_END} then ESCAPE_CHAR # b # escape bs else b # escape bs)"

fun enc :: "otree \<Rightarrow> byte list" where
  "enc (OT ty ps cs) = NODE_START # ty # escape ps @ concat (map enc cs) @ [NODE_END]"

text \<open>The node headers of a forest whose encoding starts at offset \<open>p\<close>.\<close>

fun layout :: "nat \<Rightarrow> otree list \<Rightarrow> NodeStruct list" where
  "layout p [] = []"
| "layout p (OT ty ps cs # ts) =
     NodeStruct p (length (escape ps)) ty (layout (p + 2 + length (escape ps)) cs)
     # layout (p + length (enc (OT ty ps cs))) ts"

lemma unescape_escape: "unescape stale (escape bs) = bs"
proof (induction bs)
  case (Cons b bs)
  then show ?case by (cases "escape bs") auto
qed simp

lemma rdb_append: "rdb (pre @ xs) (length pre) = (case xs of [] \<Rightarrow> None | x # _ \<Rightarrow> Some x)"
  by (cases xs) (auto simp: rdb_def nth_append)

lemma rdb_append1: "rdb (pre @ x # xs) (Suc (length pre)) = (case xs of [] \<Rightarrow> None | y # _ \<Rightarrow> Some y)"
  using rdb_append [of "pre @ [x]" xs] by simp

lemma rdb_append2:
  "rdb (pre @ x # y # xs) (Suc (Suc (length pre))) = (case xs of [] \<Rightarrow> None | z # _ \<Rightarrow> Some z)"
  using rdb_append [of "pre @ [x, y]" xs] by simp

lemma rdb_at:
  assumes "f = a @ x # xs" and "p = length a"
  shows "rdb f p = Some x" and "rdb f (p + 1) = (case xs of [] \<Rightarrow> None | y # _ \<Rightarrow> Some y)"
    and "xs = y # ys \<Longrightarrow> rdb f (p + 2) = (case ys of [] \<Rightarrow> None | z # _ \<Rightarrow> Some z)"
  using assms by (simp_all add: rdb_append rdb_append1 rdb_append2)

text \<open>Property bytes are skipped two at a time where they are stuffed.\<close>

lemma scan_props:
  "scan (pre @ escape bs @ rest) (length pre) st ty ps ch acc
   = scan (pre @ escape bs @ rest) (length pre + length (escape bs)) st ty ps ch acc"
proof (induction bs arbitrary: pre)
  case (Cons b bs)
  show ?case
  proof (cases "b \<in> {ESCAPE_CHAR, NODE_START, NODE_END}")
    case True
    then show ?thesis
      using Cons.IH [of "pre @ [ESCAPE_CHAR, b]"]
      by (subst scan.simps) (simp add: rdb_append rdb_append1 add.commute)
  next
    case False
    then show ?thesis
      using Cons.IH [of "pre @ [b]"] by (subst scan.simps) (simp add: rdb_append)
  qed
qed simp

definition forest_size :: "otree list \<Rightarrow> nat" where
  "forest_size ts = length (concat (map enc ts))"

text \<open>
  The main lemma, for a whole sibling chain: scanning from behind the first header builds the
  layout and stops at the byte that closes the parent, or at the end of the file.
\<close>

lemma scan_forest:
  assumes "rest = [] \<or> (\<exists>r. rest = NODE_END # r)"
  shows "f = pre @ concat (map enc (OT ty ps cs # ts)) @ rest \<Longrightarrow>
     scan f (length pre + 2) (length pre) ty None [] acc
     = Some (Some (acc @ layout (length pre) (OT ty ps cs # ts),
                   length pre + forest_size (OT ty ps cs # ts)))"
  using assms
proof (induction "forest_size (OT ty ps cs # ts)" arbitrary: pre ty ps cs ts acc rest rule: less_induct)
  case less
  let ?e = "escape ps" and ?kids = "concat (map enc cs)" and ?sibs = "concat (map enc ts)"
  let ?p = "length pre"
  let ?q = "?p + 2 + length ?e"
  have f: "f = (pre @ [NODE_START, ty]) @ ?e @ ?kids @ NODE_END # ?sibs @ rest"
    using less.prems(1) by simp
  have props: "scan f (?p + 2) ?p ty None [] acc = scan f ?q ?p ty None [] acc"
    using scan_props [of "pre @ [NODE_START, ty]" ps "?kids @ NODE_END # ?sibs @ rest"] f by simp
  define q2 where "q2 = ?q + length ?kids"
  \<comment> \<open>the closing byte of this node, children already attached\<close>
  let ?node = "NodeStruct ?p (length ?e) ty (layout ?q cs)"
  have f2: "f = (pre @ [NODE_START, ty] @ ?e @ ?kids) @ NODE_END # ?sibs @ rest"
    using f by simp
  have q2: "q2 = length (pre @ [NODE_START, ty] @ ?e @ ?kids)" by (simp add: q2_def)
  have r0: "rdb f q2 = Some NODE_END"
    and r1: "rdb f (q2 + 1) = (case ?sibs @ rest of [] \<Rightarrow> None | y # _ \<Rightarrow> Some y)"
    by (fact rdb_at(1,2) [OF f2 q2])+
  have close: "scan f q2 ?p ty pz kids acc
     = Some (Some (acc @ layout ?p (OT ty ps cs # ts), ?p + forest_size (OT ty ps cs # ts)))"
    if "(case pz of Some n \<Rightarrow> n | None \<Rightarrow> q2 - ?p - 2) = length ?e" "kids = layout ?q cs" for pz kids
  proof (cases ts)
    case Nil
    have fin: "q2 + 1 = ?p + forest_size (OT ty ps cs # ts)"
      using Nil by (simp add: q2_def forest_size_def)
    have "scan f q2 ?p ty pz kids acc = Some (Some (acc @ [?node], q2 + 1))"
      using less.prems(2) that Nil r0 r1 by (subst scan.simps) (auto simp: Let_def)
    then show ?thesis using fin Nil by simp
  next
    case (Cons t ts')
    obtain ty' ps' cs' where t: "t = OT ty' ps' cs'" by (cases t)
    let ?pre' = "pre @ [NODE_START, ty] @ ?e @ ?kids @ [NODE_END]"
    have f3: "f = ?pre' @ concat (map enc (OT ty' ps' cs' # ts')) @ rest"
      using f2 Cons t by simp
    have len: "length ?pre' = q2 + 1" by (simp add: q2_def)
    have "forest_size (OT ty' ps' cs' # ts') < forest_size (OT ty ps cs # ts)"
      using Cons t by (simp add: forest_size_def)
    from less.hyps [OF this f3 less.prems(2)]
    have "scan f (q2 + 3) (q2 + 1) ty' None [] (acc @ [?node])
        = Some (Some ((acc @ [?node]) @ layout (q2 + 1) ts, q2 + 1 + forest_size ts))"
      by (simp only: len Cons t) (simp add: numeral_3_eq_3)
    moreover have "scan f q2 ?p ty pz kids acc = scan f (q2 + 3) (q2 + 1) ty' None [] (acc @ [?node])"
    proof -
      have r2: "rdb f (q2 + 2) = Some ty'"
        using rdb_at(3) [OF f2 q2] Cons t by simp
      show ?thesis using that Cons t r0 r1 r2 by (subst scan.simps) (simp add: Let_def)
    qed
    moreover have "q2 + 1 = ?p + length (enc (OT ty ps cs))" by (simp add: q2_def)
    ultimately show ?thesis
      by (simp add: forest_size_def)
  qed
  show ?case
  proof (cases cs)
    case Nil
    have "scan f (?p + 2) ?p ty None [] acc = scan f q2 ?p ty None [] acc"
      using props Nil by (simp add: q2_def)
    then show ?thesis using close [of None "[]"] Nil by (simp add: q2_def)
  next
    case (Cons c cs')
    obtain ty' ps' cs'' where c: "c = OT ty' ps' cs''" by (cases c)
    let ?pre' = "pre @ [NODE_START, ty] @ ?e"
    have f3: "f = ?pre' @ concat (map enc (OT ty' ps' cs'' # cs')) @ NODE_END # ?sibs @ rest"
      using f Cons c by simp
    have "forest_size (OT ty' ps' cs'' # cs') < forest_size (OT ty ps cs # ts)"
      using Cons c by (simp add: forest_size_def)
    from less.hyps [OF this f3, of "[]"]
    have kids: "scan f (?q + 2) ?q ty' None [] [] = Some (Some (layout ?q cs, q2))"
      using Cons c by (simp add: forest_size_def q2_def add.commute)
    have "scan f ?q ?p ty None [] acc = scan f q2 ?p ty (Some (length ?e)) (layout ?q cs) acc"
    proof -
      have "rdb f ?q = Some NODE_START" "rdb f (?q + 1) = Some ty'"
        using rdb_at [of f ?pre' NODE_START _ ?q] f3 by simp_all
      then show ?thesis using kids by (subst scan.simps) simp
    qed
    then show ?thesis using props close [of "Some (length ?e)" "layout ?q cs"] by simp
  qed
qed

lemma parse_root:
  assumes "f = idt @ enc t" and "length idt = 4"
  shows "parseNode f 5 4 = Some (Some (layout 4 [t], length f))"
proof -
  obtain ty ps cs where t: "t = OT ty ps cs" by (cases t)
  have "rdb f 5 = Some ty"
    using rdb_at(2) [of f idt NODE_START _ 4] assms t by simp
  moreover have "scan f 6 4 ty None [] [] = Some (Some (layout 4 [t], length f))"
    using scan_forest [of "[]" f idt ty ps cs "[]" "[]"] assms t by (simp add: forest_size_def)
  ultimately show ?thesis by (simp add: parseNode_def)
qed

subsection \<open>The block cache\<close>

text \<open>
  \<open>cached_data\<close>, \<open>cache_index\<close> and \<open>cache_offset\<close>. The size of a block is the length of its
  data. \<open>pos & ~(cache_size - 1)\<close> is \<open>pos\<close> less the bits it shares with \<open>cache_size - 1\<close>;
  \<open>cache_size\<close> is a multiple of 8192 but need not be a power of two (24576 occurs), so blocks
  may overlap. The file does not change while it is read and \<open>fseek\<close> to an offset in it
  succeeds.
\<close>

abbreviation (input) "CACHE_BLOCKS \<equiv> (3::nat)"

record cache_block =
  cb_data :: "byte list"
  cb_loaded :: bool
  cb_base :: nat

record FileLoader =
  fl_file :: "byte list"
  fl_cache_size :: nat
  fl_cached :: "cache_block list"
  fl_index :: "nat option"
  fl_offset :: nat

definition cache_size_of :: "nat \<Rightarrow> nat" where
  "cache_size_of file_size = (let v = min 32768 (max (file_size div 20) 8192) in v - v mod 8192)"

definition block_base :: "nat \<Rightarrow> nat \<Rightarrow> nat" where
  "block_base cs pos = pos - (pos AND (cs - 1))"

definition new_FileLoader :: "byte list \<Rightarrow> FileLoader" where
  "new_FileLoader f = \<lparr>fl_file = f, fl_cache_size = cache_size_of (length f),
     fl_cached = replicate CACHE_BLOCKS \<lparr>cb_data = [], cb_loaded = False, cb_base = 0\<rparr>,
     fl_index = None, fl_offset = 0\<rparr>"

fun find_index :: "('a \<Rightarrow> bool) \<Rightarrow> 'a list \<Rightarrow> nat option" where
  "find_index P [] = None"
| "find_index P (x # xs) = (if P x then Some 0 else map_option Suc (find_index P xs))"

definition loadCacheBlock :: "nat \<Rightarrow> FileLoader \<Rightarrow> nat option \<times> FileLoader" where
  "loadCacheBlock pos s =
     (let base_pos = block_base (fl_cache_size s) pos;
          loading_cache =
            (case find_index (\<lambda>b. \<not> cb_loaded b) (fl_cached s) of
               Some i \<Rightarrow> i
             | None \<Rightarrow> (case find_index (\<lambda>b. \<bar>int (cb_base b) - int base_pos\<bar> > int (2 * fl_cache_size s))
                               (fl_cached s) of
                          Some i \<Rightarrow> i | None \<Rightarrow> 0));
          dat = take (fl_cache_size s) (drop base_pos (fl_file s));
          old = fl_cached s ! loading_cache
      in if length dat < pos - base_pos
         then (None, s\<lparr>fl_cached := (fl_cached s)[loading_cache := old\<lparr>cb_data := dat, cb_base := base_pos\<rparr>]\<rparr>)
         else (Some loading_cache,
               s\<lparr>fl_cached := (fl_cached s)[loading_cache := \<lparr>cb_data = dat, cb_loaded = True, cb_base = base_pos\<rparr>]\<rparr>))"

definition getCacheBlock :: "nat \<Rightarrow> FileLoader \<Rightarrow> nat option \<times> FileLoader" where
  "getCacheBlock pos s =
     (case find_index (\<lambda>b. cb_loaded b \<and> cb_base b = block_base (fl_cache_size s) pos) (fl_cached s) of
        Some i \<Rightarrow> (Some i, s)
      | None \<Rightarrow> loadCacheBlock pos s)"

definition fl_readByte :: "FileLoader \<Rightarrow> byte option \<times> FileLoader" where
  "fl_readByte s =
     (case fl_index s of
        None \<Rightarrow> (None, s)
      | Some i \<Rightarrow>
          if fl_offset s \<ge> length (cb_data (fl_cached s ! i)) then
            (let pos = fl_offset s + cb_base (fl_cached s ! i);
                 (tmp, s1) = getCacheBlock pos s
             in case tmp of
                  None \<Rightarrow> (None, s1)
                | Some j \<Rightarrow>
                    (let off = pos - cb_base (fl_cached s1 ! j);
                         s2 = s1\<lparr>fl_index := Some j, fl_offset := off\<rparr>
                     in if off \<ge> length (cb_data (fl_cached s1 ! j)) then (None, s2)
                        else (Some (cb_data (fl_cached s1 ! j) ! off), s2\<lparr>fl_offset := off + 1\<rparr>)))
          else (Some (cb_data (fl_cached s ! i) ! fl_offset s), s\<lparr>fl_offset := fl_offset s + 1\<rparr>))"

text \<open>The \<open>do\<close>/\<open>while\<close> of \<open>readBytes\<close>; a block that holds nothing at \<open>pos\<close> would make it spin.\<close>

partial_function (option) fl_readBytes ::
    "nat \<Rightarrow> nat \<Rightarrow> FileLoader \<Rightarrow> (byte list option \<times> FileLoader) option" where
  "fl_readBytes remain pos s =
     (case getCacheBlock pos s of
        (None, s1) \<Rightarrow> Some (None, s1)
      | (Some i, s1) \<Rightarrow>
          (let off = pos - cb_base (fl_cached s1 ! i);
               reading = min remain (length (cb_data (fl_cached s1 ! i)) - off);
               chunk = take reading (drop off (cb_data (fl_cached s1 ! i)));
               s2 = s1\<lparr>fl_index := Some i, fl_offset := off + reading\<rparr>
           in if remain - reading > 0
              then Option.bind (fl_readBytes (remain - reading) (pos + reading) s2) (\<lambda>(r, s3).
                     Some (map_option (\<lambda>more. chunk @ more) r, s3))
              else Some (Some chunk, s2)))"

definition fl_safeSeek :: "nat \<Rightarrow> FileLoader \<Rightarrow> bool \<times> FileLoader" where
  "fl_safeSeek pos s =
     (case getCacheBlock pos s of
        (None, s1) \<Rightarrow> (False, s1)
      | (Some i, s1) \<Rightarrow> (True, s1\<lparr>fl_index := Some i, fl_offset := pos - cb_base (fl_cached s1 ! i)\<rparr>))"

definition fl_safeTell :: "FileLoader \<Rightarrow> int option" where
  "fl_safeTell s =
     (case fl_index s of
        None \<Rightarrow> None
      | Some i \<Rightarrow> Some (int (cb_base (fl_cached s ! i) + fl_offset s) - 1))"

subsection \<open>The cache is transparent\<close>

definition block_ok :: "FileLoader \<Rightarrow> cache_block \<Rightarrow> bool" where
  "block_ok s b \<longleftrightarrow> (cb_loaded b \<longrightarrow> cb_data b = take (fl_cache_size s) (drop (cb_base b) (fl_file s)))"

definition fl_inv :: "FileLoader \<Rightarrow> bool" where
  "fl_inv s \<longleftrightarrow> 0 < fl_cache_size s \<and> length (fl_cached s) = CACHE_BLOCKS \<and> (\<forall>b\<in>set (fl_cached s). block_ok s b)
     \<and> (\<forall>i. fl_index s = Some i \<longrightarrow> i < CACHE_BLOCKS \<and> cb_loaded (fl_cached s ! i)
              \<and> fl_offset s \<le> length (cb_data (fl_cached s ! i)))"

text \<open>The offset in the file at which the next byte is read.\<close>

definition fl_pos :: "FileLoader \<Rightarrow> nat option" where
  "fl_pos s = map_option (\<lambda>i. cb_base (fl_cached s ! i) + fl_offset s) (fl_index s)"

lemma find_index_Some: "find_index P xs = Some i \<Longrightarrow> i < length xs \<and> P (xs ! i)"
  by (induction xs arbitrary: i) (auto split: if_splits)

lemma cache_size_pos: "8192 \<le> cache_size_of n"
proof -
  let ?v = "min 32768 (max (n div 20) 8192)"
  have "8192 \<le> ?v" by simp
  then have "8192 * 1 \<le> 8192 * (?v div 8192)" by (intro mult_le_mono2) simp
  also have "\<dots> = ?v - ?v mod 8192" by (simp add: minus_mod_eq_mult_div)
  finally show ?thesis by (simp add: cache_size_of_def Let_def)
qed

lemma and_le_nat: "(a AND b :: nat) \<le> a" "(a AND b :: nat) \<le> b"
proof -
  have "int (a AND b) \<le> int a" "int (a AND b) \<le> int b"
    by (simp_all add: of_nat_and_eq AND_upper1 AND_upper2)
  then show "(a AND b :: nat) \<le> a" "(a AND b :: nat) \<le> b" by simp_all
qed

lemma block_base_bounds:
  assumes "0 < cs"
  shows "block_base cs pos \<le> pos" "pos - block_base cs pos < cs"
  using and_le_nat [of pos "cs - 1"] assms by (auto simp: block_base_def)

definition load_slot :: "nat \<Rightarrow> FileLoader \<Rightarrow> nat" where
  "load_slot pos s =
     (case find_index (\<lambda>b. \<not> cb_loaded b) (fl_cached s) of
        Some i \<Rightarrow> i
      | None \<Rightarrow> (case find_index (\<lambda>b. \<bar>int (cb_base b) - int (block_base (fl_cache_size s) pos)\<bar>
                                     > int (2 * fl_cache_size s)) (fl_cached s) of
                   Some i \<Rightarrow> i | None \<Rightarrow> 0))"

lemma load_slot_lt: "fl_inv s \<Longrightarrow> load_slot pos s < length (fl_cached s)"
  by (auto simp: load_slot_def fl_inv_def dest!: find_index_Some split: option.splits)

lemma loadCacheBlock_cases:
  fixes s :: FileLoader and pos :: nat
  defines "bp \<equiv> block_base (fl_cache_size s) pos"
  defines "dat \<equiv> take (fl_cache_size s) (drop bp (fl_file s))"
  shows "loadCacheBlock pos s =
    (if length dat < pos - bp
     then (None, s\<lparr>fl_cached := (fl_cached s)[load_slot pos s :=
                   (fl_cached s ! load_slot pos s)\<lparr>cb_data := dat, cb_base := bp\<rparr>]\<rparr>)
     else (Some (load_slot pos s), s\<lparr>fl_cached := (fl_cached s)[load_slot pos s :=
                   \<lparr>cb_data = dat, cb_loaded = True, cb_base = bp\<rparr>]\<rparr>))"
  by (simp add: loadCacheBlock_def load_slot_def bp_def dat_def Let_def)

lemma block_ok_update:
  assumes "\<forall>b\<in>set (fl_cached s). block_ok s b" and "block_ok s b'"
  shows "\<forall>b\<in>set ((fl_cached s)[i := b']). block_ok (s\<lparr>fl_cached := cs\<rparr>) b"
  using assms set_update_subset_insert [of "fl_cached s" i b'] by (auto simp: block_ok_def)

lemma getCacheBlock_ok:
  assumes "fl_inv s" and "getCacheBlock pos s = (r, s')"
  shows "fl_file s' = fl_file s \<and> fl_cache_size s' = fl_cache_size s
    \<and> length (fl_cached s') = CACHE_BLOCKS \<and> (\<forall>b\<in>set (fl_cached s'). block_ok s' b)
    \<and> (case r of None \<Rightarrow> length (fl_file s) < pos
       | Some i \<Rightarrow> i < CACHE_BLOCKS \<and> cb_loaded (fl_cached s' ! i)
           \<and> cb_base (fl_cached s' ! i) = block_base (fl_cache_size s) pos
           \<and> (pos \<le> length (fl_file s) \<longrightarrow>
                pos - cb_base (fl_cached s' ! i) \<le> length (cb_data (fl_cached s' ! i))))"
proof -
  let ?bp = "block_base (fl_cache_size s) pos"
  have inv: "0 < fl_cache_size s" "length (fl_cached s) = CACHE_BLOCKS" "\<forall>b\<in>set (fl_cached s). block_ok s b"
    using assms(1) by (auto simp: fl_inv_def)
  note bb = block_base_bounds [OF inv(1), of pos]
  show ?thesis
  proof (cases "find_index (\<lambda>b. cb_loaded b \<and> cb_base b = ?bp) (fl_cached s)")
    case (Some i)
    then have "i < length (fl_cached s)" "cb_loaded (fl_cached s ! i)" "cb_base (fl_cached s ! i) = ?bp"
      using find_index_Some [OF Some] by auto
    moreover from this have "cb_data (fl_cached s ! i) = take (fl_cache_size s) (drop ?bp (fl_file s))"
      using inv by (metis block_ok_def nth_mem)
    moreover have "r = Some i" "s' = s" using assms(2) Some by (simp_all add: getCacheBlock_def)
    ultimately show ?thesis using inv bb by auto
  next
    case None
    let ?i = "load_slot pos s"
    have i: "?i < length (fl_cached s)" by (rule load_slot_lt [OF assms(1)])
    have l: "loadCacheBlock pos s = (r, s')" using assms(2) None by (simp add: getCacheBlock_def)
    show ?thesis
    proof (cases "length (take (fl_cache_size s) (drop ?bp (fl_file s))) < pos - ?bp")
      case True
      then have "length (fl_file s) < pos" using bb by auto
      moreover let ?b = "(fl_cached s ! ?i)\<lparr>cb_data := take (fl_cache_size s) (drop ?bp (fl_file s)), cb_base := ?bp\<rparr>"
      have "r = None" and s': "s' = s\<lparr>fl_cached := (fl_cached s)[?i := ?b]\<rparr>"
        using l True by (simp_all add: loadCacheBlock_cases)
      moreover have "\<forall>b\<in>set ((fl_cached s)[?i := ?b]). block_ok s' b"
        unfolding s' by (rule block_ok_update [OF inv(3)]) (simp add: block_ok_def)
      ultimately show ?thesis using inv(2) by simp
    next
      case False
      let ?b = "\<lparr>cb_data = take (fl_cache_size s) (drop ?bp (fl_file s)), cb_loaded = True, cb_base = ?bp\<rparr>"
      have "r = Some ?i" and s': "s' = s\<lparr>fl_cached := (fl_cached s)[?i := ?b]\<rparr>"
        using l False by (simp_all add: loadCacheBlock_cases)
      moreover have "\<forall>b\<in>set ((fl_cached s)[?i := ?b]). block_ok s' b"
        unfolding s' by (rule block_ok_update [OF inv(3)]) (simp add: block_ok_def)
      ultimately show ?thesis using inv(2) i bb by (simp add: diff_le_mono)
    qed
  qed
qed

text \<open>What a block found for \<open>pos\<close> holds there is what the file holds.\<close>

lemma block_read:
  assumes "block_ok s b" and "cb_loaded b" and "cb_base b = block_base (fl_cache_size s) pos"
    and "0 < fl_cache_size s"
  shows "rdb (fl_file s) pos = (if pos - cb_base b < length (cb_data b) then Some (cb_data b ! (pos - cb_base b)) else None)"
proof -
  note bb = block_base_bounds [OF assms(4), of pos]
  have d: "cb_data b = take (fl_cache_size s) (drop (cb_base b) (fl_file s))"
    using assms(1,2) by (simp add: block_ok_def)
  show ?thesis using bb assms(3) by (auto simp: d rdb_def)
qed

lemma fl_readByte_refines:
  assumes "fl_inv s" and "fl_pos s = Some p"
  shows "fst (fl_readByte s) = rdb (fl_file s) p"
    and "rdb (fl_file s) p \<noteq> None \<Longrightarrow> fl_inv (snd (fl_readByte s)) \<and> fl_pos (snd (fl_readByte s)) = Some (p + 1)
       \<and> fl_file (snd (fl_readByte s)) = fl_file s"
proof -
  obtain i where i: "fl_index s = Some i" "p = cb_base (fl_cached s ! i) + fl_offset s"
    using assms(2) by (auto simp: fl_pos_def)
  have inv: "0 < fl_cache_size s" "i < length (fl_cached s)" "block_ok s (fl_cached s ! i)"
      "cb_loaded (fl_cached s ! i)"
    using assms(1) i by (auto simp: fl_inv_def)
  have main: "fst (fl_readByte s) = rdb (fl_file s) p \<and> (rdb (fl_file s) p \<noteq> None \<longrightarrow>
      fl_inv (snd (fl_readByte s)) \<and> fl_pos (snd (fl_readByte s)) = Some (p + 1)
      \<and> fl_file (snd (fl_readByte s)) = fl_file s)"
  proof (cases "fl_offset s < length (cb_data (fl_cached s ! i))")
    case True
    then have "rdb (fl_file s) p = Some (cb_data (fl_cached s ! i) ! fl_offset s)"
      using inv(3,4) i(2) by (auto simp: block_ok_def rdb_def)
    moreover have "fl_readByte s = (Some (cb_data (fl_cached s ! i) ! fl_offset s), s\<lparr>fl_offset := fl_offset s + 1\<rparr>)"
      using True i(1) by (simp add: fl_readByte_def)
    ultimately show ?thesis using True i assms(1) by (simp add: fl_inv_def fl_pos_def block_ok_def)
  next
    case False
    obtain r s1 where g: "getCacheBlock p s = (r, s1)" by (cases "getCacheBlock p s")
    note ok = getCacheBlock_ok [OF assms(1) g]
    have pc: "fl_offset s + cb_base (fl_cached s ! i) = p" using i(2) by simp
    show ?thesis
    proof (cases r)
      case None
      then show ?thesis using False i(1) g ok by (simp add: fl_readByte_def Let_def pc rdb_def)
    next
      case (Some j)
      let ?b = "fl_cached s1 ! j"
      have b: "block_ok s1 ?b" "cb_loaded ?b" "cb_base ?b = block_base (fl_cache_size s1) p"
          "0 < fl_cache_size s1" "fl_file s1 = fl_file s" "j < CACHE_BLOCKS"
        using ok Some inv(1) by auto
      note rd = block_read [OF b(1-4), unfolded b(5)]
      have le: "cb_base ?b \<le> p" using block_base_bounds(1) [OF b(4)] b(3) by simp
      have eq: "fl_readByte s = (if length (cb_data ?b) \<le> p - cb_base ?b
          then (None, s1\<lparr>fl_index := Some j, fl_offset := p - cb_base ?b\<rparr>)
          else (Some (cb_data ?b ! (p - cb_base ?b)), s1\<lparr>fl_index := Some j, fl_offset := p - cb_base ?b + 1\<rparr>))"
        using False i(1) g Some by (simp add: fl_readByte_def Let_def pc)
      show ?thesis using ok Some b rd le
        by (auto simp: eq fl_inv_def fl_pos_def block_ok_def)
    qed
  qed
  show "fst (fl_readByte s) = rdb (fl_file s) p" using main by blast
  show "rdb (fl_file s) p \<noteq> None \<Longrightarrow> fl_inv (snd (fl_readByte s)) \<and> fl_pos (snd (fl_readByte s)) = Some (p + 1)
       \<and> fl_file (snd (fl_readByte s)) = fl_file s" using main by blast
qed

lemma fl_readBytes_refines:
  assumes "fl_inv s" and "pos + n \<le> length (fl_file s)"
  shows "\<exists>s'. fl_readBytes n pos s = Some (Some (take n (drop pos (fl_file s))), s') \<and> fl_inv s'
     \<and> fl_file s' = fl_file s"
  using assms
proof (induction n arbitrary: pos s rule: less_induct)
  case (less n)
  obtain r s1 where g: "getCacheBlock pos s = (r, s1)" by (cases "getCacheBlock pos s")
  note ok = getCacheBlock_ok [OF less.prems(1) g]
  have "r \<noteq> None" using ok less.prems(2) by (auto split: option.splits)
  then obtain i where i: "r = Some i" by blast
  let ?b = "fl_cached s1 ! i"
  let ?off = "pos - cb_base ?b"
  define k where "k = min n (length (cb_data ?b) - ?off)"
  let ?s2 = "s1\<lparr>fl_index := Some i, fl_offset := ?off + k\<rparr>"
  have cs: "0 < fl_cache_size s1" using less.prems(1) ok by (simp add: fl_inv_def)
  have b: "cb_data ?b = take (fl_cache_size s1) (drop (cb_base ?b) (fl_file s))"
      "cb_base ?b = block_base (fl_cache_size s1) pos" "i < CACHE_BLOCKS" "cb_loaded ?b"
    using ok i by (auto simp: block_ok_def)
  note bb = block_base_bounds [OF cs, of pos, folded b(2)]
  have inv2: "fl_inv ?s2" using ok i cs bb less.prems(2) b by (auto simp: fl_inv_def block_ok_def k_def)
  have chunk: "take k (drop ?off (cb_data ?b)) = take k (drop pos (fl_file s))"
    using bb by (simp add: b(1) drop_take min_def k_def)
  show ?case
  proof (cases "n - k > 0")
    case True
    then have "k < n" "0 < k" using bb less.prems(2) by (auto simp: b(1) k_def)
    then obtain s3 where "fl_readBytes (n - k) (pos + k) ?s2
        = Some (Some (take (n - k) (drop (pos + k) (fl_file s))), s3)" "fl_inv s3" "fl_file s3 = fl_file s"
      using less.IH [of "n - k" ?s2 "pos + k"] inv2 ok less.prems(2) by auto
    moreover have "take k (drop pos (fl_file s)) @ take (n - k) (drop (pos + k) (fl_file s)) = take n (drop pos (fl_file s))"
      using take_add [of k "n - k" "drop pos (fl_file s)"] \<open>k < n\<close> by (simp add: add.commute)
    moreover have "fl_readBytes n pos s = Option.bind (fl_readBytes (n - k) (pos + k) ?s2) (\<lambda>(r, s3).
        Some (map_option (\<lambda>more. take k (drop ?off (cb_data ?b)) @ more) r, s3))"
      using True by (subst fl_readBytes.simps)
        (simp only: g i prod.case option.case Let_def k_def [symmetric] if_True)
    ultimately show ?thesis using chunk by simp
  next
    case False
    then have "k = n" by (simp add: k_def)
    moreover have "fl_readBytes n pos s = Some (Some (take k (drop ?off (cb_data ?b))), ?s2)"
      using False by (subst fl_readBytes.simps)
        (simp only: g i prod.case option.case Let_def k_def [symmetric] if_False)
    ultimately show ?thesis using chunk inv2 ok by simp
  qed
qed

subsection \<open>Properties\<close>

text \<open>Reading a whole tree back through the node headers.\<close>

fun read_tree :: "byte \<Rightarrow> byte list \<Rightarrow> NodeStruct \<Rightarrow> otree" where
  "read_tree stale f (NodeStruct st sz ty ch) =
     OT ty (getProps stale f (NodeStruct st sz ty ch)) (map (read_tree stale f) ch)"

lemma read_layout:
  "f = pre @ concat (map enc ts) @ rest \<Longrightarrow> map (read_tree stale f) (layout (length pre) ts) = ts"
proof (induction "length pre" ts arbitrary: pre rest rule: layout.induct)
  case (2 ty ps cs ts)
  let ?pre1 = "pre @ [NODE_START, ty] @ escape ps"
  let ?pre2 = "pre @ enc (OT ty ps cs)"
  have f: "f = ?pre1 @ concat (map enc cs) @ NODE_END # concat (map enc ts) @ rest"
    using "2.prems" by simp
  have kids: "map (read_tree stale f) (layout (length ?pre1) cs) = cs"
    by (rule "2.hyps"(1) [OF _ f]) simp
  have sibs: "map (read_tree stale f) (layout (length ?pre2) ts) = ts"
    using "2.prems" by (intro "2.hyps"(2) [of _ rest]) simp_all
  have "take (length (escape ps)) (drop (length pre + 2) f) = escape ps"
    using f by simp
  then have "getProps stale f (NodeStruct (length pre) (length (escape ps)) ty k) = ps" for k
    by (simp add: getProps_def unescape_escape)
  with kids sibs show ?case by simp
qed simp

text \<open>C6: Loading inverts the file format: for every tree of nodes, opening the file that holds its
  encoding (with the accepted or the wildcard identifier) succeeds, and reading types,
  unstuffed properties and children back through the parsed node headers gives the tree,
  whatever bytes the properties contain.\<close>

theorem openFile_inverts_format:
  assumes "length idt = 4" and "idt = accept \<or> idt = [0, 0, 0, 0]"
  shows "\<exists>root. openFile accept (idt @ enc t) = Some (Inr root)
     \<and> read_tree stale (idt @ enc t) root = t"
proof -
  let ?f = "idt @ enc t"
  obtain ty ps cs where t: "t = OT ty ps cs" by (cases t)
  obtain root where root: "layout 4 [t] = [root]" by (simp add: t)
  have "rdb ?f 4 = Some NODE_START" using rdb_at(1) [of ?f idt NODE_START _ 4] assms(1) t by simp
  then have "openFile accept ?f = Some (Inr root)"
    using parse_root [of ?f idt t] assms root by (auto simp: openFile_def)
  moreover have "read_tree stale ?f root = t"
    using read_layout [of ?f idt "[t]" "[]" stale] assms(1) root by simp
  ultimately show ?thesis by blast
qed

theorem openFile_inverts_format_witness:
  "\<exists>root. openFile [79, 84, 66, 73] ([0, 0, 0, 0] @ enc (OT 1 [NODE_END, 7] [OT 2 [] []])) = Some (Inr root)
     \<and> read_tree 0 ([0, 0, 0, 0] @ enc (OT 1 [NODE_END, 7] [OT 2 [] []])) root
       = OT 1 [NODE_END, 7] [OT 2 [] []]"
  by (rule openFile_inverts_format) simp_all

text \<open>C7: The three-block cache is transparent: from any state whose loaded blocks hold what the file
  holds, \<open>readByte\<close> returns the byte of the file at the current offset and advances by one, or
  fails exactly at the end of the file; \<open>readBytes\<close> of a range inside the file always returns
  that range. The block size is never zero.\<close>

theorem cache_transparent:
  assumes "fl_inv s" and "fl_pos s = Some p" and "q + n \<le> length (fl_file s)"
  shows "fst (fl_readByte s) = rdb (fl_file s) p
     \<and> (p < length (fl_file s) \<longrightarrow> fl_inv (snd (fl_readByte s)) \<and> fl_pos (snd (fl_readByte s)) = Some (p + 1))
     \<and> (\<exists>s'. fl_readBytes n q s = Some (Some (take n (drop q (fl_file s))), s') \<and> fl_inv s')
     \<and> 0 < cache_size_of (length (fl_file s))"
proof -
  have "rdb (fl_file s) p \<noteq> None \<longleftrightarrow> p < length (fl_file s)" by (simp add: rdb_def)
  moreover have "0 < cache_size_of (length (fl_file s))"
    using cache_size_pos [of "length (fl_file s)"] by linarith
  ultimately show ?thesis
    using fl_readByte_refines [OF assms(1,2)] fl_readBytes_refines [OF assms(1,3)] by blast
qed

lemma fl_inv_new: "fl_inv (new_FileLoader f)"
  using cache_size_pos [of "length f"] by (simp add: fl_inv_def new_FileLoader_def block_ok_def)

lemma fl_safeSeek_ok:
  assumes "fl_inv s" and "p \<le> length (fl_file s)"
  shows "fst (fl_safeSeek p s) \<and> fl_inv (snd (fl_safeSeek p s)) \<and> fl_pos (snd (fl_safeSeek p s)) = Some p
     \<and> fl_file (snd (fl_safeSeek p s)) = fl_file s"
proof -
  obtain r s1 where g: "getCacheBlock p s = (r, s1)" by (cases "getCacheBlock p s")
  note ok = getCacheBlock_ok [OF assms(1) g]
  have "r \<noteq> None" using ok assms(2) by (auto split: option.splits)
  then obtain i where i: "r = Some i" by blast
  have cs: "0 < fl_cache_size s" using assms(1) by (simp add: fl_inv_def)
  note bb = block_base_bounds [OF cs, of p]
  show ?thesis using ok i g cs bb assms(2)
    by (auto simp: fl_safeSeek_def fl_inv_def fl_pos_def block_ok_def)
qed

definition demo_loader :: FileLoader where
  "demo_loader = snd (fl_safeSeek 1 (new_FileLoader [10, 20, 30]))"

lemma demo_loader_ok: "fl_inv demo_loader" "fl_pos demo_loader = Some 1" "fl_file demo_loader = [10, 20, 30]"
  using fl_safeSeek_ok [OF fl_inv_new, of 1 "[10, 20, 30]"]
  by (simp_all add: demo_loader_def new_FileLoader_def)

theorem cache_transparent_witness:
  "fst (fl_readByte demo_loader) = rdb [10, 20, 30] 1
   \<and> (\<exists>s'. fl_readBytes 2 0 demo_loader = Some (Some (take 2 (drop 0 [10, 20, 30])), s') \<and> fl_inv s')"
proof -
  have "0 + 2 \<le> length (fl_file demo_loader)" by (simp add: demo_loader_ok)
  from cache_transparent [OF demo_loader_ok(1,2) this] show ?thesis by (simp only: demo_loader_ok(3))
qed

end
