(* ===== verification/Prop_Stream.thy ===== *)
theory Prop_Stream
  imports Prelude
begin

section \<open>Property streams\<close>

text \<open>
  The classes \<open>PropStream\<close> and \<open>PropWriteStream\<close> of \<open>src/src/fileloader.h\<close>: reading and
  writing the attribute blobs of items, conditions and houses. A read stream is what lies
  between \<open>p\<close> and \<open>end\<close>; a write stream is its content with the capacity of its heap buffer,
  which \<open>reserve\<close> doubles until the next write fits.
\<close>

type_synonym PropStream = "byte list"

definition ps_read :: "nat \<Rightarrow> PropStream \<Rightarrow> (nat \<times> PropStream) option" where
  "ps_read k s = (if length s < k then None else Some (le_val (take k s), drop k s))"

definition ps_readString :: "PropStream \<Rightarrow> (byte list \<times> PropStream) option" where
  "ps_readString s =
     (case ps_read 2 s of
        None \<Rightarrow> None
      | Some (strLen, s1) \<Rightarrow> if length s1 < strLen then None else Some (take strLen s1, drop strLen s1))"

definition ps_skip :: "nat \<Rightarrow> PropStream \<Rightarrow> PropStream option" where
  "ps_skip n s = (if length s < n then None else Some (drop n s))"

record PropWriteStream =
  pw_data :: "byte list"
  pw_capacity :: nat

definition new_PropWriteStream :: PropWriteStream where
  "new_PropWriteStream = \<lparr>pw_data = [], pw_capacity = 32\<rparr>"

definition pw_clear :: "PropWriteStream \<Rightarrow> PropWriteStream" where
  "pw_clear w = w\<lparr>pw_data := []\<rparr>"

text \<open>\<open>do { buffer_size <<= 1; } while ((buffer_size - size) < length);\<close> on a capacity of at least one.\<close>

function grow :: "nat \<Rightarrow> nat \<Rightarrow> nat \<Rightarrow> nat" where
  "grow cap sz len =
     (if cap = 0 then 0
      else if 2 * cap - sz < len then grow (2 * cap) sz len else 2 * cap)"
  by pat_completeness auto
termination
  by (relation "measure (\<lambda>(cap, sz, len). sz + len - cap)") auto

declare grow.simps [simp del]

definition pw_reserve :: "nat \<Rightarrow> PropWriteStream \<Rightarrow> PropWriteStream" where
  "pw_reserve len w =
     (if pw_capacity w - length (pw_data w) \<ge> len then w
      else w\<lparr>pw_capacity := grow (pw_capacity w) (length (pw_data w)) len\<rparr>)"

text \<open>A copy behind the data; \<open>None\<close> if it left the heap block.\<close>

definition pw_put :: "byte list \<Rightarrow> PropWriteStream \<Rightarrow> PropWriteStream option" where
  "pw_put bs w = (if length (pw_data w) + length bs \<le> pw_capacity w
                  then Some (w\<lparr>pw_data := pw_data w @ bs\<rparr>) else None)"

definition pw_write :: "nat \<Rightarrow> nat \<Rightarrow> PropWriteStream \<Rightarrow> PropWriteStream option" where
  "pw_write k v w = pw_put (le_bytes k v) (pw_reserve k w)"

definition pw_writeString :: "byte list \<Rightarrow> PropWriteStream \<Rightarrow> PropWriteStream option" where
  "pw_writeString str w =
     (let strLength = length str
      in if strLength > 65535 then pw_write 2 0 w
         else Option.bind (pw_write 2 strLength w) (\<lambda>w1. pw_put str (pw_reserve strLength w1)))"

subsection \<open>Writes never leave the heap block\<close>

definition pw_inv :: "PropWriteStream \<Rightarrow> bool" where
  "pw_inv w \<longleftrightarrow> 0 < pw_capacity w \<and> length (pw_data w) \<le> pw_capacity w"

lemma grow_enough: "0 < cap \<Longrightarrow> len \<le> grow cap sz len - sz \<and> cap \<le> grow cap sz len"
proof (induction cap sz len rule: grow.induct)
  case (1 cap sz len)
  then show ?case by (auto simp: grow.simps [of cap sz len])
qed

lemma pw_reserve_ok:
  assumes "pw_inv w"
  shows "pw_inv (pw_reserve len w)" "length (pw_data w) + len \<le> pw_capacity (pw_reserve len w)"
    "pw_data (pw_reserve len w) = pw_data w"
proof -
  have g: "0 < pw_capacity w" "length (pw_data w) \<le> pw_capacity w" using assms by (auto simp: pw_inv_def)
  note en = grow_enough [OF g(1), of len "length (pw_data w)"]
  show "pw_inv (pw_reserve len w)" using g en by (auto simp: pw_reserve_def pw_inv_def)
  show "length (pw_data w) + len \<le> pw_capacity (pw_reserve len w)"
    using g en by (auto simp: pw_reserve_def)
  show "pw_data (pw_reserve len w) = pw_data w" by (simp add: pw_reserve_def)
qed

lemma pw_put_reserved:
  assumes "pw_inv w"
  shows "\<exists>w'. pw_put bs (pw_reserve (length bs) w) = Some w' \<and> pw_inv w' \<and> pw_data w' = pw_data w @ bs"
  using pw_reserve_ok [OF assms, of "length bs"] by (auto simp: pw_put_def pw_inv_def)

lemma pw_write_ok:
  assumes "pw_inv w"
  shows "\<exists>w'. pw_write k v w = Some w' \<and> pw_inv w' \<and> pw_data w' = pw_data w @ le_bytes k v"
  using pw_put_reserved [OF assms, of "le_bytes k v"] by (simp add: pw_write_def)

lemma pw_writeString_ok:
  assumes "pw_inv w" and "length s \<le> 65535"
  shows "\<exists>w'. pw_writeString s w = Some w' \<and> pw_inv w'
     \<and> pw_data w' = pw_data w @ le_bytes 2 (length s) @ s"
proof -
  obtain w1 where w1: "pw_write 2 (length s) w = Some w1" "pw_inv w1"
      "pw_data w1 = pw_data w @ le_bytes 2 (length s)"
    using pw_write_ok [OF assms(1)] by blast
  from pw_put_reserved [OF w1(2), of s] show ?thesis
    using w1 assms(2) by (auto simp: pw_writeString_def Let_def)
qed

lemma ps_read_bytes: "ps_read k (le_bytes k v @ r) = Some (v mod 256 ^ k, r)"
  by (simp add: ps_read_def le_val_le_bytes)

lemma ps_readString_bytes:
  "length s \<le> 65535 \<Longrightarrow> ps_readString (le_bytes 2 (length s) @ s @ r) = Some (s, r)"
  by (simp add: ps_readString_def ps_read_bytes)

lemma ps_read_suffix: "ps_read k s = Some (v, r) \<Longrightarrow> length r + k = length s \<and> v < 256 ^ k"
  using le_val_bound [of "take k s"] by (auto simp: ps_read_def min_def split: if_splits)

end
