(* ===== verification/Login_Gate.thy ===== *)
theory Login_Gate
  imports Position_Model "HOL-Library.Sublist"
begin

section \<open>Who may connect and who may log in\<close>

text \<open>
  \<open>ban.cpp\<close>, \<open>ban.h\<close>, \<open>waitlist.cpp\<close>, \<open>waitlist.h\<close>: the per-address connection throttle
  \<open>Ban::acceptConnection\<close>, the ban look-ups of \<open>IOBan\<close> (the database is what a query returns
  and the statements queued for it), and the waiting list for a full server. Times are what
  \<open>OTSYS_TIME\<close> and \<open>time\<close> return, passed as arguments.

  \<open>WaitingList::clientLogin\<close> erases from \<open>waitList\<close> an iterator that may point into
  \<open>priorityWaitList\<close>; that call has no defined behaviour and is the value \<open>None\<close> here.
\<close>

subsection \<open>Connection throttle\<close>

record ConnectBlock =
  lastAttempt :: "64 word"
  blockTime :: "64 word"
  cb_count :: "32 word"

type_synonym IpConnectMap = "nat \<rightharpoonup> ConnectBlock"

definition acceptConnection :: "64 word \<Rightarrow> nat \<Rightarrow> IpConnectMap \<Rightarrow> bool \<times> IpConnectMap" where
  "acceptConnection currentTime clientip m =
     (case m clientip of
        None \<Rightarrow> (True, m(clientip \<mapsto> \<lparr>lastAttempt = currentTime, blockTime = 0, cb_count = 1\<rparr>))
      | Some b \<Rightarrow>
          if blockTime b > currentTime then
            (False, m(clientip \<mapsto> b\<lparr>blockTime := blockTime b + 250\<rparr>))
          else
            let timeDiff = sint (currentTime - lastAttempt b);
                b = b\<lparr>lastAttempt := currentTime\<rparr>
            in if timeDiff \<le> 5000 then
                 let count = cb_count b + 1
                 in if count > 5 then
                      if timeDiff \<le> 500 then
                        (False, m(clientip \<mapsto> b\<lparr>cb_count := 0, blockTime := currentTime + 3000\<rparr>))
                      else (True, m(clientip \<mapsto> b\<lparr>cb_count := 0\<rparr>))
                    else (True, m(clientip \<mapsto> b\<lparr>cb_count := count\<rparr>))
               else (True, m(clientip \<mapsto> b\<lparr>cb_count := 1\<rparr>)))"

text \<open>A sequence of attempts, each with its time and address, and the answers.\<close>

fun accept_run :: "(64 word \<times> nat) list \<Rightarrow> IpConnectMap \<Rightarrow> bool list \<times> IpConnectMap" where
  "accept_run [] m = ([], m)"
| "accept_run ((t, ip) # as) m =
     (let (r, m') = acceptConnection t ip m; (rs, m'') = accept_run as m' in (r # rs, m''))"

subsection \<open>Ban look-ups\<close>

record BanInfo =
  bi_bannedBy :: string
  bi_reason :: string
  bi_expiresAt :: int

record ban_row =
  br_reason :: string
  br_expires_at :: int
  br_banned_at :: int
  br_banned_by :: nat
  br_name :: string

definition show_int :: "int \<Rightarrow> string" where
  "show_int i = (if i < 0 then ''-'' @ dec_digits (nat (- i)) else dec_digits (nat i))"

definition account_ban_query :: "nat \<Rightarrow> string" where
  "account_ban_query accountId =
     ''SELECT `reason`, `expires_at`, `banned_at`, `banned_by`, (SELECT `name` FROM `players` WHERE `id` = `banned_by`) AS `name` FROM `account_bans` WHERE `account_id` = ''
     @ dec_digits accountId"

definition ban_history_query :: "(string \<Rightarrow> string) \<Rightarrow> nat \<Rightarrow> ban_row \<Rightarrow> string" where
  "ban_history_query escapeString accountId row =
     ''INSERT INTO `account_ban_history` (`account_id`, `reason`, `banned_at`, `expired_at`, `banned_by`) VALUES (''
     @ dec_digits accountId @ '','' @ escapeString (br_reason row) @ '','' @ show_int (br_banned_at row) @ '',''
     @ show_int (br_expires_at row) @ '','' @ dec_digits (br_banned_by row) @ '')''"

definition account_ban_delete :: "nat \<Rightarrow> string" where
  "account_ban_delete accountId = ''DELETE FROM `account_bans` WHERE `account_id` = '' @ dec_digits accountId"

definition ip_ban_query :: "nat \<Rightarrow> string" where
  "ip_ban_query clientip =
     ''SELECT `reason`, `expires_at`, (SELECT `name` FROM `players` WHERE `id` = `banned_by`) AS `name` FROM `ip_bans` WHERE `ip` = ''
     @ dec_digits clientip"

definition ip_ban_delete :: "nat \<Rightarrow> string" where
  "ip_ban_delete clientip = ''DELETE FROM `ip_bans` WHERE `ip` = '' @ dec_digits clientip"

text \<open>The results are the answer, \<open>banInfo\<close> when it was filled in, and the statements handed to
  the database thread. \<open>storeQuery\<close> and \<open>escapeString\<close> are the database's.\<close>

definition isAccountBanned ::
  "(string \<Rightarrow> ban_row option) \<Rightarrow> (string \<Rightarrow> string) \<Rightarrow> int \<Rightarrow> nat \<Rightarrow> bool \<times> BanInfo option \<times> string list" where
  "isAccountBanned storeQuery escapeString now accountId =
     (case storeQuery (account_ban_query accountId) of
        None \<Rightarrow> (False, None, [])
      | Some result \<Rightarrow>
          let expiresAt = br_expires_at result
          in if expiresAt \<noteq> 0 \<and> now > expiresAt then
               (False, None, [ban_history_query escapeString accountId result, account_ban_delete accountId])
             else (True, Some \<lparr>bi_bannedBy = br_name result, bi_reason = br_reason result,
                               bi_expiresAt = expiresAt\<rparr>, []))"

definition isIpBanned ::
  "(string \<Rightarrow> ban_row option) \<Rightarrow> int \<Rightarrow> nat \<Rightarrow> bool \<times> BanInfo option \<times> string list" where
  "isIpBanned storeQuery now clientip =
     (if clientip = 0 then (False, None, [])
      else case storeQuery (ip_ban_query clientip) of
        None \<Rightarrow> (False, None, [])
      | Some result \<Rightarrow>
          let expiresAt = br_expires_at result
          in if expiresAt \<noteq> 0 \<and> now > expiresAt then (False, None, [ip_ban_delete clientip])
             else (True, Some \<lparr>bi_bannedBy = br_name result, bi_reason = br_reason result,
                               bi_expiresAt = expiresAt\<rparr>, []))"

definition isPlayerNamelocked :: "(string \<Rightarrow> bool) \<Rightarrow> nat \<Rightarrow> bool" where
  "isPlayerNamelocked storeQuery playerId =
     storeQuery (''SELECT 1 FROM `player_namelocks` WHERE `player_id` = '' @ dec_digits playerId)"

subsection \<open>Waiting list\<close>

record Wait =
  w_timeout :: int
  w_playerGUID :: nat

record WaitingList =
  priorityWaitList :: "Wait list"
  waitList :: "Wait list"

text \<open>What \<open>clientLogin\<close> asks of the player.\<close>

record login_client =
  lc_guid :: nat
  lc_canAlwaysLogin :: bool
  lc_accountType :: nat
  lc_premium :: bool

definition ACCOUNT_TYPE_GAMEMASTER :: nat where "ACCOUNT_TYPE_GAMEMASTER = 4"

fun find_wait :: "nat \<Rightarrow> Wait list \<Rightarrow> nat option" where
  "find_wait guid [] = None"
| "find_wait guid (w # ws) =
     (if w_playerGUID w = guid then Some 0 else map_option Suc (find_wait guid ws))"

datatype wl_iter = Priority_At nat | Wait_At nat | Wait_End

definition findClient :: "nat \<Rightarrow> WaitingList \<Rightarrow> wl_iter \<times> nat" where
  "findClient guid wl =
     (case find_wait guid (priorityWaitList wl) of
        Some i \<Rightarrow> (Priority_At i, 1 + i)
      | None \<Rightarrow>
          (case find_wait guid (waitList wl) of
             Some i \<Rightarrow> (Wait_At i, 1 + length (priorityWaitList wl) + i)
           | None \<Rightarrow> (Wait_End, 1 + length (priorityWaitList wl) + length (waitList wl))))"

definition wl_getTime :: "nat \<Rightarrow> nat" where
  "wl_getTime slot =
     (if slot < 5 then 5 else if slot < 10 then 10 else if slot < 20 then 20
      else if slot < 50 then 60 else 120)"

definition wl_getTimeout :: "nat \<Rightarrow> nat" where
  "wl_getTimeout slot = wl_getTime slot + 15"

fun cleanupList :: "int \<Rightarrow> Wait list \<Rightarrow> Wait list" where
  "cleanupList time [] = []"
| "cleanupList time (w # ws) =
     (if w_timeout w - time \<le> 0 then cleanupList time ws else w # cleanupList time ws)"

definition erase_at :: "nat \<Rightarrow> 'a list \<Rightarrow> 'a list" where
  "erase_at i xs = take i xs @ drop (Suc i) xs"

definition clientLogin ::
  "int \<Rightarrow> nat \<Rightarrow> nat \<Rightarrow> login_client \<Rightarrow> WaitingList \<Rightarrow> (bool \<times> WaitingList) option" where
  "clientLogin now maxPlayers playersOnline c wl =
     (if lc_canAlwaysLogin c \<or> lc_accountType c \<ge> ACCOUNT_TYPE_GAMEMASTER then Some (True, wl)
      else if maxPlayers = 0 \<or> (priorityWaitList wl = [] \<and> waitList wl = [] \<and> playersOnline < maxPlayers)
      then Some (True, wl)
      else
        let wl = \<lparr>priorityWaitList = cleanupList now (priorityWaitList wl),
                  waitList = cleanupList now (waitList wl)\<rparr>;
            (it, slot) = findClient (lc_guid c) wl;
            later = now + int (wl_getTimeout slot * 1000)
        in case it of
             Priority_At i \<Rightarrow>
               if playersOnline + slot \<le> maxPlayers then None
               else Some (False, wl\<lparr>priorityWaitList := (priorityWaitList wl)
                      [i := (priorityWaitList wl ! i)\<lparr>w_timeout := later\<rparr>]\<rparr>)
           | Wait_At i \<Rightarrow>
               if playersOnline + slot \<le> maxPlayers then
                 Some (True, wl\<lparr>waitList := erase_at i (waitList wl)\<rparr>)
               else Some (False, wl\<lparr>waitList := (waitList wl)
                      [i := (waitList wl ! i)\<lparr>w_timeout := later\<rparr>]\<rparr>)
           | Wait_End \<Rightarrow>
               let slot = length (priorityWaitList wl)
               in if lc_premium c then
                    Some (False, wl\<lparr>priorityWaitList := priorityWaitList wl @
                      [\<lparr>w_timeout = now + int (wl_getTimeout (slot + 1) * 1000), w_playerGUID = lc_guid c\<rparr>]\<rparr>)
                  else
                    let slot = slot + length (waitList wl)
                    in Some (False, wl\<lparr>waitList := waitList wl @
                      [\<lparr>w_timeout = now + int (wl_getTimeout (slot + 1) * 1000), w_playerGUID = lc_guid c\<rparr>]\<rparr>))"

definition getClientSlot :: "nat \<Rightarrow> WaitingList \<Rightarrow> nat" where
  "getClientSlot guid wl =
     (case findClient guid wl of (Wait_End, _) \<Rightarrow> 0 | (_, slot) \<Rightarrow> slot)"

inductive wl_reach :: "WaitingList \<Rightarrow> bool" where
  wl_start: "wl_reach \<lparr>priorityWaitList = [], waitList = []\<rparr>"
| wl_login: "wl_reach wl \<Longrightarrow> clientLogin now maxPlayers online c wl = Some (r, wl') \<Longrightarrow> wl_reach wl'"

subsection \<open>The throttle\<close>

definition ban_inv :: "IpConnectMap \<Rightarrow> bool" where
  "ban_inv m \<longleftrightarrow> (\<forall>ip b. m ip = Some b \<longrightarrow> unat (cb_count b) \<le> 5)"

text \<open>Times of consecutive attempts, none more than \<open>k\<close> milliseconds after the one before.\<close>

fun gaps_within :: "nat \<Rightarrow> 64 word list \<Rightarrow> bool" where
  "gaps_within k (t # t' # ts) \<longleftrightarrow> t \<le> t' \<and> unat t' \<le> unat t + k \<and> gaps_within k (t' # ts)"
| "gaps_within k _ \<longleftrightarrow> True"

lemma sint_small_diff:
  fixes t t' :: "64 word"
  assumes "t \<le> t'" "unat t' \<le> unat t + k" "k \<le> 5000"
  shows "sint (t' - t) \<le> int k"
proof -
  have d: "unat (t' - t) = unat t' - unat t"
    using assms(1) by (simp add: unat_sub)
  have "sint (t' - t) = signed_take_bit 63 (int (unat (t' - t)))"
    by (simp add: sint_uint)
  also have "\<dots> = int (unat (t' - t))"
    by (rule signed_take_bit_int_eq_self) (use d assms in simp_all)
  finally show ?thesis using d assms by simp
qed

lemma accept_count:
  assumes "m ip = Some b" "fst (acceptConnection t ip m)" "unat (cb_count b) \<le> 5"
    "lastAttempt b \<le> t" "unat t \<le> unat (lastAttempt b) + 500"
  shows "\<exists>b'. snd (acceptConnection t ip m) ip = Some b' \<and> lastAttempt b' = t
    \<and> unat (cb_count b') = unat (cb_count b) + 1 \<and> unat (cb_count b) < 5"
proof -
  have d: "sint (t - lastAttempt b) \<le> 500"
    using sint_small_diff [OF assms(4,5)] by simp
  have u: "unat (cb_count b + 1) = unat (cb_count b) + 1"
    using unat_add_lem [of "cb_count b" 1] assms(3) by simp
  have "\<not> blockTime b > t" "\<not> cb_count b + 1 > 5"
    using assms(1,2) d by (auto simp: acceptConnection_def Let_def split: if_splits)
  then show ?thesis
    using assms(1) d u by (auto simp: acceptConnection_def Let_def word_less_nat_alt)
qed

lemma accept_first:
  assumes "ban_inv m" "fst (acceptConnection t ip m)"
  shows "\<exists>b'. snd (acceptConnection t ip m) ip = Some b' \<and> lastAttempt b' = t \<and> unat (cb_count b') \<le> 5"
proof (cases "m ip")
  case None
  then show ?thesis by (simp add: acceptConnection_def)
next
  case (Some b)
  then show ?thesis
    using assms by (auto simp: acceptConnection_def Let_def word_less_nat_alt split: if_splits)
qed

lemma accept_inv:
  assumes "ban_inv m"
  shows "ban_inv (snd (acceptConnection t ip m))"
  using assms by (auto simp: ban_inv_def acceptConnection_def Let_def word_less_nat_alt split: option.splits if_splits)

lemma accept_run_count:
  assumes "m ip = Some b" "unat (cb_count b) \<le> 5" "gaps_within 500 (lastAttempt b # ts)"
    "\<forall>r\<in>set (fst (accept_run (map (\<lambda>t. (t, ip)) ts) m)). r"
  shows "unat (cb_count b) + length ts \<le> 5"
  using assms
proof (induction ts arbitrary: m b)
  case Nil
  then show ?case by simp
next
  case (Cons t ts)
  have acc: "fst (acceptConnection t ip m)"
    and rest: "\<forall>r\<in>set (fst (accept_run (map (\<lambda>t. (t, ip)) ts) (snd (acceptConnection t ip m)))). r"
    using Cons.prems(4) by (auto simp: Let_def split: prod.splits)
  obtain b' where b': "snd (acceptConnection t ip m) ip = Some b'" "lastAttempt b' = t"
    "unat (cb_count b') = unat (cb_count b) + 1" "unat (cb_count b) < 5"
    using accept_count [OF Cons.prems(1) acc Cons.prems(2)] Cons.prems(3) by auto
  have "unat (cb_count b') + length ts \<le> 5"
    by (rule Cons.IH [where m = "snd (acceptConnection t ip m)"]) (use b' Cons.prems(3) rest in auto)
  then show ?case using b'(3) by simp
qed

text \<open>A client address that keeps connecting with at most half a second between attempts is
  refused: whatever the throttle remembers of it, of seven such attempts in a row at least one is
  turned away.\<close>

lemma ban_rate_limit:
  assumes "ban_inv m" "gaps_within 500 ts" "length ts = 7"
  shows "False \<in> set (fst (accept_run (map (\<lambda>t. (t, ip)) ts) m))"
proof (rule ccontr)
  assume "\<not> ?thesis"
  then have all: "\<forall>r\<in>set (fst (accept_run (map (\<lambda>t. (t, ip)) ts) m)). r" by metis
  obtain t ts' where ts: "ts = t # ts'" using assms(3) by (cases ts) auto
  have acc: "fst (acceptConnection t ip m)"
    and rest: "\<forall>r\<in>set (fst (accept_run (map (\<lambda>t. (t, ip)) ts') (snd (acceptConnection t ip m)))). r"
    using all by (auto simp: ts Let_def split: prod.splits)
  obtain b' where b': "snd (acceptConnection t ip m) ip = Some b'" "lastAttempt b' = t" "unat (cb_count b') \<le> 5"
    using accept_first [OF assms(1) acc] by auto
  have "unat (cb_count b') + length ts' \<le> 5"
    by (rule accept_run_count [where m = "snd (acceptConnection t ip m)" and ip = ip]) (use b' rest assms(2) ts in auto)
  then show False using assms(3) ts by simp
qed

lemma ban_rate_limit_witness:
  "False \<in> set (fst (accept_run (map (\<lambda>t. (t, 7)) [0, 100, 200, 300, 400, 500, 600]) Map.empty))"
  by (rule ban_rate_limit) (simp_all add: ban_inv_def)

text \<open>Once blocked, an address that retries at least every quarter of a second stays locked
  out: each refused attempt moves the end of the block by 250 milliseconds, so every one of its
  attempts is refused, for as long as it goes on.\<close>

lemma ban_lockout:
  assumes "m ip = Some b" "t < blockTime b" "gaps_within 250 (t # ts)"
    "unat (blockTime b) + 250 * (length ts + 1) < 2 ^ 64"
  shows "fst (accept_run (map (\<lambda>t. (t, ip)) (t # ts)) m) = replicate (length ts + 1) False"
  using assms
proof (induction ts arbitrary: t m b)
  case Nil
  then show ?case by (simp add: acceptConnection_def)
next
  case (Cons t' ts)
  let ?b = "b\<lparr>blockTime := blockTime b + 250\<rparr>"
  let ?m = "m(ip \<mapsto> ?b)"
  have u: "unat (blockTime b + 250) = unat (blockTime b) + 250"
    using Cons.prems(4) by (subst unat_add_lem [THEN iffD1]) simp_all
  have "fst (accept_run (map (\<lambda>t. (t, ip)) (t' # ts)) ?m) = replicate (length ts + 1) False"
    by (rule Cons.IH [of ?m ?b]) (use Cons.prems u in \<open>simp_all add: word_less_nat_alt\<close>)
  moreover have "acceptConnection t ip m = (False, ?m)"
    using Cons.prems(1,2) by (simp add: acceptConnection_def)
  ultimately show ?case by (auto split: prod.splits)
qed

lemma ban_lockout_witness:
  "fst (accept_run (map (\<lambda>t. (t, 7)) (100 # [300, 500, 700]))
     [7 \<mapsto> \<lparr>lastAttempt = 50, blockTime = 3050, cb_count = 0\<rparr>]) = replicate (length [300, 500, 700 :: 64 word] + 1) False"
  by (rule ban_lockout [where b = "\<lparr>lastAttempt = 50, blockTime = 3050, cb_count = 0\<rparr>"]) simp_all

subsection \<open>One address does not affect another\<close>

lemma accept_other [simp]: "ip' \<noteq> ip \<Longrightarrow> snd (acceptConnection t ip m) ip' = m ip'"
  by (simp add: acceptConnection_def Let_def split: option.splits)

lemma accept_local:
  assumes "m ip = m' ip"
  shows "fst (acceptConnection t ip m) = fst (acceptConnection t ip m')"
    "snd (acceptConnection t ip m) ip = snd (acceptConnection t ip m') ip"
  using assms by (simp_all add: acceptConnection_def Let_def split: option.splits)

text \<open>Addresses are throttled independently: in any interleaving of attempts, the answers
  given to one address are those it would get if it were the only one connecting.\<close>

lemma ban_isolation:
  "map snd (filter (\<lambda>(a, r). snd a = ip) (zip as (fst (accept_run as m))))
   = fst (accept_run (filter (\<lambda>a. snd a = ip) as) m)"
proof -
  have "m ip = m' ip \<Longrightarrow> map snd (filter (\<lambda>(a, r). snd a = ip) (zip as (fst (accept_run as m))))
    = fst (accept_run (filter (\<lambda>a. snd a = ip) as) m')" for m'
  proof (induction as arbitrary: m m')
    case Nil
    then show ?case by simp
  next
    case (Cons a as)
    obtain t p where a: "a = (t, p)" by (cases a)
    show ?case
    proof (cases "p = ip")
      case True
      then show ?thesis
        using Cons.IH [of "snd (acceptConnection t ip m)" "snd (acceptConnection t ip m')"]
          accept_local [of m ip m' t] Cons.prems
        by (simp add: a Let_def split_beta)
    next
      case False
      then have "snd (acceptConnection t p m) ip = m' ip" using Cons.prems by simp
      from Cons.IH [of "snd (acceptConnection t p m)" m', OF this] show ?thesis using False by (simp add: a Let_def split_beta)
    qed
  qed
  then show ?thesis by simp
qed

subsection \<open>Ban look-ups\<close>

text \<open>An account is banned exactly when the database has a ban for it that is permanent
  or has not run out; the ban that has run out is moved to the history, copied before it is
  deleted, and no other look-up changes the database.\<close>

lemma account_ban_lifetime:
  "fst (isAccountBanned storeQuery escapeString now accountId) =
     (\<exists>row. storeQuery (account_ban_query accountId) = Some row
        \<and> (br_expires_at row = 0 \<or> now \<le> br_expires_at row))"
  "snd (snd (isAccountBanned storeQuery escapeString now accountId)) =
     (case storeQuery (account_ban_query accountId) of
        Some row \<Rightarrow> if br_expires_at row = 0 \<or> now \<le> br_expires_at row then []
                    else [ban_history_query escapeString accountId row, account_ban_delete accountId]
      | None \<Rightarrow> [])"
  by (auto simp: isAccountBanned_def Let_def split: option.splits)

subsection \<open>The waiting list\<close>

definition wl_queue :: "WaitingList \<Rightarrow> Wait list" where
  "wl_queue wl = priorityWaitList wl @ waitList wl"

definition wl_guids :: "WaitingList \<Rightarrow> nat list" where
  "wl_guids wl = map w_playerGUID (wl_queue wl)"

definition wl_live :: "int \<Rightarrow> WaitingList \<Rightarrow> WaitingList" where
  "wl_live now wl = \<lparr>priorityWaitList = cleanupList now (priorityWaitList wl),
                     waitList = cleanupList now (waitList wl)\<rparr>"

text \<open>The entries a client has to wait for.\<close>

definition wl_ahead :: "nat \<Rightarrow> WaitingList \<Rightarrow> Wait list" where
  "wl_ahead guid wl = takeWhile (\<lambda>w. w_playerGUID w \<noteq> guid) (wl_queue wl)"

definition privileged :: "login_client \<Rightarrow> bool" where
  "privileged c \<longleftrightarrow> lc_canAlwaysLogin c \<or> lc_accountType c \<ge> ACCOUNT_TYPE_GAMEMASTER"

lemma cleanupList_filter: "cleanupList now ws = filter (\<lambda>w. now < w_timeout w) ws"
  by (induction ws) auto

lemma find_wait_Some:
  "find_wait g ws = Some i \<Longrightarrow>
     i < length ws \<and> w_playerGUID (ws ! i) = g \<and> length (takeWhile (\<lambda>w. w_playerGUID w \<noteq> g) ws) = i"
  by (induction ws arbitrary: i) (auto split: if_splits)

lemma find_wait_None: "find_wait g ws = None \<longleftrightarrow> g \<notin> w_playerGUID ` set ws"
  by (induction ws) auto

lemma findClient_slot: "snd (findClient g wl) = length (wl_ahead g wl) + 1"
proof (cases "find_wait g (priorityWaitList wl)")
  case None
  then have all: "\<forall>w\<in>set (priorityWaitList wl). w_playerGUID w \<noteq> g" by (auto simp: find_wait_None)
  show ?thesis
  proof (cases "find_wait g (waitList wl)")
    case None2: None
    then have "\<forall>w\<in>set (waitList wl). w_playerGUID w \<noteq> g" by (auto simp: find_wait_None)
    then have "wl_ahead g wl = wl_queue wl"
      using all by (auto simp: wl_ahead_def wl_queue_def takeWhile_eq_all_conv)
    then show ?thesis using None None2
      by (simp add: findClient_def wl_queue_def)
  next
    case (Some i)
    then show ?thesis using None all find_wait_Some [OF Some]
      by (simp add: findClient_def wl_ahead_def wl_queue_def takeWhile_append)
  qed
next
  case (Some i)
  then have ex: "\<exists>w\<in>set (priorityWaitList wl). w_playerGUID w = g"
    using find_wait_Some [OF Some] nth_mem by blast
  then have "wl_ahead g wl = takeWhile (\<lambda>w. w_playerGUID w \<noteq> g) (priorityWaitList wl)"
    by (auto simp: wl_ahead_def wl_queue_def takeWhile_append)
  then show ?thesis
    using Some find_wait_Some [OF Some] by (simp add: findClient_def)
qed

lemma findClient_cases:
  obtains (prio) i where "fst (findClient g wl) = Priority_At i" "i < length (priorityWaitList wl)"
      "w_playerGUID (priorityWaitList wl ! i) = g"
  | (wait) i where "fst (findClient g wl) = Wait_At i" "i < length (waitList wl)"
      "w_playerGUID (waitList wl ! i) = g" "g \<notin> w_playerGUID ` set (priorityWaitList wl)"
  | (absent) "fst (findClient g wl) = Wait_End" "g \<notin> w_playerGUID ` set (wl_queue wl)"
proof (cases "find_wait g (priorityWaitList wl)")
  case None
  show ?thesis
  proof (cases "find_wait g (waitList wl)")
    case None2: None
    with None show ?thesis by (intro absent) (auto simp: findClient_def wl_queue_def dest: find_wait_None [THEN iffD1])
  next
    case (Some i)
    with None show ?thesis using find_wait_Some [OF Some] by (intro wait) (auto simp: findClient_def find_wait_None [symmetric])
  qed
next
  case (Some i)
  then show ?thesis using find_wait_Some [OF Some] by (intro prio) (auto simp: findClient_def)
qed

lemma clientLogin_cases:
  assumes "clientLogin now maxP online c wl = Some (r, wl')"
  obtains (pass) "r" "wl' = wl" "privileged c \<or> maxP = 0 \<or> wl_queue wl = [] \<and> online < maxP"
  | (keep_prio) i w where "\<not> r" "i < length (priorityWaitList (wl_live now wl))"
      "w_playerGUID (priorityWaitList (wl_live now wl) ! i) = lc_guid c" "w_playerGUID w = lc_guid c"
      "wl' = (wl_live now wl)\<lparr>priorityWaitList := (priorityWaitList (wl_live now wl))[i := w]\<rparr>"
  | (keep_wait) i w where "\<not> r" "i < length (waitList (wl_live now wl))"
      "w_playerGUID (waitList (wl_live now wl) ! i) = lc_guid c" "w_playerGUID w = lc_guid c"
      "wl' = (wl_live now wl)\<lparr>waitList := (waitList (wl_live now wl))[i := w]\<rparr>"
  | (admit) i where "r" "i < length (waitList (wl_live now wl))"
      "w_playerGUID (waitList (wl_live now wl) ! i) = lc_guid c"
      "online + length (wl_ahead (lc_guid c) (wl_live now wl)) < maxP"
      "wl' = (wl_live now wl)\<lparr>waitList := erase_at i (waitList (wl_live now wl))\<rparr>"
  | (join_prio) w where "\<not> r" "w_playerGUID w = lc_guid c" "lc_guid c \<notin> w_playerGUID ` set (wl_queue (wl_live now wl))"
      "wl' = (wl_live now wl)\<lparr>priorityWaitList := priorityWaitList (wl_live now wl) @ [w]\<rparr>"
  | (join_wait) w where "\<not> r" "w_playerGUID w = lc_guid c" "lc_guid c \<notin> w_playerGUID ` set (wl_queue (wl_live now wl))"
      "wl' = (wl_live now wl)\<lparr>waitList := waitList (wl_live now wl) @ [w]\<rparr>"
proof (cases "privileged c \<or> maxP = 0 \<or> wl_queue wl = [] \<and> online < maxP")
  case True
  then have "clientLogin now maxP online c wl = Some (True, wl)"
    by (auto simp: clientLogin_def privileged_def wl_queue_def)
  then show ?thesis using assms True pass by simp
next
  case False
  let ?L = "wl_live now wl"
  let ?f = "findClient (lc_guid c) ?L"
  have c1: "\<not> (lc_canAlwaysLogin c \<or> lc_accountType c \<ge> ACCOUNT_TYPE_GAMEMASTER)"
    and c2: "\<not> (maxP = 0 \<or> (priorityWaitList wl = [] \<and> waitList wl = [] \<and> online < maxP))"
    using False by (auto simp: privileged_def wl_queue_def)
  have step: "clientLogin now maxP online c wl =
      (case fst ?f of
         Priority_At i \<Rightarrow>
           if online + snd ?f \<le> maxP then None
           else Some (False, ?L\<lparr>priorityWaitList := (priorityWaitList ?L)
             [i := (priorityWaitList ?L ! i)\<lparr>w_timeout := now + int (wl_getTimeout (snd ?f) * 1000)\<rparr>]\<rparr>)
       | Wait_At i \<Rightarrow>
           if online + snd ?f \<le> maxP then Some (True, ?L\<lparr>waitList := erase_at i (waitList ?L)\<rparr>)
           else Some (False, ?L\<lparr>waitList := (waitList ?L)
             [i := (waitList ?L ! i)\<lparr>w_timeout := now + int (wl_getTimeout (snd ?f) * 1000)\<rparr>]\<rparr>)
       | Wait_End \<Rightarrow>
           if lc_premium c then
             Some (False, ?L\<lparr>priorityWaitList := priorityWaitList ?L @
               [\<lparr>w_timeout = now + int (wl_getTimeout (length (priorityWaitList ?L) + 1) * 1000),
                 w_playerGUID = lc_guid c\<rparr>]\<rparr>)
           else
             Some (False, ?L\<lparr>waitList := waitList ?L @
               [\<lparr>w_timeout = now + int (wl_getTimeout (length (priorityWaitList ?L) + length (waitList ?L) + 1) * 1000),
                 w_playerGUID = lc_guid c\<rparr>]\<rparr>))"
    unfolding clientLogin_def if_not_P [OF c1] if_not_P [OF c2] wl_live_def [symmetric] Let_def
    by (simp only: split_beta)
  show ?thesis
  proof (cases rule: findClient_cases [of "lc_guid c" ?L])
    case (prio i)
    then show ?thesis using assms unfolding step
      by (intro keep_prio [of i "(priorityWaitList ?L ! i)\<lparr>w_timeout := now + int (wl_getTimeout (snd ?f) * 1000)\<rparr>"])
        (auto split: if_splits)
  next
    case (wait i)
    show ?thesis
    proof (cases "online + snd ?f \<le> maxP")
      case True
      then show ?thesis using assms wait unfolding step
        by (intro admit [of i]) (auto simp: findClient_slot)
    next
      case False
      then show ?thesis using assms wait unfolding step
        by (intro keep_wait [of i "(waitList ?L ! i)\<lparr>w_timeout := now + int (wl_getTimeout (snd ?f) * 1000)\<rparr>"]) auto
    qed
  next
    case absent
    let ?w = "\<lambda>n. \<lparr>w_timeout = now + int (wl_getTimeout n * 1000), w_playerGUID = lc_guid c\<rparr>"
    show ?thesis
    proof (cases "lc_premium c")
      case True
      then show ?thesis using assms absent unfolding step
        by (intro join_prio [of "?w (length (priorityWaitList ?L) + 1)"]) auto
    next
      case False
      then show ?thesis using assms absent unfolding step
        by (intro join_wait [of "?w (length (priorityWaitList ?L) + length (waitList ?L) + 1)"]) auto
    qed
  qed
qed

lemma subseq_distinct: "subseq xs ys \<Longrightarrow> distinct ys \<Longrightarrow> distinct xs"
  by (auto simp: subseq_conv_nths)

lemma erase_at_subseq: "subseq (erase_at i xs) xs"
proof (induction xs arbitrary: i)
  case Nil
  then show ?case by (simp add: erase_at_def)
next
  case (Cons x xs)
  have "erase_at (Suc j) (x # xs) = x # erase_at j xs" for j
    by (simp add: erase_at_def)
  then show ?case using Cons.IH by (cases i) (auto simp: erase_at_def [of 0])
qed

lemma live_subseq:
  "subseq (map w_playerGUID (priorityWaitList (wl_live now wl))) (map w_playerGUID (priorityWaitList wl))"
  "subseq (map w_playerGUID (waitList (wl_live now wl))) (map w_playerGUID (waitList wl))"
  by (auto simp: wl_live_def cleanupList_filter intro: subseq_map)

lemma live_distinct: "distinct (wl_guids wl) \<Longrightarrow> distinct (wl_guids (wl_live now wl))"
  unfolding wl_guids_def wl_queue_def map_append
  by (rule subseq_distinct [OF list_emb_append_mono [OF live_subseq]])

lemma map_guid_update:
  "i < length ws \<Longrightarrow> w_playerGUID w = w_playerGUID (ws ! i) \<Longrightarrow>
   map w_playerGUID (ws[i := w]) = map w_playerGUID ws"
  by (metis list_update_id map_update)

lemma clientLogin_order:
  assumes "clientLogin now maxP online c wl = Some (r, wl')"
  shows "subseq (map w_playerGUID (priorityWaitList wl')) (map w_playerGUID (priorityWaitList wl) @ [lc_guid c])"
    "subseq (map w_playerGUID (waitList wl')) (map w_playerGUID (waitList wl) @ [lc_guid c])"
  using assms
  by (cases rule: clientLogin_cases;
      auto simp: map_guid_update intro!: list_emb_append_mono subseq_rev_drop_many live_subseq
        intro: subseq_order.trans [OF subseq_map [OF erase_at_subseq] live_subseq(2)])+

lemma erase_at_distinct: "distinct xs \<Longrightarrow> distinct (erase_at i xs)"
  by (rule subseq_distinct [OF erase_at_subseq])

lemma clientLogin_distinct:
  assumes "distinct (wl_guids wl)" "clientLogin now maxP online c wl = Some (r, wl')"
  shows "distinct (wl_guids wl')"
proof -
  note d = live_distinct [OF assms(1), of now, unfolded wl_guids_def wl_queue_def]
  from assms(2) show ?thesis
  proof (cases rule: clientLogin_cases)
    case pass then show ?thesis using assms(1) by simp
  next
    case keep_prio then show ?thesis using d by (simp add: wl_guids_def wl_queue_def map_guid_update)
  next
    case keep_wait then show ?thesis using d by (simp add: wl_guids_def wl_queue_def map_guid_update)
  next
    case (admit i)
    have "subseq (wl_guids wl') (wl_guids (wl_live now wl))"
      unfolding wl_guids_def wl_queue_def admit(5)
      by (simp add: subseq_append' subseq_map erase_at_subseq)
    then show ?thesis using live_distinct [OF assms(1)] subseq_distinct by blast
  next
    case join_prio then show ?thesis using d by (auto simp: wl_guids_def wl_queue_def)
  next
    case join_wait then show ?thesis using d by (auto simp: wl_guids_def wl_queue_def)
  qed
qed

lemma wl_reach_distinct: "wl_reach wl \<Longrightarrow> distinct (wl_guids wl)"
proof (induction rule: wl_reach.induct)
  case wl_start
  then show ?case by (simp add: wl_guids_def wl_queue_def)
next
  case (wl_login wl now maxPlayers online c r wl')
  then show ?case using clientLogin_distinct by blast
qed

lemma wait_in_queue [simp]: "x \<in> set (wl_queue wl) \<longleftrightarrow> x \<in> set (priorityWaitList wl) \<or> x \<in> set (waitList wl)"
  by (simp add: wl_queue_def)

lemma update_keeps: "w \<in> set ws \<Longrightarrow> w \<noteq> ws ! i \<Longrightarrow> w \<in> set (ws[i := v])"
  by (metis in_set_conv_nth length_list_update nth_list_update_neq)

lemma erase_keeps: "w \<in> set ws \<Longrightarrow> w \<noteq> ws ! i \<Longrightarrow> w \<in> set (erase_at i ws)"
proof -
  assume w: "w \<in> set ws" "w \<noteq> ws ! i"
  then obtain k where k: "k < length ws" "ws ! k = w" by (auto simp: in_set_conv_nth)
  then have "k \<noteq> i" using w by auto
  then consider "k < i" | "Suc i \<le> k" by linarith
  then show ?thesis
  proof cases
    case 1
    then have "take i ws ! k = w" "k < length (take i ws)" using k by auto
    then show ?thesis unfolding erase_at_def by (metis UnCI nth_mem set_append)
  next
    case 2
    then have "drop (Suc i) ws ! (k - Suc i) = w" "k - Suc i < length (drop (Suc i) ws)" using k by auto
    then show ?thesis unfolding erase_at_def by (metis UnCI nth_mem set_append)
  qed
qed

lemma live_keeps: "now < w_timeout w \<Longrightarrow> w \<in> set (wl_queue wl) \<Longrightarrow>
    w \<in> set (priorityWaitList (wl_live now wl)) \<or> w \<in> set (waitList (wl_live now wl))"
  by (auto simp: wl_live_def cleanupList_filter)

lemma clientLogin_keeps_others:
  assumes "clientLogin now maxP online c wl = Some (r, wl')" "w \<in> set (wl_queue wl)"
    "now < w_timeout w" "w_playerGUID w \<noteq> lc_guid c"
  shows "w \<in> set (wl_queue wl')"
  using assms(1)
  by (cases rule: clientLogin_cases)
    (use assms live_keeps [OF assms(3,2)] in \<open>auto intro!: update_keeps erase_keeps\<close>)

lemma clientLogin_refused_waits:
  assumes "clientLogin now maxP online c wl = Some (r, wl')" "\<not> r"
  shows "lc_guid c \<in> w_playerGUID ` set (wl_queue wl')"
  using assms(1)
proof (cases rule: clientLogin_cases)
  case (keep_prio i w)
  then show ?thesis by (intro image_eqI [of _ _ w]) (simp_all add: set_update_memI)
next
  case (keep_wait i w)
  then show ?thesis by (intro image_eqI [of _ _ w]) (simp_all add: set_update_memI)
next
  case (join_prio w)
  then show ?thesis by (intro image_eqI [of _ _ w]) simp_all
next
  case (join_wait w)
  then show ?thesis by (intro image_eqI [of _ _ w]) simp_all
qed (use assms(2) in auto)

text \<open>A premium player whose turn has come cannot be let in: when there is room, clientLogin erases the player's entry of the priority
  list from the other list, which has no defined behaviour.\<close>

definition turn_in_priority :: "int \<Rightarrow> nat \<Rightarrow> nat \<Rightarrow> login_client \<Rightarrow> WaitingList \<Rightarrow> bool" where
  "turn_in_priority now maxP online c wl \<longleftrightarrow>
     \<not> privileged c \<and> maxP \<noteq> 0 \<and> (\<exists>w\<in>set (priorityWaitList wl). now < w_timeout w \<and> w_playerGUID w = lc_guid c)
     \<and> online + length (wl_ahead (lc_guid c) (wl_live now wl)) < maxP"

lemma waitlist_priority_undefined:
  assumes "\<not> privileged c" "maxP \<noteq> 0" "w \<in> set (priorityWaitList wl)" "now < w_timeout w"
    "w_playerGUID w = lc_guid c" "online + length (wl_ahead (lc_guid c) (wl_live now wl)) < maxP"
  shows "clientLogin now maxP online c wl = None"
proof -
  let ?L = "wl_live now wl"
  have "find_wait (lc_guid c) (priorityWaitList ?L) \<noteq> None"
    using assms(3-5) by (auto simp: find_wait_None wl_live_def cleanupList_filter image_iff)
  then obtain i where i: "fst (findClient (lc_guid c) ?L) = Priority_At i"
    by (auto simp: findClient_def)
  have s: "online + snd (findClient (lc_guid c) ?L) \<le> maxP"
    using assms(6) by (simp add: findClient_slot)
  have c1: "\<not> (lc_canAlwaysLogin c \<or> lc_accountType c \<ge> ACCOUNT_TYPE_GAMEMASTER)"
    and c2: "\<not> (maxP = 0 \<or> (priorityWaitList wl = [] \<and> waitList wl = [] \<and> online < maxP))"
    using assms(1-3) by (auto simp: privileged_def)
  show ?thesis
    unfolding clientLogin_def if_not_P [OF c1] if_not_P [OF c2] wl_live_def [symmetric] Let_def
    using i s by (simp add: split_beta)
qed

lemma clientLogin_undefined:
  assumes "clientLogin now maxP online c wl = None"
  shows "turn_in_priority now maxP online c wl"
proof -
  let ?L = "wl_live now wl"
  let ?f = "findClient (lc_guid c) ?L"
  have c1: "\<not> (lc_canAlwaysLogin c \<or> lc_accountType c \<ge> ACCOUNT_TYPE_GAMEMASTER)"
    using assms unfolding clientLogin_def by (rule contrapos_pn) (simp only: if_P, simp)
  have c2: "\<not> (maxP = 0 \<or> (priorityWaitList wl = [] \<and> waitList wl = [] \<and> online < maxP))"
    using assms unfolding clientLogin_def if_not_P [OF c1] by (rule contrapos_pn) (simp only: if_P, simp)
  obtain i where i: "fst ?f = Priority_At i" and room: "online + snd ?f \<le> maxP"
    using assms unfolding clientLogin_def if_not_P [OF c1] if_not_P [OF c2] wl_live_def [symmetric] Let_def
    by (auto simp: split_beta split: wl_iter.splits if_splits)
  from i have at: "i < length (priorityWaitList ?L)" "w_playerGUID (priorityWaitList ?L ! i) = lc_guid c"
    by (cases rule: findClient_cases [of "lc_guid c" ?L]; simp)+
  then have "priorityWaitList ?L ! i \<in> set (priorityWaitList ?L)" by simp
  then show ?thesis
    unfolding turn_in_priority_def using c1 c2 room at(2)
    by (auto simp: privileged_def findClient_slot wl_live_def cleanupList_filter)
qed

text \<open>C8: The waiting list is fair. In every state it can reach, clientLogin has no defined outcome exactly if the client waits in the priority
  list, has not timed out, and its turn has come. Otherwise no client waits twice afterwards; a client let in either may always log in, or the
  server has no limit, or there is room for the client and for everyone still waiting ahead of it; a client not let in is waiting afterwards;
  every other client that has not timed out keeps waiting; and neither list is ever reordered, newcomers go to its end.\<close>

theorem waitlist_fair:
  assumes "wl_reach wl"
  shows "(clientLogin now maxP online c wl = None \<longleftrightarrow> turn_in_priority now maxP online c wl)
    \<and> (\<forall>r wl'. clientLogin now maxP online c wl = Some (r, wl') \<longrightarrow>
         distinct (wl_guids wl')
       \<and> (r \<longrightarrow> privileged c \<or> maxP = 0 \<or> online + length (wl_ahead (lc_guid c) (wl_live now wl)) < maxP)
       \<and> (\<not> r \<longrightarrow> lc_guid c \<in> w_playerGUID ` set (wl_queue wl'))
       \<and> (\<forall>w\<in>set (wl_queue wl). now < w_timeout w \<longrightarrow> w_playerGUID w \<noteq> lc_guid c \<longrightarrow> w \<in> set (wl_queue wl'))
       \<and> subseq (map w_playerGUID (priorityWaitList wl')) (map w_playerGUID (priorityWaitList wl) @ [lc_guid c])
       \<and> subseq (map w_playerGUID (waitList wl')) (map w_playerGUID (waitList wl) @ [lc_guid c]))"
proof (intro conjI allI impI)
  show "clientLogin now maxP online c wl = None \<longleftrightarrow> turn_in_priority now maxP online c wl"
  proof
    assume "turn_in_priority now maxP online c wl"
    then show "clientLogin now maxP online c wl = None"
      unfolding turn_in_priority_def by (elim conjE bexE) (rule waitlist_priority_undefined)
  qed (rule clientLogin_undefined)
  fix r wl'
  assume step: "clientLogin now maxP online c wl = Some (r, wl')"
  show "distinct (wl_guids wl')"
    using clientLogin_distinct [OF wl_reach_distinct [OF assms] step] .
  have empty: "wl_queue wl = [] \<Longrightarrow> length (wl_ahead (lc_guid c) (wl_live now wl)) = 0"
    by (simp add: wl_ahead_def wl_queue_def wl_live_def)
  show "privileged c \<or> maxP = 0 \<or> online + length (wl_ahead (lc_guid c) (wl_live now wl)) < maxP" if r
    using step
  proof (cases rule: clientLogin_cases)
    case pass
    then show ?thesis using empty by fastforce
  qed (use that in simp_all)
  show "lc_guid c \<in> w_playerGUID ` set (wl_queue wl')" if "\<not> r"
    using clientLogin_refused_waits [OF step that] .
  show "\<forall>w\<in>set (wl_queue wl). now < w_timeout w \<longrightarrow> w_playerGUID w \<noteq> lc_guid c \<longrightarrow> w \<in> set (wl_queue wl')"
    using clientLogin_keeps_others [OF step] by blast
  show "subseq (map w_playerGUID (priorityWaitList wl')) (map w_playerGUID (priorityWaitList wl) @ [lc_guid c])"
    "subseq (map w_playerGUID (waitList wl')) (map w_playerGUID (waitList wl) @ [lc_guid c])"
    using clientLogin_order [OF step] by blast+
qed

definition demo_guest :: login_client where
  "demo_guest = \<lparr>lc_guid = 8, lc_canAlwaysLogin = False, lc_accountType = 1, lc_premium = False\<rparr>"

definition demo_premium :: login_client where
  "demo_premium = \<lparr>lc_guid = 9, lc_canAlwaysLogin = False, lc_accountType = 1, lc_premium = True\<rparr>"

definition demo_wl :: WaitingList where
  "demo_wl = \<lparr>priorityWaitList = [\<lparr>w_timeout = 20000, w_playerGUID = 9\<rparr>], waitList = []\<rparr>"

lemma demo_wl_reach: "wl_reach demo_wl"
proof (rule wl_login [OF wl_start])
  show "clientLogin 0 1 1 demo_premium \<lparr>priorityWaitList = [], waitList = []\<rparr> = Some (False, demo_wl)"
    by (simp add: clientLogin_def demo_premium_def demo_wl_def findClient_def ACCOUNT_TYPE_GAMEMASTER_def
        wl_getTimeout_def wl_getTime_def)
qed

theorem waitlist_fair_witness:
  "clientLogin 1000 1 1 demo_guest demo_wl =
     Some (False, \<lparr>priorityWaitList = priorityWaitList demo_wl,
       waitList = [\<lparr>w_timeout = 21000, w_playerGUID = 8\<rparr>]\<rparr>)
   \<and> distinct (wl_guids \<lparr>priorityWaitList = priorityWaitList demo_wl,
       waitList = [\<lparr>w_timeout = 21000, w_playerGUID = 8\<rparr>]\<rparr>)"
proof -
  have step: "clientLogin 1000 1 1 demo_guest demo_wl =
     Some (False, \<lparr>priorityWaitList = priorityWaitList demo_wl,
       waitList = [\<lparr>w_timeout = 21000, w_playerGUID = 8\<rparr>]\<rparr>)"
    by (simp add: clientLogin_def demo_guest_def demo_wl_def findClient_def ACCOUNT_TYPE_GAMEMASTER_def
        wl_getTimeout_def wl_getTime_def)
  have "distinct (wl_guids \<lparr>priorityWaitList = priorityWaitList demo_wl, waitList = [\<lparr>w_timeout = 21000, w_playerGUID = 8\<rparr>]\<rparr>)"
    using waitlist_fair [OF demo_wl_reach, of 1000 1 1 demo_guest, THEN conjunct2, THEN spec, THEN spec, THEN mp, OF step] by blast
  with step show ?thesis by blast
qed

text \<open>The case exists: the premium player of the demonstration, once there is room.\<close>

lemma waitlist_priority_undefined_witness:
  "wl_reach demo_wl \<and> clientLogin 1000 1 0 demo_premium demo_wl = None"
proof
  show "clientLogin 1000 1 0 demo_premium demo_wl = None"
    by (rule waitlist_priority_undefined [where w = "\<lparr>w_timeout = 20000, w_playerGUID = 9\<rparr>"])
      (simp_all add: demo_premium_def demo_wl_def privileged_def ACCOUNT_TYPE_GAMEMASTER_def wl_ahead_def
        wl_queue_def wl_live_def)
qed (rule demo_wl_reach)

end
