(* ===== verification/Scheduler_Model.thy ===== *)
theory Scheduler_Model
  imports Prelude "HOL-Library.Multiset"
begin

section \<open>Scheduler and dispatcher threads\<close>

text \<open>
  \<open>scheduler.cpp\<close>, \<open>scheduler.h\<close>, \<open>tasks.cpp\<close>, \<open>tasks.h\<close>, \<open>thread_holder_base.h\<close>. Two threads
  and their callers share tasks by pointer, so the model has a heap of task objects (an address
  that is not allocated has been deleted, and may be allocated again). Each region that holds a
  mutex is one atomic step; what the code does after unlocking is a step of its own. A thread that
  waits on the condition variable may be notified, may wake spuriously, or may time out; waking
  and getting the mutex back are different steps.

  \<open>std::priority_queue\<close> does not say which of several tasks with the same cycle is on top, so a step
  that takes the top is told which one it takes. The components \<open>sy_fired\<close>, \<open>sy_stopped\<close>,
  \<open>sy_added\<close>, \<open>sy_posted\<close> and \<open>sy_taken\<close> record what happened and are never read by an operation. Reading a
  deleted task and taking the top of an empty queue are the values of \<open>sy_fault\<close>.
\<close>

subsection \<open>State\<close>

datatype ThreadState = THREAD_STATE_RUNNING | THREAD_STATE_CLOSING | THREAD_STATE_TERMINATED

text \<open>\<open>tk_func\<close> stands for the closure; \<open>None\<close> is the one \<open>Dispatcher::shutdown\<close> queues. The
  expiration \<open>0\<close> is \<open>SYSTEM_TIME_ZERO\<close>.\<close>

record Task =
  tk_expiration :: int
  tk_func :: "nat option"
  tk_eventId :: nat

datatype sched_pc =
    Sched_Loop
  | Sched_Lock
  | Sched_Wait
  | Sched_Wait_Until int
  | Sched_Woken "int option"
  | Sched_Dispatch nat
  | Sched_Exit

datatype disp_pc = Disp_Loop | Disp_Lock | Disp_Run nat | Disp_Exit

datatype sched_fault = Top_Of_Empty_Queue | Use_After_Free nat

record Sys =
  sy_now :: int
  sy_heap :: "nat \<rightharpoonup> Task"
  sy_sched_state :: ThreadState
  eventList :: "nat list"
  eventIds :: "nat set"
  lastEventId :: nat
  sy_sched_pc :: sched_pc
  sy_adding :: "(nat \<times> bool) list"
  sy_shutdown_phase :: nat
  sy_disp_state :: ThreadState
  taskList :: "nat list"
  dispatcherCycle :: nat
  sy_disp_pc :: disp_pc
  sy_fault :: "sched_fault option"
  sy_fired :: "(nat \<times> int \<times> int) list"
  sy_stopped :: "nat list"
  sy_added :: nat
  sy_posted :: "nat option list"
  sy_taken :: "(bool \<times> nat option) list"

definition sys_start :: "int \<Rightarrow> Sys" where
  "sys_start t = \<lparr>sy_now = t, sy_heap = Map.empty, sy_sched_state = THREAD_STATE_RUNNING, eventList = [],
     eventIds = {}, lastEventId = 0, sy_sched_pc = Sched_Loop, sy_adding = [], sy_shutdown_phase = 0,
     sy_disp_state = THREAD_STATE_RUNNING, taskList = [], dispatcherCycle = 0, sy_disp_pc = Disp_Loop,
     sy_fault = None, sy_fired = [], sy_stopped = [], sy_added = 0, sy_posted = [], sy_taken = []\<rparr>"

subsection \<open>Tasks\<close>

definition new_task :: "int \<Rightarrow> nat \<Rightarrow> Task" where
  "new_task expiration f = \<lparr>tk_expiration = expiration, tk_func = Some f, tk_eventId = 0\<rparr>"

definition hasExpired :: "int \<Rightarrow> Task \<Rightarrow> bool" where
  "hasExpired now t = (if tk_expiration t = 0 then False else tk_expiration t < now)"

definition setDontExpire :: "Task \<Rightarrow> Task" where
  "setDontExpire t = t\<lparr>tk_expiration := 0\<rparr>"

definition getCycle :: "Sys \<Rightarrow> nat \<Rightarrow> int" where
  "getCycle s p = (case sy_heap s p of Some t \<Rightarrow> tk_expiration t | None \<Rightarrow> 0)"

definition getEventId :: "Sys \<Rightarrow> nat \<Rightarrow> nat" where
  "getEventId s p = (case sy_heap s p of Some t \<Rightarrow> tk_eventId t | None \<Rightarrow> 0)"

definition is_top :: "Sys \<Rightarrow> nat \<Rightarrow> bool" where
  "is_top s p \<longleftrightarrow> p \<in> set (eventList s) \<and> (\<forall>q\<in>set (eventList s). getCycle s p \<le> getCycle s q)"

definition delete_task :: "nat \<Rightarrow> Sys \<Rightarrow> Sys" where
  "delete_task p s = s\<lparr>sy_heap := (sy_heap s)(p := None)\<rparr>"

text \<open>\<open>eventSignal.notify_one\<close>: wakes the scheduler thread if it is waiting.\<close>

definition notify_sched :: "Sys \<Rightarrow> Sys" where
  "notify_sched s =
     (case sy_sched_pc s of
        Sched_Wait \<Rightarrow> s\<lparr>sy_sched_pc := Sched_Woken None\<rparr>
      | Sched_Wait_Until d \<Rightarrow> s\<lparr>sy_sched_pc := Sched_Woken None\<rparr>
      | _ \<Rightarrow> s)"

subsection \<open>Scheduler\<close>

text \<open>\<open>addEvent\<close> up to the unlock, for a task just created at address \<open>p\<close>; then its notification
  and its return, which reads the task again.\<close>

definition next_event_id :: "nat \<Rightarrow> nat" where
  "next_event_id n = (let n' = (n + 1) mod 2 ^ 32 in if n' = 0 then 1 else n')"

definition addEvent :: "nat \<Rightarrow> nat \<Rightarrow> nat \<Rightarrow> Sys \<Rightarrow> Sys" where
  "addEvent p delay f s =
     (let task = new_task (sy_now s + int delay) f
      in if sy_sched_state s = THREAD_STATE_RUNNING then
           let eid = next_event_id (lastEventId s);
               s = s\<lparr>lastEventId := eid, sy_heap := (sy_heap s)(p \<mapsto> task\<lparr>tk_eventId := eid\<rparr>),
                     eventIds := insert eid (eventIds s), eventList := p # eventList s\<rparr>
           in s\<lparr>sy_adding := (p, is_top s p) # sy_adding s, sy_added := sy_added s + 1\<rparr>
         else s)"

definition addEvent_notify :: "nat \<Rightarrow> Sys \<Rightarrow> Sys" where
  "addEvent_notify i s = notify_sched (s\<lparr>sy_adding := (sy_adding s)[i := (fst (sy_adding s ! i), False)]\<rparr>)"

definition addEvent_return :: "nat \<Rightarrow> Sys \<Rightarrow> nat \<times> Sys" where
  "addEvent_return i s =
     (let p = fst (sy_adding s ! i);
          s' = s\<lparr>sy_adding := take i (sy_adding s) @ drop (Suc i) (sy_adding s)\<rparr>
      in case sy_heap s p of
           Some t \<Rightarrow> (tk_eventId t, s')
         | None \<Rightarrow> (0, s'\<lparr>sy_fault := Some (Use_After_Free p)\<rparr>))"

definition stopEvent :: "nat \<Rightarrow> Sys \<Rightarrow> bool \<times> Sys" where
  "stopEvent eventid s =
     (if eventid = 0 then (False, s)
      else if eventid \<notin> eventIds s then (False, s)
      else (True, s\<lparr>eventIds := eventIds s - {eventid}, sy_stopped := eventid # sy_stopped s\<rparr>))"

text \<open>The three parts of \<open>shutdown\<close>: the state is set before the mutex is taken and the signal is
  sent after it is released.\<close>

definition shutdown_state :: "Sys \<Rightarrow> Sys" where
  "shutdown_state s = s\<lparr>sy_sched_state := THREAD_STATE_TERMINATED, sy_shutdown_phase := 1\<rparr>"

definition shutdown_clear :: "Sys \<Rightarrow> Sys" where
  "shutdown_clear s = s\<lparr>sy_heap := (\<lambda>p. if p \<in> set (eventList s) then None else sy_heap s p),
     eventList := [], eventIds := {}, sy_shutdown_phase := 2\<rparr>"

definition shutdown_notify :: "Sys \<Rightarrow> Sys" where
  "shutdown_notify s = notify_sched (s\<lparr>sy_shutdown_phase := 3\<rparr>)"

text \<open>The loop of \<open>Scheduler::threadMain\<close>.\<close>

definition sched_check :: "Sys \<Rightarrow> Sys" where
  "sched_check s = s\<lparr>sy_sched_pc := (if sy_sched_state s \<noteq> THREAD_STATE_TERMINATED then Sched_Lock else Sched_Exit)\<rparr>"

definition sched_wait :: "nat \<Rightarrow> Sys \<Rightarrow> Sys" where
  "sched_wait tp s =
     (if eventList s = [] then s\<lparr>sy_sched_pc := Sched_Wait\<rparr>
      else s\<lparr>sy_sched_pc := Sched_Wait_Until (getCycle s tp)\<rparr>)"

definition sched_locked :: "int option \<Rightarrow> nat \<Rightarrow> Sys \<Rightarrow> Sys" where
  "sched_locked timeout tp s =
     (case timeout of
        None \<Rightarrow> s\<lparr>sy_sched_pc := Sched_Loop\<rparr>
      | Some d \<Rightarrow>
          if eventList s = [] then s\<lparr>sy_fault := Some Top_Of_Empty_Queue\<rparr>
          else
            let s = s\<lparr>eventList := remove1 tp (eventList s)\<rparr>
            in if getEventId s tp \<notin> eventIds s then (delete_task tp s)\<lparr>sy_sched_pc := Sched_Loop\<rparr>
               else s\<lparr>eventIds := eventIds s - {getEventId s tp}, sy_sched_pc := Sched_Dispatch tp,
                      sy_fired := (getEventId s tp, getCycle s tp, sy_now s) # sy_fired s\<rparr>)"

subsection \<open>Dispatcher\<close>

definition addTask :: "nat \<Rightarrow> bool \<Rightarrow> Sys \<Rightarrow> Sys" where
  "addTask p push_front s =
     (if sy_disp_state s = THREAD_STATE_RUNNING then
        if push_front then s\<lparr>taskList := p # taskList s\<rparr>
        else s\<lparr>taskList := taskList s @ [p], sy_posted := sy_posted s @ [Option.bind (sy_heap s p) tk_func]\<rparr>
      else delete_task p s)"

text \<open>\<open>threadMain\<close> of the scheduler hands a task over: \<open>setDontExpire\<close>, then \<open>addTask\<close> at the front.\<close>

definition sched_dispatch :: "nat \<Rightarrow> Sys \<Rightarrow> Sys" where
  "sched_dispatch p s =
     (case sy_heap s p of
        None \<Rightarrow> s\<lparr>sy_fault := Some (Use_After_Free p)\<rparr>
      | Some t \<Rightarrow> (addTask p True (s\<lparr>sy_heap := (sy_heap s)(p \<mapsto> setDontExpire t)\<rparr>))\<lparr>sy_sched_pc := Sched_Loop\<rparr>)"

text \<open>Any thread queues a new task; \<open>Dispatcher::shutdown\<close> queues its own whatever the state.\<close>

definition post_task :: "nat \<Rightarrow> int \<Rightarrow> nat \<Rightarrow> Sys \<Rightarrow> Sys" where
  "post_task p expiration f s = addTask p False (s\<lparr>sy_heap := (sy_heap s)(p \<mapsto> new_task expiration f)\<rparr>)"

definition disp_shutdown :: "nat \<Rightarrow> Sys \<Rightarrow> Sys" where
  "disp_shutdown p s = s\<lparr>sy_heap := (sy_heap s)(p \<mapsto> \<lparr>tk_expiration = 0, tk_func = None, tk_eventId = 0\<rparr>),
     taskList := taskList s @ [p], sy_posted := sy_posted s @ [None]\<rparr>"

definition disp_check :: "Sys \<Rightarrow> Sys" where
  "disp_check s = s\<lparr>sy_disp_pc := (if sy_disp_state s \<noteq> THREAD_STATE_TERMINATED then Disp_Lock else Disp_Exit)\<rparr>"

text \<open>With the mutex, after any wait: the front task is taken, or the loop goes round.\<close>

definition disp_take :: "Sys \<Rightarrow> Sys" where
  "disp_take s =
     (case taskList s of
        [] \<Rightarrow> s\<lparr>sy_disp_pc := Disp_Loop\<rparr>
      | p # ps \<Rightarrow> s\<lparr>taskList := ps, sy_disp_pc := Disp_Run p\<rparr>)"

definition disp_run :: "nat \<Rightarrow> Sys \<Rightarrow> Sys" where
  "disp_run p s =
     (case sy_heap s p of
        None \<Rightarrow> s\<lparr>sy_fault := Some (Use_After_Free p)\<rparr>
      | Some t \<Rightarrow>
          let s = s\<lparr>sy_taken := sy_taken s @ [(tk_eventId t \<noteq> 0, tk_func t)]\<rparr>;
              s = (if hasExpired (sy_now s) t then s
                   else let s = s\<lparr>dispatcherCycle := dispatcherCycle s + 1\<rparr>
                        in if tk_func t = None then s\<lparr>sy_disp_state := THREAD_STATE_TERMINATED\<rparr> else s)
          in (delete_task p s)\<lparr>sy_disp_pc := Disp_Loop\<rparr>)"

subsection \<open>Interleavings\<close>

inductive sys_step :: "Sys \<Rightarrow> Sys \<Rightarrow> bool" where
  st_tick: "t \<ge> sy_now s \<Longrightarrow> sys_step s (s\<lparr>sy_now := t\<rparr>)"
| st_add: "sy_heap s p = None \<Longrightarrow> sys_step s (addEvent p delay f s)"
| st_notify: "i < length (sy_adding s) \<Longrightarrow> snd (sy_adding s ! i) \<Longrightarrow> sys_step s (addEvent_notify i s)"
| st_return: "i < length (sy_adding s) \<Longrightarrow> \<not> snd (sy_adding s ! i) \<Longrightarrow> sys_step s (snd (addEvent_return i s))"
| st_stop: "sys_step s (snd (stopEvent eid s))"
| st_close: "sy_sched_state s = THREAD_STATE_RUNNING \<Longrightarrow> sys_step s (s\<lparr>sy_sched_state := THREAD_STATE_CLOSING\<rparr>)"
| st_shutdown1: "sy_shutdown_phase s = 0 \<Longrightarrow> sys_step s (shutdown_state s)"
| st_shutdown2: "sy_shutdown_phase s = 1 \<Longrightarrow> sys_step s (shutdown_clear s)"
| st_shutdown3: "sy_shutdown_phase s = 2 \<Longrightarrow> sys_step s (shutdown_notify s)"
| st_check: "sy_sched_pc s = Sched_Loop \<Longrightarrow> sys_step s (sched_check s)"
| st_wait: "sy_sched_pc s = Sched_Lock \<Longrightarrow> eventList s = [] \<or> is_top s tp \<Longrightarrow> sys_step s (sched_wait tp s)"
| st_spurious: "sy_sched_pc s = Sched_Wait \<or> sy_sched_pc s = Sched_Wait_Until d \<Longrightarrow>
    sys_step s (s\<lparr>sy_sched_pc := Sched_Woken None\<rparr>)"
| st_timeout: "sy_sched_pc s = Sched_Wait_Until d \<Longrightarrow> d \<le> sy_now s \<Longrightarrow>
    sys_step s (s\<lparr>sy_sched_pc := Sched_Woken (Some d)\<rparr>)"
| st_locked: "sy_sched_pc s = Sched_Woken timeout \<Longrightarrow> eventList s = [] \<or> is_top s tp \<Longrightarrow>
    sys_step s (sched_locked timeout tp s)"
| st_dispatch: "sy_sched_pc s = Sched_Dispatch p \<Longrightarrow> sys_step s (sched_dispatch p s)"
| st_post: "sy_heap s p = None \<Longrightarrow> sys_step s (post_task p expiration f s)"
| st_disp_close: "sy_disp_state s = THREAD_STATE_RUNNING \<Longrightarrow> sys_step s (s\<lparr>sy_disp_state := THREAD_STATE_CLOSING\<rparr>)"
| st_disp_shutdown: "sy_heap s p = None \<Longrightarrow> sys_step s (disp_shutdown p s)"
| st_disp_check: "sy_disp_pc s = Disp_Loop \<Longrightarrow> sys_step s (disp_check s)"
| st_disp_take: "sy_disp_pc s = Disp_Lock \<Longrightarrow> sys_step s (disp_take s)"
| st_disp_run: "sy_disp_pc s = Disp_Run p \<Longrightarrow> sys_step s (disp_run p s)"

inductive sys_reach :: "Sys \<Rightarrow> bool" where
  sys_init: "sys_reach (sys_start t)"
| sys_next: "sys_reach s \<Longrightarrow> sy_fault s = None \<Longrightarrow> sys_step s s' \<Longrightarrow> sys_reach s'"

subsection \<open>Ownership of tasks\<close>

text \<open>The tasks each thread holds: queued with the scheduler, in its hands, queued with the
  dispatcher, being run.\<close>

definition sched_hand :: "Sys \<Rightarrow> nat list" where
  "sched_hand s = (case sy_sched_pc s of Sched_Dispatch p \<Rightarrow> [p] | _ \<Rightarrow> [])"

definition disp_hand :: "Sys \<Rightarrow> nat list" where
  "disp_hand s = (case sy_disp_pc s of Disp_Run p \<Rightarrow> [p] | _ \<Rightarrow> [])"

definition owned :: "Sys \<Rightarrow> nat list" where
  "owned s = eventList s @ sched_hand s @ disp_hand s @ taskList s"

definition own_ok :: "(nat \<rightharpoonup> 'a) \<Rightarrow> nat list \<Rightarrow> bool" where
  "own_ok h ps \<longleftrightarrow> distinct ps \<and> dom h = set ps"

definition own_inv :: "Sys \<Rightarrow> bool" where
  "own_inv s \<longleftrightarrow> own_ok (sy_heap s) (owned s)"

lemma own_ok_perm: "own_ok h ps \<Longrightarrow> mset ps = mset qs \<Longrightarrow> own_ok h qs"
  unfolding own_ok_def by (metis mset_eq_imp_distinct_iff mset_eq_setD)

lemma own_ok_new: "own_ok h ps \<Longrightarrow> h p = None \<Longrightarrow> own_ok (h(p \<mapsto> t)) (p # ps)"
  by (auto simp: own_ok_def)

lemma own_ok_upd: "own_ok h ps \<Longrightarrow> p \<in> set ps \<Longrightarrow> own_ok (h(p \<mapsto> t)) ps"
  by (auto simp: own_ok_def)

lemma own_ok_del: "own_ok h (p # ps) \<Longrightarrow> own_ok (h(p := None)) ps"
  by (auto simp: own_ok_def)

lemma own_ok_clear: "own_ok h (ps @ qs) \<Longrightarrow> own_ok (\<lambda>p. if p \<in> set ps then None else h p) qs"
  by (auto simp: own_ok_def dom_def)

lemma own_inv_same: "own_inv s \<Longrightarrow> sy_heap s' = sy_heap s \<Longrightarrow> mset (owned s') = mset (owned s) \<Longrightarrow> own_inv s'"
  unfolding own_inv_def by (metis own_ok_perm)

lemma own_allocated: "own_inv s \<Longrightarrow> p \<in> set (owned s) \<Longrightarrow> \<exists>t. sy_heap s p = Some t"
  unfolding own_inv_def own_ok_def by blast

lemmas own_defs = owned_def sched_hand_def disp_hand_def

text \<open>Operations that move no task.\<close>

lemma own_frame:
  "own_inv s \<Longrightarrow> own_inv (s\<lparr>sy_now := t\<rparr>)"
  "own_inv s \<Longrightarrow> own_inv (s\<lparr>sy_sched_state := x\<rparr>)"
  "own_inv s \<Longrightarrow> own_inv (s\<lparr>sy_disp_state := x\<rparr>)"
  "own_inv s \<Longrightarrow> own_inv (snd (stopEvent eid s))"
  "own_inv s \<Longrightarrow> own_inv (shutdown_state s)"
  "own_inv s \<Longrightarrow> own_inv (snd (addEvent_return i s))"
  by (erule own_inv_same;
      simp add: own_defs stopEvent_def shutdown_state_def addEvent_return_def Let_def split: option.split)+

lemma own_sched_pc:
  "own_inv s \<Longrightarrow> (\<forall>p. sy_sched_pc s \<noteq> Sched_Dispatch p) \<Longrightarrow> (\<forall>p. pc \<noteq> Sched_Dispatch p) \<Longrightarrow>
   own_inv (s\<lparr>sy_sched_pc := pc\<rparr>)"
  by (erule own_inv_same; simp add: own_defs split: sched_pc.splits)

lemma own_disp_pc:
  "own_inv s \<Longrightarrow> (\<forall>p. sy_disp_pc s \<noteq> Disp_Run p) \<Longrightarrow> (\<forall>p. pc \<noteq> Disp_Run p) \<Longrightarrow>
   own_inv (s\<lparr>sy_disp_pc := pc\<rparr>)"
  by (erule own_inv_same; simp add: own_defs split: disp_pc.splits)

lemma own_notify: "own_inv s \<Longrightarrow> own_inv (notify_sched s)"
  unfolding notify_sched_def by (cases "sy_sched_pc s") (simp_all add: own_sched_pc)

lemma own_addEvent:
  assumes "own_inv s" "sy_heap s p = None"
  shows "own_inv (addEvent p delay f s)"
  using own_ok_new [OF assms(1) [unfolded own_inv_def] assms(2)] assms(1)
  by (simp add: own_inv_def own_defs addEvent_def Let_def)

lemma own_clear:
  assumes "own_inv s"
  shows "own_inv (shutdown_clear s)"
  using own_ok_clear [OF assms [unfolded own_inv_def owned_def]]
  by (simp add: own_inv_def own_defs shutdown_clear_def)

lemma own_locked:
  assumes "own_inv s" "sy_sched_pc s = Sched_Woken timeout" "eventList s = [] \<or> is_top s tp"
  shows "own_inv (sched_locked timeout tp s)"
proof (cases "timeout = None \<or> eventList s = []")
  case True
  then show ?thesis
    using assms(1,2) by (auto simp: sched_locked_def own_sched_pc split: option.split elim: own_inv_same simp: own_defs)
next
  case False
  then obtain d where d: "timeout = Some d" by auto
  have tp: "tp \<in> set (eventList s)" using assms(3) False by (auto simp: is_top_def)
  let ?rest = "remove1 tp (eventList s) @ disp_hand s @ taskList s"
  have "mset (owned s) = mset (tp # ?rest)"
    using tp assms(2) by (simp add: owned_def sched_hand_def)
  then have ok: "own_ok (sy_heap s) (tp # ?rest)"
    using assms(1) own_ok_perm unfolding own_inv_def by blast
  then have ok': "own_ok (sy_heap s) (remove1 tp (eventList s) @ tp # disp_hand s @ taskList s)"
    by (rule own_ok_perm) simp
  show ?thesis
    using own_ok_del [OF ok] ok' False
    by (simp add: sched_locked_def d Let_def delete_task_def own_inv_def own_defs)
qed

lemma own_dispatch:
  assumes "own_inv s" "sy_sched_pc s = Sched_Dispatch p"
  shows "own_inv (sched_dispatch p s)" "sy_fault (sched_dispatch p s) = sy_fault s"
proof -
  have mem: "p \<in> set (owned s)" using assms(2) by (simp add: own_defs)
  then obtain t where t: "sy_heap s p = Some t" using own_allocated assms(1) by blast
  let ?rest = "eventList s @ disp_hand s @ taskList s"
  have ok: "own_ok ((sy_heap s)(p \<mapsto> setDontExpire t)) (p # ?rest)"
    by (rule own_ok_perm [OF own_ok_upd [OF assms(1) [unfolded own_inv_def] mem]])
      (simp add: owned_def sched_hand_def assms(2))
  then have ok': "own_ok ((sy_heap s)(p \<mapsto> setDontExpire t)) (eventList s @ disp_hand s @ p # taskList s)"
    by (rule own_ok_perm) simp
  show "own_inv (sched_dispatch p s)"
    using own_ok_del [OF ok] ok'
    by (simp add: sched_dispatch_def t addTask_def delete_task_def own_inv_def own_defs)
  show "sy_fault (sched_dispatch p s) = sy_fault s"
    by (simp add: sched_dispatch_def t addTask_def delete_task_def)
qed

lemma own_post:
  assumes "own_inv s" "sy_heap s p = None"
  shows "own_inv (post_task p e f s)" "own_inv (disp_shutdown p s)"
proof -
  have ok: "own_ok ((sy_heap s)(p \<mapsto> t)) (p # owned s)" for t
    by (rule own_ok_new [OF assms(1) [unfolded own_inv_def] assms(2)])
  have perm: "mset (p # owned s) = mset (eventList s @ sched_hand s @ disp_hand s @ taskList s @ [p])"
    by (simp add: owned_def)
  note ok' = own_ok_perm [OF ok perm]
  show "own_inv (post_task p e f s)"
    using ok' own_ok_del [OF ok]
    by (simp add: post_task_def addTask_def delete_task_def own_inv_def own_defs)
  show "own_inv (disp_shutdown p s)"
    using ok' by (simp add: disp_shutdown_def own_inv_def own_defs)
qed

lemma own_take:
  assumes "own_inv s" "sy_disp_pc s = Disp_Lock"
  shows "own_inv (disp_take s)"
  by (rule own_inv_same [OF assms(1)])
    (use assms(2) in \<open>simp_all add: disp_take_def own_defs split: list.split\<close>)

lemma own_run:
  assumes "own_inv s" "sy_disp_pc s = Disp_Run p"
  shows "own_inv (disp_run p s)" "sy_fault (disp_run p s) = sy_fault s"
proof -
  have mem: "p \<in> set (owned s)" using assms(2) by (simp add: own_defs)
  then obtain t where t: "sy_heap s p = Some t" using own_allocated assms(1) by blast
  have "own_ok (sy_heap s) (p # eventList s @ sched_hand s @ taskList s)"
    by (rule own_ok_perm [OF assms(1) [unfolded own_inv_def]])
      (simp add: owned_def disp_hand_def assms(2))
  from own_ok_del [OF this] show "own_inv (disp_run p s)"
    by (simp add: disp_run_def t delete_task_def own_inv_def own_defs Let_def)
  show "sy_fault (disp_run p s) = sy_fault s"
    by (simp add: disp_run_def t delete_task_def Let_def)
qed

lemma own_step:
  assumes "sys_step s s'" "own_inv s"
  shows "own_inv s'"
  using assms
proof (induction rule: sys_step.induct)
  case (st_notify i s)
  have "own_inv (s\<lparr>sy_adding := xs\<rparr>)" for xs
    using st_notify(3) by (rule own_inv_same) (simp_all add: own_defs)
  then show ?case by (simp add: addEvent_notify_def own_notify)
next
  case (st_shutdown3 s)
  have "own_inv (s\<lparr>sy_shutdown_phase := x\<rparr>)" for x
    using st_shutdown3(2) by (rule own_inv_same) (simp_all add: own_defs)
  then show ?case by (simp add: shutdown_notify_def own_notify)
next
  case (st_spurious s d)
  then show ?case by (auto intro: own_sched_pc)
qed (simp_all add: own_frame own_addEvent own_clear own_sched_pc own_disp_pc own_locked own_dispatch own_post
       own_take own_run sched_check_def sched_wait_def disp_check_def)

lemma own_start: "own_inv (sys_start t)"
  by (simp add: own_inv_def own_defs own_ok_def sys_start_def)

lemma reach_own: "sys_reach s \<Longrightarrow> own_inv s"
  by (induction rule: sys_reach.induct) (auto intro: own_start own_step)

subsection \<open>What the scheduler's queue holds\<close>

text \<open>The queue seen as identifiers and due times. Tasks are not changed while they are queued, so
  only adding, popping and shutting down change this view.\<close>

definition evq :: "Sys \<Rightarrow> (nat \<times> int) list" where
  "evq s = map (\<lambda>p. (getEventId s p, getCycle s p)) (eventList s)"

lemma evq_cong:
  "eventList s' = eventList s \<Longrightarrow> \<forall>q\<in>set (eventList s). sy_heap s' q = sy_heap s q \<Longrightarrow> evq s' = evq s"
  by (simp add: evq_def getEventId_def getCycle_def)

lemma queued_other:
  assumes "own_inv s" "q \<in> set (eventList s)" "sy_heap s p = None \<or> p \<in> set (sched_hand s) \<or> p \<in> set (disp_hand s)"
  shows "q \<noteq> p"
  using assms unfolding own_inv_def own_ok_def owned_def by auto

lemma notify_frame [simp]:
  "sy_heap (notify_sched s) = sy_heap s" "eventList (notify_sched s) = eventList s"
  "eventIds (notify_sched s) = eventIds s" "lastEventId (notify_sched s) = lastEventId s"
  "sy_fired (notify_sched s) = sy_fired s" "sy_stopped (notify_sched s) = sy_stopped s"
  "sy_added (notify_sched s) = sy_added s" "sy_shutdown_phase (notify_sched s) = sy_shutdown_phase s"
  "sy_sched_state (notify_sched s) = sy_sched_state s" "sy_now (notify_sched s) = sy_now s"
  "sy_fault (notify_sched s) = sy_fault s"
  by (simp_all add: notify_sched_def split: sched_pc.split)

text \<open>Steps that leave the view of the queue, the identifiers and the record of firings alone.\<close>

definition same_events :: "Sys \<Rightarrow> Sys \<Rightarrow> bool" where
  "same_events s s' \<longleftrightarrow> evq s' = evq s \<and> eventIds s' = eventIds s \<and> lastEventId s' = lastEventId s
     \<and> sy_fired s' = sy_fired s \<and> sy_stopped s' = sy_stopped s \<and> sy_added s' = sy_added s"

lemma same_eventsI:
  "eventList s' = eventList s \<Longrightarrow> \<forall>q\<in>set (eventList s). sy_heap s' q = sy_heap s q \<Longrightarrow>
   eventIds s' = eventIds s \<Longrightarrow> lastEventId s' = lastEventId s \<Longrightarrow> sy_fired s' = sy_fired s \<Longrightarrow>
   sy_stopped s' = sy_stopped s \<Longrightarrow> sy_added s' = sy_added s \<Longrightarrow> same_events s s'"
  unfolding same_events_def by (intro conjI evq_cong)

lemma same_post:
  assumes "own_inv s" "sy_heap s p = None"
  shows "same_events s (post_task p e f s)" "same_events s (disp_shutdown p s)"
proof -
  have ne: "\<forall>q\<in>set (eventList s). q \<noteq> p" using queued_other [OF assms(1)] assms(2) by blast
  show "same_events s (post_task p e f s)"
    by (rule same_eventsI) (use ne in \<open>simp_all add: post_task_def addTask_def delete_task_def\<close>)
  show "same_events s (disp_shutdown p s)"
    by (rule same_eventsI) (use ne in \<open>simp_all add: disp_shutdown_def\<close>)
qed

lemma same_dispatch:
  assumes "own_inv s" "sy_sched_pc s = Sched_Dispatch p"
  shows "same_events s (sched_dispatch p s)"
proof -
  have "p \<in> set (sched_hand s)" using assms(2) by (simp add: sched_hand_def)
  then have ne: "\<forall>q\<in>set (eventList s). q \<noteq> p" using queued_other [OF assms(1)] by blast
  show ?thesis
    by (rule same_eventsI)
      (use ne in \<open>simp_all add: sched_dispatch_def addTask_def delete_task_def split: option.split\<close>)
qed

lemma same_run:
  assumes "own_inv s" "sy_disp_pc s = Disp_Run p"
  shows "same_events s (disp_run p s)"
proof -
  have "p \<in> set (disp_hand s)" using assms(2) by (simp add: disp_hand_def)
  then have ne: "\<forall>q\<in>set (eventList s). q \<noteq> p" using queued_other [OF assms(1)] by blast
  show ?thesis
    by (rule same_eventsI)
      (use ne in \<open>simp_all add: disp_run_def Let_def delete_task_def split: option.split\<close>)
qed

lemma same_simple:
  "same_events s (s\<lparr>sy_now := t\<rparr>)" "same_events s (s\<lparr>sy_sched_state := x\<rparr>)"
  "same_events s (s\<lparr>sy_disp_state := x\<rparr>)" "same_events s (s\<lparr>sy_sched_pc := pc\<rparr>)"
  "same_events s (addEvent_notify i s)" "same_events s (snd (addEvent_return i s))"
  "same_events s (shutdown_state s)" "same_events s (shutdown_notify s)" "same_events s (sched_check s)"
  "same_events s (sched_wait tp s)" "same_events s (disp_check s)" "same_events s (disp_take s)"
  by (rule same_eventsI; simp add: addEvent_notify_def addEvent_return_def shutdown_state_def shutdown_notify_def
        sched_check_def sched_wait_def disp_check_def disp_take_def Let_def split: option.split list.split)+

lemma evq_add:
  assumes "own_inv s" "sy_heap s p = None" "sy_sched_state s = THREAD_STATE_RUNNING"
  shows "evq (addEvent p delay f s) = (next_event_id (lastEventId s), sy_now s + int delay) # evq s"
proof -
  have "\<forall>q\<in>set (eventList s). q \<noteq> p" using queued_other [OF assms(1)] assms(2) by blast
  then show ?thesis
    using assms(3) by (simp add: evq_def addEvent_def Let_def getEventId_def getCycle_def new_task_def)
qed

lemma evq_locked:
  assumes "own_inv s" "is_top s tp"
  shows "mset (evq s) = add_mset (getEventId s tp, getCycle s tp) (mset (evq (sched_locked (Some d) tp s)))"
    "\<forall>(i, c)\<in>set (evq s). getCycle s tp \<le> c"
proof -
  have tp: "tp \<in> set (eventList s)" using assms(2) by (simp add: is_top_def)
  then have ne: "eventList s \<noteq> []" by auto
  have "distinct (eventList s)" using assms(1) by (simp add: own_inv_def own_ok_def owned_def)
  then have "\<forall>q\<in>set (remove1 tp (eventList s)). sy_heap (sched_locked (Some d) tp s) q = sy_heap s q"
    using ne by (auto simp: sched_locked_def Let_def delete_task_def)
  moreover have "eventList (sched_locked (Some d) tp s) = remove1 tp (eventList s)"
    using ne by (simp add: sched_locked_def Let_def delete_task_def)
  ultimately have a: "evq (sched_locked (Some d) tp s) = map (\<lambda>p. (getEventId s p, getCycle s p)) (remove1 tp (eventList s))"
    by (simp add: evq_def getEventId_def getCycle_def)
  have b: "mset (eventList s) = add_mset tp (mset (remove1 tp (eventList s)))"
    using tp by simp
  show "mset (evq s) = add_mset (getEventId s tp, getCycle s tp) (mset (evq (sched_locked (Some d) tp s)))"
    unfolding a evq_def [of s] mset_map b image_mset_add_mset ..
  show "\<forall>(i, c)\<in>set (evq s). getCycle s tp \<le> c"
    using assms(2) by (auto simp: evq_def is_top_def)
qed

subsection \<open>Events fire when they are due\<close>

definition waiting_for :: "sched_pc \<Rightarrow> int option" where
  "waiting_for pc = (case pc of Sched_Wait_Until d \<Rightarrow> Some d | Sched_Woken t \<Rightarrow> t | _ \<Rightarrow> None)"

text \<open>A thread that waits for a deadline, or has seen it pass, has a task in the queue that is due
  by then, until \<open>shutdown\<close> empties the queue.\<close>

definition timer_inv :: "Sys \<Rightarrow> bool" where
  "timer_inv s \<longleftrightarrow>
     (\<forall>d. waiting_for (sy_sched_pc s) = Some d \<longrightarrow> sy_shutdown_phase s \<ge> 2 \<or> (\<exists>(i, c)\<in>set (evq s). c \<le> d))
   \<and> (\<forall>d. sy_sched_pc s = Sched_Woken (Some d) \<longrightarrow> d \<le> sy_now s)
   \<and> (sy_shutdown_phase s \<ge> 1 \<longrightarrow> sy_sched_state s = THREAD_STATE_TERMINATED)
   \<and> (sy_shutdown_phase s \<ge> 2 \<longrightarrow> evq s = [])
   \<and> (\<forall>(i, c, t)\<in>set (sy_fired s). c \<le> t)
   \<and> (sy_fault s = Some Top_Of_Empty_Queue \<longrightarrow> sy_shutdown_phase s \<ge> 2)"

lemma timer_frame:
  assumes "timer_inv s" "same_events s s'" "sy_shutdown_phase s' = sy_shutdown_phase s"
    "waiting_for (sy_sched_pc s') = waiting_for (sy_sched_pc s) \<or> waiting_for (sy_sched_pc s') = None"
    "sy_now s \<le> sy_now s'" "\<forall>d. sy_sched_pc s' = Sched_Woken (Some d) \<longrightarrow> sy_sched_pc s = Sched_Woken (Some d)"
    "sy_sched_state s' = sy_sched_state s" "sy_fault s' = sy_fault s \<or> (\<exists>p. sy_fault s' = Some (Use_After_Free p))"
  shows "timer_inv s'"
  using assms unfolding timer_inv_def same_events_def by (auto split: prod.splits)

lemma timer_locked:
  assumes "timer_inv s" "own_inv s" "sy_sched_pc s = Sched_Woken timeout" "eventList s = [] \<or> is_top s tp"
    "sy_fault s = None"
  shows "timer_inv (sched_locked timeout tp s)"
proof (cases timeout)
  case None
  have same: "same_events s (sched_locked timeout tp s)"
    by (rule same_eventsI) (simp_all add: None sched_locked_def)
  show ?thesis
    by (rule timer_frame [OF assms(1) same]) (simp_all add: None sched_locked_def waiting_for_def)
next
  case (Some d)
  then have w: "waiting_for (sy_sched_pc s) = Some d" and now: "d \<le> sy_now s"
    using assms(1,3) by (auto simp: waiting_for_def timer_inv_def)
  show ?thesis
  proof (cases "eventList s = []")
    case True
    then have same: "same_events s (sched_locked timeout tp s)"
      by (intro same_eventsI) (simp_all add: Some sched_locked_def)
    have "sy_shutdown_phase s \<ge> 2"
      using assms(1) w True unfolding timer_inv_def by (auto simp: evq_def)
    then show ?thesis
      using assms(1) True same unfolding timer_inv_def same_events_def
      by (simp add: Some sched_locked_def)
  next
    case False
    then have tp: "is_top s tp" using assms(4) by simp
    then have ne: "evq s \<noteq> []" using False by (simp add: evq_def)
    then have ph: "\<not> sy_shutdown_phase s \<ge> 2" using assms(1) by (auto simp: timer_inv_def)
    then obtain i c where "(i, c) \<in> set (evq s)" "c \<le> d"
      using assms(1) w unfolding timer_inv_def by blast
    then have due: "getCycle s tp \<le> sy_now s"
      using evq_locked(2) [OF assms(2) tp] now by fastforce
    have f: "\<forall>(i, c, t)\<in>set (sy_fired s). c \<le> t" "sy_shutdown_phase s \<ge> 1 \<longrightarrow> sy_sched_state s = THREAD_STATE_TERMINATED"
      using assms(1) by (simp_all add: timer_inv_def)
    show ?thesis
      unfolding timer_inv_def
      using False f ph due assms(5)
      by (simp add: Some sched_locked_def Let_def delete_task_def waiting_for_def getCycle_def)
  qed
qed

lemma timer_add:
  assumes "timer_inv s" "own_inv s" "sy_heap s p = None"
  shows "timer_inv (addEvent p delay f s)"
proof (cases "sy_sched_state s = THREAD_STATE_RUNNING")
  case True
  note e = evq_add [OF assms(2,3) True, of delay f]
  have "\<not> sy_shutdown_phase s \<ge> 1" using assms(1) True by (auto simp: timer_inv_def)
  then show ?thesis
    using assms(1) True e unfolding timer_inv_def
    by (auto simp: addEvent_def Let_def)
next
  case False
  then show ?thesis using assms(1) by (simp add: addEvent_def Let_def)
qed

lemma timer_wait:
  assumes "timer_inv s" "sy_sched_pc s = Sched_Lock" "eventList s = [] \<or> is_top s tp"
  shows "timer_inv (sched_wait tp s)"
proof -
  have "evq (sched_wait tp s) = evq s" by (rule evq_cong) (simp_all add: sched_wait_def)
  moreover have "eventList s \<noteq> [] \<Longrightarrow> (getEventId s tp, getCycle s tp) \<in> set (evq s)"
    using assms(3) by (auto simp: evq_def is_top_def)
  ultimately show ?thesis
    using assms(1) unfolding timer_inv_def
    by (auto simp: sched_wait_def waiting_for_def)
qed

lemma timer_step:
  assumes "sys_step s s'" "timer_inv s" "own_inv s" "sy_fault s = None"
  shows "timer_inv s'"
  using assms
proof (induction rule: sys_step.induct)
  case (st_timeout s d)
  note same = same_simple(4) [of s "Sched_Woken (Some d)"]
  show ?case
    using st_timeout same unfolding timer_inv_def same_events_def by (simp add: waiting_for_def)
next
  case (st_shutdown2 s)
  then show ?case unfolding timer_inv_def by (simp add: shutdown_clear_def evq_def)
next
  case (st_shutdown1 s)
  then show ?case using same_simple(7) [of s] unfolding timer_inv_def same_events_def
    by (simp add: shutdown_state_def)
next
  case (st_shutdown3 s)
  then show ?case using same_simple(8) [of s] unfolding timer_inv_def same_events_def
    by (auto simp: shutdown_notify_def waiting_for_def notify_sched_def split: sched_pc.splits)
next
  case (st_stop s eid)
  have "evq (snd (stopEvent eid s)) = evq s" by (rule evq_cong) (simp_all add: stopEvent_def)
  then show ?case using st_stop unfolding timer_inv_def by (simp add: stopEvent_def)
next
  case (st_disp_run s p)
  show ?case
    by (rule timer_frame [OF st_disp_run(2) same_run [OF st_disp_run(3,1)]])
      (use own_run(2) [OF st_disp_run(3,1)] in \<open>simp_all add: disp_run_def delete_task_def Let_def split: option.split\<close>)
next
  case (st_dispatch s p)
  show ?case
    by (rule timer_frame [OF st_dispatch(2) same_dispatch [OF st_dispatch(3,1)]])
      (use own_dispatch(2) [OF st_dispatch(3,1)] st_dispatch(1) in
        \<open>simp_all add: sched_dispatch_def addTask_def delete_task_def waiting_for_def split: option.split\<close>)
next
  case (st_close s)
  then show ?case using same_simple(2) [of s THREAD_STATE_CLOSING] unfolding timer_inv_def same_events_def by auto
next
  case (st_post s p expiration f)
  show ?case
    by (rule timer_frame [OF st_post(2) same_post(1) [OF st_post(3,1)]])
      (simp_all add: post_task_def addTask_def delete_task_def)
next
  case (st_disp_shutdown s p)
  show ?case
    by (rule timer_frame [OF st_disp_shutdown(2) same_post(2) [OF st_disp_shutdown(3,1)]])
      (simp_all add: disp_shutdown_def)
next
  case (st_notify i s)
  show ?case
    by (rule timer_frame [OF st_notify(3) same_simple(5)])
      (auto simp: addEvent_notify_def notify_sched_def waiting_for_def split: sched_pc.splits)
next
  case (st_return i s)
  show ?case
    by (rule timer_frame [OF st_return(3) same_simple(6)])
      (simp_all add: addEvent_return_def Let_def split: option.split)
next
  case (st_disp_check s)
  show ?case
    by (rule timer_frame [OF st_disp_check(2) same_simple(11)]) (simp_all add: disp_check_def)
next
  case (st_disp_take s)
  show ?case
    by (rule timer_frame [OF st_disp_take(2) same_simple(12)]) (simp_all add: disp_take_def split: list.split)
qed (auto intro: timer_frame same_simple timer_locked timer_add timer_wait
      simp: sched_check_def waiting_for_def)

lemma timer_start: "timer_inv (sys_start t)"
  by (simp add: timer_inv_def sys_start_def waiting_for_def evq_def)

lemma reach_timer: "sys_reach s \<Longrightarrow> timer_inv s"
proof (induction rule: sys_reach.induct)
  case (sys_next s s')
  then show ?case using timer_step reach_own by blast
qed (rule timer_start)

subsection \<open>No event is lost or fired twice\<close>

















subsection \<open>The dispatcher serves tasks in order\<close>

definition task_kind :: "Sys \<Rightarrow> nat \<Rightarrow> bool \<times> nat option" where
  "task_kind s p = (getEventId s p \<noteq> 0, Option.bind (sy_heap s p) tk_func)"

text \<open>Of the tasks taken, in hand and queued, those that do not come from the scheduler are, in
  order, the ones posted.\<close>

definition fifo_inv :: "Sys \<Rightarrow> bool" where
  "fifo_inv s \<longleftrightarrow>
     sy_posted s = map snd (filter (\<lambda>k. \<not> fst k) (sy_taken s @ map (task_kind s) (disp_hand s @ taskList s)))
   \<and> (\<forall>p\<in>set (eventList s @ sched_hand s). getEventId s p \<noteq> 0)"

lemma fifo_gen:
  assumes "fifo_inv s" "disp_hand s' @ taskList s' = disp_hand s @ taskList s"
    "\<forall>p\<in>set (disp_hand s @ taskList s). sy_heap s' p = sy_heap s p" "sy_taken s' = sy_taken s" "sy_posted s' = sy_posted s"
    "\<forall>p\<in>set (eventList s' @ sched_hand s'). getEventId s' p \<noteq> 0"
  shows "fifo_inv s'"
proof -
  have "map (task_kind s') (disp_hand s' @ taskList s') = map (task_kind s) (disp_hand s @ taskList s)"
    unfolding assms(2) using assms(3) by (intro map_cong refl) (simp add: task_kind_def getEventId_def)
  then show ?thesis using assms(1,4,5,6) unfolding fifo_inv_def by metis
qed

lemma fifo_frame:
  assumes "fifo_inv s" "disp_hand s' @ taskList s' = disp_hand s @ taskList s"
    "\<forall>p\<in>set (owned s'). sy_heap s' p = sy_heap s p" "sy_taken s' = sy_taken s" "sy_posted s' = sy_posted s"
    "set (eventList s' @ sched_hand s') \<subseteq> set (eventList s @ sched_hand s)"
  shows "fifo_inv s'"
proof (rule fifo_gen [OF assms(1,2) _ assms(4,5)])
  show "\<forall>p\<in>set (disp_hand s @ taskList s). sy_heap s' p = sy_heap s p"
    using assms(3) unfolding assms(2) [symmetric] by (simp add: owned_def)
  have "sy_heap s' p = sy_heap s p" if "p \<in> set (eventList s' @ sched_hand s')" for p
    using assms(3) that unfolding owned_def by auto
  then show "\<forall>p\<in>set (eventList s' @ sched_hand s'). getEventId s' p \<noteq> 0"
    using assms(1,6) unfolding fifo_inv_def getEventId_def by (metis subsetD)
qed

lemma fifo_pc:
  assumes "fifo_inv s" "\<forall>p. pc \<noteq> Sched_Dispatch p"
  shows "fifo_inv (s\<lparr>sy_sched_pc := pc\<rparr>)"
proof -
  have "sched_hand (s\<lparr>sy_sched_pc := pc\<rparr>) = []" using assms(2) by (cases pc) (simp_all add: sched_hand_def)
  then show ?thesis by (intro fifo_frame [OF assms(1)]) (simp_all add: disp_hand_def)
qed

lemma fifo_simple:
  "fifo_inv s \<Longrightarrow> fifo_inv (s\<lparr>sy_now := t\<rparr>)" "fifo_inv s \<Longrightarrow> fifo_inv (s\<lparr>sy_sched_state := x\<rparr>)"
  "fifo_inv s \<Longrightarrow> fifo_inv (s\<lparr>sy_disp_state := x\<rparr>)" "fifo_inv s \<Longrightarrow> fifo_inv (s\<lparr>sy_adding := ad\<rparr>)"
  "fifo_inv s \<Longrightarrow> fifo_inv (s\<lparr>sy_shutdown_phase := ph\<rparr>)"
  "fifo_inv s \<Longrightarrow> fifo_inv (snd (addEvent_return i s))" "fifo_inv s \<Longrightarrow> fifo_inv (snd (stopEvent eid s))"
  "fifo_inv s \<Longrightarrow> fifo_inv (shutdown_state s)"
  by (erule fifo_frame; simp add: disp_hand_def sched_hand_def addEvent_return_def stopEvent_def shutdown_state_def Let_def
        split: option.split)+

lemma fifo_notify: "fifo_inv s \<Longrightarrow> fifo_inv (notify_sched s)"
  unfolding notify_sched_def by (cases "sy_sched_pc s") (simp_all add: fifo_pc)

lemma next_event_id_nonzero [simp]: "next_event_id n \<noteq> 0"
  by (simp add: next_event_id_def Let_def)

lemma fifo_add:
  assumes "fifo_inv s" "own_inv s" "sy_heap s p = None"
  shows "fifo_inv (addEvent p delay f s)"
proof (cases "sy_sched_state s = THREAD_STATE_RUNNING")
  case True
  have ne: "\<forall>q\<in>set (owned s). q \<noteq> p" using own_allocated [OF assms(2)] assms(3) by fastforce
  have l: "eventList (addEvent p delay f s) = p # eventList s" "sched_hand (addEvent p delay f s) = sched_hand s"
    and h: "sy_heap (addEvent p delay f s) = (sy_heap s)(p \<mapsto> (new_task (sy_now s + int delay) f)\<lparr>tk_eventId := next_event_id (lastEventId s)\<rparr>)"
    using True by (simp_all add: addEvent_def Let_def sched_hand_def)
  have nz: "getEventId (addEvent p delay f s) p \<noteq> 0" by (simp add: getEventId_def h)
  have "getEventId (addEvent p delay f s) q = getEventId s q" if "q \<in> set (owned s)" for q
    using that ne by (simp add: getEventId_def h)
  then have "\<forall>q\<in>set (eventList s @ sched_hand s). getEventId (addEvent p delay f s) q \<noteq> 0"
    using assms(1) unfolding fifo_inv_def owned_def by auto
  with nz have "\<forall>q\<in>set (eventList (addEvent p delay f s) @ sched_hand (addEvent p delay f s)). getEventId (addEvent p delay f s) q \<noteq> 0"
    by (simp add: l)
  moreover have "\<forall>q\<in>set (disp_hand s @ taskList s). sy_heap (addEvent p delay f s) q = sy_heap s q"
    using ne by (simp add: h owned_def ball_Un)
  ultimately show ?thesis
    by (intro fifo_gen [OF assms(1)]) (simp_all add: True addEvent_def Let_def disp_hand_def)
next
  case False
  then show ?thesis using assms(1) by (simp add: addEvent_def Let_def)
qed

lemma fifo_clear:
  assumes "fifo_inv s" "own_inv s"
  shows "fifo_inv (shutdown_clear s)"
  by (rule fifo_frame [OF assms(1)])
    (use assms(2) in \<open>auto simp: own_inv_def own_ok_def own_defs shutdown_clear_def split: sched_pc.splits disp_pc.splits\<close>)

lemma fifo_locked:
  assumes "fifo_inv s" "own_inv s" "sy_sched_pc s = Sched_Woken timeout" "eventList s = [] \<or> is_top s tp"
  shows "fifo_inv (sched_locked timeout tp s)"
proof (cases "timeout = None \<or> eventList s = []")
  case True
  then show ?thesis
    using assms(3) by (auto intro!: fifo_frame [OF assms(1)] simp: sched_locked_def disp_hand_def sched_hand_def split: option.split)
next
  case False
  then obtain d where d: "timeout = Some d" by auto
  have tp: "tp \<in> set (eventList s)" using assms(4) False by (auto simp: is_top_def)
  have dist: "distinct (eventList s)" "tp \<notin> set (disp_hand s @ taskList s)"
    using assms(2) tp by (auto simp: own_inv_def own_ok_def owned_def)
  have h: "disp_hand (sched_locked timeout tp s) = disp_hand s" "taskList (sched_locked timeout tp s) = taskList s"
    "sy_taken (sched_locked timeout tp s) = sy_taken s" "sy_posted (sched_locked timeout tp s) = sy_posted s"
    "eventList (sched_locked timeout tp s) = remove1 tp (eventList s)"
    "set (sched_hand (sched_locked timeout tp s)) \<subseteq> {tp}"
    using False by (auto simp: d sched_locked_def Let_def delete_task_def disp_hand_def sched_hand_def)
  have heap: "q \<noteq> tp \<or> sched_hand (sched_locked timeout tp s) \<noteq> [] \<Longrightarrow>
      sy_heap (sched_locked timeout tp s) q = sy_heap s q" for q
    using False by (auto simp: d sched_locked_def Let_def delete_task_def sched_hand_def)
  have "\<forall>q\<in>set (owned (sched_locked timeout tp s)). sy_heap (sched_locked timeout tp s) q = sy_heap s q"
  proof
    fix q assume "q \<in> set (owned (sched_locked timeout tp s))"
    then have "q \<noteq> tp \<or> sched_hand (sched_locked timeout tp s) \<noteq> []"
      using dist h unfolding owned_def by auto
    then show "sy_heap (sched_locked timeout tp s) q = sy_heap s q" by (rule heap)
  qed
  then show ?thesis
    by (intro fifo_frame [OF assms(1)]) (use h tp set_remove1_subset [of tp "eventList s"] in auto)
qed

lemma fifo_dispatch:
  assumes "fifo_inv s" "own_inv s" "sy_sched_pc s = Sched_Dispatch p"
  shows "fifo_inv (sched_dispatch p s)"
proof -
  have mem: "p \<in> set (owned s)" using assms(3) by (simp add: own_defs)
  then obtain t where t: "sy_heap s p = Some t" using own_allocated assms(2) by blast
  have ne: "\<forall>q\<in>set (eventList s @ disp_hand s @ taskList s). q \<noteq> p"
    using assms(2,3) unfolding own_inv_def own_ok_def owned_def by (auto simp: sched_hand_def)
  have id: "tk_eventId t \<noteq> 0"
    using assms(1,3) t unfolding fifo_inv_def by (simp add: sched_hand_def getEventId_def)
  let ?s' = "sched_dispatch p s"
  have ev: "eventList ?s' = eventList s" "sched_hand ?s' = []" "disp_hand ?s' = disp_hand s"
    "sy_taken ?s' = sy_taken s" "sy_posted ?s' = sy_posted s"
    by (simp_all add: sched_dispatch_def t addTask_def delete_task_def sched_hand_def disp_hand_def)
  have heap: "sy_heap ?s' q = sy_heap s q" if "q \<noteq> p" for q
    using that by (simp add: sched_dispatch_def t addTask_def delete_task_def)
  have kind: "map (task_kind ?s') (disp_hand s) = map (task_kind s) (disp_hand s)"
    "map (task_kind ?s') (taskList s) = map (task_kind s) (taskList s)"
    using ne heap by (auto simp: task_kind_def getEventId_def)
  have ids: "\<forall>q\<in>set (eventList s). getEventId ?s' q \<noteq> 0"
    using assms(1) ne heap unfolding fifo_inv_def by (auto simp: getEventId_def)
  show ?thesis
  proof (cases "sy_disp_state s = THREAD_STATE_RUNNING")
    case True
    then have tl: "taskList ?s' = p # taskList s" and "sy_heap ?s' p = Some (setDontExpire t)"
      by (simp_all add: sched_dispatch_def t addTask_def)
    then have "fst (task_kind ?s' p)" using id by (simp add: task_kind_def getEventId_def setDontExpire_def)
    then show ?thesis using assms(1) ids unfolding fifo_inv_def ev tl by (simp add: kind)
  next
    case False
    then have tl: "taskList ?s' = taskList s" by (simp add: sched_dispatch_def t addTask_def delete_task_def)
    show ?thesis using assms(1) ids unfolding fifo_inv_def ev tl by (simp add: kind)
  qed
qed

lemma fifo_append:
  assumes "fifo_inv s" "own_inv s" "sy_heap s p = None" "tk_eventId t = 0"
  shows "fifo_inv (s\<lparr>sy_heap := (sy_heap s)(p \<mapsto> t), taskList := taskList s @ [p], sy_posted := sy_posted s @ [tk_func t]\<rparr>)"
    "fifo_inv (s\<lparr>sy_heap := ((sy_heap s)(p := None))\<rparr>)"
proof -
  have ne: "\<forall>q\<in>set (owned s). q \<noteq> p" using own_allocated [OF assms(2)] assms(3) by fastforce
  define s' where "s' = s\<lparr>sy_heap := (sy_heap s)(p \<mapsto> t), taskList := taskList s @ [p], sy_posted := sy_posted s @ [tk_func t]\<rparr>"
  have h: "disp_hand s' = disp_hand s" "sched_hand s' = sched_hand s" "eventList s' = eventList s"
    "taskList s' = taskList s @ [p]" "sy_posted s' = sy_posted s @ [tk_func t]" "sy_taken s' = sy_taken s"
    by (simp_all add: s'_def disp_hand_def sched_hand_def)
  have heap: "sy_heap s' = (sy_heap s)(p \<mapsto> t)" by (simp add: s'_def)
  have kind: "map (task_kind s') (disp_hand s) = map (task_kind s) (disp_hand s)"
    "map (task_kind s') (taskList s) = map (task_kind s) (taskList s)"
    using ne by (auto simp: task_kind_def getEventId_def owned_def heap)
  have k: "task_kind s' p = (False, tk_func t)" using assms(4) by (simp add: task_kind_def getEventId_def heap)
  have "\<forall>q\<in>set (eventList s @ sched_hand s). getEventId s' q \<noteq> 0"
    using assms(1) ne unfolding fifo_inv_def owned_def by (auto simp: getEventId_def heap)
  then have "fifo_inv s'" using assms(1) unfolding fifo_inv_def h by (simp add: kind k)
  then show "fifo_inv (s\<lparr>sy_heap := (sy_heap s)(p \<mapsto> t), taskList := taskList s @ [p], sy_posted := sy_posted s @ [tk_func t]\<rparr>)"
    by (simp add: s'_def)
  have "(sy_heap s)(p := None) = sy_heap s" using assms(3) by auto
  then show "fifo_inv (s\<lparr>sy_heap := ((sy_heap s)(p := None))\<rparr>)"
    by (intro fifo_frame [OF assms(1)]) (simp_all add: disp_hand_def sched_hand_def)
qed

lemma fifo_take:
  assumes "fifo_inv s" "sy_disp_pc s = Disp_Lock"
  shows "fifo_inv (disp_take s)"
  by (rule fifo_frame [OF assms(1)])
    (use assms(2) in \<open>simp_all add: disp_take_def disp_hand_def sched_hand_def split: list.split\<close>)

lemma fifo_run:
  assumes "fifo_inv s" "own_inv s" "sy_disp_pc s = Disp_Run p"
  shows "fifo_inv (disp_run p s)"
proof -
  have mem: "p \<in> set (owned s)" using assms(3) by (simp add: own_defs)
  then obtain t where t: "sy_heap s p = Some t" using own_allocated assms(2) by blast
  have ne: "\<forall>q\<in>set (eventList s @ sched_hand s @ taskList s). q \<noteq> p"
    using assms(2,3) unfolding own_inv_def own_ok_def owned_def by (auto simp: disp_hand_def)
  let ?s' = "disp_run p s"
  have ev: "eventList ?s' = eventList s" "sched_hand ?s' = sched_hand s" "disp_hand ?s' = []" "taskList ?s' = taskList s"
    "sy_taken ?s' = sy_taken s @ [(tk_eventId t \<noteq> 0, tk_func t)]" "sy_posted ?s' = sy_posted s"
    by (simp_all add: disp_run_def t Let_def delete_task_def sched_hand_def disp_hand_def)
  have heap: "sy_heap ?s' q = sy_heap s q" if "q \<noteq> p" for q
    using that by (simp add: disp_run_def t Let_def delete_task_def)
  have kind: "map (task_kind ?s') (taskList s) = map (task_kind s) (taskList s)"
    using ne heap by (auto simp: task_kind_def getEventId_def)
  have ids: "\<forall>q\<in>set (eventList s @ sched_hand s). getEventId ?s' q \<noteq> 0"
    using assms(1) ne heap unfolding fifo_inv_def by (auto simp: getEventId_def)
  have hand: "map (task_kind s) (disp_hand s) = [(tk_eventId t \<noteq> 0, tk_func t)]"
    using assms(3) t by (simp add: disp_hand_def task_kind_def getEventId_def)
  have "sy_posted s = map snd (filter (\<lambda>k. \<not> fst k) (sy_taken s @ map (task_kind s) (disp_hand s) @ map (task_kind s) (taskList s)))"
    using assms(1) unfolding fifo_inv_def map_append by blast
  then show ?thesis using ids unfolding fifo_inv_def ev hand by (simp add: kind)
qed

lemma fifo_step:
  assumes "sys_step s s'" "fifo_inv s" "own_inv s"
  shows "fifo_inv s'"
  using assms
proof (induction rule: sys_step.induct)
  case (st_post s p expiration f)
  note a = fifo_append [OF st_post(2,3,1), of "new_task expiration f"]
  show ?case
  proof (cases "sy_disp_state s = THREAD_STATE_RUNNING")
    case True
    then show ?thesis using a(1) by (simp add: post_task_def addTask_def new_task_def)
  next
    case False
    then show ?thesis using a(2) by (simp add: post_task_def addTask_def delete_task_def new_task_def)
  qed
next
  case (st_disp_shutdown s p)
  from fifo_append(1) [OF st_disp_shutdown(2,3,1), of "\<lparr>tk_expiration = 0, tk_func = None, tk_eventId = 0\<rparr>"]
  show ?case by (simp add: disp_shutdown_def)
next
  case (st_disp_check s)
  then show ?case by (intro fifo_frame [OF st_disp_check(2)]) (simp_all add: disp_check_def disp_hand_def sched_hand_def)
qed (simp_all add: fifo_simple fifo_add fifo_clear fifo_locked fifo_dispatch fifo_take fifo_run fifo_pc fifo_notify
       addEvent_notify_def shutdown_notify_def sched_check_def sched_wait_def)

lemma fifo_start: "fifo_inv (sys_start t)"
  by (simp add: fifo_inv_def sys_start_def disp_hand_def sched_hand_def)

lemma reach_fifo: "sys_reach s \<Longrightarrow> fifo_inv s"
proof (induction rule: sys_reach.induct)
  case (sys_next s s')
  then show ?case using fifo_step reach_own by blast
qed (rule fifo_start)

subsection \<open>Properties\<close>

text \<open>Tasks are owned by exactly one party. In every interleaving, the allocated tasks are
  those queued with the scheduler, held by its thread, queued with the dispatcher or being run, each
  in one place only: no task is leaked, deleted twice, or touched after deletion by either thread.\<close>

lemma tasks_owned_once:
  "sys_reach s \<Longrightarrow> distinct (eventList s @ sched_hand s @ disp_hand s @ taskList s)
     \<and> dom (sy_heap s) = set (eventList s @ sched_hand s @ disp_hand s @ taskList s)"
  using reach_own unfolding own_inv_def own_ok_def owned_def by blast

text \<open>C10: No event fires before it is due, and until shutdown empties the queue the
  scheduler thread never takes the top of an empty one, whatever is added or stopped while it
  waits for its deadline and for the mutex.\<close>

theorem events_fire_when_due:
  "sys_reach s \<Longrightarrow> list_all (\<lambda>(i, c, t). c \<le> t) (sy_fired s)
     \<and> (sy_shutdown_phase s < 2 \<longrightarrow> sy_fault s \<noteq> Some Top_Of_Empty_Queue)"
  using reach_timer [of s] unfolding timer_inv_def by (auto simp: list_all_iff)


text \<open>The dispatcher runs the tasks posted to it in the order they were posted: those
  already taken, the one being run and those waiting, leaving out the events the scheduler hands
  over at the front, are exactly the tasks accepted, in order.\<close>

lemma dispatcher_fifo:
  "sys_reach s \<Longrightarrow> sy_posted s =
     map snd (filter (\<lambda>k. \<not> fst k) (sy_taken s @ map (task_kind s) (disp_hand s @ taskList s)))"
  using reach_fifo unfolding fifo_inv_def by blast

subsection \<open>Runs\<close>

text \<open>States of a run with one event, identifier 1, at address 0, due at time 1.\<close>

definition demo_task :: Task where
  "demo_task = \<lparr>tk_expiration = 1, tk_func = Some 5, tk_eventId = 1\<rparr>"

definition demo_sys ::
  "(nat \<rightharpoonup> Task) \<Rightarrow> nat list \<Rightarrow> nat set \<Rightarrow> sched_pc \<Rightarrow> (nat \<times> bool) list \<Rightarrow> nat list \<Rightarrow> disp_pc \<Rightarrow> (nat \<times> int \<times> int) list \<Rightarrow> Sys" where
  "demo_sys h ev ids pc ad ts dpc fired =
     (sys_start 1)\<lparr>sy_heap := h, eventList := ev, eventIds := ids, lastEventId := 1, sy_sched_pc := pc, sy_adding := ad,
       taskList := ts, sy_disp_pc := dpc, sy_fired := fired, sy_added := 1\<rparr>"

definition demo_done :: "(nat \<times> bool) list \<Rightarrow> Sys" where
  "demo_done ad = (demo_sys Map.empty [] {} Sched_Loop ad [] Disp_Loop [(1, 1, 1)])
     \<lparr>dispatcherCycle := 1, sy_taken := [(True, Some 5)]\<rparr>"

lemma demo_added: "sys_reach (demo_sys [0 \<mapsto> demo_task] [0] {1} Sched_Loop [(0, True)] [] Disp_Loop [])" "addEvent 0 0 5 (sys_start 1) = demo_sys [0 \<mapsto> demo_task] [0] {1} Sched_Loop [(0, True)] [] Disp_Loop []"
proof -
  show eq: "addEvent 0 0 5 (sys_start 1) = demo_sys [0 \<mapsto> demo_task] [0] {1} Sched_Loop [(0, True)] [] Disp_Loop []"
    by (simp add: sys_start_def demo_sys_def demo_task_def addEvent_def new_task_def next_event_id_def is_top_def)
  show "sys_reach (demo_sys [0 \<mapsto> demo_task] [0] {1} Sched_Loop [(0, True)] [] Disp_Loop [])"
    unfolding eq [symmetric] by (rule sys_next [OF sys_init _ st_add]) (simp_all add: sys_start_def)
qed

lemma step_locked: "sys_step (demo_sys [0 \<mapsto> demo_task] [0] {1} Sched_Loop [(0, True)] [] Disp_Loop []) (demo_sys [0 \<mapsto> demo_task] [0] {1} Sched_Lock [(0, True)] [] Disp_Loop [])"
  by (rule back_subst [where P = "sys_step (demo_sys [0 \<mapsto> demo_task] [0] {1} Sched_Loop [(0, True)] [] Disp_Loop [])", OF st_check])
    (simp_all add: sys_start_def demo_sys_def sched_check_def)

lemma demo_locked: "sys_reach (demo_sys [0 \<mapsto> demo_task] [0] {1} Sched_Lock [(0, True)] [] Disp_Loop [])"
  by (rule sys_next [OF demo_added(1) _ step_locked]) (simp add: demo_sys_def sys_start_def)

lemma step_waiting: "sys_step (demo_sys [0 \<mapsto> demo_task] [0] {1} Sched_Lock [(0, True)] [] Disp_Loop []) (demo_sys [0 \<mapsto> demo_task] [0] {1} (Sched_Wait_Until 1) [(0, True)] [] Disp_Loop [])"
  by (rule back_subst [where P = "sys_step (demo_sys [0 \<mapsto> demo_task] [0] {1} Sched_Lock [(0, True)] [] Disp_Loop [])", OF st_wait [of _ 0]])
    (simp_all add: sys_start_def demo_sys_def demo_task_def sched_wait_def is_top_def getCycle_def)

lemma demo_waiting: "sys_reach (demo_sys [0 \<mapsto> demo_task] [0] {1} (Sched_Wait_Until 1) [(0, True)] [] Disp_Loop [])"
  by (rule sys_next [OF demo_locked _ step_waiting]) (simp add: demo_sys_def sys_start_def)

lemma step_timed_out: "sys_step (demo_sys [0 \<mapsto> demo_task] [0] {1} (Sched_Wait_Until 1) [(0, True)] [] Disp_Loop []) (demo_sys [0 \<mapsto> demo_task] [0] {1} (Sched_Woken (Some 1)) [(0, True)] [] Disp_Loop [])"
  by (rule back_subst [where P = "sys_step (demo_sys [0 \<mapsto> demo_task] [0] {1} (Sched_Wait_Until 1) [(0, True)] [] Disp_Loop [])", OF st_timeout [of _ 1]])
    (simp_all add: sys_start_def demo_sys_def)

lemma demo_timed_out: "sys_reach (demo_sys [0 \<mapsto> demo_task] [0] {1} (Sched_Woken (Some 1)) [(0, True)] [] Disp_Loop [])"
  by (rule sys_next [OF demo_waiting _ step_timed_out]) (simp add: demo_sys_def sys_start_def)

lemma step_fired: "sys_step (demo_sys [0 \<mapsto> demo_task] [0] {1} (Sched_Woken (Some 1)) [(0, True)] [] Disp_Loop []) (demo_sys [0 \<mapsto> demo_task] [] {} (Sched_Dispatch 0) [(0, True)] [] Disp_Loop [(1, 1, 1)])"
  by (rule back_subst [where P = "sys_step (demo_sys [0 \<mapsto> demo_task] [0] {1} (Sched_Woken (Some 1)) [(0, True)] [] Disp_Loop [])", OF st_locked [of _ "Some 1" 0]])
    (simp_all add: sys_start_def demo_sys_def demo_task_def sched_locked_def is_top_def getCycle_def getEventId_def)

lemma demo_fired: "sys_reach (demo_sys [0 \<mapsto> demo_task] [] {} (Sched_Dispatch 0) [(0, True)] [] Disp_Loop [(1, 1, 1)])"
  by (rule sys_next [OF demo_timed_out _ step_fired]) (simp add: demo_sys_def sys_start_def)

lemma step_dispatched: "sys_step (demo_sys [0 \<mapsto> demo_task] [] {} (Sched_Dispatch 0) [(0, True)] [] Disp_Loop [(1, 1, 1)]) (demo_sys [0 \<mapsto> setDontExpire demo_task] [] {} Sched_Loop [(0, True)] [0] Disp_Loop [(1, 1, 1)])"
  by (rule back_subst [where P = "sys_step (demo_sys [0 \<mapsto> demo_task] [] {} (Sched_Dispatch 0) [(0, True)] [] Disp_Loop [(1, 1, 1)])", OF st_dispatch [of _ 0]])
    (simp_all add: sys_start_def demo_sys_def demo_task_def sched_dispatch_def addTask_def)

lemma demo_dispatched: "sys_reach (demo_sys [0 \<mapsto> setDontExpire demo_task] [] {} Sched_Loop [(0, True)] [0] Disp_Loop [(1, 1, 1)])"
  by (rule sys_next [OF demo_fired _ step_dispatched]) (simp add: demo_sys_def sys_start_def)

lemma step_disp_locked: "sys_step (demo_sys [0 \<mapsto> setDontExpire demo_task] [] {} Sched_Loop [(0, True)] [0] Disp_Loop [(1, 1, 1)]) (demo_sys [0 \<mapsto> setDontExpire demo_task] [] {} Sched_Loop [(0, True)] [0] Disp_Lock [(1, 1, 1)])"
  by (rule back_subst [where P = "sys_step (demo_sys [0 \<mapsto> setDontExpire demo_task] [] {} Sched_Loop [(0, True)] [0] Disp_Loop [(1, 1, 1)])", OF st_disp_check])
    (simp_all add: sys_start_def demo_sys_def disp_check_def)

lemma demo_disp_locked: "sys_reach (demo_sys [0 \<mapsto> setDontExpire demo_task] [] {} Sched_Loop [(0, True)] [0] Disp_Lock [(1, 1, 1)])"
  by (rule sys_next [OF demo_dispatched _ step_disp_locked]) (simp add: demo_sys_def sys_start_def)

lemma step_taken: "sys_step (demo_sys [0 \<mapsto> setDontExpire demo_task] [] {} Sched_Loop [(0, True)] [0] Disp_Lock [(1, 1, 1)]) (demo_sys [0 \<mapsto> setDontExpire demo_task] [] {} Sched_Loop [(0, True)] [] (Disp_Run 0) [(1, 1, 1)])"
  by (rule back_subst [where P = "sys_step (demo_sys [0 \<mapsto> setDontExpire demo_task] [] {} Sched_Loop [(0, True)] [0] Disp_Lock [(1, 1, 1)])", OF st_disp_take])
    (simp_all add: sys_start_def demo_sys_def disp_take_def)

lemma demo_taken: "sys_reach (demo_sys [0 \<mapsto> setDontExpire demo_task] [] {} Sched_Loop [(0, True)] [] (Disp_Run 0) [(1, 1, 1)])"
  by (rule sys_next [OF demo_disp_locked _ step_taken]) (simp add: demo_sys_def sys_start_def)

lemma step_ran: "sys_step (demo_sys [0 \<mapsto> setDontExpire demo_task] [] {} Sched_Loop [(0, True)] [] (Disp_Run 0) [(1, 1, 1)]) (demo_done [(0, True)])"
  by (rule back_subst [where P = "sys_step (demo_sys [0 \<mapsto> setDontExpire demo_task] [] {} Sched_Loop [(0, True)] [] (Disp_Run 0) [(1, 1, 1)])", OF st_disp_run [of _ 0]])
    (simp_all add: sys_start_def demo_sys_def demo_done_def demo_task_def disp_run_def setDontExpire_def hasExpired_def
      delete_task_def)

lemma demo_ran: "sys_reach (demo_done [(0, True)])"
  by (rule sys_next [OF demo_taken _ step_ran]) (simp add: demo_sys_def sys_start_def)

lemma tasks_owned_once_witness:
  "dom (sy_heap (demo_sys [0 \<mapsto> demo_task] [] {} (Sched_Dispatch 0) [(0, True)] [] Disp_Loop [(1, 1, 1)])) = {0}"
  using tasks_owned_once [OF demo_fired] by (simp add: demo_sys_def sched_hand_def disp_hand_def sys_start_def)

theorem events_fire_when_due_witness:
  "list_all (\<lambda>(i, c, t). c \<le> t) (sy_fired (demo_done [(0, True)])) \<and> sy_fired (demo_done [(0, True)]) = [(1, 1, 1)]"
  using events_fire_when_due [OF demo_ran] by (simp add: demo_done_def demo_sys_def)


lemma dispatcher_fifo_witness:
  "sy_posted (post_task 0 0 7 (sys_start 1)) = [Some 7]
   \<and> taskList (post_task 0 0 7 (sys_start 1)) = [0]"
proof -
  have "sys_reach (post_task 0 0 7 (sys_start 1))"
    by (rule sys_next [OF sys_init _ st_post]) (simp_all add: sys_start_def)
  from dispatcher_fifo [OF this] show ?thesis
    by (simp add: post_task_def addTask_def sys_start_def new_task_def disp_hand_def task_kind_def getEventId_def)
qed

subsection \<open>Races\<close>

lemma steps_before: "sys_step s t \<Longrightarrow> sys_step\<^sup>*\<^sup>* t u \<Longrightarrow> sys_step\<^sup>*\<^sup>* s u"
  by (rule converse_rtranclp_into_rtranclp)

lemma step_notified: "sys_step (demo_done [(0, True)]) (demo_done [(0, False)])"
  by (rule back_subst [where P = "sys_step (demo_done [(0, True)])", OF st_notify [of 0]])
    (simp_all add: sys_start_def demo_sys_def demo_done_def addEvent_notify_def notify_sched_def)

text \<open>C11: \<open>addEvent\<close> can return an identifier read from a deleted task. It releases the mutex before it reads the identifier. There is
  a run in which a thread calls \<open>addEvent\<close> for a task at a free address, the scheduler fires that event and the dispatcher runs and deletes
  the task, all without a fault, and what is left of the call is the return of \<open>addEvent\<close>, which then reads the deleted task: nothing but
  that read is at fault.\<close>

theorem addEvent_use_after_free:
  "\<exists>s t p. sys_reach s \<and> sy_fault s = None \<and> sy_heap s p = None
     \<and> sys_step s (addEvent p 0 5 s) \<and> sys_step\<^sup>*\<^sup>* (addEvent p 0 5 s) t \<and> sys_reach t \<and> sy_fault t = None
     \<and> getEventId (addEvent p 0 5 s) p = 1 \<and> map fst (sy_fired t) = [1] \<and> sy_taken t = [(True, Some 5)]
     \<and> sy_adding t = [(p, False)] \<and> addEvent_return 0 t = (0, t\<lparr>sy_adding := [], sy_fault := Some (Use_After_Free p)\<rparr>)
     \<and> sys_step t (snd (addEvent_return 0 t))"
proof (intro exI conjI)
  let ?s = "sys_start 1" and ?t = "demo_done [(0, False)]"
  show "sys_reach ?s" by (rule sys_init)
  show "sy_fault ?s = None" "sy_heap ?s 0 = None" by (simp_all add: sys_start_def)
  then show "sys_step ?s (addEvent 0 0 5 ?s)" by (intro st_add)
  show "sys_step\<^sup>*\<^sup>* (addEvent 0 0 5 ?s) ?t"
    unfolding demo_added(2) by (intro steps_before [OF step_locked] steps_before [OF step_waiting] steps_before [OF step_timed_out]
      steps_before [OF step_fired] steps_before [OF step_dispatched] steps_before [OF step_disp_locked] steps_before [OF step_taken]
      steps_before [OF step_ran] steps_before [OF step_notified] rtranclp.rtrancl_refl)
  show "sys_reach ?t" by (rule sys_next [OF demo_ran _ step_notified]) (simp add: demo_done_def demo_sys_def sys_start_def)
  show "getEventId (addEvent 0 0 5 ?s) 0 = 1" unfolding demo_added(2) by (simp add: getEventId_def demo_sys_def demo_task_def)
  show "sy_fault ?t = None" "map fst (sy_fired ?t) = [1]" "sy_taken ?t = [(True, Some 5)]" "sy_adding ?t = [(0, False)]"
    by (simp_all add: demo_done_def demo_sys_def sys_start_def)
  show "addEvent_return 0 ?t = (0, ?t\<lparr>sy_adding := [], sy_fault := Some (Use_After_Free 0)\<rparr>)"
    by (simp add: addEvent_return_def demo_done_def demo_sys_def sys_start_def)
  show "sys_step ?t (snd (addEvent_return 0 ?t))"
    by (rule st_return) (simp_all add: demo_done_def demo_sys_def sys_start_def)
qed

text \<open>\<open>shutdown\<close> can make the scheduler thread take the top of an empty queue: the thread has
  timed out and waits for the mutex while \<open>shutdown\<close> holds it and deletes every event.\<close>

lemma shutdown_top_of_empty:
  "\<exists>s. sys_reach s \<and> sy_fault s = Some Top_Of_Empty_Queue"
proof -
  let ?s = "demo_sys [0 \<mapsto> demo_task] [0] {1} (Sched_Woken (Some 1)) [(0, True)] [] Disp_Loop []"
  have 1: "sys_reach (shutdown_state ?s)"
    by (rule sys_next [OF demo_timed_out _ st_shutdown1]) (simp_all add: sys_start_def demo_sys_def)
  have 2: "sys_reach (shutdown_clear (shutdown_state ?s))"
    by (rule sys_next [OF 1 _ st_shutdown2]) (simp_all add: sys_start_def demo_sys_def shutdown_state_def)
  have "sys_reach (sched_locked (Some 1) 0 (shutdown_clear (shutdown_state ?s)))"
    by (rule sys_next [OF 2 _ st_locked])
      (simp_all add: sys_start_def demo_sys_def shutdown_state_def shutdown_clear_def)
  then show ?thesis
    by (intro exI conjI) (assumption, simp add: sched_locked_def shutdown_clear_def)
qed

text \<open>\<open>shutdown\<close> can leave the scheduler thread asleep: the thread reads the state
  before it is set and starts waiting after the only signal was sent, so that the queue is empty,
  shutdown has finished, no signal is on its way, and the thread waits.\<close>

lemma shutdown_lost_wakeup:
  "\<exists>s. sys_reach s \<and> sy_sched_state s = THREAD_STATE_TERMINATED \<and> sy_shutdown_phase s = 3
     \<and> sy_adding s = [] \<and> eventList s = [] \<and> sy_sched_pc s = Sched_Wait"
proof -
  let ?s = "sched_check (sys_start 1)"
  let ?t = "shutdown_notify (shutdown_clear (shutdown_state ?s))"
  have 1: "sys_reach ?s"
    by (rule sys_next [OF sys_init _ st_check]) (simp_all add: sys_start_def)
  have 2: "sys_reach (shutdown_state ?s)"
    by (rule sys_next [OF 1 _ st_shutdown1]) (simp_all add: sys_start_def sched_check_def)
  have 3: "sys_reach (shutdown_clear (shutdown_state ?s))"
    by (rule sys_next [OF 2 _ st_shutdown2]) (simp_all add: sys_start_def sched_check_def shutdown_state_def)
  have 4: "sys_reach ?t"
    by (rule sys_next [OF 3 _ st_shutdown3])
      (simp_all add: sys_start_def sched_check_def shutdown_state_def shutdown_clear_def)
  have "sys_reach (sched_wait 0 ?t)"
    by (rule sys_next [OF 4 _ st_wait])
      (simp_all add: sys_start_def sched_check_def shutdown_state_def shutdown_clear_def shutdown_notify_def notify_sched_def)
  then show ?thesis
    by (intro exI conjI) (assumption, simp_all add: sched_wait_def sys_start_def sched_check_def shutdown_state_def
        shutdown_clear_def shutdown_notify_def notify_sched_def)
qed

end
