(* ===== verification/Party_Model.thy ===== *)
theory Party_Model
  imports Position_Model
begin

section \<open>Parties\<close>

text \<open>
  \<open>party.cpp\<close>, \<open>party.h\<close>, the party functions of \<open>player.cpp\<close> and the party actions of \<open>game.cpp\<close>.
  Parties and players point at each other, so the model has a heap of parties (an address not
  allocated has been deleted) and the players by creature id; \<open>pw_online\<close> are the players that
  exist. What is sent to clients is appended to \<open>pw_out\<close>, in order.

  The Lua handlers \<open>eventPartyOnJoin\<close>, \<open>eventPartyOnLeave\<close> and \<open>eventPartyOnDisband\<close> are
  parameters that decide whether the operation goes on; \<open>OTSYS_TIME\<close> and the configuration value
  \<open>PZ_LOCKED\<close> are parameters as well. \<open>extraExpRate\<close> is kept in hundredths. The level bound of
  \<open>canUseSharedExperience\<close> is computed in single precision in the code; rounding two thirds of a
  level up is exact for levels below \<open>2\<^sup>2\<^sup>2\<close>, where the quotient is further from an integer than
  the rounding error. \<open>shareExperience\<close> (double precision amounts) is not modelled.
\<close>

subsection \<open>State\<close>

record party_player =
  pp_name :: string
  pp_female :: bool
  pp_level :: nat
  pp_position :: Position
  pp_fromVocation :: nat
  pp_notGainInFight :: bool
  pp_infight :: bool
  pp_party :: "nat option"
  invitePartyList :: "nat list"

record Party =
  ticksMap :: "nat \<rightharpoonup> int"
  memberList :: "nat list"
  inviteList :: "nat list"
  pt_leader :: nat
  extraExpRate :: nat
  sharedExpActive :: bool
  sharedExpEnabled :: bool

datatype party_out =
    Text_Message nat string
  | Creature_Shield nat nat
  | Creature_Skull nat nat
  | Close_Private nat
  | Update_Player_Shield nat

record PWorld =
  pw_player :: "nat \<Rightarrow> party_player"
  pw_online :: "nat set"
  pw_party :: "nat \<rightharpoonup> Party"
  pw_out :: "party_out list"

text \<open>The script handlers, the clock and the configuration.\<close>

record party_env =
  onJoin :: "nat \<Rightarrow> nat \<Rightarrow> bool"
  onLeave :: "nat \<Rightarrow> nat \<Rightarrow> bool"
  onDisband :: "nat \<Rightarrow> bool"
  pe_now :: int
  pe_pz_locked :: nat

definition VOCATION_NONE :: nat where "VOCATION_NONE = 0"

definition get_party :: "PWorld \<Rightarrow> nat \<Rightarrow> Party" where
  "get_party w a = the (pw_party w a)"

definition upd_party :: "nat \<Rightarrow> (Party \<Rightarrow> Party) \<Rightarrow> PWorld \<Rightarrow> PWorld" where
  "upd_party a f w = w\<lparr>pw_party := (pw_party w)(a \<mapsto> f (get_party w a))\<rparr>"

definition upd_player :: "nat \<Rightarrow> (party_player \<Rightarrow> party_player) \<Rightarrow> PWorld \<Rightarrow> PWorld" where
  "upd_player p f w = w\<lparr>pw_player := (pw_player w)(p := f (pw_player w p))\<rparr>"

definition send :: "party_out list \<Rightarrow> PWorld \<Rightarrow> PWorld" where
  "send es w = w\<lparr>pw_out := pw_out w @ es\<rparr>"

definition setParty :: "nat \<Rightarrow> nat option \<Rightarrow> PWorld \<Rightarrow> PWorld" where
  "setParty p a w = upd_player p (\<lambda>x. x\<lparr>pp_party := a\<rparr>) w"

subsection \<open>Player\<close>

definition sendPlayerPartyIcons :: "nat \<Rightarrow> nat \<Rightarrow> PWorld \<Rightarrow> PWorld" where
  "sendPlayerPartyIcons viewer p w = send [Creature_Shield viewer p, Creature_Skull viewer p] w"

definition addPartyInvitation :: "nat \<Rightarrow> nat \<Rightarrow> PWorld \<Rightarrow> PWorld" where
  "addPartyInvitation p a w =
     (if a \<in> set (invitePartyList (pw_player w p)) then w
      else upd_player p (\<lambda>x. x\<lparr>invitePartyList := a # invitePartyList x\<rparr>) w)"

definition removePartyInvitation :: "nat \<Rightarrow> nat \<Rightarrow> PWorld \<Rightarrow> PWorld" where
  "removePartyInvitation p a w = upd_player p (\<lambda>x. x\<lparr>invitePartyList := removeAll a (invitePartyList x)\<rparr>) w"

definition isPlayerInvited :: "nat \<Rightarrow> nat \<Rightarrow> PWorld \<Rightarrow> bool" where
  "isPlayerInvited a p w \<longleftrightarrow> p \<in> set (inviteList (get_party w a))"

definition isInviting :: "nat \<Rightarrow> nat \<Rightarrow> PWorld \<Rightarrow> bool" where
  "isInviting p q w =
     (case pp_party (pw_player w p) of
        None \<Rightarrow> False
      | Some a \<Rightarrow> if pt_leader (get_party w a) \<noteq> p then False else isPlayerInvited a q w)"

definition isPartner :: "nat \<Rightarrow> nat \<Rightarrow> PWorld \<Rightarrow> bool" where
  "isPartner p q w =
     (case pp_party (pw_player w p) of None \<Rightarrow> False | Some a \<Rightarrow> pp_party (pw_player w q) = Some a)"

datatype PartyShields = SHIELD_NONE | SHIELD_WHITEYELLOW | SHIELD_WHITEBLUE | SHIELD_BLUE | SHIELD_YELLOW

definition getPartyShield :: "nat \<Rightarrow> nat option \<Rightarrow> PWorld \<Rightarrow> PartyShields" where
  "getPartyShield p other w =
     (case other of
        None \<Rightarrow> SHIELD_NONE
      | Some q \<Rightarrow>
          (case pp_party (pw_player w p) of
             Some a \<Rightarrow>
               if pt_leader (get_party w a) = q then SHIELD_YELLOW
               else if pp_party (pw_player w q) = Some a then SHIELD_BLUE
               else if isInviting p q w then SHIELD_WHITEBLUE
               else if isInviting q p w then SHIELD_WHITEYELLOW
               else SHIELD_NONE
           | None \<Rightarrow> if isInviting q p w then SHIELD_WHITEYELLOW else SHIELD_NONE))"

subsection \<open>Shared experience\<close>

definition canUseSharedExperience :: "party_env \<Rightarrow> nat \<Rightarrow> nat \<Rightarrow> PWorld \<Rightarrow> bool" where
  "canUseSharedExperience e a p w =
     (let P = get_party w a; pl = pw_player w; L = pt_leader P
      in if memberList P = [] then False
         else
           let highestLevel = fold (\<lambda>m h. if pp_level (pl m) > h then pp_level (pl m) else h) (memberList P) (pp_level (pl L));
               minLevel = (highestLevel * 2 + 2) div 3
           in if pp_level (pl p) < minLevel then False
              else if \<not> areInRange3 30 30 1 (pp_position (pl L)) (pp_position (pl p)) then False
              else if \<not> pp_notGainInFight (pl p) then
                (case ticksMap P p of
                   None \<Rightarrow> False
                 | Some t \<Rightarrow> nat ((pe_now e - t) mod 2 ^ 64) \<le> pe_pz_locked e)
              else True)"

definition canEnableSharedExperience :: "party_env \<Rightarrow> nat \<Rightarrow> PWorld \<Rightarrow> bool" where
  "canEnableSharedExperience e a w =
     (canUseSharedExperience e a (pt_leader (get_party w a)) w
      \<and> list_all (\<lambda>m. canUseSharedExperience e a m w) (memberList (get_party w a)))"

definition updateAllPartyIcons :: "nat \<Rightarrow> PWorld \<Rightarrow> PWorld" where
  "updateAllPartyIcons a w =
     (let ms = memberList (get_party w a); L = pt_leader (get_party w a)
      in send (concat (map (\<lambda>m. map (Creature_Shield m) ms @ [Creature_Shield m L, Creature_Shield L m]) ms)
               @ [Creature_Shield L L]) w)"

definition updateSharedExperience :: "party_env \<Rightarrow> nat \<Rightarrow> PWorld \<Rightarrow> PWorld" where
  "updateSharedExperience e a w =
     (if sharedExpActive (get_party w a) then
        let result = canEnableSharedExperience e a w
        in if result \<noteq> sharedExpEnabled (get_party w a)
           then updateAllPartyIcons a (upd_party a (\<lambda>P. P\<lparr>sharedExpEnabled := result\<rparr>) w)
           else w
      else w)"

definition updateVocationsList :: "nat \<Rightarrow> PWorld \<Rightarrow> PWorld" where
  "updateVocationsList a w =
     (let P = get_party w a;
          ids = remdups (filter (\<lambda>v. v \<noteq> VOCATION_NONE)
                  (map (\<lambda>p. pp_fromVocation (pw_player w p)) (pt_leader P # memberList P)));
          sz = length ids
      in upd_party a (\<lambda>P. P\<lparr>extraExpRate := (if sz > 1 then sz * (10 + (sz - 1) * 5) else 20)\<rparr>) w)"

definition setSharedExperience :: "party_env \<Rightarrow> nat \<Rightarrow> nat \<Rightarrow> bool \<Rightarrow> PWorld \<Rightarrow> bool \<times> PWorld" where
  "setSharedExperience e a p act w =
     (if pt_leader (get_party w a) \<noteq> p then (False, w)
      else if sharedExpActive (get_party w a) = act then (True, w)
      else
        let L = pt_leader (get_party w a);
            w = upd_party a (\<lambda>P. P\<lparr>sharedExpActive := act\<rparr>) w;
            w = (if act then
                   let en = canEnableSharedExperience e a w;
                       w = upd_party a (\<lambda>P. P\<lparr>sharedExpEnabled := en\<rparr>) w
                   in if en then send [Text_Message L ''Shared Experience is now active.''] w
                      else send [Text_Message L ''Shared Experience has been activated, but some members of your party are inactive.''] w
                 else send [Text_Message L ''Shared Experience has been deactivated.''] w)
        in (True, updateAllPartyIcons a w))"

definition updatePlayerTicks :: "party_env \<Rightarrow> nat \<Rightarrow> nat \<Rightarrow> nat \<Rightarrow> PWorld \<Rightarrow> PWorld" where
  "updatePlayerTicks e a p points w =
     (if points \<noteq> 0 \<and> \<not> pp_notGainInFight (pw_player w p) then
        updateSharedExperience e a (upd_party a (\<lambda>P. P\<lparr>ticksMap := (ticksMap P)(p \<mapsto> pe_now e)\<rparr>) w)
      else w)"

definition clearPlayerPoints :: "party_env \<Rightarrow> nat \<Rightarrow> nat \<Rightarrow> PWorld \<Rightarrow> PWorld" where
  "clearPlayerPoints e a p w =
     (if ticksMap (get_party w a) p \<noteq> None then
        updateSharedExperience e a (upd_party a (\<lambda>P. P\<lparr>ticksMap := (ticksMap P)(p := None)\<rparr>) w)
      else w)"

definition canOpenCorpse :: "nat \<Rightarrow> nat \<Rightarrow> PWorld \<Rightarrow> bool" where
  "canOpenCorpse a ownerId w =
     (if ownerId \<in> pw_online w then pt_leader (get_party w a) = ownerId \<or> pp_party (pw_player w ownerId) = Some a
      else False)"

subsection \<open>Party\<close>

definition broadcastPartyMessage :: "nat \<Rightarrow> string \<Rightarrow> bool \<Rightarrow> PWorld \<Rightarrow> PWorld" where
  "broadcastPartyMessage a msg sendToInvitations w =
     (let P = get_party w a
      in send (map (\<lambda>m. Text_Message m msg) (memberList P) @ [Text_Message (pt_leader P) msg]
               @ (if sendToInvitations then map (\<lambda>i. Text_Message i msg) (inviteList P) else [])) w)"

definition broadcastPartyLoot :: "nat \<Rightarrow> string \<Rightarrow> PWorld \<Rightarrow> PWorld" where
  "broadcastPartyLoot a loot w =
     (let P = get_party w a
      in send (Text_Message (pt_leader P) loot # map (\<lambda>m. Text_Message m loot) (memberList P)) w)"

definition new_Party :: "nat \<Rightarrow> nat \<Rightarrow> PWorld \<Rightarrow> PWorld" where
  "new_Party a leader w =
     setParty leader (Some a)
       (w\<lparr>pw_party := (pw_party w)(a \<mapsto> \<lparr>ticksMap = Map.empty, memberList = [], inviteList = [], pt_leader = leader,
            extraExpRate = 20, sharedExpActive = False, sharedExpEnabled = False\<rparr>)\<rparr>)"

definition party_empty :: "nat \<Rightarrow> PWorld \<Rightarrow> bool" where
  "party_empty a w \<longleftrightarrow> memberList (get_party w a) = [] \<and> inviteList (get_party w a) = []"

definition disband :: "party_env \<Rightarrow> nat \<Rightarrow> PWorld \<Rightarrow> PWorld" where
  "disband e a w =
     (if \<not> onDisband e a then w
      else
        let P = get_party w a; L = pt_leader P; ms = memberList P;
            w = setParty L None w;
            w = send [Close_Private L, Update_Player_Shield L, Creature_Skull L L,
                      Text_Message L ''Your party has been disbanded.''] w;
            w = fold (\<lambda>i w. send [Creature_Shield L i] (removePartyInvitation i a w)) (inviteList P) w;
            w = fold (\<lambda>m w. send [Close_Private m, Text_Message m ''Your party has been disbanded.'']
                               (setParty m None w)) ms w;
            w = send (concat (map (\<lambda>m. Update_Player_Shield m # map (\<lambda>o'. Creature_Skull o' m) ms
                        @ [Creature_Skull m L, Creature_Skull L m]) ms)) w
        in w\<lparr>pw_party := (pw_party w)(a := None)\<rparr>)"

definition passPartyLeadership :: "party_env \<Rightarrow> nat \<Rightarrow> nat \<Rightarrow> PWorld \<Rightarrow> bool \<times> PWorld" where
  "passPartyLeadership e a p w =
     (if pt_leader (get_party w a) = p \<or> pp_party (pw_player w p) \<noteq> Some a then (False, w)
      else
        let w = upd_party a (\<lambda>P. P\<lparr>memberList := remove1 p (memberList P)\<rparr>) w;
            w = broadcastPartyMessage a (pp_name (pw_player w p) @ '' is now the leader of the party.'') True w;
            oldLeader = pt_leader (get_party w a);
            w = upd_party a (\<lambda>P. P\<lparr>pt_leader := p, memberList := oldLeader # memberList P\<rparr>) w;
            w = updateSharedExperience e a w;
            w = send (concat (map (\<lambda>m. [Creature_Shield m oldLeader, Creature_Shield m p]) (memberList (get_party w a)))
                      @ concat (map (\<lambda>i. [Creature_Shield i oldLeader, Creature_Shield i p]) (inviteList (get_party w a)))
                      @ [Creature_Shield p oldLeader, Creature_Shield p p,
                         Text_Message p ''You are now the leader of the party.'']) w
        in (True, w))"

definition leaveParty :: "party_env \<Rightarrow> nat \<Rightarrow> nat \<Rightarrow> PWorld \<Rightarrow> bool \<times> PWorld" where
  "leaveParty e a p w =
     (if pp_party (pw_player w p) \<noteq> Some a \<and> pt_leader (get_party w a) \<noteq> p then (False, w)
      else if \<not> onLeave e a p then (False, w)
      else
        let P = get_party w a;
            (missingLeader, w) =
              (if pt_leader P = p then
                 (case memberList P of
                    [] \<Rightarrow> (True, w)
                  | m # ms \<Rightarrow> if ms = [] \<and> inviteList P = [] then (True, w)
                              else (False, snd (passPartyLeadership e a m w)))
               else (False, w));
            w = upd_party a (\<lambda>P. P\<lparr>memberList := remove1 p (memberList P)\<rparr>) w;
            w = send [Close_Private p] w;
            w = setParty p None w;
            w = send [Update_Player_Shield p] w;
            w = fold (\<lambda>m w. sendPlayerPartyIcons p m (send [Creature_Skull m p] w)) (memberList (get_party w a)) w;
            L = pt_leader (get_party w a);
            w = send [Creature_Skull L p, Creature_Skull p p] w;
            w = sendPlayerPartyIcons p L w;
            w = send [Text_Message p ''You have left the party.''] w;
            w = updateSharedExperience e a w;
            w = updateVocationsList a w;
            w = clearPlayerPoints e a p w;
            w = broadcastPartyMessage a (pp_name (pw_player w p) @ '' has left the party.'') False w
        in (True, if missingLeader \<or> party_empty a w then disband e a w else w))"

definition joinParty :: "party_env \<Rightarrow> nat \<Rightarrow> nat \<Rightarrow> PWorld \<Rightarrow> bool \<times> PWorld" where
  "joinParty e a p w =
     (if \<not> onJoin e a p then (False, w)
      else if p \<notin> set (inviteList (get_party w a)) then (False, w)
      else
        let w = upd_party a (\<lambda>P. P\<lparr>inviteList := remove1 p (inviteList P)\<rparr>) w;
            w = broadcastPartyMessage a (pp_name (pw_player w p) @ '' has joined the party.'') False w;
            w = setParty p (Some a) w;
            w = send [Update_Player_Shield p] w;
            w = fold (\<lambda>m w. sendPlayerPartyIcons p m (send [Creature_Skull m p] w)) (memberList (get_party w a)) w;
            L = pt_leader (get_party w a);
            w = send [Creature_Skull p p, Creature_Skull L p] w;
            w = sendPlayerPartyIcons p L w;
            w = upd_party a (\<lambda>P. P\<lparr>memberList := memberList P @ [p]\<rparr>) w;
            w = removePartyInvitation p a w;
            w = updateSharedExperience e a w;
            w = updateVocationsList a w;
            leaderName = pp_name (pw_player w L)
        in (True, send [Text_Message p (''You have joined '' @ leaderName @ [CHR 0x27]
              @ (if leaderName \<noteq> [] \<and> last leaderName = CHR ''s'' then '''' else ''s'')
              @ '' party. Open the party channel to communicate with your companions.'')] w))"

definition removeInvite :: "party_env \<Rightarrow> nat \<Rightarrow> nat \<Rightarrow> bool \<Rightarrow> PWorld \<Rightarrow> bool \<times> PWorld" where
  "removeInvite e a p removeFromPlayer w =
     (if p \<notin> set (inviteList (get_party w a)) then (False, w)
      else
        let w = upd_party a (\<lambda>P. P\<lparr>inviteList := remove1 p (inviteList P)\<rparr>) w;
            L = pt_leader (get_party w a);
            w = send [Creature_Shield L p, Creature_Shield p L] w;
            w = (if removeFromPlayer then removePartyInvitation p a w else w)
        in (True, if party_empty a w then disband e a w else w))"

definition revokeInvitation :: "party_env \<Rightarrow> nat \<Rightarrow> nat \<Rightarrow> PWorld \<Rightarrow> PWorld" where
  "revokeInvitation e a p w =
     (let L = pt_leader (get_party w a);
          w = send [Text_Message p (pp_name (pw_player w L) @ '' has revoked ''
                      @ (if pp_female (pw_player w L) then ''her'' else ''his'') @ '' invitation.''),
                    Text_Message L (''Invitation for '' @ pp_name (pw_player w p) @ '' has been revoked.'')] w
      in snd (removeInvite e a p True w))"

definition invitePlayer :: "nat \<Rightarrow> nat \<Rightarrow> PWorld \<Rightarrow> bool \<times> PWorld" where
  "invitePlayer a p w =
     (if isPlayerInvited a p w then (False, w)
      else
        let P = get_party w a; L = pt_leader P;
            first = memberList P = [] \<and> inviteList P = [];
            msg = pp_name (pw_player w p) @ '' has been invited.''
                  @ (if first then '' Open the party channel to communicate with your members.'' else '''');
            w = (if first then send [Update_Player_Shield L, Creature_Skull L L] w else w);
            w = send [Text_Message L msg] w;
            w = upd_party a (\<lambda>P. P\<lparr>inviteList := inviteList P @ [p]\<rparr>) w;
            w = send [Creature_Shield L p, Creature_Shield p L] w;
            w = addPartyInvitation p a w
        in (True, send [Text_Message p (pp_name (pw_player w L) @ '' has invited you to ''
              @ (if pp_female (pw_player w L) then ''her'' else ''his'') @ '' party.'')] w))"

definition clearPartyInvitations :: "party_env \<Rightarrow> nat \<Rightarrow> PWorld \<Rightarrow> PWorld" where
  "clearPartyInvitations e p w =
     upd_player p (\<lambda>x. x\<lparr>invitePartyList := []\<rparr>)
       (fold (\<lambda>a w. snd (removeInvite e a p False w)) (invitePartyList (pw_player w p)) w)"

subsection \<open>Game actions\<close>

text \<open>\<open>new\<close> is the address a new party would get.\<close>

definition playerInviteToParty :: "nat \<Rightarrow> nat \<Rightarrow> nat \<Rightarrow> PWorld \<Rightarrow> PWorld" where
  "playerInviteToParty new p invited w =
     (if p \<notin> pw_online w then w
      else if invited \<notin> pw_online w \<or> isInviting invited p w then w
      else if pp_party (pw_player w invited) \<noteq> None then
        send [Text_Message p (pp_name (pw_player w invited) @ '' is already in a party.'')] w
      else case pp_party (pw_player w p) of
             None \<Rightarrow> snd (invitePlayer new invited (new_Party new p w))
           | Some a \<Rightarrow> if pt_leader (get_party w a) \<noteq> p then w else snd (invitePlayer a invited w))"

definition playerJoinParty :: "party_env \<Rightarrow> nat \<Rightarrow> nat \<Rightarrow> PWorld \<Rightarrow> PWorld" where
  "playerJoinParty e p leader w =
     (if p \<notin> pw_online w then w
      else if leader \<notin> pw_online w \<or> \<not> isInviting leader p w then w
      else case pp_party (pw_player w leader) of
             None \<Rightarrow> w
           | Some a \<Rightarrow>
               if pt_leader (get_party w a) \<noteq> leader then w
               else if pp_party (pw_player w p) \<noteq> None then send [Text_Message p ''You are already in a party.''] w
               else snd (joinParty e a p w))"

definition playerRevokePartyInvitation :: "party_env \<Rightarrow> nat \<Rightarrow> nat \<Rightarrow> PWorld \<Rightarrow> PWorld" where
  "playerRevokePartyInvitation e p invited w =
     (if p \<notin> pw_online w then w
      else case pp_party (pw_player w p) of
             None \<Rightarrow> w
           | Some a \<Rightarrow>
               if pt_leader (get_party w a) \<noteq> p then w
               else if invited \<notin> pw_online w \<or> \<not> isInviting p invited w then w
               else revokeInvitation e a invited w)"

definition playerPassPartyLeadership :: "party_env \<Rightarrow> nat \<Rightarrow> nat \<Rightarrow> PWorld \<Rightarrow> PWorld" where
  "playerPassPartyLeadership e p newLeader w =
     (if p \<notin> pw_online w then w
      else case pp_party (pw_player w p) of
             None \<Rightarrow> w
           | Some a \<Rightarrow>
               if pt_leader (get_party w a) \<noteq> p then w
               else if newLeader \<notin> pw_online w \<or> \<not> isPartner p newLeader w then w
               else snd (passPartyLeadership e a newLeader w))"

definition playerLeaveParty :: "party_env \<Rightarrow> nat \<Rightarrow> PWorld \<Rightarrow> PWorld" where
  "playerLeaveParty e p w =
     (if p \<notin> pw_online w then w
      else case pp_party (pw_player w p) of
             None \<Rightarrow> w
           | Some a \<Rightarrow> if pp_infight (pw_player w p) then w else snd (leaveParty e a p w))"

definition playerEnableSharedPartyExperience :: "party_env \<Rightarrow> nat \<Rightarrow> bool \<Rightarrow> PWorld \<Rightarrow> PWorld" where
  "playerEnableSharedPartyExperience e p act w =
     (if p \<notin> pw_online w then w
      else case pp_party (pw_player w p) of
             None \<Rightarrow> w
           | Some a \<Rightarrow> if pp_infight (pw_player w p) then w else snd (setSharedExperience e a p act w))"

text \<open>What \<open>Player::onRemoveCreature\<close> does to parties when the player leaves the game, and the
  player ceasing to exist.\<close>

definition party_logout :: "party_env \<Rightarrow> nat \<Rightarrow> PWorld \<Rightarrow> PWorld" where
  "party_logout e p w =
     (let w = clearPartyInvitations e p w
      in case pp_party (pw_player w p) of
           None \<Rightarrow> w
         | Some a \<Rightarrow> snd (leaveParty e a p w))"

definition player_gone :: "nat \<Rightarrow> PWorld \<Rightarrow> PWorld" where
  "player_gone p w = w\<lparr>pw_online := pw_online w - {p}\<rparr>"

subsection \<open>What a party is, abstractly\<close>

text \<open>The abstract state: who is online, the party each player is in, the parties that have invited
  each player, and for each party its leader, members and invitees.\<close>

record PCore =
  c_online :: "nat set"
  c_party :: "nat \<Rightarrow> nat option"
  c_invs :: "nat \<Rightarrow> nat list"
  c_parties :: "nat \<rightharpoonup> nat \<times> nat list \<times> nat list"

definition party_view :: "Party \<Rightarrow> nat \<times> nat list \<times> nat list" where
  "party_view P = (pt_leader P, memberList P, inviteList P)"

definition core :: "PWorld \<Rightarrow> PCore" where
  "core w = \<lparr>c_online = pw_online w, c_party = (\<lambda>p. pp_party (pw_player w p)),
     c_invs = (\<lambda>p. invitePartyList (pw_player w p)), c_parties = (\<lambda>a. map_option party_view (pw_party w a))\<rparr>"

lemma core_send [simp]: "core (send es w) = core w"
  by (simp add: core_def send_def)

lemma core_online: "pw_online w = c_online (core w)"
  and core_party: "pp_party (pw_player w p) = c_party (core w) p"
  and core_invs: "invitePartyList (pw_player w p) = c_invs (core w) p"
  by (simp_all add: core_def)

lemma core_get:
  "c_parties (core w) a = Some (L, ms, is) \<Longrightarrow> pt_leader (get_party w a) = L"
  "c_parties (core w) a = Some (L, ms, is) \<Longrightarrow> memberList (get_party w a) = ms"
  "c_parties (core w) a = Some (L, ms, is) \<Longrightarrow> inviteList (get_party w a) = is"
  by (auto simp: core_def get_party_def party_view_def)

lemma core_upd_party:
  "c_parties (core w) a \<noteq> None \<Longrightarrow>
   core (upd_party a f w) = (core w)\<lparr>c_parties := (c_parties (core w))(a \<mapsto> party_view (f (get_party w a)))\<rparr>"
  by (auto simp: core_def upd_party_def get_party_def)

lemma core_upd_party_same:
  "c_parties (core w) a \<noteq> None \<Longrightarrow> (\<And>P. party_view (f P) = party_view P) \<Longrightarrow> core (upd_party a f w) = core w"
  by (auto simp: core_def upd_party_def get_party_def)

lemma core_setParty [simp]: "core (setParty p x w) = (core w)\<lparr>c_party := (c_party (core w))(p := x)\<rparr>"
  by (auto simp: core_def setParty_def upd_player_def)

lemma core_removeInvitation [simp]:
  "core (removePartyInvitation p a w) = (core w)\<lparr>c_invs := (c_invs (core w))(p := removeAll a (c_invs (core w) p))\<rparr>"
  by (auto simp: core_def removePartyInvitation_def upd_player_def)

lemma core_addInvitation:
  "a \<notin> set (c_invs (core w) p) \<Longrightarrow>
   core (addPartyInvitation p a w) = (core w)\<lparr>c_invs := (c_invs (core w))(p := a # c_invs (core w) p)\<rparr>"
  by (auto simp: core_def addPartyInvitation_def upd_player_def)

lemma core_delete:
  "core (w\<lparr>pw_party := (pw_party w)(a := None)\<rparr>) = (core w)\<lparr>c_parties := (c_parties (core w))(a := None)\<rparr>"
  by (auto simp: core_def)

text \<open>Shared experience, vocations, ticks and broadcasts leave the core alone.\<close>

lemma core_updateShared [simp]:
  assumes "c_parties (core w) a \<noteq> None"
  shows "core (updateSharedExperience e a w) = core w"
proof -
  have "core (upd_party a (\<lambda>P. P\<lparr>sharedExpEnabled := r\<rparr>) w) = core w" for r
    by (rule core_upd_party_same [OF assms]) (simp add: party_view_def)
  then show ?thesis
    by (simp add: updateSharedExperience_def updateAllPartyIcons_def Let_def)
qed

lemma core_updateVocations [simp]:
  "c_parties (core w) a \<noteq> None \<Longrightarrow> core (updateVocationsList a w) = core w"
  unfolding updateVocationsList_def Let_def by (erule core_upd_party_same) (simp add: party_view_def)

lemma core_ticks:
  "c_parties (core w) a \<noteq> None \<Longrightarrow> core (upd_party a (\<lambda>P. P\<lparr>ticksMap := t P\<rparr>) w) = core w"
  by (erule core_upd_party_same) (simp add: party_view_def)

lemma core_clearPoints [simp]: "c_parties (core w) a \<noteq> None \<Longrightarrow> core (clearPlayerPoints e a p w) = core w"
  using core_ticks [of w a] by (simp add: clearPlayerPoints_def)

lemma core_playerTicks [simp]: "c_parties (core w) a \<noteq> None \<Longrightarrow> core (updatePlayerTicks e a p n w) = core w"
  using core_ticks [of w a] by (simp add: updatePlayerTicks_def)

lemma core_broadcast [simp]: "core (broadcastPartyMessage a msg x w) = core w"
  by (simp add: broadcastPartyMessage_def Let_def)

lemma core_icons [simp]: "core (sendPlayerPartyIcons p q w) = core w"
  by (simp add: sendPlayerPartyIcons_def)

lemma core_fold_icons [simp]:
  "core (fold (\<lambda>m w. sendPlayerPartyIcons p m (send [Creature_Skull m p] w)) ms w) = core w"
  by (induction ms arbitrary: w) simp_all

lemma core_flags:
  "c_parties (core w) a \<noteq> None \<Longrightarrow> core (upd_party a (\<lambda>P. P\<lparr>sharedExpActive := x\<rparr>) w) = core w"
  "c_parties (core w) a \<noteq> None \<Longrightarrow> core (upd_party a (\<lambda>P. P\<lparr>sharedExpEnabled := x\<rparr>) w) = core w"
  by (erule core_upd_party_same; simp add: party_view_def)+

lemma core_setShared [simp]:
  "c_parties (core w) a \<noteq> None \<Longrightarrow> core (snd (setSharedExperience e a p act w)) = core w"
  by (simp add: setSharedExperience_def updateAllPartyIcons_def Let_def core_flags)

subsection \<open>The abstract operations\<close>

definition c_disband :: "nat \<Rightarrow> PCore \<Rightarrow> PCore" where
  "c_disband a c =
     (case c_parties c a of
        None \<Rightarrow> c
      | Some (L, ms, is) \<Rightarrow>
          c\<lparr>c_party := (\<lambda>p. if p \<in> set (L # ms) then None else c_party c p),
            c_invs := (\<lambda>p. if p \<in> set is then removeAll a (c_invs c p) else c_invs c p),
            c_parties := (c_parties c)(a := None)\<rparr>)"

lemma core_fold_invites:
  "core (fold (\<lambda>i w. send [Creature_Shield L i] (removePartyInvitation i a w)) is w) =
   (core w)\<lparr>c_invs := (\<lambda>p. if p \<in> set is then removeAll a (c_invs (core w) p) else c_invs (core w) p)\<rparr>"
  by (induction "is" arbitrary: w) (auto simp: fun_eq_iff)

lemma core_fold_members:
  "core (fold (\<lambda>m w. send [Close_Private m, Text_Message m msg] (setParty m None w)) ms w) =
   (core w)\<lparr>c_party := (\<lambda>p. if p \<in> set ms then None else c_party (core w) p)\<rparr>"
  by (induction ms arbitrary: w) (auto simp: fun_eq_iff)

lemma core_disband:
  assumes "onDisband e a" "c_parties (core w) a = Some (L, ms, is)"
  shows "core (disband e a w) = c_disband a (core w)"
  using assms(1) core_get [OF assms(2)]
  by (simp add: disband_def Let_def core_delete core_fold_invites core_fold_members c_disband_def assms(2) fun_eq_iff)

text \<open>Leaving: the leader hands over to the first member, unless nobody but one member is left, or
  nobody at all; the last one leaving dissolves the party.\<close>

definition c_leave :: "nat \<Rightarrow> nat \<Rightarrow> PCore \<Rightarrow> PCore" where
  "c_leave a p c =
     (case c_parties c a of
        None \<Rightarrow> c
      | Some (L, ms, is) \<Rightarrow>
          if p = L then
            (if length ms + length is \<le> 1 \<or> ms = [] then c_disband a c
             else c\<lparr>c_party := (c_party c)(p := None), c_parties := (c_parties c)(a \<mapsto> (hd ms, tl ms, is))\<rparr>)
          else if p \<in> set ms then
            (if ms = [p] \<and> is = [] then c_disband a c
             else c\<lparr>c_party := (c_party c)(p := None), c_parties := (c_parties c)(a \<mapsto> (L, remove1 p ms, is))\<rparr>)
          else c)"

definition c_pass :: "nat \<Rightarrow> nat \<Rightarrow> PCore \<Rightarrow> PCore" where
  "c_pass a p c =
     (case c_parties c a of
        None \<Rightarrow> c
      | Some (L, ms, is) \<Rightarrow>
          if p \<noteq> L \<and> c_party c p = Some a then c\<lparr>c_parties := (c_parties c)(a \<mapsto> (p, L # remove1 p ms, is))\<rparr> else c)"

definition c_join :: "nat \<Rightarrow> nat \<Rightarrow> PCore \<Rightarrow> PCore" where
  "c_join a p c =
     (case c_parties c a of
        None \<Rightarrow> c
      | Some (L, ms, is) \<Rightarrow>
          if p \<in> set is then
            c\<lparr>c_party := (c_party c)(p := Some a), c_invs := (c_invs c)(p := removeAll a (c_invs c p)),
              c_parties := (c_parties c)(a \<mapsto> (L, ms @ [p], remove1 p is))\<rparr>
          else c)"

definition c_removeInvite :: "bool \<Rightarrow> nat \<Rightarrow> nat \<Rightarrow> PCore \<Rightarrow> PCore" where
  "c_removeInvite rm a p c =
     (case c_parties c a of
        None \<Rightarrow> c
      | Some (L, ms, is) \<Rightarrow>
          if p \<in> set is then
            let c = c\<lparr>c_invs := (if rm then (c_invs c)(p := removeAll a (c_invs c p)) else c_invs c),
                      c_parties := (c_parties c)(a \<mapsto> (L, ms, remove1 p is))\<rparr>
            in if ms = [] \<and> remove1 p is = [] then c_disband a c else c
          else c)"

definition c_invite :: "nat \<Rightarrow> nat \<Rightarrow> PCore \<Rightarrow> PCore" where
  "c_invite a p c =
     (case c_parties c a of
        None \<Rightarrow> c
      | Some (L, ms, is) \<Rightarrow>
          if p \<in> set is then c
          else c\<lparr>c_invs := (c_invs c)(p := a # c_invs c p), c_parties := (c_parties c)(a \<mapsto> (L, ms, is @ [p]))\<rparr>)"

lemma core_pass:
  assumes "c_parties (core w) a = Some (L, ms, is)"
  shows "core (snd (passPartyLeadership e a p w)) = c_pass a p (core w)"
proof -
  have a: "c_parties (core w) a \<noteq> None" using assms by simp
  define w1 where "w1 = upd_party a (\<lambda>P. P\<lparr>memberList := remove1 p (memberList P)\<rparr>) w"
  have w1: "core w1 = (core w)\<lparr>c_parties := (c_parties (core w))(a \<mapsto> (L, remove1 p ms, is))\<rparr>"
    unfolding w1_def core_upd_party [OF a] by (simp add: party_view_def core_get [OF assms])
  define w2 where "w2 = broadcastPartyMessage a (pp_name (pw_player w1 p) @ '' is now the leader of the party.'') True w1"
  have g: "c_parties (core w2) a = Some (L, remove1 p ms, is)" by (simp add: w2_def w1)
  define w3 where "w3 = upd_party a (\<lambda>P. P\<lparr>pt_leader := p, memberList := L # memberList P\<rparr>) w2"
  have "core w3 = (core w2)\<lparr>c_parties := (c_parties (core w2))(a \<mapsto> (p, L # remove1 p ms, is))\<rparr>"
    unfolding w3_def using g by (simp add: core_upd_party party_view_def core_get [OF g])
  then have w3: "core w3 = (core w)\<lparr>c_parties := (c_parties (core w))(a \<mapsto> (p, L # remove1 p ms, is))\<rparr>"
    by (simp add: w2_def w1)
  show ?thesis
    using w3 unfolding passPartyLeadership_def Let_def w1_def [symmetric] w2_def [symmetric] core_get(1) [OF g]
      w3_def [symmetric]
    by (simp add: c_pass_def assms core_get [OF assms] core_party eq_commute [of L p])
qed

lemma core_join:
  assumes "c_parties (core w) a = Some (L, ms, is)" "onJoin e a p"
  shows "core (snd (joinParty e a p w)) = c_join a p (core w)"
proof (cases "p \<in> set is")
  case True
  have a: "c_parties (core w) a \<noteq> None" using assms by simp
  define w1 where "w1 = upd_party a (\<lambda>P. P\<lparr>inviteList := remove1 p (inviteList P)\<rparr>) w"
  have w1: "core w1 = (core w)\<lparr>c_parties := (c_parties (core w))(a \<mapsto> (L, ms, remove1 p is))\<rparr>"
    unfolding w1_def core_upd_party [OF a] by (simp add: party_view_def core_get [OF assms(1)])
  define w2 where "w2 = setParty p (Some a) (broadcastPartyMessage a (pp_name (pw_player w1 p) @ '' has joined the party.'') False w1)"
  have w2: "core w2 = (core w1)\<lparr>c_party := (c_party (core w1))(p := Some a)\<rparr>" by (simp add: w2_def)
  have g: "c_parties (core w2) a = Some (L, ms, remove1 p is)" by (simp add: w2 w1)
  define w3 where "w3 = fold (\<lambda>m w. sendPlayerPartyIcons p m (send [Creature_Skull m p] w))
    (memberList (get_party (send [Update_Player_Shield p] w2) a)) (send [Update_Player_Shield p] w2)"
  have w3: "core w3 = core w2" by (simp add: w3_def)
  define w4 where "w4 = sendPlayerPartyIcons p (pt_leader (get_party w3 a))
     (send [Creature_Skull p p, Creature_Skull (pt_leader (get_party w3 a)) p] w3)"
  have w4: "core w4 = core w2" by (simp add: w4_def w3)
  have g4: "c_parties (core w4) a = Some (L, ms, remove1 p is)" by (simp add: w4 g)
  have w5: "core (upd_party a (\<lambda>P. P\<lparr>memberList := memberList P @ [p]\<rparr>) w4) =
      (core w4)\<lparr>c_parties := (c_parties (core w4))(a \<mapsto> (L, ms @ [p], remove1 p is))\<rparr>"
    using g4 by (simp add: core_upd_party party_view_def core_get [OF g4])
  show ?thesis
    unfolding joinParty_def Let_def w1_def [symmetric] w2_def [symmetric] w3_def [symmetric] w4_def [symmetric]
    using True assms(2) by (simp add: core_get [OF assms(1)] c_join_def assms(1) w5 w4 w2 w1)
next
  case False
  then show ?thesis
    using assms(2) by (simp add: joinParty_def core_get [OF assms(1)] c_join_def assms(1))
qed

lemma core_invite:
  assumes "c_parties (core w) a = Some (L, ms, is)" "p \<notin> set is \<longrightarrow> a \<notin> set (c_invs (core w) p)"
  shows "core (snd (invitePlayer a p w)) = c_invite a p (core w)"
proof (cases "p \<in> set is")
  case True
  then show ?thesis
    by (simp add: invitePlayer_def isPlayerInvited_def core_get [OF assms(1)] c_invite_def assms(1))
next
  case False
  have inv: "core (addPartyInvitation p a (send es' (upd_party a (\<lambda>P. P\<lparr>inviteList := inviteList P @ [p]\<rparr>) v))) =
      (core v)\<lparr>c_parties := (c_parties (core v))(a \<mapsto> (L, ms, is @ [p])),
        c_invs := (c_invs (core v))(p := a # c_invs (core v) p)\<rparr>"
    if "core v = core w" for v es'
  proof -
    have g: "c_parties (core v) a = Some (L, ms, is)" using that assms(1) by simp
    have u: "core (upd_party a (\<lambda>P. P\<lparr>inviteList := inviteList P @ [p]\<rparr>) v) =
        (core v)\<lparr>c_parties := (c_parties (core v))(a \<mapsto> (L, ms, is @ [p]))\<rparr>"
      using g by (simp add: core_upd_party party_view_def core_get [OF g])
    then show ?thesis using assms(2) False that by (simp add: core_addInvitation)
  qed
  show ?thesis
    using False by (simp add: invitePlayer_def isPlayerInvited_def core_get [OF assms(1)] Let_def inv c_invite_def assms(1))
qed

lemma core_removeInvite:
  assumes "c_parties (core w) a = Some (L, ms, is)" "onDisband e a"
  shows "core (snd (removeInvite e a p rm w)) = c_removeInvite rm a p (core w)"
proof (cases "p \<in> set is")
  case True
  define w1 where "w1 = upd_party a (\<lambda>P. P\<lparr>inviteList := remove1 p (inviteList P)\<rparr>) w"
  have w1: "core w1 = (core w)\<lparr>c_parties := (c_parties (core w))(a \<mapsto> (L, ms, remove1 p is))\<rparr>"
    using assms(1) by (simp add: w1_def core_upd_party party_view_def core_get [OF assms(1)])
  define w2 where "w2 = send [Creature_Shield (pt_leader (get_party w1 a)) p, Creature_Shield p (pt_leader (get_party w1 a))] w1"
  define w3 where "w3 = (if rm then removePartyInvitation p a w2 else w2)"
  have w3: "core w3 = (core w)\<lparr>c_invs := (if rm then (c_invs (core w))(p := removeAll a (c_invs (core w) p)) else c_invs (core w)),
      c_parties := (c_parties (core w))(a \<mapsto> (L, ms, remove1 p is))\<rparr>"
    by (simp add: w3_def w2_def w1)
  then have g: "c_parties (core w3) a = Some (L, ms, remove1 p is)" by simp
  show ?thesis
    unfolding removeInvite_def Let_def w1_def [symmetric] w2_def [symmetric] w3_def [symmetric]
    using True by (simp add: party_empty_def core_get [OF assms(1)] core_get [OF g] core_disband [OF assms(2) g]
        c_removeInvite_def assms(1) w3 Let_def)
next
  case False
  then show ?thesis
    by (simp add: removeInvite_def core_get [OF assms(1)] c_removeInvite_def assms(1))
qed

text \<open>\<open>leaveParty\<close> in two parts: what happens to the leadership, and the departure.\<close>

definition leave_handover :: "party_env \<Rightarrow> nat \<Rightarrow> nat \<Rightarrow> PWorld \<Rightarrow> bool \<times> PWorld" where
  "leave_handover e a p w =
     (let P = get_party w a
      in if pt_leader P = p then
           (case memberList P of
              [] \<Rightarrow> (True, w)
            | m # ms \<Rightarrow> if ms = [] \<and> inviteList P = [] then (True, w)
                        else (False, snd (passPartyLeadership e a m w)))
         else (False, w))"

definition leave_depart :: "party_env \<Rightarrow> nat \<Rightarrow> nat \<Rightarrow> PWorld \<Rightarrow> PWorld" where
  "leave_depart e a p w =
     (let w = upd_party a (\<lambda>P. P\<lparr>memberList := remove1 p (memberList P)\<rparr>) w;
          w = send [Close_Private p] w;
          w = setParty p None w;
          w = send [Update_Player_Shield p] w;
          w = fold (\<lambda>m w. sendPlayerPartyIcons p m (send [Creature_Skull m p] w)) (memberList (get_party w a)) w;
          L = pt_leader (get_party w a);
          w = send [Creature_Skull L p, Creature_Skull p p] w;
          w = sendPlayerPartyIcons p L w;
          w = send [Text_Message p ''You have left the party.''] w;
          w = updateSharedExperience e a w;
          w = updateVocationsList a w;
          w = clearPlayerPoints e a p w
      in broadcastPartyMessage a (pp_name (pw_player w p) @ '' has left the party.'') False w)"

lemma leaveParty_parts:
  assumes "pp_party (pw_player w p) = Some a" "onLeave e a p"
  shows "leaveParty e a p w =
    (let (missingLeader, w) = leave_handover e a p w; w = leave_depart e a p w
     in (True, if missingLeader \<or> party_empty a w then disband e a w else w))"
  using assms by (simp add: leaveParty_def leave_handover_def leave_depart_def Let_def split_beta)

lemma core_depart:
  assumes "c_parties (core w) a = Some (L, ms, is)"
  shows "core (leave_depart e a p w) =
    (core w)\<lparr>c_party := (c_party (core w))(p := None), c_parties := (c_parties (core w))(a \<mapsto> (L, remove1 p ms, is))\<rparr>"
proof -
  have "core (upd_party a (\<lambda>P. P\<lparr>memberList := remove1 p (memberList P)\<rparr>) w) =
      (core w)\<lparr>c_parties := (c_parties (core w))(a \<mapsto> (L, remove1 p ms, is))\<rparr>"
    using assms by (simp add: core_upd_party party_view_def core_get [OF assms])
  then show ?thesis by (simp add: leave_depart_def Let_def)
qed

subsection \<open>The invariant\<close>

text \<open>Players and parties agree on who is in which party and who is invited, a party is nobody's
  twice, and an existing party has somebody in it besides its leader, or somebody invited.\<close>

definition c_links :: "PCore \<Rightarrow> bool" where
  "c_links c \<longleftrightarrow>
     (\<forall>a L ms is. c_parties c a = Some (L, ms, is) \<longrightarrow>
        distinct (L # ms) \<and> distinct is \<and> (\<forall>p\<in>set (L # ms). c_party c p = Some a))
   \<and> (\<forall>p a. c_party c p = Some a \<longrightarrow> (\<exists>L ms is. c_parties c a = Some (L, ms, is) \<and> p \<in> set (L # ms)))
   \<and> (\<forall>p a. a \<in> set (c_invs c p) \<longleftrightarrow> (\<exists>L ms is. c_parties c a = Some (L, ms, is) \<and> p \<in> set is))
   \<and> (\<forall>p. c_party c p \<noteq> None \<or> c_invs c p \<noteq> [] \<longrightarrow> p \<in> c_online c)"

definition c_nonempty :: "PCore \<Rightarrow> bool" where
  "c_nonempty c \<longleftrightarrow> (\<forall>a L ms is. c_parties c a = Some (L, ms, is) \<longrightarrow> ms \<noteq> [] \<or> is \<noteq> [])"

lemma c_linksD:
  assumes "c_links c"
  shows "c_parties c a = Some (L, ms, is) \<Longrightarrow> distinct (L # ms) \<and> distinct is \<and> (\<forall>p\<in>set (L # ms). c_party c p = Some a)"
    "c_party c p = Some a \<Longrightarrow> \<exists>L ms is. c_parties c a = Some (L, ms, is) \<and> p \<in> set (L # ms)"
    "a \<in> set (c_invs c p) \<longleftrightarrow> (\<exists>L ms is. c_parties c a = Some (L, ms, is) \<and> p \<in> set is)"
    "c_party c p \<noteq> None \<or> c_invs c p \<noteq> [] \<Longrightarrow> p \<in> c_online c"
  using assms unfolding c_links_def by blast+

lemma links_disband:
  assumes "c_links c"
  shows "c_links (c_disband a c)"
proof (cases "c_parties c a")
  case None
  then show ?thesis using assms by (simp add: c_disband_def)
next
  case (Some v)
  obtain L ms "is" where v: "v = (L, ms, is)" by (cases v)
  then have P: "c_parties c a = Some (L, ms, is)" using Some by simp
  have other: "c_party c p \<noteq> Some a" if "p \<notin> set (L # ms)" for p
    using c_linksD(2) [OF assms, of p a] P that by auto
  have party: "c_party (c_disband a c) p = (if p \<in> set (L # ms) then None else c_party c p)"
    "c_parties (c_disband a c) = (c_parties c)(a := None)" "c_online (c_disband a c) = c_online c"
    "c_invs (c_disband a c) p = (if p \<in> set is then removeAll a (c_invs c p) else c_invs c p)" for p
    by (simp_all add: c_disband_def P)
  have inv: "set (c_invs (c_disband a c) p) = set (c_invs c p) - {a}" for p
    using c_linksD(3) [OF assms, of a p] P by (auto simp: party)
  have ne: "c_invs (c_disband a c) p \<noteq> [] \<Longrightarrow> c_invs c p \<noteq> []" for p
    by (auto simp: party split: if_splits)
  show ?thesis
    unfolding c_links_def
  proof (intro conjI allI impI)
    fix b M ns js assume "c_parties (c_disband a c) b = Some (M, ns, js)"
    then have b: "b \<noteq> a" "c_parties c b = Some (M, ns, js)" by (auto simp: party split: if_splits)
    from c_linksD(1) [OF assms b(2)] show "distinct (M # ns)" "distinct js" by auto
    have "p \<notin> set (L # ms)" if "p \<in> set (M # ns)" for p
      using c_linksD(1) [OF assms b(2)] c_linksD(1) [OF assms P] b(1) that by (metis option.inject)
    then show "\<forall>p\<in>set (M # ns). c_party (c_disband a c) p = Some b"
      using c_linksD(1) [OF assms b(2)] by (simp add: party)
  next
    fix p b assume "c_party (c_disband a c) p = Some b"
    then have p: "p \<notin> set (L # ms)" "c_party c p = Some b" by (auto simp: party split: if_splits)
    then have "b \<noteq> a" using other by blast
    then show "\<exists>L ms is. c_parties (c_disband a c) b = Some (L, ms, is) \<and> p \<in> set (L # ms)"
      using c_linksD(2) [OF assms p(2)] by (simp add: party)
  next
    fix p b
    show "b \<in> set (c_invs (c_disband a c) p) \<longleftrightarrow> (\<exists>L ms is. c_parties (c_disband a c) b = Some (L, ms, is) \<and> p \<in> set is)"
      using c_linksD(3) [OF assms, of b p] unfolding inv by (auto simp: party(2))
  next
    fix p assume "c_party (c_disband a c) p \<noteq> None \<or> c_invs (c_disband a c) p \<noteq> []"
    then have "c_party c p \<noteq> None \<or> c_invs c p \<noteq> []" using ne by (auto simp: party split: if_splits)
    then show "p \<in> c_online (c_disband a c)" using c_linksD(4) [OF assms] by (simp add: party)
  qed
qed

lemma nonempty_disband: "c_nonempty c \<Longrightarrow> c_nonempty (c_disband a c)"
  by (auto simp: c_nonempty_def c_disband_def split: option.splits if_splits)

text \<open>Every other operation rewrites one party \<open>a\<close>; the links hold afterwards if the pointers of
  the players follow the new lists.\<close>

lemma links_update:
  assumes links: "c_links c"
    and dist: "distinct (L # ms)" "distinct iv"
    and party: "\<And>p. c_party c' p = (if p \<in> set (L # ms) then Some a else if c_party c p = Some a then None else c_party c p)"
    and free: "\<And>p. p \<in> set (L # ms) \<Longrightarrow> c_party c p = None \<or> c_party c p = Some a"
    and invs: "\<And>p. set (c_invs c' p) = (if p \<in> set iv then insert a (set (c_invs c p)) else set (c_invs c p) - {a})"
    and online: "c_online c' = c_online c" "set (L # ms) \<union> set iv \<subseteq> c_online c"
    and parties: "c_parties c' = (c_parties c)(a \<mapsto> (L, ms, iv))"
  shows "c_links c'"
  unfolding c_links_def
proof (intro conjI allI impI)
  fix b M ns js assume b: "c_parties c' b = Some (M, ns, js)"
  show "distinct (M # ns)" "distinct js"
    using b dist c_linksD(1) [OF links, of b M ns js] by (auto simp: parties split: if_splits)
  show "\<forall>p\<in>set (M # ns). c_party c' p = Some b"
  proof (cases "b = a")
    case True
    then show ?thesis using b by (auto simp: parties party)
  next
    case False
    then have "c_parties c b = Some (M, ns, js)" using b by (simp add: parties)
    from c_linksD(1) [OF links this] have "\<forall>p\<in>set (M # ns). c_party c p = Some b" by blast
    then show ?thesis using False free party by (metis option.inject option.distinct(1))
  qed
next
  fix p b assume pb: "c_party c' p = Some b"
  show "\<exists>L ms is. c_parties c' b = Some (L, ms, is) \<and> p \<in> set (L # ms)"
  proof (cases "p \<in> set (L # ms)")
    case True
    then show ?thesis using pb by (auto simp: parties party)
  next
    case False
    then have "c_party c p = Some b" "b \<noteq> a" using pb party [of p] by (auto split: if_splits)
    then show ?thesis using c_linksD(2) [OF links, of p b] by (simp add: parties)
  qed
next
  fix p b
  show "b \<in> set (c_invs c' p) \<longleftrightarrow> (\<exists>L ms is. c_parties c' b = Some (L, ms, is) \<and> p \<in> set is)"
    using c_linksD(3) [OF links, of b p] by (cases "b = a") (auto simp: parties invs split: if_splits)
next
  fix p assume "c_party c' p \<noteq> None \<or> c_invs c' p \<noteq> []"
  then have "p \<in> set (L # ms) \<or> p \<in> set iv \<or> c_party c p \<noteq> None \<or> c_invs c p \<noteq> []"
    using party [of p] invs [of p] by (auto split: if_splits)
  then show "p \<in> c_online c'" using c_linksD(4) [OF links, of p] online by blast
qed

lemma nonempty_update:
  "c_nonempty c \<Longrightarrow> ms \<noteq> [] \<or> is \<noteq> [] \<Longrightarrow> c_parties c' = (c_parties c)(a \<mapsto> (L, ms, is)) \<Longrightarrow> c_nonempty c'"
  by (auto simp: c_nonempty_def)

lemma links_online:
  assumes "c_links c" "c_parties c a = Some (L, ms, is)"
  shows "set (L # ms) \<union> set is \<subseteq> c_online c"
proof
  fix p assume "p \<in> set (L # ms) \<union> set is"
  then consider "p \<in> set (L # ms)" | "p \<in> set is" by blast
  then show "p \<in> c_online c"
  proof cases
    case 1
    then show ?thesis using c_linksD(1) [OF assms] c_linksD(4) [OF assms(1), of p] by auto
  next
    case 2
    then have "a \<in> set (c_invs c p)" using c_linksD(3) [OF assms(1)] assms(2) by blast
    then show ?thesis using c_linksD(4) [OF assms(1), of p] by force
  qed
qed

lemma links_mem:
  assumes "c_links c" "c_parties c a = Some (L, ms, is)"
  shows "c_party c p = Some a \<longleftrightarrow> p \<in> set (L # ms)"
    "a \<in> set (c_invs c p) \<longleftrightarrow> p \<in> set is"
  using c_linksD(1) [OF assms] c_linksD(2) [OF assms(1), of p a] c_linksD(3) [OF assms(1), of a p] assms(2) by auto

lemma inv_pass:
  assumes "c_links c" "c_nonempty c"
  shows "c_links (c_pass a p c)" "c_nonempty (c_pass a p c)"
proof -
  show "c_links (c_pass a p c)"
  proof (cases "\<exists>L ms is. c_parties c a = Some (L, ms, is) \<and> p \<noteq> L \<and> c_party c p = Some a")
    case True
    then obtain L ms "is" where P: "c_parties c a = Some (L, ms, is)" and p: "p \<noteq> L" "c_party c p = Some a" by blast
    note mem = links_mem [OF assms(1) P] and on = links_online [OF assms(1) P]
    have d: "distinct (L # ms)" "distinct is" using c_linksD(1) [OF assms(1) P] by auto
    have pm: "p \<in> set ms" using p mem by simp
    then have st: "set (p # L # remove1 p ms) = set (L # ms)" using d by auto
    show ?thesis
    proof (rule links_update [OF assms(1), where L = p and ms = "L # remove1 p ms" and a = a])
      show "distinct (p # L # remove1 p ms)" using d pm p(1) by (auto dest: set_remove1_subset [THEN subsetD])
      show "set (p # L # remove1 p ms) \<union> set is \<subseteq> c_online (c)" using on unfolding st .
      show "c_party (c_pass a p c) q = (if q \<in> set (p # L # remove1 p ms) then Some a
          else if c_party c q = Some a then None else c_party c q)" for q
        unfolding st using mem(1) [of q] P p by (simp add: c_pass_def)
      show "c_party c q = None \<or> c_party c q = Some a" if "q \<in> set (p # L # remove1 p ms)" for q
        using that mem(1) [of q] unfolding st by blast
      show "set (c_invs (c_pass a p c) q) = (if q \<in> set is then insert a (set (c_invs c q)) else set (c_invs c q) - {a})" for q
        using mem(2) [of q] P p by (auto simp: c_pass_def)
    qed (use P p d in \<open>simp_all add: c_pass_def\<close>)
  next
    case False
    then have "c_pass a p c = c" by (auto simp: c_pass_def split: option.split)
    then show ?thesis using assms by simp
  qed
  show "c_nonempty (c_pass a p c)"
    using assms(2) by (auto simp: c_nonempty_def c_pass_def split: option.split if_splits)
qed

lemma inv_leave:
  assumes "c_links c" "c_nonempty c"
  shows "c_links (c_leave a p c)" "c_nonempty (c_leave a p c)"
proof -
  have "c_links (c_leave a p c) \<and> c_nonempty (c_leave a p c)"
  proof (cases "c_parties c a")
    case None
    then show ?thesis using assms by (simp add: c_leave_def)
  next
    case (Some v)
    then obtain L ms "is" where P: "c_parties c a = Some (L, ms, is)" by (cases v) auto
    note mem = links_mem [OF assms(1) P] and on = links_online [OF assms(1) P]
    have d: "distinct (L # ms)" "distinct is" using c_linksD(1) [OF assms(1) P] by auto
    have go: "c_links c' \<and> c_nonempty c'"
      if c': "c' = c\<lparr>c_party := (c_party c)(p := None), c_parties := (c_parties c)(a \<mapsto> (L', ms', is))\<rparr>"
        and st: "set (L' # ms') = set (L # ms) - {p}" "distinct (L' # ms')" "p \<in> set (L # ms)" "ms' \<noteq> [] \<or> is \<noteq> []"
      for c' L' ms'
    proof
      show "c_links c'"
      proof (rule links_update [OF assms(1), where L = L' and ms = ms' and a = a])
        show "c_party c' q = (if q \<in> set (L' # ms') then Some a else if c_party c q = Some a then None else c_party c q)" for q
          unfolding st(1) using mem(1) [of q] st(3) mem(1) [of p] by (auto simp: c')
        show "c_party c q = None \<or> c_party c q = Some a" if "q \<in> set (L' # ms')" for q
          using that mem(1) [of q] unfolding st(1) by blast
        show "set (c_invs c' q) = (if q \<in> set is then insert a (set (c_invs c q)) else set (c_invs c q) - {a})" for q
          using mem(2) [of q] by (auto simp: c')
        show "set (L' # ms') \<union> set is \<subseteq> c_online c" using on unfolding st(1) by blast
      qed (use st d in \<open>simp_all add: c'\<close>)
      show "c_nonempty c'" by (rule nonempty_update [OF assms(2) st(4)]) (simp add: c')
    qed
    consider (lead) "p = L" "length ms + length is > 1" "ms \<noteq> []"
      | (dis) "p = L" "length ms + length is \<le> 1 \<or> ms = []" | (dis2) "p \<noteq> L" "ms = [p] \<and> is = []"
      | (mem) "p \<noteq> L" "p \<in> set ms" "\<not> (ms = [p] \<and> is = [])" | (none) "p \<noteq> L" "p \<notin> set ms"
      by linarith
    then show ?thesis
    proof cases
      case lead
      then obtain m ms' where ms: "ms = m # ms'" by (cases ms) auto
      show ?thesis
        by (rule go [of _ m ms']) (use lead ms d P in \<open>auto simp: c_leave_def\<close>)
    next
      case dis
      then have "c_leave a p c = c_disband a c" by (simp add: c_leave_def P)
      then show ?thesis using links_disband nonempty_disband assms by simp
    next
      case dis2
      then have "c_leave a p c = c_disband a c" by (simp add: c_leave_def P)
      then show ?thesis using links_disband nonempty_disband assms by simp
    next
      case mem
      have "remove1 p ms \<noteq> [] \<or> is \<noteq> []"
        using mem(2,3) by (cases ms) auto
      then show ?thesis
        by (intro go [of _ L "remove1 p ms"]) (use mem d P in \<open>auto simp: c_leave_def\<close>)
    next
      case none
      then show ?thesis using assms by (simp add: c_leave_def P)
    qed
  qed
  then show "c_links (c_leave a p c)" "c_nonempty (c_leave a p c)" by auto
qed

lemma inv_join:
  assumes "c_links c" "c_nonempty c" "c_party c p = None"
  shows "c_links (c_join a p c) \<and> c_nonempty (c_join a p c)"
proof (cases "\<exists>L ms is. c_parties c a = Some (L, ms, is) \<and> p \<in> set is")
  case True
  then obtain L ms "is" where P: "c_parties c a = Some (L, ms, is)" and p: "p \<in> set is" by blast
  note mem = links_mem [OF assms(1) P] and on = links_online [OF assms(1) P]
  have d: "distinct (L # ms)" "distinct is" using c_linksD(1) [OF assms(1) P] by auto
  have new: "p \<notin> set (L # ms)" using mem(1) [of p] assms(3) by simp
  show ?thesis
  proof
    show "c_links (c_join a p c)"
    proof (rule links_update [OF assms(1), where L = L and ms = "ms @ [p]" and iv = "remove1 p is" and a = a])
      show "distinct (L # ms @ [p])" "distinct (remove1 p is)" using d new by auto
      show "c_party (c_join a p c) q = (if q \<in> set (L # ms @ [p]) then Some a
          else if c_party c q = Some a then None else c_party c q)" for q
        using mem(1) [of q] P p by (auto simp: c_join_def)
      show "c_party c q = None \<or> c_party c q = Some a" if "q \<in> set (L # ms @ [p])" for q
        using that mem(1) [of q] assms(3) by auto
      show "set (c_invs (c_join a p c) q) = (if q \<in> set (remove1 p is) then insert a (set (c_invs c q)) else set (c_invs c q) - {a})" for q
        using mem(2) [of q] P p d by (auto simp: c_join_def)
      show "set (L # ms @ [p]) \<union> set (remove1 p is) \<subseteq> c_online c"
        using on p set_remove1_subset [of p "is"] by auto
    qed (use P p in \<open>simp_all add: c_join_def\<close>)
    show "c_nonempty (c_join a p c)"
      by (rule nonempty_update [OF assms(2), of "ms @ [p]"]) (use P p in \<open>simp_all add: c_join_def\<close>)
  qed
next
  case False
  then have "c_join a p c = c" by (auto simp: c_join_def split: option.split)
  then show ?thesis using assms by simp
qed

lemma inv_removeInvite:
  assumes "c_links c" "c_nonempty c"
  shows "c_links (c_removeInvite True a p c) \<and> c_nonempty (c_removeInvite True a p c)"
proof (cases "\<exists>L ms is. c_parties c a = Some (L, ms, is) \<and> p \<in> set is")
  case True
  then obtain L ms "is" where P: "c_parties c a = Some (L, ms, is)" and p: "p \<in> set is" by blast
  note mem = links_mem [OF assms(1) P] and on = links_online [OF assms(1) P]
  have d: "distinct (L # ms)" "distinct is" using c_linksD(1) [OF assms(1) P] by auto
  let ?c = "c\<lparr>c_invs := (c_invs c)(p := removeAll a (c_invs c p)), c_parties := (c_parties c)(a \<mapsto> (L, ms, remove1 p is))\<rparr>"
  have l: "c_links ?c"
  proof (rule links_update [OF assms(1), where L = L and ms = ms and iv = "remove1 p is" and a = a])
    show "c_party ?c q = (if q \<in> set (L # ms) then Some a else if c_party c q = Some a then None else c_party c q)" for q
      using mem(1) [of q] by auto
    show "c_party c q = None \<or> c_party c q = Some a" if "q \<in> set (L # ms)" for q
      using that mem(1) [of q] by auto
    show "set (c_invs ?c q) = (if q \<in> set (remove1 p is) then insert a (set (c_invs c q)) else set (c_invs c q) - {a})" for q
      using mem(2) [of q] d by auto
    show "set (L # ms) \<union> set (remove1 p is) \<subseteq> c_online c" using on set_remove1_subset [of p "is"] by auto
  qed (use d in simp_all)
  have e: "c_removeInvite True a p c = (if ms = [] \<and> remove1 p is = [] then c_disband a ?c else ?c)"
    using P p by (simp add: c_removeInvite_def Let_def)
  show ?thesis
  proof (cases "ms = [] \<and> remove1 p is = []")
    case True
    have "c_nonempty (c_disband a ?c)"
      using assms(2) by (auto simp: c_nonempty_def c_disband_def split: if_splits)
    then show ?thesis using e True links_disband [OF l] by simp
  next
    case False
    have "c_nonempty ?c" by (rule nonempty_update [OF assms(2)]) (use False in auto)
    then show ?thesis using e False l by auto
  qed
next
  case False
  then have "c_removeInvite True a p c = c" by (auto simp: c_removeInvite_def split: option.split)
  then show ?thesis using assms by simp
qed

definition c_new :: "nat \<Rightarrow> nat \<Rightarrow> PCore \<Rightarrow> PCore" where
  "c_new a L c = c\<lparr>c_party := (c_party c)(L := Some a), c_parties := (c_parties c)(a \<mapsto> (L, [], []))\<rparr>"

lemma links_new:
  assumes "c_links c" "c_parties c a = None" "c_party c L = None" "L \<in> c_online c"
  shows "c_links (c_new a L c)"
proof -
  have na: "c_party c q \<noteq> Some a" "a \<notin> set (c_invs c q)" for q
    using c_linksD(2) [OF assms(1), of q a] c_linksD(3) [OF assms(1), of a q] assms(2) by auto
  show ?thesis
    by (rule links_update [OF assms(1), where L = L and ms = "[]" and iv = "[]" and a = a])
      (use na assms in \<open>auto simp: c_new_def\<close>)
qed

lemma inv_invite:
  assumes "c_links c" "\<And>b. b \<noteq> a \<Longrightarrow> \<forall>L ms is. c_parties c b = Some (L, ms, is) \<longrightarrow> ms \<noteq> [] \<or> is \<noteq> []"
    "c_parties c a = Some (L, ms, is)" "p \<in> c_online c"
  shows "c_links (c_invite a p c) \<and> c_nonempty (c_invite a p c)"
proof (cases "p \<in> set is")
  case True
  then have "c_invite a p c = c" "is \<noteq> []" using assms(3) by (auto simp: c_invite_def)
  then show ?thesis using assms unfolding c_nonempty_def by (metis Pair_inject option.inject)
next
  case False
  note mem = links_mem [OF assms(1,3)] and on = links_online [OF assms(1,3)]
  have d: "distinct (L # ms)" "distinct is" using c_linksD(1) [OF assms(1,3)] by auto
  have "c_links (c_invite a p c)"
  proof (rule links_update [OF assms(1), where L = L and ms = ms and iv = "is @ [p]" and a = a])
    show "c_party (c_invite a p c) q = (if q \<in> set (L # ms) then Some a else if c_party c q = Some a then None else c_party c q)" for q
      using mem(1) [of q] False assms(3) by (auto simp: c_invite_def)
    show "c_party c q = None \<or> c_party c q = Some a" if "q \<in> set (L # ms)" for q
      using that mem(1) [of q] by auto
    show "set (c_invs (c_invite a p c) q) = (if q \<in> set (is @ [p]) then insert a (set (c_invs c q)) else set (c_invs c q) - {a})" for q
      using mem(2) [of q] False assms(3) by (auto simp: c_invite_def)
    show "set (L # ms) \<union> set (is @ [p]) \<subseteq> c_online c" using on assms(4) by auto
  qed (use d False assms(3) in \<open>simp_all add: c_invite_def\<close>)
  moreover have "c_nonempty (c_invite a p c)"
    using assms(2,3) False by (auto simp: c_nonempty_def c_invite_def)
  ultimately show ?thesis by blast
qed

subsection \<open>The code implements the abstract operations\<close>

lemma remove1_eq_Nil: "p \<in> set ms \<Longrightarrow> remove1 p ms = [] \<longleftrightarrow> ms = [p]"
  by (cases ms) auto

lemma core_leave:
  assumes links: "c_links (core w)" and party: "pp_party (pw_player w p) = Some a"
    and ev: "onLeave e a p" "onDisband e a"
  shows "core (snd (leaveParty e a p w)) = c_leave a p (core w)"
proof -
  obtain L ms "is" where P: "c_parties (core w) a = Some (L, ms, is)" and mem: "p \<in> set (L # ms)"
    using c_linksD(2) [OF links] party unfolding core_party by blast
  have d: "distinct (L # ms)" and pm: "\<forall>q\<in>set (L # ms). c_party (core w) q = Some a"
    using c_linksD(1) [OF links P] by auto
  define w1 where "w1 = snd (leave_handover e a p w)"
  define miss where "miss = fst (leave_handover e a p w)"
  define w2 where "w2 = leave_depart e a p w1"
  have split: "snd (leaveParty e a p w) = (if miss \<or> party_empty a w2 then disband e a w2 else w2)"
    by (simp add: leaveParty_parts [OF party ev(1)] Let_def split_beta w1_def miss_def w2_def)
  consider (lead) m ms' where "p = L" "ms = m # ms'" "ms' \<noteq> [] \<or> is \<noteq> []"
    | (last) "p = L" "ms = [] \<or> (\<exists>m. ms = [m] \<and> is = [])" | (member) "p \<noteq> L" "p \<in> set ms"
    using mem by (cases ms) auto
  then show ?thesis
  proof cases
    case lead
    have h: "\<not> miss" "w1 = snd (passPartyLeadership e a m w)"
      using lead by (auto simp: miss_def w1_def leave_handover_def Let_def core_get [OF P])
    have "core w1 = (core w)\<lparr>c_parties := (c_parties (core w))(a \<mapsto> (m, L # ms', is))\<rparr>"
      using core_pass [OF P, of e m] d pm lead by (auto simp: h c_pass_def P)
    then have w2: "core w2 = (core w)\<lparr>c_party := (c_party (core w))(p := None), c_parties := (c_parties (core w))(a \<mapsto> (m, ms', is))\<rparr>"
      using core_depart [of w1 a m "L # ms'" "is" e p] lead(1) by (simp add: w2_def)
    then have g: "c_parties (core w2) a = Some (m, ms', is)" by simp
    then have "\<not> party_empty a w2" using lead(3) by (simp add: party_empty_def core_get [OF g])
    then have "core (snd (leaveParty e a p w)) = core w2" using h split by simp
    moreover have "c_leave a p (core w) = core w2"
      unfolding w2 using lead by (cases ms'; cases "is") (simp_all add: c_leave_def P)
    ultimately show ?thesis by simp
  next
    case last
    have h: "miss" "w1 = w"
      using last by (auto simp: miss_def w1_def leave_handover_def Let_def core_get [OF P])
    have rm: "remove1 p ms = ms" using d last by (simp add: remove1_idem)
    have w2: "core w2 = (core w)\<lparr>c_party := (c_party (core w))(p := None), c_parties := (c_parties (core w))(a \<mapsto> (L, ms, is))\<rparr>"
      using core_depart [OF P, of e p] by (simp add: w2_def h rm)
    then have g: "c_parties (core w2) a = Some (L, ms, is)" by simp
    have "core (snd (leaveParty e a p w)) = c_disband a (core w2)"
      using split h core_disband [OF ev(2) g] by simp
    also have "\<dots> = c_disband a (core w)"
      unfolding w2 using last(1) by (auto simp: c_disband_def P fun_eq_iff)
    also have "\<dots> = c_leave a p (core w)" using last by (auto simp: c_leave_def P)
    finally show ?thesis .
  next
    case member
    have h: "\<not> miss" "w1 = w" using member by (auto simp: miss_def w1_def leave_handover_def Let_def core_get [OF P])
    have w2: "core w2 = (core w)\<lparr>c_party := (c_party (core w))(p := None), c_parties := (c_parties (core w))(a \<mapsto> (L, remove1 p ms, is))\<rparr>"
      using core_depart [OF P, of e p] by (simp add: w2_def h)
    then have g: "c_parties (core w2) a = Some (L, remove1 p ms, is)" by simp
    have em: "party_empty a w2 \<longleftrightarrow> ms = [p] \<and> is = []"
      by (simp add: party_empty_def core_get [OF g] remove1_eq_Nil [OF member(2)])
    show ?thesis
    proof (cases "ms = [p] \<and> is = []")
      case True
      then have "core (snd (leaveParty e a p w)) = c_disband a (core w2)"
        using split em core_disband [OF ev(2) g] by simp
      also have "\<dots> = c_disband a (core w)"
        unfolding w2 using True by (auto simp: c_disband_def P fun_eq_iff)
      finally show ?thesis using True member by (simp add: c_leave_def P)
    next
      case False
      then have "core (snd (leaveParty e a p w)) = core w2" using split em h by auto
      then show ?thesis using False member by (auto simp: c_leave_def P w2)
    qed
  qed
qed

definition c_forget :: "nat \<Rightarrow> PCore \<Rightarrow> PCore" where
  "c_forget p c = c\<lparr>c_invs := (c_invs c)(p := [])\<rparr>"

lemma forget_removeInvite:
  assumes "c_forget p c = c_forget p c'"
  shows "c_forget p (c_removeInvite rm a p c) = c_forget p (c_removeInvite True a p c')"
proof -
  have same: "c_parties c = c_parties c'" "c_party c = c_party c'" "c_online c = c_online c'"
    using assms by (cases c; cases c'; simp add: c_forget_def)+
  have iv: "(c_invs c)(p := []) = (c_invs c')(p := [])"
    using assms by (cases c; cases c'; simp add: c_forget_def)
  then have iv': "q \<noteq> p \<Longrightarrow> c_invs c q = c_invs c' q" for q by (metis fun_upd_other)
  show ?thesis
    by (auto simp: c_removeInvite_def c_forget_def c_disband_def same Let_def fun_eq_iff iv' split: option.split)
qed

definition c_distinct :: "PCore \<Rightarrow> bool" where
  "c_distinct c \<longleftrightarrow> (\<forall>p. distinct (c_invs c p))"

lemma distinct_removeAll': "distinct xs \<Longrightarrow> distinct (removeAll x xs)"
  by (simp add: distinct_removeAll)

lemma c_distinct_ops:
  assumes "c_distinct c"
  shows "c_distinct (c_disband a c)" "c_distinct (c_leave a p c)" "c_distinct (c_pass a p c)" "c_distinct (c_join a p c)"
    "c_distinct (c_removeInvite True a p c)" "c_distinct (c_new a p c)"
proof -
  have d: "c_distinct (c_disband a c')" if "c_distinct c'" for c'
    using that by (auto simp: c_distinct_def c_disband_def distinct_removeAll' split: option.split)
  show "c_distinct (c_leave a p c)"
    using d [OF assms] assms by (auto simp: c_leave_def c_distinct_def split: option.split)
  show "c_distinct (c_pass a p c)" "c_distinct (c_join a p c)" "c_distinct (c_new a p c)"
    using assms by (auto simp: c_distinct_def c_pass_def c_join_def c_new_def distinct_removeAll' split: option.split)
  have "c_distinct (c\<lparr>c_invs := (c_invs c)(p := removeAll a (c_invs c p)), c_parties := x\<rparr>)" for x
    using assms by (simp add: c_distinct_def distinct_removeAll')
  then show "c_distinct (c_removeInvite True a p c)"
    using assms d by (auto simp: c_removeInvite_def Let_def split: option.split)
  show "c_distinct (c_disband a c)" by (rule d [OF assms])
qed

lemma c_distinct_invite:
  assumes "c_distinct c" "c_links c"
  shows "c_distinct (c_invite a p c)"
  using assms c_linksD(3) [OF assms(2), of a p] by (auto simp: c_distinct_def c_invite_def split: option.split)

lemma removeInvite_other:
  "b \<noteq> a \<Longrightarrow> c_parties (c_removeInvite rm a p c) b = c_parties c b"
  by (auto simp: c_removeInvite_def c_disband_def Let_def split: option.split)

lemma removeInvite_invs:
  assumes "c_links c"
  shows "set (c_invs (c_removeInvite True a p c) p) \<subseteq> set (c_invs c p) - {a}"
  using c_linksD(3) [OF assms, of a p]
  by (auto simp: c_removeInvite_def c_disband_def Let_def split: option.split)

definition c_clear :: "nat \<Rightarrow> PCore \<Rightarrow> PCore" where
  "c_clear p c = fold (\<lambda>a. c_removeInvite True a p) (c_invs c p) c"

lemma fold_removeInvite:
  assumes "distinct as" "\<forall>a\<in>set as. c_parties (core w) a \<noteq> None" "\<forall>a. onDisband e a" "c_forget p (core w) = c_forget p c"
  shows "c_forget p (core (fold (\<lambda>a w. snd (removeInvite e a p False w)) as w)) =
    c_forget p (fold (\<lambda>a. c_removeInvite True a p) as c)"
  using assms
proof (induction as arbitrary: w c)
  case Nil
  then show ?case by simp
next
  case (Cons a as)
  obtain L ms "is" where P: "c_parties (core w) a = Some (L, ms, is)" using Cons.prems(2) by (auto simp: not_None_eq)
  let ?w = "snd (removeInvite e a p False w)"
  have r: "core ?w = c_removeInvite False a p (core w)"
    by (rule core_removeInvite [OF P]) (simp add: Cons.prems(3))
  have "c_forget p (core ?w) = c_forget p (c_removeInvite True a p c)"
    unfolding r by (rule forget_removeInvite [OF Cons.prems(4)])
  moreover have "\<forall>b\<in>set as. c_parties (core ?w) b \<noteq> None"
  proof
    fix b assume b: "b \<in> set as"
    then have "b \<noteq> a" using Cons.prems(1) by auto
    then show "c_parties (core ?w) b \<noteq> None" unfolding r removeInvite_other [OF \<open>b \<noteq> a\<close>] using Cons.prems(2) b by simp
  qed
  ultimately show ?case using Cons.IH [of ?w "c_removeInvite True a p c"] Cons.prems(1,3) by simp
qed

lemma inv_clear_fold:
  assumes "c_links c" "c_nonempty c" "c_distinct c"
  shows "c_links (fold (\<lambda>a. c_removeInvite True a p) as c) \<and> c_nonempty (fold (\<lambda>a. c_removeInvite True a p) as c)
    \<and> c_distinct (fold (\<lambda>a. c_removeInvite True a p) as c)
    \<and> set (c_invs (fold (\<lambda>a. c_removeInvite True a p) as c) p) \<subseteq> set (c_invs c p) - set as"
  using assms
proof (induction as arbitrary: c)
  case Nil
  then show ?case by simp
next
  case (Cons a as)
  have "c_links (c_removeInvite True a p c)" "c_nonempty (c_removeInvite True a p c)" "c_distinct (c_removeInvite True a p c)"
    using inv_removeInvite [OF Cons.prems(1,2)] c_distinct_ops(5) [OF Cons.prems(3)] by auto
  from Cons.IH [OF this] removeInvite_invs [OF Cons.prems(1), of a p] show ?case by auto
qed

lemmas inv_clear = inv_clear_fold [where as = "c_invs c p" and c = c and p = p for c p, folded c_clear_def]

lemma core_clear:
  assumes "c_links (core w)" "c_nonempty (core w)" "c_distinct (core w)" "\<forall>a. onDisband e a"
  shows "core (clearPartyInvitations e p w) = c_clear p (core w)"
proof -
  let ?w = "fold (\<lambda>a w. snd (removeInvite e a p False w)) (invitePartyList (pw_player w p)) w"
  have "core (clearPartyInvitations e p w) = c_forget p (core ?w)"
    by (auto simp: clearPartyInvitations_def upd_player_def core_def c_forget_def)
  also have "\<dots> = c_forget p (c_clear p (core w))"
    unfolding c_clear_def core_invs
    by (rule fold_removeInvite) (use assms(3,4) c_linksD(3) [OF assms(1)] in \<open>auto simp: c_distinct_def\<close>)
  also have "\<dots> = c_clear p (core w)"
  proof -
    have "c_invs (c_clear p (core w)) p = []" using inv_clear [OF assms(1-3), of p] by auto
    then show ?thesis by (simp add: c_forget_def fun_upd_idem)
  qed
  finally show ?thesis .
qed

subsection \<open>Runs of the game\<close>

definition scripts_allow :: "party_env \<Rightarrow> bool" where
  "scripts_allow e \<longleftrightarrow> (\<forall>a p. onLeave e a p) \<and> (\<forall>a. onDisband e a)"

text \<open>The actions of players, what combat and movement do to the players' own data, and players
  coming and going.\<close>

inductive party_step :: "PWorld \<Rightarrow> PWorld \<Rightarrow> bool" where
  ps_invite: "pw_party w new = None \<Longrightarrow> party_step w (playerInviteToParty new p q w)"
| ps_join: "party_step w (playerJoinParty e p q w)"
| ps_revoke: "scripts_allow e \<Longrightarrow> party_step w (playerRevokePartyInvitation e p q w)"
| ps_pass: "party_step w (playerPassPartyLeadership e p q w)"
| ps_leave: "scripts_allow e \<Longrightarrow> party_step w (playerLeaveParty e p w)"
| ps_shared: "party_step w (playerEnableSharedPartyExperience e p act w)"
| ps_ticks: "pp_party (pw_player w p) = Some a \<Longrightarrow> party_step w (updatePlayerTicks e a p n w)"
| ps_idle: "pp_party (pw_player w p) = Some a \<Longrightarrow> party_step w (clearPlayerPoints e a p w)"
| ps_data: "pp_party (f (pw_player w p)) = pp_party (pw_player w p) \<Longrightarrow>
    invitePartyList (f (pw_player w p)) = invitePartyList (pw_player w p) \<Longrightarrow> party_step w (upd_player p f w)"
| ps_login: "p \<notin> pw_online w \<Longrightarrow> pp_party x = None \<Longrightarrow> invitePartyList x = [] \<Longrightarrow>
    party_step w (upd_player p (\<lambda>_. x) (w\<lparr>pw_online := insert p (pw_online w)\<rparr>))"
| ps_logout: "scripts_allow e \<Longrightarrow> party_step w (player_gone p (party_logout e p w))"

inductive party_reach :: "PWorld \<Rightarrow> bool" where
  pr_start: "party_reach \<lparr>pw_player = pl, pw_online = {}, pw_party = Map.empty, pw_out = []\<rparr>"
    if "\<forall>p. pp_party (pl p) = None \<and> invitePartyList (pl p) = []"
| pr_step: "party_reach w \<Longrightarrow> party_step w w' \<Longrightarrow> party_reach w'"

definition c_inv :: "PCore \<Rightarrow> bool" where
  "c_inv c \<longleftrightarrow> c_links c \<and> c_nonempty c \<and> c_distinct c"

lemma isInviting_core:
  "isInviting p q w \<Longrightarrow> pp_party (pw_player w p) = Some a \<Longrightarrow> pt_leader (get_party w a) = p \<and> isPlayerInvited a q w"
  by (auto simp: isInviting_def split: if_splits)

lemma party_alloc:
  assumes "c_links (core w)" "pp_party (pw_player w p) = Some a"
  obtains L ms "is" where "c_parties (core w) a = Some (L, ms, is)" "p \<in> set (L # ms)"
  using c_linksD(2) [OF assms(1)] assms(2) unfolding core_party by blast

lemma step_invite:
  assumes "c_inv (core w)" "pw_party w new = None"
  shows "c_inv (core (playerInviteToParty new p q w))"
proof -
  have l: "c_links (core w)" "c_nonempty (core w)" "c_distinct (core w)" using assms(1) by (simp_all add: c_inv_def)
  have main: "c_inv (core (snd (invitePlayer a q v)))"
    if "c_links (core v)" "c_distinct (core v)" "c_parties (core v) a = Some (L, ms, is)" "q \<in> pw_online v"
      "\<And>b. b \<noteq> a \<Longrightarrow> \<forall>L ms is. c_parties (core v) b = Some (L, ms, is) \<longrightarrow> ms \<noteq> [] \<or> is \<noteq> []" for a L ms "is" v
  proof -
    have "q \<notin> set is \<longrightarrow> a \<notin> set (c_invs (core v) q)" using links_mem(2) [OF that(1,3)] by simp
    note c = core_invite [OF that(3) this]
    show ?thesis
      unfolding c c_inv_def
      using inv_invite [OF that(1,5,3)] that(4) c_distinct_invite [OF that(2,1)] unfolding core_online by blast
  qed
  have new: "c_inv (core (snd (invitePlayer new q (new_Party new p w))))"
    if on: "p \<in> pw_online w" "q \<in> pw_online w" and none: "pp_party (pw_player w p) = None"
  proof -
    have n: "c_parties (core w) new = None" using assms(2) by (simp add: core_def)
    have c: "core (new_Party new p w) = c_new new p (core w)"
      by (auto simp: new_Party_def c_new_def core_def setParty_def upd_player_def party_view_def)
    have nl: "c_links (c_new new p (core w))"
      by (rule links_new [OF l(1) n]) (use on none in \<open>simp_all add: core_party [symmetric] core_online [symmetric]\<close>)
    show ?thesis
      by (rule main [where L = p and ms = "[]"])
        (use nl c c_distinct_ops(6) [OF l(3)] on l(2) in
          \<open>auto simp: c_new_def c_nonempty_def new_Party_def setParty_def upd_player_def\<close>)
  qed
  have old: "c_inv (core (snd (invitePlayer a q w)))" if h: "q \<in> pw_online w" "pp_party (pw_player w p) = Some a" for a
  proof -
    obtain L ms "is" where P: "c_parties (core w) a = Some (L, ms, is)" by (rule party_alloc [OF l(1) h(2)])
    show ?thesis by (rule main [OF l(1,3) P h(1)]) (use l(2) in \<open>auto simp: c_nonempty_def\<close>)
  qed
  show ?thesis
    using new old assms(1) unfolding playerInviteToParty_def by (simp split: option.split)
qed

lemma step_join:
  assumes "c_inv (core w)"
  shows "c_inv (core (playerJoinParty e p q w))"
proof -
  have l: "c_links (core w)" "c_nonempty (core w)" "c_distinct (core w)" using assms by (simp_all add: c_inv_def)
  have "c_inv (core (snd (joinParty e a p w)))"
    if h: "pp_party (pw_player w q) = Some a" "pp_party (pw_player w p) = None" for a
  proof (cases "onJoin e a p")
    case True
    obtain L ms "is" where P: "c_parties (core w) a = Some (L, ms, is)" by (rule party_alloc [OF l(1) h(1)])
    show ?thesis
      unfolding core_join [OF P True] c_inv_def
      using inv_join [OF l(1,2)] h(2) c_distinct_ops(4) [OF l(3)] unfolding core_party by blast
  next
    case False
    then show ?thesis using assms by (simp add: joinParty_def)
  qed
  then show ?thesis using assms unfolding playerJoinParty_def by (simp split: option.split)
qed

lemma step_revoke:
  assumes "c_inv (core w)" "scripts_allow e"
  shows "c_inv (core (playerRevokePartyInvitation e p q w))"
proof -
  have l: "c_links (core w)" "c_nonempty (core w)" "c_distinct (core w)" using assms by (simp_all add: c_inv_def)
  have "c_inv (core (revokeInvitation e a q w))" if h: "pp_party (pw_player w p) = Some a" for a
  proof -
    obtain L ms "is" where P: "c_parties (core w) a = Some (L, ms, is)" by (rule party_alloc [OF l(1) h])
    have "core (revokeInvitation e a q w) = c_removeInvite True a q (core w)"
      unfolding revokeInvitation_def Let_def
      by (subst core_removeInvite) (use P assms(2) in \<open>simp_all add: scripts_allow_def\<close>)
    then show ?thesis
      using inv_removeInvite [OF l(1,2)] c_distinct_ops(5) [OF l(3)] by (simp add: c_inv_def)
  qed
  then show ?thesis using assms(1) unfolding playerRevokePartyInvitation_def by (simp split: option.split)
qed

lemma step_pass:
  assumes "c_inv (core w)"
  shows "c_inv (core (playerPassPartyLeadership e p q w))"
proof -
  have l: "c_links (core w)" "c_nonempty (core w)" "c_distinct (core w)" using assms by (simp_all add: c_inv_def)
  have "c_inv (core (snd (passPartyLeadership e a q w)))" if h: "pp_party (pw_player w p) = Some a" for a
  proof -
    obtain L ms "is" where P: "c_parties (core w) a = Some (L, ms, is)" by (rule party_alloc [OF l(1) h])
    show ?thesis
      unfolding core_pass [OF P] c_inv_def using inv_pass [OF l(1,2)] c_distinct_ops(3) [OF l(3)] by blast
  qed
  then show ?thesis using assms(1) unfolding playerPassPartyLeadership_def by (simp split: option.split)
qed

lemma leave_inv:
  assumes "c_inv (core w)" "scripts_allow e" "pp_party (pw_player w p) = Some a"
  shows "c_inv (core (snd (leaveParty e a p w)))"
proof -
  have l: "c_links (core w)" "c_nonempty (core w)" "c_distinct (core w)" using assms by (simp_all add: c_inv_def)
  have "core (snd (leaveParty e a p w)) = c_leave a p (core w)"
    by (rule core_leave [OF l(1) assms(3)]) (use assms(2) in \<open>simp_all add: scripts_allow_def\<close>)
  then show ?thesis using inv_leave [OF l(1,2)] c_distinct_ops(2) [OF l(3)] by (simp add: c_inv_def)
qed

lemma leave_gone:
  assumes "c_inv (core w)" "scripts_allow e" "pp_party (pw_player w p) = Some a"
  shows "c_party (core (snd (leaveParty e a p w))) p = None"
    "c_invs (core w) p = [] \<Longrightarrow> c_invs (core (snd (leaveParty e a p w))) p = []"
proof -
  have l: "c_links (core w)" using assms by (simp add: c_inv_def)
  have e: "core (snd (leaveParty e a p w)) = c_leave a p (core w)"
    by (rule core_leave [OF l assms(3)]) (use assms(2) in \<open>simp_all add: scripts_allow_def\<close>)
  obtain L ms "is" where P: "c_parties (core w) a = Some (L, ms, is)" "p \<in> set (L # ms)" by (rule party_alloc [OF l assms(3)])
  show "c_party (core (snd (leaveParty e a p w))) p = None"
    "c_invs (core w) p = [] \<Longrightarrow> c_invs (core (snd (leaveParty e a p w))) p = []"
    using P unfolding e by (auto simp: c_leave_def c_disband_def)
qed

text \<open>After \<open>party_logout\<close> nothing refers to the player.\<close>

lemma logout_core:
  assumes "c_inv (core w)" "scripts_allow e"
  shows "c_inv (core (party_logout e p w)) \<and> c_party (core (party_logout e p w)) p = None
    \<and> c_invs (core (party_logout e p w)) p = []"
proof -
  have l: "c_links (core w)" "c_nonempty (core w)" "c_distinct (core w)" using assms by (simp_all add: c_inv_def)
  let ?v = "clearPartyInvitations e p w"
  have v: "core ?v = c_clear p (core w)"
    by (rule core_clear [OF l]) (use assms(2) in \<open>simp add: scripts_allow_def\<close>)
  have iv: "c_inv (core ?v)" and em: "c_invs (core ?v) p = []"
    using inv_clear [OF l, of p] unfolding v c_inv_def by auto
  show ?thesis
  proof (cases "pp_party (pw_player ?v p)")
    case None
    then show ?thesis using iv em by (simp add: party_logout_def core_party [symmetric])
  next
    case (Some a)
    then show ?thesis
      using leave_inv [OF iv assms(2) Some] leave_gone [OF iv assms(2) Some] em by (simp add: party_logout_def)
  qed
qed

lemma core_upd_data:
  "pp_party (f (pw_player w p)) = pp_party (pw_player w p) \<Longrightarrow>
   invitePartyList (f (pw_player w p)) = invitePartyList (pw_player w p) \<Longrightarrow> core (upd_player p f w) = core w"
  by (auto simp: core_def upd_player_def)

lemma c_inv_login:
  assumes "c_inv (core w)" "p \<notin> pw_online w" "pp_party x = None" "invitePartyList x = []"
  shows "c_inv (core (upd_player p (\<lambda>_. x) (w\<lparr>pw_online := insert p (pw_online w)\<rparr>)))"
proof -
  have l: "c_links (core w)" using assms(1) by (simp add: c_inv_def)
  have "p \<notin> c_online (core w)" using assms(2) by (simp add: core_online)
  then have none: "c_party (core w) p = None" "c_invs (core w) p = []" using c_linksD(4) [OF l, of p] by blast+
  have "core (upd_player p (\<lambda>_. x) (w\<lparr>pw_online := insert p (pw_online w)\<rparr>)) = (core w)\<lparr>c_online := insert p (c_online (core w))\<rparr>"
    using none assms(3,4) by (auto simp: core_def upd_player_def fun_eq_iff)
  then show ?thesis using assms(1) by (auto simp: c_inv_def c_links_def c_nonempty_def c_distinct_def)
qed

lemma c_inv_gone:
  assumes "c_inv (core w)" "c_party (core w) p = None" "c_invs (core w) p = []"
  shows "c_inv (core (player_gone p w))"
proof -
  have "core (player_gone p w) = (core w)\<lparr>c_online := c_online (core w) - {p}\<rparr>"
    by (simp add: core_def player_gone_def)
  then show ?thesis
    using assms unfolding c_inv_def c_links_def c_nonempty_def c_distinct_def by auto
qed

lemma party_step_inv:
  assumes "party_step w w'" "c_inv (core w)"
  shows "c_inv (core w')"
  using assms
proof (induction rule: party_step.induct)
  case (ps_shared w e p act)
  have "core (playerEnableSharedPartyExperience e p act w) = core w"
  proof (cases "pp_party (pw_player w p)")
    case (Some a)
    then have "c_parties (core w) a \<noteq> None"
      using party_alloc [of w p a] ps_shared by (metis c_inv_def option.distinct(1))
    then show ?thesis using Some by (simp add: playerEnableSharedPartyExperience_def)
  qed (simp add: playerEnableSharedPartyExperience_def)
  then show ?case using ps_shared by simp
next
  case (ps_ticks w p a e n)
  then have "c_parties (core w) a \<noteq> None" using party_alloc [of w p a] by (metis c_inv_def option.distinct(1))
  then show ?case using ps_ticks by simp
next
  case (ps_idle w p a e)
  then have "c_parties (core w) a \<noteq> None" using party_alloc [of w p a] by (metis c_inv_def option.distinct(1))
  then show ?case using ps_idle by simp
next
  case (ps_leave e w p)
  then show ?case using leave_inv by (simp add: playerLeaveParty_def split: option.split)
next
  case (ps_logout e w p)
  then show ?case using logout_core [OF ps_logout(2,1)] c_inv_gone by blast
qed (simp_all add: step_invite step_join step_revoke step_pass core_upd_data c_inv_login)

lemma reach_inv: "party_reach w \<Longrightarrow> c_inv (core w)"
proof (induction rule: party_reach.induct)
  case (pr_start pl)
  then show ?case by (simp add: c_inv_def c_links_def c_nonempty_def c_distinct_def core_def)
next
  case (pr_step w w')
  then show ?case using party_step_inv by blast
qed

subsection \<open>Properties\<close>

definition party_consistent :: "PWorld \<Rightarrow> bool" where
  "party_consistent w \<longleftrightarrow>
     (\<forall>a P. pw_party w a = Some P \<longrightarrow>
        distinct (pt_leader P # memberList P) \<and> distinct (inviteList P)
      \<and> (memberList P \<noteq> [] \<or> inviteList P \<noteq> [])
      \<and> set (pt_leader P # memberList P @ inviteList P) \<subseteq> pw_online w
      \<and> (\<forall>p. pp_party (pw_player w p) = Some a \<longleftrightarrow> p \<in> set (pt_leader P # memberList P))
      \<and> (\<forall>p. a \<in> set (invitePartyList (pw_player w p)) \<longleftrightarrow> p \<in> set (inviteList P)))
   \<and> (\<forall>p a. pp_party (pw_player w p) = Some a \<or> a \<in> set (invitePartyList (pw_player w p)) \<longrightarrow> pw_party w a \<noteq> None)"

lemma core_view: "pw_party w a = Some P \<Longrightarrow> c_parties (core w) a = Some (pt_leader P, memberList P, inviteList P)"
  by (simp add: core_def party_view_def)

lemma c_inv_consistent:
  assumes "c_inv (core w)"
  shows "party_consistent w"
proof -
  have l: "c_links (core w)" "c_nonempty (core w)" using assms by (simp_all add: c_inv_def)
  have al: "c_parties (core w) a = Some v \<Longrightarrow> pw_party w a \<noteq> None" for a v
    by (auto simp: core_def)
  show ?thesis
    unfolding party_consistent_def
  proof (intro conjI allI impI)
    fix a P assume P: "pw_party w a = Some P"
    note V = core_view [OF P]
    show "distinct (pt_leader P # memberList P)" "distinct (inviteList P)" using c_linksD(1) [OF l(1) V] by auto
    show "memberList P \<noteq> [] \<or> inviteList P \<noteq> []" using l(2) V unfolding c_nonempty_def by blast
    show "set (pt_leader P # memberList P @ inviteList P) \<subseteq> pw_online w"
      using links_online [OF l(1) V] by (simp add: core_online)
    show "pp_party (pw_player w p) = Some a \<longleftrightarrow> p \<in> set (pt_leader P # memberList P)" for p
      using links_mem(1) [OF l(1) V, of p] by (simp add: core_party)
    show "a \<in> set (invitePartyList (pw_player w p)) \<longleftrightarrow> p \<in> set (inviteList P)" for p
      using links_mem(2) [OF l(1) V, of p] by (simp add: core_invs)
  next
    fix p a assume "pp_party (pw_player w p) = Some a \<or> a \<in> set (invitePartyList (pw_player w p))"
    then show "pw_party w a \<noteq> None"
      using c_linksD(2) [OF l(1), of p a] c_linksD(3) [OF l(1), of a p] al unfolding core_party core_invs by blast
  qed
qed

text \<open>C12: Parties and players agree at all times. Whatever players do (invite, join, revoke,
  pass the leadership, leave, share experience, log in and out), every party's leader and members are
  distinct, online and exactly the players whose party pointer is that party; its invitees are
  exactly the players who hold its invitation; no pointer leads to a deleted party; and no party
  is left with nobody but its leader and no invitation open.\<close>

theorem parties_consistent:
  "party_reach w \<Longrightarrow> party_consistent w"
  by (rule c_inv_consistent [OF reach_inv])

text \<open>A player who logs out leaves no trace: after what \<open>onRemoveCreature\<close> does to parties, no
  party has the player as leader, member or invitee, so that deleting the player leaves no
  dangling pointer.\<close>

lemma logout_leaves_no_trace:
  assumes "party_reach w" "scripts_allow e" "pw_party (party_logout e p w) a = Some P"
  shows "p \<noteq> pt_leader P \<and> p \<notin> set (memberList P) \<and> p \<notin> set (inviteList P)"
proof -
  note lo = logout_core [OF reach_inv [OF assms(1)] assms(2), of p]
  then have l: "c_links (core (party_logout e p w))" by (simp add: c_inv_def)
  from links_mem [OF l core_view [OF assms(3)], of p] lo show ?thesis by simp
qed

text \<open>C13: Leaving does what it should: \<open>leaveParty\<close> of a player in a party implements the
  abstract operation, in which the first member takes over from a leader who leaves, the leaver's
  pointer is cleared, and the party is dissolved exactly when only its leader would be left without
  invitations, or the leader leaves nobody, or a single member, behind.\<close>

theorem leaveParty_refines:
  assumes "party_reach w" "scripts_allow e" "pp_party (pw_player w p) = Some a"
  shows "core (snd (leaveParty e a p w)) = c_leave a p (core w)"
  by (rule core_leave) (use assms reach_inv [OF assms(1)] in \<open>simp_all add: c_inv_def scripts_allow_def\<close>)

definition demo_player :: party_player where
  "demo_player = \<lparr>pp_name = ''A'', pp_female = True, pp_level = 8, pp_position = Position 100 100 7,
     pp_fromVocation = 1, pp_notGainInFight = False, pp_infight = False, pp_party = None, invitePartyList = []\<rparr>"

definition demo_env :: party_env where
  "demo_env = \<lparr>onJoin = (\<lambda>_ _. True), onLeave = (\<lambda>_ _. True), onDisband = (\<lambda>_. True), pe_now = 0, pe_pz_locked = 60000\<rparr>"

definition demo_online :: PWorld where
  "demo_online = \<lparr>pw_player = (\<lambda>_. demo_player), pw_online = {3, 4}, pw_party = Map.empty, pw_out = []\<rparr>"

definition demo_invited :: PWorld where
  "demo_invited = playerInviteToParty 0 3 4 demo_online"

definition demo_joined :: PWorld where
  "demo_joined = playerJoinParty demo_env 4 3 demo_invited"

lemma demo_online_reach: "party_reach demo_online"
proof -
  let ?w0 = "\<lparr>pw_player = (\<lambda>_. demo_player), pw_online = {}, pw_party = Map.empty, pw_out = []\<rparr>"
  let ?f = "\<lambda>p w. upd_player p (\<lambda>_. demo_player) (w\<lparr>pw_online := insert p (pw_online w)\<rparr>)"
  have 0: "party_reach ?w0" by (rule pr_start) (simp add: demo_player_def)
  have 1: "party_reach (?f 4 ?w0)" by (rule pr_step [OF 0 ps_login]) (simp_all add: demo_player_def)
  have 2: "party_reach (?f 3 (?f 4 ?w0))"
    by (rule pr_step [OF 1 ps_login]) (simp_all add: demo_player_def upd_player_def)
  have "?f 3 (?f 4 ?w0) = demo_online" by (auto simp: demo_online_def upd_player_def fun_eq_iff)
  with 2 show ?thesis by simp
qed

lemma demo_invited_reach: "party_reach demo_invited"
  unfolding demo_invited_def by (rule pr_step [OF demo_online_reach ps_invite]) (simp add: demo_online_def)

lemma demo_joined_reach: "party_reach demo_joined"
  unfolding demo_joined_def by (rule pr_step [OF demo_invited_reach ps_join])

lemmas demo_eval = demo_invited_def demo_online_def playerInviteToParty_def isInviting_def demo_player_def
  invitePlayer_def new_Party_def isPlayerInvited_def get_party_def upd_party_def upd_player_def setParty_def send_def
  addPartyInvitation_def Let_def

lemma demo_invited_party: "pw_party demo_invited 0 = Some \<lparr>ticksMap = Map.empty, memberList = [], inviteList = [4], pt_leader = 3,
    extraExpRate = 20, sharedExpActive = False, sharedExpEnabled = False\<rparr>" "pp_party (pw_player demo_invited 3) = Some 0"
  by (simp_all add: demo_eval)

theorem parties_consistent_witness: "party_consistent demo_joined \<and> party_consistent demo_invited"
  using parties_consistent [OF demo_joined_reach] parties_consistent [OF demo_invited_reach] by blast

lemma logout_leaves_no_trace_witness:
  "\<nexists>P. pw_party (party_logout demo_env 3 demo_invited) 0 = Some P \<and> pt_leader P = 3"
proof -
  have "scripts_allow demo_env" by (simp add: scripts_allow_def demo_env_def)
  then have "pt_leader P \<noteq> 3" if "pw_party (party_logout demo_env 3 demo_invited) 0 = Some P" for P
    using logout_leaves_no_trace [OF demo_invited_reach _ that] by simp
  then show ?thesis by blast
qed

theorem leaveParty_refines_witness:
  "core (snd (leaveParty demo_env 0 3 demo_invited)) = c_leave 0 3 (core demo_invited)"
  by (rule leaveParty_refines [OF demo_invited_reach])
    (simp_all add: scripts_allow_def demo_env_def demo_invited_party)

end
