(* ===== verification/Hash_Model.thy ===== *)
theory Hash_Model
  imports Prelude
begin

section \<open>SHA-1\<close>

text \<open>
  \<open>circularShift\<close>, \<open>processSHA1MessageBlock\<close> and \<open>transformToSHA1\<close> of \<open>tools.cpp\<close>, which hash
  account passwords: the streaming implementation with its 64-byte buffer and its two 32-bit
  length counters. The buffer is not initialised in the code; its first contents are an argument.
  The specification pads the message as FIPS 180 says, cuts it into blocks and folds the compression
  function over them; the implementation computes exactly that.
\<close>

subsection \<open>Compression\<close>

definition circularShift :: "nat \<Rightarrow> u32 \<Rightarrow> u32" where
  "circularShift bits value = push_bit bits value OR drop_bit (32 - bits) value"

definition be_word :: "byte list \<Rightarrow> nat \<Rightarrow> u32" where
  "be_word block i =
     (let off = i * 4
      in push_bit 24 (ucast (block ! off)) OR push_bit 16 (ucast (block ! (off + 1)))
         OR push_bit 8 (ucast (block ! (off + 2))) OR ucast (block ! (off + 3)))"

definition sha_schedule :: "byte list \<Rightarrow> u32 list" where
  "sha_schedule block =
     fold (\<lambda>i W. W @ [circularShift 1 (W ! (i - 3) XOR W ! (i - 8) XOR W ! (i - 14) XOR W ! (i - 16))])
       [16..<80] (map (be_word block) [0..<16])"

type_synonym sha_regs = "u32 \<times> u32 \<times> u32 \<times> u32 \<times> u32"

definition sha_round :: "(u32 \<Rightarrow> u32 \<Rightarrow> u32 \<Rightarrow> u32) \<Rightarrow> u32 \<Rightarrow> u32 \<Rightarrow> sha_regs \<Rightarrow> sha_regs" where
  "sha_round f k w = (\<lambda>(A, B, C, D, E).
     let tmp = circularShift 5 A + f B C D + E + w + k in (tmp, A, circularShift 30 B, C, D))"

definition sha_rounds :: "u32 list \<Rightarrow> sha_regs \<Rightarrow> sha_regs" where
  "sha_rounds W r =
     (let r = fold (\<lambda>i. sha_round (\<lambda>B C D. (B AND C) OR (NOT B AND D)) 0x5A827999 (W ! i)) [0..<20] r;
          r = fold (\<lambda>i. sha_round (\<lambda>B C D. B XOR C XOR D) 0x6ED9EBA1 (W ! i)) [20..<40] r;
          r = fold (\<lambda>i. sha_round (\<lambda>B C D. (B AND C) OR (B AND D) OR (C AND D)) 0x8F1BBCDC (W ! i)) [40..<60] r
      in fold (\<lambda>i. sha_round (\<lambda>B C D. B XOR C XOR D) 0xCA62C1D6 (W ! i)) [60..<80] r)"

definition processSHA1MessageBlock :: "byte list \<Rightarrow> sha_regs \<Rightarrow> sha_regs" where
  "processSHA1MessageBlock block H =
     (case H of (h0, h1, h2, h3, h4) \<Rightarrow>
        case sha_rounds (sha_schedule block) H of (A, B, C, D, E) \<Rightarrow> (h0 + A, h1 + B, h2 + C, h3 + D, h4 + E))"

subsection \<open>The streaming loop\<close>

record sha_state =
  messageBlock :: "byte list"
  sha_index :: nat
  length_low :: u32
  length_high :: u32
  sha_H :: sha_regs

definition sha_init :: "byte list \<Rightarrow> sha_state" where
  "sha_init junk = \<lparr>messageBlock = junk, sha_index = 0, length_low = 0, length_high = 0,
     sha_H = (0x67452301, 0xEFCDAB89, 0x98BADCFE, 0x10325476, 0xC3D2E1F0)\<rparr>"

definition put_byte :: "byte \<Rightarrow> sha_state \<Rightarrow> sha_state" where
  "put_byte b s = s\<lparr>messageBlock := (messageBlock s)[sha_index s := b], sha_index := sha_index s + 1\<rparr>"

definition flush_block :: "sha_state \<Rightarrow> sha_state" where
  "flush_block s = s\<lparr>sha_H := processSHA1MessageBlock (messageBlock s) (sha_H s), sha_index := 0\<rparr>"

definition sha_char :: "byte \<Rightarrow> sha_state \<Rightarrow> sha_state" where
  "sha_char ch s =
     (let s = put_byte ch s;
          s = s\<lparr>length_low := length_low s + 8\<rparr>;
          s = (if length_low s = 0 then s\<lparr>length_high := length_high s + 1\<rparr> else s)
      in if sha_index s = 64 then flush_block s else s)"

text \<open>The two loops that write zeros up to a position.\<close>

definition zero_to :: "nat \<Rightarrow> sha_state \<Rightarrow> sha_state" where
  "zero_to n s = (put_byte 0 ^^ (n - sha_index s)) s"

definition sha_length_bytes :: "u32 \<Rightarrow> byte list" where
  "sha_length_bytes x = [ucast (drop_bit 24 x), ucast (drop_bit 16 x), ucast (drop_bit 8 x), ucast x]"

definition sha_finish :: "sha_state \<Rightarrow> sha_state" where
  "sha_finish s =
     (let s = put_byte 0x80 s;
          s = (if sha_index s > 56 then flush_block (zero_to 64 s) else s);
          s = zero_to 56 s;
          s = fold put_byte (sha_length_bytes (length_high s) @ sha_length_bytes (length_low s)) s
      in flush_block s)"

definition hexDigits :: string where "hexDigits = ''0123456789abcdef''"

definition sha_regs_list :: "sha_regs \<Rightarrow> u32 list" where
  "sha_regs_list H = (case H of (a, b, c, d, e) \<Rightarrow> [a, b, c, d, e])"

definition hash_byte :: "sha_regs \<Rightarrow> nat \<Rightarrow> byte" where
  "hash_byte H i = ucast (drop_bit (nat ((3 - int i) mod 4) * 8) (sha_regs_list H ! (i div 4)))"

definition sha_hex :: "sha_regs \<Rightarrow> string" where
  "sha_hex H = take 40 (fold (\<lambda>i s. s[i * 2 := hexDigits ! unat (drop_bit 4 (hash_byte H i)),
                                      i * 2 + 1 := hexDigits ! unat (hash_byte H i AND 15)])
                        (rev [0..<20]) (replicate 41 CHR 0x00))"

definition transformToSHA1 :: "byte list \<Rightarrow> byte list \<Rightarrow> string" where
  "transformToSHA1 junk input = sha_hex (sha_H (sha_finish (fold sha_char input (sha_init junk))))"

subsection \<open>Specification\<close>

definition be_bytes :: "nat \<Rightarrow> nat \<Rightarrow> byte list" where
  "be_bytes k v = rev (le_bytes k v)"

definition sha_pad :: "byte list \<Rightarrow> byte list" where
  "sha_pad m = m @ [0x80] @ replicate ((119 - length m mod 64) mod 64) 0 @ be_bytes 8 (8 * length m)"

function sha_blocks :: "byte list \<Rightarrow> byte list list" where
  "sha_blocks bs = (if length bs < 64 then [] else take 64 bs # sha_blocks (drop 64 bs))"
  by auto
termination by (relation "measure length") auto

declare sha_blocks.simps [simp del]

definition sha1_spec :: "byte list \<Rightarrow> sha_regs" where
  "sha1_spec m = fold processSHA1MessageBlock (sha_blocks (sha_pad m))
     (0x67452301, 0xEFCDAB89, 0x98BADCFE, 0x10325476, 0xC3D2E1F0)"

subsection \<open>The buffer holds the bytes since the last whole block\<close>

abbreviation sha_H0 :: sha_regs where
  "sha_H0 \<equiv> (0x67452301, 0xEFCDAB89, 0x98BADCFE, 0x10325476, 0xC3D2E1F0)"

definition sha_inv :: "byte list list \<Rightarrow> byte list \<Rightarrow> sha_state \<Rightarrow> bool" where
  "sha_inv bls r s \<longleftrightarrow> (\<forall>b\<in>set bls. length b = 64) \<and> length r \<le> 64 \<and> length (messageBlock s) = 64
     \<and> sha_index s = length r \<and> take (length r) (messageBlock s) = r
     \<and> sha_H s = fold processSHA1MessageBlock bls sha_H0"

lemma sha_inv_init: "length junk = 64 \<Longrightarrow> sha_inv [] [] (sha_init junk)"
  by (simp add: sha_inv_def sha_init_def)

lemma sha_inv_put:
  assumes "sha_inv bls r s" "length r < 64"
  shows "sha_inv bls (r @ [b]) (put_byte b s)"
proof -
  have "take (Suc (length r)) ((messageBlock s)[length r := b]) = r @ [b]"
    using assms by (simp add: take_Suc_conv_app_nth sha_inv_def)
  then show ?thesis using assms by (simp add: sha_inv_def put_byte_def)
qed

lemma sha_inv_puts:
  "sha_inv bls r s \<Longrightarrow> length r + length bs \<le> 64 \<Longrightarrow> sha_inv bls (r @ bs) (fold put_byte bs s)"
proof (induction bs arbitrary: r s)
  case (Cons b bs)
  then show ?case using Cons.IH [OF sha_inv_put [of bls r s b]] by simp
qed simp

lemma sha_inv_flush:
  "sha_inv bls r s \<Longrightarrow> length r = 64 \<Longrightarrow> sha_inv (bls @ [r]) [] (flush_block s)"
  by (auto simp: sha_inv_def flush_block_def)

lemma funpow_put: "(put_byte b ^^ n) s = fold put_byte (replicate n b) s"
  by (induction n arbitrary: s) (simp_all add: funpow_swap1)

lemma sha_inv_zero:
  assumes "sha_inv bls r s" "length r \<le> n" "n \<le> 64"
  shows "sha_inv bls (r @ replicate (n - length r) 0) (zero_to n s)"
proof -
  have i: "sha_index s = length r" using assms(1) by (simp add: sha_inv_def)
  show ?thesis
    unfolding zero_to_def funpow_put i by (rule sha_inv_puts [OF assms(1)]) (use assms in simp)
qed

lemma sha_inv_char:
  assumes "sha_inv bls r s" "length r < 64"
  shows "if length r = 63 then sha_inv (bls @ [r @ [b]]) [] (sha_char b s) else sha_inv bls (r @ [b]) (sha_char b s)"
proof -
  have len: "sha_inv B R (t\<lparr>length_low := x\<rparr>) = sha_inv B R t" "sha_inv B R (t\<lparr>length_high := y\<rparr>) = sha_inv B R t" for B R t x y
    by (simp_all add: sha_inv_def)
  let ?t = "let s = put_byte b s; s = s\<lparr>length_low := length_low s + 8\<rparr>
            in if length_low s = 0 then s\<lparr>length_high := length_high s + 1\<rparr> else s"
  have t: "sha_inv bls (r @ [b]) ?t"
    using sha_inv_put [OF assms, of b] by (simp add: Let_def len)
  have i: "sha_index ?t = length r + 1" using t by (simp add: sha_inv_def)
  have c: "sha_char b s = (if sha_index ?t = 64 then flush_block ?t else ?t)"
    by (simp add: sha_char_def Let_def)
  show ?thesis
    using t sha_inv_flush [OF t] unfolding c i by simp
qed

lemma sha_inv_input:
  assumes "length junk = 64"
  shows "\<exists>bls r. input = concat bls @ r \<and> length r < 64 \<and> sha_inv bls r (fold sha_char input (sha_init junk))"
proof (induction input rule: rev_induct)
  case Nil
  show ?case
    by (rule exI [of _ "[]"], rule exI [of _ "[]"]) (use sha_inv_init [OF assms] in simp)
next
  case (snoc b input)
  then obtain bls r where I: "input = concat bls @ r" "length r < 64" "sha_inv bls r (fold sha_char input (sha_init junk))"
    by blast
  note step = sha_inv_char [OF I(3,2), of b]
  show ?case
  proof (cases "length r = 63")
    case True
    then have "input @ [b] = concat (bls @ [r @ [b]]) @ [] \<and> length [] < 64
        \<and> sha_inv (bls @ [r @ [b]]) [] (fold sha_char (input @ [b]) (sha_init junk))"
      using step I by simp
    then show ?thesis by blast
  next
    case False
    then have "input @ [b] = concat bls @ (r @ [b]) \<and> length (r @ [b]) < 64
        \<and> sha_inv bls (r @ [b]) (fold sha_char (input @ [b]) (sha_init junk))"
      using step I by simp
    then show ?thesis by blast
  qed
qed

lemma sha_blocks_concat:
  "\<forall>b\<in>set bls. length b = 64 \<Longrightarrow> length r < 64 \<Longrightarrow> sha_blocks (concat bls @ r) = bls"
proof (induction bls)
  case Nil
  then show ?case by (simp add: sha_blocks.simps)
next
  case (Cons b bls)
  then show ?case by (simp add: sha_blocks.simps [of "b @ concat bls @ r"])
qed

subsection \<open>The length counters\<close>

definition sha_count :: "sha_state \<Rightarrow> nat" where
  "sha_count s = unat (length_high s) * 2 ^ 32 + unat (length_low s)"

lemma sha_count_char:
  assumes "unat (length_low s) mod 8 = 0"
  shows "sha_count (sha_char b s) = (sha_count s + 8) mod 2 ^ 64 \<and> unat (length_low (sha_char b s)) mod 8 = 0"
proof -
  have l: "unat (length_low s) < 2 ^ 32" "unat (length_high s) < 2 ^ 32"
    using unsigned_less [of "length_low s", where ?'a = nat] unsigned_less [of "length_high s", where ?'a = nat] by simp_all
  have f: "length_low (sha_char b s) = length_low s + 8"
    "length_high (sha_char b s) = (if length_low s + 8 = 0 then length_high s + 1 else length_high s)"
    by (simp_all add: sha_char_def Let_def put_byte_def flush_block_def)
  have u: "unat (length_low s + 8) = (unat (length_low s) + 8) mod 2 ^ 32"
    by (simp add: unat_word_ariths)
  have h: "unat (length_high s + 1) = (unat (length_high s) + 1) mod 2 ^ 32"
    by (simp add: unat_word_ariths)
  have z: "length_low s + 8 = 0 \<longleftrightarrow> (unat (length_low s) + 8) mod 2 ^ 32 = 0"
    using u unat_eq_zero by metis
  show ?thesis
  proof (cases "unat (length_low s) + 8 = 2 ^ 32")
    case True
    then have "length_low s + 8 = 0" using z by simp
    then have n: "length_low (sha_char b s) = 0" "length_high (sha_char b s) = length_high s + 1" using f by simp_all
    have "sha_count s + 8 = (unat (length_high s) + 1) * 2 ^ 32" using True by (simp add: sha_count_def)
    then have "(sha_count s + 8) mod 2 ^ 64 = (unat (length_high s) + 1) mod 2 ^ 32 * 2 ^ 32"
      using mod_mult_mult2 [of "unat (length_high s) + 1" "2 ^ 32" "2 ^ 32"] by simp
    then show ?thesis using n h by (simp add: sha_count_def)
  next
    case False
    obtain k where k: "unat (length_low s) = 8 * k" using assms by (auto simp: mod_eq_0_iff_dvd)
    have "unat (length_low s) + 8 < 2 ^ 32" using False l(1) unfolding k by simp
    then have "length_low s + 8 \<noteq> 0" "unat (length_low s + 8) = unat (length_low s) + 8" using z u by simp_all
    moreover have "unat (length_high s) * 2 ^ 32 + (unat (length_low s) + 8) < 2 ^ 64"
      using l(2) \<open>unat (length_low s) + 8 < 2 ^ 32\<close> by simp
    ultimately show ?thesis using f assms by (simp add: sha_count_def)
  qed
qed

lemma sha_count_input:
  "sha_count (fold sha_char input (sha_init junk)) = (8 * length input) mod 2 ^ 64
   \<and> unat (length_low (fold sha_char input (sha_init junk))) mod 8 = 0"
proof (induction input rule: rev_induct)
  case Nil
  then show ?case by (simp add: sha_init_def sha_count_def)
next
  case (snoc b input)
  let ?s = "fold sha_char input (sha_init junk)"
  have "sha_count (sha_char b ?s) = (8 * length input mod 2 ^ 64 + 8) mod 2 ^ 64" "unat (length_low (sha_char b ?s)) mod 8 = 0"
    using sha_count_char [of ?s b] snoc by simp_all
  moreover have "(8 * length input mod 2 ^ 64 + 8) mod 2 ^ 64 = (8 * length (input @ [b])) mod (2 ^ 64)"
    unfolding mod_add_left_eq by (simp add: add.commute)
  ultimately show ?case by simp
qed

lemma le_bytes_app: "le_bytes (j + k) v = le_bytes j v @ le_bytes k (v div 256 ^ j)"
  by (induction j arbitrary: v) (simp_all add: div_mult2_eq)

lemma le_bytes_mod: "le_bytes k (v mod 256 ^ k) = le_bytes k v"
proof (induction k arbitrary: v)
  case (Suc k)
  have "v mod (256 * 256 ^ k) mod 256 = v mod 256" by (simp add: mod_mult2_eq)
  moreover have "v mod (256 * 256 ^ k) div 256 = v div 256 mod 256 ^ k" by (simp add: mod_mult2_eq)
  ultimately show ?case using Suc.IH [of "v div 256"] by simp
qed simp

lemma word_byte: "(ucast (drop_bit n (x :: u32)) :: byte) = of_nat (unat x div 2 ^ n mod 256)"
proof -
  have "unat (drop_bit n x) = drop_bit n (unat x)"
    using unsigned_less [of x, where ?'a = nat] by (simp add: unsigned_drop_bit_eq take_bit_nat_eq_self)
  then have "unat (drop_bit n x) = unat x div 2 ^ n"
    by (simp only: drop_bit_eq_div [of n "unat x"])
  then show ?thesis
    by (simp only: word_unat_eq_iff unat_of_nat unsigned_ucast_eq take_bit_eq_mod) simp
qed

lemma le_bytes_4: "le_bytes 4 v = [of_nat (v mod 256), of_nat (v div 2 ^ 8 mod 256), of_nat (v div 2 ^ 16 mod 256), of_nat (v div 2 ^ 24 mod 256)]"
proof -
  have four: "(4 :: nat) = Suc (Suc (Suc (Suc 0)))" by simp
  show ?thesis unfolding four le_bytes.simps by (simp add: div_mult2_eq [symmetric])
qed

lemma sha_length_bytes_be: "sha_length_bytes x = be_bytes 4 (unat x)"
  using word_byte [of 24 x] word_byte [of 16 x] word_byte [of 8 x] word_byte [of 0 x]
  by (simp add: sha_length_bytes_def be_bytes_def le_bytes_4)

lemma be_bytes_8: "be_bytes 8 (h * 2 ^ 32 + l) = be_bytes 4 h @ be_bytes 4 l" if "l < 2 ^ 32"
proof -
  have "le_bytes (4 + 4) (h * 2 ^ 32 + l) = le_bytes 4 (h * 2 ^ 32 + l) @ le_bytes 4 ((h * 2 ^ 32 + l) div 256 ^ 4)"
    by (rule le_bytes_app)
  moreover have "(h * 2 ^ 32 + l) div 256 ^ 4 = h" using that by simp
  moreover have "le_bytes 4 (h * 2 ^ 32 + l) = le_bytes 4 l"
    using that le_bytes_mod [of 4 "h * 2 ^ 32 + l"] by simp
  ultimately show ?thesis by (simp add: be_bytes_def)
qed

lemma sha_length_field:
  assumes "sha_count s = (8 * n) mod 2 ^ 64"
  shows "sha_length_bytes (length_high s) @ sha_length_bytes (length_low s) = be_bytes 8 (8 * n)"
proof -
  have "unat (length_low s) < 2 ^ 32" using unsigned_less [of "length_low s", where ?'a = nat] by simp
  then have "be_bytes 8 (sha_count s) = sha_length_bytes (length_high s) @ sha_length_bytes (length_low s)"
    unfolding sha_count_def sha_length_bytes_be by (rule be_bytes_8)
  moreover have "be_bytes 8 (sha_count s) = be_bytes 8 (8 * n)"
    using le_bytes_mod [of 8 "8 * n"] by (simp add: assms be_bytes_def)
  ultimately show ?thesis by simp
qed

subsection \<open>Padding\<close>

lemma length_be_bytes [simp]: "length (be_bytes k v) = k"
  by (simp add: be_bytes_def)

lemma sha_finish_blocks:
  assumes inv: "sha_inv bls r s" and r: "length r < 64" and cnt: "sha_count s = (8 * n) mod 2 ^ 64"
  shows "\<exists>bls'. sha_inv bls' [] (sha_finish s)
    \<and> concat bls' = concat bls @ r @ [0x80] @ replicate ((119 - length r) mod 64) 0 @ be_bytes 8 (8 * n)"
proof -
  define s1 where "s1 = put_byte 0x80 s"
  define s2 where "s2 = (if sha_index s1 > 56 then flush_block (zero_to 64 s1) else s1)"
  define s3 where "s3 = zero_to 56 s2"
  define lb where "lb = sha_length_bytes (length_high s3) @ sha_length_bytes (length_low s3)"
  have fin: "sha_finish s = flush_block (fold put_byte lb s3)"
    by (simp add: sha_finish_def s1_def s2_def s3_def lb_def Let_def)
  have put: "length_high (fold put_byte bs t) = length_high t" "length_low (fold put_byte bs t) = length_low t" for bs t
    by (induction bs arbitrary: t) (simp_all add: put_byte_def)
  have zero: "length_high (zero_to n t) = length_high t" "length_low (zero_to n t) = length_low t" for n t
    by (simp_all only: zero_to_def funpow_put put)
  have "sha_count s3 = sha_count s"
    by (simp add: s3_def s2_def s1_def zero flush_block_def put_byte_def sha_count_def)
  then have lb: "lb = be_bytes 8 (8 * n)" unfolding lb_def using sha_length_field cnt by simp
  have i1: "sha_inv bls (r @ [0x80]) s1" unfolding s1_def by (rule sha_inv_put [OF inv r])
  then have x1: "sha_index s1 = length r + 1" by (simp add: sha_inv_def)
  have "\<exists>B R. sha_inv B R s2 \<and> length R \<le> 56
      \<and> concat B @ R @ replicate (56 - length R) 0 = concat bls @ r @ [0x80] @ replicate ((119 - length r) mod 64) 0"
  proof (cases "length r + 1 > 56")
    case True
    have "sha_inv bls ((r @ [0x80]) @ replicate (64 - length (r @ [0x80])) 0) (zero_to 64 s1)"
      by (rule sha_inv_zero [OF i1]) (use r in simp_all)
    from sha_inv_flush [OF this]
    have "sha_inv (bls @ [(r @ [0x80]) @ replicate (63 - length r) 0]) [] s2"
      using True r x1 by (simp add: s2_def)
    moreover have "(119 - length r) mod 64 = (63 - length r) + 56" using True r by (simp add: mod_if)
    then have "replicate ((119 - length r) mod 64) 0 = replicate (63 - length r) 0 @ replicate 56 (0 :: byte)"
      by (simp only: replicate_add)
    ultimately show ?thesis
      by (intro exI [of _ "bls @ [(r @ [0x80]) @ replicate (63 - length r) 0]"] exI [of _ "[]"]) simp
  next
    case False
    then have "(119 - length r) mod 64 = 55 - length r" by (simp add: mod_if)
    then show ?thesis
      using i1 False x1 by (intro exI [of _ bls] exI [of _ "r @ [0x80]"]) (simp add: s2_def)
  qed
  then obtain B R where B: "sha_inv B R s2" "length R \<le> 56"
    and eq: "concat B @ R @ replicate (56 - length R) 0 = concat bls @ r @ [0x80] @ replicate ((119 - length r) mod 64) 0"
    by blast
  have "sha_inv B (R @ replicate (56 - length R) 0) s3" unfolding s3_def by (rule sha_inv_zero [OF B(1,2)]) simp
  then have "sha_inv B ((R @ replicate (56 - length R) 0) @ lb) (fold put_byte lb s3)"
    by (rule sha_inv_puts) (use B(2) lb in simp)
  then have "sha_inv (B @ [(R @ replicate (56 - length R) 0) @ lb]) [] (sha_finish s)"
    unfolding fin by (rule sha_inv_flush) (use B(2) lb in simp)
  moreover have "concat (B @ [(R @ replicate (56 - length R) 0) @ lb]) = (concat B @ R @ replicate (56 - length R) 0) @ lb" by simp
  ultimately show ?thesis unfolding eq lb by (metis append_assoc)
qed

text \<open>C14: The password hash is SHA-1 as specified: for every input, and whatever the
  uninitialised 64-byte buffer holds, \<open>transformToSHA1\<close> prints the chaining value obtained by folding
  the compression function over the 64-byte blocks of the padded message, with the bit length
  in the last eight bytes.\<close>

theorem transformToSHA1_spec:
  assumes "length junk = 64"
  shows "transformToSHA1 junk input = sha_hex (sha1_spec input)"
proof -
  let ?s = "fold sha_char input (sha_init junk)"
  obtain bls r where I: "input = concat bls @ r" "length r < 64" "sha_inv bls r ?s"
    using sha_inv_input [OF assms] by blast
  obtain bls' where fin: "sha_inv bls' [] (sha_finish ?s)"
    and cat: "concat bls' = concat bls @ r @ [0x80] @ replicate ((119 - length r) mod 64) 0 @ be_bytes 8 (8 * length input)"
    using sha_finish_blocks [OF I(3,2)] sha_count_input by blast
  have "\<forall>b\<in>set bls. length b = 64" using I(3) by (simp add: sha_inv_def)
  then have "length (concat bls) = 64 * length bls" by (induction bls) auto
  then have "length input mod 64 = length r" using I(1,2) by simp
  then have "sha_pad input = concat bls' @ []" using I(1) cat by (simp add: sha_pad_def)
  then have "sha_blocks (sha_pad input) = bls'"
    using sha_blocks_concat [of bls' "[]"] fin by (simp add: sha_inv_def)
  then show ?thesis using fin by (simp add: transformToSHA1_def sha1_spec_def sha_inv_def)
qed

text \<open>The hexadecimal form: the loop writes the digits of each byte from the last to the first.\<close>

definition hex_byte :: "byte \<Rightarrow> string" where
  "hex_byte b = [hexDigits ! unat (drop_bit 4 b), hexDigits ! unat (b AND 15)]"

lemma hex_fold:
  "2 * n \<le> length s \<Longrightarrow>
   fold (\<lambda>i s. s[i * 2 := hexDigits ! unat (drop_bit 4 (f i)), i * 2 + 1 := hexDigits ! unat (f i AND 15)]) (rev [0..<n]) s
   = concat (map (\<lambda>i. hex_byte (f i)) [0..<n]) @ drop (2 * n) s"
proof (induction n arbitrary: s)
  case 0
  then show ?case by simp
next
  case (Suc n)
  let ?t = "s[n * 2 := hexDigits ! unat (drop_bit 4 (f n)), n * 2 + 1 := hexDigits ! unat (f n AND 15)]"
  have "drop (2 * n) ?t = hex_byte (f n) @ drop (2 * Suc n) s"
  proof (rule nth_equalityI)
    show "length (drop (2 * n) ?t) = length (hex_byte (f n) @ drop (2 * Suc n) s)"
      using Suc.prems by (simp add: hex_byte_def)
    fix i assume "i < length (drop (2 * n) ?t)"
    then show "drop (2 * n) ?t ! i = (hex_byte (f n) @ drop (2 * Suc n) s) ! i"
      using Suc.prems by (auto simp: hex_byte_def nth_append nth_Cons nth_list_update split: nat.split)
  qed
  then show ?case using Suc.IH [of ?t] Suc.prems by simp
qed

lemma sha_hex_bytes: "sha_hex H = concat (map (\<lambda>i. hex_byte (hash_byte H i)) [0..<20])"
proof -
  have len: "length (concat (map (\<lambda>i. hex_byte (hash_byte H i)) [0..<20])) = 40"
    by (simp add: length_concat comp_def hex_byte_def sum_list_triv)
  show ?thesis
    unfolding sha_hex_def using hex_fold [of 20 "replicate 41 CHR 0x00" "hash_byte H"] len by simp
qed

theorem transformToSHA1_spec_witness:
  "transformToSHA1 (replicate 64 7) [0x61, 0x62, 0x63] = sha_hex (sha1_spec [0x61, 0x62, 0x63])
   \<and> length (transformToSHA1 (replicate 64 7) [0x61, 0x62, 0x63]) = 40"
  using transformToSHA1_spec [of "replicate 64 7" "[0x61, 0x62, 0x63]"]
  by (simp add: sha_hex_bytes length_concat comp_def hex_byte_def sum_list_triv)

end
