(* ===== verification/Vocation_Model.thy ===== *)
theory Vocation_Model
  imports Tools_Model
begin

section \<open>Vocations and their requirement tables\<close>

text \<open>
  \<open>vocation.cpp\<close> and \<open>vocation.h\<close>: the per-level gains of a vocation, the registry, and the two memoised tables a
  player consults when he trains: the mana for a magic level and the tries for a skill level. The
  tables are computed in floating point; the products \<open>400 * pow(\<dots>)\<close> and \<open>skillBase * pow(\<dots>)\<close>, cast to
  64 bits, are the parameters \<open>manaPow\<close> and \<open>skillPow\<close>. The memo of the mana table keeps 64 bits, the memo
  of the skill tables keeps 32: the first is transparent, the second only for entries below \<open>2 ^ 32\<close>.
\<close>

type_synonym u64 = "64 word"
type_synonym mana_table = "u32 \<Rightarrow> u64"
type_synonym skill_table = "nat \<Rightarrow> 16 word \<Rightarrow> u64"

record vocation =
  v_id :: "16 word"
  v_name :: string
  fromVocation :: u32
  gainCap :: u32
  gainMana :: u32
  gainHP :: u32
  v_baseSpeed :: u32
  cacheMana :: "u32 \<rightharpoonup> u64"
  cacheSkill :: "nat \<Rightarrow> (u32 \<rightharpoonup> u32)"

definition new_Vocation :: "16 word \<Rightarrow> vocation" where
  "new_Vocation i = \<lparr>v_id = i, v_name = ''none'', fromVocation = 0, gainCap = 500, gainMana = 5, gainHP = 5,
     v_baseSpeed = 220, cacheMana = Map.empty, cacheSkill = (\<lambda>_. Map.empty)\<rparr>"

definition SKILL_LAST :: nat where
  "SKILL_LAST = 6"

definition getReqSkillTries :: "skill_table \<Rightarrow> vocation \<Rightarrow> nat \<Rightarrow> 16 word \<Rightarrow> u64 \<times> vocation" where
  "getReqSkillTries skillPow v skill lv =
     (if skill > SKILL_LAST then (0, v)
      else case cacheSkill v skill (ucast lv) of
             Some t \<Rightarrow> (ucast t, v)
           | None \<Rightarrow>
               (let tries = skillPow skill lv
                in (tries, v\<lparr>cacheSkill := (cacheSkill v)(skill := (cacheSkill v skill)(ucast lv \<mapsto> ucast tries))\<rparr>)))"

definition roundMana :: "u64 \<Rightarrow> u64" where
  "roundMana reqMana =
     (let modResult = (ucast (reqMana mod 20) :: u32)
      in if modResult < 10 then reqMana - ucast modResult else reqMana - ucast (modResult + 20))"

definition getReqMana :: "mana_table \<Rightarrow> vocation \<Rightarrow> u32 \<Rightarrow> u64 \<times> vocation" where
  "getReqMana manaPow v lv =
     (case cacheMana v lv of
        Some r \<Rightarrow> (r, v)
      | None \<Rightarrow> (let reqMana = roundMana (manaPow lv) in (reqMana, v\<lparr>cacheMana := (cacheMana v)(lv \<mapsto> reqMana)\<rparr>)))"

subsection \<open>The registry\<close>

text \<open>A \<open>std::map\<close> keyed by the id: an association list in increasing order of the keys.\<close>

type_synonym vocations = "(16 word \<times> vocation) list"

definition getVocation :: "vocations \<Rightarrow> 16 word \<Rightarrow> vocation option" where
  "getVocation vs i = map_of vs i"

fun getVocationId :: "vocations \<Rightarrow> string \<Rightarrow> int" where
  "getVocationId [] n = -1"
| "getVocationId ((i, v) # vs) n =
     (if asLowerCaseString (v_name v) = asLowerCaseString n then uint i else getVocationId vs n)"

fun getPromotedVocation :: "vocations \<Rightarrow> 16 word \<Rightarrow> 16 word" where
  "getPromotedVocation [] vid = 0"
| "getPromotedVocation ((i, v) # vs) vid =
     (if fromVocation v = ucast vid \<and> i \<noteq> vid then i else getPromotedVocation vs vid)"

subsection \<open>Memoisation\<close>

definition mana_cache_ok :: "mana_table \<Rightarrow> vocation \<Rightarrow> bool" where
  "mana_cache_ok manaPow v \<longleftrightarrow> (\<forall>lv r. cacheMana v lv = Some r \<longrightarrow> r = roundMana (manaPow lv))"

definition skill_cache_ok :: "skill_table \<Rightarrow> vocation \<Rightarrow> bool" where
  "skill_cache_ok skillPow v \<longleftrightarrow>
     (\<forall>s lv t. cacheSkill v s (ucast lv) = Some t \<longrightarrow> t = ucast (skillPow s lv))"

definition tables_small :: "skill_table \<Rightarrow> bool" where
  "tables_small skillPow \<longleftrightarrow> (\<forall>s lv. unat (skillPow s lv) < 2 ^ 32)"

lemma caches_new [simp]: "mana_cache_ok manaPow (new_Vocation i)" "skill_cache_ok skillPow (new_Vocation i)"
  by (simp_all add: mana_cache_ok_def skill_cache_ok_def new_Vocation_def)

lemma getReqMana_fst: "mana_cache_ok manaPow v \<Longrightarrow> fst (getReqMana manaPow v lv) = roundMana (manaPow lv)"
  by (auto simp: getReqMana_def mana_cache_ok_def Let_def split: option.splits)

lemma getReqMana_ok: "mana_cache_ok manaPow v \<Longrightarrow> mana_cache_ok manaPow (snd (getReqMana manaPow v lv))"
  by (auto simp: getReqMana_def mana_cache_ok_def Let_def split: option.splits)

lemma ucast16_32_inj: "(ucast (a :: 16 word) :: u32) = ucast b \<longleftrightarrow> a = b"
proof
  assume "(ucast a :: u32) = ucast b"
  then have "(ucast (ucast a :: u32) :: 16 word) = ucast (ucast b :: u32)"
    by simp
  then show "a = b"
    by (simp add: ucast_up_ucast_id is_up_def source_size target_size word_size)
qed simp

lemma ucast_small_64_32: "unat (w :: u64) < 2 ^ 32 \<Longrightarrow> (ucast (ucast w :: u32) :: u64) = w"
  by (simp add: word_unat_eq_iff unsigned_ucast_eq unsigned_take_bit_eq take_bit_nat_eq_self)

lemma getReqSkillTries_fst:
  assumes "skill_cache_ok skillPow v" and "tables_small skillPow" and "s \<le> SKILL_LAST"
  shows "fst (getReqSkillTries skillPow v s lv) = skillPow s lv"
proof (cases "cacheSkill v s (ucast lv)")
  case (Some t)
  then have "t = ucast (skillPow s lv)"
    using assms(1) by (simp add: skill_cache_ok_def)
  then show ?thesis
    using assms(2,3) Some ucast_small_64_32 [of "skillPow s lv"]
    by (simp add: getReqSkillTries_def tables_small_def)
qed (use assms(3) in \<open>simp add: getReqSkillTries_def Let_def\<close>)

lemma getReqSkillTries_ok: "skill_cache_ok skillPow v \<Longrightarrow> skill_cache_ok skillPow (snd (getReqSkillTries skillPow v s lv))"
  by (auto simp: getReqSkillTries_def skill_cache_ok_def Let_def ucast16_32_inj split: option.splits)

lemma getReqMana_keeps [simp]:
  "cacheSkill (snd (getReqMana manaPow v lv)) = cacheSkill v"
  "gainHP (snd (getReqMana manaPow v lv)) = gainHP v" "gainMana (snd (getReqMana manaPow v lv)) = gainMana v"
  "gainCap (snd (getReqMana manaPow v lv)) = gainCap v" "v_id (snd (getReqMana manaPow v lv)) = v_id v"
  "skill_cache_ok skillPow (snd (getReqMana manaPow v lv)) = skill_cache_ok skillPow v"
  by (simp_all add: getReqMana_def Let_def skill_cache_ok_def split: option.splits)

lemma getReqSkillTries_keeps [simp]:
  "cacheMana (snd (getReqSkillTries skillPow v s lv)) = cacheMana v"
  "gainHP (snd (getReqSkillTries skillPow v s lv)) = gainHP v"
  "gainMana (snd (getReqSkillTries skillPow v s lv)) = gainMana v"
  "gainCap (snd (getReqSkillTries skillPow v s lv)) = gainCap v"
  "v_id (snd (getReqSkillTries skillPow v s lv)) = v_id v"
  "mana_cache_ok manaPow (snd (getReqSkillTries skillPow v s lv)) = mana_cache_ok manaPow v"
  by (simp_all add: getReqSkillTries_def Let_def mana_cache_ok_def split: option.splits)

text \<open>Any sequence of lookups of a vocation: the answers in order.\<close>

datatype lookup = ManaFor u32 | TriesFor nat "16 word"

fun run_lookups :: "mana_table \<Rightarrow> skill_table \<Rightarrow> vocation \<Rightarrow> lookup list \<Rightarrow> u64 list" where
  "run_lookups manaPow skillPow v [] = []"
| "run_lookups manaPow skillPow v (ManaFor lv # ls) =
     (case getReqMana manaPow v lv of (r, v') \<Rightarrow> r # run_lookups manaPow skillPow v' ls)"
| "run_lookups manaPow skillPow v (TriesFor s lv # ls) =
     (case getReqSkillTries skillPow v s lv of (r, v') \<Rightarrow> r # run_lookups manaPow skillPow v' ls)"

fun answer :: "mana_table \<Rightarrow> skill_table \<Rightarrow> lookup \<Rightarrow> u64" where
  "answer manaPow skillPow (ManaFor lv) = roundMana (manaPow lv)"
| "answer manaPow skillPow (TriesFor s lv) = (if s > SKILL_LAST then 0 else skillPow s lv)"

lemma run_lookups_ok:
  assumes "mana_cache_ok manaPow v" and "skill_cache_ok skillPow v" and "tables_small skillPow"
  shows "run_lookups manaPow skillPow v ls = map (answer manaPow skillPow) ls"
  using assms(1,2)
proof (induction ls arbitrary: v)
  case (Cons l ls)
  show ?case
  proof (cases l)
    case (ManaFor lv)
    then show ?thesis
      using Cons getReqMana_fst [OF Cons.prems(1)] getReqMana_ok [OF Cons.prems(1)]
      by (simp add: case_prod_beta)
  next
    case (TriesFor s lv)
    have "fst (getReqSkillTries skillPow v s lv) = answer manaPow skillPow l"
      using getReqSkillTries_fst [OF Cons.prems(2) assms(3)] TriesFor
      by (simp add: getReqSkillTries_def)
    then show ?thesis
      using TriesFor Cons getReqSkillTries_ok [OF Cons.prems(2)] by (simp add: case_prod_beta)
  qed
qed simp

text \<open>Memoisation of the requirement tables is transparent as long as every skill entry fits
  the 32-bit memo: starting from a fresh vocation, any sequence of lookups answers what the formula gives.\<close>

lemma requirement_tables_transparent:
  assumes "tables_small skillPow"
  shows "run_lookups manaPow skillPow (new_Vocation i) ls = map (answer manaPow skillPow) ls"
  by (rule run_lookups_ok [OF caches_new assms])

lemma requirement_tables_transparent_witness:
  "run_lookups (\<lambda>lv. 400) (\<lambda>s lv. 50) (new_Vocation 4)
     [TriesFor 2 11, ManaFor 1, TriesFor 2 11, ManaFor 1, TriesFor 9 11] = [50, 400, 50, 400, 0]"
  using requirement_tables_transparent [of "\<lambda>s lv. 50" "\<lambda>lv. 400" 4
      "[TriesFor 2 11, ManaFor 1, TriesFor 2 11, ManaFor 1, TriesFor 9 11]"]
  by (simp add: tables_small_def SKILL_LAST_def roundMana_def)

text \<open>Without that bound the memo is not transparent: the second lookup of an entry returns its
  low 32 bits, so asking twice for a table entry of \<open>2 ^ 32\<close> or more gives two answers.\<close>

lemma skill_memo_truncates:
  assumes "s \<le> SKILL_LAST"
  shows "run_lookups manaPow skillPow (new_Vocation i) [TriesFor s lv, TriesFor s lv]
           = [skillPow s lv, ucast (ucast (skillPow s lv) :: u32)]
         \<and> (2 ^ 32 \<le> unat (skillPow s lv) \<longrightarrow> ucast (ucast (skillPow s lv) :: u32) \<noteq> skillPow s lv)"
proof (intro conjI impI)
  show "run_lookups manaPow skillPow (new_Vocation i) [TriesFor s lv, TriesFor s lv]
          = [skillPow s lv, ucast (ucast (skillPow s lv) :: u32)]"
    using assms by (simp add: getReqSkillTries_def new_Vocation_def Let_def)
next
  assume "2 ^ 32 \<le> unat (skillPow s lv)"
  moreover have "unat (ucast (ucast (skillPow s lv) :: u32) :: u64) < 2 ^ 32"
    using take_bit_nat_less_exp [of 32 "unat (skillPow s lv)"]
    by (simp add: unsigned_ucast_eq unsigned_take_bit_eq)
  ultimately show "ucast (ucast (skillPow s lv) :: u32) \<noteq> skillPow s lv"
    by (metis not_le)
qed

lemma skill_memo_truncates_witness:
  "run_lookups (\<lambda>lv. 400) (\<lambda>s lv. 4294967346) (new_Vocation 4) [TriesFor 0 200, TriesFor 0 200] = [4294967346, 50]"
  using skill_memo_truncates [of 0 "\<lambda>lv. 400" "\<lambda>s lv. 4294967346" 4 200]
  by (simp add: SKILL_LAST_def)

end
