(* ===== verification/Player_Growth.thy ===== *)
theory Player_Growth
  imports Vocation_Model Position_Model
begin

section \<open>Experience, levels, skills and magic\<close>

text \<open>
  The part of \<open>player.cpp\<close> that makes a player grow and shrink: \<open>addExperience\<close>, \<open>removeExperience\<close>,
  \<open>addSkillAdvance\<close>, \<open>addManaSpent\<close>, \<open>addOfflineTrainingTries\<close> and \<open>death\<close>, with every counter at its
  width. Parameters: the floating-point tables of the vocation (\<open>manaPow\<close>, \<open>skillPow\<close>), the floating-point
  product with the death penalty (\<open>lossOf\<close>, \<open>lossOf32\<close>), and the script hooks, functions from the
  proposed amount to the amount the script leaves. What is sent to the client or handed to another component is a list of notices.

  The theorems of this theory: the level is always the one the experience points stand for and the stat gains are exactly
  the vocation's per level. Training and death are the subject of the next theory.
\<close>

subsection \<open>State\<close>

record skill =
  sk_tries :: u64
  sk_level :: "16 word"
  sk_percent :: byte

definition new_Skill :: skill where
  "new_Skill = \<lparr>sk_tries = 0, sk_level = 10, sk_percent = 0\<rparr>"

datatype notice =
    SendStats
  | SendSkills
  | GainedExp u64
  | LostExp u64
  | ChangeSpeed
  | HealthBar
  | PartyShare
  | PlayerAdvance nat u32 u32
  | AdvancedSkill nat
  | AdvancedMagic u32
  | AdvancedLevel u32 u32
  | DowngradedLevel u32 u32
  | TrainingReport nat
  | EndCondition int
  | Teleported Position
  | ThinkTick
  | IdleStatus

record held_condition =
  hc_id :: int
  hc_ticks :: int

definition isPersistent :: "held_condition \<Rightarrow> bool" where
  "isPersistent c \<longleftrightarrow> hc_ticks c \<noteq> -1 \<and> (hc_id c = -1 \<or> hc_id c = 0)"

record growth =
  g_level :: u32
  experience :: u64
  levelPercent :: byte
  magLevel :: u32
  manaSpent :: u64
  magLevelPercent :: byte
  g_health :: u32
  healthMax :: u32
  g_mana :: u32
  manaMax :: u32
  capacity :: u32
  baseSpeed :: u32
  skills :: "skill list"
  g_voc :: vocation
  blessings :: byte
  skillLoss :: bool
  held :: "held_condition list"
  loginPosition :: Position
  inParty :: bool
  flag_NotGainMana :: bool
  flag_NotGainExperience :: bool
  flag_SetMaxSpeed :: bool
  sent :: "notice list"

definition tell :: "notice list \<Rightarrow> growth \<Rightarrow> growth" where
  "tell ns p = p\<lparr>sent := sent p @ ns\<rparr>"

definition reqMana :: "mana_table \<Rightarrow> growth \<Rightarrow> u32 \<Rightarrow> u64 \<times> growth" where
  "reqMana manaPow p lv = (case getReqMana manaPow (g_voc p) lv of (r, v) \<Rightarrow> (r, p\<lparr>g_voc := v\<rparr>))"

definition reqTries :: "skill_table \<Rightarrow> growth \<Rightarrow> nat \<Rightarrow> 16 word \<Rightarrow> u64 \<times> growth" where
  "reqTries skillPow p s lv = (case getReqSkillTries skillPow (g_voc p) s lv of (r, v) \<Rightarrow> (r, p\<lparr>g_voc := v\<rparr>))"

subsection \<open>Arithmetic\<close>

definition getExpForLevel :: "u32 \<Rightarrow> u64" where
  "getExpForLevel lv =
     (let l = (scast (lv - 1) :: u64) in (50 * l * l * l - 150 * l * l + 400 * l) div 3)"

definition getPercentLevel :: "u64 \<Rightarrow> u64 \<Rightarrow> byte" where
  "getPercentLevel count nextLevelCount =
     (if nextLevelCount = 0 then 0
      else let result = (ucast ((count * 100) div nextLevelCount) :: byte) in if result > 100 then 0 else result)"

text \<open>\<open>std::max<int64_t>(0, w)\<close> and \<open>std::max<int32_t>(0, w)\<close> of an unsigned difference.\<close>

definition smax64 :: "u64 \<Rightarrow> u64" where
  "smax64 w = (if sint w < 0 then 0 else w)"

definition smax32 :: "u32 \<Rightarrow> u32" where
  "smax32 w = (if sint w < 0 then 0 else w)"

definition updateBaseSpeed :: "growth \<Rightarrow> growth" where
  "updateBaseSpeed p =
     p\<lparr>baseSpeed := (if \<not> flag_SetMaxSpeed p then v_baseSpeed (g_voc p) + 2 * (g_level p - 1) else 1500)\<rparr>"

definition updateLevelPercent :: "u64 \<Rightarrow> u64 \<Rightarrow> growth \<Rightarrow> growth" where
  "updateLevelPercent currLevelExp nextLevelExp p =
     p\<lparr>levelPercent :=
         (if nextLevelExp > currLevelExp
          then getPercentLevel (experience p - currLevelExp) (nextLevelExp - currLevelExp) else 0)\<rparr>"

subsection \<open>Gaining experience\<close>

definition level_up :: "growth \<Rightarrow> growth" where
  "level_up p =
     p\<lparr>g_level := g_level p + 1,
       healthMax := healthMax p + gainHP (g_voc p),
       g_health := g_health p + gainHP (g_voc p),
       manaMax := manaMax p + gainMana (g_voc p),
       g_mana := g_mana p + gainMana (g_voc p),
       capacity := capacity p + gainCap (g_voc p)\<rparr>"

function gain_loop :: "u64 \<Rightarrow> u64 \<Rightarrow> growth \<Rightarrow> u64 \<times> u64 \<times> growth" where
  "gain_loop currLevelExp nextLevelExp p =
     (if experience p \<ge> nextLevelExp then
        let p = level_up p;
            currLevelExp = nextLevelExp;
            nextLevelExp = getExpForLevel (g_level p + 1)
        in if currLevelExp \<ge> nextLevelExp then (currLevelExp, nextLevelExp, p)
           else gain_loop currLevelExp nextLevelExp p
      else (currLevelExp, nextLevelExp, p))"
  by pat_completeness auto
termination
proof (relation "measure (\<lambda>(c, n, p). 2 ^ 64 - unat n)", goal_cases)
  case (2 c n p q c' n')
  have "unat n' < 2 ^ 64"
    using unsigned_less [of n', where ?'a = nat] by simp
  moreover have "unat n < unat n'"
    using 2 by (simp add: not_le word_less_nat_alt)
  ultimately show ?case by (auto intro!: diff_less_mono2)
qed simp

declare gain_loop.simps [simp del]

definition relevel :: "growth \<Rightarrow> growth" where
  "relevel p = tell ([ChangeSpeed, HealthBar] @ (if inParty p then [PartyShare] else [])) (updateBaseSpeed p)"

definition addExperience :: "(growth \<Rightarrow> u64 \<Rightarrow> u64) \<Rightarrow> u64 \<Rightarrow> bool \<Rightarrow> growth \<Rightarrow> growth" where
  "addExperience onGain expr sendText p =
     (let currLevelExp = getExpForLevel (g_level p);
          nextLevelExp = getExpForLevel (g_level p + 1)
      in if currLevelExp \<ge> nextLevelExp then tell [SendStats] (p\<lparr>levelPercent := 0\<rparr>)
         else let expr = onGain p expr
         in if expr = 0 then p
         else let p = p\<lparr>experience := experience p + expr\<rparr>;
                  p = (if sendText then tell [GainedExp expr] p else p);
                  prevLevel = g_level p
         in case gain_loop currLevelExp nextLevelExp p of (currLevelExp, nextLevelExp, p) \<Rightarrow>
              let p = (if prevLevel \<noteq> g_level p
                       then tell [PlayerAdvance 8 prevLevel (g_level p), AdvancedLevel prevLevel (g_level p)] (relevel p)
                       else p)
              in tell [SendStats] (updateLevelPercent currLevelExp nextLevelExp p))"

definition gainExperience :: "(growth \<Rightarrow> u64 \<Rightarrow> u64) \<Rightarrow> u64 \<Rightarrow> growth \<Rightarrow> growth" where
  "gainExperience onGain gainExp p =
     (if flag_NotGainExperience p \<or> gainExp = 0 then p else addExperience onGain gainExp True p)"

subsection \<open>Losing experience\<close>

definition level_down :: "growth \<Rightarrow> growth" where
  "level_down p =
     p\<lparr>g_level := g_level p - 1,
       healthMax := smax32 (healthMax p - gainHP (g_voc p)),
       manaMax := smax32 (manaMax p - gainMana (g_voc p)),
       capacity := smax32 (capacity p - gainCap (g_voc p))\<rparr>"

function lose_loop :: "growth \<Rightarrow> growth" where
  "lose_loop p =
     (if g_level p > 1 \<and> experience p < getExpForLevel (g_level p) then lose_loop (level_down p) else p)"
  by pat_completeness auto
termination
proof (relation "measure (\<lambda>p. unat (g_level p))", goal_cases)
  case (2 p)
  then have "g_level p \<noteq> 0" by auto
  then show ?case by (simp add: level_down_def unat_minus_one unat_gt_0)
qed simp

declare lose_loop.simps [simp del]

definition removeExperience :: "(growth \<Rightarrow> u64 \<Rightarrow> u64) \<Rightarrow> u64 \<Rightarrow> bool \<Rightarrow> growth \<Rightarrow> growth" where
  "removeExperience onLose expr sendText p =
     (if experience p = 0 \<or> expr = 0 then p
      else let expr = onLose p expr
      in if expr = 0 then p
      else let lostExp = experience p;
               p = p\<lparr>experience := smax64 (experience p - expr)\<rparr>;
               p = (if sendText then tell [LostExp (lostExp - experience p)] p else p);
               oldLevel = g_level p;
               p = lose_loop p;
               currLevelExp = getExpForLevel (g_level p);
               p = (if oldLevel \<noteq> g_level p
                    then tell [DowngradedLevel oldLevel (g_level p)]
                           (relevel (p\<lparr>g_health := healthMax p, g_mana := manaMax p\<rparr>))
                    else p);
               nextLevelExp = getExpForLevel (g_level p + 1)
           in tell [SendStats] (updateLevelPercent currLevelExp nextLevelExp p))"

subsection \<open>Training magic\<close>

text \<open>The loop of \<open>addManaSpent\<close> and of the first half of \<open>addOfflineTrainingTries\<close>; only the former tells the
  player about every step. The flag of the result says that the loop left at the highest magic level.\<close>

function mana_loop :: "mana_table \<Rightarrow> bool \<Rightarrow> u64 \<Rightarrow> u64 \<Rightarrow> u64 \<Rightarrow> growth \<Rightarrow> bool \<times> u64 \<times> u64 \<times> u64 \<times> growth" where
  "mana_loop manaPow talk currReqMana nextReqMana amount p =
     (if manaSpent p + amount \<ge> nextReqMana then
        let amount = amount - (nextReqMana - manaSpent p);
            p = p\<lparr>magLevel := magLevel p + 1, manaSpent := 0\<rparr>;
            p = tell ((if talk then [AdvancedMagic (magLevel p)] else []) @ [PlayerAdvance 7 (magLevel p - 1) (magLevel p)]) p;
            currReqMana = nextReqMana;
            rp = reqMana manaPow p (magLevel p + 1);
            nextReqMana = fst rp
        in if currReqMana \<ge> nextReqMana then (True, currReqMana, nextReqMana, amount, snd rp)
           else mana_loop manaPow talk currReqMana nextReqMana amount (snd rp)
      else (False, currReqMana, nextReqMana, amount, p))"
  by pat_completeness auto
termination
proof (relation "measure (\<lambda>(t, k, c, n, a, p). 2 ^ 64 - unat n)", goal_cases)
  case (2 t k c n a p a' p1 p2 c' rp n')
  then show ?case
    using unsigned_less [of n', where ?'a = nat] by (auto simp: not_le word_less_nat_alt intro!: diff_less_mono2)
qed simp

declare mana_loop.simps [simp del]

definition manaPercent :: "u64 \<Rightarrow> u64 \<Rightarrow> growth \<Rightarrow> byte" where
  "manaPercent currReqMana nextReqMana p =
     (if nextReqMana > currReqMana then getPercentLevel (manaSpent p) nextReqMana else 0)"

definition addManaSpent :: "mana_table \<Rightarrow> (nat \<Rightarrow> u64 \<Rightarrow> u64) \<Rightarrow> u64 \<Rightarrow> growth \<Rightarrow> growth" where
  "addManaSpent manaPow onTries amount p =
     (if flag_NotGainMana p then p
      else case reqMana manaPow p (magLevel p) of (currReqMana, p) \<Rightarrow>
           case reqMana manaPow p (magLevel p + 1) of (nextReqMana, p) \<Rightarrow>
      if currReqMana \<ge> nextReqMana then p
      else let amount = onTries 7 amount
      in if amount = 0 then p
      else case mana_loop manaPow True currReqMana nextReqMana amount p of (maxed, currReqMana, nextReqMana, amount, q) \<Rightarrow>
           if maxed then q
           else let sendUpdateStats = (magLevel q \<noteq> magLevel p);
                    oldPercent = magLevelPercent q;
                    q = q\<lparr>manaSpent := manaSpent q + amount\<rparr>;
                    q = q\<lparr>magLevelPercent := manaPercent currReqMana nextReqMana q\<rparr>
                in if sendUpdateStats \<or> oldPercent \<noteq> magLevelPercent q then tell [SendStats] q else q)"

subsection \<open>Training skills\<close>

definition upd_skill :: "nat \<Rightarrow> (skill \<Rightarrow> skill) \<Rightarrow> growth \<Rightarrow> growth" where
  "upd_skill s f p = p\<lparr>skills := (skills p)[s := f (skills p ! s)]\<rparr>"

function skill_loop :: "skill_table \<Rightarrow> bool \<Rightarrow> nat \<Rightarrow> u64 \<Rightarrow> u64 \<Rightarrow> u64 \<Rightarrow> growth \<Rightarrow> u64 \<times> u64 \<times> u64 \<times> growth" where
  "skill_loop skillPow talk s currReqTries nextReqTries count p =
     (if sk_tries (skills p ! s) + count \<ge> nextReqTries then
        let count = count - (nextReqTries - sk_tries (skills p ! s));
            p = upd_skill s (\<lambda>k. k\<lparr>sk_level := sk_level k + 1, sk_tries := 0, sk_percent := 0\<rparr>) p;
            lv = sk_level (skills p ! s);
            p = tell ((if talk then [AdvancedSkill s] else []) @ [PlayerAdvance s (ucast lv - 1) (ucast lv)]) p;
            currReqTries = nextReqTries;
            rp = reqTries skillPow p s (lv + 1);
            nextReqTries = fst rp
        in if currReqTries \<ge> nextReqTries then (currReqTries, nextReqTries, 0, snd rp)
           else skill_loop skillPow talk s currReqTries nextReqTries count (snd rp)
      else (currReqTries, nextReqTries, count, p))"
  by pat_completeness auto
termination
proof (relation "measure (\<lambda>(t, k, s, c, n, a, p). 2 ^ 64 - unat n)", goal_cases)
  case (2 t k s c n a p a' p1 lv p2 c' rp n')
  then show ?case
    using unsigned_less [of n', where ?'a = nat] by (auto simp: not_le word_less_nat_alt intro!: diff_less_mono2)
qed simp

declare skill_loop.simps [simp del]

definition triesPercent :: "nat \<Rightarrow> u64 \<Rightarrow> u64 \<Rightarrow> growth \<Rightarrow> byte" where
  "triesPercent s currReqTries nextReqTries p =
     (if nextReqTries > currReqTries then getPercentLevel (sk_tries (skills p ! s)) nextReqTries else 0)"

definition addSkillAdvance :: "skill_table \<Rightarrow> (nat \<Rightarrow> u64 \<Rightarrow> u64) \<Rightarrow> nat \<Rightarrow> u64 \<Rightarrow> growth \<Rightarrow> growth" where
  "addSkillAdvance skillPow onTries s count p =
     (case reqTries skillPow p s (sk_level (skills p ! s)) of (currReqTries, p) \<Rightarrow>
      case reqTries skillPow p s (sk_level (skills p ! s) + 1) of (nextReqTries, p) \<Rightarrow>
      if currReqTries \<ge> nextReqTries then p
      else let count = onTries s count
      in if count = 0 then p
      else case skill_loop skillPow True s currReqTries nextReqTries count p of (currReqTries, nextReqTries, count, q) \<Rightarrow>
           let sendUpdateSkills = (sk_level (skills q ! s) \<noteq> sk_level (skills p ! s));
               q = upd_skill s (\<lambda>k. k\<lparr>sk_tries := sk_tries k + count\<rparr>) q;
               newPercent = triesPercent s currReqTries nextReqTries q;
               changed = (sk_percent (skills q ! s) \<noteq> newPercent);
               q = upd_skill s (\<lambda>k. k\<lparr>sk_percent := newPercent\<rparr>) q
           in if sendUpdateSkills \<or> changed then tell [SendSkills] q else q)"

subsection \<open>Training while offline\<close>

definition offline_magic :: "mana_table \<Rightarrow> (nat \<Rightarrow> u64 \<Rightarrow> u64) \<Rightarrow> u64 \<Rightarrow> growth \<Rightarrow> bool \<times> growth" where
  "offline_magic manaPow onTries tries p =
     (case reqMana manaPow p (magLevel p) of (currReqMana, p) \<Rightarrow>
      case reqMana manaPow p (magLevel p + 1) of (nextReqMana, p) \<Rightarrow>
      if currReqMana \<ge> nextReqMana then (False, p)
      else case mana_loop manaPow False currReqMana nextReqMana (onTries 7 tries) p of
             (maxed, currReqMana, nextReqMana, tries, q) \<Rightarrow>
           let q = q\<lparr>manaSpent := manaSpent q + (if maxed then 0 else tries)\<rparr>;
               advanced = (magLevel q \<noteq> magLevel p);
               q = (if advanced then tell [AdvancedMagic (magLevel q)] q else q);
               newPercent = manaPercent currReqMana nextReqMana q;
               changed = (newPercent \<noteq> magLevelPercent q);
               q = q\<lparr>magLevelPercent := newPercent\<rparr>;
               sendUpdate = (advanced \<or> changed)
           in (sendUpdate, tell ((if sendUpdate then [SendSkills] else []) @ [TrainingReport 7]) q))"

definition offline_skill :: "skill_table \<Rightarrow> (nat \<Rightarrow> u64 \<Rightarrow> u64) \<Rightarrow> nat \<Rightarrow> u64 \<Rightarrow> growth \<Rightarrow> bool \<times> growth" where
  "offline_skill skillPow onTries s tries p =
     (case reqTries skillPow p s (sk_level (skills p ! s)) of (currReqTries, p) \<Rightarrow>
      case reqTries skillPow p s (sk_level (skills p ! s) + 1) of (nextReqTries, p) \<Rightarrow>
      if currReqTries \<ge> nextReqTries then (False, p)
      else case skill_loop skillPow False s currReqTries nextReqTries (onTries s tries) p of
             (currReqTries, nextReqTries, tries, q) \<Rightarrow>
           let q = upd_skill s (\<lambda>k. k\<lparr>sk_tries := sk_tries k + tries\<rparr>) q;
               advanced = (sk_level (skills q ! s) \<noteq> sk_level (skills p ! s));
               q = (if advanced then tell [AdvancedSkill s] q else q);
               newPercent = triesPercent s currReqTries nextReqTries q;
               changed = (sk_percent (skills q ! s) \<noteq> newPercent);
               q = upd_skill s (\<lambda>k. k\<lparr>sk_percent := newPercent\<rparr>) q;
               sendUpdate = (advanced \<or> changed)
           in (sendUpdate, tell ((if sendUpdate then [SendSkills] else []) @ [TrainingReport s]) q))"

definition addOfflineTrainingTries ::
    "mana_table \<Rightarrow> skill_table \<Rightarrow> (nat \<Rightarrow> u64 \<Rightarrow> u64) \<Rightarrow> nat \<Rightarrow> u64 \<Rightarrow> growth \<Rightarrow> bool \<times> growth" where
  "addOfflineTrainingTries manaPow skillPow onTries s tries p =
     (if tries = 0 \<or> s = 8 then (False, p)
      else if s = 7 then offline_magic manaPow onTries tries p
      else offline_skill skillPow onTries s tries p)"

subsection \<open>Death\<close>

text \<open>The two summing loops count an unsigned index up to and including the level: at the largest level
  of the type the index wraps and the loop does not end, hence \<open>option\<close>.\<close>

partial_function (option) sum_mana :: "mana_table \<Rightarrow> u32 \<Rightarrow> u32 \<Rightarrow> u64 \<Rightarrow> growth \<Rightarrow> (u64 \<times> growth) option" where
  "sum_mana manaPow m i acc p =
     (if i \<le> m then (case reqMana manaPow p i of (r, p) \<Rightarrow> sum_mana manaPow m (i + 1) (acc + r) p)
      else Some (acc, p))"

partial_function (option) sum_tries :: "skill_table \<Rightarrow> nat \<Rightarrow> 16 word \<Rightarrow> 16 word \<Rightarrow> u64 \<Rightarrow> growth \<Rightarrow> (u64 \<times> growth) option" where
  "sum_tries skillPow s m c acc p =
     (if c \<le> m then (case reqTries skillPow p s c of (r, p) \<Rightarrow> sum_tries skillPow s m (c + 1) (acc + r) p)
      else Some (acc, p))"

function lose_mana :: "mana_table \<Rightarrow> u64 \<Rightarrow> growth \<Rightarrow> u64 \<times> growth" where
  "lose_mana manaPow lostMana p =
     (if lostMana > manaSpent p \<and> magLevel p > 0 then
        let lostMana = lostMana - manaSpent p;
            rp = reqMana manaPow p (magLevel p);
            p = (snd rp)\<lparr>manaSpent := fst rp, magLevel := magLevel p - 1\<rparr>
        in lose_mana manaPow lostMana p
      else (lostMana, p))"
  by pat_completeness auto
termination
proof (relation "measure (\<lambda>(t, l, p). unat (magLevel p))", goal_cases)
  case (2 t l p l' rp p')
  then have "magLevel p \<noteq> 0" by auto
  then show ?case using 2 by (simp add: unat_minus_one unat_gt_0)
qed simp

declare lose_mana.simps [simp del]

definition death_mana :: "mana_table \<Rightarrow> (u64 \<Rightarrow> u64) \<Rightarrow> growth \<Rightarrow> growth option" where
  "death_mana manaPow lossOf p =
     (case sum_mana manaPow (magLevel p) 1 0 p of
        None \<Rightarrow> None
      | Some (sumMana, p) \<Rightarrow>
          (let sumMana = sumMana + manaSpent p
           in case lose_mana manaPow (lossOf sumMana) p of (lostMana, p) \<Rightarrow>
              let p = p\<lparr>manaSpent := manaSpent p - lostMana\<rparr>
              in case reqMana manaPow p (magLevel p + 1) of (nextReqMana, p) \<Rightarrow>
                 case reqMana manaPow p (magLevel p) of (currReqMana, p) \<Rightarrow>
                   Some (p\<lparr>magLevelPercent := manaPercent currReqMana nextReqMana p\<rparr>)))"

function lose_tries :: "skill_table \<Rightarrow> nat \<Rightarrow> u32 \<Rightarrow> growth \<Rightarrow> u32 \<times> growth" where
  "lose_tries skillPow s lost p =
     (if s < length (skills p) \<and> ucast lost > sk_tries (skills p ! s) then
        let lost = ucast (ucast lost - sk_tries (skills p ! s))
        in if sk_level (skills p ! s) \<le> 10 then (0, upd_skill s (\<lambda>k. k\<lparr>sk_level := 10, sk_tries := 0\<rparr>) p)
           else let rp = reqTries skillPow p s (sk_level (skills p ! s));
                    p = upd_skill s (\<lambda>k. k\<lparr>sk_tries := fst rp, sk_level := sk_level k - 1\<rparr>) (snd rp)
                in lose_tries skillPow s lost p
      else (lost, p))"
  by pat_completeness auto
termination
proof (relation "measure (\<lambda>(t, s, l, p). unat (sk_level (skills p ! s)))", goal_cases)
  case (2 t s l p l' rp p')
  then have "sk_level (skills p ! s) \<noteq> 0" by auto
  then show ?case using 2 by (simp add: unat_minus_one unat_gt_0 upd_skill_def reqTries_def case_prod_beta)
qed simp

declare lose_tries.simps [simp del]

text \<open>The code indexes \<open>skills\<close> without a check; the test of the index in \<open>lose_tries\<close> always holds for the seven
  skills of a player and is there for the recursion to be well founded.\<close>

definition death_skill :: "skill_table \<Rightarrow> (u64 \<Rightarrow> u32) \<Rightarrow> nat \<Rightarrow> growth \<Rightarrow> growth option" where
  "death_skill skillPow lossOf32 s p =
     (case sum_tries skillPow s (sk_level (skills p ! s)) 11 0 p of
        None \<Rightarrow> None
      | Some (sumSkillTries, p) \<Rightarrow>
          (let sumSkillTries = sumSkillTries + sk_tries (skills p ! s)
           in case lose_tries skillPow s (lossOf32 sumSkillTries) p of (lost, p) \<Rightarrow>
              let p = upd_skill s (\<lambda>k. k\<lparr>sk_tries := scast (smax32 (ucast (sk_tries k - ucast lost)))\<rparr>) p
              in case reqTries skillPow p s (sk_level (skills p ! s)) of (r, p) \<Rightarrow>
                   Some (upd_skill s (\<lambda>k. k\<lparr>sk_percent := getPercentLevel (sk_tries k) r\<rparr>) p)))"

fun death_skills :: "skill_table \<Rightarrow> (u64 \<Rightarrow> u32) \<Rightarrow> nat list \<Rightarrow> growth \<Rightarrow> growth option" where
  "death_skills skillPow lossOf32 [] p = Some p"
| "death_skills skillPow lossOf32 (s # ss) p =
     (case death_skill skillPow lossOf32 s p of
        None \<Rightarrow> None
      | Some p \<Rightarrow> death_skills skillPow lossOf32 ss p)"

definition death_level :: "(growth \<Rightarrow> u64 \<Rightarrow> u64) \<Rightarrow> (u64 \<Rightarrow> u64) \<Rightarrow> growth \<Rightarrow> growth" where
  "death_level onLose lossOf p =
     (let expLoss = onLose p (lossOf (experience p))
      in if expLoss = 0 then p
      else let oldLevel = g_level p;
               p = (if v_id (g_voc p) = 0 \<or> g_level p > 7 then p\<lparr>experience := experience p - expLoss\<rparr> else p);
               p = lose_loop p;
               p = (if oldLevel \<noteq> g_level p then tell [DowngradedLevel oldLevel (g_level p)] p else p)
           in updateLevelPercent (getExpForLevel (g_level p)) (getExpForLevel (g_level p + 1)) p)"

definition death_blessings :: "bool \<Rightarrow> byte \<Rightarrow> byte" where
  "death_blessings lastHitPlayer b =
     (if bit b 5 then (if lastHitPlayer then unset_bit 5 (take_bit 6 b) else 32) else 0)"

definition death_conditions :: "growth \<Rightarrow> growth" where
  "death_conditions p =
     tell (map (\<lambda>c. EndCondition (hc_id c)) (filter isPersistent (held p)))
       (p\<lparr>held := filter (\<lambda>c. \<not> isPersistent c) (held p)\<rparr>)"

definition death :: "mana_table \<Rightarrow> skill_table \<Rightarrow> (growth \<Rightarrow> u64 \<Rightarrow> u64) \<Rightarrow> (growth \<Rightarrow> u64 \<Rightarrow> u64) \<Rightarrow> (growth \<Rightarrow> u64 \<Rightarrow> u32)
    \<Rightarrow> Position \<Rightarrow> bool \<Rightarrow> growth \<Rightarrow> growth option" where
  "death manaPow skillPow onLose lossOf lossOf32 temple lastHitPlayer p =
     (let p0 = p\<lparr>loginPosition := temple\<rparr>
      in if skillLoss p0 then
           (case death_mana manaPow (lossOf p0) p0 of
              None \<Rightarrow> None
            | Some p \<Rightarrow>
                (case death_skills skillPow (lossOf32 p0) [0..<7] p of
                   None \<Rightarrow> None
                 | Some p \<Rightarrow>
                     (let p = death_level onLose (lossOf p0) p;
                          p = p\<lparr>blessings := death_blessings lastHitPlayer (blessings p)\<rparr>;
                          p = tell [SendStats, SendSkills] p;
                          p = p\<lparr>g_health := healthMax p, g_mana := manaMax p\<rparr>
                      in Some (death_conditions p))))
         else let p = death_conditions (p0\<lparr>skillLoss := True\<rparr>);
                  p = p\<lparr>g_health := healthMax p\<rparr>
              in Some (tell [Teleported temple, HealthBar, ThinkTick, IdleStatus, SendStats] p))"


subsection \<open>The experience table\<close>

text \<open>Reference: the points from level to level, added up. Level \<open>n + 1\<close> starts at \<open>exp_ref n\<close>.\<close>

primrec exp_ref :: "nat \<Rightarrow> nat" where
  "exp_ref 0 = 0"
| "exp_ref (Suc n) = exp_ref n + 50 * (n * n + 2 - n)"

lemma exp_ref_cubic: "3 * exp_ref n + 150 * n * n = 50 * n * n * n + 400 * n"
proof (induction n)
  case (Suc n)
  have "n \<le> n * n + 2" by (cases n) simp_all
  then have "3 * (50 * (n * n + 2 - n)) + 150 * n = 150 * n * n + 300"
    by (simp add: algebra_simps)
  with Suc show ?case
    by (simp add: algebra_simps)
qed simp

lemma exp_ref_mono: "strict_mono exp_ref"
proof (rule strict_mono_Suc_iff [THEN iffD2], rule allI)
  fix n :: nat
  have "n < n * n + 2" by (cases n) simp_all
  then show "exp_ref n < exp_ref (Suc n)" by simp
qed

lemma exp_ref_less [simp]: "exp_ref m < exp_ref n \<longleftrightarrow> m < n"
  by (rule strict_mono_less [OF exp_ref_mono])

lemma exp_ref_le [simp]: "exp_ref m \<le> exp_ref n \<longleftrightarrow> m \<le> n"
  by (rule strict_mono_less_eq [OF exp_ref_mono])

definition max_level :: nat where
  "max_level = 500000"

lemma exp_ref_top: "n \<le> max_level \<Longrightarrow> exp_ref n \<le> 2083320833500000000"
proof -
  assume "n \<le> max_level"
  then have "exp_ref n \<le> exp_ref 500000" by (simp only: exp_ref_le max_level_def)
  moreover have "exp_ref 500000 \<le> 2083320833500000000"
    using exp_ref_cubic [of 500000] by simp
  ultimately show ?thesis by linarith
qed

lemma exp_ref_fits: "n \<le> max_level \<Longrightarrow> 3 * exp_ref n < 2 ^ 64"
  using exp_ref_top [of n] by simp

lemma unat_scast_small: "unat (w :: u32) < 2 ^ 31 \<Longrightarrow> (scast w :: u64) = of_nat (unat w)"
proof -
  assume "unat w < 2 ^ 31"
  then have "unat w < 2147483648"
    by simp
  moreover have u: "uint w = int (unat w)"
    by simp
  ultimately have "uint w < 2147483648"
    by linarith
  moreover have "- 2147483648 \<le> uint w"
    using u by linarith
  ultimately have "sint w = uint w"
    by (simp add: sint_uint signed_take_bit_int_eq_self)
  then show ?thesis
    by (simp add: scast_eq unsigned_of_nat)
qed

lemma getExpForLevel_ref:
  assumes "unat lv = Suc n" and "n \<le> max_level"
  shows "unat (getExpForLevel lv) = exp_ref n"
proof -
  have n: "unat (lv - 1) = n"
    using assms(1) by (metis diff_Suc_1 unat_eq_zero unat_minus_one nat.distinct(1))
  then have l: "(scast (lv - 1) :: u64) = of_nat n"
    using unat_scast_small [of "lv - 1"] assms(2) by (simp add: max_level_def)
  have "(of_nat (3 * exp_ref n + 150 * n * n) :: u64) = of_nat (50 * n * n * n + 400 * n)"
    using exp_ref_cubic [of n] by simp
  then have "50 * of_nat n * of_nat n * of_nat n - 150 * of_nat n * of_nat n + 400 * (of_nat n :: u64) = of_nat (3 * exp_ref n)"
    by (simp add: algebra_simps)
  then have "getExpForLevel lv = of_nat (3 * exp_ref n) div 3"
    unfolding getExpForLevel_def l Let_def by simp
  moreover have "unat (of_nat (3 * exp_ref n) :: u64) = 3 * exp_ref n"
    using exp_ref_fits [OF assms(2)] by (subst unat_of_nat) (simp add: max_level_def)
  ultimately show ?thesis by (simp add: unat_div)
qed

subsection \<open>The level stands for the experience\<close>

definition level_ok :: "growth \<Rightarrow> bool" where
  "level_ok p \<longleftrightarrow>
     0 < unat (g_level p) \<and> unat (g_level p) \<le> max_level \<and>
     exp_ref (unat (g_level p) - 1) \<le> unat (experience p) \<and> unat (experience p) < exp_ref (unat (g_level p))"

lemma level_okI:
  "unat (g_level p) = Suc n \<Longrightarrow> n < max_level \<Longrightarrow> exp_ref n \<le> unat (experience p)
    \<Longrightarrow> unat (experience p) < exp_ref (Suc n) \<Longrightarrow> level_ok p"
  by (simp add: level_ok_def del: exp_ref.simps)

lemma level_okE:
  assumes "level_ok p"
  obtains n where "unat (g_level p) = Suc n" "n < max_level" "exp_ref n \<le> unat (experience p)"
    "unat (experience p) < exp_ref (Suc n)"
  using assms by (cases "unat (g_level p)") (auto simp: level_ok_def simp del: exp_ref.simps)

lemma level_ok_cong: "g_level p = g_level q \<Longrightarrow> experience p = experience q \<Longrightarrow> level_ok p = level_ok q"
  by (simp add: level_ok_def)

lemma unat_suc_level:
  assumes "unat (w :: u32) = Suc n" and "n \<le> max_level"
  shows "unat (w + 1) = Suc (Suc n)"
  using assms by (subst unat_add_lem [THEN iffD1]) (simp_all add: max_level_def)

lemma unat_pred_level: "unat (w :: u32) = Suc n \<Longrightarrow> unat (w - 1) = n"
  by (metis diff_Suc_1 unat_eq_zero unat_minus_one nat.distinct(1))

lemma level_up_simps [simp]:
  "g_level (level_up p) = g_level p + 1" "experience (level_up p) = experience p" "g_voc (level_up p) = g_voc p"
  "sent (level_up p) = sent p"
  by (simp_all add: level_up_def)

lemma level_up_pow:
  "(level_up ^^ k) p =
     p\<lparr>g_level := g_level p + of_nat k,
       healthMax := healthMax p + of_nat k * gainHP (g_voc p),
       g_health := g_health p + of_nat k * gainHP (g_voc p),
       manaMax := manaMax p + of_nat k * gainMana (g_voc p),
       g_mana := g_mana p + of_nat k * gainMana (g_voc p),
       capacity := capacity p + of_nat k * gainCap (g_voc p)\<rparr>"
  by (induction k) (simp_all add: level_up_def algebra_simps)

text \<open>What the loop of \<open>addExperience\<close> leaves: some number of level-ups, with both thresholds at the level reached.\<close>

lemma gain_loop_spec:
  assumes "unat (g_level p) = Suc n" and "n < max_level"
    and "unat cur = exp_ref n" and "unat nxt = exp_ref (Suc n)"
    and "exp_ref n \<le> unat (experience p)" and "unat (experience p) < exp_ref max_level"
  shows "\<exists>k c' n'. gain_loop cur nxt p = (c', n', (level_up ^^ k) p) \<and> n + k < max_level \<and>
     unat c' = exp_ref (n + k) \<and> unat n' = exp_ref (Suc (n + k)) \<and>
     exp_ref (n + k) \<le> unat (experience p) \<and> unat (experience p) < exp_ref (Suc (n + k))"
  using assms
proof (induction cur nxt p arbitrary: n rule: gain_loop.induct)
  case (1 cur nxt p)
  show ?case
  proof (cases "nxt \<le> experience p")
    case False
    then have "gain_loop cur nxt p = (cur, nxt, p)" "unat (experience p) < unat nxt"
      by (simp_all add: gain_loop.simps [of cur nxt p] word_le_nat_alt)
    then show ?thesis
      using 1(2-) by (intro exI [of _ 0] exI [of _ cur] exI [of _ nxt]) (simp del: exp_ref.simps)
  next
    case True
    define m where "m = getExpForLevel (g_level (level_up p) + 1)"
    have up: "exp_ref (Suc n) \<le> unat (experience p)"
      using True 1(5) by (simp add: word_le_nat_alt)
    then have n: "Suc n < max_level"
      using 1(7) by (metis exp_ref_less le_less_trans)
    have lv: "unat (g_level (level_up p)) = Suc (Suc n)"
      using unat_suc_level [of "g_level p" n] 1(2,3) by simp
    have m: "unat m = exp_ref (Suc (Suc n))"
      unfolding m_def
      by (rule getExpForLevel_ref) (use unat_suc_level [of "g_level (level_up p)" "Suc n"] lv n in simp_all)
    have mx: "\<not> m \<le> nxt"
      unfolding word_le_nat_alt m 1(5) by (simp del: exp_ref.simps)
    have "gain_loop cur nxt p = gain_loop nxt m (level_up p)"
      using True mx by (simp add: gain_loop.simps [of cur] Let_def m_def)
    moreover have "\<exists>k c' n'. gain_loop nxt m (level_up p) = (c', n', (level_up ^^ k) (level_up p)) \<and> Suc n + k < max_level \<and>
       unat c' = exp_ref (Suc n + k) \<and> unat n' = exp_ref (Suc (Suc n + k)) \<and>
       exp_ref (Suc n + k) \<le> unat (experience (level_up p)) \<and> unat (experience (level_up p)) < exp_ref (Suc (Suc n + k))"
      by (rule 1(1) [OF True refl refl m_def]) (use mx lv n 1(5) m up 1(7) in \<open>simp_all del: exp_ref.simps\<close>)
    then obtain k c' n' where "gain_loop nxt m (level_up p) = (c', n', (level_up ^^ k) (level_up p))"
      "Suc n + k < max_level" "unat c' = exp_ref (Suc n + k)" "unat n' = exp_ref (Suc (Suc n + k))"
      "exp_ref (Suc n + k) \<le> unat (experience p)" "unat (experience p) < exp_ref (Suc (Suc n + k))"
      by (auto simp del: exp_ref.simps)
    ultimately show ?thesis
      by (intro exI [of _ "Suc k"] exI [of _ c'] exI [of _ n'])
         (simp add: funpow_Suc_right del: exp_ref.simps funpow.simps)
  qed
qed

lemma getPercentLevel_exact:
  assumes "unat c < unat n" and "unat c * 100 < 2 ^ 64"
  shows "unat (getPercentLevel c n) = unat c * 100 div unat n"
proof -
  have c100: "unat (c * 100) = unat c * 100"
    using assms(2) by (subst unat_mult_lem [THEN iffD1]) simp_all
  have "unat c * 100 div unat n < 100"
    using assms(1) by (simp add: div_less_iff_less_mult)
  then have "unat (ucast (c * 100 div n) :: byte) = unat c * 100 div unat n"
    by (simp add: unsigned_ucast_eq unsigned_take_bit_eq unat_div c100 take_bit_nat_eq_self)
  moreover have "n \<noteq> 0"
    using assms(1) by auto
  ultimately show ?thesis
    using \<open>unat c * 100 div unat n < 100\<close> by (simp add: getPercentLevel_def Let_def word_less_nat_alt)
qed

lemma notice_simps [simp]:
  "g_level (tell ns p) = g_level p" "experience (tell ns p) = experience p" "g_voc (tell ns p) = g_voc p"
  "healthMax (tell ns p) = healthMax p" "g_health (tell ns p) = g_health p" "manaMax (tell ns p) = manaMax p"
  "g_mana (tell ns p) = g_mana p" "capacity (tell ns p) = capacity p" "levelPercent (tell ns p) = levelPercent p"
  "magLevel (tell ns p) = magLevel p" "manaSpent (tell ns p) = manaSpent p" "skills (tell ns p) = skills p"
  "magLevelPercent (tell ns p) = magLevelPercent p"
  by (simp_all add: tell_def)

lemma relevel_simps [simp]:
  "g_level (relevel p) = g_level p" "experience (relevel p) = experience p" "healthMax (relevel p) = healthMax p"
  "g_health (relevel p) = g_health p" "manaMax (relevel p) = manaMax p" "g_mana (relevel p) = g_mana p"
  "capacity (relevel p) = capacity p" "g_voc (relevel p) = g_voc p"
  by (simp_all add: relevel_def updateBaseSpeed_def)

lemma updateLevelPercent_simps [simp]:
  "g_level (updateLevelPercent a b p) = g_level p" "experience (updateLevelPercent a b p) = experience p"
  "healthMax (updateLevelPercent a b p) = healthMax p" "g_health (updateLevelPercent a b p) = g_health p"
  "manaMax (updateLevelPercent a b p) = manaMax p" "g_mana (updateLevelPercent a b p) = g_mana p"
  "capacity (updateLevelPercent a b p) = capacity p" "g_voc (updateLevelPercent a b p) = g_voc p"
  by (simp_all add: updateLevelPercent_def)

lemma exp_ref_gap: "n < max_level \<Longrightarrow> (exp_ref (Suc n) - exp_ref n) * 100 < 2 ^ 64"
proof -
  assume "n < max_level"
  then have "n * n \<le> 500000 * 500000"
    by (intro mult_le_mono) (simp_all add: max_level_def)
  then show ?thesis by simp
qed

definition percent_of :: "nat \<Rightarrow> nat \<Rightarrow> nat" where
  "percent_of lv e = (e - exp_ref (lv - 1)) * 100 div (exp_ref lv - exp_ref (lv - 1))"

lemma levelPercent_exact:
  assumes "unat c = exp_ref n" and "unat d = exp_ref (Suc n)" and "n < max_level"
    and "exp_ref n \<le> unat (experience p)" and "unat (experience p) < exp_ref (Suc n)"
  shows "unat (levelPercent (updateLevelPercent c d p)) = percent_of (Suc n) (unat (experience p))"
proof -
  have cd: "c < d" "c \<le> experience p" "c \<le> d"
    using assms by (simp_all add: word_less_nat_alt word_le_nat_alt del: exp_ref.simps)
  have d: "unat (d - c) = exp_ref (Suc n) - exp_ref n"
    using cd assms(1,2) by (simp add: unat_sub del: exp_ref.simps)
  have e: "unat (experience p - c) = unat (experience p) - exp_ref n"
    using cd assms(1) by (simp add: unat_sub)
  have "unat (experience p) - exp_ref n < exp_ref (Suc n) - exp_ref n"
    using assms(4,5) by linarith
  moreover from this have "(unat (experience p) - exp_ref n) * 100 < 2 ^ 64"
    using exp_ref_gap [OF assms(3)] by linarith
  ultimately have "unat (getPercentLevel (experience p - c) (d - c))
      = (unat (experience p) - exp_ref n) * 100 div (exp_ref (Suc n) - exp_ref n)"
    using getPercentLevel_exact [of "experience p - c" "d - c"] by (simp only: d e)
  then show ?thesis
    using cd by (simp add: updateLevelPercent_def percent_of_def del: exp_ref.simps)
qed

definition stats_gained :: "nat \<Rightarrow> growth \<Rightarrow> growth \<Rightarrow> bool" where
  "stats_gained k p q \<longleftrightarrow>
     healthMax q = healthMax p + of_nat k * gainHP (g_voc p) \<and> g_health q = g_health p + of_nat k * gainHP (g_voc p) \<and>
     manaMax q = manaMax p + of_nat k * gainMana (g_voc p) \<and> g_mana q = g_mana p + of_nat k * gainMana (g_voc p) \<and>
     capacity q = capacity p + of_nat k * gainCap (g_voc p)"

text \<open>The two thresholds of a level, as \<open>addExperience\<close> computes them on entry.\<close>

lemma thresholds:
  assumes "unat lv = Suc n" and "n < max_level"
  shows "unat (getExpForLevel lv) = exp_ref n" "unat (getExpForLevel (lv + 1)) = exp_ref (Suc n)"
    "\<not> getExpForLevel (lv + 1) \<le> getExpForLevel lv"
proof -
  show c: "unat (getExpForLevel lv) = exp_ref n"
    using assms by (intro getExpForLevel_ref) simp_all
  show d: "unat (getExpForLevel (lv + 1)) = exp_ref (Suc n)"
    using assms by (intro getExpForLevel_ref unat_suc_level) simp_all
  show "\<not> getExpForLevel (lv + 1) \<le> getExpForLevel lv"
    by (simp add: word_le_nat_alt c d del: exp_ref.simps)
qed

lemma unat_level_add:
  assumes "unat lv = Suc n" and "n + k < max_level"
  shows "unat (lv + of_nat k :: u32) = Suc (n + k)"
proof -
  have "unat (of_nat k :: u32) = k"
    using assms(2) by (subst unat_of_nat) (simp add: max_level_def)
  then show ?thesis
    using assms by (subst unat_add_lem [THEN iffD1]) (simp_all add: max_level_def)
qed

lemma addExperience_gain:
  assumes "unat (g_level p) = Suc n" and "n < max_level" and "exp_ref n \<le> unat (experience p)"
    and "onGain p expr \<noteq> 0" and "unat (experience p) + unat (onGain p expr) < exp_ref max_level"
  shows "\<exists>k c d r. addExperience onGain expr sendText p = tell [SendStats] (updateLevelPercent c d r) \<and>
     n + k < max_level \<and> unat c = exp_ref (n + k) \<and> unat d = exp_ref (Suc (n + k)) \<and>
     unat (experience r) = unat (experience p) + unat (onGain p expr) \<and> unat (g_level r) = Suc (n + k) \<and>
     exp_ref (n + k) \<le> unat (experience r) \<and> unat (experience r) < exp_ref (Suc (n + k)) \<and> stats_gained k p r"
proof -
  define e where "e = onGain p expr"
  define q where "q = (if sendText then tell [GainedExp e] (p\<lparr>experience := experience p + e\<rparr>)
                       else p\<lparr>experience := experience p + e\<rparr>)"
  have q: "g_level q = g_level p" "g_voc q = g_voc p" "experience q = experience p + e"
      "healthMax q = healthMax p" "g_health q = g_health p" "manaMax q = manaMax p" "g_mana q = g_mana p"
      "capacity q = capacity p"
    by (simp_all add: q_def)
  have ue: "unat (experience q) = unat (experience p) + unat e"
    unfolding q(3) using assms(5) exp_ref_top [of max_level]
    by (subst unat_add_lem [THEN iffD1]) (simp_all add: e_def)
  note th = thresholds [OF assms(1,2)]
  obtain k c d where k: "gain_loop (getExpForLevel (g_level p)) (getExpForLevel (g_level p + 1)) q = (c, d, (level_up ^^ k) q)"
      "n + k < max_level" "unat c = exp_ref (n + k)" "unat d = exp_ref (Suc (n + k))"
      "exp_ref (n + k) \<le> unat (experience q)" "unat (experience q) < exp_ref (Suc (n + k))"
    using gain_loop_spec [of q n "getExpForLevel (g_level p)" "getExpForLevel (g_level p + 1)"] assms th(1,2) ue
    by (auto simp add: q e_def simp del: exp_ref.simps)
  define r where "r = (level_up ^^ k) q"
  define r' where "r' = (if g_level q \<noteq> g_level r
      then tell [PlayerAdvance 8 (g_level q) (g_level r), AdvancedLevel (g_level q) (g_level r)] (relevel r) else r)"
  have "addExperience onGain expr sendText p = tell [SendStats] (updateLevelPercent c d r')"
    using assms(4) th(3) k(1)
    by (simp add: addExperience_def e_def [symmetric] q_def [symmetric] Let_def r'_def r_def)
  moreover have "unat (g_level r') = Suc (n + k)"
    using unat_level_add [OF assms(1) k(2)] by (auto simp: r'_def r_def level_up_pow q)
  moreover have "experience r' = experience q" "stats_gained k p r'"
    by (simp_all add: r'_def r_def level_up_pow q stats_gained_def)
  ultimately show ?thesis
    using k ue by (intro exI [of _ k] exI [of _ c] exI [of _ d] exI [of _ r']) (simp add: e_def del: exp_ref.simps)
qed

text \<open>C15: Gaining experience keeps the level the one the points stand for (levels up to half a
  million, where the 64-bit formula cannot overflow): the points grow by exactly the amount the script left,
  the new level is the unique one whose threshold interval contains them, hit points, mana and capacity grow by the vocation's gain
  times the number of levels, and when points were gained the percentage shown is the exact one.\<close>

theorem addExperience_level:
  assumes "level_ok p" and "unat (experience p) + unat (onGain p expr) < exp_ref max_level"
  shows "level_ok (addExperience onGain expr sendText p) \<and>
         unat (experience (addExperience onGain expr sendText p)) = unat (experience p) + unat (onGain p expr) \<and>
         unat (g_level p) \<le> unat (g_level (addExperience onGain expr sendText p)) \<and>
         stats_gained (unat (g_level (addExperience onGain expr sendText p)) - unat (g_level p)) p
           (addExperience onGain expr sendText p) \<and>
         (onGain p expr \<noteq> 0 \<longrightarrow>
            unat (levelPercent (addExperience onGain expr sendText p)) =
              percent_of (unat (g_level (addExperience onGain expr sendText p)))
                (unat (experience (addExperience onGain expr sendText p))))"
proof -
  obtain n where n: "unat (g_level p) = Suc n" "n < max_level" "exp_ref n \<le> unat (experience p)"
      "unat (experience p) < exp_ref (Suc n)"
    using assms(1) by (rule level_okE)
  show ?thesis
  proof (cases "onGain p expr = 0")
    case True
    then have "addExperience onGain expr sendText p = p"
      using thresholds(3) [OF n(1,2)] by (simp add: addExperience_def)
    then show ?thesis
      using assms(1) True by (simp add: stats_gained_def)
  next
    case False
    then obtain k c d r where k: "addExperience onGain expr sendText p = tell [SendStats] (updateLevelPercent c d r)"
        "n + k < max_level" "unat c = exp_ref (n + k)" "unat d = exp_ref (Suc (n + k))"
        "unat (experience r) = unat (experience p) + unat (onGain p expr)" "unat (g_level r) = Suc (n + k)"
        "exp_ref (n + k) \<le> unat (experience r)" "unat (experience r) < exp_ref (Suc (n + k))" "stats_gained k p r"
      using addExperience_gain [of p n onGain expr sendText] n(1-3) assms(2) by blast
    have "level_ok r"
      using k by (intro level_okI [of _ "n + k"])
    moreover have "unat (levelPercent (updateLevelPercent c d r)) = percent_of (Suc (n + k)) (unat (experience r))"
      using k by (intro levelPercent_exact)
    ultimately show ?thesis
      unfolding k(1) using k(5,6,9) n(1) by (simp add: level_ok_def stats_gained_def del: exp_ref.simps)
  qed
qed

definition demo_hero :: growth where
  "demo_hero = \<lparr>g_level = 8, experience = 4200, levelPercent = 0, magLevel = 2, manaSpent = 100, magLevelPercent = 0,
     g_health = 185, healthMax = 185, g_mana = 35, manaMax = 35, capacity = 470, baseSpeed = 234,
     skills = replicate 7 new_Skill, g_voc = new_Vocation 4, blessings = 0, skillLoss = True, held = [],
     loginPosition = Position 32369 32241 7, inParty = False, flag_NotGainMana = False, flag_NotGainExperience = False,
     flag_SetMaxSpeed = False, sent = []\<rparr>"

lemma exp_ref_small: "exp_ref 7 = 4200" "exp_ref 8 = 6400" "exp_ref 10 = 13000"
  using exp_ref_cubic [of 7] exp_ref_cubic [of 8] exp_ref_cubic [of 10] by simp_all

lemma demo_hero_ok: "level_ok demo_hero"
  by (simp add: level_ok_def demo_hero_def exp_ref_small max_level_def)

lemma exp_ref_max_13000: "13000 \<le> exp_ref max_level"
  unfolding exp_ref_small(3) [symmetric] exp_ref_le by (simp add: max_level_def)

theorem addExperience_level_witness:
  "level_ok (addExperience (\<lambda>_ x. 2 * x) 2500 True demo_hero) \<and>
   unat (experience (addExperience (\<lambda>_ x. 2 * x) 2500 True demo_hero)) = 9200"
proof -
  have "unat (experience demo_hero) + unat ((2 :: u64) * 2500) < exp_ref max_level"
    using exp_ref_max_13000 by (simp add: demo_hero_def)
  from addExperience_level [OF demo_hero_ok, of "\<lambda>_ x. 2 * x" 2500 True, OF this]
  show ?thesis by (simp add: demo_hero_def)
qed

lemma level_down_simps [simp]:
  "g_level (level_down p) = g_level p - 1" "experience (level_down p) = experience p" "g_voc (level_down p) = g_voc p"
  by (simp_all add: level_down_def)

text \<open>The loop that takes levels away, from any level at or above the right one.\<close>

lemma lose_loop_spec:
  assumes "unat (g_level p) = Suc n" and "n < max_level" and "unat (experience p) < exp_ref (Suc n)"
  shows "level_ok (lose_loop p) \<and> experience (lose_loop p) = experience p \<and>
         unat (g_level (lose_loop p)) \<le> unat (g_level p)"
  using assms
proof (induction p arbitrary: n rule: lose_loop.induct)
  case (1 p)
  have th: "unat (getExpForLevel (g_level p)) = exp_ref n"
    using 1(2,3) by (intro getExpForLevel_ref) simp_all
  show ?case
  proof (cases "1 < g_level p \<and> experience p < getExpForLevel (g_level p)")
    case False
    then have "exp_ref n \<le> unat (experience p)"
      using 1(2) th by (cases n) (auto simp: word_less_nat_alt simp del: exp_ref.simps(2))
    then show ?thesis
      using False 1(2-) level_okI [of p n] by (auto simp: lose_loop.simps [of p] simp del: exp_ref.simps)
  next
    case True
    then obtain m where m: "n = Suc m"
      using 1(2) by (cases n) (auto simp: word_less_nat_alt)
    have "unat (experience p) < exp_ref (Suc m)"
      using True th by (simp add: word_less_nat_alt m del: exp_ref.simps)
    moreover have lv: "unat (g_level (level_down p)) = Suc m"
      using unat_pred_level [of "g_level p" n] 1(2) m by simp
    ultimately have "level_ok (lose_loop (level_down p)) \<and> experience (lose_loop (level_down p)) = experience (level_down p) \<and>
         unat (g_level (lose_loop (level_down p))) \<le> unat (g_level (level_down p))"
      using 1(3) m by (intro 1(1) [of m]) (simp_all add: True del: exp_ref.simps)
    moreover have "lose_loop p = lose_loop (level_down p)"
      using True by (simp add: lose_loop.simps [of p])
    ultimately show ?thesis
      using lv m 1(2) by (simp del: exp_ref.simps)
  qed
qed

lemma odd_div_half: "m < 2 * k \<Longrightarrow> odd (m div k) \<longleftrightarrow> k \<le> (m :: nat)"
proof (cases "k \<le> m")
  case True
  assume "m < 2 * k"
  then have "m div k = 1"
    using True by (intro div_nat_eqI) simp_all
  then show ?thesis using True by simp
qed simp

lemma sint_neg_64: "sint (w :: u64) < 0 \<longleftrightarrow> 2 ^ 63 \<le> unat w"
proof -
  have "sint w < 0 \<longleftrightarrow> bit (unat w) 63"
    using bit_last_iff [of w] by (simp add: bit_unsigned_iff)
  also have "\<dots> \<longleftrightarrow> 2 ^ 63 \<le> unat w"
    unfolding bit_iff_odd using unsigned_less [of w, where ?'a = nat] by (intro odd_div_half) simp
  finally show ?thesis .
qed

lemma smax64_diff:
  assumes "unat a < 2 ^ 63" and "unat b \<le> 2 ^ 63"
  shows "unat (smax64 (a - b)) = unat a - unat b"
proof (cases "b \<le> a")
  case True
  then have d: "unat (a - b) = unat a - unat b"
    by (rule unat_sub)
  then have "\<not> 2 ^ 63 \<le> unat (a - b)"
    using assms(1) by linarith
  then show ?thesis by (simp only: smax64_def sint_neg_64 d if_False)
next
  case False
  then have "unat a < unat b" "unat (a - b) = unat a + 2 ^ 64 - unat b"
    by (simp_all add: unat_sub_if' word_le_nat_alt)
  moreover from this have "2 ^ 63 \<le> unat (a - b)"
    using assms(2) by simp
  ultimately show ?thesis by (simp add: smax64_def sint_neg_64)
qed

text \<open>Losing experience keeps the level the one the points stand for: the points drop by the amount the script
  left, stopping at zero (amounts up to \<open>2 ^ 63\<close>, what the signed comparison of the code can tell from a gain), and the level never rises.\<close>

lemma removeExperience_level:
  assumes "level_ok p" and "unat (onLose p expr) \<le> 2 ^ 63" and "expr \<noteq> 0"
  shows "level_ok (removeExperience onLose expr sendText p) \<and>
         unat (experience (removeExperience onLose expr sendText p)) = unat (experience p) - unat (onLose p expr) \<and>
         unat (g_level (removeExperience onLose expr sendText p)) \<le> unat (g_level p)"
proof (cases "experience p = 0 \<or> onLose p expr = 0")
  case True
  then show ?thesis
    using assms by (auto simp: removeExperience_def)
next
  case False
  obtain n where n: "unat (g_level p) = Suc n" "n < max_level" "exp_ref n \<le> unat (experience p)"
      "unat (experience p) < exp_ref (Suc n)"
    using assms(1) by (rule level_okE)
  define x where "x = smax64 (experience p - onLose p expr)"
  have x: "unat x = unat (experience p) - unat (onLose p expr)"
    unfolding x_def using n(4) exp_ref_top [of "Suc n"] n(2) assms(2) by (intro smax64_diff) simp_all
  define q where "q = (if sendText then tell [LostExp (experience p - x)] (p\<lparr>experience := x\<rparr>) else p\<lparr>experience := x\<rparr>)"
  have q: "g_level q = g_level p" "experience q = x"
    by (simp_all add: q_def)
  define r where "r = lose_loop q"
  have r: "level_ok r" "experience r = x" "unat (g_level r) \<le> unat (g_level p)"
    using lose_loop_spec [of q n] n x by (simp_all add: q r_def del: exp_ref.simps)
  have "g_level (removeExperience onLose expr sendText p) = g_level r"
       "experience (removeExperience onLose expr sendText p) = experience r"
    using False assms(3) by (simp_all add: removeExperience_def Let_def x_def [symmetric] q_def r_def)
  then show ?thesis
    using r x by (simp add: level_ok_def)
qed

lemma removeExperience_level_witness:
  "level_ok (removeExperience (\<lambda>_ x. x) 5000 True demo_hero) \<and>
   unat (experience (removeExperience (\<lambda>_ x. x) 5000 True demo_hero)) = 0"
  using removeExperience_level [of demo_hero "\<lambda>_ x. x" 5000 True] demo_hero_ok by (simp add: demo_hero_def)

lemma death_level_keeps: "level_ok p \<Longrightarrow> unat (onLose p (lossOf (experience p))) \<le> unat (experience p) \<Longrightarrow>
   level_ok (death_level onLose lossOf p)"
proof -
  assume ok: "level_ok p" and l: "unat (onLose p (lossOf (experience p))) \<le> unat (experience p)"
  define x where "x = onLose p (lossOf (experience p))"
  obtain n where n: "unat (g_level p) = Suc n" "n < max_level" "exp_ref n \<le> unat (experience p)"
      "unat (experience p) < exp_ref (Suc n)"
    using ok by (rule level_okE)
  define q where "q = (if v_id (g_voc p) = 0 \<or> g_level p > 7 then p\<lparr>experience := experience p - x\<rparr> else p)"
  have "g_level q = g_level p" "unat (experience q) \<le> unat (experience p)"
    using l by (simp_all add: q_def x_def unat_sub word_le_nat_alt)
  then have "level_ok (lose_loop q)"
    using lose_loop_spec [of q n] n by (simp del: exp_ref.simps)
  then show ?thesis
    using ok by (simp add: death_level_def Let_def x_def [symmetric] q_def [symmetric] level_ok_def)
qed

end
