(* ===== verification/Growth_Training.thy ===== *)
theory Growth_Training
  imports Player_Growth
begin

section \<open>Training and death move totals\<close>

text \<open>
  Training (\<open>addManaSpent\<close>, \<open>addSkillAdvance\<close>) and \<open>death\<close> of \<open>player.cpp\<close> work with a level and the progress towards the
  next one. The specification is a single number, the total ever earned: the requirements of all levels passed
  plus the progress. Training adds to that number exactly what was trained, death subtracts exactly the penalty, and
  the loops in between, which raise or lower levels, end.
\<close>

subsection \<open>Totals of a requirement table\<close>

primrec req_sum :: "(nat \<Rightarrow> nat) \<Rightarrow> nat \<Rightarrow> nat" where
  "req_sum f 0 = 0"
| "req_sum f (Suc n) = req_sum f n + f (Suc n)"

definition rising :: "(nat \<Rightarrow> nat) \<Rightarrow> nat \<Rightarrow> bool" where
  "rising f N \<longleftrightarrow> (\<forall>i<N. f i < f (Suc i)) \<and> req_sum f N < 2 ^ 64"

lemma rising_step: "rising f N \<Longrightarrow> i < N \<Longrightarrow> f i < f (Suc i)"
  by (simp add: rising_def)

lemma req_sum_mono: "m \<le> n \<Longrightarrow> req_sum f m \<le> req_sum f n"
  by (rule lift_Suc_mono_le [of "req_sum f"]) simp_all

lemma req_sum_below: "x < req_sum f N \<Longrightarrow> req_sum f n \<le> x \<Longrightarrow> n < N"
  using req_sum_mono [of N n f] by (cases "n < N") auto

lemma unat_add_fits: "unat (a :: u64) + unat b < 2 ^ 64 \<Longrightarrow> unat (a + b) = unat a + unat b"
  by (subst unat_add_lem [THEN iffD1]) simp_all

lemma train_step:
  fixes h a nx :: u64
  assumes "unat h < unat nx" and "nx \<le> h + a" and "unat h + unat a < 2 ^ 64"
  shows "unat (a - (nx - h)) = unat h + unat a - unat nx"
proof -
  have s: "unat nx \<le> unat h + unat a"
    using assms(2) unat_add_fits [OF assms(3)] by (simp add: word_le_nat_alt)
  have d: "unat (nx - h) = unat nx - unat h"
    using assms(1) by (intro unat_sub) (simp add: word_le_nat_alt)
  then have "nx - h \<le> a"
    using s by (simp add: word_le_nat_alt)
  then show ?thesis
    using d s assms(1) by (simp add: unat_sub)
qed

lemma percent_in_range:
  "unat c < unat n \<Longrightarrow> unat c * 100 < 2 ^ 64 \<Longrightarrow> unat (getPercentLevel c n) < 100"
  by (simp add: getPercentLevel_exact div_less_iff_less_mult)

subsection \<open>Magic training moves the total of spent mana\<close>

definition mana_req :: "mana_table \<Rightarrow> nat \<Rightarrow> nat" where
  "mana_req manaPow n = unat (roundMana (manaPow (of_nat n)))"

definition mana_total :: "mana_table \<Rightarrow> growth \<Rightarrow> nat" where
  "mana_total manaPow p = req_sum (mana_req manaPow) (unat (magLevel p)) + unat (manaSpent p)"

definition mana_ok :: "mana_table \<Rightarrow> growth \<Rightarrow> bool" where
  "mana_ok manaPow p \<longleftrightarrow>
     mana_cache_ok manaPow (g_voc p) \<and> unat (manaSpent p) < mana_req manaPow (Suc (unat (magLevel p)))"

lemma reqMana_spec:
  assumes "mana_cache_ok manaPow (g_voc p)"
  obtains v where "reqMana manaPow p lv = (roundMana (manaPow lv), p\<lparr>g_voc := v\<rparr>)" "mana_cache_ok manaPow v"
  using getReqMana_fst [OF assms, of lv] getReqMana_ok [OF assms, of lv]
    that [of "snd (getReqMana manaPow (g_voc p) lv)"]
  by (simp add: reqMana_def case_prod_beta)

lemma mana_req_unat: "unat (roundMana (manaPow lv)) = mana_req manaPow (unat lv)"
  by (simp add: mana_req_def)

lemma mana_req_suc:
  assumes "unat (lv :: u32) < 2 ^ 32 - 1"
  shows "unat (lv + 1) = Suc (unat lv)" "unat (roundMana (manaPow (lv + 1))) = mana_req manaPow (Suc (unat lv))"
proof -
  show "unat (lv + 1) = Suc (unat lv)"
    using assms by (subst unat_add_lem [THEN iffD1]) simp_all
  then show "unat (roundMana (manaPow (lv + 1))) = mana_req manaPow (Suc (unat lv))"
    by (simp add: mana_req_unat)
qed

definition train_result :: "mana_table \<Rightarrow> nat \<Rightarrow> bool \<times> u64 \<times> u64 \<times> u64 \<times> growth \<Rightarrow> bool" where
  "train_result manaPow tot = (\<lambda>(maxed, c, d, a, q).
     \<not> maxed \<and> mana_cache_ok manaPow (g_voc q) \<and> mana_total manaPow q + unat a = tot \<and>
     unat (manaSpent q) + unat a < mana_req manaPow (Suc (unat (magLevel q))) \<and>
     unat c = mana_req manaPow (unat (magLevel q)) \<and> unat d = mana_req manaPow (Suc (unat (magLevel q))))"

definition mana_raised :: "bool \<Rightarrow> growth \<Rightarrow> growth" where
  "mana_raised talk p = tell ((if talk then [AdvancedMagic (magLevel p + 1)] else []) @
     [PlayerAdvance 7 (magLevel p) (magLevel p + 1)]) (p\<lparr>magLevel := magLevel p + 1, manaSpent := 0\<rparr>)"

lemma mana_raised_simps [simp]:
  "magLevel (mana_raised talk p) = magLevel p + 1" "manaSpent (mana_raised talk p) = 0"
  "g_voc (mana_raised talk p) = g_voc p" "skills (mana_raised talk p) = skills p"
  by (simp_all add: mana_raised_def)

lemma mana_loop_stop: "\<not> d \<le> manaSpent p + a \<Longrightarrow> mana_loop manaPow talk c d a p = (False, c, d, a, p)"
  by (subst mana_loop.simps) simp

lemma mana_loop_step:
  assumes "d \<le> manaSpent p + a" and "reqMana manaPow (mana_raised talk p) (magLevel p + 1 + 1) = (d', q)"
    and "\<not> d' \<le> d"
  shows "mana_loop manaPow talk c d a p = mana_loop manaPow talk d d' (a - (d - manaSpent p)) q"
  using assms by (cases talk) (subst mana_loop.simps, simp add: Let_def mana_raised_def)+

lemma mana_loop_spec:
  assumes "rising (mana_req manaPow) N" and "N < 2 ^ 32 - 1"
    and "mana_ok manaPow p" and "mana_total manaPow p + unat a < req_sum (mana_req manaPow) N"
    and "unat c = mana_req manaPow (unat (magLevel p))" and "unat d = mana_req manaPow (Suc (unat (magLevel p)))"
  shows "train_result manaPow (mana_total manaPow p + unat a) (mana_loop manaPow talk c d a p)"
  using assms(3-)
proof (induction "N - unat (magLevel p)" arbitrary: c d a p rule: less_induct)
  case less
  note rise = assms(1) and N = assms(2) and tot = less(3)
  define n where "n = unat (magLevel p)"
  have ok: "mana_cache_ok manaPow (g_voc p)" "unat (manaSpent p) < unat d"
    using less(2,5) by (simp_all add: mana_ok_def)
  have fits: "unat (manaSpent p) + unat a < 2 ^ 64"
    using tot rise unfolding mana_total_def rising_def by linarith
  show ?case
  proof (cases "d \<le> manaSpent p + a")
    case False
    then have "unat (manaSpent p) + unat a < unat d"
      using unat_add_fits [OF fits] by (simp add: word_le_nat_alt)
    then show ?thesis
      using ok less(4,5) by (simp add: mana_loop_stop [OF False] train_result_def)
  next
    case True
    have a': "unat (a - (d - manaSpent p)) = unat (manaSpent p) + unat a - unat d"
      by (rule train_step [OF ok(2) True fits])
    have le: "unat d \<le> unat (manaSpent p) + unat a"
      using True unat_add_fits [OF fits] by (simp add: word_le_nat_alt)
    then have "req_sum (mana_req manaPow) (Suc n) \<le> mana_total manaPow p + unat a"
      using less(5) by (simp add: mana_total_def n_def)
    then have n: "Suc n < N"
      by (rule req_sum_below [OF tot])
    define q where "q = mana_raised talk p"
    have lv: "unat (magLevel q) = Suc n"
      using mana_req_suc(1) [of "magLevel p"] n N by (simp add: q_def n_def)
    obtain v where v: "reqMana manaPow q (magLevel q + 1) = (roundMana (manaPow (magLevel q + 1)), q\<lparr>g_voc := v\<rparr>)"
        "mana_cache_ok manaPow v"
      using reqMana_spec [of manaPow q] ok(1) by (auto simp: q_def)
    define d' where "d' = roundMana (manaPow (magLevel q + 1))"
    have d': "unat d' = mana_req manaPow (Suc (Suc n))"
      using mana_req_suc(2) [of "magLevel q" manaPow] lv n N by (simp add: d'_def)
    have "unat d < unat d'"
      using rising_step [OF rise n] d' less(5) by (simp add: n_def)
    then have lt: "\<not> d' \<le> d"
      by (simp add: word_le_nat_alt)
    have step: "mana_loop manaPow talk c d a p = mana_loop manaPow talk d d' (a - (d - manaSpent p)) (q\<lparr>g_voc := v\<rparr>)"
      using v(1) lt by (intro mana_loop_step [OF True]) (simp_all add: q_def d'_def)
    have t: "mana_total manaPow (q\<lparr>g_voc := v\<rparr>) + unat (a - (d - manaSpent p)) = mana_total manaPow p + unat a"
      using lv less(5) a' le by (simp add: mana_total_def n_def) (simp add: q_def)
    have "train_result manaPow (mana_total manaPow (q\<lparr>g_voc := v\<rparr>) + unat (a - (d - manaSpent p)))
        (mana_loop manaPow talk d d' (a - (d - manaSpent p)) (q\<lparr>g_voc := v\<rparr>))"
    proof (rule less(1))
      show "N - unat (magLevel (q\<lparr>g_voc := v\<rparr>)) < N - unat (magLevel p)"
        using lv n by (simp add: n_def)
      show "mana_ok manaPow (q\<lparr>g_voc := v\<rparr>)"
        using v(2) rising_step [OF rise n] lv by (simp add: mana_ok_def) (simp add: q_def)
    qed (use t tot lv less(5) d' in \<open>simp_all add: n_def\<close>)
    then show ?thesis
      by (simp only: step t)
  qed
qed

text \<open>C16: Training magic adds exactly the mana the script left to the total ever spent (the requirements of all
  magic levels passed plus the current progress), for every amount that stays below the total of a table rising up to \<open>N\<close>; the progress stays below the next requirement,
  so the magic level is the one the total stands for, and the memo stays exact.\<close>

theorem addManaSpent_total:
  assumes "rising (mana_req manaPow) N" and "N < 2 ^ 32 - 1" and "mana_ok manaPow p" and "\<not> flag_NotGainMana p"
    and "mana_total manaPow p + unat (onTries 7 amount) < req_sum (mana_req manaPow) N"
  shows "mana_ok manaPow (addManaSpent manaPow onTries amount p) \<and>
         mana_total manaPow (addManaSpent manaPow onTries amount p) = mana_total manaPow p + unat (onTries 7 amount)"
proof -
  define n where "n = unat (magLevel p)"
  define c d where "c = roundMana (manaPow (magLevel p))" and "d = roundMana (manaPow (magLevel p + 1))"
  have n: "n < N"
    by (rule req_sum_below [OF assms(5)]) (simp add: mana_total_def n_def)
  have c: "unat c = mana_req manaPow n" and d: "unat d = mana_req manaPow (Suc n)"
    using mana_req_suc(2) [of "magLevel p"] n assms(2) by (simp_all add: c_def d_def mana_req_unat n_def)
  then have cd: "\<not> d \<le> c"
    using rising_step [OF assms(1) n] by (simp add: word_le_nat_alt)
  obtain v where v: "reqMana manaPow p (magLevel p) = (c, p\<lparr>g_voc := v\<rparr>)" "mana_cache_ok manaPow v"
    using reqMana_spec [of manaPow p] assms(3) by (auto simp: mana_ok_def c_def)
  obtain w where w: "reqMana manaPow (p\<lparr>g_voc := v\<rparr>) (magLevel p + 1) = (d, p\<lparr>g_voc := w\<rparr>)" "mana_cache_ok manaPow w"
    using reqMana_spec [of manaPow "p\<lparr>g_voc := v\<rparr>"] v(2) by (auto simp: d_def)
  define q where "q = p\<lparr>g_voc := w\<rparr>"
  have q: "mana_ok manaPow q" "mana_total manaPow q = mana_total manaPow p" "magLevel q = magLevel p"
    using assms(3) w(2) by (simp_all add: q_def mana_ok_def mana_total_def)
  obtain m c' d' a r where r: "mana_loop manaPow True c d (onTries 7 amount) q = (m, c', d', a, r)"
    by (metis prod_cases5)
  have tr: "train_result manaPow (mana_total manaPow p + unat (onTries 7 amount)) (m, c', d', a, r)"
    using mana_loop_spec [OF assms(1,2) q(1), of "onTries 7 amount" c d True] assms(5) c d
    by (simp add: q r n_def)
  show ?thesis
  proof (cases "onTries 7 amount = 0")
    case True
    then have "addManaSpent manaPow onTries amount p = q"
      using assms(4) v(1) w(1) cd by (simp add: addManaSpent_def q_def)
    then show ?thesis using q True by simp
  next
    case False
    define s where "s = addManaSpent manaPow onTries amount p"
    have "magLevel s = magLevel r" "manaSpent s = manaSpent r + a" "g_voc s = g_voc r"
      using False assms(4) v(1) w(1) cd r tr
      by (simp_all add: s_def addManaSpent_def q_def train_result_def Let_def)
    moreover have "unat (manaSpent r + a) = unat (manaSpent r) + unat a"
      using tr unsigned_less [of d', where ?'a = nat] by (intro unat_add_fits) (simp add: train_result_def)
    ultimately have "mana_ok manaPow s \<and> mana_total manaPow s = mana_total manaPow p + unat (onTries 7 amount)"
      using tr by (simp add: mana_ok_def mana_total_def train_result_def)
    then show ?thesis by (simp only: s_def)
  qed
qed

text \<open>A table for the examples: 400 mana for magic level zero and 20 more per level, and 50 tries and 10 more per skill level.\<close>

definition demo_mana :: mana_table where
  "demo_mana lv = 400 + 20 * ucast lv"

definition demo_skill :: skill_table where
  "demo_skill s lv = 50 + 10 * ucast lv"

lemma less_five: "(i :: nat) < 5 \<longleftrightarrow> i = 0 \<or> i = 1 \<or> i = 2 \<or> i = 3 \<or> i = 4"
  by presburger

lemma demo_mana_req:
  "mana_req demo_mana 0 = 400" "mana_req demo_mana (Suc 0) = 420" "mana_req demo_mana 1 = 420"
  "mana_req demo_mana 2 = 440" "mana_req demo_mana 3 = 460"
  "mana_req demo_mana 4 = 480" "mana_req demo_mana 5 = 500"
  by (simp_all add: mana_req_def demo_mana_def roundMana_def)

lemma req_sum_five: "req_sum f 5 = f 1 + f 2 + f 3 + f 4 + f 5" "req_sum f 2 = f 1 + f 2"
  by (simp_all add: eval_nat_numeral)

lemma demo_mana_rising: "rising (mana_req demo_mana) 5"
  by (auto simp: rising_def less_five req_sum_five demo_mana_req demo_mana_req(4) [unfolded numeral_2_eq_2])

lemma demo_mana_hero: "mana_ok demo_mana demo_hero" "mana_total demo_mana demo_hero = 960"
  by (simp_all add: mana_ok_def mana_total_def demo_hero_def demo_mana_req req_sum_five)

theorem addManaSpent_total_witness:
  "mana_total demo_mana (addManaSpent demo_mana (\<lambda>_ x. x) 500 demo_hero) = 1460"
  using addManaSpent_total [OF demo_mana_rising, of demo_hero "\<lambda>_ x. x" 500] demo_mana_hero
  by (simp add: req_sum_five demo_mana_req) (simp add: demo_hero_def)

text \<open>At the highest magic level \<open>addManaSpent\<close> returns out of its loop: the percentage of the level
  before stays on display and the client is not told of the advance. The skill counterpart leaves the loop and resets both.\<close>

lemma addManaSpent_at_top:
  assumes "\<not> flag_NotGainMana p" and "reqMana manaPow p (magLevel p) = (c, p1)"
    and "reqMana manaPow p1 (magLevel p1 + 1) = (d, p2)" and "\<not> d \<le> c" and "onTries 7 amount \<noteq> 0"
    and "mana_loop manaPow True c d (onTries 7 amount) p2 = (True, c', d', a, q)"
  shows "addManaSpent manaPow onTries amount p = q"
  using assms by (simp add: addManaSpent_def)

subsection \<open>Death takes exactly its share of the spent mana\<close>

lemma sum_mana_spec:
  assumes "unat m < 2 ^ 32 - 1" and "0 < unat i" and "unat i \<le> Suc (unat m)"
    and "mana_cache_ok manaPow (g_voc p)" and "acc = of_nat (req_sum (mana_req manaPow) (unat i - 1))"
  shows "\<exists>v. sum_mana manaPow m i acc p = Some (of_nat (req_sum (mana_req manaPow) (unat m)), p\<lparr>g_voc := v\<rparr>) \<and>
             mana_cache_ok manaPow v"
  using assms(2-)
proof (induction "Suc (unat m) - unat i" arbitrary: i acc p rule: less_induct)
  case less
  show ?case
  proof (cases "i \<le> m")
    case False
    then have "unat i - 1 = unat m"
      using less(3) by (simp add: word_le_nat_alt)
    then show ?thesis
      using False less(4,5) by (intro exI [of _ "g_voc p"]) (simp add: sum_mana.simps)
  next
    case True
    then have im: "unat i \<le> unat m" by (simp add: word_le_nat_alt)
    have si: "unat (i + 1) = Suc (unat i)"
      using im assms(1) by (intro mana_req_suc(1)) linarith
    obtain v where v: "reqMana manaPow p i = (roundMana (manaPow i), p\<lparr>g_voc := v\<rparr>)" "mana_cache_ok manaPow v"
      using reqMana_spec [OF less(4)] by blast
    define acc' where "acc' = acc + roundMana (manaPow i)"
    have acc': "acc' = of_nat (req_sum (mana_req manaPow) (unat (i + 1) - 1))"
    proof (cases "unat i")
      case (Suc k)
      have "of_nat (mana_req manaPow (Suc k)) = roundMana (manaPow i)"
        by (simp add: mana_req_def flip: Suc)
      then show ?thesis
        using Suc less(5) by (simp add: acc'_def si)
    qed (use less(2) in simp)
    have "\<exists>w. sum_mana manaPow m (i + 1) acc' (p\<lparr>g_voc := v\<rparr>) =
        Some (of_nat (req_sum (mana_req manaPow) (unat m)), p\<lparr>g_voc := v\<rparr>\<lparr>g_voc := w\<rparr>) \<and> mana_cache_ok manaPow w"
      by (rule less(1)) (use si im v(2) acc' in simp_all)
    moreover have "sum_mana manaPow m i acc p = sum_mana manaPow m (i + 1) acc' (p\<lparr>g_voc := v\<rparr>)"
      using True v(1) by (simp add: sum_mana.simps [of manaPow m i] acc'_def)
    ultimately show ?thesis by simp
  qed
qed

definition mana_left :: "mana_table \<Rightarrow> nat \<Rightarrow> u64 \<times> growth \<Rightarrow> bool" where
  "mana_left manaPow tot = (\<lambda>(lost, q). mana_cache_ok manaPow (g_voc q) \<and> unat lost \<le> unat (manaSpent q) \<and>
     mana_total manaPow q = tot + unat lost \<and>
     unat (manaSpent q) - unat lost < mana_req manaPow (Suc (unat (magLevel q))))"

lemma lose_mana_spec:
  assumes "mana_cache_ok manaPow (g_voc p)" and "unat lost \<le> mana_total manaPow p"
    and "unat (manaSpent p) - unat lost < mana_req manaPow (Suc (unat (magLevel p)))"
    and "rising (mana_req manaPow) N" and "unat (magLevel p) \<le> N"
  shows "mana_left manaPow (mana_total manaPow p - unat lost) (lose_mana manaPow lost p) \<and>
         unat (magLevel (snd (lose_mana manaPow lost p))) \<le> unat (magLevel p)"
  using assms(1-3,5)
proof (induction "unat (magLevel p)" arbitrary: lost p rule: less_induct)
  case less
  show ?case
  proof (cases "manaSpent p < lost \<and> 0 < magLevel p")
    case False
    then have "unat lost \<le> unat (manaSpent p)"
      using less(3) by (cases "magLevel p = 0") (auto simp: mana_total_def word_less_nat_alt unat_gt_0)
    then show ?thesis
      using less(2-4) by (subst (1 2) lose_mana.simps) (use False in \<open>auto simp: mana_left_def\<close>)
  next
    case True
    obtain k where k: "unat (magLevel p) = Suc k"
      using True by (cases "unat (magLevel p)") (auto simp: word_less_nat_alt)
    then have lv: "unat (magLevel p - 1) = k"
      by (rule unat_pred_level)
    obtain v where v: "reqMana manaPow p (magLevel p) = (roundMana (manaPow (magLevel p)), p\<lparr>g_voc := v\<rparr>)"
        "mana_cache_ok manaPow v"
      using reqMana_spec [OF less(2)] by blast
    define q where "q = p\<lparr>g_voc := v, manaSpent := roundMana (manaPow (magLevel p)), magLevel := magLevel p - 1\<rparr>"
    have l: "unat (lost - manaSpent p) = unat lost - unat (manaSpent p)" "unat (manaSpent p) < unat lost"
      using True by (auto simp: word_less_nat_alt unat_sub word_le_nat_alt)
    have tot: "mana_total manaPow q = mana_total manaPow p - unat (manaSpent p)" "unat (manaSpent q) = mana_req manaPow (Suc k)"
      using k by (simp_all add: mana_total_def q_def lv mana_req_unat)
    have step: "lose_mana manaPow lost p = lose_mana manaPow (lost - manaSpent p) q"
      using True v(1) by (subst lose_mana.simps) (simp add: Let_def q_def)
    have tot': "mana_total manaPow q - unat (lost - manaSpent p) = mana_total manaPow p - unat lost"
      using l tot(1) by simp
    have "mana_left manaPow (mana_total manaPow q - unat (lost - manaSpent p)) (lose_mana manaPow (lost - manaSpent p) q) \<and>
         unat (magLevel (snd (lose_mana manaPow (lost - manaSpent p) q))) \<le> unat (magLevel q)"
    proof (rule less(1))
      show "unat (magLevel q) < unat (magLevel p)"
        using k lv by (simp add: q_def)
      show "unat (lost - manaSpent p) \<le> mana_total manaPow q"
        using less(3) l tot(1) by simp
      show "unat (manaSpent q) - unat (lost - manaSpent p) < mana_req manaPow (Suc (unat (magLevel q)))"
        using l rising_step [OF assms(4), of k] less(5) k lv unfolding tot(2) by (simp add: q_def)
    qed (use less(5) k lv in \<open>simp_all add: q_def v(2)\<close>)
    then show ?thesis
      unfolding step tot' using k lv by (simp add: q_def)
  qed
qed

lemma mana_left_spent:
  assumes "mana_left manaPow tot (lost, q)"
  shows "unat (manaSpent q - lost) = unat (manaSpent q) - unat lost"
    "req_sum (mana_req manaPow) (unat (magLevel q)) + (unat (manaSpent q) - unat lost) = tot"
  using assms by (auto simp: mana_left_def unat_sub word_le_nat_alt mana_total_def)

text \<open>Death takes from the total ever spent on magic exactly the penalty computed from that total, whatever levels it
  costs: nothing underflows, the magic level never rises, and the progress left is below the next requirement.\<close>

lemma death_mana_total:
  assumes "rising (mana_req manaPow) N" and "unat (magLevel p) \<le> N" and "N < 2 ^ 32 - 1" and "mana_ok manaPow p"
    and "mana_total manaPow p < 2 ^ 64" and "unat (lossOf (of_nat (mana_total manaPow p))) \<le> mana_total manaPow p"
  shows "\<exists>q. death_mana manaPow lossOf p = Some q \<and> mana_ok manaPow q \<and> unat (magLevel q) \<le> unat (magLevel p) \<and>
     mana_total manaPow q = mana_total manaPow p - unat (lossOf (of_nat (mana_total manaPow p)))"
proof -
  define lost where "lost = lossOf (of_nat (mana_total manaPow p))"
  obtain v where v: "sum_mana manaPow (magLevel p) 1 0 p =
      Some (of_nat (req_sum (mana_req manaPow) (unat (magLevel p))), p\<lparr>g_voc := v\<rparr>)" "mana_cache_ok manaPow v"
    using sum_mana_spec [of "magLevel p" 1 manaPow p 0] assms(2-4) by (auto simp: mana_ok_def)
  define p1 where "p1 = p\<lparr>g_voc := v\<rparr>"
  have p1: "mana_cache_ok manaPow (g_voc p1)" "mana_total manaPow p1 = mana_total manaPow p" "magLevel p1 = magLevel p"
      "manaSpent p1 = manaSpent p"
    using v(2) by (simp_all add: p1_def mana_total_def)
  have s: "of_nat (req_sum (mana_req manaPow) (unat (magLevel p))) + manaSpent p = of_nat (mana_total manaPow p)"
    by (simp add: mana_total_def)
  obtain l q where lq: "lose_mana manaPow lost p1 = (l, q)" by (cases "lose_mana manaPow lost p1")
  have left: "mana_left manaPow (mana_total manaPow p - unat lost) (l, q)" "unat (magLevel q) \<le> unat (magLevel p)"
    using lose_mana_spec [of manaPow p1 lost N] assms(1,2,4) assms(6) [folded lost_def] p1
    by (simp_all add: lq mana_ok_def less_imp_diff_less)
  define q1 where "q1 = q\<lparr>manaSpent := manaSpent q - l\<rparr>"
  obtain w where w: "reqMana manaPow q1 (magLevel q + 1) = (roundMana (manaPow (magLevel q + 1)), q1\<lparr>g_voc := w\<rparr>)"
      "mana_cache_ok manaPow w"
    using reqMana_spec [of manaPow q1] left(1) by (auto simp: q1_def mana_left_def)
  obtain u where u: "reqMana manaPow (q1\<lparr>g_voc := w\<rparr>) (magLevel q) = (roundMana (manaPow (magLevel q)), q1\<lparr>g_voc := u\<rparr>)"
      "mana_cache_ok manaPow u"
    using reqMana_spec [of manaPow "q1\<lparr>g_voc := w\<rparr>"] w(2) by (auto simp: q1_def)
  have "death_mana manaPow lossOf p = Some (q1\<lparr>g_voc := u, magLevelPercent :=
      manaPercent (roundMana (manaPow (magLevel q))) (roundMana (manaPow (magLevel q + 1))) (q1\<lparr>g_voc := u\<rparr>)\<rparr>)"
    using v(1) lq w(1) u(1) s
    by (simp add: death_mana_def Let_def p1_def [symmetric] p1 lost_def [symmetric]) (simp add: q1_def)
  then show ?thesis
    unfolding lost_def [symmetric] using left u(2) mana_left_spent [OF left(1)]
    by (simp add: mana_ok_def mana_total_def q1_def mana_left_def)
qed

lemma death_mana_total_witness:
  "\<exists>q. death_mana demo_mana (\<lambda>w. 600) demo_hero = Some q \<and> mana_ok demo_mana q \<and> mana_total demo_mana q = 360"
  using death_mana_total [OF demo_mana_rising, of demo_hero "\<lambda>w. 600"] demo_mana_hero
  by (simp add: demo_hero_def) blast

subsection \<open>Skill training moves the total of tries\<close>

text \<open>Skill levels start at ten; \<open>tries_req s i\<close> is what it takes to reach level \<open>10 + i\<close> from the level before.\<close>

definition tries_req :: "skill_table \<Rightarrow> nat \<Rightarrow> nat \<Rightarrow> nat" where
  "tries_req skillPow s i = unat (skillPow s (of_nat (10 + i)))"

definition skill_rank :: "nat \<Rightarrow> growth \<Rightarrow> nat" where
  "skill_rank s p = unat (sk_level (skills p ! s)) - 10"

definition tries_total :: "skill_table \<Rightarrow> nat \<Rightarrow> growth \<Rightarrow> nat" where
  "tries_total skillPow s p = req_sum (tries_req skillPow s) (skill_rank s p) + unat (sk_tries (skills p ! s))"

definition skill_ok :: "skill_table \<Rightarrow> nat \<Rightarrow> growth \<Rightarrow> bool" where
  "skill_ok skillPow s p \<longleftrightarrow>
     s \<le> SKILL_LAST \<and> length (skills p) = Suc SKILL_LAST \<and> skill_cache_ok skillPow (g_voc p) \<and>
     10 \<le> unat (sk_level (skills p ! s)) \<and>
     unat (sk_tries (skills p ! s)) < tries_req skillPow s (Suc (skill_rank s p))"

lemma reqTries_spec:
  assumes "skill_cache_ok skillPow (g_voc p)" and "tables_small skillPow" and "s \<le> SKILL_LAST"
  obtains v where "reqTries skillPow p s lv = (skillPow s lv, p\<lparr>g_voc := v\<rparr>)" "skill_cache_ok skillPow v"
  using getReqSkillTries_fst [OF assms, of lv] getReqSkillTries_ok [OF assms(1), of s lv]
    that [of "snd (getReqSkillTries skillPow (g_voc p) s lv)"]
  by (simp add: reqTries_def case_prod_beta)

lemma tries_req_rank:
  assumes "10 \<le> unat lv"
  shows "unat (skillPow s lv) = tries_req skillPow s (unat lv - 10)"
proof -
  have "(of_nat (10 + (unat lv - 10)) :: 16 word) = lv"
    using assms by (simp only: le_add_diff_inverse) simp
  then show ?thesis by (simp only: tries_req_def)
qed

lemma unat_suc16: "unat (lv :: 16 word) < 2 ^ 16 - 1 \<Longrightarrow> unat (lv + 1) = Suc (unat lv)"
  by (subst unat_add_lem [THEN iffD1]) simp_all

lemma tries_req_suc:
  assumes "10 \<le> unat lv" and "unat lv < 2 ^ 16 - 1"
  shows "unat (skillPow s (lv + 1)) = tries_req skillPow s (Suc (unat lv - 10))"
proof -
  have "unat (lv + 1) - 10 = Suc (unat lv - 10)"
    unfolding unat_suc16 [OF assms(2)] using assms(1) by (rule Suc_diff_le)
  then show ?thesis
    using tries_req_rank [of "lv + 1" skillPow s] assms by (simp add: unat_suc16)
qed

definition skill_raised :: "bool \<Rightarrow> nat \<Rightarrow> growth \<Rightarrow> growth" where
  "skill_raised talk s p =
     (let lv = sk_level (skills p ! s) + 1
      in tell ((if talk then [AdvancedSkill s] else []) @ [PlayerAdvance s (ucast lv - 1) (ucast lv)])
           (upd_skill s (\<lambda>k. k\<lparr>sk_level := sk_level k + 1, sk_tries := 0, sk_percent := 0\<rparr>) p))"

lemma upd_skill_nth [simp]:
  "s < length (skills p) \<Longrightarrow> skills (upd_skill s f p) ! s = f (skills p ! s)"
  "length (skills (upd_skill s f p)) = length (skills p)" "g_voc (upd_skill s f p) = g_voc p"
  "t \<noteq> s \<Longrightarrow> skills (upd_skill s f p) ! t = skills p ! t"
  by (simp_all add: upd_skill_def)

lemma skill_raised_simps [simp]:
  "s < length (skills p) \<Longrightarrow> sk_level (skills (skill_raised talk s p) ! s) = sk_level (skills p ! s) + 1"
  "s < length (skills p) \<Longrightarrow> sk_tries (skills (skill_raised talk s p) ! s) = 0"
  "g_voc (skill_raised talk s p) = g_voc p" "length (skills (skill_raised talk s p)) = length (skills p)"
  by (simp_all add: skill_raised_def Let_def)

lemma skill_loop_stop:
  "\<not> d \<le> sk_tries (skills p ! s) + a \<Longrightarrow> skill_loop skillPow talk s c d a p = (c, d, a, p)"
  by (subst skill_loop.simps) simp

lemma skill_loop_step:
  assumes "s < length (skills p)" and "d \<le> sk_tries (skills p ! s) + a"
    and "reqTries skillPow (skill_raised talk s p) s (sk_level (skills p ! s) + 1 + 1) = (d', q)" and "\<not> d' \<le> d"
  shows "skill_loop skillPow talk s c d a p = skill_loop skillPow talk s d d' (a - (d - sk_tries (skills p ! s))) q"
  using assms by (cases talk) (subst skill_loop.simps, simp add: Let_def skill_raised_def)+

definition tries_result :: "skill_table \<Rightarrow> nat \<Rightarrow> nat \<Rightarrow> u64 \<times> u64 \<times> u64 \<times> growth \<Rightarrow> bool" where
  "tries_result skillPow s tot = (\<lambda>(c, d, a, q).
     length (skills q) = Suc SKILL_LAST \<and> skill_cache_ok skillPow (g_voc q) \<and> 10 \<le> unat (sk_level (skills q ! s)) \<and>
     tries_total skillPow s q + unat a = tot \<and>
     unat (sk_tries (skills q ! s)) + unat a < tries_req skillPow s (Suc (skill_rank s q)))"

lemma skill_loop_spec:
  assumes "rising (tries_req skillPow s) N" and "N < 65525" and "tables_small skillPow"
    and "skill_ok skillPow s p" and "tries_total skillPow s p + unat a < req_sum (tries_req skillPow s) N"
    and "unat d = tries_req skillPow s (Suc (skill_rank s p))"
  shows "tries_result skillPow s (tries_total skillPow s p + unat a) (skill_loop skillPow talk s c d a p)"
  using assms(4-)
proof (induction "N - skill_rank s p" arbitrary: c d a p rule: less_induct)
  case less
  note rise = assms(1) and N = assms(2) and tot = less(3)
  let ?k = "skills p ! s"
  define n where "n = skill_rank s p"
  have ok: "skill_cache_ok skillPow (g_voc p)" "unat (sk_tries ?k) < unat d" "s < length (skills p)" "s \<le> SKILL_LAST"
      "unat (sk_level ?k) = 10 + n"
    using less(2,4) by (simp_all add: skill_ok_def n_def skill_rank_def)
  have fits: "unat (sk_tries ?k) + unat a < 2 ^ 64"
    using tot rise unfolding tries_total_def rising_def by linarith
  show ?case
  proof (cases "d \<le> sk_tries ?k + a")
    case False
    then have "unat (sk_tries ?k) + unat a < unat d"
      using unat_add_fits [OF fits] by (simp add: word_le_nat_alt)
    then show ?thesis
      using less(2,4) by (simp add: skill_loop_stop [OF False] tries_result_def skill_ok_def)
  next
    case True
    have a': "unat (a - (d - sk_tries ?k)) = unat (sk_tries ?k) + unat a - unat d"
      by (rule train_step [OF ok(2) True fits])
    have le: "unat d \<le> unat (sk_tries ?k) + unat a"
      using True unat_add_fits [OF fits] by (simp add: word_le_nat_alt)
    then have "req_sum (tries_req skillPow s) (Suc n) \<le> tries_total skillPow s p + unat a"
      using less(4) by (simp add: tries_total_def n_def)
    then have n: "Suc n < N"
      by (rule req_sum_below [OF tot])
    define q where "q = skill_raised talk s p"
    have lv: "unat (sk_level (skills q ! s)) = 10 + Suc n"
      using unat_suc16 [of "sk_level ?k"] ok(3,5) n N by (simp add: q_def)
    obtain v where v: "reqTries skillPow q s (sk_level ?k + 1 + 1) = (skillPow s (sk_level ?k + 1 + 1), q\<lparr>g_voc := v\<rparr>)"
        "skill_cache_ok skillPow v"
      using reqTries_spec [of skillPow q s] ok(1,4) assms(3) by (auto simp: q_def)
    define d' where "d' = skillPow s (sk_level ?k + 1 + 1)"
    have d': "unat d' = tries_req skillPow s (Suc (Suc n))"
      using tries_req_suc [of "sk_level ?k + 1" skillPow s] lv n N ok(3) by (simp add: d'_def q_def)
    have "unat d < unat d'"
      using rising_step [OF rise n] d' less(4) by (simp add: n_def)
    then have lt: "\<not> d' \<le> d"
      by (simp add: word_le_nat_alt)
    have step: "skill_loop skillPow talk s c d a p
        = skill_loop skillPow talk s d d' (a - (d - sk_tries ?k)) (q\<lparr>g_voc := v\<rparr>)"
      using v(1) lt by (intro skill_loop_step [OF ok(3) True]) (simp_all add: q_def d'_def)
    have rk: "skill_rank s (q\<lparr>g_voc := v\<rparr>) = Suc n"
      using lv by (simp add: skill_rank_def)
    have t: "tries_total skillPow s (q\<lparr>g_voc := v\<rparr>) + unat (a - (d - sk_tries ?k)) = tries_total skillPow s p + unat a"
      using rk less(4) a' le ok(3) by (simp add: tries_total_def n_def) (simp add: q_def)
    have "tries_result skillPow s (tries_total skillPow s (q\<lparr>g_voc := v\<rparr>) + unat (a - (d - sk_tries ?k)))
        (skill_loop skillPow talk s d d' (a - (d - sk_tries ?k)) (q\<lparr>g_voc := v\<rparr>))"
    proof (rule less(1))
      show "N - skill_rank s (q\<lparr>g_voc := v\<rparr>) < N - skill_rank s p"
        using rk n by (simp add: n_def)
      show "skill_ok skillPow s (q\<lparr>g_voc := v\<rparr>)"
        using v(2) rising_step [OF rise n] rk lv ok(3,4) less(2) by (simp add: skill_ok_def) (simp add: q_def)
    qed (use t tot rk d' in simp_all)
    then show ?thesis
      by (simp only: step t)
  qed
qed

text \<open>Training a skill adds exactly the tries the script left to the total of tries (the requirements of all levels passed
  plus the current ones) and leaves fewer tries than the next level needs, so the skill level is the one the total stands for;
  for tables rising up to \<open>N\<close> levels and totals below the sum of the first \<open>N\<close> requirements.\<close>

lemma addSkillAdvance_total:
  assumes "rising (tries_req skillPow s) N" and "N < 65525" and "tables_small skillPow" and "skill_ok skillPow s p"
    and "tries_total skillPow s p + unat (onTries s count) < req_sum (tries_req skillPow s) N"
  shows "skill_ok skillPow s (addSkillAdvance skillPow onTries s count p) \<and>
         tries_total skillPow s (addSkillAdvance skillPow onTries s count p)
           = tries_total skillPow s p + unat (onTries s count)"
proof -
  let ?k = "skills p ! s"
  define c d where "c = skillPow s (sk_level ?k)" and "d = skillPow s (sk_level ?k + 1)"
  have s: "s \<le> SKILL_LAST" "s < length (skills p)" "skill_cache_ok skillPow (g_voc p)" "10 \<le> unat (sk_level ?k)"
    using assms(4) by (simp_all add: skill_ok_def)
  have n: "skill_rank s p < N"
    by (rule req_sum_below [OF assms(5)]) (simp add: tries_total_def)
  then have d: "unat d = tries_req skillPow s (Suc (skill_rank s p))"
    using tries_req_suc [of "sk_level ?k" skillPow s] s(4) assms(2) by (simp add: d_def skill_rank_def)
  have "unat c = tries_req skillPow s (skill_rank s p)"
    using tries_req_rank [OF s(4)] by (simp add: c_def skill_rank_def)
  then have cd: "\<not> d \<le> c"
    using rising_step [OF assms(1) n] d by (simp add: word_le_nat_alt)
  obtain v where v: "reqTries skillPow p s (sk_level ?k) = (c, p\<lparr>g_voc := v\<rparr>)" "skill_cache_ok skillPow v"
    using reqTries_spec [OF s(3) assms(3) s(1)] by (auto simp: c_def)
  obtain w where w: "reqTries skillPow (p\<lparr>g_voc := v\<rparr>) s (sk_level ?k + 1) = (d, p\<lparr>g_voc := w\<rparr>)" "skill_cache_ok skillPow w"
    using reqTries_spec [of skillPow "p\<lparr>g_voc := v\<rparr>" s] v(2) assms(3) s(1) by (auto simp: d_def)
  define q where "q = p\<lparr>g_voc := w\<rparr>"
  have q: "skill_ok skillPow s q" "tries_total skillPow s q = tries_total skillPow s p" "skill_rank s q = skill_rank s p"
    using assms(4) w(2) by (simp_all add: q_def skill_ok_def tries_total_def skill_rank_def)
  obtain c' d' a r where r: "skill_loop skillPow True s c d (onTries s count) q = (c', d', a, r)"
    by (metis prod_cases4)
  have tr: "tries_result skillPow s (tries_total skillPow s p + unat (onTries s count)) (c', d', a, r)"
    using skill_loop_spec [OF assms(1-3) q(1), of "onTries s count" d True c] assms(5) d by (simp add: q r)
  show ?thesis
  proof (cases "onTries s count = 0")
    case True
    then have "addSkillAdvance skillPow onTries s count p = q"
      using v(1) w(1) cd by (simp add: addSkillAdvance_def q_def)
    then show ?thesis using q True by simp
  next
    case False
    define u where "u = addSkillAdvance skillPow onTries s count p"
    have "sk_level (skills u ! s) = sk_level (skills r ! s)" "sk_tries (skills u ! s) = sk_tries (skills r ! s) + a"
        "g_voc u = g_voc r" "length (skills u) = length (skills r)"
      using False v(1) w(1) cd r tr s(1)
      by (simp_all add: u_def addSkillAdvance_def q_def tries_result_def Let_def)
    moreover have "unat (sk_tries (skills r ! s) + a) = unat (sk_tries (skills r ! s)) + unat a"
      using tr unsigned_less [of "skillPow s (of_nat (10 + Suc (skill_rank s r)))", where ?'a = nat]
      by (intro unat_add_fits) (simp add: tries_result_def tries_req_def)
    ultimately have "skill_ok skillPow s u \<and> tries_total skillPow s u = tries_total skillPow s p + unat (onTries s count)"
      using tr s(1) by (simp add: skill_ok_def tries_total_def skill_rank_def tries_result_def)
    then show ?thesis by (simp only: u_def)
  qed
qed

lemma demo_skill_req:
  "tries_req demo_skill s 0 = 150" "tries_req demo_skill s (Suc 0) = 160" "tries_req demo_skill s 1 = 160"
  "tries_req demo_skill s 2 = 170" "tries_req demo_skill s 3 = 180"
  "tries_req demo_skill s 4 = 190" "tries_req demo_skill s 5 = 200"
  by (simp_all add: tries_req_def demo_skill_def)

lemma demo_skill_rising: "rising (tries_req demo_skill s) 5"
  by (auto simp: rising_def less_five req_sum_five demo_skill_req demo_skill_req(4) [unfolded numeral_2_eq_2])

lemma demo_skill_small: "tables_small demo_skill"
proof -
  have "unat (demo_skill s lv) < 2 ^ 32" for s lv
  proof -
    have "unat lv < 65536"
      using unsigned_less [of lv, where ?'a = nat] by simp
    moreover from this have m: "unat (10 * ucast lv :: u64) = 10 * unat lv"
      by (subst unat_mult_lem [THEN iffD1]) (simp_all add: unsigned_ucast_eq take_bit_nat_eq_self)
    ultimately have "unat (demo_skill s lv) = 50 + 10 * unat lv"
      unfolding demo_skill_def by (subst unat_add_fits) (simp_all add: m)
    then show ?thesis
      using \<open>unat lv < 65536\<close> by simp
  qed
  then show ?thesis by (simp add: tables_small_def)
qed

lemma addSkillAdvance_total_witness:
  "tries_total demo_skill 2 (addSkillAdvance demo_skill (\<lambda>_ x. x) 2 400 demo_hero) = 400"
proof -
  have "skill_ok demo_skill 2 demo_hero" "tries_total demo_skill 2 demo_hero = 0"
    by (simp_all add: skill_ok_def tries_total_def skill_rank_def demo_hero_def SKILL_LAST_def new_Skill_def demo_skill_req
        skill_cache_ok_def new_Vocation_def)
  then show ?thesis
    using addSkillAdvance_total [OF demo_skill_rising [of 2] _ demo_skill_small, of demo_hero "\<lambda>_ x. x" 400]
    by (simp add: req_sum_five demo_skill_req)
qed

subsection \<open>Death returns\<close>

lemma reqMana_voc: "\<exists>r v. reqMana manaPow p lv = (r, p\<lparr>g_voc := v\<rparr>)"
  by (simp add: reqMana_def split: prod.split) blast

lemma reqTries_voc: "\<exists>r v. reqTries skillPow p s lv = (r, p\<lparr>g_voc := v\<rparr>)"
  by (simp add: reqTries_def split: prod.split) blast

lemma sum_mana_returns:
  assumes "unat m < 2 ^ 32 - 1"
  shows "\<exists>w v. sum_mana manaPow m i acc p = Some (w, p\<lparr>g_voc := v\<rparr>)"
proof (induction "Suc (unat m) - unat i" arbitrary: i acc p rule: less_induct)
  case less
  show ?case
  proof (cases "i \<le> m")
    case False
    then show ?thesis
      by (intro exI [of _ acc] exI [of _ "g_voc p"]) (simp add: sum_mana.simps)
  next
    case True
    then have im: "unat i \<le> unat m" by (simp add: word_le_nat_alt)
    then have "unat (i + 1) = Suc (unat i)"
      using assms by (intro mana_req_suc(1)) linarith
    then have dec: "Suc (unat m) - unat (i + 1) < Suc (unat m) - unat i"
      using im by simp
    obtain r v where "reqMana manaPow p i = (r, p\<lparr>g_voc := v\<rparr>)"
      using reqMana_voc by blast
    then have "sum_mana manaPow m i acc p = sum_mana manaPow m (i + 1) (acc + r) (p\<lparr>g_voc := v\<rparr>)"
      using True by (simp add: sum_mana.simps [of manaPow m i])
    moreover obtain w u where "sum_mana manaPow m (i + 1) (acc + r) (p\<lparr>g_voc := v\<rparr>) = Some (w, p\<lparr>g_voc := v\<rparr>\<lparr>g_voc := u\<rparr>)"
      using less [OF dec] by blast
    ultimately show ?thesis by simp blast
  qed
qed

lemma sum_tries_returns:
  assumes "unat m < 2 ^ 16 - 1"
  shows "\<exists>w v. sum_tries skillPow s m c acc p = Some (w, p\<lparr>g_voc := v\<rparr>)"
proof (induction "Suc (unat m) - unat c" arbitrary: c acc p rule: less_induct)
  case less
  show ?case
  proof (cases "c \<le> m")
    case False
    then show ?thesis
      by (intro exI [of _ acc] exI [of _ "g_voc p"]) (simp add: sum_tries.simps)
  next
    case True
    then have im: "unat c \<le> unat m" by (simp add: word_le_nat_alt)
    then have "unat (c + 1) = Suc (unat c)"
      using assms by (intro unat_suc16) linarith
    then have dec: "Suc (unat m) - unat (c + 1) < Suc (unat m) - unat c"
      using im by simp
    obtain r v where "reqTries skillPow p s c = (r, p\<lparr>g_voc := v\<rparr>)"
      using reqTries_voc by blast
    then have "sum_tries skillPow s m c acc p = sum_tries skillPow s m (c + 1) (acc + r) (p\<lparr>g_voc := v\<rparr>)"
      using True by (simp add: sum_tries.simps [of skillPow s m c])
    moreover obtain w u where "sum_tries skillPow s m (c + 1) (acc + r) (p\<lparr>g_voc := v\<rparr>) = Some (w, p\<lparr>g_voc := v\<rparr>\<lparr>g_voc := u\<rparr>)"
      using less [OF dec] by blast
    ultimately show ?thesis by simp blast
  qed
qed

text \<open>At the largest skill level the 16-bit index of the summing loop wraps and the loop never ends.\<close>

lemma sum_tries_diverges: "sum_tries skillPow s (- 1) c acc p = None"
proof -
  have "sum_tries skillPow s m c acc p = Some y \<Longrightarrow> m \<noteq> - 1" for m y
    by (rule sum_tries.raw_induct [where P = "\<lambda>_ _ m _ _ _ _. m \<noteq> - 1"]) (auto split: if_splits prod.splits)
  then show ?thesis
    by (cases "sum_tries skillPow s (- 1) c acc p") blast+
qed

definition levels_below_max :: "growth \<Rightarrow> bool" where
  "levels_below_max p \<longleftrightarrow> length (skills p) = 7 \<and> (\<forall>k \<in> set (skills p). unat (sk_level k) < 2 ^ 16 - 1)"

lemma levels_upd:
  assumes "levels_below_max p" and "s < 7 \<Longrightarrow> unat (sk_level (f (skills p ! s))) < 2 ^ 16 - 1"
  shows "levels_below_max (upd_skill s f p)"
proof (cases "s < 7")
  case True
  then show ?thesis
    using assms set_update_subset_insert [of "skills p" s "f (skills p ! s)"]
    by (auto simp: levels_below_max_def upd_skill_def)
qed (use assms(1) in \<open>simp add: levels_below_max_def upd_skill_def list_update_beyond\<close>)

lemma levels_nth: "levels_below_max p \<Longrightarrow> s < 7 \<Longrightarrow> unat (sk_level (skills p ! s)) < 2 ^ 16 - 1"
  by (simp add: levels_below_max_def)

lemma levels_voc [simp]: "levels_below_max (p\<lparr>g_voc := v\<rparr>) = levels_below_max p"
  by (simp add: levels_below_max_def)

lemma snd_reqTries: "\<exists>v. snd (reqTries skillPow p s lv) = p\<lparr>g_voc := v\<rparr>"
  using reqTries_voc [of skillPow p s lv] by auto

lemma lose_tries_levels: "levels_below_max p \<Longrightarrow> levels_below_max (snd (lose_tries skillPow s lost p))"
proof (induction skillPow s lost p rule: lose_tries.induct)
  case (1 skillPow s lost p)
  let ?k = "skills p ! s"
  show ?case
  proof (cases "s < length (skills p) \<and> sk_tries ?k < ucast lost \<and> \<not> sk_level ?k \<le> 10")
    case False
    then show ?thesis
      using 1(2) by (subst lose_tries.simps) (auto simp: Let_def intro!: levels_upd)
  next
    case True
    obtain v where v: "snd (reqTries skillPow p s (sk_level ?k)) = p\<lparr>g_voc := v\<rparr>"
      using snd_reqTries by blast
    have "sk_level ?k \<noteq> 0"
      using True by auto
    then have "unat (sk_level ?k - 1) < 2 ^ 16 - 1"
      using 1(2) True levels_nth [OF 1(2), of s]
      by (simp add: unat_minus_one levels_below_max_def less_imp_diff_less)
    then have "levels_below_max (upd_skill s
        (\<lambda>k. k\<lparr>sk_tries := fst (reqTries skillPow p s (sk_level ?k)), sk_level := sk_level k - 1\<rparr>) (p\<lparr>g_voc := v\<rparr>))"
      using 1(2) by (intro levels_upd) simp_all
    then show ?thesis
      using 1(1) True v by (subst lose_tries.simps) (simp add: Let_def)
  qed
qed

lemma death_skill_returns:
  assumes "levels_below_max p" and "s < 7"
  shows "\<exists>q. death_skill skillPow lossOf32 s p = Some q \<and> levels_below_max q"
proof -
  obtain w v where v: "sum_tries skillPow s (sk_level (skills p ! s)) 11 0 p = Some (w, p\<lparr>g_voc := v\<rparr>)"
    using sum_tries_returns [OF levels_nth [OF assms]] by blast
  define lq where "lq = lose_tries skillPow s (lossOf32 (w + sk_tries (skills p ! s))) (p\<lparr>g_voc := v\<rparr>)"
  have q: "levels_below_max (snd lq)"
    unfolding lq_def using assms by (intro lose_tries_levels) simp
  define q where "q = upd_skill s (\<lambda>k. k\<lparr>sk_tries := scast (smax32 (ucast (sk_tries k - ucast (fst lq))))\<rparr>) (snd lq)"
  have "levels_below_max q"
    unfolding q_def using q assms(2) levels_nth [OF q] by (intro levels_upd) simp_all
  moreover obtain r u where u: "reqTries skillPow q s (sk_level (skills q ! s)) = (r, q\<lparr>g_voc := u\<rparr>)"
    using reqTries_voc by blast
  ultimately have "levels_below_max (upd_skill s (\<lambda>k. k\<lparr>sk_percent := getPercentLevel (sk_tries k) r\<rparr>) (q\<lparr>g_voc := u\<rparr>))"
    using levels_nth [of q s] assms(2) by (intro levels_upd) simp_all
  moreover have "death_skill skillPow lossOf32 s p =
      Some (upd_skill s (\<lambda>k. k\<lparr>sk_percent := getPercentLevel (sk_tries k) r\<rparr>) (q\<lparr>g_voc := u\<rparr>))"
    using v u by (simp add: death_skill_def Let_def case_prod_beta lq_def [symmetric] q_def [symmetric])
  ultimately show ?thesis by blast
qed

lemma death_skills_returns:
  assumes "\<forall>s \<in> set ss. s < 7" and "levels_below_max p"
  shows "\<exists>q. death_skills skillPow lossOf32 ss p = Some q"
  using assms
proof (induction ss arbitrary: p)
  case (Cons s ss)
  then obtain q where "death_skill skillPow lossOf32 s p = Some q" "levels_below_max q"
    using death_skill_returns [of p s skillPow lossOf32] by auto
  with Cons show ?case by simp
qed simp

lemma snd_reqMana: "\<exists>v. snd (reqMana manaPow p lv) = p\<lparr>g_voc := v\<rparr>"
  using reqMana_voc [of manaPow p lv] by auto

lemma lose_mana_skills: "skills (snd (lose_mana manaPow lost p)) = skills p"
proof (induction manaPow lost p rule: lose_mana.induct)
  case (1 manaPow lost p)
  obtain v where "snd (reqMana manaPow p (magLevel p)) = p\<lparr>g_voc := v\<rparr>"
    using snd_reqMana by blast
  with 1 show ?case
    by (subst lose_mana.simps) (simp add: Let_def)
qed

lemma death_mana_returns:
  assumes "unat (magLevel p) < 2 ^ 32 - 1"
  shows "\<exists>q. death_mana manaPow lossOf p = Some q \<and> skills q = skills p"
proof -
  obtain w v where v: "sum_mana manaPow (magLevel p) 1 0 p = Some (w, p\<lparr>g_voc := v\<rparr>)"
    using sum_mana_returns [OF assms] by blast
  define lq where "lq = lose_mana manaPow (lossOf (w + manaSpent p)) (p\<lparr>g_voc := v\<rparr>)"
  have "skills (snd lq) = skills p"
    by (simp add: lq_def lose_mana_skills)
  then show ?thesis
    using v by (simp add: death_mana_def Let_def lq_def [symmetric] case_prod_beta reqMana_def)
qed

text \<open>A death always returns: for every player whose magic level and skill levels are below the largest value of their
  types, and whatever the tables, the penalty and the script answer, all loops of \<open>death\<close> end.\<close>

lemma death_returns:
  assumes "unat (magLevel p) < 2 ^ 32 - 1" and "levels_below_max p"
  shows "\<exists>q. death manaPow skillPow onLose lossOf lossOf32 temple lastHitPlayer p = Some q"
proof (cases "skillLoss p")
  case False
  then show ?thesis by (simp add: death_def Let_def)
next
  case True
  define p0 where "p0 = p\<lparr>loginPosition := temple\<rparr>"
  obtain q where q: "death_mana manaPow (lossOf p0) p0 = Some q" "skills q = skills p"
    using death_mana_returns [of p0 manaPow "lossOf p0"] assms(1) by (auto simp: p0_def)
  obtain r where "death_skills skillPow (lossOf32 p0) [0..<7] q = Some r"
    using death_skills_returns [of "[0..<7]" q skillPow "lossOf32 p0"] assms(2) q(2) by (auto simp: levels_below_max_def)
  then show ?thesis
    using True q(1) by (simp add: death_def Let_def p0_def)
qed

lemma death_returns_witness:
  "\<exists>q. death (\<lambda>lv. 400) (\<lambda>s lv. 50) (\<lambda>_ x. x) (\<lambda>_ w. w div 10) (\<lambda>_ w. ucast (w div 10)) (Position 1 2 7) True demo_hero = Some q"
  using death_returns [of demo_hero "\<lambda>lv. 400" "\<lambda>s lv. 50" "\<lambda>_ x. x" "\<lambda>_ w. w div 10" "\<lambda>_ w. ucast (w div 10)"
      "Position 1 2 7" True]
  by (simp add: demo_hero_def levels_below_max_def new_Skill_def)

end
