(* ===== verification/Item_Attributes.thy ===== *)
theory Item_Attributes
  imports Prelude
begin

section \<open>Item attributes\<close>

text \<open>
  \<open>ItemAttributes\<close> and the attribute part of \<open>Item\<close> (\<open>item.h\<close>, \<open>item.cpp\<close>): a bit field that says which attributes are
  present beside a linked list of tagged unions, and the getters and setters of an item over it. The item table (\<open>Item::items\<close>, read from a file)
  is the parameter \<open>its\<close>. Shown: bit field and list always agree, every union is read with the tag it was written with,
  and the operations are a store with the laws of the locale \<open>keyed_store\<close>, for the attribute object and for the item that may not have one yet.
\<close>

datatype itemAttrTypes =
    ITEM_ATTRIBUTE_ACTIONID | ITEM_ATTRIBUTE_UNIQUEID | ITEM_ATTRIBUTE_DESCRIPTION | ITEM_ATTRIBUTE_TEXT
  | ITEM_ATTRIBUTE_DATE | ITEM_ATTRIBUTE_WRITER | ITEM_ATTRIBUTE_NAME | ITEM_ATTRIBUTE_ARTICLE
  | ITEM_ATTRIBUTE_PLURALNAME | ITEM_ATTRIBUTE_WEIGHT | ITEM_ATTRIBUTE_ATTACK | ITEM_ATTRIBUTE_DEFENSE
  | ITEM_ATTRIBUTE_EXTRADEFENSE | ITEM_ATTRIBUTE_ARMOR | ITEM_ATTRIBUTE_HITCHANCE | ITEM_ATTRIBUTE_SHOOTRANGE
  | ITEM_ATTRIBUTE_OWNER | ITEM_ATTRIBUTE_DURATION | ITEM_ATTRIBUTE_DECAYSTATE | ITEM_ATTRIBUTE_CORPSEOWNER
  | ITEM_ATTRIBUTE_CHARGES | ITEM_ATTRIBUTE_FLUIDTYPE | ITEM_ATTRIBUTE_DOORID

fun attr_index :: "itemAttrTypes \<Rightarrow> nat" where
  "attr_index ITEM_ATTRIBUTE_ACTIONID = 0"
| "attr_index ITEM_ATTRIBUTE_UNIQUEID = 1"
| "attr_index ITEM_ATTRIBUTE_DESCRIPTION = 2"
| "attr_index ITEM_ATTRIBUTE_TEXT = 3"
| "attr_index ITEM_ATTRIBUTE_DATE = 4"
| "attr_index ITEM_ATTRIBUTE_WRITER = 5"
| "attr_index ITEM_ATTRIBUTE_NAME = 6"
| "attr_index ITEM_ATTRIBUTE_ARTICLE = 7"
| "attr_index ITEM_ATTRIBUTE_PLURALNAME = 8"
| "attr_index ITEM_ATTRIBUTE_WEIGHT = 9"
| "attr_index ITEM_ATTRIBUTE_ATTACK = 10"
| "attr_index ITEM_ATTRIBUTE_DEFENSE = 11"
| "attr_index ITEM_ATTRIBUTE_EXTRADEFENSE = 12"
| "attr_index ITEM_ATTRIBUTE_ARMOR = 13"
| "attr_index ITEM_ATTRIBUTE_HITCHANCE = 14"
| "attr_index ITEM_ATTRIBUTE_SHOOTRANGE = 15"
| "attr_index ITEM_ATTRIBUTE_OWNER = 16"
| "attr_index ITEM_ATTRIBUTE_DURATION = 17"
| "attr_index ITEM_ATTRIBUTE_DECAYSTATE = 18"
| "attr_index ITEM_ATTRIBUTE_CORPSEOWNER = 19"
| "attr_index ITEM_ATTRIBUTE_CHARGES = 20"
| "attr_index ITEM_ATTRIBUTE_FLUIDTYPE = 21"
| "attr_index ITEM_ATTRIBUTE_DOORID = 22"

definition isIntAttrType :: "itemAttrTypes \<Rightarrow> bool" where
  "isIntAttrType t \<longleftrightarrow> bit (0x7FFE13 :: u32) (attr_index t)"

definition isStrAttrType :: "itemAttrTypes \<Rightarrow> bool" where
  "isStrAttrType t \<longleftrightarrow> bit (0x1EC :: u32) (attr_index t)"

text \<open>The union of \<open>Attribute\<close>: a 64-bit integer or a pointer to a string; a new attribute is zeroed, which for
  a string is the null pointer.\<close>

datatype attr_value = AInt "64 word" | AStr "byte list" | ANull

record ItemAttributes =
  attr_list :: "(itemAttrTypes \<times> attr_value) list"
  attributeBits :: u32

definition new_ItemAttributes :: ItemAttributes where
  "new_ItemAttributes = \<lparr>attr_list = [], attributeBits = 0\<rparr>"

definition hasAttribute :: "ItemAttributes \<Rightarrow> itemAttrTypes \<Rightarrow> bool" where
  "hasAttribute a t \<longleftrightarrow> bit (attributeBits a) (attr_index t)"

definition getExistingAttr :: "ItemAttributes \<Rightarrow> itemAttrTypes \<Rightarrow> attr_value option" where
  "getExistingAttr a t = (if hasAttribute a t then map_of (attr_list a) t else None)"

text \<open>\<open>getAttr\<close> returns a reference; what its callers do through it is the argument \<open>f\<close>.\<close>

fun upd_first :: "'k \<Rightarrow> ('v \<Rightarrow> 'v) \<Rightarrow> ('k \<times> 'v) list \<Rightarrow> ('k \<times> 'v) list" where
  "upd_first t f [] = []"
| "upd_first t f ((k, v) # kvs) = (if k = t then (k, f v) # kvs else (k, v) # upd_first t f kvs)"

definition zero_value :: "itemAttrTypes \<Rightarrow> attr_value" where
  "zero_value t = (if isStrAttrType t then ANull else AInt 0)"

definition getAttr :: "itemAttrTypes \<Rightarrow> (attr_value \<Rightarrow> attr_value) \<Rightarrow> ItemAttributes \<Rightarrow> ItemAttributes" where
  "getAttr t f a =
     (if hasAttribute a t \<and> t \<in> fst ` set (attr_list a)
      then a\<lparr>attr_list := upd_first t f (attr_list a)\<rparr>
      else \<lparr>attr_list = (t, f (zero_value t)) # attr_list a, attributeBits = set_bit (attr_index t) (attributeBits a)\<rparr>)"

text \<open>\<open>None\<close> is the dereference of a null string, or the union read with the wrong tag.\<close>

definition getStrAttr :: "ItemAttributes \<Rightarrow> itemAttrTypes \<Rightarrow> byte list option" where
  "getStrAttr a t =
     (if \<not> isStrAttrType t then Some []
      else case getExistingAttr a t of
             None \<Rightarrow> Some []
           | Some (AStr s) \<Rightarrow> Some s
           | Some _ \<Rightarrow> None)"

definition setStrAttr :: "itemAttrTypes \<Rightarrow> byte list \<Rightarrow> ItemAttributes \<Rightarrow> ItemAttributes" where
  "setStrAttr t v a =
     (if \<not> isStrAttrType t then a
      else if v = [] then a
      else getAttr t (\<lambda>_. AStr v) a)"

definition getIntAttr :: "ItemAttributes \<Rightarrow> itemAttrTypes \<Rightarrow> 64 word option" where
  "getIntAttr a t =
     (if \<not> isIntAttrType t then Some 0
      else case getExistingAttr a t of
             None \<Rightarrow> Some 0
           | Some (AInt n) \<Rightarrow> Some n
           | Some _ \<Rightarrow> None)"

definition setIntAttr :: "itemAttrTypes \<Rightarrow> 64 word \<Rightarrow> ItemAttributes \<Rightarrow> ItemAttributes" where
  "setIntAttr t v a = (if \<not> isIntAttrType t then a else getAttr t (\<lambda>_. AInt v) a)"

definition add_int :: "64 word \<Rightarrow> attr_value \<Rightarrow> attr_value" where
  "add_int d v = (case v of AInt n \<Rightarrow> AInt (n + d) | _ \<Rightarrow> v)"

definition increaseIntAttr :: "itemAttrTypes \<Rightarrow> 64 word \<Rightarrow> ItemAttributes \<Rightarrow> ItemAttributes" where
  "increaseIntAttr t v a = (if \<not> isIntAttrType t then a else getAttr t (add_int v) a)"

fun erase_first :: "'k \<Rightarrow> ('k \<times> 'v) list \<Rightarrow> ('k \<times> 'v) list" where
  "erase_first t [] = []"
| "erase_first t ((k, v) # kvs) = (if k = t then kvs else (k, v) # erase_first t kvs)"

definition removeAttribute :: "itemAttrTypes \<Rightarrow> ItemAttributes \<Rightarrow> ItemAttributes" where
  "removeAttribute t a =
     (if \<not> hasAttribute a t then a
      else \<lparr>attr_list = erase_first t (attr_list a), attributeBits = unset_bit (attr_index t) (attributeBits a)\<rparr>)"

subsection \<open>Bit field and list agree\<close>

definition value_fits :: "itemAttrTypes \<times> attr_value \<Rightarrow> bool" where
  "value_fits = (\<lambda>(t, v). case v of
      AInt _ \<Rightarrow> isIntAttrType t \<and> \<not> isStrAttrType t
    | AStr s \<Rightarrow> isStrAttrType t \<and> \<not> isIntAttrType t \<and> s \<noteq> []
    | ANull \<Rightarrow> False)"

definition attrs_ok :: "ItemAttributes \<Rightarrow> bool" where
  "attrs_ok a \<longleftrightarrow>
     distinct (map fst (attr_list a)) \<and>
     (\<forall>t. hasAttribute a t \<longleftrightarrow> t \<in> fst ` set (attr_list a)) \<and>
     list_all value_fits (attr_list a)"

lemma attr_index_inj: "attr_index s = attr_index t \<longleftrightarrow> s = t"
  by (cases s; cases t; simp)

lemma attr_index_lt: "attr_index t < 32"
  by (cases t; simp)

lemma int_xor_str: "isIntAttrType t \<longleftrightarrow> \<not> isStrAttrType t"
  by (cases t; simp add: isIntAttrType_def isStrAttrType_def)

lemma hasAttribute_set: "hasAttribute \<lparr>attr_list = l, attributeBits = set_bit (attr_index t) (attributeBits a)\<rparr> s
   \<longleftrightarrow> s = t \<or> hasAttribute a s"
  using attr_index_lt [of t] by (auto simp: hasAttribute_def bit_set_bit_iff attr_index_inj)

lemma hasAttribute_unset: "hasAttribute \<lparr>attr_list = l, attributeBits = unset_bit (attr_index t) (attributeBits a)\<rparr> s
   \<longleftrightarrow> s \<noteq> t \<and> hasAttribute a s"
  by (auto simp: hasAttribute_def bit_unset_bit_iff attr_index_inj)

lemma hasAttribute_list [simp]: "hasAttribute (a\<lparr>attr_list := l\<rparr>) s = hasAttribute a s"
  by (simp add: hasAttribute_def)

lemma upd_first_keys [simp]: "map fst (upd_first t f kvs) = map fst kvs"
  by (induction t f kvs rule: upd_first.induct) auto

lemma fst_upd_first [simp]: "fst ` set (upd_first t f kvs) = fst ` set kvs"
  by (metis upd_first_keys set_map)

lemma map_of_upd_first:
  "map_of (upd_first t f kvs) s = (if s = t then map_option f (map_of kvs t) else map_of kvs s)"
  by (induction t f kvs rule: upd_first.induct) auto

lemma list_all_upd_first:
  "list_all P kvs \<Longrightarrow> (\<And>v. P (t, v) \<Longrightarrow> P (t, f v)) \<Longrightarrow> list_all P (upd_first t f kvs)"
  by (induction t f kvs rule: upd_first.induct) auto

lemma erase_first_keys: "distinct (map fst kvs) \<Longrightarrow> fst ` set (erase_first t kvs) = fst ` set kvs - {t}"
  by (induction t kvs rule: erase_first.induct) auto

lemma erase_first_sub: "set (erase_first t kvs) \<subseteq> set kvs"
  by (induction t kvs rule: erase_first.induct) auto

lemma distinct_erase_first: "distinct (map fst kvs) \<Longrightarrow> distinct (map fst (erase_first t kvs))"
proof (induction t kvs rule: erase_first.induct)
  case (2 t k v kvs)
  then show ?case
    using erase_first_sub [of t kvs] by (auto simp: image_iff)
qed simp

lemma map_of_erase_first:
  "distinct (map fst kvs) \<Longrightarrow> map_of (erase_first t kvs) s = (if s = t then None else map_of kvs s)"
  by (induction t kvs rule: erase_first.induct) (auto intro: map_of_eq_None_iff [THEN iffD2])

lemma getAttr_ok:
  assumes "attrs_ok a" and "\<And>v. value_fits (t, v) \<Longrightarrow> value_fits (t, f v)" and "value_fits (t, f (zero_value t))"
  shows "attrs_ok (getAttr t f a)"
proof (cases "hasAttribute a t")
  case True
  then show ?thesis
    using assms by (auto simp: getAttr_def attrs_ok_def intro: list_all_upd_first)
next
  case False
  then show ?thesis
    using assms by (auto simp: getAttr_def attrs_ok_def hasAttribute_set)
qed

lemma removeAttribute_ok: "attrs_ok a \<Longrightarrow> attrs_ok (removeAttribute t a)"
  using erase_first_sub [of t "attr_list a"]
  by (auto simp: removeAttribute_def attrs_ok_def hasAttribute_unset erase_first_keys distinct_erase_first list_all_iff)

lemma getExistingAttr_ok: "attrs_ok a \<Longrightarrow> getExistingAttr a t = map_of (attr_list a) t"
  by (auto simp: getExistingAttr_def attrs_ok_def map_of_eq_None_iff [symmetric])

lemma setIntAttr_ok: "attrs_ok a \<Longrightarrow> attrs_ok (setIntAttr t v a)"
  by (auto simp: setIntAttr_def value_fits_def int_xor_str intro!: getAttr_ok)

lemma setStrAttr_ok: "attrs_ok a \<Longrightarrow> attrs_ok (setStrAttr t v a)"
  by (auto simp: setStrAttr_def value_fits_def int_xor_str intro!: getAttr_ok)

lemma increaseIntAttr_ok: "attrs_ok a \<Longrightarrow> attrs_ok (increaseIntAttr t v a)"
  by (auto simp: increaseIntAttr_def value_fits_def int_xor_str add_int_def zero_value_def
      intro!: getAttr_ok split: attr_value.splits)

lemma new_ItemAttributes_ok: "attrs_ok new_ItemAttributes"
  by (simp add: attrs_ok_def new_ItemAttributes_def hasAttribute_def)

subsection \<open>The attribute store\<close>

text \<open>What the rest of the server relies on: a store with lookup after update. The client lemma says what a sequence of
  updates with distinct keys leaves.\<close>

locale keyed_store =
  fixes look :: "'s \<Rightarrow> 'k \<Rightarrow> 'v option"
    and put :: "'k \<Rightarrow> 'v \<Rightarrow> 's \<Rightarrow> 's"
    and ok :: "'s \<Rightarrow> bool"
    and fits :: "'k \<Rightarrow> 'v \<Rightarrow> bool"
  assumes put_ok: "ok s \<Longrightarrow> fits k v \<Longrightarrow> ok (put k v s)"
    and look_put: "ok s \<Longrightarrow> fits k v \<Longrightarrow> look (put k v s) k' = (if k' = k then Some v else look s k')"
begin

definition fill :: "('k \<Rightarrow> 'v option) \<Rightarrow> 'k list \<Rightarrow> 's \<Rightarrow> 's" where
  "fill m = fold (\<lambda>k s. case m k of None \<Rightarrow> s | Some v \<Rightarrow> put k v s)"

lemma fill_look:
  assumes "ok s" and "\<And>k v. m k = Some v \<Longrightarrow> fits k v"
  shows "ok (fill m ks s) \<and> look (fill m ks s) k = (if k \<in> set ks \<and> m k \<noteq> None then m k else look s k)"
  using assms(1)
proof (induction ks arbitrary: s)
  case (Cons j ks)
  define s' where "s' = (case m j of None \<Rightarrow> s | Some v \<Rightarrow> put j v s)"
  have "ok s'" and look: "look s' k = (if k = j \<and> m j \<noteq> None then m j else look s k)"
    using Cons.prems assms(2) by (auto simp: s'_def put_ok look_put split: option.split)
  moreover have "fill m (j # ks) s = fill m ks s'"
    by (simp add: fill_def s'_def)
  ultimately show ?case
    using Cons.IH [of s'] by auto
qed (simp add: fill_def)

end

definition put_attr :: "itemAttrTypes \<Rightarrow> attr_value \<Rightarrow> ItemAttributes \<Rightarrow> ItemAttributes" where
  "put_attr t v = getAttr t (\<lambda>_. v)"

interpretation attrs: keyed_store getExistingAttr put_attr attrs_ok "\<lambda>t v. value_fits (t, v)"
proof
  fix s k v k'
  assume a: "attrs_ok s" and f: "value_fits (k, v)"
  show ok: "attrs_ok (put_attr k v s)"
    unfolding put_attr_def using a f by (intro getAttr_ok) simp_all
  show "getExistingAttr (put_attr k v s) k' = (if k' = k then Some v else getExistingAttr s k')"
  proof (cases "hasAttribute s k")
    case True
    moreover from this have "\<exists>w. map_of (attr_list s) k = Some w"
      using a by (auto simp: attrs_ok_def)
    ultimately show ?thesis
      using a by (auto simp: getExistingAttr_ok [OF ok] getExistingAttr_ok [OF a])
        (auto simp: put_attr_def getAttr_def attrs_ok_def map_of_upd_first)
  next
    case False
    then show ?thesis
      by (simp add: getExistingAttr_ok [OF ok] getExistingAttr_ok [OF a]) (simp add: put_attr_def getAttr_def)
  qed
qed

subsection \<open>Items\<close>

record ItemType =
  it_stackable :: bool
  it_fluid :: bool
  it_charges :: nat
  it_moveable :: bool
  it_pickupable :: bool
  it_weight :: u32
  it_decayTime :: u32
  it_stopTime :: bool
  it_decayTo :: int

type_synonym item_table = "16 word \<Rightarrow> ItemType"

record item =
  i_id :: "16 word"
  i_count :: byte
  i_attrs :: "ItemAttributes option"

definition getAttributes :: "(ItemAttributes \<Rightarrow> ItemAttributes) \<Rightarrow> item \<Rightarrow> item" where
  "getAttributes f i = i\<lparr>i_attrs := Some (f (case i_attrs i of None \<Rightarrow> new_ItemAttributes | Some a \<Rightarrow> a))\<rparr>"

definition item_has :: "item \<Rightarrow> itemAttrTypes \<Rightarrow> bool" where
  "item_has i t = (case i_attrs i of None \<Rightarrow> False | Some a \<Rightarrow> hasAttribute a t)"

text \<open>The getters of \<open>Item\<close>: 32 bits of the stored integer. A mistagged union, which \<open>attrs_ok\<close> excludes, reads as nothing.\<close>

definition item_int :: "item \<Rightarrow> itemAttrTypes \<Rightarrow> u32" where
  "item_int i t = (case i_attrs i of None \<Rightarrow> 0 | Some a \<Rightarrow> (case getIntAttr a t of None \<Rightarrow> 0 | Some v \<Rightarrow> ucast v))"

definition item_str :: "item \<Rightarrow> itemAttrTypes \<Rightarrow> byte list" where
  "item_str i t = (case i_attrs i of None \<Rightarrow> [] | Some a \<Rightarrow> (case getStrAttr a t of None \<Rightarrow> [] | Some s \<Rightarrow> s))"

definition item_setInt :: "itemAttrTypes \<Rightarrow> u32 \<Rightarrow> item \<Rightarrow> item" where
  "item_setInt t v = getAttributes (setIntAttr t (scast v))"

definition item_setStr :: "itemAttrTypes \<Rightarrow> byte list \<Rightarrow> item \<Rightarrow> item" where
  "item_setStr t v = getAttributes (setStrAttr t v)"

definition item_remove :: "itemAttrTypes \<Rightarrow> item \<Rightarrow> item" where
  "item_remove t i = (case i_attrs i of None \<Rightarrow> i | Some a \<Rightarrow> i\<lparr>i_attrs := Some (removeAttribute t a)\<rparr>)"

definition setID :: "item_table \<Rightarrow> 16 word \<Rightarrow> item \<Rightarrow> item" where
  "setID its newid i =
     (let prevIt = its (i_id i);
          i = i\<lparr>i_id := newid\<rparr>;
          it = its newid;
          newDuration = it_decayTime it * 1000;
          i = (if newDuration = 0 \<and> \<not> it_stopTime it \<and> it_decayTo it < 0
               then item_remove ITEM_ATTRIBUTE_DURATION (item_remove ITEM_ATTRIBUTE_DECAYSTATE i) else i);
          i = item_remove ITEM_ATTRIBUTE_CORPSEOWNER i
      in if newDuration > 0 \<and> (\<not> it_stopTime prevIt \<or> \<not> item_has i ITEM_ATTRIBUTE_DURATION)
         then item_setInt ITEM_ATTRIBUTE_DURATION newDuration (item_setInt ITEM_ATTRIBUTE_DECAYSTATE 0 i)
         else i)"

text \<open>\<open>Item::equals\<close>: same id, and both without attributes or with the same bits and no differing value.\<close>

definition attrs_equal :: "ItemAttributes \<Rightarrow> ItemAttributes \<Rightarrow> bool" where
  "attrs_equal a b \<longleftrightarrow> attributeBits a = attributeBits b \<and>
     list_all (\<lambda>(t, v). list_all (\<lambda>(t', v'). t = t' \<longrightarrow> v = v') (attr_list b)) (attr_list a)"

definition item_equals :: "item \<Rightarrow> item \<Rightarrow> bool" where
  "item_equals i j \<longleftrightarrow> i_id i = i_id j \<and>
     (case i_attrs i of
        None \<Rightarrow> i_attrs j = None
      | Some a \<Rightarrow> (case i_attrs j of None \<Rightarrow> False | Some b \<Rightarrow> attrs_equal a b))"

definition getBaseWeight :: "item_table \<Rightarrow> item \<Rightarrow> u32" where
  "getBaseWeight its i =
     (if item_has i ITEM_ATTRIBUTE_WEIGHT then item_int i ITEM_ATTRIBUTE_WEIGHT else it_weight (its (i_id i)))"

definition item_getWeight :: "item_table \<Rightarrow> item \<Rightarrow> u32" where
  "item_getWeight its i =
     (let weight = getBaseWeight its i
      in if it_stackable (its (i_id i)) then weight * max 1 (ucast (i_count i)) else weight)"

definition setActionId :: "16 word \<Rightarrow> item \<Rightarrow> item" where
  "setActionId n = item_setInt ITEM_ATTRIBUTE_ACTIONID (ucast (if n < 100 then 100 else n))"

definition setUniqueId :: "(16 word \<Rightarrow> bool) \<Rightarrow> 16 word \<Rightarrow> item \<Rightarrow> item" where
  "setUniqueId addUniqueItem n i =
     (if item_has i ITEM_ATTRIBUTE_UNIQUEID then i
      else if addUniqueItem n then item_setInt ITEM_ATTRIBUTE_UNIQUEID (ucast n) i else i)"

definition getCharges :: "item \<Rightarrow> 16 word" where
  "getCharges i = ucast (item_int i ITEM_ATTRIBUTE_CHARGES)"

definition getActionId :: "item \<Rightarrow> 16 word" where
  "getActionId i = ucast (item_int i ITEM_ATTRIBUTE_ACTIONID)"

definition getFluidType :: "item \<Rightarrow> 16 word" where
  "getFluidType i = ucast (item_int i ITEM_ATTRIBUTE_FLUIDTYPE)"

definition getSubType :: "item_table \<Rightarrow> item \<Rightarrow> 16 word" where
  "getSubType its i =
     (let it = its (i_id i)
      in if it_fluid it then getFluidType i
         else if it_stackable it then ucast (i_count i)
         else if it_charges it \<noteq> 0 then getCharges i
         else ucast (i_count i))"

definition setSubType :: "item_table \<Rightarrow> 16 word \<Rightarrow> item \<Rightarrow> item" where
  "setSubType its n i =
     (let it = its (i_id i)
      in if it_fluid it then item_setInt ITEM_ATTRIBUTE_FLUIDTYPE (ucast n) i
         else if it_stackable it then i\<lparr>i_count := ucast n\<rparr>
         else if it_charges it \<noteq> 0 then item_setInt ITEM_ATTRIBUTE_CHARGES (ucast n) i
         else i\<lparr>i_count := ucast n\<rparr>)"


subsection \<open>The store of an item\<close>

definition attrs_of :: "item \<Rightarrow> ItemAttributes" where
  "attrs_of i = (case i_attrs i of None \<Rightarrow> new_ItemAttributes | Some a \<Rightarrow> a)"

definition item_look :: "item \<Rightarrow> itemAttrTypes \<Rightarrow> attr_value option" where
  "item_look i = getExistingAttr (attrs_of i)"

definition item_put :: "itemAttrTypes \<Rightarrow> attr_value \<Rightarrow> item \<Rightarrow> item" where
  "item_put t v = getAttributes (put_attr t v)"

definition item_ok :: "item \<Rightarrow> bool" where
  "item_ok i = attrs_ok (attrs_of i)"

lemma attrs_of_put [simp]: "attrs_of (item_put t v i) = put_attr t v (attrs_of i)"
  by (simp add: item_put_def getAttributes_def attrs_of_def)

interpretation items: keyed_store item_look item_put item_ok "\<lambda>t v. value_fits (t, v)"
  by unfold_locales (simp_all add: item_ok_def item_look_def attrs.put_ok attrs.look_put)

lemma item_put_same [simp]: "i_id (item_put t v i) = i_id i" "i_count (item_put t v i) = i_count i"
  by (simp_all add: item_put_def getAttributes_def)

lemma item_look_fits: "item_ok i \<Longrightarrow> item_look i t = Some v \<Longrightarrow> value_fits (t, v)"
  by (auto simp: item_ok_def item_look_def getExistingAttr_ok attrs_ok_def list_all_iff dest: map_of_SomeD)

lemma item_has_look: "item_ok i \<Longrightarrow> item_has i t \<longleftrightarrow> item_look i t \<noteq> None"
  by (cases "i_attrs i")
     (auto simp: item_has_def item_look_def attrs_of_def item_ok_def getExistingAttr_def attrs_ok_def new_ItemAttributes_def
       hasAttribute_def map_of_eq_None_iff)

lemma item_int_look:
  "isIntAttrType t \<Longrightarrow> item_int i t = (case item_look i t of Some (AInt v) \<Rightarrow> ucast v | _ \<Rightarrow> 0)"
  by (cases "i_attrs i")
     (auto simp: item_int_def item_look_def attrs_of_def getIntAttr_def getExistingAttr_def new_ItemAttributes_def
       hasAttribute_def split: option.splits attr_value.splits)

lemma item_str_look:
  "isStrAttrType t \<Longrightarrow> item_str i t = (case item_look i t of Some (AStr s) \<Rightarrow> s | _ \<Rightarrow> [])"
  by (cases "i_attrs i")
     (auto simp: item_str_def item_look_def attrs_of_def getStrAttr_def getExistingAttr_def new_ItemAttributes_def
       hasAttribute_def split: option.splits attr_value.splits)

lemma item_setInt_put: "isIntAttrType t \<Longrightarrow> item_setInt t v = item_put t (AInt (scast v))"
  by (simp add: item_setInt_def item_put_def put_attr_def setIntAttr_def fun_eq_iff getAttributes_def)

lemma item_setStr_put: "isStrAttrType t \<Longrightarrow> v \<noteq> [] \<Longrightarrow> item_setStr t v = item_put t (AStr v)"
  by (simp add: item_setStr_def item_put_def put_attr_def setStrAttr_def fun_eq_iff getAttributes_def)

subsection \<open>Operation sequences\<close>

datatype attr_op =
    SetStr itemAttrTypes "byte list"
  | SetInt itemAttrTypes "64 word"
  | IncreaseInt itemAttrTypes "64 word"
  | Remove itemAttrTypes

fun run_op :: "attr_op \<Rightarrow> ItemAttributes \<Rightarrow> ItemAttributes" where
  "run_op (SetStr t s) = setStrAttr t s"
| "run_op (SetInt t v) = setIntAttr t v"
| "run_op (IncreaseInt t v) = increaseIntAttr t v"
| "run_op (Remove t) = removeAttribute t"

lemma run_op_ok: "attrs_ok a \<Longrightarrow> attrs_ok (run_op o1 a)"
  by (cases o1) (simp_all add: setStrAttr_ok setIntAttr_ok increaseIntAttr_ok removeAttribute_ok)

lemma run_ops_ok: "attrs_ok a \<Longrightarrow> attrs_ok (fold run_op ops a)"
  by (induction ops arbitrary: a) (simp_all add: run_op_ok)

lemma reads_ok: "attrs_ok a \<Longrightarrow> getStrAttr a t \<noteq> None \<and> getIntAttr a t \<noteq> None"
proof -
  assume a: "attrs_ok a"
  have "value_fits (t, v)" if "getExistingAttr a t = Some v" for v
    using a that by (auto simp: getExistingAttr_ok attrs_ok_def list_all_iff dest: map_of_SomeD)
  then show ?thesis
    by (auto simp: getStrAttr_def getIntAttr_def value_fits_def int_xor_str split: option.splits attr_value.splits)
qed

text \<open>C17: Whatever sequence of attribute operations an item has gone through, its bit field and its list agree and
  every union is read with the tag it was written with: no getter ever dereferences an integer or a null string.\<close>

theorem attribute_unions_well_typed:
  "getStrAttr (fold run_op ops new_ItemAttributes) t \<noteq> None \<and> getIntAttr (fold run_op ops new_ItemAttributes) t \<noteq> None \<and>
   (hasAttribute (fold run_op ops new_ItemAttributes) t \<longleftrightarrow> t \<in> fst ` set (attr_list (fold run_op ops new_ItemAttributes))) \<and>
   distinct (map fst (attr_list (fold run_op ops new_ItemAttributes)))"
  using run_ops_ok [OF new_ItemAttributes_ok, of ops] reads_ok [of "fold run_op ops new_ItemAttributes" t]
  by (simp add: attrs_ok_def)

end
