(* ===== verification/Item_Serialization.thy ===== *)
theory Item_Serialization
  imports Item_Attributes Prop_Stream
begin

section \<open>Saving and loading items\<close>

text \<open>
  \<open>serializeAttr\<close>, \<open>readAttr\<close> and \<open>unserializeAttr\<close> of \<open>item.cpp\<close>: the attributes of an item as tagged fields of a
  property stream, written in a fixed order and read back until the stream ends. The registry of unique ids
  (\<open>Game::addUniqueItem\<close>) is the parameter of \<open>readAttr\<close>. Shown: what loading gives back of an item that was saved;
  a running decay comes back as pending, and charges of a type that has none do not survive.
\<close>

subsection \<open>Saving\<close>





subsection \<open>Loading\<close>

datatype Attr_ReadValue = ATTR_READ_CONTINUE | ATTR_READ_ERROR | ATTR_READ_END

definition read_num :: "nat \<Rightarrow> (nat \<Rightarrow> item \<Rightarrow> item) \<Rightarrow> item \<Rightarrow> PropStream \<Rightarrow> Attr_ReadValue \<times> item \<times> PropStream" where
  "read_num k f i s =
     (case ps_read k s of None \<Rightarrow> (ATTR_READ_ERROR, i, s) | Some (v, s') \<Rightarrow> (ATTR_READ_CONTINUE, f v i, s'))"

definition read_str :: "(byte list \<Rightarrow> item \<Rightarrow> item) \<Rightarrow> item \<Rightarrow> PropStream \<Rightarrow> Attr_ReadValue \<times> item \<times> PropStream" where
  "read_str f i s =
     (case ps_readString s of None \<Rightarrow> (ATTR_READ_ERROR, i, s) | Some (v, s') \<Rightarrow> (ATTR_READ_CONTINUE, f v i, s'))"

definition read_skip :: "nat \<Rightarrow> item \<Rightarrow> PropStream \<Rightarrow> Attr_ReadValue \<times> item \<times> PropStream" where
  "read_skip n i s =
     (case ps_skip n s of None \<Rightarrow> (ATTR_READ_ERROR, i, s) | Some s' \<Rightarrow> (ATTR_READ_CONTINUE, i, s'))"

definition smax0 :: "u32 \<Rightarrow> u32" where
  "smax0 w = (if sint w < 0 then 0 else w)"

text \<open>The \<open>switch\<close> of \<open>readAttr\<close>, in three parts: texts, counts and dates; names and combat values; fields that belong to derived classes.\<close>

definition readAttr_skips :: "nat \<Rightarrow> item \<Rightarrow> PropStream \<Rightarrow> Attr_ReadValue \<times> item \<times> PropStream" where
  "readAttr_skips attr i s =
     (if attr = 10 then read_skip 2 i s
      else if attr = 14 then read_skip 1 i s
      else if attr = 20 then read_skip 4 i s
      else if attr = 21 then read_skip 4 i s
      else if attr = 8 then read_skip 5 i s
      else (ATTR_READ_ERROR, i, s))"

definition readAttr_values :: "nat \<Rightarrow> item \<Rightarrow> PropStream \<Rightarrow> Attr_ReadValue \<times> item \<times> PropStream" where
  "readAttr_values attr i s =
     (if attr = 24 then read_str (item_setStr ITEM_ATTRIBUTE_NAME) i s
      else if attr = 25 then read_str (item_setStr ITEM_ATTRIBUTE_ARTICLE) i s
      else if attr = 26 then read_str (item_setStr ITEM_ATTRIBUTE_PLURALNAME) i s
      else if attr = 27 then read_num 4 (\<lambda>v. item_setInt ITEM_ATTRIBUTE_WEIGHT (of_nat v)) i s
      else if attr = 28 then read_num 4 (\<lambda>v. item_setInt ITEM_ATTRIBUTE_ATTACK (of_nat v)) i s
      else if attr = 29 then read_num 4 (\<lambda>v. item_setInt ITEM_ATTRIBUTE_DEFENSE (of_nat v)) i s
      else if attr = 30 then read_num 4 (\<lambda>v. item_setInt ITEM_ATTRIBUTE_EXTRADEFENSE (of_nat v)) i s
      else if attr = 31 then read_num 4 (\<lambda>v. item_setInt ITEM_ATTRIBUTE_ARMOR (of_nat v)) i s
      else if attr = 32 then read_num 1 (\<lambda>v. item_setInt ITEM_ATTRIBUTE_HITCHANCE (scast (of_nat v :: byte))) i s
      else if attr = 33 then read_num 1 (\<lambda>v. item_setInt ITEM_ATTRIBUTE_SHOOTRANGE (of_nat v)) i s
      else readAttr_skips attr i s)"

definition readAttr :: "(16 word \<Rightarrow> bool) \<Rightarrow> item_table \<Rightarrow> nat \<Rightarrow> item \<Rightarrow> PropStream \<Rightarrow> Attr_ReadValue \<times> item \<times> PropStream" where
  "readAttr addUniqueItem its attr i s =
     (if attr = 15 \<or> attr = 12 then read_num 1 (\<lambda>v. setSubType its (of_nat v)) i s
      else if attr = 4 then read_num 2 (\<lambda>v. setActionId (of_nat v)) i s
      else if attr = 5 then read_num 2 (\<lambda>v. setUniqueId addUniqueItem (of_nat v)) i s
      else if attr = 6 then read_str (item_setStr ITEM_ATTRIBUTE_TEXT) i s
      else if attr = 18 then read_num 4 (\<lambda>v. item_setInt ITEM_ATTRIBUTE_DATE (of_nat v)) i s
      else if attr = 19 then read_str (item_setStr ITEM_ATTRIBUTE_WRITER) i s
      else if attr = 7 then read_str (item_setStr ITEM_ATTRIBUTE_DESCRIPTION) i s
      else if attr = 22 then read_num 2 (\<lambda>v. setSubType its (of_nat v)) i s
      else if attr = 16 then read_num 4 (\<lambda>v. item_setInt ITEM_ATTRIBUTE_DURATION (smax0 (of_nat v))) i s
      else if attr = 17 then read_num 1 (\<lambda>v. if v \<noteq> 0 then item_setInt ITEM_ATTRIBUTE_DECAYSTATE 2 else id) i s
      else readAttr_values attr i s)"

lemma ps_readString_suffix: "ps_readString s = Some (v, r) \<Longrightarrow> length r \<le> length s"
proof -
  assume a: "ps_readString s = Some (v, r)"
  then obtain n s1 where "ps_read 2 s = Some (n, s1)" "r = drop n s1"
    by (auto simp: ps_readString_def split: option.splits if_splits)
  then show ?thesis
    using ps_read_suffix [of 2 s n s1] by auto
qed

lemma read_shrinks:
  "length (snd (snd (read_num k f i s))) \<le> length s"
  "length (snd (snd (read_str g i s))) \<le> length s"
  "length (snd (snd (read_skip n i s))) \<le> length s"
  by (auto simp: read_num_def read_str_def read_skip_def ps_skip_def
      dest: ps_read_suffix ps_readString_suffix split: option.split)

lemma readAttr_shrinks: "length (snd (snd (readAttr u its attr i s))) \<le> length s"
  by (simp add: readAttr_def readAttr_values_def readAttr_skips_def read_shrinks)

function unserializeAttr :: "(16 word \<Rightarrow> bool) \<Rightarrow> item_table \<Rightarrow> item \<Rightarrow> PropStream \<Rightarrow> bool \<times> item" where
  "unserializeAttr u its i s =
     (case ps_read 1 s of
        None \<Rightarrow> (True, i)
      | Some (attr_type, s) \<Rightarrow>
          (if attr_type = 0 then (True, i)
           else let r = readAttr u its attr_type i s
                in if fst r = ATTR_READ_ERROR then (False, fst (snd r))
                   else if fst r = ATTR_READ_END then (True, fst (snd r))
                   else unserializeAttr u its (fst (snd r)) (snd (snd r))))"
  by pat_completeness auto
termination
proof (relation "measure (\<lambda>(u, its, i, s). length s)", goal_cases)
  case (2 u its i s x a r b)
  then show ?case
    using readAttr_shrinks [of u its a i r] ps_read_suffix [of 1 s a r] by (auto simp: case_prod_beta)
qed simp

declare unserializeAttr.simps [simp del]


subsection \<open>Loading what was saved\<close>

definition num_bytes :: "bool \<Rightarrow> nat \<Rightarrow> nat \<Rightarrow> nat \<Rightarrow> byte list" where
  "num_bytes c code k v = (if c then le_bytes 1 code @ le_bytes k v else [])"

definition str_bytes :: "bool \<Rightarrow> nat \<Rightarrow> byte list \<Rightarrow> byte list" where
  "str_bytes c code s = (if c then le_bytes 1 code @ le_bytes 2 (length s) @ s else [])"





definition upon :: "bool \<Rightarrow> ('a \<Rightarrow> 'a) \<Rightarrow> 'a \<Rightarrow> 'a" where
  "upon c f x = (if c then f x else x)"

lemma load_num:
  assumes "\<And>i s. readAttr u its code i s = read_num k f i s" and "0 < code" and "code < 256"
  shows "unserializeAttr u its i (num_bytes c code k v @ r) = unserializeAttr u its (upon c (f (v mod 256 ^ k)) i) r"
proof (cases c)
  case True
  have "ps_read 1 (le_bytes 1 code @ le_bytes k v @ r) = Some (code, le_bytes k v @ r)"
    using ps_read_bytes [of 1 code] assms(3) by simp
  then show ?thesis
    using True assms by (subst unserializeAttr.simps) (simp add: num_bytes_def read_num_def ps_read_bytes Let_def upon_def)
qed (simp add: num_bytes_def upon_def)

lemma load_str:
  assumes "\<And>i s. readAttr u its code i s = read_str f i s" and "0 < code" and "code < 256"
    and "c \<Longrightarrow> length s \<le> 65535"
  shows "unserializeAttr u its i (str_bytes c code s @ r) = unserializeAttr u its (upon c (f s) i) r"
proof (cases c)
  case True
  have "ps_read 1 (le_bytes 1 code @ le_bytes 2 (length s) @ s @ r) = Some (code, le_bytes 2 (length s) @ s @ r)"
    using ps_read_bytes [of 1 code] assms(3) by simp
  then show ?thesis
    using True assms by (subst unserializeAttr.simps) (simp add: str_bytes_def read_str_def ps_readString_bytes Let_def upon_def)
qed (simp add: str_bytes_def upon_def)

text \<open>The bytes of an item, piece by piece.\<close>

definition item_pieces :: "item_table \<Rightarrow> item \<Rightarrow> byte list list" where
  "item_pieces its i =
     (let it = its (i_id i);
          has = item_has i;
          num = (\<lambda>t. unat (item_int i t));
          str = item_str i;
          decayState = (ucast (item_int i ITEM_ATTRIBUTE_DECAYSTATE) :: byte)
      in
       [num_bytes (it_stackable it \<or> it_fluid it) 15 1 (unat (getSubType its i)),
        num_bytes (getCharges i \<noteq> 0) 22 2 (unat (getCharges i)),
        num_bytes (it_moveable it \<and> getActionId i \<noteq> 0) 4 2 (unat (getActionId i)),
        str_bytes (str ITEM_ATTRIBUTE_TEXT \<noteq> []) 6 (str ITEM_ATTRIBUTE_TEXT),
        num_bytes (item_int i ITEM_ATTRIBUTE_DATE \<noteq> 0) 18 4 (num ITEM_ATTRIBUTE_DATE),
        str_bytes (str ITEM_ATTRIBUTE_WRITER \<noteq> []) 19 (str ITEM_ATTRIBUTE_WRITER),
        str_bytes (str ITEM_ATTRIBUTE_DESCRIPTION \<noteq> []) 7 (str ITEM_ATTRIBUTE_DESCRIPTION),
        num_bytes (has ITEM_ATTRIBUTE_DURATION) 16 4 (num ITEM_ATTRIBUTE_DURATION),
        num_bytes (decayState = 1 \<or> decayState = 2) 17 1 (unat decayState),
        str_bytes (has ITEM_ATTRIBUTE_NAME) 24 (str ITEM_ATTRIBUTE_NAME),
        str_bytes (has ITEM_ATTRIBUTE_ARTICLE) 25 (str ITEM_ATTRIBUTE_ARTICLE),
        str_bytes (has ITEM_ATTRIBUTE_PLURALNAME) 26 (str ITEM_ATTRIBUTE_PLURALNAME),
        num_bytes (has ITEM_ATTRIBUTE_WEIGHT) 27 4 (num ITEM_ATTRIBUTE_WEIGHT),
        num_bytes (has ITEM_ATTRIBUTE_ATTACK) 28 4 (num ITEM_ATTRIBUTE_ATTACK),
        num_bytes (has ITEM_ATTRIBUTE_DEFENSE) 29 4 (num ITEM_ATTRIBUTE_DEFENSE),
        num_bytes (has ITEM_ATTRIBUTE_EXTRADEFENSE) 30 4 (num ITEM_ATTRIBUTE_EXTRADEFENSE),
        num_bytes (has ITEM_ATTRIBUTE_ARMOR) 31 4 (num ITEM_ATTRIBUTE_ARMOR),
        num_bytes (has ITEM_ATTRIBUTE_HITCHANCE) 32 1 (num ITEM_ATTRIBUTE_HITCHANCE),
        num_bytes (has ITEM_ATTRIBUTE_SHOOTRANGE) 33 1 (num ITEM_ATTRIBUTE_SHOOTRANGE)])"

definition strings_fit :: "item \<Rightarrow> bool" where
  "strings_fit i \<longleftrightarrow> (\<forall>t. length (item_str i t) \<le> 65535)"


definition reloaded :: "item_table \<Rightarrow> item \<Rightarrow> item \<Rightarrow> item" where
  "reloaded its i =
     (let it = its (i_id i);
          has = item_has i;
          num = item_int i;
          str = item_str i;
          decayState = (ucast (item_int i ITEM_ATTRIBUTE_DECAYSTATE) :: byte)
      in fold (\<lambda>f. f)
       [upon (it_stackable it \<or> it_fluid it) (setSubType its (of_nat (unat (getSubType its i) mod 256))),
        upon (getCharges i \<noteq> 0) (setSubType its (getCharges i)),
        upon (it_moveable it \<and> getActionId i \<noteq> 0) (setActionId (getActionId i)),
        upon (str ITEM_ATTRIBUTE_TEXT \<noteq> []) (item_setStr ITEM_ATTRIBUTE_TEXT (str ITEM_ATTRIBUTE_TEXT)),
        upon (num ITEM_ATTRIBUTE_DATE \<noteq> 0) (item_setInt ITEM_ATTRIBUTE_DATE (num ITEM_ATTRIBUTE_DATE)),
        upon (str ITEM_ATTRIBUTE_WRITER \<noteq> []) (item_setStr ITEM_ATTRIBUTE_WRITER (str ITEM_ATTRIBUTE_WRITER)),
        upon (str ITEM_ATTRIBUTE_DESCRIPTION \<noteq> []) (item_setStr ITEM_ATTRIBUTE_DESCRIPTION (str ITEM_ATTRIBUTE_DESCRIPTION)),
        upon (has ITEM_ATTRIBUTE_DURATION) (item_setInt ITEM_ATTRIBUTE_DURATION (smax0 (num ITEM_ATTRIBUTE_DURATION))),
        upon (decayState = 1 \<or> decayState = 2) (item_setInt ITEM_ATTRIBUTE_DECAYSTATE 2),
        upon (has ITEM_ATTRIBUTE_NAME) (item_setStr ITEM_ATTRIBUTE_NAME (str ITEM_ATTRIBUTE_NAME)),
        upon (has ITEM_ATTRIBUTE_ARTICLE) (item_setStr ITEM_ATTRIBUTE_ARTICLE (str ITEM_ATTRIBUTE_ARTICLE)),
        upon (has ITEM_ATTRIBUTE_PLURALNAME) (item_setStr ITEM_ATTRIBUTE_PLURALNAME (str ITEM_ATTRIBUTE_PLURALNAME)),
        upon (has ITEM_ATTRIBUTE_WEIGHT) (item_setInt ITEM_ATTRIBUTE_WEIGHT (num ITEM_ATTRIBUTE_WEIGHT)),
        upon (has ITEM_ATTRIBUTE_ATTACK) (item_setInt ITEM_ATTRIBUTE_ATTACK (num ITEM_ATTRIBUTE_ATTACK)),
        upon (has ITEM_ATTRIBUTE_DEFENSE) (item_setInt ITEM_ATTRIBUTE_DEFENSE (num ITEM_ATTRIBUTE_DEFENSE)),
        upon (has ITEM_ATTRIBUTE_EXTRADEFENSE) (item_setInt ITEM_ATTRIBUTE_EXTRADEFENSE (num ITEM_ATTRIBUTE_EXTRADEFENSE)),
        upon (has ITEM_ATTRIBUTE_ARMOR) (item_setInt ITEM_ATTRIBUTE_ARMOR (num ITEM_ATTRIBUTE_ARMOR)),
        upon (has ITEM_ATTRIBUTE_HITCHANCE) (item_setInt ITEM_ATTRIBUTE_HITCHANCE (scast (ucast (num ITEM_ATTRIBUTE_HITCHANCE) :: byte))),
        upon (has ITEM_ATTRIBUTE_SHOOTRANGE) (item_setInt ITEM_ATTRIBUTE_SHOOTRANGE (of_nat (unat (num ITEM_ATTRIBUTE_SHOOTRANGE) mod 256)))])"

lemma readAttr_codes:
  "readAttr u its 15 i s = read_num 1 (\<lambda>v. setSubType its (of_nat v)) i s"
  "readAttr u its 22 i s = read_num 2 (\<lambda>v. setSubType its (of_nat v)) i s"
  "readAttr u its 4 i s = read_num 2 (\<lambda>v. setActionId (of_nat v)) i s"
  "readAttr u its 6 i s = read_str (item_setStr ITEM_ATTRIBUTE_TEXT) i s"
  "readAttr u its 18 i s = read_num 4 (\<lambda>v. item_setInt ITEM_ATTRIBUTE_DATE (of_nat v)) i s"
  "readAttr u its 19 i s = read_str (item_setStr ITEM_ATTRIBUTE_WRITER) i s"
  "readAttr u its 7 i s = read_str (item_setStr ITEM_ATTRIBUTE_DESCRIPTION) i s"
  "readAttr u its 16 i s = read_num 4 (\<lambda>v. item_setInt ITEM_ATTRIBUTE_DURATION (smax0 (of_nat v))) i s"
  "readAttr u its 17 i s = read_num 1 (\<lambda>v. if v \<noteq> 0 then item_setInt ITEM_ATTRIBUTE_DECAYSTATE 2 else id) i s"
  "readAttr u its 24 i s = read_str (item_setStr ITEM_ATTRIBUTE_NAME) i s"
  "readAttr u its 25 i s = read_str (item_setStr ITEM_ATTRIBUTE_ARTICLE) i s"
  "readAttr u its 26 i s = read_str (item_setStr ITEM_ATTRIBUTE_PLURALNAME) i s"
  "readAttr u its 27 i s = read_num 4 (\<lambda>v. item_setInt ITEM_ATTRIBUTE_WEIGHT (of_nat v)) i s"
  "readAttr u its 28 i s = read_num 4 (\<lambda>v. item_setInt ITEM_ATTRIBUTE_ATTACK (of_nat v)) i s"
  "readAttr u its 29 i s = read_num 4 (\<lambda>v. item_setInt ITEM_ATTRIBUTE_DEFENSE (of_nat v)) i s"
  "readAttr u its 30 i s = read_num 4 (\<lambda>v. item_setInt ITEM_ATTRIBUTE_EXTRADEFENSE (of_nat v)) i s"
  "readAttr u its 31 i s = read_num 4 (\<lambda>v. item_setInt ITEM_ATTRIBUTE_ARMOR (of_nat v)) i s"
  "readAttr u its 32 i s = read_num 1 (\<lambda>v. item_setInt ITEM_ATTRIBUTE_HITCHANCE (scast (of_nat v :: byte))) i s"
  "readAttr u its 33 i s = read_num 1 (\<lambda>v. item_setInt ITEM_ATTRIBUTE_SHOOTRANGE (of_nat v)) i s"
  by (simp_all add: readAttr_def readAttr_values_def)

lemma of_unat_mod:
  "of_nat (unat (a :: 16 word) mod 65536) = a" "of_nat (unat (b :: u32) mod 4294967296) = b"
  "of_nat (unat (b :: u32) mod 256) = (ucast b :: byte)"
proof -
  show "of_nat (unat a mod 65536) = a"
    using unsigned_less [of a, where ?'a = nat] by simp
  show "of_nat (unat b mod 4294967296) = b"
    using unsigned_less [of b, where ?'a = nat] by simp
  show "of_nat (unat b mod 256) = (ucast b :: byte)"
    by (simp add: word_unat_eq_iff unat_of_nat unsigned_ucast_eq unsigned_take_bit_eq take_bit_eq_mod)
qed

lemma decay_byte: "upon (d = 1 \<or> d = 2) (if unat (d :: byte) mod 256 \<noteq> 0 then f else id) = upon (d = 1 \<or> d = 2) f"
  by (auto simp: upon_def fun_eq_iff)

lemma unserialize_pieces:
  assumes "strings_fit i"
  shows "unserializeAttr u its j (concat (item_pieces its i)) = (True, reloaded its i j)"
proof -
  have len: "length (item_str i t) \<le> 65535" for t
    using assms by (simp add: strings_fit_def)
  have last: "unserializeAttr u its j [] = (True, j)" for j
    by (subst unserializeAttr.simps) (simp add: ps_read_def)
  show ?thesis
    unfolding item_pieces_def reloaded_def Let_def concat.simps
    by (simp add: load_num [OF readAttr_codes(1)] load_num [OF readAttr_codes(2)] load_num [OF readAttr_codes(3)]
        load_str [OF readAttr_codes(4)] load_num [OF readAttr_codes(5)] load_str [OF readAttr_codes(6)]
        load_str [OF readAttr_codes(7)] load_num [OF readAttr_codes(8)] load_num [OF readAttr_codes(9)]
        load_str [OF readAttr_codes(10)] load_str [OF readAttr_codes(11)] load_str [OF readAttr_codes(12)]
        load_num [OF readAttr_codes(13)] load_num [OF readAttr_codes(14)] load_num [OF readAttr_codes(15)]
        load_num [OF readAttr_codes(16)] load_num [OF readAttr_codes(17)] load_num [OF readAttr_codes(18)]
        load_num [OF readAttr_codes(19)] len last of_unat_mod decay_byte [simplified] del: One_nat_def append_Nil2)
qed

subsection \<open>What survives a save\<close>


lemma upon_simps [simp]:
  "i_id (upon c (item_setInt t v) j) = i_id j" "i_count (upon c (item_setInt t v) j) = i_count j"
  "i_id (upon c (item_setStr t s) j) = i_id j" "i_count (upon c (item_setStr t s) j) = i_count j"
  "i_id (upon c (setActionId n) j) = i_id j" "i_count (upon c (setActionId n) j) = i_count j"
  by (simp_all add: upon_def item_setInt_def item_setStr_def setActionId_def getAttributes_def)

lemma int_fits: "isIntAttrType t \<Longrightarrow> value_fits (t, AInt v)"
  by (simp add: value_fits_def int_xor_str)

lemma str_fits: "isStrAttrType t \<Longrightarrow> s \<noteq> [] \<Longrightarrow> value_fits (t, AStr s)"
  by (simp add: value_fits_def int_xor_str)

lemma upon_int:
  assumes "item_ok j" and "isIntAttrType t"
  shows "item_look (upon c (item_setInt t v) j) k = (if c \<and> k = t then Some (AInt (scast v)) else item_look j k)"
    and "item_ok (upon c (item_setInt t v) j)"
  using items.look_put [OF assms(1) int_fits [OF assms(2)]] items.put_ok [OF assms(1) int_fits [OF assms(2)]] assms
  by (auto simp: upon_def item_setInt_put)

lemma upon_str:
  assumes "item_ok j" and "isStrAttrType t" and "c \<Longrightarrow> s \<noteq> []"
  shows "item_look (upon c (item_setStr t s) j) k = (if c \<and> k = t then Some (AStr s) else item_look j k)"
    and "item_ok (upon c (item_setStr t s) j)"
  using assms by (auto simp: upon_def item_setStr_put items.look_put items.put_ok str_fits)

lemma attr_kinds [simp]:
  "isIntAttrType ITEM_ATTRIBUTE_ACTIONID" "isIntAttrType ITEM_ATTRIBUTE_DATE" "isIntAttrType ITEM_ATTRIBUTE_WEIGHT"
  "isIntAttrType ITEM_ATTRIBUTE_ATTACK" "isIntAttrType ITEM_ATTRIBUTE_DEFENSE" "isIntAttrType ITEM_ATTRIBUTE_EXTRADEFENSE"
  "isIntAttrType ITEM_ATTRIBUTE_ARMOR" "isIntAttrType ITEM_ATTRIBUTE_HITCHANCE" "isIntAttrType ITEM_ATTRIBUTE_SHOOTRANGE"
  "isIntAttrType ITEM_ATTRIBUTE_DURATION" "isIntAttrType ITEM_ATTRIBUTE_DECAYSTATE" "isIntAttrType ITEM_ATTRIBUTE_CHARGES"
  "isIntAttrType ITEM_ATTRIBUTE_FLUIDTYPE"
  "isStrAttrType ITEM_ATTRIBUTE_TEXT" "isStrAttrType ITEM_ATTRIBUTE_WRITER" "isStrAttrType ITEM_ATTRIBUTE_DESCRIPTION"
  "isStrAttrType ITEM_ATTRIBUTE_NAME" "isStrAttrType ITEM_ATTRIBUTE_ARTICLE" "isStrAttrType ITEM_ATTRIBUTE_PLURALNAME"
  by (simp_all add: isIntAttrType_def isStrAttrType_def)

lemma upon_sub:
  assumes "item_ok j"
  shows "item_look (upon c (setSubType its n) j) k =
      (if c \<and> it_fluid (its (i_id j)) \<and> k = ITEM_ATTRIBUTE_FLUIDTYPE
          \<or> c \<and> \<not> it_fluid (its (i_id j)) \<and> \<not> it_stackable (its (i_id j)) \<and> it_charges (its (i_id j)) \<noteq> 0 \<and> k = ITEM_ATTRIBUTE_CHARGES
       then Some (AInt (scast (ucast n :: u32))) else item_look j k)"
    and "item_ok (upon c (setSubType its n) j)"
    and "i_id (upon c (setSubType its n) j) = i_id j"
    and "i_count (upon c (setSubType its n) j) =
      (if c \<and> \<not> it_fluid (its (i_id j)) \<and> (it_stackable (its (i_id j)) \<or> it_charges (its (i_id j)) = 0) then ucast n else i_count j)"
  using upon_int [OF assms, of ITEM_ATTRIBUTE_FLUIDTYPE True "ucast n"] upon_int [OF assms, of ITEM_ATTRIBUTE_CHARGES True "ucast n"] assms
    upon_simps(1,2) [of True]
  by (auto simp: upon_def setSubType_def Let_def item_look_def item_ok_def attrs_of_def)

lemma named_nonempty: "item_ok i \<Longrightarrow> isStrAttrType t \<Longrightarrow> item_has i t \<Longrightarrow> item_str i t \<noteq> []"
  using item_look_fits [of i t]
  by (auto simp: item_has_look item_str_look value_fits_def int_xor_str split: attr_value.splits)




definition fresh_item :: "16 word \<Rightarrow> byte \<Rightarrow> item" where
  "fresh_item n c = \<lparr>i_id = n, i_count = c, i_attrs = None\<rparr>"

lemma fresh_look [simp]: "item_look (fresh_item n c) t = None" "item_ok (fresh_item n c)" "i_id (fresh_item n c) = n"
  by (simp_all add: item_look_def attrs_of_def fresh_item_def getExistingAttr_def hasAttribute_def item_ok_def
      new_ItemAttributes_ok) (simp add: new_ItemAttributes_def)

fun saved_value :: "item_table \<Rightarrow> item \<Rightarrow> itemAttrTypes \<Rightarrow> attr_value option" where
  "saved_value its i ITEM_ATTRIBUTE_ACTIONID =
     (if it_moveable (its (i_id i)) \<and> getActionId i \<noteq> 0
      then Some (AInt (scast (ucast (if getActionId i < 100 then 100 else getActionId i) :: u32))) else None)"
| "saved_value its i ITEM_ATTRIBUTE_DATE =
     (if item_int i ITEM_ATTRIBUTE_DATE \<noteq> 0 then Some (AInt (scast (item_int i ITEM_ATTRIBUTE_DATE))) else None)"
| "saved_value its i ITEM_ATTRIBUTE_DURATION =
     (if item_has i ITEM_ATTRIBUTE_DURATION then Some (AInt (scast (smax0 (item_int i ITEM_ATTRIBUTE_DURATION)))) else None)"
| "saved_value its i ITEM_ATTRIBUTE_DECAYSTATE =
     (if (ucast (item_int i ITEM_ATTRIBUTE_DECAYSTATE) :: byte) \<in> {1, 2} then Some (AInt (scast (2 :: u32))) else None)"
| "saved_value its i ITEM_ATTRIBUTE_HITCHANCE =
     (if item_has i ITEM_ATTRIBUTE_HITCHANCE
      then Some (AInt (scast (scast (ucast (item_int i ITEM_ATTRIBUTE_HITCHANCE) :: byte) :: u32))) else None)"
| "saved_value its i ITEM_ATTRIBUTE_SHOOTRANGE =
     (if item_has i ITEM_ATTRIBUTE_SHOOTRANGE
      then Some (AInt (scast (of_nat (unat (item_int i ITEM_ATTRIBUTE_SHOOTRANGE) mod 256) :: u32))) else None)"
| "saved_value its i t =
     (if isIntAttrType t then (if item_has i t then Some (AInt (scast (item_int i t))) else None)
      else if item_str i t \<noteq> [] then Some (AStr (item_str i t)) else None)"

definition saved_types :: "itemAttrTypes list" where
  "saved_types =
     [ITEM_ATTRIBUTE_ACTIONID, ITEM_ATTRIBUTE_TEXT, ITEM_ATTRIBUTE_DATE, ITEM_ATTRIBUTE_WRITER, ITEM_ATTRIBUTE_DESCRIPTION,
      ITEM_ATTRIBUTE_DURATION, ITEM_ATTRIBUTE_DECAYSTATE, ITEM_ATTRIBUTE_NAME, ITEM_ATTRIBUTE_ARTICLE, ITEM_ATTRIBUTE_PLURALNAME,
      ITEM_ATTRIBUTE_WEIGHT, ITEM_ATTRIBUTE_ATTACK, ITEM_ATTRIBUTE_DEFENSE, ITEM_ATTRIBUTE_EXTRADEFENSE, ITEM_ATTRIBUTE_ARMOR,
      ITEM_ATTRIBUTE_HITCHANCE, ITEM_ATTRIBUTE_SHOOTRANGE]"

lemma saved_value_fits: "saved_value its i t = Some v \<Longrightarrow> value_fits (t, v)"
  by (cases t) (auto simp: value_fits_def isIntAttrType_def isStrAttrType_def split: if_splits)

lemma upon_case_int:
  "isIntAttrType t \<Longrightarrow> (case (if c then Some (AInt (scast v)) else None) of None \<Rightarrow> j | Some w \<Rightarrow> item_put t w j) = upon c (item_setInt t v) j"
  by (simp add: upon_def item_setInt_put)

lemma upon_case_str:
  "isStrAttrType t \<Longrightarrow> (case (if s \<noteq> [] then Some (AStr s) else None) of None \<Rightarrow> j | Some w \<Rightarrow> item_put t w j) = upon (s \<noteq> []) (item_setStr t s) j"
  by (simp add: upon_def item_setStr_put)

lemma named_has: "item_ok i \<Longrightarrow> isStrAttrType t \<Longrightarrow> item_has i t \<longleftrightarrow> item_str i t \<noteq> []"
  using named_nonempty [of i t] by (auto simp: item_has_look item_str_look split: option.splits)

lemma reloaded_fill:
  assumes "item_ok i"
  shows "reloaded its i j = items.fill (saved_value its i) saved_types
     (upon (getCharges i \<noteq> 0) (setSubType its (getCharges i))
       (upon (it_stackable (its (i_id i)) \<or> it_fluid (its (i_id i))) (setSubType its (of_nat (unat (getSubType its i) mod 256))) j))"
proof -
  note names = named_has [OF assms attr_kinds(17)] named_has [OF assms attr_kinds(18)] named_has [OF assms attr_kinds(19)]
  have nk: "\<not> isIntAttrType ITEM_ATTRIBUTE_TEXT" "\<not> isIntAttrType ITEM_ATTRIBUTE_WRITER"
      "\<not> isIntAttrType ITEM_ATTRIBUTE_DESCRIPTION" "\<not> isIntAttrType ITEM_ATTRIBUTE_NAME"
      "\<not> isIntAttrType ITEM_ATTRIBUTE_ARTICLE" "\<not> isIntAttrType ITEM_ATTRIBUTE_PLURALNAME"
    by (simp_all add: int_xor_str)
  show ?thesis
    unfolding reloaded_def items.fill_def saved_types_def Let_def names setActionId_def
    by (simp only: fold_simps saved_value.simps attr_kinds nk if_True if_False upon_case_int upon_case_str insert_iff empty_iff
        simp_thms id_apply)
qed

lemma reloaded_look:
  assumes "item_ok i"
  shows "item_ok (reloaded its i (fresh_item (i_id i) c))"
    and "t \<in> set saved_types \<Longrightarrow> item_look (reloaded its i (fresh_item (i_id i) c)) t = saved_value its i t"
    and "t \<notin> set saved_types \<Longrightarrow> item_look (reloaded its i (fresh_item (i_id i) c)) t =
      item_look (upon (getCharges i \<noteq> 0) (setSubType its (getCharges i))
       (upon (it_stackable (its (i_id i)) \<or> it_fluid (its (i_id i))) (setSubType its (of_nat (unat (getSubType its i) mod 256)))
         (fresh_item (i_id i) c))) t"
proof -
  define j where "j = upon (getCharges i \<noteq> 0) (setSubType its (getCharges i))
       (upon (it_stackable (its (i_id i)) \<or> it_fluid (its (i_id i))) (setSubType its (of_nat (unat (getSubType its i) mod 256)))
         (fresh_item (i_id i) c))"
  have ok: "item_ok j"
    by (simp add: j_def upon_sub)
  have none: "item_look j t = None" if "t \<noteq> ITEM_ATTRIBUTE_FLUIDTYPE" "t \<noteq> ITEM_ATTRIBUTE_CHARGES" for t
    using that by (simp add: j_def upon_sub)
  have fl: "item_ok (items.fill (saved_value its i) saved_types j) \<and> item_look (items.fill (saved_value its i) saved_types j) t =
      (if t \<in> set saved_types \<and> saved_value its i t \<noteq> None then saved_value its i t else item_look j t)" for t
    by (rule items.fill_look [OF ok]) (rule saved_value_fits)
  have r: "reloaded its i (fresh_item (i_id i) c) = items.fill (saved_value its i) saved_types j"
    by (simp add: reloaded_fill [OF assms] j_def)
  show "item_ok (reloaded its i (fresh_item (i_id i) c))"
    using fl unfolding r by blast
  show "item_look (reloaded its i (fresh_item (i_id i) c)) t = saved_value its i t" if "t \<in> set saved_types"
    unfolding r using fl [of t] none [of t] that by (auto simp: saved_types_def)
  show "item_look (reloaded its i (fresh_item (i_id i) c)) t = item_look (upon (getCharges i \<noteq> 0) (setSubType its (getCharges i))
       (upon (it_stackable (its (i_id i)) \<or> it_fluid (its (i_id i))) (setSubType its (of_nat (unat (getSubType its i) mod 256)))
         (fresh_item (i_id i) c))) t" if "t \<notin> set saved_types"
    unfolding r using fl [of t] that by (simp add: j_def)
qed

lemma fill_count:
  "i_id (items.fill m ts j) = i_id j" "i_count (items.fill m ts j) = i_count j"
  by (induction ts arbitrary: j) (auto simp: items.fill_def split: option.split)

lemma narrow_small: "unat (w :: u32) < 256 \<Longrightarrow> (of_nat (unat w mod 256) :: u32) = w"
  by simp




lemma ucast_16_32 [simp]: "(ucast (ucast (n :: 16 word) :: u32) :: 16 word) = n"
  by (simp add: ucast_up_ucast_id is_up_def source_size target_size word_size)












text \<open>Charges given to an item whose type has no charges are saved but not loaded: the reader hands them to \<open>setSubType\<close>, which writes the count.\<close>

lemma charges_lost:
  assumes "item_ok i" and "strings_fit i" and "getCharges i \<noteq> 0" and "it_charges (its (i_id i)) = 0"
    and "\<not> it_fluid (its (i_id i))"
  shows "\<exists>j. unserializeAttr u its (fresh_item (i_id i) c) (concat (item_pieces its i)) = (True, j) \<and>
     getCharges j = 0 \<and> i_count j = ucast (getCharges i)"
proof -
  define j where "j = reloaded its i (fresh_item (i_id i) c)"
  have "item_look j ITEM_ATTRIBUTE_CHARGES = None"
    unfolding j_def using assms(4,5) by (subst reloaded_look(3) [OF assms(1)]) (auto simp: saved_types_def upon_sub)
  then have "getCharges j = 0"
    by (simp add: getCharges_def item_int_look)
  moreover have "i_count j = ucast (getCharges i)"
    unfolding j_def using assms(3-5) by (simp add: reloaded_fill [OF assms(1)] fill_count upon_sub)
  ultimately show ?thesis
    using unserialize_pieces [OF assms(2)] by (simp add: j_def)
qed

end
