(* ===== verification/Container_Model.thy ===== *)
theory Container_Model
  imports Item_Attributes Tools_Model
begin

section \<open>Containers\<close>

text \<open>
  \<open>container.cpp\<close> and \<open>container.h\<close> over an explicit store: every item is an object with a parent pointer, a container also has a list of
  item pointers, a capacity and the cached weight of everything inside. Pointers to containers are
  \<open>Box\<close>, pointers to other cylinders (tiles, players, the virtual cylinder \<open>Out 0\<close>) are \<open>Out\<close> with their own parents in \<open>outer\<close>.
  Loops that follow parent pointers or nested lists are \<open>partial_function\<close>s: they are shown to return on the tree-shaped stores that the invariant describes.
  The capacity check of the carrier at the top is the parameter \<open>outQuery\<close>.

  \<open>Container_Tree\<close> shows that the operations keep parents, lists and cached weights consistent and that \<open>queryAdd\<close> never lets a
  container into itself; \<open>Container_Iterator\<close> that the breadth-first \<open>ContainerIterator\<close> visits every nested item exactly once.
\<close>

subsection \<open>State\<close>

datatype cyl = Box nat | Out nat

record box =
  maxSize :: u32
  totalWeight :: u32
  itemlist :: "nat list"
  unlocked :: bool

record obj =
  o_item :: item
  o_parent :: "cyl option"
  o_box :: "box option"

datatype box_notice = NAdd nat nat | NUpdate nat nat nat nat | NRemove nat nat nat

record store =
  objs :: "nat \<Rightarrow> obj"
  outer :: "nat \<Rightarrow> nat option"
  told :: "box_notice list"

definition upd_obj :: "nat \<Rightarrow> (obj \<Rightarrow> obj) \<Rightarrow> store \<Rightarrow> store" where
  "upd_obj i f s = s\<lparr>objs := (objs s)(i := f (objs s i))\<rparr>"

definition setParent :: "nat \<Rightarrow> cyl option \<Rightarrow> store \<Rightarrow> store" where
  "setParent i c = upd_obj i (\<lambda>x. x\<lparr>o_parent := c\<rparr>)"

definition upd_box :: "nat \<Rightarrow> (box \<Rightarrow> box) \<Rightarrow> store \<Rightarrow> store" where
  "upd_box c f = upd_obj c (\<lambda>x. x\<lparr>o_box := map_option f (o_box x)\<rparr>)"

definition box_tell :: "box_notice \<Rightarrow> store \<Rightarrow> store" where
  "box_tell n s = s\<lparr>told := told s @ [n]\<rparr>"

definition items_of :: "store \<Rightarrow> nat \<Rightarrow> nat list" where
  "items_of s c = (case o_box (objs s c) of None \<Rightarrow> [] | Some b \<Rightarrow> itemlist b)"

definition new_Container :: "16 word \<Rightarrow> u32 \<Rightarrow> obj" where
  "new_Container tp sz =
     \<lparr>o_item = \<lparr>i_id = tp, i_count = 1, i_attrs = None\<rparr>, o_parent = None,
      o_box = Some \<lparr>maxSize = sz, totalWeight = 0, itemlist = [], unlocked = True\<rparr>\<rparr>"

definition cap :: "store \<Rightarrow> nat \<Rightarrow> u32" where
  "cap s c = (case o_box (objs s c) of None \<Rightarrow> 0 | Some b \<Rightarrow> maxSize b)"

definition parent_of :: "store \<Rightarrow> nat \<Rightarrow> cyl option" where
  "parent_of s i = o_parent (objs s i)"

definition cyl_parent :: "store \<Rightarrow> cyl \<Rightarrow> cyl option" where
  "cyl_parent s c = (case c of Box i \<Rightarrow> parent_of s i | Out n \<Rightarrow> map_option Out (outer s n))"

definition getParentContainer :: "store \<Rightarrow> nat \<Rightarrow> nat option" where
  "getParentContainer s c = (case parent_of s c of Some (Box p) \<Rightarrow> Some p | _ \<Rightarrow> None)"

definition hasParent :: "store \<Rightarrow> nat \<Rightarrow> bool" where
  "hasParent s c \<longleftrightarrow> getParentContainer s c \<noteq> None"

subsection \<open>Weights\<close>

definition getWeight :: "item_table \<Rightarrow> store \<Rightarrow> nat \<Rightarrow> u32" where
  "getWeight its s i =
     item_getWeight its (o_item (objs s i)) + (case o_box (objs s i) of None \<Rightarrow> 0 | Some b \<Rightarrow> totalWeight b)"

partial_function (option) updateItemWeight :: "nat \<Rightarrow> u32 \<Rightarrow> store \<Rightarrow> store option" where
  "updateItemWeight c diff s =
     (let s = upd_box c (\<lambda>b. b\<lparr>totalWeight := totalWeight b + diff\<rparr>) s
      in case getParentContainer s c of
           None \<Rightarrow> Some s
         | Some p \<Rightarrow> updateItemWeight p diff s)"

subsection \<open>Contents\<close>

definition getItemByIndex :: "store \<Rightarrow> nat \<Rightarrow> nat \<Rightarrow> nat option" where
  "getItemByIndex s c index = (if index \<ge> length (items_of s c) then None else Some (items_of s c ! index))"

fun index_in :: "nat \<Rightarrow> nat \<Rightarrow> nat list \<Rightarrow> int" where
  "index_in i n [] = -1"
| "index_in i n (x # xs) = (if x = i then int n else index_in i (Suc n) xs)"

definition getThingIndex :: "store \<Rightarrow> nat \<Rightarrow> nat \<Rightarrow> int" where
  "getThingIndex s c i = index_in i 0 (items_of s c)"

definition countByType :: "item_table \<Rightarrow> store \<Rightarrow> int \<Rightarrow> nat \<Rightarrow> u32" where
  "countByType its s subType i =
     (if subType = -1 \<or> subType = uint (getSubType its (o_item (objs s i))) then ucast (i_count (o_item (objs s i))) else 0)"

definition getItemTypeCount :: "item_table \<Rightarrow> store \<Rightarrow> nat \<Rightarrow> 16 word \<Rightarrow> int \<Rightarrow> u32" where
  "getItemTypeCount its s c tp subType =
     fold (\<lambda>i n. if i_id (o_item (objs s i)) = tp then n + countByType its s subType i else n) (items_of s c) 0"

definition getAllItemTypeCount :: "store \<Rightarrow> nat \<Rightarrow> (u32 \<Rightarrow> u32) \<Rightarrow> (u32 \<Rightarrow> u32)" where
  "getAllItemTypeCount s c =
     fold (\<lambda>i m. let k = ucast (i_id (o_item (objs s i))) in m(k := m k + ucast (i_count (o_item (objs s i))))) (items_of s c)"

text \<open>\<open>ContainerIterator\<close>: a queue of containers and a position in the list of the first one.\<close>

type_synonym box_iterator = "nat list \<times> nat"

definition iterator :: "store \<Rightarrow> nat \<Rightarrow> box_iterator" where
  "iterator s c = (if items_of s c \<noteq> [] then ([c], 0) else ([], 0))"

definition hasNext :: "box_iterator \<Rightarrow> bool" where
  "hasNext it \<longleftrightarrow> fst it \<noteq> []"

definition current :: "store \<Rightarrow> box_iterator \<Rightarrow> nat" where
  "current s it = items_of s (hd (fst it)) ! snd it"

definition advance :: "store \<Rightarrow> box_iterator \<Rightarrow> box_iterator" where
  "advance s it =
     (let i = current s it;
          over = (if o_box (objs s i) \<noteq> None \<and> items_of s i \<noteq> [] then fst it @ [i] else fst it);
          cur = Suc (snd it)
      in if cur = length (items_of s (hd over)) then (tl over, 0) else (over, cur))"

partial_function (option) visit :: "store \<Rightarrow> box_iterator \<Rightarrow> nat list option" where
  "visit s it =
     (if hasNext it then Option.bind (visit s (advance s it)) (\<lambda>xs. Some (current s it # xs)) else Some [])"

definition getItemHoldingCount :: "store \<Rightarrow> nat \<Rightarrow> u32 option" where
  "getItemHoldingCount s c = map_option (\<lambda>xs. of_nat (length xs)) (visit s (iterator s c))"

partial_function (option) holding_loop :: "store \<Rightarrow> nat \<Rightarrow> box_iterator \<Rightarrow> bool option" where
  "holding_loop s i it =
     (if hasNext it then (if current s it = i then Some True else holding_loop s i (advance s it)) else Some False)"

definition isHoldingItem :: "store \<Rightarrow> nat \<Rightarrow> nat \<Rightarrow> bool option" where
  "isHoldingItem s c i = holding_loop s i (iterator s c)"

subsection \<open>Queries\<close>

definition flag_set :: "nat \<Rightarrow> u32 \<Rightarrow> bool" where
  "flag_set n flags \<longleftrightarrow> bit flags n"

definition FLAG_NOLIMIT :: nat where "FLAG_NOLIMIT = 0"
definition FLAG_CHILDISOWNER :: nat where "FLAG_CHILDISOWNER = 3"
definition FLAG_IGNORENOTMOVEABLE :: nat where "FLAG_IGNORENOTMOVEABLE = 6"
definition FLAG_IGNOREAUTOSTACK :: nat where "FLAG_IGNOREAUTOSTACK = 7"

definition INDEX_WHEREEVER :: int where "INDEX_WHEREEVER = -1"

text \<open>Following the parents from a cylinder: is the item one of them?\<close>

partial_function (option) climbs :: "store \<Rightarrow> nat \<Rightarrow> cyl option \<Rightarrow> bool option" where
  "climbs s i c =
     (case c of
        None \<Rightarrow> Some False
      | Some d \<Rightarrow> if d = Box i then Some True else climbs s i (cyl_parent s d))"

partial_function (option) top_loop :: "store \<Rightarrow> cyl \<Rightarrow> cyl \<Rightarrow> cyl option" where
  "top_loop s prevaux aux =
     (case cyl_parent s aux of
        None \<Rightarrow> Some prevaux
      | Some d \<Rightarrow> top_loop s aux d)"

definition getTopParent :: "store \<Rightarrow> nat \<Rightarrow> cyl option" where
  "getTopParent s c =
     (case parent_of s c of None \<Rightarrow> Some (Box c) | Some aux \<Rightarrow> top_loop s (Box c) aux)"

type_synonym out_query = "nat \<Rightarrow> nat \<Rightarrow> u32 \<Rightarrow> u32 \<Rightarrow> ReturnValue"

definition queryAdd :: "item_table \<Rightarrow> out_query \<Rightarrow> store \<Rightarrow> nat \<Rightarrow> int \<Rightarrow> nat \<Rightarrow> u32 \<Rightarrow> u32 \<Rightarrow> ReturnValue option" where
  "queryAdd its outQuery s c index i count flags =
     (if flag_set FLAG_CHILDISOWNER flags then Some RETURNVALUE_NOERROR
      else case o_box (objs s c) of
        None \<Rightarrow> None
      | Some b \<Rightarrow>
          (if \<not> unlocked b then Some RETURNVALUE_NOTPOSSIBLE
           else if \<not> it_pickupable (its (i_id (o_item (objs s i)))) then Some RETURNVALUE_CANNOTPICKUP
           else if i = c then Some RETURNVALUE_THISISIMPOSSIBLE
           else case climbs s i (parent_of s c) of
             None \<Rightarrow> None
           | Some True \<Rightarrow> Some RETURNVALUE_THISISIMPOSSIBLE
           | Some False \<Rightarrow>
               (if \<not> flag_set FLAG_NOLIMIT flags \<and> index = INDEX_WHEREEVER \<and> length (itemlist b) \<ge> unat (maxSize b)
                then Some RETURNVALUE_CONTAINERNOTENOUGHROOM
                else case getTopParent s c of
                  None \<Rightarrow> None
                | Some (Box t) \<Rightarrow> Some RETURNVALUE_NOERROR
                | Some (Out n) \<Rightarrow> Some (outQuery n i count (set_bit FLAG_CHILDISOWNER flags)))))"

fun stack_room :: "item_table \<Rightarrow> out_query \<Rightarrow> store \<Rightarrow> nat \<Rightarrow> nat \<Rightarrow> u32 \<Rightarrow> nat list \<Rightarrow> nat \<Rightarrow> u32 \<Rightarrow> u32 option" where
  "stack_room its outQuery s c i flags [] slotIndex n = Some n"
| "stack_room its outQuery s c i flags (x # xs) slotIndex n =
     (let xi = o_item (objs s x)
      in if x \<noteq> i \<and> item_equals xi (o_item (objs s i)) \<and> i_count xi < 100
         then let remainder = 100 - ucast (i_count xi)
              in case queryAdd its outQuery s c (int slotIndex) i remainder flags of
                   None \<Rightarrow> None
                 | Some r \<Rightarrow> stack_room its outQuery s c i flags xs (Suc slotIndex)
                              (if r = RETURNVALUE_NOERROR then n + remainder else n)
         else stack_room its outQuery s c i flags xs slotIndex n)"

definition freeSlots :: "store \<Rightarrow> nat \<Rightarrow> u32" where
  "freeSlots s c = (let d = (of_int (uint (cap s c) - int (length (items_of s c))) :: u32) in if sint d < 0 then 0 else d)"

definition stack_room_at :: "item_table \<Rightarrow> out_query \<Rightarrow> store \<Rightarrow> nat \<Rightarrow> nat \<Rightarrow> u32 \<Rightarrow> nat \<Rightarrow> u32 option" where
  "stack_room_at its outQuery s c i flags index =
     (case getItemByIndex s c index of
        None \<Rightarrow> Some 0
      | Some d \<Rightarrow>
          (if item_equals (o_item (objs s i)) (o_item (objs s d)) \<and> i_count (o_item (objs s d)) < 100
           then let remainder = 100 - ucast (i_count (o_item (objs s d)))
                in case queryAdd its outQuery s c (int index) i remainder flags of
                     None \<Rightarrow> None
                   | Some r \<Rightarrow> Some (if r = RETURNVALUE_NOERROR then remainder else 0)
           else Some 0))"

definition queryMaxCount :: "item_table \<Rightarrow> out_query \<Rightarrow> store \<Rightarrow> nat \<Rightarrow> int \<Rightarrow> nat \<Rightarrow> u32 \<Rightarrow> u32 \<Rightarrow> (ReturnValue \<times> u32) option" where
  "queryMaxCount its outQuery s c index i count flags =
     (if flag_set FLAG_NOLIMIT flags then Some (RETURNVALUE_NOERROR, max 1 count)
      else if it_stackable (its (i_id (o_item (objs s i))))
      then (case (if index = INDEX_WHEREEVER then stack_room its outQuery s c i flags (items_of s c) 0 0
                  else stack_room_at its outQuery s c i flags (nat index)) of
              None \<Rightarrow> None
            | Some n \<Rightarrow>
                (let maxQueryCount = freeSlots s c * 100 + n
                 in Some (if maxQueryCount < count then RETURNVALUE_CONTAINERNOTENOUGHROOM else RETURNVALUE_NOERROR, maxQueryCount)))
      else let maxQueryCount = freeSlots s c
           in Some (if maxQueryCount = 0 then RETURNVALUE_CONTAINERNOTENOUGHROOM else RETURNVALUE_NOERROR, maxQueryCount))"

definition queryRemove :: "item_table \<Rightarrow> store \<Rightarrow> nat \<Rightarrow> nat \<Rightarrow> u32 \<Rightarrow> u32 \<Rightarrow> ReturnValue" where
  "queryRemove its s c i count flags =
     (let it = its (i_id (o_item (objs s i)))
      in if getThingIndex s c i = -1 then RETURNVALUE_NOTPOSSIBLE
         else if count = 0 \<or> it_stackable it \<and> count > ucast (i_count (o_item (objs s i))) then RETURNVALUE_NOTPOSSIBLE
         else if \<not> it_moveable it \<and> \<not> flag_set FLAG_IGNORENOTMOVEABLE flags then RETURNVALUE_NOTMOVEABLE
         else RETURNVALUE_NOERROR)"

fun find_stack :: "store \<Rightarrow> nat \<Rightarrow> nat \<Rightarrow> nat list \<Rightarrow> (nat \<times> nat) option" where
  "find_stack s i n [] = None"
| "find_stack s i n (x # xs) =
     (if x \<noteq> i \<and> item_equals (o_item (objs s x)) (o_item (objs s i)) \<and> i_count (o_item (objs s x)) < 100
      then Some (n, x) else find_stack s i (Suc n) xs)"

text \<open>The destination container, the index and the item to stack on.\<close>

definition queryDestination :: "item_table \<Rightarrow> store \<Rightarrow> nat \<Rightarrow> int \<Rightarrow> nat \<Rightarrow> nat option \<Rightarrow> u32 \<Rightarrow> nat \<times> int \<times> nat option" where
  "queryDestination its s c index i destItem flags =
     (if (case o_box (objs s c) of None \<Rightarrow> False | Some b \<Rightarrow> \<not> unlocked b) then (c, index, None)
      else if index = 254
      then (case getParentContainer s c of Some p \<Rightarrow> (p, INDEX_WHEREEVER, None) | None \<Rightarrow> (c, INDEX_WHEREEVER, None))
      else
        let wherever = (index = 255 \<or> index \<ge> sint (cap s c));
            index = (if wherever then INDEX_WHEREEVER else index);
            destItem = (if wherever then None else destItem);
            autoStack = (\<not> flag_set FLAG_IGNOREAUTOSTACK flags)
        in case (if autoStack \<and> it_stackable (its (i_id (o_item (objs s i)))) \<and> parent_of s i \<noteq> Some (Box c)
                 then find_stack s i 0 (items_of s c) else None) of
             Some (n, x) \<Rightarrow> (c, int n, Some x)
           | None \<Rightarrow>
               (if index \<noteq> INDEX_WHEREEVER
                then let destItem = (case getItemByIndex s c (nat index) of Some x \<Rightarrow> Some x | None \<Rightarrow> destItem)
                     in case destItem of
                          Some x \<Rightarrow> if o_box (objs s x) \<noteq> None then (x, INDEX_WHEREEVER, None) else (c, index, destItem)
                        | None \<Rightarrow> (c, index, None)
                else (c, index, destItem)))"

subsection \<open>Changes\<close>

definition push_back :: "nat \<Rightarrow> nat \<Rightarrow> store \<Rightarrow> store" where
  "push_back c i = upd_box c (\<lambda>b. b\<lparr>itemlist := itemlist b @ [i]\<rparr>)"

definition push_front :: "nat \<Rightarrow> nat \<Rightarrow> store \<Rightarrow> store" where
  "push_front c i = upd_box c (\<lambda>b. b\<lparr>itemlist := i # itemlist b\<rparr>)"

definition addItem :: "nat \<Rightarrow> nat \<Rightarrow> store \<Rightarrow> store" where
  "addItem c i s = setParent i (Some (Box c)) (push_back c i s)"

definition tell_added :: "nat \<Rightarrow> nat \<Rightarrow> store \<Rightarrow> store" where
  "tell_added c i s = (if parent_of s c \<noteq> None \<and> parent_of s c \<noteq> Some (Out 0) then box_tell (NAdd c i) s else s)"

definition internalAddThing :: "item_table \<Rightarrow> nat \<Rightarrow> nat \<Rightarrow> store \<Rightarrow> store option" where
  "internalAddThing its c i s =
     (let s = push_front c i (setParent i (Some (Box c)) s)
      in updateItemWeight c (getWeight its s i) s)"

definition addThing :: "item_table \<Rightarrow> nat \<Rightarrow> int \<Rightarrow> nat \<Rightarrow> store \<Rightarrow> store option" where
  "addThing its c index i s =
     (if index \<ge> sint (cap s c) then Some s
      else let s = push_front c i (setParent i (Some (Box c)) s)
           in map_option (tell_added c i) (updateItemWeight c (getWeight its s i) s))"

definition addItemBack :: "item_table \<Rightarrow> nat \<Rightarrow> nat \<Rightarrow> store \<Rightarrow> store option" where
  "addItemBack its c i s =
     (let s = addItem c i s
      in map_option (tell_added c i) (updateItemWeight c (getWeight its s i) s))"

definition upd_item :: "nat \<Rightarrow> (item \<Rightarrow> item) \<Rightarrow> store \<Rightarrow> store" where
  "upd_item i f = upd_obj i (\<lambda>x. x\<lparr>o_item := f (o_item x)\<rparr>)"

definition tell_updated :: "nat \<Rightarrow> nat \<Rightarrow> nat \<Rightarrow> nat \<Rightarrow> store \<Rightarrow> store" where
  "tell_updated c index old new s = (if parent_of s c \<noteq> None then box_tell (NUpdate c index old new) s else s)"

definition updateThing :: "item_table \<Rightarrow> nat \<Rightarrow> nat \<Rightarrow> 16 word \<Rightarrow> u32 \<Rightarrow> store \<Rightarrow> store option" where
  "updateThing its c i itemId count s =
     (let index = getThingIndex s c i
      in if index = -1 then Some s
         else let oldWeight = getWeight its s i;
                  s = upd_item i (\<lambda>x. setSubType its (ucast count) (setID its itemId x)) s
              in map_option (tell_updated c (nat index) i i) (updateItemWeight c (- oldWeight + getWeight its s i) s))"

definition replaceThing :: "item_table \<Rightarrow> nat \<Rightarrow> nat \<Rightarrow> nat \<Rightarrow> store \<Rightarrow> store option" where
  "replaceThing its c index i s =
     (case getItemByIndex s c index of
        None \<Rightarrow> Some s
      | Some replaced \<Rightarrow>
          (let s = setParent i (Some (Box c)) (upd_box c (\<lambda>b. b\<lparr>itemlist := (itemlist b)[index := i]\<rparr>) s)
           in map_option (\<lambda>s. setParent replaced None (tell_updated c index replaced i s))
                (updateItemWeight c (- getWeight its s replaced + getWeight its s i) s)))"

definition remove_nth :: "nat \<Rightarrow> 'a list \<Rightarrow> 'a list" where
  "remove_nth n xs = take n xs @ drop (Suc n) xs"

definition removeThing :: "item_table \<Rightarrow> nat \<Rightarrow> nat \<Rightarrow> u32 \<Rightarrow> store \<Rightarrow> store option" where
  "removeThing its c i count s =
     (let index = getThingIndex s c i;
          itc = (ucast (i_count (o_item (objs s i))) :: u32)
      in if index = -1 then Some s
         else if it_stackable (its (i_id (o_item (objs s i)))) \<and> count \<noteq> itc
         then let newCount = (ucast (if sint (itc - count) < 0 then 0 else itc - count) :: byte);
                  oldWeight = getWeight its s i;
                  s = upd_item i (\<lambda>x. x\<lparr>i_count := newCount\<rparr>) s
              in map_option (tell_updated c (nat index) i i) (updateItemWeight c (- oldWeight + getWeight its s i) s)
         else map_option (\<lambda>s. upd_box c (\<lambda>b. b\<lparr>itemlist := remove_nth (nat index) (itemlist b)\<rparr>)
                  (setParent i None (if parent_of s c \<noteq> None then box_tell (NRemove c (nat index) i) s else s)))
                (updateItemWeight c (- getWeight its s i) s))"

end
