(* ===== verification/Container_Tree.thy ===== *)
theory Container_Tree
  imports Container_Model
begin

section \<open>The tree of containers\<close>

text \<open>
  The store of \<open>Container_Model\<close> as a forest: parent pointers between containers, their ancestors, and the invariant
  that item lists, parent pointers and cached weights agree. Every operation of \<open>container.cpp\<close> keeps it, along histories (\<open>box_reach\<close>)
  in which additions were allowed by \<open>queryAdd\<close>.
\<close>

subsection \<open>The tree of containers\<close>

definition up :: "store \<Rightarrow> (nat \<times> nat) set" where
  "up s = {(i, p). parent_of s i = Some (Box p)}"

definition anc :: "store \<Rightarrow> nat \<Rightarrow> nat set" where
  "anc s c = {x. (c, x) \<in> (up s)\<^sup>*}"

definition nested :: "(nat \<Rightarrow> nat) \<Rightarrow> nat \<Rightarrow> store \<Rightarrow> bool" where
  "nested rank N s \<longleftrightarrow> (\<forall>i p. (i, p) \<in> up s \<longrightarrow> rank i < rank p) \<and> (\<forall>i. rank i \<le> N)"

definition tree_ok :: "store \<Rightarrow> bool" where
  "tree_ok s \<longleftrightarrow>
     (\<forall>c. distinct (items_of s c)) \<and>
     (\<forall>c i. i \<in> set (items_of s c) \<longleftrightarrow> parent_of s i = Some (Box c)) \<and>
     (\<exists>rank N. nested rank N s)"

definition weights_ok :: "item_table \<Rightarrow> store \<Rightarrow> bool" where
  "weights_ok its s \<longleftrightarrow>
     (\<forall>c b. o_box (objs s c) = Some b \<longrightarrow> totalWeight b = sum_list (map (getWeight its s) (itemlist b)))"

lemma up_iff: "(i, p) \<in> up s \<longleftrightarrow> parent_of s i = Some (Box p)"
  by (simp add: up_def)

lemma up_single: "single_valued (up s)"
  by (auto simp: single_valued_def up_def)

lemma rank_up: "nested rank N s \<Longrightarrow> (i, p) \<in> up s \<Longrightarrow> rank i < rank p"
  by (auto simp: nested_def)

lemma rank_ups: "(i, p) \<in> (up s)\<^sup>* \<Longrightarrow> nested rank N s \<Longrightarrow> rank i \<le> rank p"
  by (induction rule: rtrancl_induct) (auto dest: rank_up)

lemma anc_self [simp]: "c \<in> anc s c"
  by (simp add: anc_def)

lemma anc_step: "parent_of s c = Some (Box p) \<Longrightarrow> anc s c = insert c (anc s p)"
  by (auto simp: anc_def up_iff elim: converse_rtranclE intro: converse_rtrancl_into_rtrancl)

lemma anc_top: "getParentContainer s c = None \<Longrightarrow> anc s c = {c}"
proof -
  assume "getParentContainer s c = None"
  then have "(c, y) \<notin> up s" for y
    by (auto simp: up_iff getParentContainer_def)
  then show ?thesis
    by (auto simp: anc_def elim: converse_rtranclE)
qed

lemma getParentContainer_iff: "getParentContainer s c = Some p \<longleftrightarrow> parent_of s c = Some (Box p)"
  by (auto simp: getParentContainer_def split: option.splits cyl.splits)

definition bump :: "u32 \<Rightarrow> obj \<Rightarrow> obj" where
  "bump d x = x\<lparr>o_box := map_option (\<lambda>b. b\<lparr>totalWeight := totalWeight b + d\<rparr>) (o_box x)\<rparr>"

definition bumped :: "u32 \<Rightarrow> nat set \<Rightarrow> store \<Rightarrow> store" where
  "bumped d A s = s\<lparr>objs := \<lambda>x. if x \<in> A then bump d (objs s x) else objs s x\<rparr>"

lemma bump_simps [simp]:
  "o_item (bump d x) = o_item x" "o_parent (bump d x) = o_parent x"
  "o_box (bump d x) = map_option (\<lambda>b. b\<lparr>totalWeight := totalWeight b + d\<rparr>) (o_box x)"
  by (simp_all add: bump_def)

lemma bumped_simps [simp]:
  "parent_of (bumped d A s) = parent_of s" "items_of (bumped d A s) = items_of s" "up (bumped d A s) = up s"
  "outer (bumped d A s) = outer s" "anc (bumped d A s) = anc s" "told (bumped d A s) = told s"
proof -
  show p: "parent_of (bumped d A s) = parent_of s"
    by (simp add: bumped_def parent_of_def fun_eq_iff)
  show u: "up (bumped d A s) = up s"
    by (simp add: up_def p)
  show "anc (bumped d A s) = anc s"
    by (simp add: anc_def u fun_eq_iff)
  show "items_of (bumped d A s) = items_of s"
    by (auto simp: bumped_def items_of_def fun_eq_iff split: option.splits)
qed (simp_all add: bumped_def)

lemma upd_box_bumped: "upd_box c (\<lambda>b. b\<lparr>totalWeight := totalWeight b + d\<rparr>) s = bumped d {c} s"
  by (simp add: upd_box_def upd_obj_def bumped_def bump_def fun_eq_iff)

lemma updateItemWeight_eq:
  assumes "nested rank N s"
  shows "updateItemWeight c d s = Some (bumped d (anc s c) s)"
  using assms
proof (induction "N - rank c" arbitrary: c s rule: less_induct)
  case less
  let ?s = "bumped d {c} s"
  show ?case
  proof (cases "getParentContainer s c")
    case None
    then have "getParentContainer ?s c = None"
      by (simp add: getParentContainer_def)
    then show ?thesis
      using anc_top [OF None] by (simp add: updateItemWeight.simps [of c d s] upd_box_bumped)
  next
    case (Some p)
    then have p: "parent_of s c = Some (Box p)" "getParentContainer ?s c = Some p"
      by (simp_all add: getParentContainer_iff)
    have rk: "rank c < rank p" "rank p \<le> N"
      using less(2) p(1) by (auto simp: nested_def up_iff)
    have "nested rank N ?s"
      using less(2) by (simp add: nested_def)
    then have "updateItemWeight p d ?s = Some (bumped d (anc s p) ?s)"
      using less(1) [of p ?s] rk by simp
    moreover have "c \<notin> anc s p"
      using rank_ups [of p c s rank N] less(2) rk(1) by (auto simp: anc_def)
    then have "bumped d (anc s p) ?s = bumped d (anc s c) s"
      by (auto simp: bumped_def anc_step [OF p(1)] fun_eq_iff)
    ultimately show ?thesis
      using p(2) by (simp add: updateItemWeight.simps [of c d s] upd_box_bumped)
  qed
qed

lemma getWeight_bumped:
  "getWeight its (bumped d A s) x = getWeight its s x + (if x \<in> A \<and> o_box (objs s x) \<noteq> None then d else 0)"
  by (auto simp: getWeight_def bumped_def split: option.splits)

lemma sum_list_bump:
  assumes "distinct xs"
  shows "A \<inter> set xs = {} \<Longrightarrow> sum_list (map (\<lambda>x. w x + (if x \<in> A then d else 0)) xs) = sum_list (map w xs)"
    and "A \<inter> set xs = {k} \<Longrightarrow> sum_list (map (\<lambda>x. w x + (if x \<in> A then d else 0)) xs) = sum_list (map w xs) + (d :: u32)"
proof -
  show none: "sum_list (map (\<lambda>x. w x + (if x \<in> A then d else 0)) xs) = sum_list (map w xs)" if "A \<inter> set xs = {}" for xs
  proof -
    have eq: "map (\<lambda>x. w x + (if x \<in> A then d else 0)) xs = map w xs"
      using that by auto
    show ?thesis by (simp only: eq)
  qed
  show "sum_list (map (\<lambda>x. w x + (if x \<in> A then d else 0)) xs) = sum_list (map w xs) + d" if "A \<inter> set xs = {k}"
    using assms that
  proof (induction xs)
    case (Cons x xs)
    show ?case
    proof (cases "x \<in> A")
      case True
      then have "A \<inter> set xs = {}"
        using Cons.prems by auto
      then show ?thesis
        using none [of xs] True by (simp add: algebra_simps)
    next
      case False
      then have "A \<inter> set xs = {k}"
        using Cons.prems(2) by auto
      then show ?thesis
        using Cons False by (simp add: algebra_simps)
    qed
  qed simp
qed

lemma tree_kid: "tree_ok s \<Longrightarrow> i \<in> set (items_of s c) \<longleftrightarrow> (i, c) \<in> up s"
  by (simp add: tree_ok_def up_iff)

lemma kids_box: "i \<in> set (items_of s c) \<Longrightarrow> o_box (objs s c) \<noteq> None"
  by (cases "o_box (objs s c)") (auto simp: items_of_def)

text \<open>Among the items of a container at most one is an ancestor of \<open>c\<close>: the one on the way up, if there is a way.\<close>

lemma kids_on_path:
  assumes "tree_ok s"
  shows "x \<notin> anc s c \<or> x = c \<Longrightarrow> anc s c \<inter> set (items_of s x) = {}"
    and "x \<in> anc s c \<Longrightarrow> x \<noteq> c \<Longrightarrow> \<exists>k. anc s c \<inter> set (items_of s x) = {k}"
proof -
  obtain rank N where nest: "nested rank N s"
    using assms by (auto simp: tree_ok_def)
  note kid = tree_kid [OF assms]
  show "anc s c \<inter> set (items_of s x) = {}" if "x \<notin> anc s c \<or> x = c"
  proof (rule ccontr)
    assume "anc s c \<inter> set (items_of s x) \<noteq> {}"
    then obtain j where j: "(c, j) \<in> (up s)\<^sup>*" "(j, x) \<in> up s"
      by (auto simp: anc_def kid)
    then have "x \<in> anc s c"
      by (simp add: anc_def)
    moreover have "x \<noteq> c"
      using rank_ups [OF j(1) nest] rank_up [OF nest j(2)] by auto
    ultimately show False using that by blast
  qed
  show "\<exists>k. anc s c \<inter> set (items_of s x) = {k}" if x: "x \<in> anc s c" "x \<noteq> c"
  proof -
    obtain k where k: "(c, k) \<in> (up s)\<^sup>*" "(k, x) \<in> up s"
      using x by (auto simp: anc_def elim: rtranclE)
    have no: "(x, j) \<notin> (up s)\<^sup>*" if "(j, x) \<in> up s" for j
      using rank_ups [of x j s rank N] rank_up [OF nest that] nest by auto
    have same: "a = e" if ae: "(a, e) \<in> (up s)\<^sup>*" "(a, x) \<in> up s" "(e, x) \<in> up s" for a e
      using ae(1)
    proof (cases rule: converse_rtranclE)
      case (step y)
      then have "y = x"
        using single_valuedD [OF up_single step(1) ae(2)] by simp
      then show ?thesis
        using step no [OF ae(3)] by blast
    qed simp
    have jk: "j = k" if j: "(c, j) \<in> (up s)\<^sup>*" "(j, x) \<in> up s" for j
      using single_valued_confluent [OF up_single k(1) j(1)] same [of j k] same [of k j] k(2) j(2) by blast
    have "anc s c \<inter> set (items_of s x) = {k}"
    proof (intro equalityI subsetI)
      fix j
      assume "j \<in> anc s c \<inter> set (items_of s x)"
      then show "j \<in> {k}"
        using jk [of j] by (simp add: anc_def kid)
    next
      fix j
      assume "j \<in> {k}"
      then show "j \<in> anc s c \<inter> set (items_of s x)"
        using k by (simp add: anc_def kid)
    qed
    then show ?thesis by blast
  qed
qed

lemma anc_boxes:
  assumes "tree_ok s" and "o_box (objs s c) \<noteq> None" and "x \<in> anc s c"
  shows "o_box (objs s x) \<noteq> None"
proof (cases "x = c")
  case False
  then obtain k where "(k, x) \<in> up s"
    using assms(3) by (auto simp: anc_def elim: rtranclE)
  then show ?thesis
    using kids_box [of k s x] tree_kid [OF assms(1)] by blast
qed (use assms(2) in simp)

text \<open>Passing a difference up the parents repairs the weights that were off by that difference at one container.\<close>

lemma weights_repaired:
  assumes "tree_ok s" and "o_box (objs s c) \<noteq> None"
    and off: "\<And>x b. o_box (objs s x) = Some b \<Longrightarrow>
        totalWeight b + (if x = c then d else 0) = sum_list (map (getWeight its s) (itemlist b))"
  shows "weights_ok its (bumped d (anc s c) s)"
  unfolding weights_ok_def
proof (intro allI impI)
  fix x b'
  assume b': "o_box (objs (bumped d (anc s c) s) x) = Some b'"
  then obtain b where b: "o_box (objs s x) = Some b" and l: "itemlist b' = itemlist b"
      and t: "totalWeight b' = totalWeight b + (if x \<in> anc s c then d else 0)"
    by (auto simp: bumped_def split: if_splits)
  have items: "items_of s x = itemlist b"
    by (simp add: items_of_def b)
  have dist: "distinct (itemlist b)"
    using assms(1) items by (metis tree_ok_def)
  have e1: "map (getWeight its (bumped d (anc s c) s)) (itemlist b)
      = map (\<lambda>j. getWeight its s j + (if j \<in> anc s c then d else 0)) (itemlist b)"
    using anc_boxes [OF assms(1,2)] by (simp add: getWeight_bumped)
  have e2: "sum_list (map (\<lambda>j. getWeight its s j + (if j \<in> anc s c then d else 0)) (itemlist b)) = totalWeight b'"
  proof (cases "x \<in> anc s c \<and> x \<noteq> c")
    case True
    then obtain k where "anc s c \<inter> set (itemlist b) = {k}"
      using kids_on_path(2) [OF assms(1), of x c] items by auto
    then show ?thesis
      using sum_list_bump(2) [OF dist] off [OF b] t True by simp
  next
    case False
    then have "anc s c \<inter> set (itemlist b) = {}"
      using kids_on_path(1) [OF assms(1), of x c] items by auto
    then show ?thesis
      using sum_list_bump(1) [OF dist] off [OF b] t False by (auto split: if_splits)
  qed
  show "totalWeight b' = sum_list (map (getWeight its (bumped d (anc s c) s)) (itemlist b'))"
    by (simp only: l e1 e2)
qed

definition box_inv :: "item_table \<Rightarrow> store \<Rightarrow> bool" where
  "box_inv its s \<longleftrightarrow> tree_ok s \<and> weights_ok its s"

lemma tree_ok_cong:
  assumes "\<And>x. parent_of s x = parent_of t x" and "\<And>x. items_of s x = items_of t x"
  shows "tree_ok s = tree_ok t"
proof -
  have "up s = up t" using assms(1) by (simp add: up_def)
  then show ?thesis
    by (simp add: tree_ok_def nested_def assms)
qed

lemma box_inv_told [simp]:
  "tree_ok (box_tell n s) = tree_ok s" "weights_ok its (box_tell n s) = weights_ok its s"
proof -
  show "tree_ok (box_tell n s) = tree_ok s"
    by (rule tree_ok_cong) (simp_all add: box_tell_def parent_of_def items_of_def)
  have "getWeight its (box_tell n s) = getWeight its s"
    by (simp add: getWeight_def box_tell_def fun_eq_iff)
  then show "weights_ok its (box_tell n s) = weights_ok its s"
    by (simp add: weights_ok_def) (simp add: box_tell_def)
qed

lemma tree_bumped [simp]: "tree_ok (bumped d A s) = tree_ok s"
  by (rule tree_ok_cong) simp_all

text \<open>Putting an item that is in no container into \<open>c\<close>, in front or at the back of the list.\<close>

definition linked :: "nat \<Rightarrow> nat \<Rightarrow> nat list \<Rightarrow> store \<Rightarrow> store" where
  "linked c i l s = upd_box c (\<lambda>b. b\<lparr>itemlist := l\<rparr>) (setParent i (Some (Box c)) s)"

lemma linked_simps:
  assumes "o_box (objs s c) = Some b" and "i \<noteq> c"
  shows "parent_of (linked c i l s) x = (if x = i then Some (Box c) else parent_of s x)"
    and "items_of (linked c i l s) x = (if x = c then l else items_of s x)"
    and "getWeight its (linked c i l s) x = getWeight its s x"
    and "o_box (objs (linked c i l s) x) = (if x = c then Some (b\<lparr>itemlist := l\<rparr>) else o_box (objs s x))"
  using assms by (auto simp: linked_def upd_box_def upd_obj_def setParent_def parent_of_def items_of_def getWeight_def split: option.splits)

definition free :: "store \<Rightarrow> nat \<Rightarrow> bool" where
  "free s i \<longleftrightarrow> getParentContainer s i = None"

lemma free_top: "free s i \<longleftrightarrow> (\<forall>y. (i, y) \<notin> up s)"
  by (auto simp: free_def up_iff getParentContainer_def split: option.splits cyl.splits)

text \<open>Linking a free item below \<open>c\<close> creates no cycle unless \<open>c\<close> is below the item: everything that is not below \<open>i\<close> moves above it.\<close>

lemma linked_nested:
  assumes "nested rank N s" and "o_box (objs s c) = Some b" and "free s i" and "i \<notin> anc s c"
  shows "\<exists>rank' N'. nested rank' N' (linked c i l s)"
proof (intro exI)
  have ic: "i \<noteq> c"
    using assms(4) by auto
  let ?r = "\<lambda>x. if i \<in> anc s x then rank x else rank x + Suc N"
  show "nested ?r (N + Suc N) (linked c i l s)"
    unfolding nested_def
  proof (intro conjI allI impI)
    fix x p
    assume "(x, p) \<in> up (linked c i l s)"
    then have xp: "x = i \<and> p = c \<or> x \<noteq> i \<and> (x, p) \<in> up s"
      by (auto simp: up_iff linked_simps [OF assms(2) ic] split: if_splits)
    show "?r x < ?r p"
    proof (cases "x = i")
      case True
      then have "p = c" using xp by blast
      then show ?thesis
        using True assms(1,4) by (auto simp: nested_def le_imp_less_Suc trans_le_add2)
    next
      case False
      then have u: "(x, p) \<in> up s" using xp by blast
      then have "i \<in> anc s x \<longleftrightarrow> i \<in> anc s p"
        using False anc_step [of s x p] by (auto simp: up_iff)
      then show ?thesis
        using rank_up [OF assms(1) u] by simp
    qed
  next
    fix x
    show "?r x \<le> N + Suc N"
      using assms(1) [unfolded nested_def, THEN conjunct2, THEN spec, of x] by simp
  qed
qed

lemma linked_tree:
  assumes "tree_ok s" and "o_box (objs s c) = Some b" and "free s i"
    and "i \<notin> anc s c" and "set l = insert i (set (itemlist b))" and "distinct l"
  shows "tree_ok (linked c i l s)"
proof -
  have ic: "i \<noteq> c"
    using assms(4) by auto
  note ls = linked_simps [OF assms(2) ic]
  obtain rank N where nest: "nested rank N s"
    using assms(1) by (auto simp: tree_ok_def)
  have items: "items_of s c = itemlist b"
    by (simp add: items_of_def assms(2))
  have "distinct (items_of (linked c i l s) x)" for x
    using assms(1,6) by (simp add: ls tree_ok_def)
  moreover have "j \<in> set (items_of (linked c i l s) x) \<longleftrightarrow> parent_of (linked c i l s) j = Some (Box x)" for j x
    using assms(1) assms(5) [folded items] assms(3) [unfolded free_top] by (auto simp: ls tree_ok_def up_iff)
  ultimately show ?thesis
    using linked_nested [OF nest assms(2-4)] by (simp add: tree_ok_def)
qed

subsection \<open>Every change keeps tree and weights\<close>

lemma tree_nested: "tree_ok s \<Longrightarrow> \<exists>rank N. nested rank N s"
  by (simp add: tree_ok_def)

lemma ups_acyclic: "tree_ok s \<Longrightarrow> (c, c) \<notin> (up s)\<^sup>+"
  by (meson tree_nested rank_ups rank_up tranclD2 not_less)

lemma free_not_kid: "tree_ok s \<Longrightarrow> free s i \<Longrightarrow> i \<notin> set (items_of s c)"
  using tree_kid [of s i c] by (simp add: free_top)

lemma box_of_items: "o_box (objs s c) = Some b \<Longrightarrow> items_of s c = itemlist b"
  by (simp add: items_of_def)

lemma linked_weights:
  assumes "box_inv its s" and "o_box (objs s c) = Some b" and "free s i" and "i \<notin> anc s c"
    and "set l = insert i (set (itemlist b))" and "distinct l"
    and "sum_list (map (getWeight its s) l) = getWeight its s i + sum_list (map (getWeight its s) (itemlist b))"
  shows "\<exists>s'. updateItemWeight c (getWeight its (linked c i l s) i) (linked c i l s) = Some s' \<and> box_inv its s' \<and>
    items_of s' c = l \<and> parent_of s' = parent_of (linked c i l s)"
proof -
  let ?s = "linked c i l s"
  have ic: "i \<noteq> c" using assms(4) by auto
  note ls = linked_simps [OF assms(2) ic]
  have tree: "tree_ok ?s"
    using assms by (intro linked_tree) (simp_all add: box_inv_def)
  then obtain rank N where "nested rank N ?s"
    using tree_nested by blast
  then have upd: "updateItemWeight c (getWeight its ?s i) ?s = Some (bumped (getWeight its ?s i) (anc ?s c) ?s)"
    by (rule updateItemWeight_eq)
  have gw: "getWeight its ?s = getWeight its s"
    by (simp add: ls fun_eq_iff)
  have "weights_ok its (bumped (getWeight its ?s i) (anc ?s c) ?s)"
  proof (rule weights_repaired [OF tree])
    show "o_box (objs ?s c) \<noteq> None" by (simp add: ls)
    fix x b'
    assume "o_box (objs ?s x) = Some b'"
    then show "totalWeight b' + (if x = c then getWeight its ?s i else 0) = sum_list (map (getWeight its ?s) (itemlist b'))"
      using assms(1,2,7) unfolding gw by (auto simp: ls box_inv_def weights_ok_def split: if_splits)
  qed
  then show ?thesis
    using upd tree by (simp add: box_inv_def ls)
qed

lemma push_front_linked:
  "o_box (objs s c) = Some b \<Longrightarrow> i \<noteq> c \<Longrightarrow> push_front c i (setParent i (Some (Box c)) s) = linked c i (i # itemlist b) s"
  by (simp add: push_front_def linked_def upd_box_def upd_obj_def setParent_def fun_eq_iff)

lemma addItem_linked:
  "o_box (objs s c) = Some b \<Longrightarrow> i \<noteq> c \<Longrightarrow> addItem c i s = linked c i (itemlist b @ [i]) s"
  by (simp add: addItem_def push_back_def linked_def upd_box_def upd_obj_def setParent_def fun_eq_iff)

lemma tell_added_inv [simp]:
  "box_inv its (tell_added c i s) = box_inv its s" "items_of (tell_added c i s) = items_of s"
  "parent_of (tell_added c i s) = parent_of s"
  by (simp_all add: tell_added_def box_inv_def) (simp_all add: box_tell_def items_of_def parent_of_def fun_eq_iff)

lemma addThing_keeps:
  assumes "box_inv its s" and "o_box (objs s c) = Some b" and "free s i" and "i \<notin> anc s c"
  shows "\<exists>s'. addThing its c index i s = Some s' \<and> box_inv its s' \<and>
     (index < sint (maxSize b) \<longrightarrow> items_of s' c = i # itemlist b \<and> parent_of s' i = Some (Box c))"
proof (cases "index < sint (maxSize b)")
  case False
  then show ?thesis
    using assms by (simp add: addThing_def cap_def)
next
  case True
  have ic: "i \<noteq> c" using assms(4) by auto
  have "tree_ok s" using assms(1) by (simp add: box_inv_def)
  then have "i \<notin> set (itemlist b)" "distinct (itemlist b)"
    using free_not_kid [of s i c] assms(2,3) by (auto simp: box_of_items tree_ok_def dest: spec [of _ c])
  then obtain s' where "updateItemWeight c (getWeight its (linked c i (i # itemlist b) s) i) (linked c i (i # itemlist b) s) = Some s'"
      "box_inv its s'" "items_of s' c = i # itemlist b" "parent_of s' = parent_of (linked c i (i # itemlist b) s)"
    using linked_weights [OF assms, of "i # itemlist b"] by auto
  then show ?thesis
    using True by (simp add: addThing_def cap_def assms(2) push_front_linked [OF assms(2) ic] Let_def
        linked_simps [OF assms(2) ic])
qed

lemma addItemBack_keeps:
  assumes "box_inv its s" and "o_box (objs s c) = Some b" and "free s i" and "i \<notin> anc s c"
  shows "\<exists>s'. addItemBack its c i s = Some s' \<and> box_inv its s' \<and> items_of s' c = itemlist b @ [i]"
proof -
  have ic: "i \<noteq> c" using assms(4) by auto
  have "tree_ok s" using assms(1) by (simp add: box_inv_def)
  then have "i \<notin> set (itemlist b)" "distinct (itemlist b)"
    using free_not_kid [of s i c] assms(2,3) by (auto simp: box_of_items tree_ok_def dest: spec [of _ c])
  then obtain s' where "updateItemWeight c (getWeight its (linked c i (itemlist b @ [i]) s) i) (linked c i (itemlist b @ [i]) s) = Some s'"
      "box_inv its s'" "items_of s' c = itemlist b @ [i]"
    using linked_weights [OF assms, of "itemlist b @ [i]"] by (auto simp: algebra_simps)
  then show ?thesis
    by (simp add: addItemBack_def addItem_linked [OF assms(2) ic] Let_def)
qed

text \<open>Changing the item itself.\<close>

lemma upd_item_simps [simp]:
  "parent_of (upd_item i f s) = parent_of s" "items_of (upd_item i f s) = items_of s"
  "o_box (objs (upd_item i f s) x) = o_box (objs s x)" "tree_ok (upd_item i f s) = tree_ok s"
proof -
  show p: "parent_of (upd_item i f s) = parent_of s" and q: "items_of (upd_item i f s) = items_of s"
    by (simp_all add: upd_item_def upd_obj_def parent_of_def items_of_def fun_eq_iff)
  show "tree_ok (upd_item i f s) = tree_ok s"
    by (rule tree_ok_cong) (simp_all add: p q)
qed (simp add: upd_item_def upd_obj_def)

lemma getWeight_upd_item: "x \<noteq> i \<Longrightarrow> getWeight its (upd_item i f s) x = getWeight its s x"
  by (simp add: getWeight_def upd_item_def upd_obj_def)

lemma sum_list_change:
  assumes "distinct xs" and "i \<in> set xs" and "\<And>x. x \<noteq> i \<Longrightarrow> v x = w x"
  shows "sum_list (map v xs) = sum_list (map w xs) + (- w i + (v i :: u32))"
  using assms(1,2)
proof (induction xs)
  case (Cons x xs)
  have same: "map v xs = map w xs" if "i \<notin> set xs"
  proof (rule map_cong [OF refl])
    fix x
    assume "x \<in> set xs"
    then have "x \<noteq> i" using that by blast
    then show "v x = w x" by (rule assms(3))
  qed
  show ?case
  proof (cases "x = i")
    case True
    then show ?thesis using Cons.prems same by (simp add: algebra_simps del: map_eq_conv)
  next
    case False
    then show ?thesis using Cons assms(3) [OF False] by (simp add: algebra_simps)
  qed
qed simp

lemma upd_item_weights:
  assumes "box_inv its s" and "i \<in> set (items_of s c)"
  shows "\<exists>s'. updateItemWeight c (- getWeight its s i + getWeight its (upd_item i f s) i) (upd_item i f s) = Some s' \<and>
     box_inv its s' \<and> items_of s' = items_of s \<and> parent_of s' = parent_of s"
proof -
  let ?s = "upd_item i f s"
  let ?d = "- getWeight its s i + getWeight its ?s i"
  have tree: "tree_ok s" "tree_ok ?s" using assms(1) by (simp_all add: box_inv_def)
  then obtain rank N where "nested rank N ?s"
    using tree_nested by blast
  then have upd: "updateItemWeight c ?d ?s = Some (bumped ?d (anc ?s c) ?s)"
    by (rule updateItemWeight_eq)
  have "weights_ok its (bumped ?d (anc ?s c) ?s)"
  proof (rule weights_repaired [OF tree(2)])
    show "o_box (objs ?s c) \<noteq> None"
      using kids_box [OF assms(2)] by simp
    fix x b
    assume "o_box (objs ?s x) = Some b"
    then have b: "o_box (objs s x) = Some b" by simp
    have w: "totalWeight b = sum_list (map (getWeight its s) (itemlist b))"
      using assms(1) b by (simp add: box_inv_def weights_ok_def)
    have dist: "distinct (itemlist b)"
      using tree(1) box_of_items [OF b] by (metis tree_ok_def)
    show "totalWeight b + (if x = c then ?d else 0) = sum_list (map (getWeight its ?s) (itemlist b))"
    proof (cases "x = c")
      case True
      then have "i \<in> set (itemlist b)"
        using assms(2) box_of_items [OF b] by simp
      then show ?thesis
        using sum_list_change [OF dist, of i "getWeight its ?s" "getWeight its s"] getWeight_upd_item True w by simp
    next
      case False
      then have "i \<notin> set (itemlist b)"
        using assms(2) tree_kid [OF tree(1), of i x] tree_kid [OF tree(1), of i c] box_of_items [OF b] by (simp add: up_iff)
      then have "map (getWeight its ?s) (itemlist b) = map (getWeight its s) (itemlist b)"
        by (intro map_cong) (auto intro: getWeight_upd_item)
      then show ?thesis using False w by (simp del: map_eq_conv)
    qed
  qed
  then show ?thesis
    using upd tree by (simp add: box_inv_def)
qed

lemma tell_updated_inv [simp]:
  "box_inv its (tell_updated c n i j s) = box_inv its s" "items_of (tell_updated c n i j s) = items_of s"
  "parent_of (tell_updated c n i j s) = parent_of s"
  by (simp_all add: tell_updated_def box_inv_def) (simp_all add: box_tell_def items_of_def parent_of_def fun_eq_iff)

lemma index_in_iff: "index_in i n xs = -1 \<longleftrightarrow> i \<notin> set xs"
  by (induction i n xs rule: index_in.induct) auto

lemma index_in_nth: "i \<in> set xs \<Longrightarrow> \<exists>k. index_in i n xs = int (n + k) \<and> k < length xs \<and> xs ! k = i"
proof (induction i n xs rule: index_in.induct)
  case (2 i n x xs)
  show ?case
  proof (cases "x = i")
    case True
    then show ?thesis by (intro exI [of _ 0]) simp
  next
    case False
    then obtain k where "index_in i (Suc n) xs = int (Suc n + k)" "k < length xs" "xs ! k = i"
      using 2 by auto
    then show ?thesis
      using False by (intro exI [of _ "Suc k"]) simp
  qed
qed simp

lemma updateThing_keeps:
  assumes "box_inv its s"
  shows "\<exists>s'. updateThing its c i itemId count s = Some s' \<and> box_inv its s'"
proof (cases "i \<in> set (items_of s c)")
  case False
  then show ?thesis
    using assms by (simp add: updateThing_def getThingIndex_def index_in_iff)
next
  case True
  then show ?thesis
    using upd_item_weights [OF assms True, of "\<lambda>x. setSubType its (ucast count) (setID its itemId x)"]
    by (auto simp: updateThing_def getThingIndex_def index_in_iff Let_def)
qed

text \<open>Taking an item out: the code passes the weight up before it unlinks the item, which comes to the same.\<close>

definition unlinked :: "nat \<Rightarrow> nat \<Rightarrow> nat list \<Rightarrow> store \<Rightarrow> store" where
  "unlinked c i l s = upd_box c (\<lambda>b. b\<lparr>itemlist := l\<rparr>) (setParent i None s)"

lemma unlinked_simps:
  assumes "o_box (objs s c) = Some b" and "i \<noteq> c"
  shows "parent_of (unlinked c i l s) x = (if x = i then None else parent_of s x)"
    and "items_of (unlinked c i l s) x = (if x = c then l else items_of s x)"
    and "getWeight its (unlinked c i l s) x = getWeight its s x"
    and "o_box (objs (unlinked c i l s) x) = (if x = c then Some (b\<lparr>itemlist := l\<rparr>) else o_box (objs s x))"
  using assms by (auto simp: unlinked_def upd_box_def upd_obj_def setParent_def parent_of_def items_of_def getWeight_def split: option.splits)

lemma kid_not_anc:
  assumes "tree_ok s" and "(i, c) \<in> up s"
  shows "i \<notin> anc s c"
proof -
  obtain rank N where nest: "nested rank N s"
    using tree_nested [OF assms(1)] by blast
  then show ?thesis
    using rank_ups [of c i s rank N] rank_up [OF nest assms(2)] by (auto simp: anc_def)
qed

lemma anc_cong:
  assumes "\<And>x. x \<in> anc s c \<Longrightarrow> parent_of t x = parent_of s x"
  shows "anc t c = anc s c"
proof -
  have "(c, x) \<in> (up s)\<^sup>* \<Longrightarrow> (c, x) \<in> (up t)\<^sup>*" for x
  proof (induction rule: rtrancl_induct)
    case (step y z)
    then have "(y, z) \<in> up t"
      using assms [of y] by (simp add: up_iff anc_def)
    then show ?case using step.IH by (rule rtrancl_into_rtrancl [rotated])
  qed simp
  moreover have "(c, x) \<in> (up t)\<^sup>* \<Longrightarrow> (c, x) \<in> (up s)\<^sup>*" for x
  proof (induction rule: rtrancl_induct)
    case (step y z)
    then have "(y, z) \<in> up s"
      using assms [of y] by (simp add: up_iff anc_def)
    then show ?case using step.IH by (rule rtrancl_into_rtrancl [rotated])
  qed simp
  ultimately show ?thesis by (auto simp: anc_def)
qed

lemma unlinked_tree:
  assumes "tree_ok s" and "o_box (objs s c) = Some b" and "(i, c) \<in> up s"
    and "set l = set (itemlist b) - {i}" and "distinct l"
  shows "tree_ok (unlinked c i l s)"
proof -
  have ic: "i \<noteq> c"
    using kid_not_anc [OF assms(1,3)] by auto
  note us = unlinked_simps [OF assms(2) ic]
  have items: "items_of s c = itemlist b"
    by (rule box_of_items [OF assms(2)])
  obtain rank N where nest: "nested rank N s"
    using tree_nested [OF assms(1)] by blast
  then have "nested rank N (unlinked c i l s)"
    by (auto simp: nested_def up_iff us split: if_splits)
  moreover have "distinct (items_of (unlinked c i l s) x)" for x
    using assms(1,5) by (simp add: us tree_ok_def)
  moreover have "j \<in> set (items_of (unlinked c i l s) x) \<longleftrightarrow> parent_of (unlinked c i l s) j = Some (Box x)" for j x
    using assms(1) assms(3) assms(4) [folded items] by (auto simp: us tree_ok_def up_iff)
  ultimately show ?thesis
    by (auto simp: tree_ok_def)
qed

lemma remove_nth_set: "distinct xs \<Longrightarrow> n < length xs \<Longrightarrow> set (remove_nth n xs) = set xs - {xs ! n} \<and> distinct (remove_nth n xs)"
proof -
  assume d: "distinct xs" and n: "n < length xs"
  have xs: "xs = take n xs @ xs ! n # drop (Suc n) xs"
    using n by (rule id_take_nth_drop)
  have "distinct (take n xs @ xs ! n # drop (Suc n) xs)"
    using d xs by simp
  moreover have "set xs = set (take n xs @ xs ! n # drop (Suc n) xs)"
    using xs by simp
  ultimately show ?thesis
    unfolding remove_nth_def by auto
qed

lemma remove_nth_sum: "n < length xs \<Longrightarrow> sum_list (map w (remove_nth n xs)) + (w (xs ! n) :: u32) = sum_list (map w xs)"
proof -
  assume n: "n < length xs"
  have "sum_list (map w xs) = sum_list (map w (take n xs @ xs ! n # drop (Suc n) xs))"
    using id_take_nth_drop [OF n] by simp
  then show ?thesis
    by (simp add: remove_nth_def)
qed

lemma unlink_after_bump:
  assumes "i \<notin> A" and "c \<in> A" and "i \<noteq> c" and "o_box (objs s c) = Some b"
  shows "upd_box c (\<lambda>b. b\<lparr>itemlist := f (itemlist b)\<rparr>) (setParent i None (bumped d A s)) = bumped d A (unlinked c i (f (itemlist b)) s)"
  using assms by (auto simp: upd_box_def upd_obj_def setParent_def bumped_def unlinked_def bump_def fun_eq_iff)

lemma removal_keeps:
  assumes "box_inv its s" and "o_box (objs s c) = Some b" and "k < length (itemlist b)" and "itemlist b ! k = i"
  shows "\<exists>s'. updateItemWeight c (- getWeight its s i) s = Some s' \<and>
     box_inv its (upd_box c (\<lambda>b. b\<lparr>itemlist := remove_nth k (itemlist b)\<rparr>) (setParent i None s'))"
proof -
  let ?l = "remove_nth k (itemlist b)"
  let ?t = "unlinked c i ?l s"
  let ?d = "- getWeight its s i"
  have tree: "tree_ok s" using assms(1) by (simp add: box_inv_def)
  have items: "items_of s c = itemlist b" by (rule box_of_items [OF assms(2)])
  then have dist: "distinct (itemlist b)" using tree by (metis tree_ok_def)
  have kid: "(i, c) \<in> up s"
    using assms(3,4) items tree_kid [OF tree, of i c] nth_mem by auto
  then have na: "i \<notin> anc s c" by (rule kid_not_anc [OF tree])
  then have ic: "i \<noteq> c" by auto
  note us = unlinked_simps [OF assms(2) ic]
  obtain rank N where "nested rank N s"
    using tree_nested [OF tree] by blast
  then have upd: "updateItemWeight c ?d s = Some (bumped ?d (anc s c) s)"
    by (rule updateItemWeight_eq)
  have tt: "tree_ok ?t"
    using remove_nth_set [OF dist assms(3)] assms(4) by (intro unlinked_tree [OF tree assms(2) kid]) simp_all
  have anc: "anc ?t c = anc s c"
    using na by (intro anc_cong) (auto simp: us)
  have gw: "getWeight its ?t = getWeight its s"
    by (simp add: us fun_eq_iff)
  have "weights_ok its (bumped ?d (anc ?t c) ?t)"
  proof (rule weights_repaired [OF tt])
    show "o_box (objs ?t c) \<noteq> None" by (simp add: us)
    fix x b'
    assume b': "o_box (objs ?t x) = Some b'"
    show "totalWeight b' + (if x = c then ?d else 0) = sum_list (map (getWeight its ?t) (itemlist b'))"
    proof (cases "x = c")
      case True
      have "totalWeight b = sum_list (map (getWeight its s) ?l) + getWeight its s i"
        using assms(1,2) remove_nth_sum [OF assms(3), of "getWeight its s"] assms(4)
        by (simp add: box_inv_def weights_ok_def)
      moreover have "b' = b\<lparr>itemlist := ?l\<rparr>"
        using True b' by (simp add: us)
      ultimately show ?thesis
        unfolding gw using True by simp
    next
      case False
      then show ?thesis
        using assms(1) b' unfolding gw by (simp add: us box_inv_def weights_ok_def)
    qed
  qed
  then have "box_inv its (bumped ?d (anc s c) ?t)"
    using tt by (simp add: box_inv_def anc)
  then show ?thesis
    using upd unlink_after_bump [OF na anc_self ic assms(2), of "remove_nth k" ?d] by simp
qed

lemma removeThing_keeps:
  assumes "box_inv its s"
  shows "\<exists>s'. removeThing its c i count s = Some s' \<and> box_inv its s'"
proof (cases "i \<in> set (items_of s c)")
  case False
  then show ?thesis
    using assms by (simp add: removeThing_def getThingIndex_def index_in_iff)
next
  case True
  then obtain b where b: "o_box (objs s c) = Some b"
    using kids_box by blast
  obtain k where k: "getThingIndex s c i = int k" "k < length (itemlist b)" "itemlist b ! k = i"
    using index_in_nth [OF True, of 0] box_of_items [OF b] by (auto simp: getThingIndex_def)
  define newc where "newc = (ucast (if sint ((ucast (i_count (o_item (objs s i))) :: u32) - count) < 0 then 0
      else (ucast (i_count (o_item (objs s i))) :: u32) - count) :: byte)"
  show ?thesis
  proof (cases "it_stackable (its (i_id (o_item (objs s i)))) \<and> count \<noteq> ucast (i_count (o_item (objs s i)))")
    case stack: True
    then show ?thesis
      using upd_item_weights [OF assms True, of "\<lambda>x. x\<lparr>i_count := newc\<rparr>"] k(1)
      by (auto simp: removeThing_def Let_def newc_def)
  next
    case False
    obtain s' where s': "updateItemWeight c (- getWeight its s i) s = Some s'"
        "box_inv its (upd_box c (\<lambda>b. b\<lparr>itemlist := remove_nth k (itemlist b)\<rparr>) (setParent i None s'))"
      using removal_keeps [OF assms b k(2,3)] by blast
    have "upd_box c f (setParent i None (box_tell n s')) = box_tell n (upd_box c f (setParent i None s'))" for f n
      by (simp add: upd_box_def upd_obj_def setParent_def box_tell_def)
    then show ?thesis
      using False s' k(1) by (auto simp: removeThing_def Let_def box_inv_def)
  qed
qed

lemma update_sum:
  "n < length xs \<Longrightarrow> sum_list (map w (xs[n := i])) = sum_list (map w xs) + (- w (xs ! n) + (w i :: u32))"
proof -
  assume n: "n < length xs"
  have "sum_list (map w xs) = sum_list (map w (take n xs @ xs ! n # drop (Suc n) xs))"
    using id_take_nth_drop [OF n] by simp
  then show ?thesis
    using n by (simp add: upd_conv_take_nth_drop algebra_simps)
qed

lemma update_set:
  "distinct xs \<Longrightarrow> n < length xs \<Longrightarrow> i \<notin> set xs \<Longrightarrow>
   set (xs[n := i]) = insert i (set (remove_nth n xs)) \<and> distinct (xs[n := i])"
proof -
  assume d: "distinct xs" and n: "n < length xs" and i: "i \<notin> set xs"
  have u: "xs[n := i] = take n xs @ i # drop (Suc n) xs"
    using n by (simp add: upd_conv_take_nth_drop)
  have "distinct (take n xs @ drop (Suc n) xs)"
    using remove_nth_set [OF d n] by (simp add: remove_nth_def)
  moreover have "i \<notin> set (take n xs)" "i \<notin> set (drop (Suc n) xs)"
    using i by (auto dest: in_set_takeD in_set_dropD)
  ultimately show ?thesis
    unfolding u remove_nth_def by auto
qed

lemma swap_states:
  assumes "o_box (objs s c) = Some b" and "i \<noteq> c" and "r \<noteq> c" and "i \<noteq> r" and "r \<notin> A" and "c \<in> A"
  shows "setParent i (Some (Box c)) (upd_box c (\<lambda>b. b\<lparr>itemlist := (itemlist b)[k := i]\<rparr>) s) = linked c i ((itemlist b)[k := i]) s"
    and "setParent r None (bumped d A (linked c i l s)) = bumped d A (linked c i l (unlinked c r m s))"
  using assms by (auto simp: upd_box_def upd_obj_def setParent_def linked_def unlinked_def bumped_def bump_def fun_eq_iff)

text \<open>The tree with one item exchanged for another.\<close>

lemma exchanged_tree:
  assumes "tree_ok s" and b: "o_box (objs s c) = Some b" and "free s i" and "i \<notin> anc s c"
    and k: "k < length (itemlist b)" "itemlist b ! k = r"
  defines "t \<equiv> linked c i ((itemlist b)[k := i]) (unlinked c r (remove_nth k (itemlist b)) s)"
  shows "tree_ok t" and "anc t c = anc s c" and "r \<notin> anc s c" and "i \<noteq> r" and "\<And>x. getWeight its t x = getWeight its s x"
    and "\<And>x. o_box (objs t x) = (if x = c then Some (b\<lparr>itemlist := (itemlist b)[k := i]\<rparr>) else o_box (objs s x))"
proof -
  have items: "items_of s c = itemlist b" by (rule box_of_items [OF b])
  then have dist: "distinct (itemlist b)" using assms(1) by (metis tree_ok_def)
  have kid: "(r, c) \<in> up s"
    using k items tree_kid [OF assms(1), of r c] nth_mem by auto
  show ra: "r \<notin> anc s c" by (rule kid_not_anc [OF assms(1) kid])
  have rc: "r \<noteq> c" and ic: "i \<noteq> c" using ra assms(4) by auto
  have i: "i \<notin> set (itemlist b)"
    using free_not_kid [OF assms(1,3), of c] items by simp
  then show ir: "i \<noteq> r" using k by auto
  let ?u = "unlinked c r (remove_nth k (itemlist b)) s"
  note us = unlinked_simps [OF b rc]
  have ub: "o_box (objs ?u c) = Some (b\<lparr>itemlist := remove_nth k (itemlist b)\<rparr>)"
    by (simp add: us)
  note ls = linked_simps [OF ub ic]
  have ut: "tree_ok ?u"
    using remove_nth_set [OF dist k(1)] k(2) by (intro unlinked_tree [OF assms(1) b kid]) simp_all
  have ua: "anc ?u c = anc s c"
    using ra by (intro anc_cong) (auto simp: us)
  have "free ?u i"
    using assms(3) by (simp add: free_def getParentContainer_def us)
  then show "tree_ok t"
    unfolding t_def using update_set [OF dist k(1) i] assms(4) ua by (intro linked_tree [OF ut ub]) simp_all
  show "anc t c = anc s c"
    unfolding t_def ua [symmetric] using assms(4) ua by (intro anc_cong) (auto simp: ls)
  show "getWeight its t x = getWeight its s x" for x
    unfolding t_def by (simp add: ls us)
  show "o_box (objs t x) = (if x = c then Some (b\<lparr>itemlist := (itemlist b)[k := i]\<rparr>) else o_box (objs s x))" for x
    unfolding t_def by (simp add: ls us)
qed

lemma replaceThing_keeps:
  assumes "box_inv its s" and b: "o_box (objs s c) = Some b" and "free s i" and "i \<notin> anc s c"
  shows "\<exists>s'. replaceThing its c k i s = Some s' \<and> box_inv its s'"
proof (cases "k < length (itemlist b)")
  case False
  then show ?thesis
    using assms by (simp add: replaceThing_def getItemByIndex_def box_of_items)
next
  case True
  define r where "r = itemlist b ! k"
  let ?l = "(itemlist b)[k := i]"
  let ?t = "linked c i ?l (unlinked c r (remove_nth k (itemlist b)) s)"
  let ?d = "- getWeight its s r + getWeight its s i"
  have tree: "tree_ok s" using assms(1) by (simp add: box_inv_def)
  note ex = exchanged_tree [OF tree b assms(3,4) True r_def [symmetric]]
  have ic: "i \<noteq> c" and rc: "r \<noteq> c" using assms(4) ex(3) by auto
  note ls = linked_simps [OF b ic]
  obtain rank N where "nested rank N s" using tree_nested [OF tree] by blast
  then obtain rank' N' where "nested rank' N' (linked c i ?l s)"
    using linked_nested [OF _ b assms(3,4)] by blast
  then have upd: "updateItemWeight c ?d (linked c i ?l s) = Some (bumped ?d (anc (linked c i ?l s) c) (linked c i ?l s))"
    by (rule updateItemWeight_eq)
  have anc1: "anc (linked c i ?l s) c = anc s c"
    using assms(4) by (intro anc_cong) (auto simp: ls)
  have "weights_ok its (bumped ?d (anc ?t c) ?t)"
  proof (rule weights_repaired [OF ex(1)])
    show "o_box (objs ?t c) \<noteq> None" by (simp add: ex(6))
    fix x b'
    assume b': "o_box (objs ?t x) = Some b'"
    have gw: "getWeight its ?t = getWeight its s" by (simp add: ex(5) fun_eq_iff)
    show "totalWeight b' + (if x = c then ?d else 0) = sum_list (map (getWeight its ?t) (itemlist b'))"
    proof (cases "x = c")
      case True
      then have "b' = b\<lparr>itemlist := ?l\<rparr>" using b' by (simp add: ex(6))
      then show ?thesis
        unfolding gw using True assms(1) b update_sum [OF \<open>k < length (itemlist b)\<close>, of "getWeight its s" i]
        by (simp add: box_inv_def weights_ok_def r_def)
    next
      case False
      then show ?thesis
        unfolding gw using assms(1) b' by (simp add: ex(6) box_inv_def weights_ok_def)
    qed
  qed
  then have inv: "box_inv its (bumped ?d (anc s c) ?t)"
    using ex(1,2) by (simp add: box_inv_def)
  have "setParent r None (tell_updated c k r i s') = tell_updated c k r i (setParent r None s')" for s'
    using rc by (simp add: tell_updated_def setParent_def upd_obj_def box_tell_def parent_of_def)
  then have "replaceThing its c k i s = Some (tell_updated c k r i (setParent r None (bumped ?d (anc s c) (linked c i ?l s))))"
    using True upd anc1 b
    by (simp add: replaceThing_def getItemByIndex_def box_of_items r_def [symmetric] swap_states(1) [OF b ic rc ex(4,3) anc_self] ls Let_def)
  then show ?thesis
    using inv swap_states(2) [OF b ic rc ex(4,3) anc_self, of ?d ?l "remove_nth k (itemlist b)"] by simp
qed

subsection \<open>No container inside itself\<close>

lemma climbs_finds:
  assumes "(c, i) \<in> (up s)\<^sup>+" and "climbs s i (parent_of s c) = Some r"
  shows "r"
  using assms
proof (induction rule: converse_trancl_induct)
  case (base y)
  then show ?case by (simp add: up_iff climbs.simps)
next
  case (step y z)
  then have p: "parent_of s y = Some (Box z)" by (simp add: up_iff)
  show ?case
  proof (cases "z = i")
    case True
    then show ?thesis using step.prems p by (simp add: climbs.simps)
  next
    case False
    then have "climbs s i (parent_of s z) = Some r"
      using step.prems p by (simp add: climbs.simps cyl_parent_def)
    then show ?thesis using step.IH by blast
  qed
qed

lemma queryAdd_no_cycle:
  assumes "queryAdd its outQuery s c index i count flags = Some RETURNVALUE_NOERROR" and "\<not> flag_set FLAG_CHILDISOWNER flags"
  shows "i \<notin> anc s c" and "\<exists>b. o_box (objs s c) = Some b"
proof -
  obtain b where b: "o_box (objs s c) = Some b"
    using assms by (auto simp: queryAdd_def split: option.splits)
  then show "\<exists>b. o_box (objs s c) = Some b" by blast
  have "i \<noteq> c" and "climbs s i (parent_of s c) = Some False"
    using assms b by (auto simp: queryAdd_def split: if_splits option.splits bool.splits)
  then show "i \<notin> anc s c"
    using climbs_finds [of c i s False] by (auto simp: anc_def rtrancl_eq_or_trancl)
qed

text \<open>The queries return on every store whose parent chains end, outside the containers too.\<close>

definition outer_ok :: "store \<Rightarrow> bool" where
  "outer_ok s \<longleftrightarrow> (\<exists>h :: nat \<Rightarrow> nat. \<forall>n m. outer s n = Some m \<longrightarrow> h m < h n)"

lemma climbs_outside:
  assumes "\<And>n m. outer s n = Some m \<Longrightarrow> (h :: nat \<Rightarrow> nat) m < h n"
  shows "\<exists>r. climbs s i (Some (Out n)) = Some r"
proof (induction "h n" arbitrary: n rule: less_induct)
  case less
  show ?case
  proof (cases "outer s n")
    case None
    then show ?thesis by (intro exI [of _ False]) (simp add: climbs.simps cyl_parent_def)
  next
    case (Some m)
    then show ?thesis
      using less [OF assms [OF Some]] by (simp add: climbs.simps [of s i "Some (Out n)"] cyl_parent_def)
  qed
qed

lemma climbs_returns:
  assumes "nested rank N s" and "outer_ok s"
  shows "\<exists>r. climbs s i (parent_of s c) = Some r"
proof (induction "N - rank c" arbitrary: c rule: less_induct)
  case less
  obtain h :: "nat \<Rightarrow> nat" where h: "\<And>n m. outer s n = Some m \<Longrightarrow> h m < h n"
    using assms(2) by (auto simp: outer_ok_def)
  show ?case
  proof (cases "parent_of s c")
    case None
    then show ?thesis by (intro exI [of _ False]) (simp add: climbs.simps)
  next
    case (Some d)
    show ?thesis
    proof (cases d)
      case (Out n)
      then show ?thesis using climbs_outside [of s h i n] h Some by simp
    next
      case (Box p)
      have "rank c < rank p" "rank p \<le> N"
        using assms(1) Some Box by (auto simp: nested_def up_iff)
      then have "\<exists>r. climbs s i (parent_of s p) = Some r"
        by (intro less) simp
      then show ?thesis
        using Some Box by (auto simp: climbs.simps [of s i "Some (Box p)"] cyl_parent_def)
    qed
  qed
qed

lemma top_outside:
  assumes "\<And>n m. outer s n = Some m \<Longrightarrow> (h :: nat \<Rightarrow> nat) m < h n"
  shows "\<exists>r. top_loop s prev (Out n) = Some r"
proof (induction "h n" arbitrary: n prev rule: less_induct)
  case less
  show ?case
  proof (cases "outer s n")
    case None
    then show ?thesis by (simp add: top_loop.simps cyl_parent_def)
  next
    case (Some m)
    then show ?thesis
      using less [OF assms [OF Some]] by (simp add: top_loop.simps [of s prev] cyl_parent_def)
  qed
qed

lemma top_returns:
  assumes "nested rank N s" and "outer_ok s"
  shows "\<exists>r. top_loop s prev (Box c) = Some r"
proof (induction "N - rank c" arbitrary: c prev rule: less_induct)
  case less
  obtain h :: "nat \<Rightarrow> nat" where h: "\<And>n m. outer s n = Some m \<Longrightarrow> h m < h n"
    using assms(2) by (auto simp: outer_ok_def)
  show ?case
  proof (cases "parent_of s c")
    case None
    then show ?thesis by (simp add: top_loop.simps cyl_parent_def)
  next
    case (Some d)
    show ?thesis
    proof (cases d)
      case (Out n)
      then show ?thesis
        using top_outside [of s h "Box c" n] h Some by (simp add: top_loop.simps [of s prev] cyl_parent_def)
    next
      case (Box p)
      have "rank c < rank p" "rank p \<le> N"
        using assms(1) Some Box by (auto simp: nested_def up_iff)
      then have "\<exists>r. top_loop s (Box c) (Box p) = Some r"
        by (intro less) simp
      then show ?thesis
        using Some Box by (simp add: top_loop.simps [of s prev] cyl_parent_def)
    qed
  qed
qed

lemma queryAdd_returns:
  assumes "tree_ok s" and "outer_ok s" and "o_box (objs s c) = Some b"
  shows "\<exists>r. queryAdd its outQuery s c index i count flags = Some r"
proof -
  obtain rank N where nest: "nested rank N s"
    using tree_nested [OF assms(1)] by blast
  obtain h :: "nat \<Rightarrow> nat" where h: "\<And>n m. outer s n = Some m \<Longrightarrow> h m < h n"
    using assms(2) by (auto simp: outer_ok_def)
  have "\<exists>t. getTopParent s c = Some t"
  proof (cases "parent_of s c")
    case (Some d)
    then show ?thesis
      using top_returns [OF nest assms(2), of "Box c"] top_outside [of s h "Box c"] h
      by (cases d) (auto simp: getTopParent_def)
  qed (simp add: getTopParent_def)
  then show ?thesis
    using climbs_returns [OF nest assms(2), of i c] assms(3)
    by (auto simp: queryAdd_def split: bool.splits cyl.splits)
qed

subsection \<open>Histories\<close>

text \<open>What the game does with containers: an item that is in no container goes into one that answered \<open>queryAdd\<close> without error, items are
  changed, removed and exchanged (for an item that the container was asked about, or, as \<open>Game::transformItem\<close> does without asking, for one that was
  just created and holds nothing), and loose items move between other cylinders.\<close>

inductive box_reach :: "item_table \<Rightarrow> out_query \<Rightarrow> store \<Rightarrow> bool" for its outQuery where
  start: "(\<And>x. parent_of s x = None) \<Longrightarrow> (\<And>x. items_of s x = []) \<Longrightarrow> (\<And>x b. o_box (objs s x) = Some b \<Longrightarrow> totalWeight b = 0)
     \<Longrightarrow> box_reach its outQuery s"
| add: "box_reach its outQuery s \<Longrightarrow> free s i \<Longrightarrow> \<not> flag_set FLAG_CHILDISOWNER flags
     \<Longrightarrow> queryAdd its outQuery s c index i count flags = Some RETURNVALUE_NOERROR
     \<Longrightarrow> addThing its c index i s = Some s' \<Longrightarrow> box_reach its outQuery s'"
| add_back: "box_reach its outQuery s \<Longrightarrow> free s i \<Longrightarrow> \<not> flag_set FLAG_CHILDISOWNER flags
     \<Longrightarrow> queryAdd its outQuery s c index i count flags = Some RETURNVALUE_NOERROR
     \<Longrightarrow> addItemBack its c i s = Some s' \<Longrightarrow> box_reach its outQuery s'"
| replace: "box_reach its outQuery s \<Longrightarrow> free s i \<Longrightarrow> \<not> flag_set FLAG_CHILDISOWNER flags
     \<Longrightarrow> queryAdd its outQuery s c (int index) i count flags = Some RETURNVALUE_NOERROR
     \<Longrightarrow> replaceThing its c index i s = Some s' \<Longrightarrow> box_reach its outQuery s'"
| transform: "box_reach its outQuery s \<Longrightarrow> free s i \<Longrightarrow> items_of s i = [] \<Longrightarrow> i \<noteq> c \<Longrightarrow> o_box (objs s c) = Some b
     \<Longrightarrow> replaceThing its c index i s = Some s' \<Longrightarrow> box_reach its outQuery s'"
| update: "box_reach its outQuery s \<Longrightarrow> updateThing its c i itemId n s = Some s' \<Longrightarrow> box_reach its outQuery s'"
| remove: "box_reach its outQuery s \<Longrightarrow> removeThing its c i n s = Some s' \<Longrightarrow> box_reach its outQuery s'"
| carry: "box_reach its outQuery s \<Longrightarrow> free s i \<Longrightarrow> (\<And>c. d \<noteq> Some (Box c)) \<Longrightarrow> box_reach its outQuery (setParent i d s)"

lemma setParent_out:
  assumes "box_inv its s" and "free s i" and "\<And>c. d \<noteq> Some (Box c)"
  shows "box_inv its (setParent i d s)"
proof -
  have p: "parent_of (setParent i d s) x = (if x = i then d else parent_of s x)" for x
    by (simp add: setParent_def upd_obj_def parent_of_def)
  have q: "items_of (setParent i d s) = items_of s"
    by (simp add: setParent_def upd_obj_def items_of_def fun_eq_iff)
  have u: "up (setParent i d s) = up s"
  proof -
    have "\<forall>c. d \<noteq> Some (Box c)" using assms(3) by blast
    then show ?thesis
      using assms(2) by (auto simp: up_def p free_top split: if_splits)
  qed
  have "getWeight its (setParent i d s) = getWeight its s"
    by (simp add: setParent_def upd_obj_def getWeight_def fun_eq_iff)
  moreover have "o_box (objs (setParent i d s) x) = o_box (objs s x)" for x
    by (simp add: setParent_def upd_obj_def)
  moreover have "j \<in> set (items_of s c) \<longleftrightarrow> parent_of (setParent i d s) j = Some (Box c)" if "tree_ok s" for j c
    using tree_kid [OF that, of j c] u by (simp add: up_iff [symmetric])
  ultimately show ?thesis
    using assms(1) by (auto simp: box_inv_def tree_ok_def weights_ok_def q nested_def u)
qed

lemma box_reach_inv: "box_reach its outQuery s \<Longrightarrow> box_inv its s"
proof (induction rule: box_reach.induct)
  case (start s)
  have "itemlist b = []" if "o_box (objs s x) = Some b" for x b
    using start(2) [of x] that by (simp add: items_of_def)
  then show ?case
    using start by (auto simp: box_inv_def tree_ok_def weights_ok_def nested_def up_iff intro!: exI [of _ "\<lambda>_. 0"])
next
  case (add s i flags c index count s')
  obtain b where "o_box (objs s c) = Some b" "i \<notin> anc s c"
    using queryAdd_no_cycle [OF add(4,3)] by blast
  then show ?case using addThing_keeps [of its s c b i index] add by auto
next
  case (add_back s i flags c index count s')
  obtain b where "o_box (objs s c) = Some b" "i \<notin> anc s c"
    using queryAdd_no_cycle [OF add_back(4,3)] by blast
  then show ?case using addItemBack_keeps [of its s c b i] add_back by auto
next
  case (replace s i flags c index count s')
  obtain b where "o_box (objs s c) = Some b" "i \<notin> anc s c"
    using queryAdd_no_cycle [OF replace(4,3)] by blast
  then show ?case using replaceThing_keeps [of its s c b i index] replace by auto
next
  case (transform s i c b index s')
  have "i \<notin> anc s c"
  proof
    assume "i \<in> anc s c"
    then obtain x where "(x, i) \<in> up s" using transform(4) by (auto simp: anc_def elim: rtranclE)
    then have "x \<in> set (items_of s i)" using transform.IH by (simp add: box_inv_def tree_ok_def up_iff)
    then show False using transform(3) by simp
  qed
  then show ?case using replaceThing_keeps [of its s c b i index] transform by auto
next
  case (update s c i itemId n s')
  then show ?case using updateThing_keeps [of its s c i itemId n] by auto
next
  case (remove s c i n s')
  then show ?case using removeThing_keeps [of its s c i n] by auto
next
  case (carry s i d)
  then show ?case by (intro setParent_out)
qed

subsection \<open>Main result\<close>

text \<open>C19: After any sequence of additions, replacements, updates, removals and moves of loose items, where each addition was allowed by
  \<open>queryAdd\<close> (a new empty item may replace another without): no item occurs twice in a container, the item lists and the parent pointers agree, no container is inside itself,
  the cached weight of every container is the sum of the weights of its items, and \<open>queryAdd\<close> returns on every container.\<close>

theorem containers_consistent:
  assumes "box_reach its outQuery s"
  shows "distinct (items_of s c)
    \<and> (i \<in> set (items_of s c) \<longleftrightarrow> getParentContainer s i = Some c)
    \<and> (c, c) \<notin> {(x, y). getParentContainer s x = Some y}\<^sup>+
    \<and> (\<forall>b. o_box (objs s c) = Some b \<longrightarrow>
          totalWeight b = sum_list (map (getWeight its s) (itemlist b))
          \<and> (outer_ok s \<longrightarrow> (\<exists>r. queryAdd its outQuery s c index i n flags = Some r)))"
proof (intro conjI allI impI)
  have t: "tree_ok s" and w: "weights_ok its s"
    using box_reach_inv [OF assms] by (simp_all add: box_inv_def)
  show "(c, c) \<notin> {(x, y). getParentContainer s x = Some y}\<^sup>+"
    using ups_acyclic [OF t] by (simp add: up_def getParentContainer_iff)
  show "distinct (items_of s c)" "i \<in> set (items_of s c) \<longleftrightarrow> getParentContainer s i = Some c"
    using t by (simp_all add: tree_ok_def getParentContainer_iff)
  fix b assume b: "o_box (objs s c) = Some b"
  show "totalWeight b = sum_list (map (getWeight its s) (itemlist b))"
    using w b by (simp add: weights_ok_def)
  show "\<exists>r. queryAdd its outQuery s c index i n flags = Some r" if "outer_ok s"
    using queryAdd_returns [OF t that b] .
qed

text \<open>A bag of capacity 8 goes into another one.\<close>

definition bag_table :: item_table where
  "bag_table = (\<lambda>_. \<lparr>it_stackable = False, it_fluid = False, it_charges = 0, it_moveable = True, it_pickupable = True,
     it_weight = 800, it_decayTime = 0, it_stopTime = False, it_decayTo = -1\<rparr>)"

definition bags :: store where
  "bags = \<lparr>objs = \<lambda>_. new_Container 1988 8, outer = \<lambda>_. None, told = []\<rparr>"

definition packed :: store where
  "packed = bumped 800 {1} (push_front 1 2 (setParent 2 (Some (Box 1)) bags))"

lemmas bag_defs = bag_table_def bags_def packed_def new_Container_def parent_of_def items_of_def getParentContainer_def getWeight_def
  item_getWeight_def getBaseWeight_def item_has_def push_front_def upd_box_def setParent_def upd_obj_def cap_def

lemma packed_reach: "box_reach bag_table (\<lambda>_ _ _ _. RETURNVALUE_NOERROR) packed"
proof (rule box_reach.add)
  show "box_reach bag_table (\<lambda>_ _ _ _. RETURNVALUE_NOERROR) bags"
    by (rule box_reach.start) (auto simp: bag_defs)
  show "free bags 2" "\<not> flag_set FLAG_CHILDISOWNER 0"
    by (simp_all add: free_def bag_defs flag_set_def)
  show "queryAdd bag_table (\<lambda>_ _ _ _. RETURNVALUE_NOERROR) bags 1 0 2 1 0 = Some RETURNVALUE_NOERROR"
    by (simp add: queryAdd_def climbs.simps [of _ _ None] getTopParent_def bag_defs flag_set_def INDEX_WHEREEVER_def)
  show "addThing bag_table 1 0 2 bags = Some packed"
    by (simp add: addThing_def updateItemWeight.simps upd_box_bumped tell_added_def bag_defs bumped_def bump_def fun_eq_iff)
qed

theorem containers_consistent_witness:
  "items_of packed 1 = [2] \<and> getParentContainer packed 2 = Some 1 \<and> (1, 1) \<notin> {(x, y). getParentContainer packed x = Some y}\<^sup>+
    \<and> totalWeight (the (o_box (objs packed 1))) = 800
    \<and> totalWeight (the (o_box (objs packed 1))) = sum_list (map (getWeight bag_table packed) [2])"
proof -
  have o: "items_of packed 1 = [2]" "o_box (objs packed 1) = Some \<lparr>maxSize = 8, totalWeight = 800, itemlist = [2], unlocked = True\<rparr>"
    by (simp_all add: bag_defs bumped_def bump_def)
  then show ?thesis
    using containers_consistent [OF packed_reach, of 1 2] by auto
qed

end
