(* ===== verification/Container_Iterator.thy ===== *)
theory Container_Iterator
  imports Container_Tree "HOL-Library.Multiset"
begin

section \<open>Walking through nested containers\<close>

text \<open>
  The breadth-first \<open>ContainerIterator\<close> against a tree of references (\<open>itree\<close>) that describes the contents of a container:
  the walk of the code is the breadth-first listing of that tree, which has the same elements as its plain traversal.
\<close>

subsection \<open>The iterator visits every nested item once\<close>

text \<open>The contents of a container as a tree of references, and what a breadth-first walk over a queue of trees visits.\<close>

datatype itree = Node (root: nat) (kids: "itree list")

primrec shape :: "store \<Rightarrow> itree \<Rightarrow> bool" where
  "shape s (Node r ts) \<longleftrightarrow> items_of s r = map root ts \<and> list_all (\<lambda>x. x) (map (shape s) ts)"

primrec inside :: "itree \<Rightarrow> nat list" where
  "inside (Node r ts) = concat (map (\<lambda>t. root t # inside t) ts)"

function bfs :: "itree list \<Rightarrow> nat list" where
  "bfs [] = []"
| "bfs (Node r ts # q) = map root ts @ bfs (q @ filter (\<lambda>t. kids t \<noteq> []) ts)"
  by pat_completeness auto
termination
proof (relation "measure (\<lambda>q. sum_list (map size q))", goal_cases)
  case (2 r ts q)
  have "sum_list (map size (filter P ts)) \<le> size_list size ts" for P
    by (induction ts) auto
  then show ?case by (simp add: le_imp_less_Suc)
qed simp

lemma tree_exists:
  assumes "tree_ok s"
  shows "\<exists>t. root t = c \<and> shape s t"
proof -
  obtain rank N where nest: "nested rank N s"
    using tree_nested [OF assms] by blast
  show ?thesis
  proof (induction "rank c" arbitrary: c rule: less_induct)
    case less
    have "\<exists>t. root t = i \<and> shape s t" if "i \<in> set (items_of s c)" for i
      using less [of i] rank_up [OF nest] that tree_kid [OF assms] by blast
    then obtain f where f: "\<And>i. i \<in> set (items_of s c) \<Longrightarrow> root (f i) = i \<and> shape s (f i)"
      by metis
    have "shape s (Node c (map f (items_of s c)))"
      using f by (simp add: list_all_iff map_idI)
    then show ?case by (intro exI [of _ "Node c (map f (items_of s c))"]) simp
  qed
qed

lemma mset_bfs: "mset (bfs q) = mset (concat (map inside q))"
proof (induction q rule: bfs.induct)
  case (2 r ts q)
  have "mset (concat (map inside (filter (\<lambda>t. kids t \<noteq> []) ts))) = mset (concat (map inside ts))"
  proof (induction ts)
    case (Cons t ts)
    then show ?case by (cases t) auto
  qed simp
  moreover have "mset (concat (map (\<lambda>t. root t # inside t) ts)) = mset (map root ts) + mset (concat (map inside ts))"
    by (induction ts) auto
  ultimately show ?case
    using 2 by simp
qed simp

text \<open>The iterator standing at position \<open>k\<close> of the first container of its queue: it finishes that list, appending
  the non-empty containers it meets, and goes on with the rest.\<close>


definition busy :: "itree list \<Rightarrow> itree list" where
  "busy ts = filter (\<lambda>t. kids t \<noteq> []) ts"

lemma advance_spec:
  assumes "shape s (Node r ts)" and "k < length ts" and "shape s (ts ! k)"
  shows "advance s (r # map root q, k) =
     (let over = q @ busy [ts ! k] in if Suc k = length ts then (map root over, 0) else (r # map root over, Suc k))"
proof -
  have "current s (r # map root q, k) = root (ts ! k)"
    using assms by (simp add: current_def)
  moreover have "items_of s (root (ts ! k)) = map root (kids (ts ! k))"
    using assms(3) by (cases "ts ! k") simp
  moreover have "o_box (objs s i) \<noteq> None" if "items_of s i \<noteq> []" for i
    using that by (cases "o_box (objs s i)") (auto simp: items_of_def)
  ultimately show ?thesis
    using assms by (auto simp: advance_def Let_def busy_def)
qed

lemma visit_spec:
  assumes "shape s (Node r ts)" and "list_all (shape s) q" and "list_all (\<lambda>t. kids t \<noteq> []) q" and "k < length ts"
  shows "visit s (r # map root q, k) = Some (map root (drop k ts) @ bfs (q @ busy (drop k ts)))"
  using assms
proof (induction "sum_list (map size q) + size_list size (drop k ts)" arbitrary: r ts q k rule: less_induct)
  case less
  have d: "drop k ts = ts ! k # drop (Suc k) ts"
    using less.prems by (simp add: Cons_nth_drop_Suc)
  have sh: "shape s (ts ! k)"
    using less.prems by (simp add: list_all_iff)
  define over where "over = q @ busy [ts ! k]"
  have over: "list_all (shape s) over" "list_all (\<lambda>t. kids t \<noteq> []) over"
    "sum_list (map size over) \<le> sum_list (map size q) + size (ts ! k)"
    using less.prems sh by (auto simp: over_def busy_def)
  have b: "q @ busy (drop k ts) = over @ busy (drop (Suc k) ts)"
    unfolding d over_def busy_def by simp
  have go: "visit s (r # map root q, k) = Option.bind (visit s (advance s (r # map root q, k))) (\<lambda>xs. Some (root (ts ! k) # xs))"
    using less.prems by (subst visit.simps) (simp add: hasNext_def current_def)
  have adv: "advance s (r # map root q, k) = (if Suc k = length ts then (map root over, 0) else (r # map root over, Suc k))"
    using advance_spec [of s r ts k q] less.prems sh by (simp add: over_def Let_def)
  show ?case
  proof (cases "Suc k = length ts")
    case False
    then have "visit s (r # map root over, Suc k) = Some (map root (drop (Suc k) ts) @ bfs (over @ busy (drop (Suc k) ts)))"
      using less.prems over d by (intro less.hyps) auto
    then show ?thesis using False go adv b by (simp add: d)
  next
    case True
    have "visit s (map root over, 0) = Some (bfs over)"
    proof (cases over)
      case Nil
      then show ?thesis by (simp add: visit.simps hasNext_def)
    next
      case (Cons t rest)
      obtain r' ts' where t: "t = Node r' ts'" by (cases t)
      have "visit s (r' # map root rest, 0) = Some (map root (drop 0 ts') @ bfs (rest @ busy (drop 0 ts')))"
        using over d Cons t by (intro less.hyps) auto
      then show ?thesis using Cons t by (simp add: busy_def)
    qed
    then show ?thesis using True go adv b by (simp add: d busy_def)
  qed
qed

lemma visit_iterator:
  assumes "shape s t"
  shows "visit s (iterator s (root t)) = Some (bfs [t])"
proof (cases t)
  case (Node r ts)
  show ?thesis
  proof (cases "ts = []")
    case True
    then show ?thesis using assms Node by (simp add: iterator_def visit.simps hasNext_def)
  next
    case False
    then show ?thesis using assms Node visit_spec [of s r ts "[]" 0] by (simp add: iterator_def busy_def)
  qed
qed

lemma holding_visit: "visit s it = Some xs \<Longrightarrow> holding_loop s i it = Some (i \<in> set xs)"
proof (induction xs arbitrary: it)
  case Nil
  then show ?case by (subst holding_loop.simps) (auto simp: visit.simps [of s it] split: if_splits bind_splits)
next
  case (Cons x xs)
  then have "hasNext it" "x = current s it" "visit s (advance s it) = Some xs"
    by (auto simp: visit.simps [of s it] split: if_splits bind_splits)
  then show ?case using Cons.IH [of "advance s it"] by (subst holding_loop.simps) auto
qed

text \<open>The nested items are those with the container among their parents, each once.\<close>

lemma inside_up:
  assumes "tree_ok s" and "shape s t"
  shows "i \<in> set (inside t) \<longleftrightarrow> (i, root t) \<in> (up s)\<^sup>+"
  using assms(2)
proof (induction t)
  case (Node r ts)
  have kid: "(j, r) \<in> up s \<longleftrightarrow> j \<in> root ` set ts" for j
    using tree_kid [OF assms(1), of j r] Node.prems by auto
  have "(i, r) \<in> (up s)\<^sup>+ \<longleftrightarrow> (i, r) \<in> up s \<or> (\<exists>j. (i, j) \<in> (up s)\<^sup>+ \<and> (j, r) \<in> up s)"
    by (metis trancl.simps)
  also have "\<dots> \<longleftrightarrow> (\<exists>t \<in> set ts. i = root t \<or> (i, root t) \<in> (up s)\<^sup>+)"
    by (auto simp: kid)
  also have "\<dots> \<longleftrightarrow> i \<in> set (inside (Node r ts))"
    using Node by (auto simp: list_all_iff)
  finally show ?case by simp
qed

lemma ups_comparable:
  assumes "(x, a) \<in> (up s)\<^sup>*" and "(x, b) \<in> (up s)\<^sup>*"
  shows "(a, b) \<in> (up s)\<^sup>* \<or> (b, a) \<in> (up s)\<^sup>*"
  using assms
proof (induction rule: converse_rtrancl_induct)
  case (step y z)
  then show ?case
    by (metis converse_rtranclE rtrancl.simps converse_rtrancl_into_rtrancl single_valuedD up_single)
qed simp

lemma siblings_apart:
  assumes "nested rank N s" and "(a, r) \<in> up s" and "(b, r) \<in> up s" and "a \<noteq> b"
  shows "(a, b) \<notin> (up s)\<^sup>*"
proof
  assume "(a, b) \<in> (up s)\<^sup>*"
  then obtain c where "(a, c) \<in> up s" "(c, b) \<in> (up s)\<^sup>*"
    using assms(4) by (auto elim: converse_rtranclE)
  then have "(r, b) \<in> (up s)\<^sup>*"
    using assms(2) up_single single_valuedD by metis
  then show False
    using rank_ups [OF _ assms(1)] rank_up [OF assms(1,3)] by fastforce
qed

lemma distinct_concat_map:
  assumes "distinct (map k ts)" and "\<And>t. t \<in> set ts \<Longrightarrow> distinct (g t)"
    and "\<And>t u. t \<in> set ts \<Longrightarrow> u \<in> set ts \<Longrightarrow> k t \<noteq> k u \<Longrightarrow> set (g t) \<inter> set (g u) = {}"
  shows "distinct (concat (map g ts))"
  using assms
proof (induction ts)
  case (Cons t ts)
  have "set (g t) \<inter> set (g u) = {}" if "u \<in> set ts" for u
    using Cons.prems(1) that by (intro Cons.prems(3)) auto
  then show ?case using Cons by auto
qed simp

lemma distinct_inside:
  assumes "tree_ok s" and "shape s t"
  shows "distinct (inside t)"
  using assms(2)
proof (induction t)
  case (Node r ts)
  obtain rank N where nest: "nested rank N s"
    using tree_nested [OF assms(1)] by blast
  have d: "distinct (map root ts)"
    using Node.prems assms(1) unfolding tree_ok_def by (metis shape.simps)
  have sh: "shape s t" "(root t, r) \<in> up s" if "t \<in> set ts" for t
    using that Node.prems tree_kid [OF assms(1), of "root t" r] by (auto simp: list_all_iff)
  have one: "distinct (root t # inside t)" if "t \<in> set ts" for t
  proof -
    have "(root t, root t) \<notin> (up s)\<^sup>+"
      by (rule ups_acyclic [OF assms(1)])
    then show ?thesis
      using Node.IH that sh [OF that] inside_up [OF assms(1) sh(1) [OF that]] by auto
  qed
  have "set (root t # inside t) \<inter> set (root u # inside u) = {}" if "t \<in> set ts" "u \<in> set ts" "root t \<noteq> root u" for t u
  proof -
    have "(x, root v) \<in> (up s)\<^sup>*" if "x \<in> set (root v # inside v)" "v \<in> set ts" for x v
      using that inside_up [OF assms(1) sh(1) [OF that(2)]] by auto
    then have "False" if "x \<in> set (root t # inside t)" "x \<in> set (root u # inside u)" for x
      using ups_comparable [of x "root t" s "root u"] that \<open>t \<in> set ts\<close> \<open>u \<in> set ts\<close> \<open>root t \<noteq> root u\<close>
        siblings_apart [OF nest, of "root t" r "root u"] siblings_apart [OF nest, of "root u" r "root t"] sh(2) by metis
    then show ?thesis by blast
  qed
  then have "distinct (concat (map (\<lambda>t. root t # inside t) ts))"
    using one by (intro distinct_concat_map [OF d]) auto
  then show ?case by simp
qed

lemma iterator_lists:
  assumes "tree_ok s"
  shows "\<exists>xs. visit s (iterator s c) = Some xs \<and> distinct xs \<and> set xs = {i. (i, c) \<in> (up s)\<^sup>+}"
proof -
  obtain t where t: "root t = c" "shape s t"
    using tree_exists [OF assms] by blast
  have m: "mset (bfs [t]) = mset (inside t)"
    using mset_bfs [of "[t]"] by simp
  have "set (bfs [t]) = set (inside t)" "distinct (bfs [t])"
    using mset_eq_setD [OF m] mset_eq_imp_distinct_iff [OF m] distinct_inside [OF assms t(2)] by auto
  then show ?thesis
    using visit_iterator [OF t(2)] t(1) inside_up [OF assms t(2)] by auto
qed

subsection \<open>Main result\<close>

text \<open>C20: In every reachable store the walk of \<open>ContainerIterator\<close> over a container ends and visits each item inside it, at any depth,
  exactly once; hence \<open>isHoldingItem\<close> answers whether the container is among the parents of the item, and
  \<open>getItemHoldingCount\<close> is the number of such items (in 32 bits).\<close>

theorem iterator_visits_once:
  assumes "box_reach its outQuery s"
  shows "\<exists>xs. visit s (iterator s c) = Some xs \<and> distinct xs
    \<and> set xs = {i. (i, c) \<in> {(x, y). getParentContainer s x = Some y}\<^sup>+}
    \<and> getItemHoldingCount s c = Some (of_nat (card (set xs)))
    \<and> (\<forall>i. isHoldingItem s c i = Some (i \<in> set xs))"
proof -
  have "tree_ok s"
    using box_reach_inv [OF assms] by (simp add: box_inv_def)
  from iterator_lists [OF this, of c]
  obtain xs where "visit s (iterator s c) = Some xs" "distinct xs" "set xs = {i. (i, c) \<in> (up s)\<^sup>+}"
    by blast
  moreover from this have "length xs = card {i. (i, c) \<in> (up s)\<^sup>+}"
    using distinct_card by metis
  moreover have "{(x, y). getParentContainer s x = Some y} = up s"
    by (simp add: up_def getParentContainer_iff)
  ultimately show ?thesis
    by (auto simp: getItemHoldingCount_def isHoldingItem_def holding_visit)
qed

theorem iterator_visits_once_witness:
  "getItemHoldingCount packed 1 = Some 1 \<and> isHoldingItem packed 1 2 = Some True \<and> isHoldingItem packed 1 3 = Some False"
proof -
  have p: "{(x, y). getParentContainer packed x = Some y} = {(2, 1)}"
    by (auto simp: bag_defs bumped_def bump_def split: if_splits)
  moreover have "(i, 1) \<in> {(2, 1)}\<^sup>+ \<longleftrightarrow> i = (2 :: nat)" for i
    by (auto dest: tranclD)
  ultimately show ?thesis
    using iterator_visits_once [OF packed_reach, of 1] by auto
qed

end
