(* ===== verification/Trade_Model.thy ===== *)
theory Trade_Model
  imports Container_Iterator Position_Model "HOL-Library.AList"
begin

section \<open>Trading between players\<close>

text \<open>
  The trade of items between two players (\<open>game.cpp\<close>, with the handlers of \<open>player.cpp\<close> that cancel it): requests, counter-offers,
  acceptance, the exchange and cancellation. The items and containers are those of \<open>Container_Model\<close>. The map \<open>tradeItems\<close> is an
  association list from items to players; a trade holds one reference on each item in it, returned through \<open>ToReleaseItems\<close>.
  \<open>trade_env\<close> holds what a trade asks of the rest of the server: who is online and where, lines of sight, the item a client points at, the Lua
  handlers, and the answers of \<open>internalAddItem\<close>, \<open>internalRemoveItem\<close> (both as tests) and \<open>internalMoveItem\<close>.

  Shown: partners always point at each other, an item is offered by at most one player and is registered and referenced exactly while it is,
  a counter-offer always has an offer to answer; items change hands only when both players accepted and both items fit.
\<close>

subsection \<open>State\<close>

datatype tradestate_t = TRADE_NONE | TRADE_INITIATED | TRADE_ACCEPT | TRADE_ACKNOWLEDGE | TRADE_TRANSFER

datatype TradeEvents_t = ON_TRADE_TRANSFER | ON_TRADE_CANCEL

record trader =
  tradeState :: tradestate_t
  tradePartner :: "nat option"
  tradeItem :: "nat option"

datatype trade_out =
    Trade_Text nat string
  | Trade_Cancel nat ReturnValue
  | Trade_Request nat nat "nat option" bool
  | Trade_Close nat
  | Trade_Event nat TradeEvents_t nat
  | Trade_Move nat nat ReturnValue
  | Trade_Walk nat

record trade_world =
  traders :: "nat \<Rightarrow> trader"
  tradeItems :: "(nat \<times> nat) list"
  item_refs :: "nat \<Rightarrow> nat"
  ToReleaseItems :: "nat list"
  trade_log :: "trade_out list"

record trade_env =
  te_store :: store
  te_table :: item_table
  te_online :: "nat \<Rightarrow> bool"
  te_name :: "nat \<Rightarrow> string"
  te_pos :: "nat \<Rightarrow> Position"
  te_itemPos :: "nat \<Rightarrow> Position"
  te_clientID :: "nat \<Rightarrow> 16 word"
  te_showCount :: "nat \<Rightarrow> bool"
  canThrowObjectTo :: "Position \<Rightarrow> Position \<Rightarrow> bool"
  internalGetThing :: "nat \<Rightarrow> Position \<Rightarrow> byte \<Rightarrow> nat option"
  getPathTo :: "nat \<Rightarrow> Position \<Rightarrow> bool"
  onTradeRequest :: "nat \<Rightarrow> nat \<Rightarrow> nat \<Rightarrow> bool"
  onTradeAccept :: "nat \<Rightarrow> nat \<Rightarrow> nat option \<Rightarrow> nat option \<Rightarrow> bool"
  addTest :: "nat \<Rightarrow> nat \<Rightarrow> ReturnValue"
  removeTest :: "nat \<Rightarrow> ReturnValue"
  moveItem :: "nat \<Rightarrow> nat \<Rightarrow> ReturnValue"

definition new_trader :: trader where
  "new_trader = \<lparr>tradeState = TRADE_NONE, tradePartner = None, tradeItem = None\<rparr>"

definition upd_trader :: "nat \<Rightarrow> (trader \<Rightarrow> trader) \<Rightarrow> trade_world \<Rightarrow> trade_world" where
  "upd_trader p f w = w\<lparr>traders := (traders w)(p := f (traders w p))\<rparr>"

definition setTradeState :: "nat \<Rightarrow> tradestate_t \<Rightarrow> trade_world \<Rightarrow> trade_world" where
  "setTradeState p st = upd_trader p (\<lambda>t. t\<lparr>tradeState := st\<rparr>)"

definition trade_say :: "trade_out list \<Rightarrow> trade_world \<Rightarrow> trade_world" where
  "trade_say es w = w\<lparr>trade_log := trade_log w @ es\<rparr>"

definition ReleaseItem :: "nat \<Rightarrow> trade_world \<Rightarrow> trade_world" where
  "ReleaseItem i w = w\<lparr>ToReleaseItems := ToReleaseItems w @ [i]\<rparr>"

text \<open>\<open>Game::cleanup\<close> gives back the references of the released items.\<close>

definition cleanup :: "trade_world \<Rightarrow> trade_world" where
  "cleanup w = w\<lparr>item_refs := fold (\<lambda>i r. r(i := r i - 1)) (ToReleaseItems w) (item_refs w), ToReleaseItems := []\<rparr>"

text \<open>The lookup and erasure repeated at every end of a trade.\<close>

definition unregister :: "nat option \<Rightarrow> trade_world \<Rightarrow> trade_world" where
  "unregister it w =
     (case it of
        None \<Rightarrow> w
      | Some i \<Rightarrow>
          (case map_of (tradeItems w) i of
             None \<Rightarrow> w
           | Some _ \<Rightarrow> (ReleaseItem i w)\<lparr>tradeItems := AList.delete i (tradeItems w)\<rparr>))"

definition register :: "nat \<Rightarrow> nat \<Rightarrow> trade_world \<Rightarrow> trade_world" where
  "register i p w = w\<lparr>item_refs := (item_refs w)(i := item_refs w i + 1), tradeItems := AList.update i p (tradeItems w)\<rparr>"

subsection \<open>Requests\<close>

text \<open>Is the item, something inside it, or a container around it offered in another trade?\<close>

fun already_traded :: "store \<Rightarrow> nat \<Rightarrow> (nat \<times> nat) list \<Rightarrow> bool option" where
  "already_traded s it [] = Some False"
| "already_traded s it ((i, _) # rest) =
     (if it = i then Some True
      else Option.bind (if o_box (objs s it) \<noteq> None then isHoldingItem s it i else Some False) (\<lambda>inner.
        if inner then Some True
        else Option.bind (if o_box (objs s i) \<noteq> None then isHoldingItem s i it else Some False) (\<lambda>around.
          if around then Some True else already_traded s it rest)))"

definition internalStartTrade :: "trade_env \<Rightarrow> nat \<Rightarrow> nat \<Rightarrow> nat \<Rightarrow> trade_world \<Rightarrow> bool \<times> trade_world" where
  "internalStartTrade e p q it w =
     (let a = traders w p; b = traders w q
      in if tradeState a \<noteq> TRADE_NONE \<and> \<not> (tradeState a = TRADE_ACKNOWLEDGE \<and> tradePartner a = Some q)
         then (False, trade_say [Trade_Cancel p RETURNVALUE_YOUAREALREADYTRADING] w)
         else if tradeState b \<noteq> TRADE_NONE \<and> tradePartner b \<noteq> Some p
         then (False, trade_say [Trade_Cancel p RETURNVALUE_THISPLAYERISALREADYTRADING] w)
         else
           let w = upd_trader p (\<lambda>t. t\<lparr>tradePartner := Some q, tradeItem := Some it, tradeState := TRADE_INITIATED\<rparr>) w;
               w = register it p w;
               w = trade_say [Trade_Request p p (Some it) True] w
           in (True,
               if tradeState (traders w q) = TRADE_NONE
               then upd_trader q (\<lambda>t. t\<lparr>tradeState := TRADE_ACKNOWLEDGE, tradePartner := Some p\<rparr>)
                      (trade_say [Trade_Text q (te_name e p @ '' wants to trade with you.'')] w)
               else trade_say [Trade_Request p q (tradeItem (traders w q)) False, Trade_Request q p (Some it) False] w))"

definition playerRequestTrade :: "trade_env \<Rightarrow> nat \<Rightarrow> Position \<Rightarrow> byte \<Rightarrow> nat \<Rightarrow> 16 word \<Rightarrow> trade_world \<Rightarrow> trade_world option" where
  "playerRequestTrade e p pos stackPos q spriteId w =
     (if \<not> te_online e p then Some w
      else if \<not> te_online e q \<or> q = p then Some (trade_say [Trade_Text p ''Sorry, not possible.''] w)
      else if \<not> areInRange3 2 2 0 (te_pos e q) (te_pos e p)
      then Some (trade_say [Trade_Text p (te_name e q @ '' tells you to move closer.'')] w)
      else if \<not> canThrowObjectTo e (te_pos e q) (te_pos e p)
      then Some (trade_say [Trade_Cancel p RETURNVALUE_CREATUREISNOTREACHABLE] w)
      else case internalGetThing e p pos stackPos of
        None \<Rightarrow> Some (trade_say [Trade_Cancel p RETURNVALUE_NOTPOSSIBLE] w)
      | Some it \<Rightarrow>
          (let s = te_store e; x = o_item (objs s it)
           in if te_clientID e it \<noteq> spriteId \<or> \<not> it_pickupable (te_table e (i_id x)) \<or> item_has x ITEM_ATTRIBUTE_UNIQUEID
              then Some (trade_say [Trade_Cancel p RETURNVALUE_NOTPOSSIBLE] w)
              else if posz (te_pos e p) \<noteq> posz (te_itemPos e it)
              then Some (trade_say [Trade_Cancel p (if posz (te_pos e p) > posz (te_itemPos e it)
                                     then RETURNVALUE_FIRSTGOUPSTAIRS else RETURNVALUE_FIRSTGODOWNSTAIRS)] w)
              else if \<not> areInRange2 1 1 (te_itemPos e it) (te_pos e p)
              then Some (trade_say [if getPathTo e p pos then Trade_Walk p else Trade_Cancel p RETURNVALUE_THEREISNOWAY] w)
              else case already_traded s it (tradeItems w) of
                None \<Rightarrow> None
              | Some True \<Rightarrow> Some (trade_say [Trade_Text p ''This item is already being traded.''] w)
              | Some False \<Rightarrow>
                  map_option (\<lambda>n. if n + 1 > 100 then trade_say [Trade_Text p ''You can not trade more than 100 items.''] w
                                  else if \<not> onTradeRequest e p q it then w
                                  else snd (internalStartTrade e p q it w))
                    (if o_box (objs s it) \<noteq> None then getItemHoldingCount s it else Some 0)))"

subsection \<open>The end of a trade\<close>

text \<open>The two halves of \<open>internalCloseTrade\<close>, the same for the player and for the partner.\<close>

definition cancel_offer :: "nat \<Rightarrow> trade_world \<Rightarrow> trade_world" where
  "cancel_offer x w =
     (case tradeItem (traders w x) of
        None \<Rightarrow> w
      | Some i \<Rightarrow> upd_trader x (\<lambda>t. t\<lparr>tradeItem := None\<rparr>)
                    (trade_say [Trade_Event i ON_TRADE_CANCEL x] (unregister (Some i) w)))"

definition leave_trade :: "nat \<Rightarrow> trade_world \<Rightarrow> trade_world" where
  "leave_trade x w =
     trade_say [Trade_Text x ''Trade cancelled.'', Trade_Close x]
       (upd_trader x (\<lambda>t. t\<lparr>tradeState := TRADE_NONE, tradePartner := None\<rparr>) w)"

definition internalCloseTrade :: "nat \<Rightarrow> trade_world \<Rightarrow> trade_world" where
  "internalCloseTrade p w =
     (let partner = tradePartner (traders w p)
      in if (case partner of None \<Rightarrow> False | Some q \<Rightarrow> tradeState (traders w q) = TRADE_TRANSFER)
            \<or> tradeState (traders w p) = TRADE_TRANSFER
         then w
         else let w = leave_trade p (cancel_offer p w)
              in case partner of None \<Rightarrow> w | Some q \<Rightarrow> leave_trade q (cancel_offer q w))"

definition playerCloseTrade :: "trade_env \<Rightarrow> nat \<Rightarrow> trade_world \<Rightarrow> trade_world" where
  "playerCloseTrade e p w = (if \<not> te_online e p then w else internalCloseTrade p w)"

definition weight_text :: "nat \<Rightarrow> string" where
  "weight_text w =
     (if w < 10 then ''0.0'' @ dec_digits w
      else if w < 100 then ''0.'' @ dec_digits w
      else let d = dec_digits (w div 10) in butlast d @ ''.'' @ [last d])"

definition getWeightDescription :: "trade_env \<Rightarrow> nat \<Rightarrow> string" where
  "getWeightDescription e it =
     (let s = te_store e; x = o_item (objs s it); weight = getWeight (te_table e) s it
      in if weight = 0 then []
         else (if it_stackable (te_table e (i_id x)) \<and> i_count x > 1 \<and> te_showCount e it then ''They weigh '' else ''It weighs '')
              @ weight_text (unat weight) @ '' oz.'')"

definition getTradeErrorDescription :: "trade_env \<Rightarrow> ReturnValue \<Rightarrow> nat option \<Rightarrow> string" where
  "getTradeErrorDescription e ret it =
     (case it of
        None \<Rightarrow> ''Trade could not be completed.''
      | Some i \<Rightarrow>
          (let x = o_item (objs (te_store e) i);
               these = (if it_stackable (te_table e (i_id x)) \<and> i_count x > 1 then '' these objects.'' else '' this object.'')
           in if ret = RETURNVALUE_NOTENOUGHCAPACITY
              then ''You do not have enough capacity to carry'' @ these @ [CHR 0x0A] @ '' '' @ getWeightDescription e i
              else if ret = RETURNVALUE_NOTENOUGHROOM \<or> ret = RETURNVALUE_CONTAINERNOTENOUGHROOM
              then ''You do not have enough room to carry'' @ these
              else ''Trade could not be completed.''))"

definition add_answer :: "trade_env \<Rightarrow> nat \<Rightarrow> nat option \<Rightarrow> ReturnValue" where
  "add_answer e q it = (case it of None \<Rightarrow> RETURNVALUE_NOTPOSSIBLE | Some i \<Rightarrow> addTest e q i)"

text \<open>The exchange: both additions and removals are tried first, then the items move. It gives the last two answers, whether it
  succeeded, and the moves and events that happened.\<close>

definition exchange :: "trade_env \<Rightarrow> nat \<Rightarrow> nat \<Rightarrow> nat option \<Rightarrow> nat option \<Rightarrow> ReturnValue \<times> ReturnValue \<times> bool \<times> trade_out list" where
  "exchange e p q it1 it2 =
     (let ret1 = add_answer e q it1; ret2 = add_answer e p it2
      in if ret1 = RETURNVALUE_NOERROR \<and> ret2 = RETURNVALUE_NOERROR
         then let i = the it1; j = the it2; ret1 = removeTest e i; ret2 = removeTest e j
              in if ret1 = RETURNVALUE_NOERROR \<and> ret2 = RETURNVALUE_NOERROR
                 then let ret1 = moveItem e i q
                      in if ret1 = RETURNVALUE_NOERROR
                         then (ret1, ret2, True,
                               [Trade_Move i q ret1, Trade_Move j p (moveItem e j p), Trade_Event i ON_TRADE_TRANSFER q, Trade_Event j ON_TRADE_TRANSFER p])
                         else (ret1, ret2, False, [Trade_Move i q ret1])
                 else (ret1, ret2, False, [])
         else (ret1, ret2, False, []))"

definition tell_failed :: "trade_env \<Rightarrow> nat \<Rightarrow> ReturnValue \<Rightarrow> nat option \<Rightarrow> nat option \<Rightarrow> trade_out list" where
  "tell_failed e x ret it mine =
     (case mine of None \<Rightarrow> [] | Some i \<Rightarrow> [Trade_Text x (getTradeErrorDescription e ret it), Trade_Event i ON_TRADE_CANCEL x])"

definition transfer :: "trade_env \<Rightarrow> nat \<Rightarrow> nat \<Rightarrow> trade_world \<Rightarrow> trade_world" where
  "transfer e p q w =
     (let it1 = tradeItem (traders w p); it2 = tradeItem (traders w q);
          w = setTradeState q TRADE_TRANSFER (setTradeState p TRADE_TRANSFER w);
          w = unregister it2 (unregister it1 w);
          (ret1, ret2, isSuccess, es) = exchange e p q it1 it2;
          w = trade_say es w;
          w = (if isSuccess then w else trade_say (tell_failed e q ret1 it1 it2 @ tell_failed e p ret2 it2 it1) w);
          w = trade_say [Trade_Close p] (upd_trader p (\<lambda>_. new_trader) w)
      in trade_say [Trade_Close q] (upd_trader q (\<lambda>_. new_trader) w))"

definition playerAcceptTrade :: "trade_env \<Rightarrow> nat \<Rightarrow> trade_world \<Rightarrow> trade_world" where
  "playerAcceptTrade e p w =
     (if \<not> te_online e p then w
      else if \<not> (tradeState (traders w p) = TRADE_ACKNOWLEDGE \<or> tradeState (traders w p) = TRADE_INITIATED) then w
      else case tradePartner (traders w p) of
        None \<Rightarrow> w
      | Some q \<Rightarrow>
          (if \<not> canThrowObjectTo e (te_pos e q) (te_pos e p)
           then trade_say [Trade_Cancel p RETURNVALUE_CREATUREISNOTREACHABLE] w
           else
             let w = setTradeState p TRADE_ACCEPT w
             in if tradeState (traders w q) \<noteq> TRADE_ACCEPT then w
                else if \<not> onTradeAccept e p q (tradeItem (traders w p)) (tradeItem (traders w q)) then internalCloseTrade p w
                else transfer e p q w))"

text \<open>\<open>playerLookInTrade\<close>: the item a player looks at in a trade, by its number in the breadth-first order in which the client lists
  the offered container. The index is a byte that counts down.\<close>

fun look_list :: "nat list \<Rightarrow> byte \<Rightarrow> nat option \<times> byte" where
  "look_list [] index = (None, index)"
| "look_list (i # is) index = (if index - 1 = 0 then (Some i, index - 1) else look_list is (index - 1))"

partial_function (option) look_loop :: "store \<Rightarrow> nat list \<Rightarrow> byte \<Rightarrow> nat option option" where
  "look_loop s cs index =
     (case cs of
        [] \<Rightarrow> Some None
      | c # rest \<Rightarrow>
          (case look_list (items_of s c) index of
             (Some i, _) \<Rightarrow> Some (Some i)
           | (None, index) \<Rightarrow> look_loop s (rest @ filter (\<lambda>i. o_box (objs s i) \<noteq> None) (items_of s c)) index))"

definition playerLookInTrade :: "trade_env \<Rightarrow> nat \<Rightarrow> bool \<Rightarrow> byte \<Rightarrow> trade_world \<Rightarrow> nat option option" where
  "playerLookInTrade e p lookAtCounterOffer index w =
     (if \<not> te_online e p then Some None
      else case tradePartner (traders w p) of
        None \<Rightarrow> Some None
      | Some q \<Rightarrow>
          (case (if lookAtCounterOffer then tradeItem (traders w q) else tradeItem (traders w p)) of
             None \<Rightarrow> Some None
           | Some it \<Rightarrow>
               (if index = 0 then Some (Some it)
                else if o_box (objs (te_store e) it) = None then Some None
                else look_loop (te_store e) [it] index)))"

subsection \<open>Events that cancel a trade\<close>

partial_function (option) in_box :: "store \<Rightarrow> nat \<Rightarrow> nat option \<Rightarrow> bool option" where
  "in_box s t c =
     (case c of
        None \<Rightarrow> Some False
      | Some b \<Rightarrow> if b = t then Some True else in_box s t (getParentContainer s b))"

definition checkTradeState :: "store \<Rightarrow> nat \<Rightarrow> nat \<Rightarrow> trade_world \<Rightarrow> trade_world option" where
  "checkTradeState s p it w =
     (case tradeItem (traders w p) of
        None \<Rightarrow> Some w
      | Some t \<Rightarrow>
          (if tradeState (traders w p) = TRADE_TRANSFER then Some w
           else if t = it then Some (internalCloseTrade p w)
           else map_option (\<lambda>found. if found then internalCloseTrade p w else w) (in_box s t (getParentContainer s it))))"

definition close_if_holding :: "store \<Rightarrow> nat \<Rightarrow> bool \<Rightarrow> nat \<Rightarrow> trade_world \<Rightarrow> trade_world option" where
  "close_if_holding s p guard c w =
     (case tradeItem (traders w p) of
        None \<Rightarrow> Some w
      | Some t \<Rightarrow>
          (if guard then map_option (\<lambda>held. if held then internalCloseTrade p w else w) (isHoldingItem s c t) else Some w))"

definition onRemoveInventoryItem :: "store \<Rightarrow> nat \<Rightarrow> nat \<Rightarrow> trade_world \<Rightarrow> trade_world option" where
  "onRemoveInventoryItem s p it w =
     (if tradeState (traders w p) = TRADE_TRANSFER then Some w
      else Option.bind (checkTradeState s p it w) (close_if_holding s p (o_box (objs s it) \<noteq> None) it))"

definition onUpdateInventoryItem :: "store \<Rightarrow> nat \<Rightarrow> nat \<Rightarrow> nat \<Rightarrow> trade_world \<Rightarrow> trade_world option" where
  "onUpdateInventoryItem s p oldItem newItem w =
     Option.bind (if oldItem \<noteq> newItem then onRemoveInventoryItem s p oldItem w else Some w)
       (\<lambda>w. if tradeState (traders w p) = TRADE_TRANSFER then Some w else checkTradeState s p oldItem w)"

definition onAddContainerItem :: "store \<Rightarrow> nat \<Rightarrow> nat \<Rightarrow> trade_world \<Rightarrow> trade_world option" where
  "onAddContainerItem s p it w = checkTradeState s p it w"

definition onRemoveContainerItem :: "store \<Rightarrow> nat \<Rightarrow> nat \<Rightarrow> nat \<Rightarrow> trade_world \<Rightarrow> trade_world option" where
  "onRemoveContainerItem s p c it w =
     (if tradeState (traders w p) = TRADE_TRANSFER then Some w
      else Option.bind (checkTradeState s p it w)
             (\<lambda>w. close_if_holding s p (map_option (parent_of s) (tradeItem (traders w p)) \<noteq> Some (Some (Box c))) c w))"

definition onUpdateContainerItem :: "store \<Rightarrow> nat \<Rightarrow> nat \<Rightarrow> nat \<Rightarrow> nat \<Rightarrow> trade_world \<Rightarrow> trade_world option" where
  "onUpdateContainerItem s p c oldItem newItem w =
     Option.bind (if oldItem \<noteq> newItem then onRemoveContainerItem s p c oldItem w else Some w)
       (\<lambda>w. if tradeState (traders w p) = TRADE_TRANSFER then Some w else checkTradeState s p oldItem w)"

text \<open>Items on the ground: the trade part of the tile handlers.\<close>

definition onRemoveTileItem :: "store \<Rightarrow> nat \<Rightarrow> nat \<Rightarrow> trade_world \<Rightarrow> trade_world option" where
  "onRemoveTileItem s p it w =
     (if tradeState (traders w p) = TRADE_TRANSFER then Some w
      else Option.bind (checkTradeState s p it w) (close_if_holding s p (o_box (objs s it) \<noteq> None) it))"

definition onUpdateTileItem :: "store \<Rightarrow> nat \<Rightarrow> nat \<Rightarrow> nat \<Rightarrow> trade_world \<Rightarrow> trade_world option" where
  "onUpdateTileItem s p oldItem newItem w =
     map_option (\<lambda>w. if tradeState (traders w p) \<noteq> TRADE_TRANSFER \<and> tradeItem (traders w p) = Some oldItem then internalCloseTrade p w else w)
       (if oldItem \<noteq> newItem then onRemoveTileItem s p oldItem w else Some w)"

text \<open>The trade part of \<open>onCreatureMove\<close> for the player itself, and of \<open>onCreatureDisappear\<close> at logout.\<close>

definition move_trade :: "trade_env \<Rightarrow> nat \<Rightarrow> trade_world \<Rightarrow> trade_world" where
  "move_trade e p w =
     (if tradeState (traders w p) = TRADE_TRANSFER then w
      else let w = (case tradeItem (traders w p) of
                      Some i \<Rightarrow> if areInRange3 1 1 0 (te_itemPos e i) (te_pos e p) then w else internalCloseTrade p w
                    | None \<Rightarrow> w)
           in case tradePartner (traders w p) of
                Some q \<Rightarrow> if areInRange3 2 2 0 (te_pos e q) (te_pos e p) then w else internalCloseTrade p w
              | None \<Rightarrow> w)"

definition logout_trade :: "nat \<Rightarrow> trade_world \<Rightarrow> trade_world" where
  "logout_trade p w = (if tradePartner (traders w p) \<noteq> None then internalCloseTrade p w else w)"

subsection \<open>The invariant\<close>

definition solo_ok :: "trader \<Rightarrow> bool" where
  "solo_ok x \<longleftrightarrow>
     (tradeState x = TRADE_NONE \<longleftrightarrow> tradePartner x = None) \<and> tradeState x \<noteq> TRADE_TRANSFER \<and>
     (tradeState x = TRADE_INITIATED \<longrightarrow> tradeItem x \<noteq> None) \<and>
     (tradeState x \<in> {TRADE_NONE, TRADE_ACKNOWLEDGE} \<longrightarrow> tradeItem x = None)"

definition pairs_ok :: "(nat \<Rightarrow> trader) \<Rightarrow> bool" where
  "pairs_ok t \<longleftrightarrow>
     (\<forall>p. solo_ok (t p)) \<and>
     (\<forall>p q. tradePartner (t p) = Some q \<longrightarrow> p \<noteq> q \<and> tradePartner (t q) = Some p \<and> (tradeItem (t p) \<noteq> None \<or> tradeItem (t q) \<noteq> None))"

lemma new_trader_simps [simp]:
  "solo_ok new_trader" "tradePartner new_trader = None" "tradeItem new_trader = None" "tradeState new_trader = TRADE_NONE"
  by (simp_all add: solo_ok_def new_trader_def)

lemma pairs_partner:
  assumes "pairs_ok t" and "tradePartner (t p) = Some q"
  shows "p \<noteq> q" "tradePartner (t q) = Some p" "tradeItem (t p) \<noteq> None \<or> tradeItem (t q) \<noteq> None"
  using assms unfolding pairs_ok_def by blast+

lemma pairs_solo: "pairs_ok t \<Longrightarrow> solo_ok (t p)"
  by (simp add: pairs_ok_def)

text \<open>The registered items are the offered ones, and each holds one reference until \<open>cleanup\<close>.\<close>

definition registered :: "(nat \<Rightarrow> nat option) \<Rightarrow> (nat \<times> nat) list \<Rightarrow> bool" where
  "registered T xs \<longleftrightarrow> distinct (map fst xs) \<and> (\<forall>i p. map_of xs i = Some p \<longleftrightarrow> T p = Some i)"

definition refs_ok :: "trade_world \<Rightarrow> bool" where
  "refs_ok w \<longleftrightarrow> (\<forall>i. item_refs w i = count_list (ToReleaseItems w) i + of_bool (i \<in> dom (map_of (tradeItems w))))"

definition offers :: "(nat \<Rightarrow> nat option) \<Rightarrow> trade_world \<Rightarrow> bool" where
  "offers T w \<longleftrightarrow> registered T (tradeItems w) \<and> refs_ok w"

definition log_ok :: "trade_world \<Rightarrow> bool" where
  "log_ok w \<longleftrightarrow> (\<forall>p q b. Trade_Request p q None b \<notin> set (trade_log w))"

abbreviation items :: "trade_world \<Rightarrow> nat \<Rightarrow> nat option" where
  "items w \<equiv> \<lambda>p. tradeItem (traders w p)"

definition trade_inv :: "trade_world \<Rightarrow> bool" where
  "trade_inv w \<longleftrightarrow> pairs_ok (traders w) \<and> offers (items w) w \<and> log_ok w"

lemma trade_world_simps [simp]:
  "traders (trade_say es w) = traders w" "trade_log (trade_say es w) = trade_log w @ es" "tradeItems (trade_say es w) = tradeItems w"
  "traders (upd_trader p f w) = (traders w)(p := f (traders w p))" "trade_log (upd_trader p f w) = trade_log w"
  "tradeItems (upd_trader p f w) = tradeItems w"
  "offers T (trade_say es w) = offers T w" "offers T (upd_trader p f w) = offers T w"
  by (simp_all add: trade_say_def upd_trader_def offers_def refs_ok_def)

lemma unregister_simps [simp]:
  "traders (unregister it w) = traders w" "trade_log (unregister it w) = trade_log w"
  by (auto simp: unregister_def ReleaseItem_def split: option.splits)

lemma registered_iff: "registered T xs \<Longrightarrow> map_of xs i = Some p \<longleftrightarrow> T p = Some i"
  by (simp add: registered_def)

lemma registered_delete:
  assumes "registered T xs" and "T p = Some i"
  shows "registered (T(p := None)) (AList.delete i xs)"
proof -
  have "map_of (AList.delete i xs) j = Some q \<longleftrightarrow> (T(p := None)) q = Some j" for q j
    using registered_iff [OF assms(1), of j q] registered_iff [OF assms(1), of i p] assms(2)
    by (cases "q = p"; cases "j = i") (auto simp: delete_conv')
  then show ?thesis
    using assms(1) unfolding registered_def by (metis distinct_delete)
qed

lemma registered_update:
  assumes "registered T xs" and "T p = None" and "map_of xs i = None"
  shows "registered (T(p := Some i)) (AList.update i p xs)"
proof -
  have "map_of (AList.update i p xs) j = Some q \<longleftrightarrow> (T(p := Some i)) q = Some j" for q j
    using registered_iff [OF assms(1), of j q] assms(2,3)
    by (cases "q = p"; cases "j = i") (auto simp: update_conv')
  then show ?thesis
    using assms(1) unfolding registered_def by (metis distinct_update)
qed

lemma refs_unregister: "refs_ok w \<Longrightarrow> refs_ok (unregister it w)"
  by (auto simp: refs_ok_def unregister_def ReleaseItem_def delete_conv' domIff split: option.splits)

lemma register_simps [simp]:
  "traders (register i p w) = traders w" "trade_log (register i p w) = trade_log w"
  by (simp_all add: register_def)

lemma offers_drop:
  assumes "offers T w" and "T p = it"
  shows "offers (T(p := None)) (unregister it w)"
proof (cases it)
  case None
  then show ?thesis
    using assms by (simp add: unregister_def fun_upd_idem)
next
  case (Some i)
  then have "map_of (tradeItems w) i = Some p"
    using assms registered_iff [of T "tradeItems w" i p] by (simp add: offers_def)
  then have "tradeItems (unregister it w) = AList.delete i (tradeItems w)"
    using Some by (simp add: unregister_def)
  then show ?thesis
    using assms Some by (simp add: offers_def registered_delete refs_unregister)
qed

lemma offers_add:
  assumes "offers T w" and "T p = None" and "map_of (tradeItems w) i = None"
  shows "offers (T(p := Some i)) (register i p w)"
proof -
  have "i \<notin> dom (map_of (tradeItems w))"
    using assms(3) by blast
  then show ?thesis
    using assms by (simp add: offers_def register_def registered_update) (simp add: refs_ok_def update_conv')
qed

lemma count_fold_release:
  "fold (\<lambda>i r. r(i := r i - Suc 0)) xs r j = r j - count_list xs (j :: nat)" for r :: "nat \<Rightarrow> nat"
  by (induction xs arbitrary: r) auto

lemma offers_cleanup: "offers T w \<Longrightarrow> offers T (cleanup w)"
  by (simp add: offers_def refs_ok_def cleanup_def count_fold_release)

subsection \<open>Every operation keeps it\<close>

lemma log_ok_say: "log_ok w \<Longrightarrow> (\<And>p q b. Trade_Request p q None b \<notin> set es) \<Longrightarrow> log_ok (trade_say es w)"
  by (auto simp: log_ok_def)

lemma log_ok_simps [simp]: "log_ok (upd_trader p f w) = log_ok w" "log_ok (unregister it w) = log_ok w"
  by (simp_all add: log_ok_def)

lemma say_inv: "trade_inv w \<Longrightarrow> (\<And>p q b. Trade_Request p q None b \<notin> set es) \<Longrightarrow> trade_inv (trade_say es w)"
  by (simp add: trade_inv_def log_ok_say)

text \<open>Closing a trade puts both players back to the initial state.\<close>

lemma cancel_offer_simps [simp]:
  "traders (cancel_offer x w) = (traders w)(x := (traders w x)\<lparr>tradeItem := None\<rparr>)"
  by (auto simp: cancel_offer_def fun_eq_iff split: option.splits)

lemma leave_trade_simps [simp]:
  "traders (leave_trade x w) = (traders w)(x := (traders w x)\<lparr>tradeState := TRADE_NONE, tradePartner := None\<rparr>)"
  "offers T (leave_trade x w) = offers T w"
  by (simp_all add: leave_trade_def)

lemma cancel_offers: "offers T w \<Longrightarrow> T x = tradeItem (traders w x) \<Longrightarrow> offers (T(x := None)) (cancel_offer x w)"
  using offers_drop [of T w x] by (auto simp: cancel_offer_def fun_upd_idem split: option.splits)

lemma log_ok_close: "log_ok w \<Longrightarrow> log_ok (leave_trade x (cancel_offer x w))"
  by (auto simp: leave_trade_def cancel_offer_def intro!: log_ok_say split: option.splits)

lemma pairs_reset1:
  assumes "pairs_ok t" and "tradePartner (t p) = None"
  shows "pairs_ok (t(p := new_trader))"
  unfolding pairs_ok_def
proof (intro conjI allI impI)
  fix a b assume ab: "tradePartner ((t(p := new_trader)) a) = Some b"
  then have "a \<noteq> p" "tradePartner (t a) = Some b" by (auto split: if_splits)
  then show "a \<noteq> b" "tradePartner ((t(p := new_trader)) b) = Some a"
    "tradeItem ((t(p := new_trader)) a) \<noteq> None \<or> tradeItem ((t(p := new_trader)) b) \<noteq> None"
    using pairs_partner [OF assms(1), of a b] assms(2) by auto
qed (simp add: pairs_solo [OF assms(1)])

lemma pairs_reset2:
  assumes "pairs_ok t" and "tradePartner (t p) = Some q"
  shows "pairs_ok (t(p := new_trader, q := new_trader))"
  unfolding pairs_ok_def
proof (intro conjI allI impI)
  let ?t = "t(p := new_trader, q := new_trader)"
  fix a b assume ab: "tradePartner (?t a) = Some b"
  then have "a \<noteq> p" "a \<noteq> q" "tradePartner (t a) = Some b" by (auto split: if_splits)
  then show "a \<noteq> b" "tradePartner (?t b) = Some a" "tradeItem (?t a) \<noteq> None \<or> tradeItem (?t b) \<noteq> None"
    using pairs_partner [OF assms(1), of a b] pairs_partner [OF assms] assms(2) by auto
qed (simp add: pairs_solo [OF assms(1)])

lemma items_upd: "(\<lambda>x. tradeItem (if x = p then r else t x)) = (\<lambda>x. tradeItem (t x))(p := tradeItem r)"
  by (simp add: fun_eq_iff)

lemma internalCloseTrade_inv:
  assumes "trade_inv w"
  shows "trade_inv (internalCloseTrade p w)"
proof -
  let ?t = "traders w"
  have pairs: "pairs_ok ?t" and off: "offers (items w) w" and log: "log_ok w"
    using assms by (simp_all add: trade_inv_def)
  have run: "internalCloseTrade p w = (let w = leave_trade p (cancel_offer p w)
      in case tradePartner (?t p) of None \<Rightarrow> w | Some q \<Rightarrow> leave_trade q (cancel_offer q w))"
    using pairs_solo [OF pairs] by (simp add: internalCloseTrade_def Let_def solo_ok_def split: option.splits)
  have new: "x\<lparr>tradeItem := None, tradeState := TRADE_NONE, tradePartner := None\<rparr> = new_trader" for x :: trader
    by (simp add: new_trader_def)
  have off1: "offers ((items w)(p := None)) (leave_trade p (cancel_offer p w))"
    using cancel_offers [OF off, of p] by simp
  show ?thesis
  proof (cases "tradePartner (?t p)")
    case None
    have "traders (internalCloseTrade p w) = ?t(p := new_trader)"
      using None run by (simp add: Let_def new)
    then show ?thesis
      using pairs_reset1 [OF pairs None] off1 log_ok_close [OF log, of p] run None
      by (simp add: trade_inv_def items_upd)
  next
    case (Some q)
    note pq = pairs_partner(1) [OF pairs Some]
    have "traders (internalCloseTrade p w) = ?t(p := new_trader, q := new_trader)"
      using Some run pq by (simp add: Let_def new)
    moreover have "offers ((items w)(p := None, q := None)) (leave_trade q (cancel_offer q (leave_trade p (cancel_offer p w))))"
      using cancel_offers [OF off1, of q] pq by simp
    ultimately show ?thesis
      using pairs_reset2 [OF pairs Some] log_ok_close [OF log_ok_close [OF log, of p], of q] run Some
      by (simp add: trade_inv_def items_upd)
  qed
qed

lemma registered_free:
  assumes "already_traded s it xs = Some False"
  shows "map_of xs it = None"
  using assms by (induction xs) (auto split: if_splits bind_splits)

lemma pairs_start:
  assumes "pairs_ok t" and "tradePartner (t p) = None" and "tradePartner (t q) = None" and "p \<noteq> q"
  shows "pairs_ok (t(p := \<lparr>tradeState = TRADE_INITIATED, tradePartner = Some q, tradeItem = Some i\<rparr>,
                     q := (t q)\<lparr>tradeState := TRADE_ACKNOWLEDGE, tradePartner := Some p\<rparr>))"
    (is "pairs_ok ?t")
  unfolding pairs_ok_def
proof (intro conjI allI impI)
  have "tradeItem (t q) = None"
    using pairs_solo [OF assms(1), of q] assms(3) by (auto simp: solo_ok_def)
  then show "solo_ok (?t a)" for a
    using pairs_solo [OF assms(1), of a] assms(4) by (auto simp: solo_ok_def)
  fix a b assume ab: "tradePartner (?t a) = Some b"
  have "a \<noteq> b \<and> tradePartner (?t b) = Some a \<and> (tradeItem (?t a) \<noteq> None \<or> tradeItem (?t b) \<noteq> None)"
  proof (cases "a = p \<or> a = q")
    case True
    then show ?thesis using ab assms(4) by auto
  next
    case False
    then have "tradePartner (t a) = Some b" using ab by simp
    then show ?thesis using pairs_partner [OF assms(1), of a b] assms(2,3) False by auto
  qed
  then show "a \<noteq> b" "tradePartner (?t b) = Some a" "tradeItem (?t a) \<noteq> None \<or> tradeItem (?t b) \<noteq> None"
    by blast+
qed

lemma pairs_answer:
  assumes "pairs_ok t" and "tradePartner (t p) = Some q"
  shows "pairs_ok (t(p := \<lparr>tradeState = TRADE_INITIATED, tradePartner = Some q, tradeItem = Some i\<rparr>))"
    (is "pairs_ok ?t")
  unfolding pairs_ok_def
proof (intro conjI allI impI)
  show "solo_ok (?t a)" for a
    using pairs_solo [OF assms(1), of a] by (auto simp: solo_ok_def)
  fix a b assume ab: "tradePartner (?t a) = Some b"
  then have "tradePartner (t a) = Some b" using assms(2) by (auto split: if_splits)
  then show "a \<noteq> b" "tradePartner (?t b) = Some a" "tradeItem (?t a) \<noteq> None \<or> tradeItem (?t b) \<noteq> None"
    using pairs_partner [OF assms(1), of a b] assms(2) by auto
qed

lemma internalStartTrade_inv:
  assumes inv: "trade_inv w" and pq: "p \<noteq> q" and new: "map_of (tradeItems w) it = None"
  shows "trade_inv (snd (internalStartTrade e p q it w))"
proof -
  let ?t = "traders w"
  let ?new = "\<lparr>tradeState = TRADE_INITIATED, tradePartner = Some q, tradeItem = Some it\<rparr>"
  have pairs: "pairs_ok ?t" and off: "offers (items w) w" and log: "log_ok w"
    using inv by (simp_all add: trade_inv_def)
  have same: "(?t p)\<lparr>tradePartner := Some q, tradeItem := Some it, tradeState := TRADE_INITIATED\<rparr> = ?new" by simp
  have sp: "solo_ok (?t p)" "solo_ok (?t q)" using pairs_solo [OF pairs] by auto
  consider (refused) "tradeState (?t p) \<noteq> TRADE_NONE \<and> \<not> (tradeState (?t p) = TRADE_ACKNOWLEDGE \<and> tradePartner (?t p) = Some q)
      \<or> tradeState (?t q) \<noteq> TRADE_NONE \<and> tradePartner (?t q) \<noteq> Some p"
    | (first) "tradePartner (?t p) = None" "tradePartner (?t q) = None"
    | (answer) "tradeState (?t p) = TRADE_ACKNOWLEDGE" "tradePartner (?t p) = Some q"
    using sp pairs_partner [OF pairs, of q p] by (auto simp: solo_ok_def)
  then show ?thesis
  proof cases
    case refused
    then show ?thesis
      by (auto simp: internalStartTrade_def Let_def intro!: say_inv inv)
  next
    case first
    then have "tradeItem (?t p) = None" "tradeState (?t p) = TRADE_NONE" "tradeState (?t q) = TRADE_NONE"
      using sp by (auto simp: solo_ok_def)
    moreover have "(items w)(p := Some it, q := items w q) = (items w)(p := Some it)"
      using pq by (simp add: fun_eq_iff)
    ultimately show ?thesis
      using pairs_start [OF pairs first pq, of it] offers_add [of "items w" "upd_trader p f w" p it for f] off new log pq
      by (simp add: internalStartTrade_def Let_def trade_inv_def same items_upd log_ok_def)
  next
    case answer
    note mate = pairs_partner [OF pairs answer(2)]
    then have "tradeItem (?t p) = None" "tradeState (?t q) \<noteq> TRADE_NONE" "tradeItem (?t q) \<noteq> None"
      using sp answer by (auto simp: solo_ok_def)
    then show ?thesis
      using pairs_answer [OF pairs answer(2), of it] offers_add [of "items w" "upd_trader p f w" p it for f] off new log pq mate answer
      by (auto simp: internalStartTrade_def Let_def trade_inv_def same items_upd log_ok_def)
  qed
qed

lemma playerRequestTrade_inv:
  assumes "trade_inv w"
  shows "pred_option trade_inv (playerRequestTrade e p pos stackPos q spriteId w)"
proof -
  have "trade_inv (trade_say [m] w)" if "\<And>a b c. m \<noteq> Trade_Request a b None c" for m
    using that by (intro say_inv assms) auto
  moreover have "trade_inv (snd (internalStartTrade e p q it w))"
    if "already_traded (te_store e) it (tradeItems w) = Some False" "q \<noteq> p" for it
    using that by (intro internalStartTrade_inv assms registered_free) auto
  ultimately show ?thesis
    using assms by (simp add: playerRequestTrade_def Let_def option.pred_map comp_def split: option.split bool.split)
      (simp add: pred_option_def)
qed

lemma pairs_accept:
  assumes "pairs_ok t" and "tradePartner (t p) = Some q"
  shows "pairs_ok (t(p := (t p)\<lparr>tradeState := TRADE_ACCEPT\<rparr>))"
    (is "pairs_ok ?t")
  unfolding pairs_ok_def
proof (intro conjI allI impI)
  show "solo_ok (?t a)" for a
    using pairs_solo [OF assms(1), of a] assms(2) by (auto simp: solo_ok_def)
  fix a b assume "tradePartner (?t a) = Some b"
  then have "tradePartner (t a) = Some b" using assms(2) by (auto split: if_splits)
  then show "a \<noteq> b" "tradePartner (?t b) = Some a" "tradeItem (?t a) \<noteq> None \<or> tradeItem (?t b) \<noteq> None"
    using pairs_partner [OF assms(1), of a b] assms(2) by (auto split: if_splits)
qed

lemma setTradeState_simps [simp]:
  "traders (setTradeState p st w) = (traders w)(p := (traders w p)\<lparr>tradeState := st\<rparr>)" "trade_log (setTradeState p st w) = trade_log w"
  "offers T (setTradeState p st w) = offers T w" "log_ok (setTradeState p st w) = log_ok w"
  by (simp_all add: setTradeState_def)

lemma exchange_log: "exchange e p q it1 it2 = (r1, r2, ok, es) \<Longrightarrow> Trade_Request a b None c \<notin> set es"
  by (auto simp: exchange_def Let_def split: if_splits)

text \<open>What a transfer leaves behind: both players out of the trade, both items unregistered.\<close>

lemma transfer_eq:
  assumes "p \<noteq> q"
  obtains es where "traders (transfer e p q w) = (traders w)(p := new_trader, q := new_trader)"
    and "\<And>T. offers T (transfer e p q w) = offers T (unregister (items w q) (unregister (items w p) w))"
    and "trade_log (transfer e p q w) = trade_log w @ snd (snd (snd (exchange e p q (items w p) (items w q)))) @ es"
    and "\<And>m. m \<in> set es \<Longrightarrow> \<exists>x. m = Trade_Close x \<or> (\<exists>s. m = Trade_Text x s) \<or> (\<exists>i. m = Trade_Event i ON_TRADE_CANCEL x)"
proof -
  obtain r1 r2 ok xs where ex: "exchange e p q (items w p) (items w q) = (r1, r2, ok, xs)"
    by (metis prod_cases4)
  define es where "es = (if ok then [] else tell_failed e q r1 (items w p) (items w q) @ tell_failed e p r2 (items w q) (items w p))
    @ [Trade_Close p, Trade_Close q]"
  have un: "unregister a (setTradeState x st v) = setTradeState x st (unregister a v)" for a x st v
    by (auto simp: unregister_def setTradeState_def upd_trader_def ReleaseItem_def split: option.splits)
  show ?thesis
  proof
    show "traders (transfer e p q w) = (traders w)(p := new_trader, q := new_trader)"
      using assms by (simp add: transfer_def Let_def ex fun_eq_iff)
    show "offers T (transfer e p q w) = offers T (unregister (items w q) (unregister (items w p) w))" for T
      by (simp add: transfer_def Let_def ex un)
    show "trade_log (transfer e p q w) = trade_log w @ snd (snd (snd (exchange e p q (items w p) (items w q)))) @ es"
      by (simp add: transfer_def Let_def ex es_def)
    show "\<exists>x. m = Trade_Close x \<or> (\<exists>s. m = Trade_Text x s) \<or> (\<exists>i. m = Trade_Event i ON_TRADE_CANCEL x)" if "m \<in> set es" for m
      using that by (auto simp: es_def tell_failed_def split: if_splits option.splits)
  qed
qed

lemma transfer_inv:
  assumes "trade_inv w" and "tradePartner (traders w p) = Some q"
  shows "trade_inv (transfer e p q w)"
proof -
  have pairs: "pairs_ok (traders w)" and off: "offers (items w) w" and log: "log_ok w"
    using assms(1) by (simp_all add: trade_inv_def)
  note pq = pairs_partner(1) [OF pairs assms(2)]
  obtain es where t: "traders (transfer e p q w) = (traders w)(p := new_trader, q := new_trader)"
    and o: "\<And>T. offers T (transfer e p q w) = offers T (unregister (items w q) (unregister (items w p) w))"
    and l: "trade_log (transfer e p q w) = trade_log w @ snd (snd (snd (exchange e p q (items w p) (items w q)))) @ es"
    and m: "\<And>m. m \<in> set es \<Longrightarrow> \<exists>x. m = Trade_Close x \<or> (\<exists>s. m = Trade_Text x s) \<or> (\<exists>i. m = Trade_Event i ON_TRADE_CANCEL x)"
    using transfer_eq [OF pq] by blast
  have "offers ((items w)(p := None, q := None)) (unregister (items w q) (unregister (items w p) w))"
    using offers_drop [OF offers_drop [OF off refl, of p], of q "items w q"] pq by simp
  moreover have "log_ok (transfer e p q w)"
    using log m exchange_log [of e p q "items w p" "items w q"] unfolding log_ok_def l
    by (metis Un_iff prod.collapse set_append trade_out.distinct)
  ultimately show ?thesis
    using pairs_reset2 [OF pairs assms(2)] by (simp add: trade_inv_def t o items_upd)
qed

lemma playerAcceptTrade_inv:
  assumes "trade_inv w"
  shows "trade_inv (playerAcceptTrade e p w)"
proof -
  have acc: "trade_inv (setTradeState p TRADE_ACCEPT w)" "tradePartner (traders (setTradeState p TRADE_ACCEPT w) p) = Some q"
    if "tradePartner (traders w p) = Some q" for q
    using assms pairs_accept [of "traders w" p q] that by (simp_all add: trade_inv_def items_upd fun_upd_idem)
  show ?thesis
    using assms acc transfer_inv [OF acc] internalCloseTrade_inv [OF acc(1)]
    by (auto simp: playerAcceptTrade_def Let_def intro!: say_inv split: option.splits)
qed

subsection \<open>The cancelling handlers\<close>

text \<open>Each of them leaves the trades alone or closes the trade of the player, once or twice.\<close>

lemma checkTradeState_inv: "trade_inv w \<Longrightarrow> pred_option trade_inv (checkTradeState s p it w)"
  by (auto simp: checkTradeState_def internalCloseTrade_inv option.pred_map comp_def pred_option_def split: option.split)

lemma close_if_holding_inv: "trade_inv w \<Longrightarrow> pred_option trade_inv (close_if_holding s p g c w)"
  by (auto simp: close_if_holding_def internalCloseTrade_inv option.pred_map comp_def pred_option_def split: option.split)

lemma pred_bind: "pred_option P x \<Longrightarrow> (\<And>a. P a \<Longrightarrow> pred_option P (f a)) \<Longrightarrow> pred_option P (Option.bind x f)"
  by (cases x) auto

lemma onRemoveInventoryItem_inv: "trade_inv w \<Longrightarrow> pred_option trade_inv (onRemoveInventoryItem s p it w)"
  by (simp add: onRemoveInventoryItem_def pred_bind checkTradeState_inv close_if_holding_inv)

lemma onUpdateInventoryItem_inv: "trade_inv w \<Longrightarrow> pred_option trade_inv (onUpdateInventoryItem s p i j w)"
  unfolding onUpdateInventoryItem_def by (rule pred_bind) (simp_all add: onRemoveInventoryItem_inv checkTradeState_inv)

lemma onRemoveContainerItem_inv: "trade_inv w \<Longrightarrow> pred_option trade_inv (onRemoveContainerItem s p c it w)"
  by (simp add: onRemoveContainerItem_def pred_bind checkTradeState_inv close_if_holding_inv)

lemma onUpdateContainerItem_inv: "trade_inv w \<Longrightarrow> pred_option trade_inv (onUpdateContainerItem s p c i j w)"
  unfolding onUpdateContainerItem_def by (rule pred_bind) (simp_all add: onRemoveContainerItem_inv checkTradeState_inv)

lemma onRemoveTileItem_inv: "trade_inv w \<Longrightarrow> pred_option trade_inv (onRemoveTileItem s p it w)"
  by (simp add: onRemoveTileItem_def pred_bind checkTradeState_inv close_if_holding_inv)

lemma onUpdateTileItem_inv:
  assumes "trade_inv w"
  shows "pred_option trade_inv (onUpdateTileItem s p i j w)"
proof -
  have "pred_option trade_inv (if i \<noteq> j then onRemoveTileItem s p i w else Some w)"
    using assms by (simp add: onRemoveTileItem_inv)
  then show ?thesis
    unfolding onUpdateTileItem_def option.pred_map
    by (rule option.pred_mono_strong) (simp add: internalCloseTrade_inv)
qed

lemma move_trade_inv: "trade_inv w \<Longrightarrow> trade_inv (move_trade e p w)"
  by (simp add: move_trade_def Let_def internalCloseTrade_inv split: option.split)

lemma logout_trade_inv: "trade_inv w \<Longrightarrow> trade_inv (logout_trade p w)"
  by (simp add: logout_trade_def internalCloseTrade_inv)

subsection \<open>Histories\<close>

text \<open>The steps of a server run that touch trades. \<open>sell\<close> is the trade that \<open>Commands::sellHouse\<close> starts with a transfer document
  it has just created; every step may see another environment.\<close>

inductive trade_reach :: "trade_world \<Rightarrow> bool" where
  start: "trade_reach \<lparr>traders = \<lambda>_. new_trader, tradeItems = [], item_refs = \<lambda>_. 0, ToReleaseItems = [], trade_log = []\<rparr>"
| request: "trade_reach w \<Longrightarrow> playerRequestTrade e p pos stackPos q spriteId w = Some w' \<Longrightarrow> trade_reach w'"
| sell: "trade_reach w \<Longrightarrow> p \<noteq> q \<Longrightarrow> map_of (tradeItems w) it = None \<Longrightarrow> trade_reach (snd (internalStartTrade e p q it w))"
| accept: "trade_reach w \<Longrightarrow> trade_reach (playerAcceptTrade e p w)"
| close: "trade_reach w \<Longrightarrow> trade_reach (playerCloseTrade e p w)"
| inventory_removed: "trade_reach w \<Longrightarrow> onRemoveInventoryItem s p it w = Some w' \<Longrightarrow> trade_reach w'"
| inventory_updated: "trade_reach w \<Longrightarrow> onUpdateInventoryItem s p i j w = Some w' \<Longrightarrow> trade_reach w'"
| container_added: "trade_reach w \<Longrightarrow> onAddContainerItem s p it w = Some w' \<Longrightarrow> trade_reach w'"
| container_removed: "trade_reach w \<Longrightarrow> onRemoveContainerItem s p c it w = Some w' \<Longrightarrow> trade_reach w'"
| container_updated: "trade_reach w \<Longrightarrow> onUpdateContainerItem s p c i j w = Some w' \<Longrightarrow> trade_reach w'"
| tile_removed: "trade_reach w \<Longrightarrow> onRemoveTileItem s p it w = Some w' \<Longrightarrow> trade_reach w'"
| tile_updated: "trade_reach w \<Longrightarrow> onUpdateTileItem s p i j w = Some w' \<Longrightarrow> trade_reach w'"
| moved: "trade_reach w \<Longrightarrow> trade_reach (move_trade e p w)"
| logout: "trade_reach w \<Longrightarrow> trade_reach (logout_trade p w)"
| released: "trade_reach w \<Longrightarrow> trade_reach (cleanup w)"

lemmas trade_handlers_inv = playerRequestTrade_inv onRemoveInventoryItem_inv onUpdateInventoryItem_inv onRemoveContainerItem_inv
  onUpdateContainerItem_inv onRemoveTileItem_inv onUpdateTileItem_inv checkTradeState_inv

lemma pred_SomeD: "pred_option P x \<Longrightarrow> x = Some y \<Longrightarrow> P y"
  by simp

lemma trade_reach_inv: "trade_reach w \<Longrightarrow> trade_inv w"
proof (induction rule: trade_reach.induct)
  case start
  then show ?case
    by (simp add: trade_inv_def pairs_ok_def offers_def registered_def refs_ok_def log_ok_def)
next
  case (released w)
  then show ?case
    using offers_cleanup [of "items w" w] by (simp add: trade_inv_def log_ok_def cleanup_def)
next
  case (container_added w s p it w')
  then show ?case using checkTradeState_inv pred_SomeD by (metis onAddContainerItem_def)
next
  case (close w e p)
  then show ?case by (simp add: playerCloseTrade_def internalCloseTrade_inv)
qed (blast intro: internalStartTrade_inv playerAcceptTrade_inv move_trade_inv logout_trade_inv trade_handlers_inv [THEN pred_SomeD])+

lemma exchange_moves:
  assumes "Trade_Move i x r \<in> set (snd (snd (snd (exchange e p q it1 it2))))"
  obtains i1 i2 where "it1 = Some i1" "it2 = Some i2"
    "addTest e q i1 = RETURNVALUE_NOERROR" "addTest e p i2 = RETURNVALUE_NOERROR"
    "removeTest e i1 = RETURNVALUE_NOERROR" "removeTest e i2 = RETURNVALUE_NOERROR"
    "i = i1 \<and> x = q \<or> i = i2 \<and> x = p \<and> moveItem e i1 q = RETURNVALUE_NOERROR"
  using assms by (auto simp: exchange_def Let_def add_answer_def split: if_splits option.splits)

lemma offered_once:
  assumes "trade_inv w" and "p \<noteq> q" and "items w p = Some i" and "items w q = Some j"
  shows "i \<noteq> j"
  using assms registered_iff [of "items w" "tradeItems w" i p] registered_iff [of "items w" "tradeItems w" i q]
  by (auto simp: trade_inv_def offers_def)

lemma close_log:
  obtains es where "trade_log (internalCloseTrade p w) = trade_log w @ es" "\<And>i x r. Trade_Move i x r \<notin> set es"
proof -
  have one: "\<exists>es. trade_log (leave_trade x (cancel_offer x v)) = trade_log v @ es \<and> (\<forall>i y r. Trade_Move i y r \<notin> set es)" for x v
    by (cases "items v x") (auto simp: leave_trade_def cancel_offer_def)
  have "\<exists>es. trade_log (internalCloseTrade p w) = trade_log w @ es \<and> (\<forall>i x r. Trade_Move i x r \<notin> set es)"
  proof (cases "tradePartner (traders w p)")
    case None
    then show ?thesis using one [of p w] by (simp add: internalCloseTrade_def)
  next
    case (Some q)
    obtain es es' where "trade_log (leave_trade p (cancel_offer p w)) = trade_log w @ es" "\<forall>i y r. Trade_Move i y r \<notin> set es"
      "trade_log (leave_trade q (cancel_offer q (leave_trade p (cancel_offer p w)))) = trade_log w @ es @ es'"
      "\<forall>i y r. Trade_Move i y r \<notin> set es'"
      using one [of p w] one [of q "leave_trade p (cancel_offer p w)"] by force
    then show ?thesis
      using Some by (intro exI [of _ "if trade_log (internalCloseTrade p w) = trade_log w then [] else es @ es'"])
        (auto simp: internalCloseTrade_def Let_def)
  qed
  then show ?thesis using that by blast
qed

lemma accept_cases:
  assumes "trade_inv w"
  obtains "playerAcceptTrade e p w = w" | "playerAcceptTrade e p w = trade_say [Trade_Cancel p RETURNVALUE_CREATUREISNOTREACHABLE] w"
  | "playerAcceptTrade e p w = setTradeState p TRADE_ACCEPT w"
  | "playerAcceptTrade e p w = internalCloseTrade p (setTradeState p TRADE_ACCEPT w)"
  | q where "playerAcceptTrade e p w = transfer e p q (setTradeState p TRADE_ACCEPT w)" "p \<noteq> q"
      "tradePartner (traders w p) = Some q" "tradeState (traders w q) = TRADE_ACCEPT"
proof (cases "tradePartner (traders w p)")
  case None
  then show thesis using that(1) by (simp add: playerAcceptTrade_def)
next
  case (Some q)
  then have pq: "p \<noteq> q"
    using assms pairs_partner(1) unfolding trade_inv_def by blast
  have "playerAcceptTrade e p w \<in> {w, trade_say [Trade_Cancel p RETURNVALUE_CREATUREISNOTREACHABLE] w, setTradeState p TRADE_ACCEPT w,
      internalCloseTrade p (setTradeState p TRADE_ACCEPT w)}
    \<or> playerAcceptTrade e p w = transfer e p q (setTradeState p TRADE_ACCEPT w) \<and> tradeState (traders w q) = TRADE_ACCEPT"
    using pq unfolding playerAcceptTrade_def Some by (simp add: Let_def)
  then show thesis
    using that pq Some by blast
qed

lemma accept_no_move:
  assumes "playerAcceptTrade e p w = w \<or> playerAcceptTrade e p w = trade_say [Trade_Cancel p RETURNVALUE_CREATUREISNOTREACHABLE] w
    \<or> playerAcceptTrade e p w = setTradeState p TRADE_ACCEPT w \<or> playerAcceptTrade e p w = internalCloseTrade p (setTradeState p TRADE_ACCEPT w)"
  obtains es where "trade_log (playerAcceptTrade e p w) = trade_log w @ es" "\<And>i x r. Trade_Move i x r \<notin> set es"
proof -
  obtain es where es: "trade_log (internalCloseTrade p (setTradeState p TRADE_ACCEPT w)) = trade_log w @ es" "\<And>i x r. Trade_Move i x r \<notin> set es"
    using close_log [of p "setTradeState p TRADE_ACCEPT w"] by (metis setTradeState_simps(2))
  have "\<exists>es. trade_log (playerAcceptTrade e p w) = trade_log w @ es \<and> (\<forall>i x r. Trade_Move i x r \<notin> set es)"
    using assms
  proof (elim disjE)
    assume "playerAcceptTrade e p w = trade_say [Trade_Cancel p RETURNVALUE_CREATUREISNOTREACHABLE] w"
    then show ?thesis by (intro exI [of _ "[Trade_Cancel p RETURNVALUE_CREATUREISNOTREACHABLE]"]) simp
  next
    assume "playerAcceptTrade e p w = internalCloseTrade p (setTradeState p TRADE_ACCEPT w)"
    then show ?thesis using es by (intro exI [of _ es]) simp
  qed (intro exI [of _ "[]"], simp)+
  then show ?thesis using that by blast
qed

lemma transfer_moves:
  assumes "trade_inv w" and "p \<noteq> q"
  obtains es where "trade_log (transfer e p q (setTradeState p TRADE_ACCEPT w)) = trade_log w @ es"
    and "\<And>i x r. Trade_Move i x r \<in> set es \<Longrightarrow> Trade_Move i x r \<in> set (snd (snd (snd (exchange e p q (items w p) (items w q)))))"
    and "traders (transfer e p q (setTradeState p TRADE_ACCEPT w)) = (traders w)(p := new_trader, q := new_trader)"
proof -
  let ?w = "setTradeState p TRADE_ACCEPT w"
  show ?thesis
  proof (rule transfer_eq [OF assms(2), of e ?w])
    fix es
    assume t: "traders (transfer e p q ?w) = (traders ?w)(p := new_trader, q := new_trader)"
      and l: "trade_log (transfer e p q ?w) = trade_log ?w @ snd (snd (snd (exchange e p q (items ?w p) (items ?w q)))) @ es"
      and m: "\<And>m. m \<in> set es \<Longrightarrow> \<exists>x. m = Trade_Close x \<or> (\<exists>s. m = Trade_Text x s) \<or> (\<exists>i. m = Trade_Event i ON_TRADE_CANCEL x)"
    show ?thesis
    proof (rule that)
      show "trade_log (transfer e p q ?w) = trade_log w @ (snd (snd (snd (exchange e p q (items w p) (items w q)))) @ es)"
        using l assms(2) by simp
      show "traders (transfer e p q ?w) = (traders w)(p := new_trader, q := new_trader)"
        using t by simp
    qed (use m in fastforce)
  qed
qed

subsection \<open>Main results\<close>

text \<open>C21: In every reachable state trading players are in pairs that point at each other, a player has a partner exactly when its state
  is not \<open>TRADE_NONE\<close>, no state is \<open>TRADE_TRANSFER\<close> between steps, and at least one of two partners has made an offer. An item is registered
  for a player exactly while that player offers it, so no item is offered twice, and the references held for trades are one for each
  registered item and one for each item waiting for \<open>cleanup\<close>. No client is ever shown a missing counter-offer.\<close>

theorem trades_consistent:
  assumes "trade_reach w"
  shows "(\<forall>p. (tradeState (traders w p) = TRADE_NONE \<longleftrightarrow> tradePartner (traders w p) = None) \<and> tradeState (traders w p) \<noteq> TRADE_TRANSFER)
    \<and> (\<forall>p q. tradePartner (traders w p) = Some q \<longrightarrow>
          p \<noteq> q \<and> tradePartner (traders w q) = Some p \<and> (tradeItem (traders w p) \<noteq> None \<or> tradeItem (traders w q) \<noteq> None))
    \<and> (\<forall>i p. map_of (tradeItems w) i = Some p \<longleftrightarrow> tradeItem (traders w p) = Some i)
    \<and> (\<forall>i. item_refs w i = count_list (ToReleaseItems w) i + of_bool (i \<in> dom (map_of (tradeItems w))))
    \<and> (\<forall>p q b. Trade_Request p q None b \<notin> set (trade_log w))"
proof -
  have inv: "trade_inv w"
    by (rule trade_reach_inv [OF assms])
  show ?thesis
  proof (intro conjI)
    show "\<forall>p. (tradeState (traders w p) = TRADE_NONE \<longleftrightarrow> tradePartner (traders w p) = None) \<and> tradeState (traders w p) \<noteq> TRADE_TRANSFER"
      using inv pairs_solo by (auto simp: trade_inv_def solo_ok_def)
    show "\<forall>p q. tradePartner (traders w p) = Some q \<longrightarrow>
        p \<noteq> q \<and> tradePartner (traders w q) = Some p \<and> (tradeItem (traders w p) \<noteq> None \<or> tradeItem (traders w q) \<noteq> None)"
      using inv pairs_partner unfolding trade_inv_def by blast
  qed (use inv in \<open>simp_all add: trade_inv_def offers_def registered_def refs_ok_def log_ok_def\<close>)
qed

text \<open>C22: Items change hands in \<open>playerAcceptTrade\<close> only when the partner had accepted before, both players offer an item, and each
  item could be taken from its owner and given to the other; the second item moves only after the first one did.
  Afterwards both players are out of the trade.\<close>

theorem exchange_needs_consent:
  assumes "trade_reach w"
  shows "\<exists>es. trade_log (playerAcceptTrade e p w) = trade_log w @ es \<and>
    (\<forall>i x r. Trade_Move i x r \<in> set es \<longrightarrow>
      (\<exists>q i1 i2. tradePartner (traders w p) = Some q \<and> tradeState (traders w q) = TRADE_ACCEPT
        \<and> tradeItem (traders w p) = Some i1 \<and> tradeItem (traders w q) = Some i2 \<and> i1 \<noteq> i2
        \<and> addTest e q i1 = RETURNVALUE_NOERROR \<and> addTest e p i2 = RETURNVALUE_NOERROR
        \<and> removeTest e i1 = RETURNVALUE_NOERROR \<and> removeTest e i2 = RETURNVALUE_NOERROR
        \<and> (i = i1 \<and> x = q \<or> i = i2 \<and> x = p \<and> moveItem e i1 q = RETURNVALUE_NOERROR)
        \<and> traders (playerAcceptTrade e p w) = (traders w)(p := new_trader, q := new_trader)))"
proof -
  have inv: "trade_inv w"
    by (rule trade_reach_inv [OF assms])
  then show ?thesis
  proof (cases rule: accept_cases [of w e p])
    case (5 q)
    obtain es where es: "trade_log (playerAcceptTrade e p w) = trade_log w @ es"
      "\<And>i x r. Trade_Move i x r \<in> set es \<Longrightarrow> Trade_Move i x r \<in> set (snd (snd (snd (exchange e p q (items w p) (items w q)))))"
      "traders (playerAcceptTrade e p w) = (traders w)(p := new_trader, q := new_trader)"
      using transfer_moves [OF inv 5(2), of e] 5(1) by metis
    show ?thesis
    proof (intro exI [of _ es] conjI allI impI es(1), goal_cases)
      case (1 i x r)
      then show ?case
        using es(3) 5(3,4) offered_once [OF inv 5(2)] by (auto elim!: exchange_moves [OF es(2)])
    qed
  qed (use accept_no_move [of e p w] in metis)+
qed

text \<open>The answer of the second move is not looked at: the trade counts as a success when the item did not move.\<close>

lemma second_move_ignored:
  assumes "addTest e q i = RETURNVALUE_NOERROR" "addTest e p j = RETURNVALUE_NOERROR"
    and "removeTest e i = RETURNVALUE_NOERROR" "removeTest e j = RETURNVALUE_NOERROR"
    and "moveItem e i q = RETURNVALUE_NOERROR" "moveItem e j p = RETURNVALUE_NOTENOUGHROOM"
  shows "\<exists>es. exchange e p q (Some i) (Some j) = (RETURNVALUE_NOERROR, RETURNVALUE_NOERROR, True, es)
    \<and> Trade_Move j p RETURNVALUE_NOTENOUGHROOM \<in> set es \<and> Trade_Event j ON_TRADE_TRANSFER p \<in> set es"
  using assms by (simp add: exchange_def add_answer_def)

text \<open>Players 1 and 2 offer the items 11 and 12; both accept.\<close>

definition market :: trade_env where
  "market = \<lparr>te_store = bags\<lparr>objs := \<lambda>_. (new_Container 2148 0)\<lparr>o_box := None\<rparr>\<rparr>, te_table = bag_table, te_online = \<lambda>_. True,
     te_name = \<lambda>_. ''Bob'', te_pos = \<lambda>_. Position 100 100 7, te_itemPos = \<lambda>_. Position 100 100 7, te_clientID = \<lambda>_. 3031,
     te_showCount = \<lambda>_. True, canThrowObjectTo = \<lambda>_ _. True, internalGetThing = \<lambda>p _ _. Some (10 + p), getPathTo = \<lambda>_ _. True,
     onTradeRequest = \<lambda>_ _ _. True, onTradeAccept = \<lambda>_ _ _ _. True, addTest = \<lambda>_ _. RETURNVALUE_NOERROR,
     removeTest = \<lambda>_. RETURNVALUE_NOERROR, moveItem = \<lambda>_ _. RETURNVALUE_NOERROR\<rparr>"

definition idle :: trade_world where
  "idle = \<lparr>traders = \<lambda>_. new_trader, tradeItems = [], item_refs = \<lambda>_. 0, ToReleaseItems = [], trade_log = []\<rparr>"

definition offered :: trade_world where
  "offered = the (playerRequestTrade market 2 (Position 0 0 0) 0 1 3031 (the (playerRequestTrade market 1 (Position 0 0 0) 0 2 3031 idle)))"

definition half_accepted :: trade_world where
  "half_accepted = playerAcceptTrade market 1 offered"

lemmas market_defs = market_def idle_def playerRequestTrade_def areInRange3_def areInRange2_def getDistanceX_def getDistanceY_def
  getDistanceZ_def getOffsetX_def getOffsetY_def getOffsetZ_def bags_def new_Container_def bag_table_def item_has_def
  internalStartTrade_def register_def new_trader_def trade_say_def upd_trader_def setTradeState_def

lemma offered_run: "playerRequestTrade market 1 (Position 0 0 0) 0 2 3031 idle = Some (snd (internalStartTrade market 1 2 11 idle))"
  "offered = snd (internalStartTrade market 2 1 12 (snd (internalStartTrade market 1 2 11 idle)))"
  "playerRequestTrade market 2 (Position 0 0 0) 0 1 3031 (snd (internalStartTrade market 1 2 11 idle)) = Some offered"
  by (simp_all add: offered_def market_defs)

lemma half_accepted_simps:
  "traders half_accepted 1 = \<lparr>tradeState = TRADE_ACCEPT, tradePartner = Some 2, tradeItem = Some 11\<rparr>"
  "traders half_accepted 2 = \<lparr>tradeState = TRADE_INITIATED, tradePartner = Some 1, tradeItem = Some 12\<rparr>"
  "tradeItems half_accepted = [(11, 1), (12, 2)]" "item_refs half_accepted 11 = 1"
  by (simp_all add: half_accepted_def offered_run(2) playerAcceptTrade_def market_defs)

lemma half_accepted_reach: "trade_reach half_accepted"
  using trade_reach.start offered_run unfolding half_accepted_def idle_def by (metis trade_reach.request trade_reach.accept)

theorem trades_consistent_witness:
  "trade_reach half_accepted \<and> map_of (tradeItems half_accepted) 11 = Some 1 \<and> tradeItem (traders half_accepted 1) = Some 11
    \<and> tradePartner (traders half_accepted 2) = Some 1"
proof -
  note c = trades_consistent [OF half_accepted_reach]
  have "tradePartner (traders half_accepted 2) = Some 1"
    using c [THEN conjunct2, THEN conjunct1] half_accepted_simps(1) by (metis trader.select_convs(2))
  moreover have "tradeItem (traders half_accepted 1) = Some 11"
    using half_accepted_simps(1) by simp
  ultimately show ?thesis
    using c [THEN conjunct2, THEN conjunct2, THEN conjunct1] half_accepted_reach by blast
qed

theorem exchange_needs_consent_witness:
  "\<exists>es. trade_log (playerAcceptTrade market 2 half_accepted) = trade_log half_accepted @ es
    \<and> Trade_Move 12 1 RETURNVALUE_NOERROR \<in> set es
    \<and> traders (playerAcceptTrade market 2 half_accepted) = (traders half_accepted)(2 := new_trader, 1 := new_trader)"
proof -
  obtain es where es: "trade_log (playerAcceptTrade market 2 half_accepted) = trade_log half_accepted @ es"
    "\<And>i x r. Trade_Move i x r \<in> set es \<Longrightarrow> \<exists>q. tradePartner (traders half_accepted 2) = Some q
       \<and> traders (playerAcceptTrade market 2 half_accepted) = (traders half_accepted)(2 := new_trader, q := new_trader)"
    using exchange_needs_consent [OF half_accepted_reach, of market 2] by metis
  have "playerAcceptTrade market 2 half_accepted = transfer market 2 1 (setTradeState 2 TRADE_ACCEPT half_accepted)"
    using half_accepted_simps by (simp add: playerAcceptTrade_def setTradeState_def upd_trader_def market_def)
  then have "trade_log (playerAcceptTrade market 2 half_accepted) = trade_log half_accepted
      @ [Trade_Move 12 1 RETURNVALUE_NOERROR, Trade_Move 11 2 RETURNVALUE_NOERROR, Trade_Event 12 ON_TRADE_TRANSFER 1, Trade_Event 11 ON_TRADE_TRANSFER 2,
         Trade_Close 2, Trade_Close 1]"
    using half_accepted_simps by (simp add: transfer_def exchange_def add_answer_def market_def)
  then have "Trade_Move 12 1 RETURNVALUE_NOERROR \<in> set es"
    using es(1) by auto
  moreover from es(2) [OF this] have "traders (playerAcceptTrade market 2 half_accepted) = (traders half_accepted)(2 := new_trader, 1 := new_trader)"
    using half_accepted_simps by auto
  ultimately show ?thesis using es(1) by blast
qed

end
