(* ===== verification/Condition_Model.thy ===== *)
theory Condition_Model
  imports Tools_Model Prop_Stream
begin

section \<open>Conditions\<close>

text \<open>
  \<open>condition.cpp\<close>, \<open>condition.h\<close> and the condition list of a creature (\<open>creature.cpp\<close>): poison and fire, haste and paralysis,
  attribute changes, regeneration, light and outfits. The class hierarchy is the datatype \<open>cond_kind\<close>; a virtual method is a
  function that distinguishes the kinds. What a condition changes on its creature (speed, skills, stats, light) is in the record \<open>cre\<close>,
  what it tells the rest of the server is a log.

  \<open>cond_env\<close> is what a step sees of the server: the clock, the creature's surroundings, random numbers and the three
  floating-point computations of the file (percentages, the speed formula, and the comparison in \<open>generateDamageList\<close>). Signed
  fields are integers: the arithmetic on them is meant not to overflow. A result \<open>None\<close> is a step that does not
  return: a division by zero, or a loop that goes on for ever.
\<close>

subsection \<open>Types\<close>

datatype ConditionType_t =
    CONDITION_NONE | CONDITION_POISON | CONDITION_FIRE | CONDITION_ENERGY | CONDITION_BLEEDING | CONDITION_HASTE
  | CONDITION_PARALYZE | CONDITION_OUTFIT | CONDITION_INVISIBLE | CONDITION_LIGHT | CONDITION_MANASHIELD | CONDITION_INFIGHT
  | CONDITION_DRUNK | CONDITION_EXHAUST_WEAPON | CONDITION_REGENERATION | CONDITION_SOUL | CONDITION_MUTED
  | CONDITION_CHANNELMUTEDTICKS | CONDITION_YELLTICKS | CONDITION_ATTRIBUTES | CONDITION_EXHAUST_COMBAT
  | CONDITION_EXHAUST_HEAL | CONDITION_PACIFIED | CONDITION_OTHER u32

fun type_code :: "ConditionType_t \<Rightarrow> u32" where
  "type_code CONDITION_NONE = 0"
| "type_code CONDITION_POISON = 0x1"
| "type_code CONDITION_FIRE = 0x2"
| "type_code CONDITION_ENERGY = 0x4"
| "type_code CONDITION_BLEEDING = 0x8"
| "type_code CONDITION_HASTE = 0x10"
| "type_code CONDITION_PARALYZE = 0x20"
| "type_code CONDITION_OUTFIT = 0x40"
| "type_code CONDITION_INVISIBLE = 0x80"
| "type_code CONDITION_LIGHT = 0x100"
| "type_code CONDITION_MANASHIELD = 0x200"
| "type_code CONDITION_INFIGHT = 0x400"
| "type_code CONDITION_DRUNK = 0x800"
| "type_code CONDITION_EXHAUST_WEAPON = 0x1000"
| "type_code CONDITION_REGENERATION = 0x2000"
| "type_code CONDITION_SOUL = 0x4000"
| "type_code CONDITION_MUTED = 0x8000"
| "type_code CONDITION_CHANNELMUTEDTICKS = 0x10000"
| "type_code CONDITION_YELLTICKS = 0x20000"
| "type_code CONDITION_ATTRIBUTES = 0x40000"
| "type_code CONDITION_EXHAUST_COMBAT = 0x80000"
| "type_code CONDITION_EXHAUST_HEAL = 0x100000"
| "type_code CONDITION_PACIFIED = 0x200000"
| "type_code (CONDITION_OTHER n) = n"

definition all_types :: "ConditionType_t list" where
  "all_types = [CONDITION_NONE, CONDITION_POISON, CONDITION_FIRE, CONDITION_ENERGY, CONDITION_BLEEDING, CONDITION_HASTE,
     CONDITION_PARALYZE, CONDITION_OUTFIT, CONDITION_INVISIBLE, CONDITION_LIGHT, CONDITION_MANASHIELD, CONDITION_INFIGHT,
     CONDITION_DRUNK, CONDITION_EXHAUST_WEAPON, CONDITION_REGENERATION, CONDITION_SOUL, CONDITION_MUTED,
     CONDITION_CHANNELMUTEDTICKS, CONDITION_YELLTICKS, CONDITION_ATTRIBUTES, CONDITION_EXHAUST_COMBAT,
     CONDITION_EXHAUST_HEAL, CONDITION_PACIFIED]"

text \<open>The cast of a number to \<open>ConditionType_t\<close>; numbers that name no enumerator stay themselves.\<close>

definition type_of :: "u32 \<Rightarrow> ConditionType_t" where
  "type_of n = (case find (\<lambda>t. type_code t = n) all_types of Some t \<Rightarrow> t | None \<Rightarrow> CONDITION_OTHER n)"

record Outfit_t =
  lookType :: "16 word"
  lookTypeEx :: "16 word"
  lookHead :: byte
  lookBody :: byte
  lookLegs :: byte
  lookFeet :: byte

record IntervalInfo =
  timeLeft :: int
  iv_value :: int
  iv_interval :: int

record AttrData =
  skills :: "int list"
  skillsPercent :: "int list"
  stats :: "int list"
  statsPercent :: "int list"
  currentSkill :: nat
  currentStat :: nat

record RegenData =
  internalHealthTicks :: u32
  internalManaTicks :: u32
  healthTicks :: u32
  manaTicks :: u32
  healthGain :: u32
  manaGain :: u32

record SoulData =
  internalSoulTicks :: u32
  soulTicks :: u32
  soulGain :: u32

record DamageData =
  maxDamage :: int
  minDamage :: int
  startDamage :: int
  periodDamage :: int
  periodDamageTick :: int
  tickInterval :: int
  forceUpdate :: bool
  delayed :: bool
  field :: bool
  owner :: u32
  damageList :: "IntervalInfo list"

text \<open>The four \<open>float\<close> coefficients are kept as their 32 bits.\<close>

record SpeedData =
  speedDelta :: int
  mina :: u32
  minb :: u32
  maxa :: u32
  maxb :: u32

record LightData =
  lightLevel :: byte
  lightColor :: byte
  internalLightTicks :: u32
  lightChangeInterval :: u32

datatype cond_kind =
    ConditionGeneric | ConditionInvisible | ConditionAttributes AttrData | ConditionRegeneration RegenData | ConditionSoul SoulData
  | ConditionDamage DamageData | ConditionSpeed SpeedData | ConditionOutfit Outfit_t | ConditionLight LightData

record Condition =
  endTime :: int
  subId :: u32
  ticks :: int
  conditionType :: ConditionType_t
  cid :: int
  isBuff :: bool
  kind :: cond_kind

definition zero_outfit :: Outfit_t where
  "zero_outfit = \<lparr>lookType = 0, lookTypeEx = 0, lookHead = 0, lookBody = 0, lookLegs = 0, lookFeet = 0\<rparr>"

definition new_AttrData :: AttrData where
  "new_AttrData = \<lparr>skills = replicate 7 0, skillsPercent = replicate 7 0, stats = replicate 4 0, statsPercent = replicate 4 0,
     currentSkill = 0, currentStat = 0\<rparr>"

definition new_RegenData :: RegenData where
  "new_RegenData = \<lparr>internalHealthTicks = 0, internalManaTicks = 0, healthTicks = 1000, manaTicks = 1000, healthGain = 0, manaGain = 0\<rparr>"

definition new_SoulData :: SoulData where
  "new_SoulData = \<lparr>internalSoulTicks = 0, soulTicks = 0, soulGain = 0\<rparr>"

definition new_DamageData :: DamageData where
  "new_DamageData = \<lparr>maxDamage = 0, minDamage = 0, startDamage = 0, periodDamage = 0, periodDamageTick = 0, tickInterval = 2000,
     forceUpdate = False, delayed = False, field = False, owner = 0, damageList = []\<rparr>"

definition new_SpeedData :: "int \<Rightarrow> SpeedData" where
  "new_SpeedData changeSpeed = \<lparr>speedDelta = changeSpeed, mina = 0, minb = 0, maxa = 0, maxb = 0\<rparr>"

definition new_LightData :: "byte \<Rightarrow> byte \<Rightarrow> LightData" where
  "new_LightData level color = \<lparr>lightLevel = level, lightColor = color, internalLightTicks = 0, lightChangeInterval = 0\<rparr>"

definition INT64_MAX :: int where
  "INT64_MAX = 2 ^ 63 - 1"

definition new_Condition :: "int \<Rightarrow> ConditionType_t \<Rightarrow> int \<Rightarrow> bool \<Rightarrow> u32 \<Rightarrow> cond_kind \<Rightarrow> Condition" where
  "new_Condition i t tk buff sub k =
     \<lparr>endTime = (if tk = -1 then INT64_MAX else 0), subId = sub, ticks = tk, conditionType = t, cid = i, isBuff = buff, kind = k\<rparr>"

definition createCondition :: "int \<Rightarrow> ConditionType_t \<Rightarrow> int \<Rightarrow> int \<Rightarrow> bool \<Rightarrow> u32 \<Rightarrow> Condition option" where
  "createCondition i t tk param buff sub =
     (let make = (\<lambda>tk k. Some (new_Condition i t tk buff sub k))
      in if t \<in> {CONDITION_POISON, CONDITION_FIRE, CONDITION_ENERGY, CONDITION_BLEEDING} then make 0 (ConditionDamage new_DamageData)
         else if t \<in> {CONDITION_HASTE, CONDITION_PARALYZE} then make tk (ConditionSpeed (new_SpeedData param))
         else if t = CONDITION_INVISIBLE then make tk ConditionInvisible
         else if t = CONDITION_OUTFIT then make tk (ConditionOutfit zero_outfit)
         else if t = CONDITION_LIGHT
         then make tk (ConditionLight (new_LightData (of_int param) (of_int (param div 256))))
         else if t = CONDITION_REGENERATION then make tk (ConditionRegeneration new_RegenData)
         else if t = CONDITION_SOUL then make tk (ConditionSoul new_SoulData)
         else if t = CONDITION_ATTRIBUTES then make tk (ConditionAttributes new_AttrData)
         else if t \<in> {CONDITION_INFIGHT, CONDITION_DRUNK, CONDITION_EXHAUST_WEAPON, CONDITION_EXHAUST_COMBAT, CONDITION_EXHAUST_HEAL,
                      CONDITION_MUTED, CONDITION_CHANNELMUTEDTICKS, CONDITION_YELLTICKS, CONDITION_PACIFIED, CONDITION_MANASHIELD}
         then make tk ConditionGeneric
         else None)"

subsection \<open>The creature and the server around it\<close>

datatype cond_out =
    Change_Speed | Check_Health | Check_Mana | Send_Skills | Send_Stats | Gain_Health u32 | Healed int | Gain_Mana u32 | Gain_Soul u32
  | Change_Visible bool | Change_Outfit Outfit_t | Change_Light | Hurt int nat u32 | Puff
  | Cond_Added ConditionType_t | Cond_Ended ConditionType_t | Add_Later ConditionType_t | Remove_Later ConditionType_t

record cre =
  conditions :: "Condition list"
  varSpeed :: int
  varSkills :: "nat \<Rightarrow> int"
  varStats :: "nat \<Rightarrow> int"
  internalLight :: "byte \<times> byte"
  cond_log :: "cond_out list"

record cond_env =
  ce_now :: int
  ce_player :: bool
  ce_protected :: bool
  ce_suppress :: "ConditionType_t \<Rightarrow> bool"
  ce_walkDelay :: int
  ce_baseSpeed :: int
  ce_baseSkill :: "nat \<Rightarrow> int"
  ce_maxHealth :: int
  ce_maxMana :: int
  ce_magicLevel :: int
  ce_realGain :: int
  ce_itemsLight :: "byte \<times> byte"
  ce_defaultOutfit :: Outfit_t
  ce_field :: "nat option"
  ce_attackable :: bool
  ce_canDoCombat :: "u32 \<Rightarrow> bool"
  ce_ghost :: bool
  ce_blockHit :: "int \<Rightarrow> bool \<Rightarrow> bool"
  ce_changeHealth :: "int \<Rightarrow> bool"
  ce_random :: "int \<Rightarrow> int \<Rightarrow> int"
  ce_percent :: "int \<Rightarrow> int \<Rightarrow> int"
  ce_formula :: "SpeedData \<Rightarrow> int \<Rightarrow> int \<times> int"
  ce_closer :: "int \<Rightarrow> int \<Rightarrow> int \<Rightarrow> bool"

definition cre_say :: "cond_out list \<Rightarrow> cre \<Rightarrow> cre" where
  "cre_say es k = k\<lparr>cond_log := cond_log k @ es\<rparr>"

definition changeSpeed :: "int \<Rightarrow> cre \<Rightarrow> cre" where
  "changeSpeed d k = cre_say [Change_Speed] (k\<lparr>varSpeed := varSpeed k + d\<rparr>)"

definition setVarSkill :: "nat \<Rightarrow> int \<Rightarrow> cre \<Rightarrow> cre" where
  "setVarSkill i d k = k\<lparr>varSkills := (varSkills k)(i := varSkills k i + d)\<rparr>"

definition setVarStats :: "nat \<Rightarrow> int \<Rightarrow> cre \<Rightarrow> cre" where
  "setVarStats i d k =
     cre_say (if i = 0 then [Check_Health] else if i = 1 then [Check_Mana] else []) (k\<lparr>varStats := (varStats k)(i := varStats k i + d)\<rparr>)"

definition isInvisible :: "cre \<Rightarrow> bool" where
  "isInvisible k \<longleftrightarrow> list_ex (\<lambda>c. conditionType c = CONDITION_INVISIBLE) (conditions k)"

definition getCreatureLight :: "cond_env \<Rightarrow> cre \<Rightarrow> byte \<times> byte" where
  "getCreatureLight e k =
     (if ce_player e then (if fst (internalLight k) > fst (ce_itemsLight e) then internalLight k else ce_itemsLight e)
      else internalLight k)"

subsection \<open>The base class\<close>

definition setTicks :: "cond_env \<Rightarrow> int \<Rightarrow> Condition \<Rightarrow> Condition" where
  "setTicks e t c = c\<lparr>ticks := t, endTime := t + ce_now e\<rparr>"

definition base_executeCondition :: "cond_env \<Rightarrow> int \<Rightarrow> Condition \<Rightarrow> bool \<times> Condition" where
  "base_executeCondition e interval c =
     (if ticks c = -1 then (True, c)
      else let c = c\<lparr>ticks := max 0 (ticks c - interval)\<rparr> in (endTime c \<ge> ce_now e, c))"

definition base_startCondition :: "cond_env \<Rightarrow> Condition \<Rightarrow> Condition" where
  "base_startCondition e c = (if ticks c > 0 then c\<lparr>endTime := ticks c + ce_now e\<rparr> else c)"

definition cond_persistent :: "Condition \<Rightarrow> bool" where
  "cond_persistent c \<longleftrightarrow> ticks c \<noteq> -1 \<and> (cid c = -1 \<or> cid c = 0)"

definition base_updateCondition :: "cond_env \<Rightarrow> Condition \<Rightarrow> Condition \<Rightarrow> bool" where
  "base_updateCondition e c d \<longleftrightarrow>
     conditionType c = conditionType d \<and> \<not> (ticks c = -1 \<and> ticks d > 0) \<and>
     \<not> (ticks d \<ge> 0 \<and> endTime c > ce_now e + ticks d)"

definition getIcons :: "Condition \<Rightarrow> u32" where
  "getIcons c =
     (case kind c of
        ConditionDamage _ \<Rightarrow>
          (if conditionType c = CONDITION_FIRE then 0x2 else if conditionType c = CONDITION_ENERGY then 0x4
           else if conditionType c = CONDITION_POISON then 0x1 else 0)
      | ConditionSpeed _ \<Rightarrow>
          (if conditionType c = CONDITION_HASTE then 0x40 else if conditionType c = CONDITION_PARALYZE then 0x20 else 0)
      | ConditionOutfit _ \<Rightarrow> 0
      | ConditionLight _ \<Rightarrow> 0
      | _ \<Rightarrow>
          (if conditionType c = CONDITION_MANASHIELD then 0x10 else if conditionType c = CONDITION_INFIGHT then 0x80
           else if conditionType c = CONDITION_DRUNK then 0x8 else 0))"

subsection \<open>Parameters\<close>

datatype ConditionParam_t =
    CONDITION_PARAM_OWNER | CONDITION_PARAM_TICKS | CONDITION_PARAM_HEALTHGAIN | CONDITION_PARAM_HEALTHTICKS
  | CONDITION_PARAM_MANAGAIN | CONDITION_PARAM_MANATICKS | CONDITION_PARAM_DELAYED | CONDITION_PARAM_SPEED
  | CONDITION_PARAM_LIGHT_LEVEL | CONDITION_PARAM_LIGHT_COLOR | CONDITION_PARAM_SOULGAIN | CONDITION_PARAM_SOULTICKS
  | CONDITION_PARAM_MINVALUE | CONDITION_PARAM_MAXVALUE | CONDITION_PARAM_STARTVALUE | CONDITION_PARAM_TICKINTERVAL
  | CONDITION_PARAM_FORCEUPDATE | CONDITION_PARAM_SKILL_MELEE | CONDITION_PARAM_SKILL_FIST | CONDITION_PARAM_SKILL_CLUB
  | CONDITION_PARAM_SKILL_SWORD | CONDITION_PARAM_SKILL_AXE | CONDITION_PARAM_SKILL_DISTANCE | CONDITION_PARAM_SKILL_SHIELD
  | CONDITION_PARAM_SKILL_FISHING | CONDITION_PARAM_STAT_MAXHITPOINTS | CONDITION_PARAM_STAT_MAXMANAPOINTS
  | CONDITION_PARAM_STAT_MAGICPOINTS | CONDITION_PARAM_STAT_MAXHITPOINTSPERCENT | CONDITION_PARAM_STAT_MAXMANAPOINTSPERCENT
  | CONDITION_PARAM_STAT_MAGICPOINTSPERCENT | CONDITION_PARAM_PERIODICDAMAGE | CONDITION_PARAM_SKILL_MELEEPERCENT
  | CONDITION_PARAM_SKILL_FISTPERCENT | CONDITION_PARAM_SKILL_CLUBPERCENT | CONDITION_PARAM_SKILL_SWORDPERCENT
  | CONDITION_PARAM_SKILL_AXEPERCENT | CONDITION_PARAM_SKILL_DISTANCEPERCENT | CONDITION_PARAM_SKILL_SHIELDPERCENT
  | CONDITION_PARAM_SKILL_FISHINGPERCENT | CONDITION_PARAM_BUFF_SPELL | CONDITION_PARAM_SUBID | CONDITION_PARAM_FIELD

definition base_setParam :: "ConditionParam_t \<Rightarrow> int \<Rightarrow> Condition \<Rightarrow> bool \<times> Condition" where
  "base_setParam param v c =
     (case param of
        CONDITION_PARAM_TICKS \<Rightarrow> (True, c\<lparr>ticks := v\<rparr>)
      | CONDITION_PARAM_BUFF_SPELL \<Rightarrow> (True, c\<lparr>isBuff := (v \<noteq> 0)\<rparr>)
      | CONDITION_PARAM_SUBID \<Rightarrow> (True, c\<lparr>subId := of_int v\<rparr>)
      | _ \<Rightarrow> (False, c))"

definition attr_setParam :: "ConditionParam_t \<Rightarrow> int \<Rightarrow> AttrData \<Rightarrow> AttrData option" where
  "attr_setParam param v a =
     (let skill = (\<lambda>i. Some (a\<lparr>skills := (skills a)[i := v]\<rparr>));
          percent = (\<lambda>i. Some (a\<lparr>skillsPercent := (skillsPercent a)[i := v]\<rparr>));
          stat = (\<lambda>i. Some (a\<lparr>stats := (stats a)[i := v]\<rparr>));
          stat_percent = (\<lambda>i. Some (a\<lparr>statsPercent := (statsPercent a)[i := max 0 v]\<rparr>))
      in case param of
           CONDITION_PARAM_SKILL_MELEE \<Rightarrow> Some (a\<lparr>skills := (skills a)[1 := v, 3 := v, 2 := v]\<rparr>)
         | CONDITION_PARAM_SKILL_MELEEPERCENT \<Rightarrow> Some (a\<lparr>skillsPercent := (skillsPercent a)[1 := v, 3 := v, 2 := v]\<rparr>)
         | CONDITION_PARAM_SKILL_FIST \<Rightarrow> skill 0
         | CONDITION_PARAM_SKILL_FISTPERCENT \<Rightarrow> percent 0
         | CONDITION_PARAM_SKILL_CLUB \<Rightarrow> skill 1
         | CONDITION_PARAM_SKILL_CLUBPERCENT \<Rightarrow> percent 1
         | CONDITION_PARAM_SKILL_SWORD \<Rightarrow> skill 2
         | CONDITION_PARAM_SKILL_SWORDPERCENT \<Rightarrow> percent 2
         | CONDITION_PARAM_SKILL_AXE \<Rightarrow> skill 3
         | CONDITION_PARAM_SKILL_AXEPERCENT \<Rightarrow> percent 3
         | CONDITION_PARAM_SKILL_DISTANCE \<Rightarrow> skill 4
         | CONDITION_PARAM_SKILL_DISTANCEPERCENT \<Rightarrow> percent 4
         | CONDITION_PARAM_SKILL_SHIELD \<Rightarrow> skill 5
         | CONDITION_PARAM_SKILL_SHIELDPERCENT \<Rightarrow> percent 5
         | CONDITION_PARAM_SKILL_FISHING \<Rightarrow> skill 6
         | CONDITION_PARAM_SKILL_FISHINGPERCENT \<Rightarrow> percent 6
         | CONDITION_PARAM_STAT_MAXHITPOINTS \<Rightarrow> stat 0
         | CONDITION_PARAM_STAT_MAXMANAPOINTS \<Rightarrow> stat 1
         | CONDITION_PARAM_STAT_MAGICPOINTS \<Rightarrow> stat 3
         | CONDITION_PARAM_STAT_MAXHITPOINTSPERCENT \<Rightarrow> stat_percent 0
         | CONDITION_PARAM_STAT_MAXMANAPOINTSPERCENT \<Rightarrow> stat_percent 1
         | CONDITION_PARAM_STAT_MAGICPOINTSPERCENT \<Rightarrow> stat_percent 3
         | _ \<Rightarrow> None)"

definition setParam :: "ConditionParam_t \<Rightarrow> int \<Rightarrow> Condition \<Rightarrow> bool \<times> Condition" where
  "setParam param v c0 =
     (let (ret, c) = base_setParam param v c0; put = (\<lambda>ok kd. (ok, c\<lparr>kind := kd\<rparr>))
      in case kind c of
           ConditionGeneric \<Rightarrow> (ret, c)
         | ConditionInvisible \<Rightarrow> (ret, c)
         | ConditionOutfit _ \<Rightarrow> (ret, c)
         | ConditionAttributes a \<Rightarrow>
             (case attr_setParam param v a of None \<Rightarrow> (ret, c) | Some a \<Rightarrow> put True (ConditionAttributes a))
         | ConditionRegeneration r \<Rightarrow>
             (case param of
                CONDITION_PARAM_HEALTHGAIN \<Rightarrow> put True (ConditionRegeneration (r\<lparr>healthGain := of_int v\<rparr>))
              | CONDITION_PARAM_HEALTHTICKS \<Rightarrow> put True (ConditionRegeneration (r\<lparr>healthTicks := of_int v\<rparr>))
              | CONDITION_PARAM_MANAGAIN \<Rightarrow> put True (ConditionRegeneration (r\<lparr>manaGain := of_int v\<rparr>))
              | CONDITION_PARAM_MANATICKS \<Rightarrow> put True (ConditionRegeneration (r\<lparr>manaTicks := of_int v\<rparr>))
              | _ \<Rightarrow> (ret, c))
         | ConditionSoul s \<Rightarrow>
             (case param of
                CONDITION_PARAM_SOULGAIN \<Rightarrow> put True (ConditionSoul (s\<lparr>soulGain := of_int v\<rparr>))
              | CONDITION_PARAM_SOULTICKS \<Rightarrow> put True (ConditionSoul (s\<lparr>soulTicks := of_int v\<rparr>))
              | _ \<Rightarrow> (ret, c))
         | ConditionDamage d \<Rightarrow>
             (case param of
                CONDITION_PARAM_OWNER \<Rightarrow> put True (ConditionDamage (d\<lparr>owner := of_int v\<rparr>))
              | CONDITION_PARAM_FORCEUPDATE \<Rightarrow> put True (ConditionDamage (d\<lparr>forceUpdate := (v \<noteq> 0)\<rparr>))
              | CONDITION_PARAM_DELAYED \<Rightarrow> put True (ConditionDamage (d\<lparr>delayed := (v \<noteq> 0)\<rparr>))
              | CONDITION_PARAM_MAXVALUE \<Rightarrow> put ret (ConditionDamage (d\<lparr>maxDamage := \<bar>v\<bar>\<rparr>))
              | CONDITION_PARAM_MINVALUE \<Rightarrow> put ret (ConditionDamage (d\<lparr>minDamage := \<bar>v\<bar>\<rparr>))
              | CONDITION_PARAM_STARTVALUE \<Rightarrow> put ret (ConditionDamage (d\<lparr>startDamage := \<bar>v\<bar>\<rparr>))
              | CONDITION_PARAM_TICKINTERVAL \<Rightarrow> put ret (ConditionDamage (d\<lparr>tickInterval := \<bar>v\<bar>\<rparr>))
              | CONDITION_PARAM_PERIODICDAMAGE \<Rightarrow> put ret (ConditionDamage (d\<lparr>periodDamage := v\<rparr>))
              | CONDITION_PARAM_FIELD \<Rightarrow> put ret (ConditionDamage (d\<lparr>field := (v \<noteq> 0)\<rparr>))
              | _ \<Rightarrow> (False, c))
         | ConditionSpeed s \<Rightarrow>
             (if param \<noteq> CONDITION_PARAM_SPEED then (False, c)
              else (True, c\<lparr>kind := ConditionSpeed (s\<lparr>speedDelta := v\<rparr>),
                            conditionType := (if v > 0 then CONDITION_HASTE else CONDITION_PARALYZE)\<rparr>))
         | ConditionLight l \<Rightarrow>
             (if ret then (False, c)
              else case param of
                     CONDITION_PARAM_LIGHT_LEVEL \<Rightarrow> put True (ConditionLight (l\<lparr>lightLevel := of_int v\<rparr>))
                   | CONDITION_PARAM_LIGHT_COLOR \<Rightarrow> put True (ConditionLight (l\<lparr>lightColor := of_int v\<rparr>))
                   | _ \<Rightarrow> (False, c)))"

subsection \<open>Attribute changes\<close>

definition stat_base :: "cond_env \<Rightarrow> nat \<Rightarrow> int" where
  "stat_base e i = (if i = 0 then ce_maxHealth e else if i = 1 then ce_maxMana e else ce_magicLevel e)"

definition updatePercentStats :: "cond_env \<Rightarrow> AttrData \<Rightarrow> AttrData" where
  "updatePercentStats e a =
     a\<lparr>stats := map (\<lambda>i. if statsPercent a ! i = 0 \<or> i = 2 then stats a ! i else ce_percent e (stat_base e i) (statsPercent a ! i)) [0..<4]\<rparr>"

definition updatePercentSkills :: "cond_env \<Rightarrow> AttrData \<Rightarrow> AttrData" where
  "updatePercentSkills e a =
     a\<lparr>skills := map (\<lambda>i. if skillsPercent a ! i = 0 then skills a ! i else ce_percent e (ce_baseSkill e i) (skillsPercent a ! i)) [0..<7]\<rparr>"

definition updateStats :: "AttrData \<Rightarrow> cre \<Rightarrow> cre" where
  "updateStats a k =
     (let chosen = filter (\<lambda>i. stats a ! i \<noteq> 0) [0..<4]
      in cre_say (if chosen = [] then [] else [Send_Stats]) (fold (\<lambda>i. setVarStats i (stats a ! i)) chosen k))"

definition updateSkills :: "AttrData \<Rightarrow> cre \<Rightarrow> cre" where
  "updateSkills a k =
     (let chosen = filter (\<lambda>i. skills a ! i \<noteq> 0) [0..<7]
      in cre_say (if chosen = [] then [] else [Send_Skills]) (fold (\<lambda>i. setVarSkill i (skills a ! i)) chosen k))"

definition attr_apply :: "cond_env \<Rightarrow> AttrData \<Rightarrow> cre \<Rightarrow> AttrData \<times> cre" where
  "attr_apply e a k =
     (if ce_player e
      then let a = updatePercentSkills e a; k = updateSkills a k; a = updatePercentStats e a
           in (a, updateStats a k)
      else (a, k))"

definition attr_end :: "cond_env \<Rightarrow> AttrData \<Rightarrow> cre \<Rightarrow> cre" where
  "attr_end e a k =
     (if ce_player e
      then let sk = filter (\<lambda>i. skills a ! i \<noteq> 0 \<or> skillsPercent a ! i \<noteq> 0) [0..<7];
               k = fold (\<lambda>i. setVarSkill i (- (skills a ! i))) sk k;
               k = cre_say (if sk = [] then [] else [Send_Skills]) k;
               st = filter (\<lambda>i. stats a ! i \<noteq> 0) [0..<4];
               k = fold (\<lambda>i. setVarStats i (- (stats a ! i))) st k
           in cre_say (if st = [] then [] else [Send_Stats]) k
      else k)"

subsection \<open>Damage over time\<close>

text \<open>The inner \<open>do ... while\<close> of \<open>generateDamageList\<close>: \<open>ce_closer sum i med\<close> is the outcome of \<open>x1 < x2\<close>.\<close>

partial_function (option) damage_round :: "(int \<Rightarrow> int \<Rightarrow> int \<Rightarrow> bool) \<Rightarrow> int \<Rightarrow> int \<Rightarrow> int \<times> int list \<Rightarrow> (int \<times> int list) option" where
  "damage_round closer i med acc =
     (let total = fst acc + i; xs = snd acc @ [i]
      in if closer total i med then damage_round closer i med (total, xs) else Some (total, xs))"

fun damage_rounds :: "(int \<Rightarrow> int \<Rightarrow> int \<Rightarrow> bool) \<Rightarrow> int \<Rightarrow> int \<Rightarrow> nat \<Rightarrow> int \<times> int list \<Rightarrow> (int \<times> int list) option" where
  "damage_rounds closer amount start 0 acc = Some acc"
| "damage_rounds closer amount start (Suc i) acc =
     Option.bind (damage_round closer (int (Suc i)) (c_div ((start + 1 - int (Suc i)) * amount) start) acc)
       (damage_rounds closer amount start i)"

definition generateDamageList :: "(int \<Rightarrow> int \<Rightarrow> int \<Rightarrow> bool) \<Rightarrow> int \<Rightarrow> int \<Rightarrow> int list option" where
  "generateDamageList closer amount start = map_option snd (damage_rounds closer \<bar>amount\<bar> start (nat start) (0, []))"

definition getTotalDamage :: "DamageData \<Rightarrow> int" where
  "getTotalDamage d =
     \<bar>if damageList d \<noteq> [] then sum_list (map iv_value (damageList d)) else minDamage d + c_div (maxDamage d - minDamage d) 2\<bar>"

definition damage_updateCondition :: "Condition \<Rightarrow> DamageData \<Rightarrow> Condition \<Rightarrow> DamageData \<Rightarrow> bool" where
  "damage_updateCondition c d c' d' \<longleftrightarrow>
     forceUpdate d' \<or> \<not> (ticks c = -1 \<and> ticks c' > 0) \<and> getTotalDamage d' > getTotalDamage d"

text \<open>\<open>addDamage\<close> works on the condition and its damage data together.\<close>

fun add_rounds :: "cond_env \<Rightarrow> nat \<Rightarrow> int \<Rightarrow> int \<Rightarrow> Condition \<times> DamageData \<Rightarrow> Condition \<times> DamageData" where
  "add_rounds e 0 time v (c, d) = (c, d)"
| "add_rounds e (Suc n) time v (c, d) =
     add_rounds e n time v
       (if ticks c \<noteq> -1 then setTicks e (ticks c + time) c else c,
        d\<lparr>damageList := damageList d @ [\<lparr>timeLeft = time, iv_value = v, iv_interval = time\<rparr>]\<rparr>)"

definition addDamage :: "cond_env \<Rightarrow> int \<Rightarrow> int \<Rightarrow> int \<Rightarrow> Condition \<times> DamageData \<Rightarrow> bool \<times> Condition \<times> DamageData" where
  "addDamage e rounds time v cd =
     (let time = max time 1000
      in if rounds = -1 then (True, (fst cd)\<lparr>ticks := -1\<rparr>, (snd cd)\<lparr>periodDamage := v, tickInterval := \<bar>time\<bar>\<rparr>)
         else if periodDamage (snd cd) > 0 then (False, cd)
         else (True, add_rounds e (nat rounds) time v cd))"

definition damage_init :: "cond_env \<Rightarrow> Condition \<times> DamageData \<Rightarrow> (bool \<times> Condition \<times> DamageData) option" where
  "damage_init e cd =
     (case cd of (c, d) \<Rightarrow>
        if periodDamage d \<noteq> 0 then Some (True, c, d)
        else if damageList d \<noteq> [] then Some (True, c, d)
        else
          let c = setTicks e 0 c; amount = uniform_random (ce_random e) (minDamage d) (maxDamage d)
          in if amount = 0 then Some (False, c, d)
             else
               let d = d\<lparr>startDamage := (if startDamage d > maxDamage d then maxDamage d
                                          else if startDamage d = 0 then max 1 (- ((- amount) div 20)) else startDamage d)\<rparr>
               in map_option (\<lambda>xs. let (c, d) = fold (\<lambda>v cd. snd (addDamage e 1 (tickInterval (snd cd)) (- v) cd)) xs (c, d)
                                   in (damageList d \<noteq> [], c, d))
                    (generateDamageList (ce_closer e) amount (startDamage d)))"

definition getNextDamage :: "Condition \<Rightarrow> DamageData \<Rightarrow> (int \<times> DamageData) option" where
  "getNextDamage c d =
     (if periodDamage d \<noteq> 0 then Some (periodDamage d, d)
      else case damageList d of
        [] \<Rightarrow> None
      | x # xs \<Rightarrow> Some (iv_value x, if ticks c \<noteq> -1 then d\<lparr>damageList := xs\<rparr> else d))"

definition ConditionToDamageType :: "ConditionType_t \<Rightarrow> nat" where
  "ConditionToDamageType t =
     (if t = CONDITION_FIRE then COMBAT_FIREDAMAGE else if t = CONDITION_ENERGY then COMBAT_ENERGYDAMAGE
      else if t = CONDITION_BLEEDING then COMBAT_PHYSICALDAMAGE else if t = CONDITION_POISON then COMBAT_EARTHDAMAGE else COMBAT_NONE)"

definition doDamage :: "cond_env \<Rightarrow> Condition \<Rightarrow> DamageData \<Rightarrow> int \<Rightarrow> cre \<Rightarrow> bool \<times> cre" where
  "doDamage e c d healthChange k =
     (if ce_suppress e (conditionType c) then (True, k)
      else if \<not> ce_attackable e \<or> \<not> ce_canDoCombat e (owner d) then (False, if ce_ghost e then k else cre_say [Puff] k)
      else if ce_blockHit e healthChange (field d) then (False, k)
      else (ce_changeHealth e healthChange, cre_say [Hurt healthChange (ConditionToDamageType (conditionType c)) (owner d)] k))"

definition strike_next :: "cond_env \<Rightarrow> Condition \<times> DamageData \<Rightarrow> cre \<Rightarrow> bool \<times> Condition \<times> cre" where
  "strike_next e cd k =
     (case cd of (c, d) \<Rightarrow>
        case (if delayed d then None else getNextDamage c d) of
          None \<Rightarrow> (True, c\<lparr>kind := ConditionDamage d\<rparr>, k)
        | Some (damage, d) \<Rightarrow> let (ok, k) = doDamage e c d damage k in (ok, c\<lparr>kind := ConditionDamage d\<rparr>, k))"

text \<open>A field on the tile that does the same damage keeps the condition from running out.\<close>

definition onTickCondition :: "cond_env \<Rightarrow> ConditionType_t \<Rightarrow> bool \<Rightarrow> bool" where
  "onTickCondition e t bRemove =
     (case ce_field e of
        None \<Rightarrow> bRemove
      | Some f \<Rightarrow> if t \<in> {CONDITION_FIRE, CONDITION_ENERGY, CONDITION_POISON, CONDITION_BLEEDING} then f \<noteq> ConditionToDamageType t else bRemove)"

definition damage_executeCondition :: "cond_env \<Rightarrow> int \<Rightarrow> Condition \<Rightarrow> DamageData \<Rightarrow> cre \<Rightarrow> bool \<times> Condition \<times> cre" where
  "damage_executeCondition e interval c d k =
     (if periodDamage d \<noteq> 0
      then let t = periodDamageTick d + interval;
               (d, k) = (if t \<ge> tickInterval d then (d\<lparr>periodDamageTick := 0\<rparr>, snd (doDamage e c d (periodDamage d) k))
                         else (d\<lparr>periodDamageTick := t\<rparr>, k));
               (alive, c) = base_executeCondition e interval (c\<lparr>kind := ConditionDamage d\<rparr>)
           in (alive, c, k)
      else case damageList d of
        [] \<Rightarrow> let (alive, c) = base_executeCondition e interval c in (alive, c, k)
      | x # xs \<Rightarrow>
          let bRemove = onTickCondition e (conditionType c) (ticks c \<noteq> -1);
              x = x\<lparr>timeLeft := timeLeft x - interval\<rparr>;
              (d, k) = (if timeLeft x \<le> 0
                        then (d\<lparr>damageList := (if bRemove then xs else x\<lparr>timeLeft := iv_interval x\<rparr> # xs)\<rparr>,
                              snd (doDamage e c d (iv_value x) k))
                        else (d\<lparr>damageList := x # xs\<rparr>, k));
              c = c\<lparr>kind := ConditionDamage d\<rparr>;
              c = (if \<not> bRemove \<and> ticks c > 0 then c\<lparr>endTime := endTime c + interval\<rparr> else c);
              (alive, c) = base_executeCondition e (if bRemove then interval else 0) c
          in (alive, c, k))"

subsection \<open>The virtual methods\<close>

definition speed_of :: "cond_env \<Rightarrow> SpeedData \<Rightarrow> SpeedData" where
  "speed_of e s =
     (if speedDelta s = 0
      then let (lo, hi) = ce_formula e s (ce_baseSpeed e) in s\<lparr>speedDelta := uniform_random (ce_random e) lo hi\<rparr>
      else s)"

definition light_interval :: "int \<Rightarrow> LightData \<Rightarrow> LightData option" where
  "light_interval tk l =
     (if lightLevel l = 0 then None
      else Some (l\<lparr>lightChangeInterval := of_int (c_div tk (uint (lightLevel l))), internalLightTicks := 0\<rparr>))"

definition set_light :: "LightData \<Rightarrow> cre \<Rightarrow> cre" where
  "set_light l k = cre_say [Change_Light] (k\<lparr>internalLight := (lightLevel l, lightColor l)\<rparr>)"

definition startCondition :: "cond_env \<Rightarrow> Condition \<Rightarrow> cre \<Rightarrow> (bool \<times> Condition \<times> cre) option" where
  "startCondition e c k =
     (let c = base_startCondition e c
      in case kind c of
           ConditionGeneric \<Rightarrow> Some (True, c, k)
         | ConditionRegeneration _ \<Rightarrow> Some (True, c, k)
         | ConditionSoul _ \<Rightarrow> Some (True, c, k)
         | ConditionInvisible \<Rightarrow> Some (True, c, cre_say [Change_Visible False] k)
         | ConditionAttributes a \<Rightarrow> (let (a, k) = attr_apply e a k in Some (True, c\<lparr>kind := ConditionAttributes a\<rparr>, k))
         | ConditionDamage d \<Rightarrow>
             Option.bind (damage_init e (c, d)) (\<lambda>(ok, c, d).
               if ok then Some (strike_next e (c, d) k) else Some (False, c\<lparr>kind := ConditionDamage d\<rparr>, k))
         | ConditionSpeed s \<Rightarrow>
             (let s = speed_of e s in Some (True, c\<lparr>kind := ConditionSpeed s\<rparr>, changeSpeed (speedDelta s) k))
         | ConditionOutfit o' \<Rightarrow> Some (True, c, cre_say [Change_Outfit o'] k)
         | ConditionLight l \<Rightarrow> map_option (\<lambda>l. (True, c\<lparr>kind := ConditionLight l\<rparr>, set_light l k)) (light_interval (ticks c) l))"

definition regen_execute :: "cond_env \<Rightarrow> int \<Rightarrow> bool \<Rightarrow> RegenData \<Rightarrow> cre \<Rightarrow> RegenData \<times> cre" where
  "regen_execute e interval buff r k =
     (let r = r\<lparr>internalHealthTicks := internalHealthTicks r + of_int interval, internalManaTicks := internalManaTicks r + of_int interval\<rparr>
      in if ce_protected e then (r, k)
         else let (r, k) = (if internalHealthTicks r \<ge> healthTicks r
                            then (r\<lparr>internalHealthTicks := 0\<rparr>,
                                  cre_say (Gain_Health (healthGain r)
                                           # (if buff \<and> ce_realGain e > 0 \<and> ce_player e then [Healed (ce_realGain e)] else [])) k)
                            else (r, k))
              in if internalManaTicks r \<ge> manaTicks r then (r\<lparr>internalManaTicks := 0\<rparr>, cre_say [Gain_Mana (manaGain r)] k) else (r, k))"

definition soul_execute :: "cond_env \<Rightarrow> int \<Rightarrow> SoulData \<Rightarrow> cre \<Rightarrow> SoulData \<times> cre" where
  "soul_execute e interval s k =
     (let s = s\<lparr>internalSoulTicks := internalSoulTicks s + of_int interval\<rparr>
      in if ce_player e \<and> \<not> ce_protected e \<and> internalSoulTicks s \<ge> soulTicks s
         then (s\<lparr>internalSoulTicks := 0\<rparr>, cre_say [Gain_Soul (soulGain s)] k)
         else (s, k))"

definition light_execute :: "cond_env \<Rightarrow> int \<Rightarrow> LightData \<Rightarrow> cre \<Rightarrow> LightData \<times> cre" where
  "light_execute e interval l k =
     (let l = l\<lparr>internalLightTicks := internalLightTicks l + of_int interval\<rparr>
      in if internalLightTicks l \<ge> lightChangeInterval l
         then let (level, color) = getCreatureLight e k
              in (l\<lparr>internalLightTicks := 0\<rparr>,
                  if level > 0 then cre_say [Change_Light] (k\<lparr>internalLight := (level - 1, color)\<rparr>) else k)
         else (l, k))"

definition executeCondition :: "cond_env \<Rightarrow> int \<Rightarrow> Condition \<Rightarrow> cre \<Rightarrow> bool \<times> Condition \<times> cre" where
  "executeCondition e interval c k =
     (let go = (\<lambda>kd k. let (alive, c) = base_executeCondition e interval (c\<lparr>kind := kd\<rparr>) in (alive, c, k))
      in case kind c of
           ConditionRegeneration r \<Rightarrow> (let (r, k) = regen_execute e interval (isBuff c) r k in go (ConditionRegeneration r) k)
         | ConditionSoul s \<Rightarrow> (let (s, k) = soul_execute e interval s k in go (ConditionSoul s) k)
         | ConditionLight l \<Rightarrow> (let (l, k) = light_execute e interval l k in go (ConditionLight l) k)
         | ConditionDamage d \<Rightarrow> damage_executeCondition e interval c d k
         | kd \<Rightarrow> go kd k)"

definition endCondition :: "cond_env \<Rightarrow> Condition \<Rightarrow> cre \<Rightarrow> cre" where
  "endCondition e c k =
     (case kind c of
        ConditionAttributes a \<Rightarrow> attr_end e a k
      | ConditionSpeed s \<Rightarrow> changeSpeed (- speedDelta s) k
      | ConditionInvisible \<Rightarrow> if isInvisible k then k else cre_say [Change_Visible True] k
      | ConditionOutfit _ \<Rightarrow> cre_say [Change_Outfit (ce_defaultOutfit e)] k
      | ConditionLight _ \<Rightarrow> cre_say [Change_Light] (k\<lparr>internalLight := (0, 0)\<rparr>)
      | _ \<Rightarrow> k)"

text \<open>\<open>addCondition\<close> of a running condition \<open>c\<close>, which takes over a new one \<open>d\<close> of the same type, id and sub-id.\<close>

definition damage_addCondition :: "cond_env \<Rightarrow> Condition \<Rightarrow> DamageData \<Rightarrow> Condition \<Rightarrow> DamageData \<Rightarrow> cre \<Rightarrow> (Condition \<times> cre) option" where
  "damage_addCondition e c d c' d' k =
     (if conditionType c' \<noteq> conditionType c \<or> \<not> damage_updateCondition c d c' d' then Some (c, k)
      else
        let c = setTicks e (ticks c') c;
            nextTimeLeft = (case damageList d of [] \<Rightarrow> tickInterval d' | x # _ \<Rightarrow> timeLeft x);
            d = d\<lparr>owner := owner d', maxDamage := maxDamage d', minDamage := minDamage d', startDamage := startDamage d',
                  tickInterval := tickInterval d', periodDamage := periodDamage d', damageList := damageList d'\<rparr>
        in map_option (\<lambda>(ok, c, d).
             if \<not> ok then (c\<lparr>kind := ConditionDamage d\<rparr>, k)
             else let d = d\<lparr>damageList := (case damageList d of [] \<Rightarrow> [] | x # xs \<Rightarrow> x\<lparr>timeLeft := nextTimeLeft\<rparr> # xs)\<rparr>
                  in snd (strike_next e (c, d) k)) (damage_init e (c, d)))"

definition cond_addCondition :: "cond_env \<Rightarrow> Condition \<Rightarrow> Condition \<Rightarrow> cre \<Rightarrow> (Condition \<times> cre) option" where
  "cond_addCondition e c c' k =
     (let take_ticks = setTicks e (ticks c') c
      in case (kind c, kind c') of
           (ConditionDamage d, ConditionDamage d') \<Rightarrow> damage_addCondition e c d c' d' k
         | (ConditionSpeed s, ConditionSpeed s') \<Rightarrow>
             (if conditionType c \<noteq> conditionType c' \<or> ticks c = -1 \<and> ticks c' > 0 then Some (c, k)
              else let new = speed_of e s'; change = speedDelta new - speedDelta s
                   in Some (take_ticks\<lparr>kind := ConditionSpeed new\<rparr>, if change \<noteq> 0 then changeSpeed change k else k))
         | (kd, kd') \<Rightarrow>
             (if \<not> base_updateCondition e c c' then Some (c, k)
              else case (kd, kd') of
                (ConditionAttributes a, ConditionAttributes a') \<Rightarrow>
                  (let k = attr_end e a k;
                       (a, k) = attr_apply e (a\<lparr>skills := skills a', skillsPercent := skillsPercent a', stats := stats a',
                                                statsPercent := statsPercent a'\<rparr>) k
                   in Some (take_ticks\<lparr>kind := ConditionAttributes a\<rparr>, k))
              | (ConditionRegeneration r, ConditionRegeneration r') \<Rightarrow>
                  Some (take_ticks\<lparr>kind := ConditionRegeneration (r\<lparr>healthTicks := healthTicks r', manaTicks := manaTicks r',
                          healthGain := healthGain r', manaGain := manaGain r'\<rparr>)\<rparr>, k)
              | (ConditionSoul s, ConditionSoul s') \<Rightarrow>
                  Some (take_ticks\<lparr>kind := ConditionSoul (s\<lparr>soulTicks := soulTicks s', soulGain := soulGain s'\<rparr>)\<rparr>, k)
              | (ConditionOutfit _, ConditionOutfit o') \<Rightarrow>
                  Some (take_ticks\<lparr>kind := ConditionOutfit o'\<rparr>, cre_say [Change_Outfit o'] k)
              | (ConditionLight l, ConditionLight l') \<Rightarrow>
                  map_option (\<lambda>l. (take_ticks\<lparr>kind := ConditionLight l\<rparr>, set_light l k))
                    (light_interval (ticks c') (l\<lparr>lightLevel := lightLevel l', lightColor := lightColor l'\<rparr>))
              | _ \<Rightarrow> Some (take_ticks, k)))"

subsection \<open>The conditions of a creature\<close>

definition hasCondition :: "cond_env \<Rightarrow> ConditionType_t \<Rightarrow> u32 \<Rightarrow> cre \<Rightarrow> bool" where
  "hasCondition e t sub k \<longleftrightarrow>
     \<not> ce_suppress e t \<and> list_ex (\<lambda>c. conditionType c = t \<and> subId c = sub \<and> endTime c \<ge> ce_now e) (conditions k)"

definition getCondition :: "ConditionType_t \<Rightarrow> int \<Rightarrow> u32 \<Rightarrow> cre \<Rightarrow> Condition option" where
  "getCondition t i sub k = find (\<lambda>c. conditionType c = t \<and> cid c = i \<and> subId c = sub) (conditions k)"

definition drop_condition :: "cond_env \<Rightarrow> Condition \<Rightarrow> cre \<Rightarrow> cre" where
  "drop_condition e c k =
     cre_say [Cond_Ended (conditionType c)] (endCondition e c (k\<lparr>conditions := remove1 c (conditions k)\<rparr>))"

text \<open>The three forms of \<open>removeCondition\<close>: all conditions of a type, those with an id, and one condition. The paralysis of a walking
  creature is removed later.\<close>

fun remove_all :: "cond_env \<Rightarrow> bool \<Rightarrow> Condition list \<Rightarrow> cre \<Rightarrow> cre" where
  "remove_all e force [] k = k"
| "remove_all e force (c # cs) k =
     (if \<not> force \<and> conditionType c = CONDITION_PARALYZE \<and> ce_walkDelay e > 0
      then cre_say [Remove_Later (conditionType c)] k
      else remove_all e force cs (drop_condition e c k))"

definition removeCondition :: "cond_env \<Rightarrow> ConditionType_t \<Rightarrow> bool \<Rightarrow> cre \<Rightarrow> cre" where
  "removeCondition e t force k = remove_all e force (filter (\<lambda>c. conditionType c = t) (conditions k)) k"

definition removeConditionId :: "cond_env \<Rightarrow> ConditionType_t \<Rightarrow> int \<Rightarrow> bool \<Rightarrow> cre \<Rightarrow> cre" where
  "removeConditionId e t i force k = remove_all e force (filter (\<lambda>c. conditionType c = t \<and> cid c = i) (conditions k)) k"

definition removeOne :: "cond_env \<Rightarrow> Condition \<Rightarrow> bool \<Rightarrow> cre \<Rightarrow> cre" where
  "removeOne e c force k = (if c \<in> set (conditions k) then remove_all e force [c] k else k)"

definition onAddCondition :: "cond_env \<Rightarrow> ConditionType_t \<Rightarrow> cre \<Rightarrow> cre" where
  "onAddCondition e t k =
     (let k = cre_say [Cond_Added t] k
      in if t = CONDITION_PARALYZE \<and> hasCondition e CONDITION_HASTE 0 k then removeCondition e CONDITION_HASTE False k
         else if t = CONDITION_HASTE \<and> hasCondition e CONDITION_PARALYZE 0 k then removeCondition e CONDITION_PARALYZE False k
         else k)"

definition put_condition :: "Condition \<Rightarrow> Condition \<Rightarrow> cre \<Rightarrow> cre" where
  "put_condition c d k = k\<lparr>conditions := map (\<lambda>x. if x = c then d else x) (conditions k)\<rparr>"

definition addCondition :: "cond_env \<Rightarrow> Condition \<Rightarrow> bool \<Rightarrow> cre \<Rightarrow> (bool \<times> cre) option" where
  "addCondition e c force k =
     (if \<not> force \<and> conditionType c = CONDITION_HASTE \<and> hasCondition e CONDITION_PARALYZE 0 k \<and> ce_walkDelay e > 0
      then Some (False, cre_say [Add_Later (conditionType c)] k)
      else case getCondition (conditionType c) (cid c) (subId c) k of
        Some prev \<Rightarrow> map_option (\<lambda>(new, k). (True, put_condition prev new k)) (cond_addCondition e prev c k)
      | None \<Rightarrow>
          map_option (\<lambda>(ok, c, k).
            if ok then (True, onAddCondition e (conditionType c) (k\<lparr>conditions := conditions k @ [c]\<rparr>)) else (False, k))
            (startCondition e c k))"

fun execute_all :: "cond_env \<Rightarrow> int \<Rightarrow> Condition list \<Rightarrow> cre \<Rightarrow> cre" where
  "execute_all e interval [] k = k"
| "execute_all e interval (c # cs) k =
     (let (alive, c', k) = executeCondition e interval c k; k = put_condition c c' k
      in execute_all e interval cs (if alive then k else drop_condition e c' k))"

definition executeConditions :: "cond_env \<Rightarrow> int \<Rightarrow> cre \<Rightarrow> cre" where
  "executeConditions e interval k = execute_all e interval (conditions k) k"

end
