(* ===== verification/Condition_Effects.thy ===== *)
theory Condition_Effects
  imports Condition_Model
begin

section \<open>What conditions do to a creature is undone\<close>

text \<open>
  Conditions change the speed, the skills and the stats of a creature when they start and take the change back when they end; a
  running condition may be replaced by a new one of the same key. The invariant \<open>balanced\<close> relates the values of the creature to its
  list of conditions; each operation of \<open>Condition_Model\<close> keeps it.
\<close>

subsection \<open>What a condition holds on its creature\<close>

type_synonym cond_key = "ConditionType_t \<times> int \<times> u32"

definition key :: "Condition \<Rightarrow> cond_key" where
  "key c = (conditionType c, cid c, subId c)"

definition speed_part :: "Condition \<Rightarrow> int" where
  "speed_part c = (case kind c of ConditionSpeed s \<Rightarrow> speedDelta s | _ \<Rightarrow> 0)"

definition skill_part :: "nat \<Rightarrow> Condition \<Rightarrow> int" where
  "skill_part i c = (case kind c of ConditionAttributes a \<Rightarrow> if i < 7 then skills a ! i else 0 | _ \<Rightarrow> 0)"

definition stat_part :: "nat \<Rightarrow> Condition \<Rightarrow> int" where
  "stat_part i c = (case kind c of ConditionAttributes a \<Rightarrow> if i < 4 then stats a ! i else 0 | _ \<Rightarrow> 0)"

text \<open>The three values together, as functions of a creature and of a condition; attributes count for players only.\<close>

definition held :: "cre \<Rightarrow> int \<times> (nat \<Rightarrow> int) \<times> (nat \<Rightarrow> int)" where
  "held k = (varSpeed k, varSkills k, varStats k)"

definition gives :: "bool \<Rightarrow> Condition \<Rightarrow> int \<times> (nat \<Rightarrow> int) \<times> (nat \<Rightarrow> int)" where
  "gives pl c = (speed_part c, \<lambda>i. if pl then skill_part i c else 0, \<lambda>i. if pl then stat_part i c else 0)"

definition plus3 :: "int \<times> (nat \<Rightarrow> int) \<times> (nat \<Rightarrow> int) \<Rightarrow> int \<times> (nat \<Rightarrow> int) \<times> (nat \<Rightarrow> int) \<Rightarrow> int \<times> (nat \<Rightarrow> int) \<times> (nat \<Rightarrow> int)" where
  "plus3 x y = (fst x + fst y, \<lambda>i. fst (snd x) i + fst (snd y) i, \<lambda>i. snd (snd x) i + snd (snd y) i)"

definition minus3 :: "int \<times> (nat \<Rightarrow> int) \<times> (nat \<Rightarrow> int) \<Rightarrow> int \<times> (nat \<Rightarrow> int) \<times> (nat \<Rightarrow> int)" where
  "minus3 x = (- fst x, \<lambda>i. - fst (snd x) i, \<lambda>i. - snd (snd x) i)"

definition zero3 :: "int \<times> (nat \<Rightarrow> int) \<times> (nat \<Rightarrow> int)" where
  "zero3 = (0, \<lambda>_. 0, \<lambda>_. 0)"

lemma plus3_laws [simp]:
  "plus3 x zero3 = x" "plus3 (plus3 x y) (minus3 y) = x" "plus3 (plus3 x (minus3 y)) y = x"
  by (simp_all add: plus3_def minus3_def zero3_def)

lemma plus3_comm: "plus3 (plus3 x y) z = plus3 (plus3 x z) y"
  by (simp add: plus3_def add.assoc add.commute fun_eq_iff)

fun all_given :: "bool \<Rightarrow> Condition list \<Rightarrow> int \<times> (nat \<Rightarrow> int) \<times> (nat \<Rightarrow> int)" where
  "all_given pl [] = zero3"
| "all_given pl (c # cs) = plus3 (all_given pl cs) (gives pl c)"

lemma plus3_assoc: "plus3 (plus3 x y) z = plus3 x (plus3 y z)"
  by (simp add: plus3_def add.assoc)

lemma all_given_append: "all_given pl (cs @ [c]) = plus3 (all_given pl cs) (gives pl c)"
  by (induction cs) (simp_all add: plus3_comm)

lemma all_given_remove1: "c \<in> set cs \<Longrightarrow> all_given pl cs = plus3 (all_given pl (remove1 c cs)) (gives pl c)"
  by (induction cs) (auto simp: plus3_comm)

lemma all_given_map:
  assumes "distinct cs" and "c \<in> set cs"
  shows "all_given pl (map (\<lambda>x. if x = c then d else x) cs) = plus3 (all_given pl (remove1 c cs)) (gives pl d)"
  using assms
proof (induction cs)
  case (Cons x xs)
  show ?case
  proof (cases "x = c")
    case True
    then have "map (\<lambda>x. if x = c then d else x) xs = xs"
      using Cons.prems by (intro map_idI) auto
    then show ?thesis using True by simp
  next
    case False
    then show ?thesis using Cons by (simp add: plus3_comm)
  qed
qed simp

lemma held_simps [simp]:
  "held (cre_say es k) = held k" "held (k\<lparr>conditions := cs\<rparr>) = held k" "held (k\<lparr>internalLight := l\<rparr>) = held k"
  "conditions (cre_say es k) = conditions k" "conditions (changeSpeed d k) = conditions k"
  "conditions (setVarSkill i d k) = conditions k" "conditions (setVarStats i d k) = conditions k"
  by (simp_all add: held_def cre_say_def changeSpeed_def setVarSkill_def setVarStats_def)

lemma held_changeSpeed: "held (changeSpeed d k) = plus3 (held k) (d, \<lambda>_. 0, \<lambda>_. 0)"
  by (simp add: held_def changeSpeed_def plus3_def cre_say_def)

lemma fold_setVarSkill:
  "distinct xs \<Longrightarrow> held (fold (\<lambda>i. setVarSkill i (f i)) xs k) = plus3 (held k) (0, \<lambda>i. if i \<in> set xs then f i else 0, \<lambda>_. 0)
     \<and> conditions (fold (\<lambda>i. setVarSkill i (f i)) xs k) = conditions k"
  by (induction xs arbitrary: k) (auto simp: held_def plus3_def setVarSkill_def fun_eq_iff)

lemma fold_setVarStats:
  "distinct xs \<Longrightarrow> held (fold (\<lambda>i. setVarStats i (f i)) xs k) = plus3 (held k) (0, \<lambda>_. 0, \<lambda>i. if i \<in> set xs then f i else 0)
     \<and> conditions (fold (\<lambda>i. setVarStats i (f i)) xs k) = conditions k"
  by (induction xs arbitrary: k) (auto simp: held_def plus3_def setVarStats_def cre_say_def fun_eq_iff)

subsection \<open>Starting gives and ending takes back\<close>

definition attr_gives :: "bool \<Rightarrow> AttrData \<Rightarrow> int \<times> (nat \<Rightarrow> int) \<times> (nat \<Rightarrow> int)" where
  "attr_gives pl a = (0, \<lambda>i. if pl \<and> i < 7 then skills a ! i else 0, \<lambda>i. if pl \<and> i < 4 then stats a ! i else 0)"

lemma gives_simps [simp]:
  "kind c = ConditionAttributes a \<Longrightarrow> gives pl c = attr_gives pl a"
  "kind c = ConditionSpeed s \<Longrightarrow> gives pl c = (speedDelta s, \<lambda>_. 0, \<lambda>_. 0)"
  "kind c = ConditionGeneric \<Longrightarrow> gives pl c = zero3" "kind c = ConditionInvisible \<Longrightarrow> gives pl c = zero3"
  "kind c = ConditionRegeneration r \<Longrightarrow> gives pl c = zero3" "kind c = ConditionSoul so \<Longrightarrow> gives pl c = zero3"
  "kind c = ConditionDamage d \<Longrightarrow> gives pl c = zero3" "kind c = ConditionOutfit f \<Longrightarrow> gives pl c = zero3"
  "kind c = ConditionLight l \<Longrightarrow> gives pl c = zero3"
  by (auto simp: gives_def attr_gives_def speed_part_def skill_part_def stat_part_def zero3_def fun_eq_iff)

lemma attr_apply_held:
  assumes "attr_apply e a k = (a', k')"
  shows "held k' = plus3 (held k) (attr_gives (ce_player e) a')" "conditions k' = conditions k"
proof -
  have eq: "held k' = plus3 (held k) (attr_gives (ce_player e) a') \<and> conditions k' = conditions k"
  proof (cases "ce_player e")
    case False
    then have "a' = a" "k' = k" using assms by (simp_all add: attr_apply_def)
    moreover have "attr_gives False a = zero3" by (simp add: attr_gives_def zero3_def)
    ultimately show ?thesis using False by simp
  next
    case True
    have sk: "skills (updatePercentStats e b) = skills b" for b
      by (simp add: updatePercentStats_def)
    show ?thesis
      using assms True
      by (auto simp: attr_apply_def Let_def updateSkills_def updateStats_def fold_setVarSkill fold_setVarStats attr_gives_def
          plus3_def fun_eq_iff sk)
  qed
  show "held k' = plus3 (held k) (attr_gives (ce_player e) a')" "conditions k' = conditions k" using eq by auto
qed

lemma attr_end_held:
  "held (attr_end e a k) = plus3 (held k) (minus3 (attr_gives (ce_player e) a))" "conditions (attr_end e a k) = conditions k"
  by (auto simp: attr_end_def Let_def fold_setVarSkill fold_setVarStats attr_gives_def plus3_def minus3_def fun_eq_iff)

lemma doDamage_held: "doDamage e c d v k = (ok, k') \<Longrightarrow> held k' = held k \<and> conditions k' = conditions k"
  by (auto simp: doDamage_def split: if_splits)

lemma strike_next_held:
  assumes "strike_next e (c, d) k = (ok, c', k')"
  shows "held k' = held k" "conditions k' = conditions k" "key c' = key c" "\<exists>d'. kind c' = ConditionDamage d'"
  using assms by (auto simp: strike_next_def key_def split: option.splits prod.splits dest: doDamage_held)

lemma key_simps [simp]:
  "key (c\<lparr>endTime := t\<rparr>) = key c" "key (c\<lparr>ticks := n\<rparr>) = key c" "key (c\<lparr>kind := kd\<rparr>) = key c"
  "key (setTicks e n c) = key c" "kind (setTicks e n c) = kind c"
  "key (base_startCondition e c) = key c" "kind (base_startCondition e c) = kind c"
  by (simp_all add: key_def setTicks_def base_startCondition_def)

lemma add_rounds_key: "key (fst (add_rounds e n t v (c, d))) = key c"
  by (induction n arbitrary: c d) simp_all

lemma addDamage_key: "key (fst (snd (addDamage e r t v cd))) = key (fst cd)"
  using add_rounds_key [of e _ _ v "fst cd" "snd cd"] by (simp add: addDamage_def Let_def)

lemma fold_addDamage_key:
  "key (fst (fold (\<lambda>v cd. snd (addDamage e 1 (tickInterval (snd cd)) (- v) cd)) xs cd)) = key (fst cd)"
  by (induction xs arbitrary: cd) (simp_all add: addDamage_key)

lemma damage_init_key: "damage_init e (c, d) = Some (ok, c', d') \<Longrightarrow> key c' = key c"
proof -
  have "pred_option (\<lambda>x. key (fst (snd x)) = key c) (damage_init e (c, d))"
    using fold_addDamage_key [of e]
    by (simp add: damage_init_def Let_def split_def option.pred_map comp_def) (simp add: pred_option_def)
  then show "damage_init e (c, d) = Some (ok, c', d') \<Longrightarrow> key c' = key c" by simp
qed

lemma startCondition_held:
  assumes "startCondition e c k = Some (ok, c', k')"
  shows "held k' = plus3 (held k) (gives (ce_player e) c') \<and> conditions k' = conditions k \<and> key c' = key c"
proof (cases "kind c")
  case (ConditionAttributes a)
  then show ?thesis
    using assms by (auto simp: startCondition_def Let_def attr_apply_held split: prod.splits)
next
  case (ConditionDamage d)
  then obtain ok1 c1 d1 where i: "damage_init e (base_startCondition e c, d) = Some (ok1, c1, d1)"
    and r: "(ok, c', k') = (if ok1 then strike_next e (c1, d1) k else (False, c1\<lparr>kind := ConditionDamage d1\<rparr>, k))"
    using assms by (auto simp: startCondition_def Let_def split: bind_splits if_splits)
  have "key c1 = key c"
    using damage_init_key [OF i] by simp
  then show ?thesis
    using r strike_next_held [of e c1 d1 k ok c' k'] by (cases ok1) auto
next
  case (ConditionSpeed s)
  then show ?thesis
    using assms by (auto simp: startCondition_def Let_def held_changeSpeed)
qed (use assms in \<open>auto simp: startCondition_def Let_def set_light_def\<close>)

lemma base_execute_simps:
  "base_executeCondition e iv c = (alive, c') \<Longrightarrow> key c' = key c \<and> kind c' = kind c"
  by (auto simp: base_executeCondition_def Let_def split: if_splits)

lemma gives_kind: "kind c = kind c' \<Longrightarrow> gives pl c = gives pl c'"
  by (simp add: gives_def speed_part_def skill_part_def stat_part_def fun_eq_iff)

lemma damage_execute_held:
  assumes "damage_executeCondition e iv c d k = (alive, c', k')" and "kind c = ConditionDamage d"
  shows "held k' = held k \<and> conditions k' = conditions k \<and> key c' = key c \<and> (\<exists>d'. kind c' = ConditionDamage d')"
proof -
  have h: "held (snd (doDamage e c d v k)) = held k" "conditions (snd (doDamage e c d v k)) = conditions k" for c d v
    using doDamage_held [of e c d v k] by (metis prod.collapse)+
  show ?thesis
    using assms
    by (auto simp: damage_executeCondition_def Let_def h split: if_splits list.splits prod.splits dest!: base_execute_simps)
qed

lemma executeCondition_held:
  assumes "executeCondition e iv c k = (alive, c', k')"
  shows "held k' = held k \<and> conditions k' = conditions k \<and> key c' = key c \<and> gives pl c' = gives pl c"
proof (cases "kind c")
  case (ConditionRegeneration r)
  obtain r2 k2 where r: "regen_execute e iv (isBuff c) r k = (r2, k2)" by fastforce
  then have "held k2 = held k \<and> conditions k2 = conditions k"
    by (auto simp: regen_execute_def Let_def split: if_splits)
  then show ?thesis
    using assms ConditionRegeneration r by (auto simp: executeCondition_def split: prod.splits dest!: base_execute_simps)
next
  case (ConditionSoul s)
  then show ?thesis
    using assms by (auto simp: executeCondition_def soul_execute_def Let_def split: prod.splits if_splits dest!: base_execute_simps)
next
  case (ConditionLight l)
  obtain l2 k2 where l: "light_execute e iv l k = (l2, k2)" by fastforce
  then have "held k2 = held k \<and> conditions k2 = conditions k"
    by (auto simp: light_execute_def Let_def split: if_splits prod.splits)
  then show ?thesis
    using assms ConditionLight l by (auto simp: executeCondition_def split: prod.splits dest!: base_execute_simps)
next
  case (ConditionDamage d)
  then show ?thesis
    using assms damage_execute_held [of e iv c d k alive c' k'] by (auto simp: executeCondition_def)
qed (use assms in \<open>auto simp: executeCondition_def split: prod.splits dest!: base_execute_simps\<close>)

lemma minus3_speed: "minus3 (d, \<lambda>_. 0, \<lambda>_. 0) = (- d, \<lambda>_. 0, \<lambda>_. 0)"
  by (simp add: minus3_def)

lemma endCondition_held:
  "held (endCondition e c k) = plus3 (held k) (minus3 (gives (ce_player e) c))" "conditions (endCondition e c k) = conditions k"
proof -
  have z: "minus3 zero3 = zero3" by (simp add: minus3_def zero3_def)
  show "held (endCondition e c k) = plus3 (held k) (minus3 (gives (ce_player e) c))"
    by (cases "kind c") (simp_all add: endCondition_def attr_end_held held_changeSpeed z minus3_speed)
  show "conditions (endCondition e c k) = conditions k"
    by (cases "kind c") (auto simp: endCondition_def attr_end_held)
qed

definition swaps :: "bool \<Rightarrow> Condition \<Rightarrow> cre \<Rightarrow> Condition \<Rightarrow> cre \<Rightarrow> bool" where
  "swaps pl c k c' k' \<longleftrightarrow>
     plus3 (held k') (gives pl c) = plus3 (held k) (gives pl c') \<and> conditions k' = conditions k \<and> key c' = key c"

lemma swaps_refl [simp]: "swaps pl c k c k"
  by (simp add: swaps_def)

lemma damage_addCondition_swaps:
  assumes "damage_addCondition e c d c' d' k = Some (n, k')" and "kind c = ConditionDamage d"
  shows "swaps pl c k n k'"
proof (cases "conditionType c' \<noteq> conditionType c \<or> \<not> damage_updateCondition c d c' d'")
  case True
  then show ?thesis using assms by (auto simp: damage_addCondition_def)
next
  case False
  let ?d = "d\<lparr>owner := owner d', maxDamage := maxDamage d', minDamage := minDamage d', startDamage := startDamage d',
    tickInterval := tickInterval d', periodDamage := periodDamage d', damageList := damageList d'\<rparr>"
  obtain ok c1 d1 where i: "damage_init e (setTicks e (ticks c') c, ?d) = Some (ok, c1, d1)"
    using False assms(1) by (auto simp: damage_addCondition_def Let_def)
  define d2 where "d2 = d1\<lparr>damageList := (case damageList d1 of [] \<Rightarrow> []
    | x # xs \<Rightarrow> x\<lparr>timeLeft := (case damageList d of [] \<Rightarrow> tickInterval d' | x # _ \<Rightarrow> timeLeft x)\<rparr> # xs)\<rparr>"
  have r: "(if ok then snd (strike_next e (c1, d2) k) else (c1\<lparr>kind := ConditionDamage d1\<rparr>, k)) = (n, k')"
    using False assms(1) i by (auto simp: damage_addCondition_def Let_def d2_def)
  obtain ok2 n2 k2 where st: "strike_next e (c1, d2) k = (ok2, n2, k2)" by (metis prod_cases3)
  have "key c1 = key c" using damage_init_key [OF i] by simp
  then show ?thesis
    using r st strike_next_held [OF st] assms(2) by (cases ok) (auto simp: swaps_def)
qed

lemma attr_takeover_swaps:
  assumes "attr_apply e a1 (attr_end e a k) = (a2, k')" and "kind c = ConditionAttributes a"
  shows "swaps (ce_player e) c k (setTicks e' t c\<lparr>kind := ConditionAttributes a2\<rparr>) k'"
  using attr_apply_held [OF assms(1)] assms(2) by (simp add: swaps_def attr_end_held) (simp add: plus3_def minus3_def)

lemma speed_takeover:
  "plus3 (held (changeSpeed (a - b) k)) (b, \<lambda>_. 0, \<lambda>_. 0) = plus3 (held k) (a, \<lambda>_. 0, \<lambda>_. 0)"
  by (simp add: held_changeSpeed) (simp add: plus3_def)

lemma cond_addCondition_swaps:
  assumes "cond_addCondition e c c' k = Some (n, k')"
  shows "swaps (ce_player e) c k n k'"
proof (cases "kind c")
  case (ConditionDamage d)
  then show ?thesis
    using assms damage_addCondition_swaps [OF _ ConditionDamage]
    by (cases "kind c'") (auto simp: cond_addCondition_def Let_def swaps_def split: if_splits)
next
  case (ConditionSpeed s)
  then show ?thesis
    using assms by (cases "kind c'") (auto simp: cond_addCondition_def Let_def swaps_def speed_takeover split: if_splits)
next
  case (ConditionAttributes a)
  then show ?thesis
    using assms attr_takeover_swaps [OF _ ConditionAttributes]
    by (cases "kind c'") (auto simp: cond_addCondition_def Let_def swaps_def split: if_splits prod.splits)
qed (use assms in \<open>cases "kind c'", auto simp: cond_addCondition_def Let_def swaps_def set_light_def split: if_splits\<close>)+

subsection \<open>Creatures\<close>

text \<open>\<open>balanced pl v k\<close>: the conditions of the creature have different keys, and its speed, skills and stats are the values \<open>v\<close> from
  elsewhere plus what the running conditions give.\<close>

definition balanced :: "bool \<Rightarrow> int \<times> (nat \<Rightarrow> int) \<times> (nat \<Rightarrow> int) \<Rightarrow> cre \<Rightarrow> bool" where
  "balanced pl v k \<longleftrightarrow> distinct (map key (conditions k)) \<and> held k = plus3 v (all_given pl (conditions k))"

lemma balanced_say [simp]: "balanced pl v (cre_say es k) = balanced pl v k"
  by (simp add: balanced_def)

lemma drop_condition_balanced:
  assumes "balanced pl v k" and "c \<in> set (conditions k)" and "ce_player e = pl"
  shows "balanced pl v (drop_condition e c k)" "conditions (drop_condition e c k) = remove1 c (conditions k)"
proof -
  have d: "distinct (map key (remove1 c (conditions k)))"
    using assms(1) by (auto simp: balanced_def distinct_map distinct_remove1 inj_on_def notin_set_remove1)
  have "held (drop_condition e c k) = plus3 v (all_given pl (remove1 c (conditions k)))"
    using assms all_given_remove1 [OF assms(2), of pl]
    by (simp add: drop_condition_def endCondition_held balanced_def plus3_assoc [symmetric])
  then show "balanced pl v (drop_condition e c k)"
    using d by (simp add: balanced_def drop_condition_def endCondition_held)
  show "conditions (drop_condition e c k) = remove1 c (conditions k)"
    by (simp add: drop_condition_def endCondition_held)
qed

lemma remove_all_balanced:
  assumes "balanced pl v k" and "set cs \<subseteq> set (conditions k)" and "distinct cs" and "ce_player e = pl"
  shows "balanced pl v (remove_all e force cs k)"
  using assms
proof (induction cs arbitrary: k)
  case (Cons c cs)
  have d: "distinct (conditions k)"
    using Cons.prems(1) by (simp add: balanced_def distinct_map)
  have "balanced pl v (drop_condition e c k)" "conditions (drop_condition e c k) = remove1 c (conditions k)"
    using drop_condition_balanced [OF Cons.prems(1)] Cons.prems by simp_all
  moreover from this(2) have "set cs \<subseteq> set (conditions (drop_condition e c k))"
    using Cons.prems(2,3) d by (auto simp: set_remove1_eq)
  ultimately show ?case
    using Cons.IH [of "drop_condition e c k"] Cons.prems by simp
qed simp

lemma balanced_distinct: "balanced pl v k \<Longrightarrow> distinct (conditions k)"
  by (simp add: balanced_def distinct_map)

lemma removeCondition_balanced:
  assumes "balanced pl v k" and "ce_player e = pl"
  shows "balanced pl v (removeCondition e t force k)" "balanced pl v (removeConditionId e t i force k)" "balanced pl v (removeOne e c force k)"
  using balanced_distinct [OF assms(1)]
  by (auto simp: removeCondition_def removeConditionId_def removeOne_def assms simp del: remove_all.simps intro!: remove_all_balanced)

lemma onAddCondition_balanced: "balanced pl v k \<Longrightarrow> ce_player e = pl \<Longrightarrow> balanced pl v (onAddCondition e t k)"
  by (simp add: onAddCondition_def Let_def removeCondition_balanced)

lemma put_condition_balanced:
  assumes "balanced pl v k" and "c \<in> set (conditions k)" and "swaps pl c k c' k'"
  shows "balanced pl v (put_condition c c' k')"
proof -
  note d = balanced_distinct [OF assms(1)]
  have keys: "map key (map (\<lambda>x. if x = c then c' else x) (conditions k)) = map key (conditions k)"
    using assms(3) by (auto simp: swaps_def)
  have "plus3 (plus3 (held k') (gives pl c)) (minus3 (gives pl c)) = plus3 (plus3 (held k) (gives pl c')) (minus3 (gives pl c))"
    using assms(3) by (simp add: swaps_def)
  then have "held k' = plus3 (plus3 (held k) (gives pl c')) (minus3 (gives pl c))"
    by simp
  also have "held k = plus3 v (plus3 (all_given pl (remove1 c (conditions k))) (gives pl c))"
    using assms(1) all_given_remove1 [OF assms(2)] by (simp add: balanced_def)
  also have "plus3 (plus3 (plus3 v (plus3 (all_given pl (remove1 c (conditions k))) (gives pl c))) (gives pl c')) (minus3 (gives pl c))
      = plus3 v (plus3 (all_given pl (remove1 c (conditions k))) (gives pl c'))"
    by (simp add: plus3_def minus3_def)
  also have "\<dots> = plus3 v (all_given pl (map (\<lambda>x. if x = c then c' else x) (conditions k)))"
    by (simp add: all_given_map [OF d assms(2)])
  finally have "held k' = plus3 v (all_given pl (map (\<lambda>x. if x = c then c' else x) (conditions k)))" .
  moreover have "distinct (map key (map (\<lambda>x. if x = c then c' else x) (conditions k)))"
    unfolding keys using assms(1) by (simp add: balanced_def)
  ultimately show ?thesis
    using assms(3) by (simp add: balanced_def put_condition_def swaps_def del: map_map)
qed

lemma getCondition_SomeD: "getCondition t i sub k = Some c \<Longrightarrow> c \<in> set (conditions k)"
  by (auto simp: getCondition_def find_Some_iff)

lemma getCondition_NoneD: "getCondition (conditionType c) (cid c) (subId c) k = None \<Longrightarrow> key c \<notin> key ` set (conditions k)"
  by (auto simp: getCondition_def find_None_iff key_def)

lemma started_or_nothing:
  assumes "startCondition e c k = Some (ok, c', k')"
  shows "ok \<or> held k' = held k \<and> conditions k' = conditions k"
proof (cases "\<exists>d. kind c = ConditionDamage d")
  case True
  then have "\<exists>d'. kind c' = ConditionDamage d'"
    using assms strike_next_held(4) by (auto simp: startCondition_def Let_def split: bind_splits if_splits)
  then show ?thesis
    using startCondition_held [OF assms] by auto
next
  case False
  then show ?thesis
    using assms by (cases "kind c") (auto simp: startCondition_def Let_def split: prod.splits)
qed

lemma addCondition_balanced:
  assumes "balanced pl v k" and "ce_player e = pl" and "addCondition e c force k = Some (r, k')"
  shows "balanced pl v k'"
proof (cases "getCondition (conditionType c) (cid c) (subId c) k")
  case (Some prev)
  have "balanced pl v (put_condition prev n k2)" if "cond_addCondition e prev c k = Some (n, k2)" for n k2
    using put_condition_balanced [OF assms(1) getCondition_SomeD [OF Some]] cond_addCondition_swaps [OF that] assms(2) by simp
  then show ?thesis
    using assms(1,3) Some by (auto simp: addCondition_def split: if_splits)
next
  case None
  have "balanced pl v (k2\<lparr>conditions := conditions k2 @ [c2]\<rparr>)" "balanced pl v k2 \<or> ok"
    if st: "startCondition e c k = Some (ok, c2, k2)" for ok c2 k2
  proof -
    note h = startCondition_held [OF st]
    show "balanced pl v (k2\<lparr>conditions := conditions k2 @ [c2]\<rparr>)"
      using assms(1,2) h getCondition_NoneD [OF None] by (simp add: balanced_def all_given_append plus3_assoc)
    show "balanced pl v k2 \<or> ok"
      using assms(1) h started_or_nothing [OF st] by (auto simp: balanced_def)
  qed
  then show ?thesis
    using assms(1,3) None onAddCondition_balanced [of pl v _ e, OF _ assms(2)] by (auto simp: addCondition_def split: if_splits)
qed

lemma execute_all_balanced:
  assumes "balanced pl v k" and "ce_player e = pl" and "set cs \<subseteq> set (conditions k)" and "distinct (map key cs)"
  shows "balanced pl v (execute_all e iv cs k)"
  using assms
proof (induction cs arbitrary: k)
  case (Cons c cs)
  obtain alive c' k1 where ex: "executeCondition e iv c k = (alive, c', k1)" by (metis prod_cases3)
  note h = executeCondition_held [OF ex, of pl]
  have sw: "swaps pl c k c' k1" using h by (simp add: swaps_def)
  let ?k2 = "put_condition c c' k1"
  let ?k3 = "if alive then ?k2 else drop_condition e c' ?k2"
  have c: "c \<in> set (conditions k)" using Cons.prems by simp
  have k2: "balanced pl v ?k2" by (rule put_condition_balanced [OF Cons.prems(1) c sw])
  have c': "c' \<in> set (conditions ?k2)" using c h by (auto simp: put_condition_def)
  have k3: "balanced pl v ?k3" using k2 drop_condition_balanced [OF k2 c' Cons.prems(2)] by simp
  have "set cs \<subseteq> set (conditions ?k2)"
    using Cons.prems(3,4) h by (force simp: put_condition_def)
  moreover have "c' \<notin> set cs"
    using Cons.prems(4) h by (metis distinct.simps(2) imageI list.set_map list.simps(9))
  ultimately have "set cs \<subseteq> set (conditions ?k3)"
    using drop_condition_balanced(2) [OF k2 c' Cons.prems(2)] balanced_distinct [OF k2] by (auto simp: set_remove1_eq)
  then show ?case
    using Cons.IH [OF k3 Cons.prems(2)] Cons.prems(4) ex by (simp add: Let_def)
qed simp

lemma executeConditions_balanced:
  assumes "balanced pl v k" and "ce_player e = pl"
  shows "balanced pl v (executeConditions e iv k)"
  using assms execute_all_balanced [of pl v k e "conditions k" iv] by (simp add: executeConditions_def balanced_def [of pl v k])

subsection \<open>Histories\<close>

text \<open>The life of a creature as far as conditions go; \<open>elsewhere\<close> is a change of the same values by something else, such as an item.\<close>

inductive cond_reach :: "bool \<Rightarrow> int \<times> (nat \<Rightarrow> int) \<times> (nat \<Rightarrow> int) \<Rightarrow> cre \<Rightarrow> bool" for pl where
  start: "conditions k = [] \<Longrightarrow> cond_reach pl (held k) k"
| added: "cond_reach pl v k \<Longrightarrow> ce_player e = pl \<Longrightarrow> addCondition e c force k = Some (r, k') \<Longrightarrow> cond_reach pl v k'"
| executed: "cond_reach pl v k \<Longrightarrow> ce_player e = pl \<Longrightarrow> cond_reach pl v (executeConditions e iv k)"
| removed: "cond_reach pl v k \<Longrightarrow> ce_player e = pl \<Longrightarrow> cond_reach pl v (removeCondition e t force k)"
| removed_id: "cond_reach pl v k \<Longrightarrow> ce_player e = pl \<Longrightarrow> cond_reach pl v (removeConditionId e t i force k)"
| removed_one: "cond_reach pl v k \<Longrightarrow> ce_player e = pl \<Longrightarrow> cond_reach pl v (removeOne e c force k)"
| elsewhere: "cond_reach pl v k \<Longrightarrow> conditions k' = conditions k \<Longrightarrow> held k' = plus3 (held k) d \<Longrightarrow> cond_reach pl (plus3 v d) k'"

lemma cond_reach_balanced: "cond_reach pl v k \<Longrightarrow> balanced pl v k"
proof (induction rule: cond_reach.induct)
  case (start k)
  then show ?case by (simp add: balanced_def)
next
  case (added v k e c force r k')
  show ?case by (rule addCondition_balanced [OF added(4,2,3)])
next
  case (elsewhere v k k' d)
  then have "held k' = plus3 (plus3 v d) (all_given pl (conditions k'))"
    using plus3_comm [of v d "all_given pl (conditions k)"] by (simp add: balanced_def)
  then show ?case using elsewhere by (simp add: balanced_def)
qed (blast intro: executeConditions_balanced removeCondition_balanced)+

lemma all_given_parts:
  "fst (all_given pl cs) = sum_list (map speed_part cs)"
  "fst (snd (all_given pl cs)) i = (if pl then sum_list (map (skill_part i) cs) else 0)"
  "snd (snd (all_given pl cs)) i = (if pl then sum_list (map (stat_part i) cs) else 0)"
  by (induction cs) (auto simp: zero3_def plus3_def gives_def)

subsection \<open>Main result\<close>

text \<open>C23: Whatever conditions a creature receives, keeps, replaces and loses: no two of them have the same type, id and sub-id; its speed
  is what it has from elsewhere plus the sum of the running speed conditions, and the same holds for each skill and stat of
  a player. So every condition that ends takes back exactly what it gave, also after it was replaced by another one.\<close>

theorem conditions_balanced:
  assumes "cond_reach pl (speed0, skills0, stats0) k"
  shows "distinct (map key (conditions k))
    \<and> varSpeed k = speed0 + sum_list (map speed_part (conditions k))
    \<and> (\<forall>i. varSkills k i = skills0 i + (if pl then sum_list (map (skill_part i) (conditions k)) else 0))
    \<and> (\<forall>i. varStats k i = stats0 i + (if pl then sum_list (map (stat_part i) (conditions k)) else 0))"
  using cond_reach_balanced [OF assms] all_given_parts [of pl "conditions k"]
  by (simp add: balanced_def held_def plus3_def)

text \<open>A player of speed 220 receives a haste of 40 and then one of 60 in its place.\<close>

definition calm :: cond_env where
  "calm = \<lparr>ce_now = 1000, ce_player = True, ce_protected = False, ce_suppress = \<lambda>_. False, ce_walkDelay = 0, ce_baseSpeed = 220,
     ce_baseSkill = \<lambda>_. 10, ce_maxHealth = 150, ce_maxMana = 0, ce_magicLevel = 0, ce_realGain = 0, ce_itemsLight = (0, 0),
     ce_defaultOutfit = zero_outfit, ce_field = None, ce_attackable = True, ce_canDoCombat = \<lambda>_. True, ce_ghost = False,
     ce_blockHit = \<lambda>_ _. False, ce_changeHealth = \<lambda>_. True, ce_random = \<lambda>lo hi. lo, ce_percent = \<lambda>b p. b * (p - 100) div 100,
     ce_formula = \<lambda>_ _. (0, 0), ce_closer = \<lambda>s i m. \<bar>m - (s + i)\<bar> < \<bar>m - s\<bar>\<rparr>"

definition fresh :: cre where
  "fresh = \<lparr>conditions = [], varSpeed = 0, varSkills = \<lambda>_. 0, varStats = \<lambda>_. 0, internalLight = (0, 0), cond_log = []\<rparr>"

definition haste :: "int \<Rightarrow> Condition" where
  "haste d = new_Condition 0 CONDITION_HASTE 10000 False 0 (ConditionSpeed (new_SpeedData d))"

definition hasted :: cre where
  "hasted = snd (the (addCondition calm (haste 60) False (snd (the (addCondition calm (haste 40) False fresh)))))"

lemmas haste_defs = hasted_def fresh_def haste_def calm_def addCondition_def hasCondition_def getCondition_def startCondition_def
  new_Condition_def new_SpeedData_def speed_of_def base_startCondition_def changeSpeed_def cre_say_def onAddCondition_def
  cond_addCondition_def put_condition_def setTicks_def

lemma hasted_simps:
  "conditions hasted = [(haste 60)\<lparr>endTime := 11000\<rparr>]" "varSpeed hasted = 60"
  "addCondition calm (haste 40) False fresh = Some (True, snd (the (addCondition calm (haste 40) False fresh)))"
  "addCondition calm (haste 60) False (snd (the (addCondition calm (haste 40) False fresh))) = Some (True, hasted)"
  by (simp_all add: haste_defs Let_def)

lemma hasted_reach: "cond_reach True (0, \<lambda>_. 0, \<lambda>_. 0) hasted"
proof -
  have "held fresh = (0, \<lambda>_. 0, \<lambda>_. 0)" by (simp add: held_def fresh_def)
  then have "cond_reach True (0, \<lambda>_. 0, \<lambda>_. 0) fresh"
    using cond_reach.start [of fresh True] by (simp add: fresh_def)
  then show ?thesis
    using cond_reach.added [OF cond_reach.added [OF _ _ hasted_simps(3)] _ hasted_simps(4)] by (simp add: calm_def)
qed

theorem conditions_balanced_witness:
  "varSpeed hasted = 0 + sum_list (map speed_part (conditions hasted)) \<and> varSpeed hasted = 60 \<and> distinct (map key (conditions hasted))"
  using conditions_balanced [OF hasted_reach] hasted_simps(2) by simp

end
