(* ===== verification/Condition_Damage.thy ===== *)
theory Condition_Damage
  imports Condition_Effects
begin

text \<open>Damage over time (src/src/condition.cpp, class \<open>ConditionDamage\<close>): the list of strikes that \<open>generateDamageList\<close> draws up, and
  the strikes as the creature's thinking deals them, once every \<open>EVENT_CREATURE_THINK_INTERVAL\<close>.\<close>

definition EVENT_CREATURE_THINK_INTERVAL :: int where
  "EVENT_CREATURE_THINK_INTERVAL = 1000"

subsection \<open>The damage list\<close>

text \<open>What the loops rely on: a sum that has reached the target gets no closer to it by growing (the rounded quotients are monotone and a
  number divided by itself is 1), and while it is below the target one more point does bring it closer.\<close>

definition sound_closer :: "(int \<Rightarrow> int \<Rightarrow> int \<Rightarrow> bool) \<Rightarrow> int \<Rightarrow> bool" where
  "sound_closer closer bound \<longleftrightarrow>
     (\<forall>s i m. 0 < s \<longrightarrow> 0 < i \<longrightarrow> m \<le> s \<longrightarrow> \<not> closer s i m) \<and> (\<forall>s m. 0 < s \<longrightarrow> s < m \<longrightarrow> m \<le> bound \<longrightarrow> closer s 1 m)"

lemma damage_round_returns:
  assumes "sound_closer closer bound" and "0 < i" and "0 \<le> t"
  shows "\<exists>n t'. damage_round closer i med (t, xs) = Some (t', xs @ replicate (Suc n) i) \<and> t' = t + i * int (Suc n)
    \<and> (i = 1 \<longrightarrow> med \<le> bound \<longrightarrow> med \<le> t')"
  using assms(3)
proof (induction "nat (med - t)" arbitrary: t xs rule: less_induct)
  case less
  show ?case
  proof (cases "closer (t + i) i med")
    case False
    then have "damage_round closer i med (t, xs) = Some (t + i, xs @ replicate (Suc 0) i)"
      by (subst damage_round.simps) simp
    moreover have "i = 1 \<longrightarrow> med \<le> bound \<longrightarrow> med \<le> t + i"
      using False assms(1) less.prems unfolding sound_closer_def by (metis add_nonneg_pos not_le_imp_less zero_less_one)
    ultimately show ?thesis by (intro exI [of _ 0] exI [of _ "t + i"]) simp
  next
    case True
    then have lt: "t + i < med"
      using assms(1,2) less.prems unfolding sound_closer_def by (meson add_nonneg_pos not_le_imp_less)
    then have "nat (med - (t + i)) < nat (med - t)"
      using assms(2) by simp
    from less.hyps [OF this, of "xs @ [i]"] less.prems assms(2)
    obtain n t' where "damage_round closer i med (t + i, xs @ [i]) = Some (t', (xs @ [i]) @ replicate (Suc n) i)"
      "t' = (t + i) + i * int (Suc n)" "i = 1 \<longrightarrow> med \<le> bound \<longrightarrow> med \<le> t'"
      by auto
    then show ?thesis
      using True by (intro exI [of _ "Suc n"] exI [of _ t']) (subst damage_round.simps, simp add: algebra_simps)
  qed
qed

lemma damage_rounds_returns:
  assumes "sound_closer closer amount" and "0 < start" and "int i \<le> start" and "0 \<le> t" and "0 \<le> amount"
  shows "\<exists>ys. damage_rounds closer amount start i (t, xs) = Some (t + sum_list ys, xs @ ys)
    \<and> set ys = {1..int i} \<and> sorted_wrt (\<ge>) ys \<and> sum_list [1..int i] \<le> sum_list ys \<and> (0 < i \<longrightarrow> amount \<le> t + sum_list ys)"
  using assms(3,4)
proof (induction i arbitrary: t xs)
  case 0
  then show ?case by (intro exI [of _ "[]"]) simp
next
  case (Suc i)
  let ?i = "int (Suc i)" and ?med = "c_div ((start + 1 - int (Suc i)) * amount) start"
  obtain n where n: "damage_round closer ?i ?med (t, xs) = Some (t + ?i * int (Suc n), xs @ replicate (Suc n) ?i)"
    "?i = 1 \<longrightarrow> ?med \<le> amount \<longrightarrow> ?med \<le> t + ?i * int (Suc n)"
    using damage_round_returns [OF assms(1), of ?i t ?med xs] Suc.prems by auto
  obtain ys where ys: "damage_rounds closer amount start i (t + ?i * int (Suc n), xs @ replicate (Suc n) ?i)
      = Some (t + ?i * int (Suc n) + sum_list ys, (xs @ replicate (Suc n) ?i) @ ys)"
    "set ys = {1..int i}" "sorted_wrt (\<ge>) ys" "sum_list [1..int i] \<le> sum_list ys" "0 < i \<longrightarrow> amount \<le> t + ?i * int (Suc n) + sum_list ys"
    using Suc.IH [of "t + ?i * int (Suc n)" "xs @ replicate (Suc n) ?i"] Suc.prems by auto
  let ?ys = "replicate (Suc n) ?i @ ys"
  have s: "sum_list ?ys = ?i * int (Suc n) + sum_list ys"
    by (simp add: sum_list_replicate algebra_simps)
  have "sum_list [1..?i] \<le> sum_list ?ys"
  proof -
    have "?i \<le> ?i * int (Suc n)" by simp
    moreover have "sum_list [1..?i] = sum_list [1..int i] + ?i"
      using upto_rec2 [of 1 ?i] by simp
    ultimately show ?thesis using ys(4) s by linarith
  qed
  moreover have "amount \<le> t + sum_list ?ys"
  proof (cases i)
    case 0
    then have "?med = amount" using assms(2,5) by simp
    then show ?thesis using n(2) ys(2) 0 s by simp
  qed (use ys(5) s in simp)
  moreover have "set ?ys = {1..?i}" using ys(2) by (auto simp del: replicate_Suc simp: set_replicate_Suc)
  moreover have "sorted_wrt (\<ge>) ?ys"
    using ys(2,3) by (auto simp: sorted_wrt_append sorted_wrt_iff_nth_less [of _ "replicate n x" for n x])
  ultimately show ?case
    using n(1) ys(1) s by (intro exI [of _ ?ys]) (simp del: replicate_Suc)
qed

definition first_strike :: "DamageData \<Rightarrow> int \<Rightarrow> int" where
  "first_strike d amount =
     (if startDamage d > maxDamage d then maxDamage d else if startDamage d = 0 then max 1 (- ((- amount) div 20)) else startDamage d)"

lemma generateDamageList_returns:
  assumes "sound_closer closer \<bar>amount\<bar>" and "0 < start"
  obtains ys where "generateDamageList closer amount start = Some ys" "set ys = {1..start}" "sorted_wrt (\<ge>) ys"
    "sum_list [1..start] \<le> sum_list ys" "\<bar>amount\<bar> \<le> sum_list ys"
proof -
  obtain ys where "damage_rounds closer \<bar>amount\<bar> start (nat start) (0, []) = Some (0 + sum_list ys, [] @ ys)"
    "set ys = {1..int (nat start)}" "sorted_wrt (\<ge>) ys" "sum_list [1..int (nat start)] \<le> sum_list ys"
    "0 < nat start \<longrightarrow> \<bar>amount\<bar> \<le> 0 + sum_list ys"
    using damage_rounds_returns [OF assms(1), of start "nat start" 0 "[]"] assms(2) by auto
  with assms(2) that show thesis by (simp add: generateDamageList_def)
qed

definition strike :: "int \<Rightarrow> int \<Rightarrow> IntervalInfo" where
  "strike time v = \<lparr>timeLeft = time, iv_value = - v, iv_interval = time\<rparr>"

lemma add_strikes:
  assumes "0 \<le> ticks c" and "periodDamage d = 0"
  shows "fold (\<lambda>v cd. snd (addDamage e 1 (tickInterval (snd cd)) (- v) cd)) ys (c, d) =
    (if ys = [] then c else setTicks e (ticks c + max 1000 (tickInterval d) * int (length ys)) c,
     d\<lparr>damageList := damageList d @ map (strike (max 1000 (tickInterval d))) ys\<rparr>)"
  using assms
proof (induction ys arbitrary: c d)
  case Nil
  then show ?case by simp
next
  case (Cons y ys)
  let ?t = "max 1000 (tickInterval d)"
  have one: "snd (addDamage e 1 (tickInterval d) (- y) (c, d)) = (setTicks e (ticks c + ?t) c, d\<lparr>damageList := damageList d @ [strike ?t y]\<rparr>)"
    using Cons.prems by (simp add: addDamage_def Let_def strike_def max.commute eval_nat_numeral)
  have "0 \<le> ticks (setTicks e (ticks c + ?t) c)" using Cons.prems by (simp add: setTicks_def)
  from Cons.IH [OF this] Cons.prems(2) show ?case
    by (simp add: one setTicks_def algebra_simps)
qed

lemma damage_init_returns:
  assumes "periodDamage d = 0" and "damageList d = []" and "0 \<le> startDamage d"
    and a: "a = uniform_random (ce_random e) (minDamage d) (maxDamage d)" "0 < a" "0 < maxDamage d"
    and "sound_closer (ce_closer e) a"
  obtains ys where
    "damage_init e (c, d) = Some (True, setTicks e (max 1000 (tickInterval d) * int (length ys)) c,
       d\<lparr>startDamage := first_strike d a, damageList := map (strike (max 1000 (tickInterval d))) ys\<rparr>)"
    "set ys = {1..first_strike d a}" "sorted_wrt (\<ge>) ys" "sum_list [1..first_strike d a] \<le> sum_list ys" "a \<le> sum_list ys" "ys \<noteq> []"
proof -
  have pos: "0 < first_strike d a" using assms(3) a(3) by (auto simp: first_strike_def)
  obtain ys where ys: "generateDamageList (ce_closer e) a (first_strike d a) = Some ys" "set ys = {1..first_strike d a}"
    "sorted_wrt (\<ge>) ys" "sum_list [1..first_strike d a] \<le> sum_list ys" "\<bar>a\<bar> \<le> sum_list ys"
    using generateDamageList_returns [of "ce_closer e" a "first_strike d a"] assms(7) a(2) pos by auto
  have ne: "ys \<noteq> []" using ys(5) a(2) by auto
  have t0: "0 \<le> ticks (setTicks e 0 c)" by (simp add: setTicks_def)
  have "damage_init e (c, d) = Some (True, setTicks e (max 1000 (tickInterval d) * int (length ys)) c,
       d\<lparr>startDamage := first_strike d a, damageList := map (strike (max 1000 (tickInterval d))) ys\<rparr>)"
    using assms(1,2) a ys(1) ne add_strikes [OF t0, of "d\<lparr>startDamage := first_strike d a\<rparr>" e ys]
    by (cases c) (simp add: damage_init_def first_strike_def [symmetric] Let_def setTicks_def)
  with ys ne a(2) that show thesis by simp
qed

subsection \<open>Strikes are dealt\<close>

text \<open>The condition executed once per second, at the times of a list of clock readings.\<close>

fun think_at :: "cond_env \<Rightarrow> int list \<Rightarrow> Condition \<Rightarrow> cre \<Rightarrow> bool \<times> Condition \<times> cre" where
  "think_at e [] c k = (True, c, k)"
| "think_at e (t # ts) c k =
     (case executeCondition (e\<lparr>ce_now := t\<rparr>) EVENT_CREATURE_THINK_INTERVAL c k of
        (alive, c, k) \<Rightarrow> if alive then think_at e ts c k else (False, c, k))"

definition vulnerable :: "cond_env \<Rightarrow> Condition \<Rightarrow> DamageData \<Rightarrow> bool" where
  "vulnerable e c d \<longleftrightarrow> \<not> ce_suppress e (conditionType c) \<and> ce_attackable e \<and> ce_canDoCombat e (owner d)
     \<and> (\<forall>v. \<not> ce_blockHit e v (field d)) \<and> (\<forall>v. ce_changeHealth e v)"

definition hurts :: "Condition \<Rightarrow> DamageData \<Rightarrow> int list \<Rightarrow> cond_out list" where
  "hurts c d vs = map (\<lambda>v. Hurt v (ConditionToDamageType (conditionType c)) (owner d)) vs"

lemma cre_say_append: "cre_say ys (cre_say xs k) = cre_say (xs @ ys) k"
  by (cases k) (simp add: cre_say_def)

lemma cre_say_nil: "cre_say [] k = k"
  by (cases k) (simp add: cre_say_def)

lemma doDamage_vulnerable:
  assumes "vulnerable e c d"
  shows "doDamage (e\<lparr>ce_now := t\<rparr>) c d v k = (True, cre_say (hurts c d [v]) k)"
  using assms by (simp add: doDamage_def vulnerable_def hurts_def)

text \<open>One second of a condition that is not yet over: the first strike comes one second closer, or is dealt.\<close>

lemma damage_second:
  assumes "kind c = ConditionDamage d" and "periodDamage d = 0" and "damageList d = x # xs" and "0 \<le> ticks c" and "ce_field e = None"
    and "t \<le> endTime c" and "vulnerable e c d"
  obtains c' where
    "executeCondition (e\<lparr>ce_now := t\<rparr>) 1000 c k =
       (True, c', if timeLeft x \<le> 1000 then cre_say (hurts c d [iv_value x]) k else k)"
    "kind c' = ConditionDamage (d\<lparr>damageList := (if timeLeft x \<le> 1000 then xs else x\<lparr>timeLeft := timeLeft x - 1000\<rparr> # xs)\<rparr>)"
    "0 \<le> ticks c'" "endTime c' = endTime c" "conditionType c' = conditionType c"
proof -
  let ?d = "d\<lparr>damageList := (if timeLeft x \<le> 1000 then xs else x\<lparr>timeLeft := timeLeft x - 1000\<rparr> # xs)\<rparr>"
  have "executeCondition (e\<lparr>ce_now := t\<rparr>) 1000 c k =
      (True, c\<lparr>kind := ConditionDamage ?d, ticks := max 0 (ticks c - 1000)\<rparr>,
       if timeLeft x \<le> 1000 then cre_say (hurts c d [iv_value x]) k else k)"
    using assms(1-6) doDamage_vulnerable [OF assms(7), of t]
    by (cases "timeLeft x \<le> 1000")
      (simp_all add: executeCondition_def damage_executeCondition_def onTickCondition_def base_executeCondition_def Let_def)
  then show thesis using that by simp
qed

lemma strike_dealt:
  assumes "kind c = ConditionDamage d" and "periodDamage d = 0" and "damageList d = x # xs" and "0 \<le> ticks c" and "ce_field e = None"
    and "\<forall>t\<in>set ts. t \<le> endTime c" and "vulnerable e c d" and "timeLeft x = 1000 * int (Suc n)" and "length ts = Suc n"
  obtains c' where
    "think_at e (ts @ us) c k = think_at e us c' (cre_say (hurts c d [iv_value x]) k)"
    "kind c' = ConditionDamage (d\<lparr>damageList := xs\<rparr>)" "0 \<le> ticks c'" "endTime c' = endTime c" "conditionType c' = conditionType c"
  using assms
proof (induction n arbitrary: c d x ts thesis)
  case 0
  then obtain t where ts: "ts = [t]" by (metis One_nat_def length_0_conv length_Suc_conv)
  obtain c1 where "executeCondition (e\<lparr>ce_now := t\<rparr>) 1000 c k = (True, c1, cre_say (hurts c d [iv_value x]) k)"
    "kind c1 = ConditionDamage (d\<lparr>damageList := xs\<rparr>)" "0 \<le> ticks c1" "endTime c1 = endTime c" "conditionType c1 = conditionType c"
    by (rule damage_second [of c d x xs e t k]) (use 0 ts in simp_all)
  then show ?case
    using 0(1) [of c1] ts by (simp add: EVENT_CREATURE_THINK_INTERVAL_def)
next
  case (Suc n)
  obtain t rest where ts: "ts = t # rest" "length rest = Suc n" using Suc.prems(10) by (cases ts) auto
  let ?x = "x\<lparr>timeLeft := timeLeft x - 1000\<rparr>"
  let ?d = "d\<lparr>damageList := ?x # xs\<rparr>"
  obtain c1 where c1: "executeCondition (e\<lparr>ce_now := t\<rparr>) 1000 c k = (True, c1, k)" "kind c1 = ConditionDamage ?d"
    "0 \<le> ticks c1" "endTime c1 = endTime c" "conditionType c1 = conditionType c"
    by (rule damage_second [of c d x xs e t k]) (use Suc.prems ts in simp_all)
  have v: "vulnerable e c1 ?d" using Suc.prems(8) c1(5) by (simp add: vulnerable_def)
  obtain c' where "think_at e (rest @ us) c1 k = think_at e us c' (cre_say (hurts c1 ?d [iv_value ?x]) k)"
    "kind c' = ConditionDamage (?d\<lparr>damageList := xs\<rparr>)" "0 \<le> ticks c'" "endTime c' = endTime c1" "conditionType c' = conditionType c1"
    by (rule Suc.IH [where c = c1 and d = ?d and x = ?x and ts = rest]) (use c1 v ts Suc.prems in auto)
  then show ?case
    using Suc.prems(1) [of c'] c1 ts by (simp add: EVENT_CREATURE_THINK_INTERVAL_def hurts_def)
qed

text \<open>A list of strikes whose waiting times are whole seconds is dealt to the end, given enough seconds before the condition runs out.\<close>

definition strike_seconds :: "IntervalInfo list \<Rightarrow> nat" where
  "strike_seconds xs = sum_list (map (\<lambda>x. nat (timeLeft x) div 1000) xs)"

definition whole_seconds :: "IntervalInfo \<Rightarrow> bool" where
  "whole_seconds x \<longleftrightarrow> 0 < timeLeft x \<and> timeLeft x mod 1000 = 0"

lemma whole_seconds_Suc:
  assumes "whole_seconds x"
  obtains n where "timeLeft x = 1000 * int (Suc n)" "nat (timeLeft x) div 1000 = Suc n"
proof -
  define m where "m = nat (timeLeft x div 1000)"
  have "timeLeft x = 1000 * int m" "0 < m"
    using assms unfolding whole_seconds_def m_def by auto
  then show thesis using that [of "m - 1"] by (simp add: nat_mult_distrib)
qed

lemma strikes_dealt:
  assumes "kind c = ConditionDamage d" and "periodDamage d = 0" and "0 \<le> ticks c" and "ce_field e = None"
    and "\<forall>t\<in>set ts. t \<le> endTime c" and "vulnerable e c d" and "list_all whole_seconds (damageList d)"
    and "length ts = strike_seconds (damageList d)"
  shows "\<exists>c'. think_at e ts c k = (True, c', cre_say (hurts c d (map iv_value (damageList d))) k)
    \<and> kind c' = ConditionDamage (d\<lparr>damageList := []\<rparr>)"
  using assms
proof (induction "damageList d" arbitrary: c d k ts)
  case Nil
  then show ?case by (cases d) (simp add: strike_seconds_def hurts_def cre_say_nil)
next
  case (Cons x xs)
  note dl = Cons.hyps(2) [symmetric]
  obtain n where n: "timeLeft x = 1000 * int (Suc n)" "nat (timeLeft x) div 1000 = Suc n"
    using whole_seconds_Suc [of x] Cons.prems(7) dl by auto
  define us vs where "us = take (Suc n) ts" and "vs = drop (Suc n) ts"
  have ts: "ts = us @ vs" "length us = Suc n" "length vs = strike_seconds xs"
    using Cons.prems(8) dl n(2) by (auto simp: us_def vs_def strike_seconds_def)
  obtain c1 where c1: "think_at e (us @ vs) c k = think_at e vs c1 (cre_say (hurts c d [iv_value x]) k)"
    "kind c1 = ConditionDamage (d\<lparr>damageList := xs\<rparr>)" "0 \<le> ticks c1" "endTime c1 = endTime c" "conditionType c1 = conditionType c"
    by (rule strike_dealt [where us = vs and n = n and x = x and xs = xs and c = c and d = d and ts = us and e = e and k = k])
      (use Cons.prems dl n ts in simp_all)
  let ?d = "d\<lparr>damageList := xs\<rparr>"
  have "\<exists>c'. think_at e vs c1 (cre_say (hurts c d [iv_value x]) k)
      = (True, c', cre_say (hurts c1 ?d (map iv_value (damageList ?d))) (cre_say (hurts c d [iv_value x]) k))
    \<and> kind c' = ConditionDamage (?d\<lparr>damageList := []\<rparr>)"
    by (rule Cons.hyps(1)) (use Cons.prems c1 ts dl in \<open>auto simp: vulnerable_def\<close>)
  then show ?case
    using c1 ts dl by (simp add: cre_say_append hurts_def)
qed

definition on_time :: "int \<Rightarrow> nat \<Rightarrow> int list" where
  "on_time now n = map (\<lambda>j. now + 1000 * int (Suc j)) [0..<n]"

lemma strike_seconds_strikes:
  "strike_seconds (map (strike t) ys) = length ys * (nat t div 1000)"
  by (simp add: strike_seconds_def strike_def comp_def sum_list_replicate map_replicate_const)

lemma strike_next_vulnerable:
  assumes "zs \<noteq> []" and "periodDamage d = 0" and "vulnerable e c d" and "ticks c0 \<noteq> -1" and "conditionType c0 = conditionType c"
    and "n = (if delayed d then 0 else 1)"
  shows "strike_next e (c0, d\<lparr>startDamage := a, damageList := map (strike t) zs\<rparr>) k =
    (True, c0\<lparr>kind := ConditionDamage (d\<lparr>startDamage := a, damageList := map (strike t) (drop n zs)\<rparr>)\<rparr>,
     cre_say (hurts c d (map uminus (take n zs))) k)"
proof (cases zs)
  case (Cons y ys)
  then show ?thesis
    using assms(2-6)
    by (cases "delayed d") (simp_all add: strike_next_def getNextDamage_def doDamage_def vulnerable_def hurts_def strike_def cre_say_nil)
qed (use assms(1) in simp)

lemma damage_starts:
  assumes "kind c = ConditionDamage d" and "periodDamage d = 0" and "damageList d = []" and "0 \<le> startDamage d"
    and "a = uniform_random (ce_random e) (minDamage d) (maxDamage d)" "0 < a" "0 < maxDamage d"
    and "sound_closer (ce_closer e) a" and "vulnerable e c d"
  obtains xs ys c1 where
    "startCondition e c k = Some (True, c1, cre_say (hurts c d (map uminus xs)) k)"
    "kind c1 = ConditionDamage (d\<lparr>startDamage := first_strike d a, damageList := map (strike (max 1000 (tickInterval d))) ys\<rparr>)"
    "0 \<le> ticks c1" "max 1000 (tickInterval d) * int (length ys) + ce_now e \<le> endTime c1" "conditionType c1 = conditionType c"
    "set (xs @ ys) = {1..first_strike d a}" "sorted_wrt (\<ge>) (xs @ ys)" "sum_list [1..first_strike d a] \<le> sum_list (xs @ ys)"
    "a \<le> sum_list (xs @ ys)" "length xs = (if delayed d then 0 else 1)"
proof -
  let ?c = "base_startCondition e c" and ?t = "max 1000 (tickInterval d)"
  obtain zs where zs: "damage_init e (?c, d) = Some (True, setTicks e (?t * int (length zs)) ?c,
       d\<lparr>startDamage := first_strike d a, damageList := map (strike ?t) zs\<rparr>)"
    "set zs = {1..first_strike d a}" "sorted_wrt (\<ge>) zs" "sum_list [1..first_strike d a] \<le> sum_list zs" "a \<le> sum_list zs" "zs \<noteq> []"
    by (rule damage_init_returns [OF assms(2-8)])
  define n where "n = (if delayed d then 0 else 1 :: nat)"
  have k: "kind ?c = ConditionDamage d" "conditionType ?c = conditionType c"
    using assms(1) by (auto simp: base_startCondition_def)
  let ?d = "d\<lparr>startDamage := first_strike d a, damageList := map (strike ?t) (drop n zs)\<rparr>"
  let ?c1 = "(setTicks e (?t * int (length zs)) ?c)\<lparr>kind := ConditionDamage ?d\<rparr>"
  have t: "0 \<le> ?t * int (length zs)" and t': "?t * int (length zs) \<noteq> -1"
  proof -
    show "0 \<le> ?t * int (length zs)" by simp
    then show "?t * int (length zs) \<noteq> -1" by linarith
  qed
  let ?cc = "setTicks e (?t * int (length zs)) ?c" and ?dd = "d\<lparr>startDamage := first_strike d a, damageList := map (strike ?t) zs\<rparr>"
  have "startCondition e c k = Some (strike_next e (?cc, ?dd) k)"
    unfolding startCondition_def Let_def k(1) by (simp only: cond_kind.case zs(1) bind.bind_lunit prod.case if_True)
  moreover have "strike_next e (?cc, ?dd) k = (True, ?c1, cre_say (hurts c d (map uminus (take n zs))) k)"
    by (rule strike_next_vulnerable) (use zs(6) assms(2,9) t' k(2) n_def in \<open>auto simp: setTicks_def vulnerable_def\<close>)
  ultimately have "startCondition e c k = Some (True, ?c1, cre_say (hurts c d (map uminus (take n zs))) k)" by simp
  then show thesis
  proof (rule that)
    show "kind ?c1 = ConditionDamage ?d" by simp
    show "0 \<le> ticks ?c1" using t by (simp add: setTicks_def)
    have "?t * int (length (drop n zs)) \<le> ?t * int (length zs)" by (intro mult_left_mono) simp_all
    then show "?t * int (length (drop n zs)) + ce_now e \<le> endTime ?c1" by (simp add: setTicks_def)
    show "conditionType ?c1 = conditionType c" using k(2) by (simp add: setTicks_def)
    show "length (take n zs) = (if delayed d then 0 else 1)" using zs(6) by (cases zs) (simp_all add: n_def)
  qed (use zs(2-5) in \<open>simp_all only: append_take_drop_id\<close>)
qed

text \<open>C25: a damage condition runs its course. A condition over time that carries no list of strikes yet (minimum and maximum damage set,
  a positive amount rolled) draws up its list when it starts, and the creature that executes its conditions every second takes all of it: the
  strikes fall one after the other, descend from the first strike through every value to 1, add up to at least the rolled amount, none is
  lost, and afterwards the list is empty. It needs a tick interval of whole seconds, a creature that can be hurt (neither suppressed nor
  protected, no block) and no damage field under it.\<close>

theorem damage_runs_its_course:
  assumes "kind c = ConditionDamage d" and "periodDamage d = 0" and "damageList d = []" and "0 \<le> startDamage d" and "0 < maxDamage d"
    and "a = uniform_random (ce_random e) (minDamage d) (maxDamage d)" and "0 < a" and "sound_closer (ce_closer e) a"
    and "vulnerable e c d" and "ce_field e = None" and "1000 dvd tickInterval d"
  shows "\<exists>c1 k1 zs n c'. startCondition e c k = Some (True, c1, k1)
    \<and> think_at e (on_time (ce_now e) n) c1 k1 = (True, c', cre_say (hurts c d (map uminus zs)) k)
    \<and> kind c' = ConditionDamage (d\<lparr>startDamage := first_strike d a, damageList := []\<rparr>)
    \<and> sorted_wrt (\<ge>) zs \<and> set zs = {1..first_strike d a} \<and> a \<le> sum_list zs"
proof -
  let ?t = "max 1000 (tickInterval d)"
  obtain xs ys c1 where c1: "startCondition e c k = Some (True, c1, cre_say (hurts c d (map uminus xs)) k)"
    "kind c1 = ConditionDamage (d\<lparr>startDamage := first_strike d a, damageList := map (strike ?t) ys\<rparr>)"
    "0 \<le> ticks c1" "?t * int (length ys) + ce_now e \<le> endTime c1" "conditionType c1 = conditionType c"
    "set (xs @ ys) = {1..first_strike d a}" "sorted_wrt (\<ge>) (xs @ ys)" "sum_list [1..first_strike d a] \<le> sum_list (xs @ ys)"
    "a \<le> sum_list (xs @ ys)" "length xs = (if delayed d then 0 else 1)"
    by (rule damage_starts [OF assms(1-4) assms(6,7,5,8,9)])
  let ?d = "d\<lparr>startDamage := first_strike d a, damageList := map (strike ?t) ys\<rparr>"
  obtain m where m: "?t = 1000 * int m" "0 < m"
  proof -
    have "1000 dvd ?t" using assms(11) by (simp add: max_def)
    then obtain z where z: "?t = 1000 * z" by (elim dvdE)
    then have "0 < z" using max.cobounded1 [of 1000 "tickInterval d"] by linarith
    with z that [of "nat z"] show thesis by simp
  qed
  let ?n = "length ys * m"
  have "\<forall>t\<in>set (on_time (ce_now e) ?n). t \<le> endTime c1"
  proof
    fix t assume "t \<in> set (on_time (ce_now e) ?n)"
    then obtain j where "j < ?n" "t = ce_now e + 1000 * int (Suc j)" by (auto simp: on_time_def)
    then have "t \<le> ce_now e + 1000 * int ?n" by (simp del: of_nat_mult)
    also have "\<dots> \<le> endTime c1" using c1(4) m(1) by (simp add: algebra_simps)
    finally show "t \<le> endTime c1" .
  qed
  moreover have "list_all whole_seconds (damageList ?d)" using m by (auto simp: list_all_iff whole_seconds_def strike_def)
  moreover have "length (on_time (ce_now e) ?n) = strike_seconds (damageList ?d)"
    using m by (simp add: strike_seconds_strikes on_time_def nat_mult_distrib)
  moreover have "vulnerable e c1 ?d" using assms(9) c1(5) by (simp add: vulnerable_def)
  ultimately obtain c' where "think_at e (on_time (ce_now e) ?n) c1 (cre_say (hurts c d (map uminus xs)) k)
      = (True, c', cre_say (hurts c1 ?d (map iv_value (damageList ?d))) (cre_say (hurts c d (map uminus xs)) k))"
    "kind c' = ConditionDamage (?d\<lparr>damageList := []\<rparr>)"
    using strikes_dealt [of c1 ?d e "on_time (ce_now e) ?n"] c1(2,3) assms(2,10) by auto
  moreover have "hurts c d (map uminus xs) @ hurts c1 ?d (map iv_value (damageList ?d)) = hurts c d (map uminus (xs @ ys))"
    using c1(5) by (simp add: hurts_def strike_def)
  ultimately show ?thesis
    using c1(1,6,7,9) by (intro exI [of _ c1] exI [of _ "cre_say (hurts c d (map uminus xs)) k"] exI [of _ "xs @ ys"] exI [of _ ?n] exI [of _ c'])
      (simp add: cre_say_append)
qed

definition venom :: "bool \<Rightarrow> int \<Rightarrow> DamageData" where
  "venom late time = new_DamageData\<lparr>minDamage := 10, maxDamage := 10, startDamage := 3, tickInterval := time, delayed := late\<rparr>"

definition envenomed :: "bool \<Rightarrow> int \<Rightarrow> Condition" where
  "envenomed late time = new_Condition 0 CONDITION_POISON 0 False 0 (ConditionDamage (venom late time))"

lemma calm_closer: "sound_closer (ce_closer calm) bound"
  by (auto simp: sound_closer_def calm_def)

text \<open>A poisoning of 10 points that starts at 3, every two seconds.\<close>

theorem damage_runs_its_course_witness:
  "\<exists>c1 k1 zs n c'. startCondition calm (envenomed False 2000) fresh = Some (True, c1, k1)
    \<and> think_at calm (on_time 1000 n) c1 k1 = (True, c', cre_say (hurts (envenomed False 2000) (venom False 2000) (map uminus zs)) fresh)
    \<and> kind c' = ConditionDamage (venom False 2000) \<and> sorted_wrt (\<ge>) zs \<and> set zs = {1..3} \<and> 10 \<le> sum_list zs"
proof -
  let ?c = "envenomed False 2000" and ?d = "venom False 2000"
  have k: "kind ?c = ConditionDamage ?d" "ce_field calm = None" "ce_now calm = 1000"
    by (simp_all add: envenomed_def new_Condition_def calm_def)
  have v: "vulnerable calm ?c ?d" by (simp add: vulnerable_def calm_def)
  have r: "10 = uniform_random (ce_random calm) (minDamage ?d) (maxDamage ?d)" by (simp add: uniform_random_def venom_def)
  have p: "periodDamage ?d = 0" "damageList ?d = []" "0 \<le> startDamage ?d" "0 < maxDamage ?d" "1000 dvd tickInterval ?d"
    "first_strike ?d 10 = 3" "?d\<lparr>startDamage := 3, damageList := []\<rparr> = ?d"
    by (simp_all add: venom_def new_DamageData_def first_strike_def)
  have "0 < (10 :: int)" by simp
  from damage_runs_its_course [OF k(1) p(1-4) r this calm_closer v k(2) p(5), of fresh]
  show ?thesis by (simp only: p(6,7) k(3))
qed

text \<open>Every value from the first strike down to 1 is dealt at least once, so where the first strike is a twentieth of the amount a large
  amount is exceeded: 1000 points become at least 1275.\<close>

lemma damage_overshoots:
  assumes "sound_closer closer 1000"
  shows "\<exists>ys. generateDamageList closer 1000 50 = Some ys \<and> 1275 \<le> sum_list ys"
proof -
  obtain ys where "generateDamageList closer 1000 50 = Some ys" "sum_list [1..50] \<le> sum_list ys"
    using generateDamageList_returns [of closer 1000 50] assms by auto
  moreover have "sum_list [1..50::int] = 1275" by code_simp
  ultimately show ?thesis by auto
qed

text \<open>With an interval that is not a whole number of seconds each strike waits for the next full second, while the condition's end does
  not: of the seven strikes of a delayed poisoning every 1500 milliseconds, the last two are lost.\<close>

declare damage_round.simps [code]

lemma late_strikes_lost:
  "\<exists>c1 k1 c' k'. startCondition calm (envenomed True 1500) fresh = Some (True, c1, k1) \<and> cond_log k1 = []
    \<and> length (case kind c1 of ConditionDamage d \<Rightarrow> damageList d | _ \<Rightarrow> []) = 7
    \<and> think_at calm (on_time 1000 20) c1 k1 = (False, c', k') \<and> length (cond_log k') = 5"
proof -
  have "(case startCondition calm (envenomed True 1500) fresh of
      Some (True, c1, k) \<Rightarrow> cond_log k = [] \<and> length (case kind c1 of ConditionDamage d \<Rightarrow> damageList d | _ \<Rightarrow> []) = 7
        \<and> (case think_at calm (on_time 1000 20) c1 k of (alive, c', k') \<Rightarrow> \<not> alive \<and> length (cond_log k') = 5)
    | _ \<Rightarrow> False)"
    by code_simp
  then show ?thesis by (auto split: option.splits prod.splits bool.splits)
qed

end
