(* ===== verification/Condition_Saving.thy ===== *)
theory Condition_Saving
  imports Condition_Model
begin

section \<open>Saving and loading conditions\<close>

text \<open>
  The property stream of a condition (\<open>serialize\<close>, \<open>unserialize\<close> and the factory \<open>createCondition(PropStream&)\<close> of \<open>condition.cpp\<close>) and the
  loops of \<open>iologindata.cpp\<close> that save the conditions of a player and read them back at the next login. Shown: what was saved is read back, condition by condition,
  in reverse order.
\<close>

subsection \<open>Writing\<close>

definition u32_of :: "int \<Rightarrow> nat" where
  "u32_of v = unat (of_int v :: u32)"

definition int32_of :: "nat \<Rightarrow> int" where
  "int32_of n = sint (of_nat n :: u32)"

type_synonym fields = "(nat \<times> nat) list"

definition base_fields :: "Condition \<Rightarrow> fields" where
  "base_fields c =
     [(1, 1), (4, unat (type_code (conditionType c))), (1, 2), (4, u32_of (cid c)), (1, 3), (4, u32_of (ticks c)),
      (1, 26), (1, if isBuff c then 1 else 0), (1, 27), (4, unat (subId c))]"

definition interval_fields :: "IntervalInfo \<Rightarrow> fields" where
  "interval_fields x = [(1, 10), (4, u32_of (timeLeft x)), (4, u32_of (iv_value x)), (4, u32_of (iv_interval x))]"

definition outfit_fields :: "Outfit_t \<Rightarrow> fields" where
  "outfit_fields x = [(2, unat (lookType x)), (2, unat (lookTypeEx x)), (1, unat (lookHead x)), (1, unat (lookBody x)),
     (1, unat (lookLegs x)), (1, unat (lookFeet x))]"

definition kind_fields :: "cond_kind \<Rightarrow> fields" where
  "kind_fields kd =
     (case kd of
        ConditionGeneric \<Rightarrow> []
      | ConditionInvisible \<Rightarrow> []
      | ConditionAttributes a \<Rightarrow>
          concat (map (\<lambda>i. [(1, 22), (4, u32_of (skills a ! i))]) [0..<7])
          @ concat (map (\<lambda>i. [(1, 23), (4, u32_of (stats a ! i))]) [0..<4])
      | ConditionRegeneration r \<Rightarrow>
          [(1, 4), (4, unat (healthTicks r)), (1, 5), (4, unat (healthGain r)), (1, 6), (4, unat (manaTicks r)), (1, 7), (4, unat (manaGain r))]
      | ConditionSoul s \<Rightarrow> [(1, 21), (4, unat (soulGain s)), (1, 20), (4, unat (soulTicks s))]
      | ConditionDamage d \<Rightarrow>
          [(1, 8), (1, if delayed d then 1 else 0), (1, 25), (4, u32_of (periodDamage d))]
          @ concat (map interval_fields (damageList d))
      | ConditionSpeed s \<Rightarrow>
          [(1, 11), (4, u32_of (speedDelta s)), (1, 12), (4, unat (mina s)), (1, 13), (4, unat (minb s)),
           (1, 14), (4, unat (maxa s)), (1, 15), (4, unat (maxb s))]
      | ConditionOutfit f \<Rightarrow> (1, 24) # outfit_fields f
      | ConditionLight l \<Rightarrow>
          [(1, 16), (4, unat (lightColor l)), (1, 17), (4, unat (lightLevel l)),
           (1, 18), (4, unat (internalLightTicks l)), (1, 19), (4, unat (lightChangeInterval l))])"

fun writes :: "fields \<Rightarrow> PropWriteStream \<Rightarrow> PropWriteStream option" where
  "writes [] w = Some w"
| "writes ((k, v) # fs) w = Option.bind (pw_write k v w) (writes fs)"

definition serialize :: "Condition \<Rightarrow> PropWriteStream \<Rightarrow> PropWriteStream option" where
  "serialize c = writes (base_fields c @ kind_fields (kind c))"

text \<open>The loop of \<open>IOLoginData::savePlayer\<close>.\<close>

fun save_conditions :: "Condition list \<Rightarrow> PropWriteStream \<Rightarrow> PropWriteStream option" where
  "save_conditions [] w = Some w"
| "save_conditions (c # cs) w =
     (if cond_persistent c then Option.bind (Option.bind (serialize c w) (pw_write 1 254)) (save_conditions cs)
      else save_conditions cs w)"

subsection \<open>Reading\<close>

type_synonym reading = "(bool \<times> Condition \<times> PropStream) option"

definition rd :: "nat \<Rightarrow> PropStream \<Rightarrow> Condition \<Rightarrow> (nat \<Rightarrow> Condition) \<Rightarrow> reading" where
  "rd k s c f = (case ps_read k s of None \<Rightarrow> Some (False, c, s) | Some (v, s') \<Rightarrow> Some (True, f v, s'))"

definition base_unserializeProp :: "nat \<Rightarrow> Condition \<Rightarrow> PropStream \<Rightarrow> reading" where
  "base_unserializeProp attr c s =
     (if attr = 1 then rd 4 s c (\<lambda>v. c\<lparr>conditionType := type_of (of_nat v)\<rparr>)
      else if attr = 2 then rd 4 s c (\<lambda>v. c\<lparr>cid := sint (of_nat v :: byte)\<rparr>)
      else if attr = 3 then rd 4 s c (\<lambda>v. c\<lparr>ticks := int32_of v\<rparr>)
      else if attr = 26 then rd 1 s c (\<lambda>v. c\<lparr>isBuff := (v \<noteq> 0)\<rparr>)
      else if attr = 27 then rd 4 s c (\<lambda>v. c\<lparr>subId := of_nat v\<rparr>)
      else Some (attr = 254, c, s))"

definition read_interval :: "PropStream \<Rightarrow> (IntervalInfo \<times> PropStream) option" where
  "read_interval s =
     (case ps_read 4 s of
        None \<Rightarrow> None
      | Some (a, s) \<Rightarrow>
          (case ps_read 4 s of
             None \<Rightarrow> None
           | Some (b, s) \<Rightarrow>
               (case ps_read 4 s of
                  None \<Rightarrow> None
                | Some (d, s) \<Rightarrow> Some (\<lparr>timeLeft = int32_of a, iv_value = int32_of b, iv_interval = int32_of d\<rparr>, s))))"

definition read_outfit :: "PropStream \<Rightarrow> (Outfit_t \<times> PropStream) option" where
  "read_outfit s =
     Option.bind (ps_read 2 s) (\<lambda>(t, s).
     Option.bind (ps_read 2 s) (\<lambda>(x, s).
     Option.bind (ps_read 1 s) (\<lambda>(h, s).
     Option.bind (ps_read 1 s) (\<lambda>(b, s).
     Option.bind (ps_read 1 s) (\<lambda>(l, s).
     Option.bind (ps_read 1 s) (\<lambda>(f, s).
       Some (\<lparr>lookType = of_nat t, lookTypeEx = of_nat x, lookHead = of_nat h, lookBody = of_nat b, lookLegs = of_nat l, lookFeet = of_nat f\<rparr>, s)))))))"

definition unserializeProp :: "cond_env \<Rightarrow> nat \<Rightarrow> Condition \<Rightarrow> PropStream \<Rightarrow> reading" where
  "unserializeProp e attr c s =
     (let base = base_unserializeProp attr c s
      in case kind c of
           ConditionGeneric \<Rightarrow> base
         | ConditionInvisible \<Rightarrow> base
         | ConditionAttributes a \<Rightarrow>
             (if attr = 22
              then (if currentSkill a < length (skills a)
                    then rd 4 s (c\<lparr>kind := ConditionAttributes (a\<lparr>currentSkill := Suc (currentSkill a)\<rparr>)\<rparr>)
                           (\<lambda>v. c\<lparr>kind := ConditionAttributes (a\<lparr>skills := (skills a)[currentSkill a := int32_of v],
                                                                currentSkill := Suc (currentSkill a)\<rparr>)\<rparr>)
                    else None)
              else if attr = 23
              then (if currentStat a < length (stats a)
                    then rd 4 s (c\<lparr>kind := ConditionAttributes (a\<lparr>currentStat := Suc (currentStat a)\<rparr>)\<rparr>)
                           (\<lambda>v. c\<lparr>kind := ConditionAttributes (a\<lparr>stats := (stats a)[currentStat a := int32_of v],
                                                                currentStat := Suc (currentStat a)\<rparr>)\<rparr>)
                    else None)
              else base)
         | ConditionRegeneration r \<Rightarrow>
             (if attr = 4 then rd 4 s c (\<lambda>v. c\<lparr>kind := ConditionRegeneration (r\<lparr>healthTicks := of_nat v\<rparr>)\<rparr>)
              else if attr = 5 then rd 4 s c (\<lambda>v. c\<lparr>kind := ConditionRegeneration (r\<lparr>healthGain := of_nat v\<rparr>)\<rparr>)
              else if attr = 6 then rd 4 s c (\<lambda>v. c\<lparr>kind := ConditionRegeneration (r\<lparr>manaTicks := of_nat v\<rparr>)\<rparr>)
              else if attr = 7 then rd 4 s c (\<lambda>v. c\<lparr>kind := ConditionRegeneration (r\<lparr>manaGain := of_nat v\<rparr>)\<rparr>)
              else base)
         | ConditionSoul so \<Rightarrow>
             (if attr = 21 then rd 4 s c (\<lambda>v. c\<lparr>kind := ConditionSoul (so\<lparr>soulGain := of_nat v\<rparr>)\<rparr>)
              else if attr = 20 then rd 4 s c (\<lambda>v. c\<lparr>kind := ConditionSoul (so\<lparr>soulTicks := of_nat v\<rparr>)\<rparr>)
              else base)
         | ConditionDamage d \<Rightarrow>
             (if attr = 8 then rd 1 s c (\<lambda>v. c\<lparr>kind := ConditionDamage (d\<lparr>delayed := (v \<noteq> 0)\<rparr>)\<rparr>)
              else if attr = 25 then rd 4 s c (\<lambda>v. c\<lparr>kind := ConditionDamage (d\<lparr>periodDamage := int32_of v\<rparr>)\<rparr>)
              else if attr = 9 then (case ps_skip 4 s of None \<Rightarrow> Some (False, c, s) | Some s \<Rightarrow> Some (True, c, s))
              else if attr = 10
              then (case read_interval s of
                      None \<Rightarrow> Some (False, c, s)
                    | Some (x, s) \<Rightarrow>
                        (let c = c\<lparr>kind := ConditionDamage (d\<lparr>damageList := damageList d @ [x]\<rparr>)\<rparr>
                         in Some (True, if ticks c \<noteq> -1 then setTicks e (ticks c + iv_interval x) c else c, s)))
              else base)
         | ConditionSpeed sp \<Rightarrow>
             (if attr = 11 then rd 4 s c (\<lambda>v. c\<lparr>kind := ConditionSpeed (sp\<lparr>speedDelta := int32_of v\<rparr>)\<rparr>)
              else if attr = 12 then rd 4 s c (\<lambda>v. c\<lparr>kind := ConditionSpeed (sp\<lparr>mina := of_nat v\<rparr>)\<rparr>)
              else if attr = 13 then rd 4 s c (\<lambda>v. c\<lparr>kind := ConditionSpeed (sp\<lparr>minb := of_nat v\<rparr>)\<rparr>)
              else if attr = 14 then rd 4 s c (\<lambda>v. c\<lparr>kind := ConditionSpeed (sp\<lparr>maxa := of_nat v\<rparr>)\<rparr>)
              else if attr = 15 then rd 4 s c (\<lambda>v. c\<lparr>kind := ConditionSpeed (sp\<lparr>maxb := of_nat v\<rparr>)\<rparr>)
              else base)
         | ConditionOutfit f \<Rightarrow>
             (if attr = 24
              then (case read_outfit s of None \<Rightarrow> Some (False, c, s) | Some (f, s) \<Rightarrow> Some (True, c\<lparr>kind := ConditionOutfit f\<rparr>, s))
              else base)
         | ConditionLight l \<Rightarrow>
             (if attr = 16 then rd 4 s c (\<lambda>v. c\<lparr>kind := ConditionLight (l\<lparr>lightColor := of_nat v\<rparr>)\<rparr>)
              else if attr = 17 then rd 4 s c (\<lambda>v. c\<lparr>kind := ConditionLight (l\<lparr>lightLevel := of_nat v\<rparr>)\<rparr>)
              else if attr = 18 then rd 4 s c (\<lambda>v. c\<lparr>kind := ConditionLight (l\<lparr>internalLightTicks := of_nat v\<rparr>)\<rparr>)
              else if attr = 19 then rd 4 s c (\<lambda>v. c\<lparr>kind := ConditionLight (l\<lparr>lightChangeInterval := of_nat v\<rparr>)\<rparr>)
              else base))"

partial_function (option) unserialize :: "cond_env \<Rightarrow> Condition \<Rightarrow> PropStream \<Rightarrow> (bool \<times> Condition \<times> PropStream) option" where
  "unserialize e c s =
     (case ps_read 1 s of
        None \<Rightarrow> Some (True, c, s)
      | Some (attr, s1) \<Rightarrow>
          (if attr = 254 then Some (True, c, s1)
           else Option.bind (unserializeProp e attr c s1) (\<lambda>(ok, c, s). if ok then unserialize e c s else Some (False, c, s))))"

definition rd_tagged :: "nat \<Rightarrow> nat \<Rightarrow> PropStream \<Rightarrow> (nat \<times> PropStream) option" where
  "rd_tagged attr k s =
     (case ps_read 1 s of None \<Rightarrow> None | Some (a, s) \<Rightarrow> if a \<noteq> attr then None else ps_read k s)"

text \<open>The factory; \<open>None\<close> is the null pointer.\<close>

definition createFrom :: "PropStream \<Rightarrow> (Condition \<times> PropStream) option" where
  "createFrom s =
     Option.bind (rd_tagged 1 4 s) (\<lambda>(t, s).
     Option.bind (rd_tagged 2 4 s) (\<lambda>(i, s).
     Option.bind (rd_tagged 3 4 s) (\<lambda>(tk, s).
     Option.bind (rd_tagged 26 1 s) (\<lambda>(b, s).
     Option.bind (rd_tagged 27 4 s) (\<lambda>(sub, s).
     map_option (\<lambda>c. (c, s))
       (createCondition (sint (of_nat i :: byte)) (type_of (of_nat t)) (int32_of tk) 0 (b \<noteq> 0) (of_nat sub)))))))"

text \<open>The loop of \<open>IOLoginData::loadPlayer\<close>: each condition goes to the front of the list of stored conditions.\<close>

partial_function (option) load_conditions :: "cond_env \<Rightarrow> PropStream \<Rightarrow> Condition list \<Rightarrow> Condition list option" where
  "load_conditions e s stored =
     (case createFrom s of
        None \<Rightarrow> Some stored
      | Some (c, s1) \<Rightarrow>
          Option.bind (unserialize e c s1) (\<lambda>(ok, c, s2). load_conditions e s2 (if ok then c # stored else stored)))"

subsection \<open>The bytes written\<close>

definition field_bytes :: "fields \<Rightarrow> byte list" where
  "field_bytes fs = concat (map (\<lambda>(k, v). le_bytes k v) fs)"

lemma field_bytes_simps [simp]:
  "field_bytes [] = []" "field_bytes ((k, v) # fs) = le_bytes k v @ field_bytes fs" "field_bytes (fs @ gs) = field_bytes fs @ field_bytes gs"
  by (simp_all add: field_bytes_def)

lemma writes_ok: "pw_inv w \<Longrightarrow> \<exists>w'. writes fs w = Some w' \<and> pw_inv w' \<and> pw_data w' = pw_data w @ field_bytes fs"
proof (induction fs arbitrary: w)
  case (Cons f fs)
  obtain k v where f: "f = (k, v)" by fastforce
  obtain w1 where w1: "pw_write k v w = Some w1" "pw_inv w1" "pw_data w1 = pw_data w @ le_bytes k v"
    using pw_write_ok [OF Cons.prems] by blast
  then show ?case using Cons.IH [OF w1(2)] f by auto
qed simp

definition cond_bytes :: "Condition \<Rightarrow> byte list" where
  "cond_bytes c = field_bytes (base_fields c @ kind_fields (kind c)) @ le_bytes 1 254"

lemma save_conditions_ok:
  "pw_inv w \<Longrightarrow> \<exists>w'. save_conditions cs w = Some w' \<and> pw_inv w' \<and> pw_data w' = pw_data w @ concat (map cond_bytes (filter cond_persistent cs))"
proof (induction cs arbitrary: w)
  case (Cons c cs)
  show ?case
  proof (cases "cond_persistent c")
    case True
    obtain w1 where w1: "serialize c w = Some w1" "pw_inv w1" "pw_data w1 = pw_data w @ field_bytes (base_fields c @ kind_fields (kind c))"
      using writes_ok [OF Cons.prems] unfolding serialize_def by blast
    obtain w2 where w2: "pw_write 1 254 w1 = Some w2" "pw_inv w2" "pw_data w2 = pw_data w1 @ le_bytes 1 254"
      using pw_write_ok [OF w1(2)] by blast
    then show ?thesis using Cons.IH [OF w2(2)] w1 True by (auto simp: cond_bytes_def)
  next
    case False
    then show ?thesis using Cons by simp
  qed
qed simp

subsection \<open>Numbers survive\<close>

definition int32 :: "int \<Rightarrow> bool" where
  "int32 v \<longleftrightarrow> - (2 ^ 31) \<le> v \<and> v < 2 ^ 31"

lemma of_nat_unat_mod [simp]:
  "of_nat (unat (x :: u32) mod 4294967296) = x" "of_nat (unat (y :: 16 word) mod 65536) = y" "of_nat (unat (z :: byte) mod 256) = z"
  "of_nat (unat (z :: byte) mod 4294967296) = z"
proof -
  have "unat x < 4294967296" "unat y < 65536" "unat z < 256"
    using unsigned_less [of x, where ?'a = nat] unsigned_less [of y, where ?'a = nat] unsigned_less [of z, where ?'a = nat] by simp_all
  then show "of_nat (unat x mod 4294967296) = x" "of_nat (unat y mod 65536) = y" "of_nat (unat z mod 256) = z"
    "of_nat (unat z mod 4294967296) = z"
    by simp_all
qed

lemma int32_roundtrip: "int32 v \<Longrightarrow> int32_of (u32_of v mod 4294967296) = v"
  by (simp add: int32_def int32_of_def u32_of_def sint_sbintrunc' signed_take_bit_int_eq_self)

lemma cid_roundtrip: "cid c = -1 \<or> cid c = 0 \<Longrightarrow> sint (of_nat (u32_of (cid c) mod 4294967296) :: byte) = cid c"
  by (auto simp: u32_of_def unsigned_minus_1_eq_mask mask_eq_exp_minus_1)

lemma find_inj: "distinct (map f xs) \<Longrightarrow> x \<in> set xs \<Longrightarrow> find (\<lambda>u. f u = f x) xs = Some x"
  by (induction xs) (auto simp: image_iff)

lemma type_codes_distinct: "distinct (map type_code all_types)"
  by (simp add: all_types_def)

lemma type_roundtrip:
  assumes "t \<in> set all_types"
  shows "type_of (of_nat (unat (type_code t) mod 4294967296)) = t"
  using find_inj [OF type_codes_distinct assms] by (simp add: type_of_def)

subsection \<open>Reading tagged fields\<close>

lemma rd_bytes: "rd k (le_bytes k v @ r) c f = Some (True, f (v mod 256 ^ k), r)"
  by (simp add: rd_def ps_read_bytes)

lemma unserialize_tag:
  assumes "tag < 254" and "unserializeProp e tag c s = Some (True, c', r)"
  shows "unserialize e c (le_bytes 1 tag @ s) = unserialize e c' r"
  using assms ps_read_bytes [of 1 tag s] by (subst unserialize.simps) simp

lemma unserialize_end: "unserialize e c (le_bytes 1 254 @ r) = Some (True, c, r)"
  using ps_read_bytes [of 1 254 r] by (subst unserialize.simps) simp

lemma rd_tagged_bytes: "tag < 256 \<Longrightarrow> rd_tagged tag k (le_bytes 1 tag @ le_bytes k v @ r) = Some (v mod 256 ^ k, r)"
  using ps_read_bytes [of 1 tag "le_bytes k v @ r"] by (simp add: rd_tagged_def ps_read_bytes)

lemma createFrom_bytes:
  assumes "conditionType c \<in> set all_types" and "cid c = -1 \<or> cid c = 0" and "int32 (ticks c)"
  shows "createFrom (field_bytes (base_fields c) @ r) =
     map_option (\<lambda>c. (c, r)) (createCondition (cid c) (conditionType c) (ticks c) 0 (isBuff c) (subId c))"
  using type_roundtrip [OF assms(1)] cid_roundtrip [OF assms(2)] int32_roundtrip [OF assms(3)]
  by (simp add: createFrom_def base_fields_def rd_tagged_bytes del: le_bytes.simps One_nat_def)

lemma unserialize_step:
  assumes "tag < 254"
  shows "unserialize e c (le_bytes 1 tag @ s) =
     Option.bind (unserializeProp e tag c s) (\<lambda>(ok, c, s). if ok then unserialize e c s else Some (False, c, s))"
  using assms ps_read_bytes [of 1 tag s] by (subst unserialize.simps) simp

subsection \<open>What comes back\<close>

text \<open>The data of each kind as the factory makes it, and after reading: counters start again, percentages, damage bounds and the owner are not saved.\<close>

definition fresh_kind :: "cond_kind \<Rightarrow> cond_kind" where
  "fresh_kind kd =
     (case kd of
        ConditionAttributes _ \<Rightarrow> ConditionAttributes new_AttrData
      | ConditionRegeneration _ \<Rightarrow> ConditionRegeneration new_RegenData
      | ConditionSoul _ \<Rightarrow> ConditionSoul new_SoulData
      | ConditionDamage _ \<Rightarrow> ConditionDamage new_DamageData
      | ConditionSpeed _ \<Rightarrow> ConditionSpeed (new_SpeedData 0)
      | ConditionOutfit _ \<Rightarrow> ConditionOutfit zero_outfit
      | ConditionLight _ \<Rightarrow> ConditionLight (new_LightData 0 0)
      | _ \<Rightarrow> kd)"

definition restored_kind :: "cond_kind \<Rightarrow> cond_kind" where
  "restored_kind kd =
     (case kd of
        ConditionAttributes a \<Rightarrow> ConditionAttributes (new_AttrData\<lparr>skills := skills a, stats := stats a, currentSkill := 7, currentStat := 4\<rparr>)
      | ConditionRegeneration r \<Rightarrow> ConditionRegeneration (r\<lparr>internalHealthTicks := 0, internalManaTicks := 0\<rparr>)
      | ConditionSoul s \<Rightarrow> ConditionSoul (s\<lparr>internalSoulTicks := 0\<rparr>)
      | ConditionDamage d \<Rightarrow> ConditionDamage (new_DamageData\<lparr>delayed := delayed d, periodDamage := periodDamage d, damageList := damageList d\<rparr>)
      | _ \<Rightarrow> kd)"

definition restored :: "cond_env \<Rightarrow> Condition \<Rightarrow> Condition" where
  "restored e c =
     (case kind c of
        ConditionDamage d \<Rightarrow>
          (let total = sum_list (map iv_interval (damageList d));
               n = new_Condition (cid c) (conditionType c) 0 (isBuff c) (subId c) (restored_kind (kind c))
           in if damageList d = [] then n else setTicks e total n)
      | _ \<Rightarrow> new_Condition (cid c) (conditionType c) (ticks c) (isBuff c) (subId c) (restored_kind (kind c)))"

definition right_kind :: "ConditionType_t \<Rightarrow> cond_kind \<Rightarrow> bool" where
  "right_kind t kd \<longleftrightarrow>
     (case kd of
        ConditionDamage _ \<Rightarrow> t \<in> {CONDITION_POISON, CONDITION_FIRE, CONDITION_ENERGY, CONDITION_BLEEDING}
      | ConditionSpeed _ \<Rightarrow> t \<in> {CONDITION_HASTE, CONDITION_PARALYZE}
      | ConditionInvisible \<Rightarrow> t = CONDITION_INVISIBLE
      | ConditionOutfit _ \<Rightarrow> t = CONDITION_OUTFIT
      | ConditionLight _ \<Rightarrow> t = CONDITION_LIGHT
      | ConditionRegeneration _ \<Rightarrow> t = CONDITION_REGENERATION
      | ConditionSoul _ \<Rightarrow> t = CONDITION_SOUL
      | ConditionAttributes _ \<Rightarrow> t = CONDITION_ATTRIBUTES
      | ConditionGeneric \<Rightarrow>
          t \<in> {CONDITION_INFIGHT, CONDITION_DRUNK, CONDITION_EXHAUST_WEAPON, CONDITION_EXHAUST_COMBAT, CONDITION_EXHAUST_HEAL,
               CONDITION_MUTED, CONDITION_CHANNELMUTEDTICKS, CONDITION_YELLTICKS, CONDITION_PACIFIED, CONDITION_MANASHIELD})"

definition kind_fits :: "cond_kind \<Rightarrow> bool" where
  "kind_fits kd \<longleftrightarrow>
     (case kd of
        ConditionAttributes a \<Rightarrow> length (skills a) = 7 \<and> length (stats a) = 4 \<and> list_all int32 (skills a) \<and> list_all int32 (stats a)
      | ConditionDamage d \<Rightarrow> int32 (periodDamage d)
          \<and> list_all (\<lambda>x. int32 (timeLeft x) \<and> int32 (iv_value x) \<and> int32 (iv_interval x) \<and> 0 \<le> iv_interval x) (damageList d)
      | ConditionSpeed s \<Rightarrow> int32 (speedDelta s)
      | _ \<Rightarrow> True)"

definition cond_fits :: "Condition \<Rightarrow> bool" where
  "cond_fits c \<longleftrightarrow> right_kind (conditionType c) (kind c) \<and> kind_fits (kind c) \<and> int32 (ticks c)"

lemma right_kind_type: "right_kind t kd \<Longrightarrow> t \<in> set all_types"
  by (auto simp: right_kind_def all_types_def split: cond_kind.splits)

lemma createCondition_kind:
  "right_kind t kd \<Longrightarrow> createCondition i t tk 0 b sub = Some (new_Condition i t (case kd of ConditionDamage _ \<Rightarrow> 0 | _ \<Rightarrow> tk) b sub (fresh_kind kd))"
  by (cases kd) (auto simp: right_kind_def createCondition_def fresh_kind_def Let_def)

subsection \<open>Reading the data of each kind\<close>


lemma same_simps [simp]:
  "kind c = kd \<Longrightarrow> c\<lparr>kind := kd\<rparr> = c" "currentSkill a = n \<Longrightarrow> a\<lparr>currentSkill := n\<rparr> = a" "currentStat a = n \<Longrightarrow> a\<lparr>currentStat := n\<rparr> = a"
  for c :: Condition and a :: AttrData
  by auto

lemma unserialize_skills:
  assumes "list_all int32 vs" and "n + length vs \<le> length (skills a)" and "kind c = ConditionAttributes a" and "currentSkill a = n"
  shows "unserialize e c (field_bytes (concat (map (\<lambda>v. [(1, 22), (4, u32_of v)]) vs)) @ r) =
    unserialize e (c\<lparr>kind := ConditionAttributes (a\<lparr>skills := take n (skills a) @ vs @ drop (n + length vs) (skills a), currentSkill := n + length vs\<rparr>)\<rparr>) r"
  using assms
proof (induction vs arbitrary: n a c)
  case Nil
  then show ?case by simp
next
  case (Cons v vs)
  let ?a = "a\<lparr>skills := (skills a)[n := v], currentSkill := Suc n\<rparr>"
  have v: "int32_of (u32_of v mod 4294967296) = v" using Cons.prems(1) by (simp add: int32_roundtrip)
  have "unserialize e c (field_bytes (concat (map (\<lambda>v. [(1, 22), (4, u32_of v)]) (v # vs))) @ r)
      = unserialize e (c\<lparr>kind := ConditionAttributes ?a\<rparr>) (field_bytes (concat (map (\<lambda>v. [(1, 22), (4, u32_of v)]) vs)) @ r)"
    using Cons.prems v by (simp add: unserialize_step unserializeProp_def rd_bytes del: le_bytes.simps One_nat_def)
  also have "\<dots> = unserialize e (c\<lparr>kind := ConditionAttributes (?a\<lparr>skills := take (Suc n) (skills ?a) @ vs @ drop (Suc n + length vs) (skills ?a),
      currentSkill := Suc n + length vs\<rparr>)\<rparr>) r"
    using Cons.prems by (subst Cons.IH [of "Suc n" ?a]) simp_all
  also have "take (Suc n) (skills ?a) @ vs @ drop (Suc n + length vs) (skills ?a) = take n (skills a) @ (v # vs) @ drop (n + length (v # vs)) (skills a)"
    using Cons.prems(2) by (simp add: take_Suc_conv_app_nth)
  finally show ?case by simp
qed

lemma unserialize_stats:
  assumes "list_all int32 vs" and "n + length vs \<le> length (stats a)" and "kind c = ConditionAttributes a" and "currentStat a = n"
  shows "unserialize e c (field_bytes (concat (map (\<lambda>v. [(1, 23), (4, u32_of v)]) vs)) @ r) =
    unserialize e (c\<lparr>kind := ConditionAttributes (a\<lparr>stats := take n (stats a) @ vs @ drop (n + length vs) (stats a), currentStat := n + length vs\<rparr>)\<rparr>) r"
  using assms
proof (induction vs arbitrary: n a c)
  case Nil
  then show ?case by simp
next
  case (Cons v vs)
  let ?a = "a\<lparr>stats := (stats a)[n := v], currentStat := Suc n\<rparr>"
  have v: "int32_of (u32_of v mod 4294967296) = v" using Cons.prems(1) by (simp add: int32_roundtrip)
  have "unserialize e c (field_bytes (concat (map (\<lambda>v. [(1, 23), (4, u32_of v)]) (v # vs))) @ r)
      = unserialize e (c\<lparr>kind := ConditionAttributes ?a\<rparr>) (field_bytes (concat (map (\<lambda>v. [(1, 23), (4, u32_of v)]) vs)) @ r)"
    using Cons.prems v by (simp add: unserialize_step unserializeProp_def rd_bytes del: le_bytes.simps One_nat_def)
  also have "\<dots> = unserialize e (c\<lparr>kind := ConditionAttributes (?a\<lparr>stats := take (Suc n) (stats ?a) @ vs @ drop (Suc n + length vs) (stats ?a),
      currentStat := Suc n + length vs\<rparr>)\<rparr>) r"
    using Cons.prems by (subst Cons.IH [of "Suc n" ?a]) simp_all
  also have "take (Suc n) (stats ?a) @ vs @ drop (Suc n + length vs) (stats ?a) = take n (stats a) @ (v # vs) @ drop (n + length (v # vs)) (stats a)"
    using Cons.prems(2) by (simp add: take_Suc_conv_app_nth)
  finally show ?case by simp
qed

lemma read_interval_bytes:
  assumes "int32 (timeLeft x)" "int32 (iv_value x)" "int32 (iv_interval x)"
  shows "read_interval (le_bytes 4 (u32_of (timeLeft x)) @ le_bytes 4 (u32_of (iv_value x)) @ le_bytes 4 (u32_of (iv_interval x)) @ r) = Some (x, r)"
  using assms by (simp add: read_interval_def ps_read_bytes int32_roundtrip del: le_bytes.simps)

lemma unserialize_intervals:
  assumes "list_all (\<lambda>x. int32 (timeLeft x) \<and> int32 (iv_value x) \<and> int32 (iv_interval x) \<and> 0 \<le> iv_interval x) xs"
    and "kind c = ConditionDamage d" and "0 \<le> ticks c"
  shows "unserialize e c (field_bytes (concat (map interval_fields xs)) @ r) =
    unserialize e (let n = c\<lparr>kind := ConditionDamage (d\<lparr>damageList := damageList d @ xs\<rparr>)\<rparr>
                   in if xs = [] then n else setTicks e (ticks c + sum_list (map iv_interval xs)) n) r"
  using assms
proof (induction xs arbitrary: c d)
  case Nil
  then show ?case by simp
next
  case (Cons x xs)
  let ?d = "d\<lparr>damageList := damageList d @ [x]\<rparr>"
  let ?c = "setTicks e (ticks c + iv_interval x) (c\<lparr>kind := ConditionDamage ?d\<rparr>)"
  have "unserialize e c (field_bytes (concat (map interval_fields (x # xs))) @ r) = unserialize e ?c (field_bytes (concat (map interval_fields xs)) @ r)"
    using Cons.prems by (simp add: interval_fields_def [of x] unserialize_step unserializeProp_def read_interval_bytes Let_def del: le_bytes.simps One_nat_def)
  also have "\<dots> = unserialize e (let n = ?c\<lparr>kind := ConditionDamage (?d\<lparr>damageList := damageList ?d @ xs\<rparr>)\<rparr>
                   in if xs = [] then n else setTicks e (ticks ?c + sum_list (map iv_interval xs)) n) r"
    using Cons.prems by (intro Cons.IH) (simp_all add: setTicks_def)
  also have "(let n = ?c\<lparr>kind := ConditionDamage (?d\<lparr>damageList := damageList ?d @ xs\<rparr>)\<rparr>
                   in if xs = [] then n else setTicks e (ticks ?c + sum_list (map iv_interval xs)) n)
      = (let n = c\<lparr>kind := ConditionDamage (d\<lparr>damageList := damageList d @ (x # xs)\<rparr>)\<rparr>
         in if x # xs = [] then n else setTicks e (ticks c + sum_list (map iv_interval (x # xs))) n)"
    by (cases c) (simp add: setTicks_def Let_def add.assoc)
  finally show ?case .
qed

lemma read_outfit_bytes: "read_outfit (field_bytes (outfit_fields f) @ r) = Some (f, r)"
  by (simp add: read_outfit_def outfit_fields_def ps_read_bytes del: le_bytes.simps One_nat_def)

lemma map_nth_upt: "length xs = n \<Longrightarrow> map (\<lambda>i. g (xs ! i)) [0..<n] = map g xs"
  by (intro nth_equalityI) auto

lemma unserialize_kind:
  assumes "kind_fits kd" and "\<And>d. kd \<noteq> ConditionDamage d"
  shows "unserialize e (c\<lparr>kind := fresh_kind kd\<rparr>) (field_bytes (kind_fields kd) @ le_bytes 1 254 @ r) = Some (True, c\<lparr>kind := restored_kind kd\<rparr>, r)"
proof (cases kd)
  case (ConditionAttributes a)
  let ?n = "new_AttrData"
  let ?b = "?n\<lparr>skills := skills a, currentSkill := 7\<rparr>"
  have fits: "length (skills a) = 7" "length (stats a) = 4" "list_all int32 (skills a)" "list_all int32 (stats a)"
    using assms(1) ConditionAttributes by (simp_all add: kind_fits_def)
  have "unserialize e (c\<lparr>kind := ConditionAttributes ?n\<rparr>) (field_bytes (concat (map (\<lambda>v. [(1, 22), (4, u32_of v)]) (skills a))) @ s)
      = unserialize e (c\<lparr>kind := ConditionAttributes ?b\<rparr>) s" for s
    using fits by (subst unserialize_skills [of "skills a" 0 ?n]) (simp_all add: new_AttrData_def)
  moreover have "unserialize e (c\<lparr>kind := ConditionAttributes ?b\<rparr>) (field_bytes (concat (map (\<lambda>v. [(1, 23), (4, u32_of v)]) (stats a))) @ s)
      = unserialize e (c\<lparr>kind := ConditionAttributes (?b\<lparr>stats := stats a, currentStat := 4\<rparr>)\<rparr>) s" for s
    using fits by (subst unserialize_stats [of "stats a" 0 ?b]) (simp_all add: new_AttrData_def)
  ultimately show ?thesis
    using ConditionAttributes fits
    by (simp add: kind_fields_def fresh_kind_def restored_kind_def map_nth_upt [of "skills a" 7 "\<lambda>v. [(1, 22), (4, u32_of v)]"]
        map_nth_upt [of "stats a" 4 "\<lambda>v. [(1, 23), (4, u32_of v)]"] unserialize_end del: le_bytes.simps One_nat_def upt_rec_numeral)
next
  case (ConditionOutfit f)
  then show ?thesis
    by (simp add: kind_fields_def fresh_kind_def restored_kind_def unserialize_step unserializeProp_def read_outfit_bytes unserialize_end
        del: le_bytes.simps One_nat_def)
next
  case (ConditionDamage d)
  then show ?thesis using assms(2) by blast
next
  case (ConditionRegeneration x)
  then show ?thesis
    by (simp add: kind_fields_def fresh_kind_def restored_kind_def unserialize_step unserializeProp_def rd_bytes unserialize_end
        new_RegenData_def del: le_bytes.simps One_nat_def)
next
  case (ConditionSoul x)
  then show ?thesis
    by (simp add: kind_fields_def fresh_kind_def restored_kind_def unserialize_step unserializeProp_def rd_bytes unserialize_end
        new_SoulData_def del: le_bytes.simps One_nat_def)
next
  case (ConditionSpeed x)
  then show ?thesis
    using assms(1)
    by (simp add: kind_fields_def kind_fits_def fresh_kind_def restored_kind_def unserialize_step unserializeProp_def rd_bytes unserialize_end
        new_SpeedData_def int32_roundtrip del: le_bytes.simps One_nat_def)
next
  case (ConditionLight x)
  then show ?thesis
    by (simp add: kind_fields_def fresh_kind_def restored_kind_def unserialize_step unserializeProp_def rd_bytes unserialize_end
        new_LightData_def del: le_bytes.simps One_nat_def)
qed (simp_all add: kind_fields_def fresh_kind_def restored_kind_def unserialize_end del: le_bytes.simps One_nat_def)

lemma unserialize_damage:
  assumes "kind_fits (ConditionDamage d)" and "ticks c = 0"
  shows "unserialize e (c\<lparr>kind := ConditionDamage new_DamageData\<rparr>) (field_bytes (kind_fields (ConditionDamage d)) @ le_bytes 1 254 @ r) =
    Some (True, let n = c\<lparr>kind := restored_kind (ConditionDamage d)\<rparr>
                in if damageList d = [] then n else setTicks e (sum_list (map iv_interval (damageList d))) n, r)"
proof -
  let ?d = "new_DamageData\<lparr>delayed := delayed d, periodDamage := periodDamage d\<rparr>"
  have b: "(if delayed d then 1 else 0) mod 256 = (0::nat) \<longleftrightarrow> \<not> delayed d" by simp
  have "unserialize e (c\<lparr>kind := ConditionDamage new_DamageData\<rparr>) (field_bytes (kind_fields (ConditionDamage d)) @ le_bytes 1 254 @ r)
      = unserialize e (c\<lparr>kind := ConditionDamage ?d\<rparr>) (field_bytes (concat (map interval_fields (damageList d))) @ le_bytes 1 254 @ r)"
    using assms by (simp add: kind_fields_def kind_fits_def unserialize_step unserializeProp_def rd_bytes int32_roundtrip b
        del: le_bytes.simps One_nat_def)
  also have "\<dots> = Some (True, let n = c\<lparr>kind := restored_kind (ConditionDamage d)\<rparr>
                in if damageList d = [] then n else setTicks e (sum_list (map iv_interval (damageList d))) n, r)"
    using assms
    by (subst unserialize_intervals [of "damageList d" _ ?d])
      (simp_all add: kind_fits_def restored_kind_def Let_def unserialize_end new_DamageData_def del: le_bytes.simps One_nat_def)
  finally show ?thesis .
qed

lemma new_Condition_kind: "(new_Condition i t tk b sub kd)\<lparr>kind := kd'\<rparr> = new_Condition i t tk b sub kd'"
  by (simp add: new_Condition_def)

lemma load_one:
  assumes "cond_fits c" and "cond_persistent c"
  shows "\<exists>c0 s. createFrom (cond_bytes c @ r) = Some (c0, s) \<and> unserialize e c0 s = Some (True, restored e c, r)"
proof -
  let ?tk = "case kind c of ConditionDamage _ \<Rightarrow> 0 | _ \<Rightarrow> ticks c"
  let ?c0 = "new_Condition (cid c) (conditionType c) ?tk (isBuff c) (subId c) (fresh_kind (kind c))"
  let ?s = "field_bytes (kind_fields (kind c)) @ le_bytes 1 254 @ r"
  have fits: "right_kind (conditionType c) (kind c)" "kind_fits (kind c)" "int32 (ticks c)" and cid: "cid c = -1 \<or> cid c = 0"
    using assms by (auto simp: cond_fits_def cond_persistent_def)
  have create: "createFrom (cond_bytes c @ r) = Some (?c0, ?s)"
    using createFrom_bytes [OF right_kind_type [OF fits(1)] cid fits(3), of ?s] createCondition_kind [OF fits(1)]
    by (simp add: cond_bytes_def del: le_bytes.simps One_nat_def)
  have "unserialize e ?c0 ?s = Some (True, restored e c, r)"
  proof (cases "\<exists>d. kind c = ConditionDamage d")
    case True
    then obtain d where d: "kind c = ConditionDamage d" by blast
    let ?n = "new_Condition (cid c) (conditionType c) 0 (isBuff c) (subId c) (ConditionDamage new_DamageData)"
    have "unserialize e (?n\<lparr>kind := ConditionDamage new_DamageData\<rparr>) ?s = Some (True, restored e c, r)"
      using unserialize_damage [of d ?n e r] fits(2) d
      by (simp add: restored_def Let_def new_Condition_kind del: le_bytes.simps One_nat_def) (simp add: new_Condition_def)
    then show ?thesis using d by (simp add: fresh_kind_def new_Condition_kind)
  next
    case False
    then have tk: "?tk = ticks c" "restored e c = new_Condition (cid c) (conditionType c) (ticks c) (isBuff c) (subId c) (restored_kind (kind c))"
      by (auto simp: restored_def split: cond_kind.splits)
    show ?thesis
      using unserialize_kind [OF fits(2), of e ?c0 r] False by (simp add: tk new_Condition_kind del: le_bytes.simps One_nat_def)
  qed
  then show ?thesis using create by blast
qed

lemma load_all:
  assumes "list_all (\<lambda>c. cond_fits c \<and> cond_persistent c) cs"
  shows "load_conditions e (concat (map cond_bytes cs)) stored = Some (rev (map (restored e) cs) @ stored)"
  using assms
proof (induction cs arbitrary: stored)
  case Nil
  have "createFrom [] = None" by (simp add: createFrom_def rd_tagged_def ps_read_def)
  then show ?case by (simp add: load_conditions.simps)
next
  case (Cons c cs)
  have "cond_fits c" "cond_persistent c" using Cons.prems by simp_all
  then obtain c0 s where "createFrom (cond_bytes c @ concat (map cond_bytes cs)) = Some (c0, s)"
    "unserialize e c0 s = Some (True, restored e c, concat (map cond_bytes cs))"
    using load_one by blast
  then show ?case
    using Cons by (subst load_conditions.simps) simp
qed

subsection \<open>Main result\<close>

text \<open>C24: Saving the conditions of a player never leaves its buffer, and loading the saved bytes at the next login ends and gives back
  every persistent condition, in reverse order: with its type, id, sub-id and remaining time (for damage the sum of the intervals left), and
  with its gains, damage list, speed, outfit or light as they were; counters start again.\<close>

theorem conditions_save_load:
  assumes "list_all cond_fits cs"
  shows "\<exists>w. save_conditions cs new_PropWriteStream = Some w
    \<and> load_conditions e (pw_data w) [] = Some (rev (map (restored e) (filter cond_persistent cs)))"
proof -
  have "pw_inv new_PropWriteStream"
    by (simp add: pw_inv_def new_PropWriteStream_def)
  from save_conditions_ok [OF this, of cs]
  obtain w where "save_conditions cs new_PropWriteStream = Some w" "pw_data w = concat (map cond_bytes (filter cond_persistent cs))"
    by (auto simp: new_PropWriteStream_def)
  moreover have "list_all (\<lambda>c. cond_fits c \<and> cond_persistent c) (filter cond_persistent cs)"
    using assms by (auto simp: list_all_iff)
  ultimately show ?thesis
    using load_all [of "filter cond_persistent cs" e "[]"] by auto
qed

text \<open>A player that is poisoned with three strikes left and hasted; the strikes come back with the time they need.\<close>

definition poison :: Condition where
  "poison = \<lparr>endTime = 7000, subId = 0, ticks = 4000, conditionType = CONDITION_POISON, cid = 0, isBuff = False,
     kind = ConditionDamage (new_DamageData\<lparr>minDamage := 3, maxDamage := 3,
       damageList := [\<lparr>timeLeft = 500, iv_value = -2, iv_interval = 2000\<rparr>, \<lparr>timeLeft = 2000, iv_value = -1, iv_interval = 2000\<rparr>]\<rparr>)\<rparr>"

definition swift :: Condition where
  "swift = new_Condition 0 CONDITION_HASTE 5000 False 0 (ConditionSpeed (new_SpeedData 60))"

lemma bitten_fits: "list_all cond_fits [poison, swift]"
  by (simp add: cond_fits_def poison_def swift_def new_Condition_def right_kind_def kind_fits_def int32_def new_SpeedData_def new_DamageData_def)

theorem conditions_save_load_witness:
  "list_all cond_fits [poison, swift] \<and> (\<forall>e. \<exists>w. save_conditions [poison, swift] new_PropWriteStream = Some w
    \<and> load_conditions e (pw_data w) [] = Some [swift, restored e poison] \<and> ticks (restored e poison) = 4000)"
proof -
  have "filter cond_persistent [poison, swift] = [poison, swift]" "restored e swift = swift" "ticks (restored e poison) = 4000" for e
    by (simp_all add: cond_persistent_def poison_def swift_def new_Condition_def restored_def restored_kind_def setTicks_def)
  then show ?thesis
    using conditions_save_load [OF bitten_fits] bitten_fits by simp
qed

end
