(* ===== verification/Map_Tree.thy ===== *)
theory Map_Tree
  imports Position_Model
begin

section \<open>The map: tree, leaves and tiles\<close>

text \<open>
  The storage of tiles (src/src/map.h, src/src/map.cpp: \<open>QTreeNode\<close>, \<open>QTreeLeafNode\<close>, \<open>Floor\<close>, \<open>Map::getTile\<close>, \<open>Map::setTile\<close>). A
  leaf of the tree is an index into the list of leaves, because leaves also point at their southern and eastern neighbours; a floor is a
  function from the two offsets to a tile. What a tile is stays open (type variable \<open>'t\<close>): \<open>setTile\<close> on an occupied place moves the items of
  the new tile to the old one with \<open>Tile::addThing\<close>, the argument \<open>merge\<close>.
\<close>

definition MAP_MAX_LAYERS :: nat where
  "MAP_MAX_LAYERS = 16"

definition FLOOR_BITS :: nat where
  "FLOOR_BITS = 3"

definition FLOOR_SIZE :: nat where
  "FLOOR_SIZE = 2 ^ FLOOR_BITS"

definition FLOOR_MASK :: nat where
  "FLOOR_MASK = FLOOR_SIZE - 1"

datatype qtree =
    QTreeNode "qtree option" "qtree option" "qtree option" "qtree option"
  | QTreeLeaf nat

type_synonym 't floor = "nat \<times> nat \<Rightarrow> 't option"

record 't QTreeLeafNode =
  leafS :: "nat option"
  leafE :: "nat option"
  floors :: "'t floor option list"
  creature_list :: "nat list"
  player_list :: "nat list"

definition new_QTreeLeafNode :: "'t QTreeLeafNode" where
  "new_QTreeLeafNode = \<lparr>leafS = None, leafE = None, floors = replicate MAP_MAX_LAYERS None, creature_list = [], player_list = []\<rparr>"

record 't tile_map =
  root :: qtree
  leaves :: "'t QTreeLeafNode list"

definition empty_map :: "'t tile_map" where
  "empty_map = \<lparr>root = QTreeNode None None None None, leaves = []\<rparr>"

definition quadrant :: "32 word \<Rightarrow> 32 word \<Rightarrow> nat" where
  "quadrant x y = unat (drop_bit 15 (x AND 0x8000) OR drop_bit 14 (y AND 0x8000))"

fun child :: "qtree \<Rightarrow> nat \<Rightarrow> qtree option" where
  "child (QTreeNode a b c d) i = (if i = 0 then a else if i = 1 then b else if i = 2 then c else d)"
| "child (QTreeLeaf l) i = None"

fun set_child :: "qtree \<Rightarrow> nat \<Rightarrow> qtree \<Rightarrow> qtree" where
  "set_child (QTreeNode a b c d) i n =
     (if i = 0 then QTreeNode (Some n) b c d else if i = 1 then QTreeNode a (Some n) c d
      else if i = 2 then QTreeNode a b (Some n) d else QTreeNode a b c (Some n))"
| "set_child (QTreeLeaf l) i n = QTreeLeaf l"

lemma child_size: "child t i = Some n \<Longrightarrow> size n < size t"
  by (cases t) (auto split: if_splits)

function getLeaf :: "qtree \<Rightarrow> 32 word \<Rightarrow> 32 word \<Rightarrow> nat option" where
  "getLeaf t x y =
     (case t of
        QTreeLeaf l \<Rightarrow> Some l
      | _ \<Rightarrow> (case child t (quadrant x y) of None \<Rightarrow> None | Some n \<Rightarrow> getLeaf n (push_bit 1 x) (push_bit 1 y)))"
  by auto
termination
  by (relation "measure (\<lambda>(t, x, y). size t)") (auto dest!: child_size simp del: child.simps)

declare getLeaf.simps [simp del]

text \<open>The loop of \<open>getLeafStatic\<close> takes a step before it looks at the node.\<close>

function getLeafStatic :: "qtree \<Rightarrow> 32 word \<Rightarrow> 32 word \<Rightarrow> nat option" where
  "getLeafStatic t x y =
     (case child t (quadrant x y) of
        None \<Rightarrow> None
      | Some (QTreeLeaf l) \<Rightarrow> Some l
      | Some n \<Rightarrow> getLeafStatic n (push_bit 1 x) (push_bit 1 y))"
  by auto
termination
  by (relation "measure (\<lambda>(t, x, y). size t)") (auto dest!: child_size simp del: child.simps)

declare getLeafStatic.simps [simp del]

text \<open>\<open>createLeaf\<close> gives a missing leaf the next free index; \<open>None\<close> would be a descent below the level of the leaves.\<close>

fun createLeaf :: "nat \<Rightarrow> 32 word \<Rightarrow> 32 word \<Rightarrow> nat \<Rightarrow> qtree \<Rightarrow> (qtree \<times> nat \<times> bool) option" where
  "createLeaf fresh x y level (QTreeLeaf l) = Some (QTreeLeaf l, l, False)"
| "createLeaf fresh x y 0 t = None"
| "createLeaf fresh x y (Suc level) t =
     (let index = quadrant x y;
          (n, new) = (case child t index of
                        Some n \<Rightarrow> (n, False)
                      | None \<Rightarrow> if Suc level \<noteq> FLOOR_BITS then (QTreeNode None None None None, False) else (QTreeLeaf fresh, True))
      in map_option (\<lambda>(n, l, new'). (set_child t index n, l, new \<or> new')) (createLeaf fresh (x * 2) (y * 2) level n))"

subsection \<open>Tiles\<close>

definition map_leaf :: "nat \<Rightarrow> ('t QTreeLeafNode \<Rightarrow> 't QTreeLeafNode) \<Rightarrow> 't tile_map \<Rightarrow> 't tile_map" where
  "map_leaf l f m = m\<lparr>leaves := (leaves m)[l := f (leaves m ! l)]\<rparr>"

definition getTile :: "'t tile_map \<Rightarrow> 16 word \<Rightarrow> 16 word \<Rightarrow> 8 word \<Rightarrow> 't option" where
  "getTile m x y z =
     (if unat z \<ge> MAP_MAX_LAYERS then None
      else case getLeafStatic (root m) (ucast x) (ucast y) of
        None \<Rightarrow> None
      | Some l \<Rightarrow> (case floors (leaves m ! l) ! unat z of
          None \<Rightarrow> None
        | Some tiles \<Rightarrow> tiles (unat (x AND of_nat FLOOR_MASK), unat (y AND of_nat FLOOR_MASK))))"

definition link_leaf :: "32 word \<Rightarrow> 32 word \<Rightarrow> nat \<Rightarrow> 't tile_map \<Rightarrow> 't tile_map" where
  "link_leaf x y l m =
     (let size = of_nat FLOOR_SIZE;
          m = (case getLeaf (root m) x (y - size) of None \<Rightarrow> m | Some n \<Rightarrow> map_leaf n (leafS_update (\<lambda>_. Some l)) m);
          m = (case getLeaf (root m) (x - size) y of None \<Rightarrow> m | Some n \<Rightarrow> map_leaf n (leafE_update (\<lambda>_. Some l)) m);
          m = (case getLeaf (root m) x (y + size) of None \<Rightarrow> m | Some n \<Rightarrow> map_leaf l (leafS_update (\<lambda>_. Some n)) m)
      in case getLeaf (root m) (x + size) y of None \<Rightarrow> m | Some n \<Rightarrow> map_leaf l (leafE_update (\<lambda>_. Some n)) m)"

definition createFloor :: "nat \<Rightarrow> 't QTreeLeafNode \<Rightarrow> 't floor" where
  "createFloor z n = (case floors n ! z of None \<Rightarrow> \<lambda>_. None | Some tiles \<Rightarrow> tiles)"

definition put_tile :: "('t \<Rightarrow> 't \<Rightarrow> 't) \<Rightarrow> nat \<Rightarrow> nat \<times> nat \<Rightarrow> 't \<Rightarrow> 't QTreeLeafNode \<Rightarrow> 't QTreeLeafNode" where
  "put_tile merge z p t n =
     (let tiles = createFloor z n
      in n\<lparr>floors := (floors n)[z := Some (tiles(p := Some (case tiles p of Some old \<Rightarrow> merge old t | None \<Rightarrow> t)))]\<rparr>)"

definition setTile :: "('t \<Rightarrow> 't \<Rightarrow> 't) \<Rightarrow> 16 word \<Rightarrow> 16 word \<Rightarrow> 8 word \<Rightarrow> 't \<Rightarrow> 't tile_map \<Rightarrow> 't tile_map option" where
  "setTile merge x y z t m =
     (if unat z \<ge> MAP_MAX_LAYERS then Some m
      else map_option (\<lambda>(r, l, new).
             let m = (if new then m\<lparr>root := r, leaves := leaves m @ [new_QTreeLeafNode]\<rparr> else m\<lparr>root := r\<rparr>);
                 m = (if new then link_leaf (ucast x) (ucast y) l m else m)
             in map_leaf l (put_tile merge (unat z) (unat (x AND of_nat FLOOR_MASK), unat (y AND of_nat FLOOR_MASK)) t) m)
           (createLeaf (length (leaves m)) (ucast x) (ucast y) 15 (root m)))"

subsection \<open>Blocks of coordinates\<close>

text \<open>Thirteen levels of the tree look at the bits 15 to 3 of the coordinates: two coordinates meet in one leaf if they agree there.\<close>

definition agree :: "nat \<Rightarrow> 32 word \<Rightarrow> 32 word \<Rightarrow> bool" where
  "agree k x x' \<longleftrightarrow> (\<forall>i<k. bit x (15 - i) = bit x' (15 - i))"

definition block :: "32 word \<Rightarrow> nat" where
  "block x = (unat x mod 65536) div 8"

lemma bit_shift: "i < 15 \<Longrightarrow> bit (push_bit 1 x) (15 - i) = bit x (14 - i)" for x :: "32 word"
  by (simp only: bit_push_bit_iff possible_bit_word) (auto simp: numeral_eq_Suc)

lemma agree_Suc:
  assumes "k \<le> 15"
  shows "agree (Suc k) x x' \<longleftrightarrow> bit x 15 = bit x' 15 \<and> agree k (push_bit 1 x) (push_bit 1 x')"
proof -
  have "agree k (push_bit 1 x) (push_bit 1 x') \<longleftrightarrow> (\<forall>i<k. bit x (14 - i) = bit x' (14 - i))"
    unfolding agree_def using assms by (intro all_cong) (simp only: bit_shift)
  then show ?thesis unfolding agree_def by (simp only: All_less_Suc2) simp
qed

lemma agree_block: "agree 13 x x' \<longleftrightarrow> block x = block x'"
proof -
  have bit: "bit (block z) n \<longleftrightarrow> n < 13 \<and> bit z (n + 3)" for z :: "32 word" and n
  proof -
    have "block z = drop_bit 3 (take_bit 16 (unat z))" by (simp add: block_def drop_bit_eq_div take_bit_eq_mod)
    then show ?thesis by (auto simp: bit_drop_bit_eq bit_take_bit_iff bit_unsigned_iff add.commute)
  qed
  have "agree 13 x x' \<longleftrightarrow> (\<forall>n<13. bit x (n + 3) = bit x' (n + 3))"
  proof
    assume a: "agree 13 x x'"
    show "\<forall>n<13. bit x (n + 3) = bit x' (n + 3)"
    proof (intro allI impI)
      fix n :: nat assume "n < 13"
      then show "bit x (n + 3) = bit x' (n + 3)" using a [unfolded agree_def, rule_format, of "12 - n"] by (simp add: add.commute)
    qed
  next
    assume a: "\<forall>n<13. bit x (n + 3) = bit x' (n + 3)"
    show "agree 13 x x'" unfolding agree_def
    proof (intro allI impI)
      fix i :: nat assume "i < 13"
      then show "bit x (15 - i) = bit x' (15 - i)" using a [rule_format, of "12 - i"] by simp
    qed
  qed
  also have "\<dots> \<longleftrightarrow> block x = block x'" by (auto simp: bit_eq_iff bit)
  finally show ?thesis .
qed

lemma block_lt: "block x < 8192"
  by (simp add: block_def less_mult_imp_div_less)

lemma block_add: "block (x + 8) = (block x + 1) mod 8192"
proof -
  have d: "m mod 65536 div 8 = m div 8 mod 8192" for m :: nat
    using mod_mult2_eq [of m 8 8192] by simp
  have "unat (x + 8) mod 65536 = (unat x + 8) mod 65536"
    by (simp add: unat_word_ariths mod_mod_cancel)
  then have "block (x + 8) = ((unat x + 8) div 8) mod 8192" unfolding block_def using d by metis
  also have "(unat x + 8) div 8 = unat x div 8 + 1" by simp
  also have "(unat x div 8 + 1) mod 8192 = (block x + 1) mod 8192" unfolding block_def d by (simp add: mod_simps)
  finally show ?thesis .
qed

lemma block_add_eq: "block (x + 8) = block (x' + 8) \<longleftrightarrow> block x = block x'"
  using block_lt [of x] block_lt [of x'] unfolding block_add by (auto simp: mod_Suc split: if_splits)

lemma block_diff_eq: "block (x - 8) = block x' \<longleftrightarrow> block x = block (x' + 8)"
  using block_add_eq [of "x - 8" x'] by simp

lemma block_add_neq: "block (x + 8) \<noteq> block x"
  using block_lt [of x] unfolding block_add by (auto simp: mod_Suc split: if_splits)

lemma block_diff_neq: "block (x - 8) \<noteq> block x"
  using block_diff_eq [of x x] block_add_neq [of x] by metis

subsection \<open>The tree as a map from blocks to leaves\<close>

fun tree_ok :: "nat \<Rightarrow> qtree \<Rightarrow> bool" where
  "tree_ok 0 t \<longleftrightarrow> (\<exists>l. t = QTreeLeaf l)"
| "tree_ok (Suc k) t \<longleftrightarrow> (\<forall>l. t \<noteq> QTreeLeaf l) \<and> (\<forall>i n. child t i = Some n \<longrightarrow> tree_ok k n)"

lemma bit_8000: "bit (0x8000 :: 32 word) n \<longleftrightarrow> n = 15"
proof -
  have "(0x8000 :: 32 word) = 2 ^ 15" by simp
  then show ?thesis by (simp only: bit_exp_iff) auto
qed

lemma tree_ok_13: "tree_ok 13 t \<longleftrightarrow> (\<forall>l. t \<noteq> QTreeLeaf l) \<and> (\<forall>i n. child t i = Some n \<longrightarrow> tree_ok 12 n)"
  using tree_ok.simps(2) [of 12 t] by (simp del: tree_ok.simps)

lemma quadrant_bits: "quadrant x y = of_bool (bit x 15) + 2 * of_bool (bit y 15)"
proof -
  have "drop_bit 15 (x AND 0x8000) = of_bool (bit x 15)"
  proof (rule bit_word_eqI)
    fix n
    have "bit (of_bool (bit x 15) :: 32 word) n \<longleftrightarrow> bit x 15 \<and> n = 0" by (auto simp: bit_of_bool_iff)
    then show "bit (drop_bit 15 (x AND 0x8000)) n = bit (of_bool (bit x 15) :: 32 word) n"
      by (simp only: bit_drop_bit_eq bit_and_iff bit_8000 comp_def) auto
  qed
  moreover have "drop_bit 14 (y AND 0x8000) = (if bit y 15 then 2 else 0)"
  proof (rule bit_word_eqI)
    fix n
    have "bit (2 :: 32 word) n \<longleftrightarrow> n = 1" using bit_exp_iff [of 1 n, where 'a = "32 word"] by auto
    then show "bit (drop_bit 14 (y AND 0x8000)) n = bit (if bit y 15 then 2 else 0 :: 32 word) n"
      by (simp only: bit_drop_bit_eq bit_and_iff bit_8000 comp_def) auto
  qed
  ultimately show ?thesis
    unfolding quadrant_def by (cases "bit x 15"; cases "bit y 15") simp_all
qed

lemma quadrant_lt: "quadrant x y < 4"
  by (auto simp: quadrant_bits of_bool_def)

lemma quadrant_eq: "quadrant x y = quadrant x' y' \<longleftrightarrow> bit x 15 = bit x' 15 \<and> bit y 15 = bit y' 15"
  by (cases "bit x 15"; cases "bit y 15"; cases "bit x' 15"; cases "bit y' 15") (simp_all add: quadrant_bits)

lemma child_set_child: "\<forall>l. t \<noteq> QTreeLeaf l \<Longrightarrow> i < 4 \<Longrightarrow> j < 4 \<Longrightarrow> child (set_child t i n) j = (if j = i then Some n else child t j)"
  by (cases t) auto

lemma child_range: "child t i = child t (min i 3)"
  by (cases t) (auto simp: min_def)

lemma getLeaf_leaf [simp]: "getLeaf (QTreeLeaf l) x y = Some l"
  by (simp add: getLeaf.simps)

lemma getLeaf_node:
  "\<forall>l. t \<noteq> QTreeLeaf l \<Longrightarrow> getLeaf t x y = Option.bind (child t (quadrant x y)) (\<lambda>n. getLeaf n (push_bit 1 x) (push_bit 1 y))"
  by (cases t) (simp_all add: getLeaf.simps [where x = x] split: option.splits)

lemma getLeafStatic_eq: "\<forall>l. t \<noteq> QTreeLeaf l \<Longrightarrow> getLeafStatic t x y = getLeaf t x y"
proof (induction t x y rule: getLeafStatic.induct)
  case (1 t x y)
  then show ?case
    by (subst getLeafStatic.simps) (auto simp: getLeaf_node split: option.splits qtree.splits)
qed

lemma getLeaf_agree:
  assumes "tree_ok k t" "k \<le> 13" "agree k x x'" "agree k y y'"
  shows "getLeaf t x y = getLeaf t x' y'"
  using assms
proof (induction k arbitrary: t x y x' y')
  case 0
  then show ?case by auto
next
  case (Suc k)
  then have q: "quadrant x y = quadrant x' y'" and a: "agree k (push_bit 1 x) (push_bit 1 x')" "agree k (push_bit 1 y) (push_bit 1 y')"
    by (auto simp: agree_Suc quadrant_eq)
  show ?case
    using Suc.prems(1,2) Suc.IH [OF _ _ a] by (cases "child t (quadrant x y)") (auto simp: getLeaf_node q)
qed

lemma push_bit_word_2: "x * 2 = push_bit 1 x" for x :: "32 word"
  by (simp add: push_bit_eq_mult)

lemma createLeaf_node:
  "\<forall>l. t \<noteq> QTreeLeaf l \<Longrightarrow> createLeaf fresh x y (Suc level) t =
     (let index = quadrant x y;
          (n, new) = (case child t index of
                        Some n \<Rightarrow> (n, False)
                      | None \<Rightarrow> if Suc level \<noteq> FLOOR_BITS then (QTreeNode None None None None, False) else (QTreeLeaf fresh, True))
      in map_option (\<lambda>(n, l, new'). (set_child t index n, l, new \<or> new')) (createLeaf fresh (x * 2) (y * 2) level n))"
  by (cases t) (simp_all only: createLeaf.simps, simp)

lemma createLeaf_correct:
  assumes "tree_ok k t" "k \<le> 13" "level = k + 2"
  shows "\<exists>t' l new. createLeaf fresh x y level t = Some (t', l, new) \<and> tree_ok k t'
    \<and> (\<forall>x' y'. getLeaf t' x' y' = (if agree k x x' \<and> agree k y y' then Some l else getLeaf t x' y'))
    \<and> new = (getLeaf t x y = None) \<and> l = (case getLeaf t x y of None \<Rightarrow> fresh | Some l \<Rightarrow> l)"
  using assms
proof (induction k arbitrary: t x y level)
  case 0
  then show ?case by (auto simp: agree_def)
next
  case (Suc k)
  let ?q = "quadrant x y" and ?x = "push_bit 1 x" and ?y = "push_bit 1 y"
  have node: "\<forall>l. t \<noteq> QTreeLeaf l" and lev: "level = Suc (k + 2)" using Suc.prems by auto
  define n new where "n = (case child t ?q of Some n \<Rightarrow> n | None \<Rightarrow> if k = 0 then QTreeLeaf fresh else QTreeNode None None None None)"
    and "new = (child t ?q = None \<and> k = 0)"
  have n: "tree_ok k n" using Suc.prems(1) by (cases k) (auto simp: n_def split: option.splits)
  obtain n' l new' where ih: "createLeaf fresh ?x ?y (k + 2) n = Some (n', l, new')" "tree_ok k n'"
    "\<forall>x' y'. getLeaf n' x' y' = (if agree k ?x x' \<and> agree k ?y y' then Some l else getLeaf n x' y')"
    "new' = (getLeaf n ?x ?y = None)" "l = (case getLeaf n ?x ?y of None \<Rightarrow> fresh | Some l \<Rightarrow> l)"
    using Suc.IH [OF n Suc_leD [OF Suc.prems(2)] refl, where x = ?x and y = ?y] by (elim exE conjE) (rule that)
  have gn: "getLeaf n x' y' = (case child t ?q of Some n \<Rightarrow> getLeaf n x' y' | None \<Rightarrow> if k = 0 then Some fresh else None)" for x' y'
    by (auto simp: n_def getLeaf_node split: option.splits)
  have gt: "getLeaf t x y = (case child t ?q of Some n \<Rightarrow> getLeaf n ?x ?y | None \<Rightarrow> None)"
    by (simp add: getLeaf_node [OF node] split: option.splits)
  let ?t = "set_child t ?q n'"
  have node': "\<forall>l. ?t \<noteq> QTreeLeaf l" using node by (cases t) auto
  have "createLeaf fresh x y level t = Some (?t, l, new \<or> new')"
  proof -
    have "(case child t ?q of Some n \<Rightarrow> (n, False)
        | None \<Rightarrow> if Suc (k + 2) \<noteq> FLOOR_BITS then (QTreeNode None None None None, False) else (QTreeLeaf fresh, True)) = (n, new)"
      by (simp add: n_def new_def FLOOR_BITS_def split: option.splits)
    then show ?thesis unfolding lev createLeaf_node [OF node] push_bit_word_2 Let_def by (simp only: prod.case ih(1) option.map)
  qed
  moreover have "tree_ok (Suc k) ?t"
  proof -
    have "tree_ok k m" if "child ?t i = Some m" for i m
      using that ih(2) Suc.prems(1) child_range [of ?t i] child_set_child [OF node quadrant_lt, of "min i 3" x y n']
      by (auto split: if_splits)
    then show ?thesis using node' by simp
  qed
  moreover have "getLeaf ?t x' y' = (if agree (Suc k) x x' \<and> agree (Suc k) y y' then Some l else getLeaf t x' y')" for x' y'
  proof (cases "quadrant x' y' = ?q")
    case True
    then have c: "agree (Suc k) x x' \<and> agree (Suc k) y y' \<longleftrightarrow> agree k ?x (push_bit 1 x') \<and> agree k ?y (push_bit 1 y')"
      using Suc.prems(2) by (auto simp: agree_Suc quadrant_eq)
    have "getLeaf ?t x' y' = getLeaf n' (push_bit 1 x') (push_bit 1 y')"
      using child_set_child [OF node quadrant_lt quadrant_lt, of x y n' x' y'] True by (simp add: getLeaf_node [OF node'])
    also have "\<dots> = (if agree k ?x (push_bit 1 x') \<and> agree k ?y (push_bit 1 y') then Some l else getLeaf n (push_bit 1 x') (push_bit 1 y'))"
      using ih(3) by blast
    finally show ?thesis
      using c True gn by (cases "child t ?q"; cases k) (auto simp: getLeaf_node [OF node] agree_def)
  next
    case False
    then have "\<not> (agree (Suc k) x x' \<and> agree (Suc k) y y')" using Suc.prems(2) by (auto simp: agree_Suc quadrant_eq)
    then show ?thesis
      using child_set_child [OF node quadrant_lt quadrant_lt, of x y n' x' y'] False by (auto simp: getLeaf_node [OF node'] getLeaf_node [OF node])
  qed
  moreover have "(new \<or> new') = (getLeaf t x y = None)"
    using ih(4) gn gt by (auto simp: new_def split: option.splits)
  moreover have "l = (case getLeaf t x y of None \<Rightarrow> fresh | Some l \<Rightarrow> l)"
    using ih(5) gn gt by (auto split: option.splits)
  ultimately show ?case by (intro exI [of _ ?t] exI [of _ l] exI [of _ "new \<or> new'"]) blast
qed

subsection \<open>The map\<close>

text \<open>The representation invariant: the tree has its thirteen levels, a leaf belongs to one block, and its links point at the neighbouring
  blocks' leaves.\<close>

definition links_ok :: "'t tile_map \<Rightarrow> bool" where
  "links_ok m \<longleftrightarrow> (\<forall>x y l. getLeaf (root m) x y = Some l \<longrightarrow>
     leafE (leaves m ! l) = getLeaf (root m) (x + 8) y \<and> leafS (leaves m ! l) = getLeaf (root m) x (y + 8))"

definition map_ok :: "'t tile_map \<Rightarrow> bool" where
  "map_ok m \<longleftrightarrow> tree_ok 13 (root m) \<and> links_ok m
     \<and> (\<forall>x y l. getLeaf (root m) x y = Some l \<longrightarrow> l < length (leaves m))
     \<and> (\<forall>x y x' y' l. getLeaf (root m) x y = Some l \<longrightarrow> getLeaf (root m) x' y' = Some l \<longrightarrow> block x = block x' \<and> block y = block y')
     \<and> (\<forall>n\<in>set (leaves m). length (floors n) = MAP_MAX_LAYERS)"

lemma map_ok_node: "map_ok m \<Longrightarrow> \<forall>l. root m \<noteq> QTreeLeaf l"
  by (auto simp: map_ok_def tree_ok_13)

lemma getLeaf_block:
  "map_ok m \<Longrightarrow> block x = block x' \<Longrightarrow> block y = block y' \<Longrightarrow> getLeaf (root m) x y = getLeaf (root m) x' y'"
  by (rule getLeaf_agree [of 13]) (simp_all add: map_ok_def agree_block)

lemma leaf_block:
  "map_ok m \<Longrightarrow> getLeaf (root m) x y = Some l \<Longrightarrow> getLeaf (root m) x' y' = Some l \<longleftrightarrow> block x = block x' \<and> block y = block y'"
  using getLeaf_block [of m x' x y' y] unfolding map_ok_def by metis

lemma empty_map_ok: "map_ok empty_map"
proof -
  have "tree_ok 13 (root empty_map)" by (auto simp: tree_ok_13 empty_map_def split: if_splits)
  moreover have "getLeaf (root empty_map) x y = None" for x y by (simp add: getLeaf_node empty_map_def)
  ultimately show ?thesis by (simp add: map_ok_def links_ok_def) (simp add: empty_map_def)
qed

lemma map_leaf_simps [simp]:
  "root (map_leaf l f m) = root m" "length (leaves (map_leaf l f m)) = length (leaves m)"
  "l' < length (leaves m) \<Longrightarrow> leaves (map_leaf l f m) ! l' = (if l' = l then f (leaves m ! l) else leaves m ! l')"
  by (simp_all add: map_leaf_def nth_list_update)

lemma map_leaf_ok:
  assumes "map_ok m" "\<And>n. leafE (f n) = leafE n" "\<And>n. leafS (f n) = leafS n" "\<And>n. length (floors (f n)) = length (floors n)"
  shows "map_ok (map_leaf l f m)"
proof -
  have "length (floors n) = MAP_MAX_LAYERS" if "n \<in> set (leaves (map_leaf l f m))" for n
  proof -
    from that obtain i where "i < length (leaves m)" "n = leaves (map_leaf l f m) ! i" by (auto simp: in_set_conv_nth)
    then show ?thesis using assms(1,4) by (auto simp: map_ok_def)
  qed
  moreover have "links_ok (map_leaf l f m)"
    unfolding links_ok_def
  proof (intro allI impI)
    fix x y l' assume g: "getLeaf (root (map_leaf l f m)) x y = Some l'"
    then have "l' < length (leaves m)" "leafE (leaves m ! l') = getLeaf (root m) (x + 8) y" "leafS (leaves m ! l') = getLeaf (root m) x (y + 8)"
      using assms(1) by (simp_all add: map_ok_def links_ok_def)
    then show "leafE (leaves (map_leaf l f m) ! l') = getLeaf (root (map_leaf l f m)) (x + 8) y
        \<and> leafS (leaves (map_leaf l f m) ! l') = getLeaf (root (map_leaf l f m)) x (y + 8)"
      using assms(2,3) by (cases "l' = l") simp_all
  qed
  ultimately show ?thesis using assms(1) unfolding map_ok_def map_leaf_simps by blast
qed

text \<open>A new leaf is linked with its four neighbours.\<close>

lemma link_leaf_simps:
  "root (link_leaf x y l m) = root m" "length (leaves (link_leaf x y l m)) = length (leaves m)"
  by (simp_all add: link_leaf_def Let_def split: option.splits)

lemma link_leaf_nth:
  assumes "l' < length (leaves m)" "l < length (leaves m)"
    and "getLeaf (root m) x (y + 8) \<noteq> Some l" "getLeaf (root m) (x + 8) y \<noteq> Some l"
    and "\<And>x y n. getLeaf (root m) x y = Some n \<Longrightarrow> n < length (leaves m)"
  shows "leafS (leaves (link_leaf x y l m) ! l') =
      (if l' = l \<and> getLeaf (root m) x (y + 8) \<noteq> None then getLeaf (root m) x (y + 8)
       else if getLeaf (root m) x (y - 8) = Some l' then Some l else leafS (leaves m ! l'))" (is ?S)
    and "leafE (leaves (link_leaf x y l m) ! l') =
      (if l' = l \<and> getLeaf (root m) (x + 8) y \<noteq> None then getLeaf (root m) (x + 8) y
       else if getLeaf (root m) (x - 8) y = Some l' then Some l else leafE (leaves m ! l'))" (is ?E)
    and "creature_list (leaves (link_leaf x y l m) ! l') = creature_list (leaves m ! l')"
    and "player_list (leaves (link_leaf x y l m) ! l') = player_list (leaves m ! l')"
    and "floors (leaves (link_leaf x y l m) ! l') = floors (leaves m ! l')"
proof -
  have s: "of_nat FLOOR_SIZE = (8 :: 32 word)" by (simp add: FLOOR_SIZE_def FLOOR_BITS_def)
  show ?S ?E "creature_list (leaves (link_leaf x y l m) ! l') = creature_list (leaves m ! l')"
    "player_list (leaves (link_leaf x y l m) ! l') = player_list (leaves m ! l')"
    "floors (leaves (link_leaf x y l m) ! l') = floors (leaves m ! l')"
    using assms by (auto simp: link_leaf_def s Let_def split: option.splits)
qed

lemma link_leaf_ok:
  assumes m: "map_ok m" and none: "getLeaf (root m) x y = None"
    and r: "tree_ok 13 r" "\<And>x' y'. getLeaf r x' y' = (if block x = block x' \<and> block y = block y' then Some (length (leaves m)) else getLeaf (root m) x' y')"
  shows "map_ok (link_leaf x y (length (leaves m)) (m\<lparr>root := r, leaves := leaves m @ [new_QTreeLeafNode]\<rparr>))" (is "map_ok (link_leaf x y ?l ?m)")
proof -
  let ?m' = "link_leaf x y ?l ?m"
  have lt: "getLeaf (root m) x' y' = Some n \<Longrightarrow> n < ?l" for x' y' n using m by (simp add: map_ok_def)
  have lt': "getLeaf (root ?m) x' y' = Some n \<Longrightarrow> n < length (leaves ?m)" for x' y' n
    using lt [of x' y' n] by (auto simp: r(2) split: if_splits)
  have new: "getLeaf r x (y + 8) \<noteq> Some ?l" "getLeaf r (x + 8) y \<noteq> Some ?l"
    using lt block_add_neq by (metis r(2) less_irrefl)+
  note nth = link_leaf_nth [of _ ?m ?l x y, OF _ _ _ _ lt', simplified, OF _ new]
  have inj: "block a = block a' \<and> block b = block b'" if "getLeaf r a b = Some n" "getLeaf r a' b' = Some n" for a b a' b' n
  proof (cases "n = ?l")
    case True
    have "block x = block c \<and> block y = block d" if "getLeaf r c d = Some n" for c d
      using that lt [of c d n] True by (simp add: r(2) split: if_splits)
    then show ?thesis using that by metis
  next
    case False
    then have "getLeaf (root m) a b = Some n" "getLeaf (root m) a' b' = Some n" using that by (simp_all add: r(2) split: if_splits)
    then show ?thesis using m unfolding map_ok_def by blast
  qed
  have E: "leafE (leaves ?m' ! n) = getLeaf r (a + 8) b" and S: "leafS (leaves ?m' ! n) = getLeaf r a (b + 8)"
    if g: "getLeaf r a b = Some n" for a b n
  proof -
    have n: "n < Suc ?l" using lt' [of a b n] g by simp
    have old: "leafE (leaves m ! n) = getLeaf (root m) (a + 8) b" "leafS (leaves m ! n) = getLeaf (root m) a (b + 8)" if "n \<noteq> ?l"
    proof -
      have "getLeaf (root m) a b = Some n" using g that by (simp add: r(2) split: if_splits)
      then show "leafE (leaves m ! n) = getLeaf (root m) (a + 8) b" "leafS (leaves m ! n) = getLeaf (root m) a (b + 8)"
        using m unfolding map_ok_def links_ok_def by blast+
    qed
    have own: "n = ?l \<longleftrightarrow> block x = block a \<and> block y = block b"
      using g lt [of a b n] unfolding r(2) by (auto split: if_splits)
    have eq: "getLeaf r c d = Some n \<longleftrightarrow> block c = block a \<and> block d = block b" for c d
      using inj [OF g, of c d] getLeaf_agree [OF r(1) le_refl, unfolded agree_block, of c a d b] g by metis
    have west: "getLeaf r (x - 8) y = Some n \<longleftrightarrow> block x = block (a + 8) \<and> block y = block b"
      by (simp only: eq block_diff_eq)
    have north: "getLeaf r x (y - 8) = Some n \<longleftrightarrow> block x = block a \<and> block y = block (b + 8)"
      by (simp only: eq block_diff_eq)
    have east: "getLeaf r (x + 8) y = getLeaf r (a + 8) b" and south: "getLeaf r x (y + 8) = getLeaf r a (b + 8)" if "n = ?l"
      using that own getLeaf_agree [OF r(1) le_refl, unfolded agree_block] block_add_eq by blast+
    show "leafE (leaves ?m' ! n) = getLeaf r (a + 8) b"
    proof (cases "n = ?l")
      case True
      then show ?thesis using nth(2) [of n] n east west own block_add_neq [of a] by (auto simp: new_QTreeLeafNode_def nth_append)
    next
      case False
      then have "leafE (leaves ?m' ! n) = (if getLeaf r (x - 8) y = Some n then Some ?l else leafE (leaves m ! n))"
        using nth(2) [of n] n by (simp add: nth_append)
      then show ?thesis using old(1) [OF False] west by (auto simp: r(2))
    qed
    show "leafS (leaves ?m' ! n) = getLeaf r a (b + 8)"
    proof (cases "n = ?l")
      case True
      then show ?thesis using nth(1) [of n] n south north own block_add_neq [of b] by (auto simp: new_QTreeLeafNode_def nth_append)
    next
      case False
      then have "leafS (leaves ?m' ! n) = (if getLeaf r x (y - 8) = Some n then Some ?l else leafS (leaves m ! n))"
        using nth(1) [of n] n by (simp add: nth_append)
      then show ?thesis using old(2) [OF False] north by (auto simp: r(2))
    qed
  qed
  have "length (floors n) = MAP_MAX_LAYERS" if "n \<in> set (leaves ?m')" for n
  proof -
    from that obtain i where "i < Suc ?l" "n = leaves ?m' ! i" by (auto simp: in_set_conv_nth link_leaf_simps)
    then show ?thesis using nth(5) [of i] m by (auto simp: map_ok_def nth_append new_QTreeLeafNode_def less_Suc_eq)
  qed
  moreover have "links_ok ?m'" unfolding links_ok_def link_leaf_simps using E S by simp
  moreover have "getLeaf (root ?m') x' y' = Some n \<Longrightarrow> n < length (leaves ?m')" for x' y' n
    using lt' [of x' y' n] by (simp add: link_leaf_simps)
  moreover have rt: "root ?m' = r" by (simp add: link_leaf_simps)
  ultimately show ?thesis
    unfolding map_ok_def [of ?m'] rt using r(1) inj by blast
qed

lemma floor_mask: "unat (x AND of_nat FLOOR_MASK) = unat x mod 8" for x :: "16 word"
proof -
  have "x AND of_nat FLOOR_MASK = take_bit 3 x"
    by (simp add: FLOOR_MASK_def FLOOR_SIZE_def FLOOR_BITS_def take_bit_eq_mask mask_eq_exp_minus_1)
  then have "unat (x AND of_nat FLOOR_MASK) = take_bit 3 (unat x)" by (simp only: unsigned_take_bit_eq)
  then show ?thesis by (simp add: take_bit_eq_mod)
qed

lemma coord_split: "block (ucast x) = block (ucast x') \<and> unat x mod 8 = unat x' mod 8 \<longleftrightarrow> x = x'" for x x' :: "16 word"
proof -
  have b: "block (ucast z) = unat z div 8" for z :: "16 word"
  proof -
    have "unat z < 2 ^ LENGTH(16)" by (rule unsigned_less)
    then show ?thesis by (simp add: block_def unsigned_ucast_eq take_bit_eq_mod)
  qed
  show ?thesis unfolding b by (metis div_mult_mod_eq word_unat_eq_iff)
qed

lemma getTile_eq:
  assumes "map_ok m"
  shows "getTile m x y z =
    (if unat z \<ge> MAP_MAX_LAYERS then None
     else Option.bind (getLeaf (root m) (ucast x) (ucast y)) (\<lambda>l.
       Option.bind (floors (leaves m ! l) ! unat z) (\<lambda>tiles. tiles (unat x mod 8, unat y mod 8))))"
  using getLeafStatic_eq [OF map_ok_node [OF assms]] by (auto simp: getTile_def floor_mask split: option.splits)

lemma put_tile_simps [simp]:
  "leafE (put_tile merge z p t n) = leafE n" "leafS (put_tile merge z p t n) = leafS n"
  "creature_list (put_tile merge z p t n) = creature_list n" "player_list (put_tile merge z p t n) = player_list n"
  "length (floors (put_tile merge z p t n)) = length (floors n)"
  by (simp_all add: put_tile_def Let_def)

definition after_leaf :: "16 word \<Rightarrow> 16 word \<Rightarrow> 't tile_map \<Rightarrow> ('t tile_map \<times> nat) option" where
  "after_leaf x y m = map_option (\<lambda>(r, l, new).
     (if new then link_leaf (ucast x) (ucast y) l (m\<lparr>root := r, leaves := leaves m @ [new_QTreeLeafNode]\<rparr>) else m\<lparr>root := r\<rparr>, l))
     (createLeaf (length (leaves m)) (ucast x) (ucast y) 15 (root m))"

lemma setTile_after:
  "unat z < MAP_MAX_LAYERS \<Longrightarrow> setTile merge x y z t m =
     map_option (\<lambda>(m, l). map_leaf l (put_tile merge (unat z) (unat x mod 8, unat y mod 8) t) m) (after_leaf x y m)"
  by (cases "createLeaf (length (leaves m)) (ucast x) (ucast y) 15 (root m)")
    (auto simp: setTile_def after_leaf_def Let_def floor_mask)

text \<open>What \<open>createLeaf\<close> and the linking make of the map: the block has a leaf, and every other leaf is where it was.\<close>

definition leaf_added :: "16 word \<Rightarrow> 16 word \<Rightarrow> 't tile_map \<Rightarrow> 't tile_map \<Rightarrow> nat \<Rightarrow> bool" where
  "leaf_added x y m m' l \<longleftrightarrow> map_ok m' \<and> getLeaf (root m') (ucast x) (ucast y) = Some l \<and> l < length (leaves m')
     \<and> length (leaves m) \<le> length (leaves m')
     \<and> (\<forall>x' y'. getLeaf (root m') x' y' = (if block (ucast x) = block x' \<and> block (ucast y) = block y' then Some l else getLeaf (root m) x' y'))
     \<and> (\<forall>i<length (leaves m). floors (leaves m' ! i) = floors (leaves m ! i)
          \<and> creature_list (leaves m' ! i) = creature_list (leaves m ! i) \<and> player_list (leaves m' ! i) = player_list (leaves m ! i))
     \<and> (if getLeaf (root m) (ucast x) (ucast y) = None
        then l = length (leaves m) \<and> length (leaves m') = Suc l
          \<and> floors (leaves m' ! l) = replicate MAP_MAX_LAYERS None \<and> creature_list (leaves m' ! l) = [] \<and> player_list (leaves m' ! l) = []
        else length (leaves m') = length (leaves m) \<and> getLeaf (root m) (ucast x) (ucast y) = Some l)"

lemma after_leaf_ok:
  assumes "map_ok m"
  shows "\<exists>m' l. after_leaf x y m = Some (m', l) \<and> leaf_added x y m m' l"
proof -
  let ?x = "ucast x :: 32 word" and ?y = "ucast y :: 32 word" and ?n = "length (leaves m)"
  have t: "tree_ok 13 (root m)" using assms by (simp add: map_ok_def)
  have "\<exists>r l new. createLeaf ?n ?x ?y 15 (root m) = Some (r, l, new) \<and> tree_ok 13 r
    \<and> (\<forall>x' y'. getLeaf r x' y' = (if agree 13 ?x x' \<and> agree 13 ?y y' then Some l else getLeaf (root m) x' y'))
    \<and> new = (getLeaf (root m) ?x ?y = None) \<and> l = (case getLeaf (root m) ?x ?y of None \<Rightarrow> ?n | Some l \<Rightarrow> l)"
    by (rule createLeaf_correct [OF t]) simp_all
  then obtain r l new where r: "createLeaf ?n ?x ?y 15 (root m) = Some (r, l, new)" "tree_ok 13 r"
    "\<And>x' y'. getLeaf r x' y' = (if block ?x = block x' \<and> block ?y = block y' then Some l else getLeaf (root m) x' y')"
    "new = (getLeaf (root m) ?x ?y = None)" "l = (case getLeaf (root m) ?x ?y of None \<Rightarrow> ?n | Some l \<Rightarrow> l)"
    unfolding agree_block by blast
  show ?thesis
  proof (cases "getLeaf (root m) ?x ?y")
    case None
    let ?mm = "m\<lparr>root := r, leaves := leaves m @ [new_QTreeLeafNode]\<rparr>"
    let ?m = "link_leaf ?x ?y ?n ?mm"
    have l: "l = ?n" "new" using r(4,5) None by auto
    have ok: "map_ok ?m" by (rule link_leaf_ok [OF assms None r(2)]) (simp add: r(3) l)
    have lt: "n < length (leaves ?mm)" if "getLeaf (root ?mm) x' y' = Some n" for x' y' n
    proof (cases "block ?x = block x' \<and> block ?y = block y'")
      case True
      then show ?thesis using that by (simp add: r(3) l)
    next
      case False
      moreover have "getLeaf r x' y' = Some n" using that by simp
      ultimately have "getLeaf (root m) x' y' = Some n" by (metis r(3))
      then have "n < ?n" using assms unfolding map_ok_def by blast
      then show ?thesis by simp
    qed
    have ne: "getLeaf r ?x (?y + 8) \<noteq> Some ?n" "getLeaf r (?x + 8) ?y \<noteq> Some ?n"
      using assms block_add_neq unfolding map_ok_def by (metis r(3) less_irrefl)+
    note nth = link_leaf_nth(3-5) [of _ ?mm ?n ?x ?y, OF _ _ _ _ lt, simplified, OF _ ne]
    have new_leaf: "floors new_QTreeLeafNode = replicate MAP_MAX_LAYERS None" "creature_list new_QTreeLeafNode = []" "player_list new_QTreeLeafNode = []"
      by (simp_all add: new_QTreeLeafNode_def)
    have "leaf_added x y m ?m l"
      unfolding leaf_added_def
    proof (intro conjI allI impI)
      show "map_ok ?m" by (rule ok)
      show "getLeaf (root ?m) ?x ?y = Some l" by (simp add: link_leaf_simps r(3))
      show "l < length (leaves ?m)" "length (leaves m) \<le> length (leaves ?m)" by (simp_all add: link_leaf_simps l)
      show "getLeaf (root ?m) x' y' = (if block ?x = block x' \<and> block ?y = block y' then Some l else getLeaf (root m) x' y')" for x' y'
        by (simp add: link_leaf_simps r(3))
      show "floors (leaves ?m ! i) = floors (leaves m ! i)" "creature_list (leaves ?m ! i) = creature_list (leaves m ! i)"
        "player_list (leaves ?m ! i) = player_list (leaves m ! i)" if "i < length (leaves m)" for i
        using that by (simp_all add: nth nth_append)
    qed (simp add: None nth l link_leaf_simps new_leaf)
    then show ?thesis using r(1) l by (intro exI [of _ ?m] exI [of _ l]) (simp add: after_leaf_def)
  next
    case (Some l')
    then have l: "l = l'" "\<not> new" using r(4,5) by auto
    have same: "getLeaf r x' y' = getLeaf (root m) x' y'" for x' y'
      using getLeaf_block [OF assms, of ?x x' ?y y'] Some l by (simp add: r(3))
    have sel: "root (m\<lparr>root := r\<rparr>) = r" "leaves (m\<lparr>root := r\<rparr>) = leaves m" by simp_all
    have ok: "map_ok (m\<lparr>root := r\<rparr>)" using assms r(2) unfolding map_ok_def links_ok_def sel same by blast
    have lt: "l < length (leaves m)" using Some l assms unfolding map_ok_def by blast
    have "leaf_added x y m (m\<lparr>root := r\<rparr>) l"
      unfolding leaf_added_def
    proof (intro conjI allI impI)
      show "map_ok (m\<lparr>root := r\<rparr>)" by (rule ok)
      show "getLeaf (root (m\<lparr>root := r\<rparr>)) x' y' = (if block ?x = block x' \<and> block ?y = block y' then Some l else getLeaf (root m) x' y')" for x' y'
        by (simp add: r(3))
      show "l < length (leaves (m\<lparr>root := r\<rparr>))" using lt by simp
    qed (simp_all add: same Some l)
    then show ?thesis using r(1) l by (intro exI [of _ "m\<lparr>root := r\<rparr>"] exI [of _ l]) (simp add: after_leaf_def)
  qed
qed

subsection \<open>Reading back what was set\<close>

lemma setTile_returns:
  assumes "map_ok m"
  obtains m' where "setTile merge x y z t m = Some m'" "map_ok m'"
proof (cases "unat z < MAP_MAX_LAYERS")
  case True
  obtain m' l where "after_leaf x y m = Some (m', l)" "map_ok m'"
    using after_leaf_ok [OF assms, of x y] unfolding leaf_added_def by blast
  then show thesis
    using that [of "map_leaf l (put_tile merge (unat z) (unat x mod 8, unat y mod 8) t) m'"] map_leaf_ok [of m'] True
    by (simp add: setTile_after)
qed (use that assms in \<open>simp add: setTile_def\<close>)

definition floors_ok :: "nat \<Rightarrow> 't QTreeLeafNode \<Rightarrow> bool" where
  "floors_ok z n \<longleftrightarrow> length (floors n) = MAP_MAX_LAYERS \<and> z < MAP_MAX_LAYERS"

definition leaf_tile :: "nat \<Rightarrow> nat \<times> nat \<Rightarrow> 't QTreeLeafNode \<Rightarrow> 't option" where
  "leaf_tile z p n = Option.bind (floors n ! z) (\<lambda>tiles. tiles p)"

lemma leaf_tile_put:
  "length (floors n) = MAP_MAX_LAYERS \<Longrightarrow> z < MAP_MAX_LAYERS \<Longrightarrow> leaf_tile z' p' (put_tile merge z p t n) =
     (if z' = z \<and> p' = p then Some (case leaf_tile z p n of None \<Rightarrow> t | Some old \<Rightarrow> merge old t) else leaf_tile z' p' n)"
  by (auto simp: leaf_tile_def put_tile_def createFloor_def Let_def nth_list_update split: option.splits)

lemma getTile_leaf:
  "map_ok m \<Longrightarrow> getTile m x y z =
    (if unat z \<ge> MAP_MAX_LAYERS then None
     else Option.bind (getLeaf (root m) (ucast x) (ucast y)) (\<lambda>l. leaf_tile (unat z) (unat x mod 8, unat y mod 8) (leaves m ! l)))"
  by (simp add: getTile_eq leaf_tile_def)

text \<open>C26: the tree, the leaves and the floors implement a map from coordinates to tiles. \<open>setTile\<close> always returns, keeps the
  representation in order, puts the tile at its coordinates (or hands its content to the tile that is there), and \<open>getTile\<close> at any other
  coordinates answers what it answered before; a floor of 16 or more changes nothing.\<close>

theorem setTile_refines_update:
  assumes "map_ok m"
  shows "\<exists>m'. setTile merge x y z t m = Some m' \<and> map_ok m' \<and>
    (\<forall>x' y' z'. getTile m' x' y' z' =
      (if unat z < MAP_MAX_LAYERS \<and> (x', y', z') = (x, y, z)
       then Some (case getTile m x y z of None \<Rightarrow> t | Some old \<Rightarrow> merge old t) else getTile m x' y' z'))"
proof (cases "unat z < MAP_MAX_LAYERS")
  case False
  then show ?thesis using assms by (simp add: setTile_def)
next
  case True
  let ?x = "ucast x :: 32 word" and ?y = "ucast y :: 32 word" and ?p = "(unat x mod 8, unat y mod 8)"
  obtain m1 l where m1: "after_leaf x y m = Some (m1, l)" and la: "leaf_added x y m m1 l"
    using after_leaf_ok [OF assms, of x y] by blast
  have m1: "after_leaf x y m = Some (m1, l)" "map_ok m1" "getLeaf (root m1) ?x ?y = Some l" "l < length (leaves m1)"
    using m1 la unfolding leaf_added_def by simp_all
  have eq: "\<And>x' y'. getLeaf (root m1) x' y' = (if block ?x = block x' \<and> block ?y = block y' then Some l else getLeaf (root m) x' y')"
    and old: "\<forall>i<length (leaves m). floors (leaves m1 ! i) = floors (leaves m ! i)"
    using la unfolding leaf_added_def by simp_all
  have new: "if getLeaf (root m) ?x ?y = None then floors (leaves m1 ! l) = replicate MAP_MAX_LAYERS None else getLeaf (root m) ?x ?y = Some l"
    using la unfolding leaf_added_def by (simp split: if_split_asm)
  let ?m' = "map_leaf l (put_tile merge (unat z) ?p t) m1"
  have len: "length (floors (leaves m1 ! l)) = MAP_MAX_LAYERS" using m1(2,4) by (simp add: map_ok_def)
  have ok': "map_ok ?m'" by (rule map_leaf_ok [OF m1(2)]) simp_all
  have same: "getTile m1 x' y' z' = getTile m x' y' z'" for x' y' z'
  proof (cases "unat z' < MAP_MAX_LAYERS")
    case z': True
    show ?thesis
    proof (cases "getLeaf (root m) (ucast x') (ucast y')")
      case None
      show ?thesis
      proof (cases "block ?x = block (ucast x') \<and> block ?y = block (ucast y')")
        case True
        then have "getLeaf (root m) ?x ?y = None" "getLeaf (root m1) (ucast x') (ucast y') = Some l"
          using None getLeaf_block [OF assms, of ?x "ucast x'" ?y "ucast y'"] eq by simp_all
        then show ?thesis using new z' None by (simp add: getTile_leaf [OF assms] getTile_leaf [OF m1(2)] leaf_tile_def)
      next
        case False
        then have "getLeaf (root m1) (ucast x') (ucast y') = None" using eq None by metis
        then show ?thesis using None by (simp add: getTile_leaf [OF assms] getTile_leaf [OF m1(2)])
      qed
    next
      case (Some i)
      have i: "i < length (leaves m)" using Some assms unfolding map_ok_def by blast
      have "getLeaf (root m1) (ucast x') (ucast y') = Some i"
      proof (cases "block ?x = block (ucast x') \<and> block ?y = block (ucast y')")
        case True
        then have "getLeaf (root m) ?x ?y = Some i" using getLeaf_block [OF assms] Some by metis
        moreover have "getLeaf (root m1) ?x ?y = getLeaf (root m1) (ucast x') (ucast y')" using getLeaf_block [OF m1(2)] True by metis
        ultimately show ?thesis using m1(3) new by simp
      qed (use eq Some in metis)
      then show ?thesis
        using Some old i z' by (simp add: getTile_leaf [OF assms] getTile_leaf [OF m1(2)] leaf_tile_def)
    qed
  qed (simp add: getTile_leaf [OF assms] getTile_leaf [OF m1(2)])
  have "getTile ?m' x' y' z' = (if (x', y', z') = (x, y, z) then Some (case getTile m1 x y z of None \<Rightarrow> t | Some old \<Rightarrow> merge old t)
      else getTile m1 x' y' z')" for x' y' z'
  proof (cases "getLeaf (root m1) (ucast x') (ucast y') = Some l")
    case True
    then have b: "block ?x = block (ucast x') \<and> block ?y = block (ucast y')" using leaf_block [OF m1(2,3)] by metis
    have "(x', y', z') = (x, y, z) \<longleftrightarrow> unat z' = unat z \<and> (unat x' mod 8, unat y' mod 8) = ?p"
    proof -
      have "x' = x \<longleftrightarrow> unat x' mod 8 = unat x mod 8" "y' = y \<longleftrightarrow> unat y' mod 8 = unat y mod 8"
        using b coord_split [of x x'] coord_split [of y y'] by metis+
      then show ?thesis by (simp add: word_unat_eq_iff [of z' z]) blast
    qed
    then show ?thesis
      using True m1(3,4) \<open>unat z < MAP_MAX_LAYERS\<close> leaf_tile_put [OF len \<open>unat z < MAP_MAX_LAYERS\<close>, of "unat z'" _ merge ?p t]
      by (auto simp: getTile_leaf [OF ok'] getTile_leaf [OF m1(2)])
  next
    case False
    then have "(x', y', z') \<noteq> (x, y, z)" using m1(3) by auto
    moreover have "leaves ?m' ! i = leaves m1 ! i" if "getLeaf (root m1) (ucast x') (ucast y') = Some i" for i
    proof -
      have "i < length (leaves m1)" using that m1(2) unfolding map_ok_def by blast
      then show ?thesis using that False by simp
    qed
    ultimately show ?thesis
      by (cases "getLeaf (root m1) (ucast x') (ucast y')") (auto simp: getTile_leaf [OF ok'] getTile_leaf [OF m1(2)])
  qed
  then show ?thesis using m1(1) ok' True same by (simp add: setTile_after)
qed

text \<open>Two tiles on either side of the border between two leaves.\<close>

definition two_tiles :: "string tile_map" where
  "two_tiles = the (setTile (\<lambda>a b. a) 104 99 7 ''grass'' empty_map)"

theorem setTile_refines_update_witness:
  "\<exists>m'. setTile (\<lambda>a b. a) 103 99 7 ''stone'' two_tiles = Some m' \<and> getTile m' 103 99 7 = Some ''stone'' \<and> getTile m' 104 99 7 = Some ''grass''
     \<and> getTile m' 96 99 7 = None"
proof -
  have z: "unat (7 :: 8 word) < MAP_MAX_LAYERS" by (simp add: MAP_MAX_LAYERS_def)
  obtain m1 where m1: "setTile (\<lambda>a b. a) 104 99 7 ''grass'' empty_map = Some m1" by (rule setTile_returns [OF empty_map_ok])
  have e: "getTile (empty_map :: string tile_map) x y z = None" for x y z
  proof -
    have "getLeaf (root (empty_map :: string tile_map)) (ucast x) (ucast y) = None" by (simp add: getLeaf_node empty_map_def)
    then show ?thesis by (simp only: getTile_leaf [OF empty_map_ok]) simp
  qed
  from setTile_refines_update [OF empty_map_ok, of "\<lambda>a b. a" 104 99 7 "''grass''"]
  have "map_ok two_tiles" and g: "getTile two_tiles x y z = (if (x, y, z) = (104, 99, 7) then Some ''grass'' else None)" for x y z
    using z e m1 by (auto simp: two_tiles_def)
  with setTile_refines_update [OF this(1), of "\<lambda>a b. a" 103 99 7 "''stone''"] z show ?thesis by auto
qed

end
