(* ===== verification/Map_Spectators.thy ===== *)
theory Map_Spectators
  imports Map_Tree Tools_Model
begin

section \<open>Creatures on the map and who sees what\<close>

text \<open>
  The leaves' lists of creatures, the search for spectators with its two caches, and the placing, moving and removing of creatures
  (src/src/map.cpp: \<open>QTreeLeafNode::addCreature\<close>, \<open>removeCreature\<close>, \<open>Map::placeCreature\<close>, \<open>moveCreature\<close>,
  \<open>getSpectatorsInternal\<close>, \<open>getSpectators\<close>, \<open>clearSpectatorCache\<close>; \<open>Tile::removeCreature\<close> of src/src/tile.cpp). Creatures are numbers;
  \<open>isPlayer\<close> says which of them are players. \<open>Tile::addThing\<close>, \<open>internalAddThing\<close> and \<open>removeThing\<close> clear the caches when the thing is
  a creature. \<open>None\<close> is a null dereference (no leaf at the position) or a failed assertion (the creature is not in the leaf's list).
\<close>

record 't world =
  tiles :: "'t tile_map"
  position :: "nat \<Rightarrow> Position"
  direction :: "nat \<Rightarrow> Direction"
  spectatorCache :: "Position \<rightharpoonup> nat set"
  playersSpectatorCache :: "Position \<rightharpoonup> nat set"

definition new_world :: "'t world" where
  "new_world = \<lparr>tiles = empty_map, position = \<lambda>_. Position 0 0 0, direction = \<lambda>_. DIRECTION_SOUTH,
     spectatorCache = Map.empty, playersSpectatorCache = Map.empty\<rparr>"

definition clearSpectatorCache :: "'t world \<Rightarrow> 't world" where
  "clearSpectatorCache w = w\<lparr>spectatorCache := Map.empty, playersSpectatorCache := Map.empty\<rparr>"

definition leaf_add :: "(nat \<Rightarrow> bool) \<Rightarrow> nat \<Rightarrow> 't QTreeLeafNode \<Rightarrow> 't QTreeLeafNode" where
  "leaf_add isPlayer c n =
     n\<lparr>creature_list := creature_list n @ [c], player_list := (if isPlayer c then player_list n @ [c] else player_list n)\<rparr>"

text \<open>\<open>*iter = back(); pop_back()\<close>.\<close>

definition swap_remove :: "nat \<Rightarrow> nat list \<Rightarrow> nat list option" where
  "swap_remove c xs =
     (let i = length (takeWhile (\<lambda>x. x \<noteq> c) xs) in if i = length xs then None else Some (butlast (xs[i := last xs])))"

definition leaf_remove :: "(nat \<Rightarrow> bool) \<Rightarrow> nat \<Rightarrow> 't QTreeLeafNode \<Rightarrow> 't QTreeLeafNode option" where
  "leaf_remove isPlayer c n =
     Option.bind (swap_remove c (creature_list n)) (\<lambda>cs.
       if isPlayer c then map_option (\<lambda>ps. n\<lparr>creature_list := cs, player_list := ps\<rparr>) (swap_remove c (player_list n))
       else Some (n\<lparr>creature_list := cs\<rparr>))"

definition getQTNode :: "'t world \<Rightarrow> Position \<Rightarrow> nat option" where
  "getQTNode w p = getLeafStatic (root (tiles w)) (ucast (posx p)) (ucast (posy p))"

subsection \<open>The search\<close>

record range =
  minX :: int
  maxX :: int
  minY :: int
  maxY :: int
  minZ :: int
  maxZ :: int

definition in_view :: "'t world \<Rightarrow> Position \<Rightarrow> range \<Rightarrow> nat \<Rightarrow> bool" where
  "in_view w center r c \<longleftrightarrow>
     (let p = position w c; offsetZ = getOffsetZ center p
      in \<not> (getZ p < minZ r \<or> getZ p > maxZ r)
       \<and> \<not> (getY p < getY center + minY r + offsetZ \<or> getY p > getY center + maxY r + offsetZ)
       \<and> \<not> (getX p < getX center + minX r + offsetZ \<or> getX p > getX center + maxX r + offsetZ))"

definition node_list :: "bool \<Rightarrow> 't QTreeLeafNode \<Rightarrow> nat list" where
  "node_list onlyPlayers n = (if onlyPlayers then player_list n else creature_list n)"

function scan_row :: "'t world \<Rightarrow> bool \<Rightarrow> Position \<Rightarrow> range \<Rightarrow> int \<Rightarrow> int \<Rightarrow> int \<Rightarrow> nat option \<Rightarrow> nat set \<Rightarrow> nat set" where
  "scan_row w onlyPlayers center r ny endx nx leaf found =
     (if nx > endx then found
      else case leaf of
        Some l \<Rightarrow> scan_row w onlyPlayers center r ny endx (nx + 8) (leafE (leaves (tiles w) ! l))
                    (found \<union> set (filter (in_view w center r) (node_list onlyPlayers (leaves (tiles w) ! l))))
      | None \<Rightarrow> scan_row w onlyPlayers center r ny endx (nx + 8)
                  (getLeafStatic (root (tiles w)) (word_of_int (nx + 8)) (word_of_int ny)) found)"
  by auto
termination
  by (relation "measure (\<lambda>(w, onlyPlayers, center, r, ny, endx, nx, leaf, found). nat (endx + 1 - nx))") auto

declare scan_row.simps [simp del]

function scan_rows :: "'t world \<Rightarrow> bool \<Rightarrow> Position \<Rightarrow> range \<Rightarrow> int \<Rightarrow> int \<Rightarrow> int \<Rightarrow> int \<Rightarrow> nat option \<Rightarrow> nat set \<Rightarrow> nat set" where
  "scan_rows w onlyPlayers center r startx endx endy ny leaf found =
     (if ny > endy then found
      else scan_rows w onlyPlayers center r startx endx endy (ny + 8)
             (case leaf of
                Some l \<Rightarrow> leafS (leaves (tiles w) ! l)
              | None \<Rightarrow> getLeafStatic (root (tiles w)) (word_of_int startx) (word_of_int (ny + 8)))
             (scan_row w onlyPlayers center r ny endx startx leaf found))"
  by auto
termination
  by (relation "measure (\<lambda>(w, onlyPlayers, center, r, startx, endx, endy, ny, leaf, found). nat (endy + 1 - ny))") auto

declare scan_rows.simps [simp del]

definition clamp16 :: "int \<Rightarrow> int" where
  "clamp16 i = min 65535 (max 0 i)"

definition getSpectatorsInternal :: "'t world \<Rightarrow> Position \<Rightarrow> range \<Rightarrow> bool \<Rightarrow> nat set \<Rightarrow> nat set" where
  "getSpectatorsInternal w center r onlyPlayers found =
     (let minoffset = getZ center - maxZ r;
          x1 = clamp16 (getX center + minX r + minoffset);
          y1 = clamp16 (getY center + minY r + minoffset);
          maxoffset = getZ center - minZ r;
          x2 = clamp16 (getX center + maxX r + maxoffset);
          y2 = clamp16 (getY center + maxY r + maxoffset);
          startx1 = x1 - x1 mod 8;
          starty1 = y1 - y1 mod 8;
          endx2 = x2 - x2 mod 8;
          endy2 = y2 - y2 mod 8
      in scan_rows w onlyPlayers center r startx1 endx2 endy2 starty1
           (getLeafStatic (root (tiles w)) (word_of_int startx1) (word_of_int starty1)) found)"

definition maxViewportX :: int where
  "maxViewportX = 11"

definition maxViewportY :: int where
  "maxViewportY = 11"

definition floors_seen :: "bool \<Rightarrow> int \<Rightarrow> int \<times> int" where
  "floors_seen multifloor z =
     (if multifloor
      then if z > 7 then (max (z - 2) 0, min (z + 2) (int MAP_MAX_LAYERS - 1))
           else if z = 6 then (0, 8)
           else if z = 7 then (0, 9)
           else (0, 7)
      else (z, z))"

text \<open>The four ranges are given as the callers give them: 0 stands for the viewport.\<close>

definition range_of :: "Position \<Rightarrow> bool \<Rightarrow> int \<times> int \<times> int \<times> int \<Rightarrow> range" where
  "range_of center multifloor given =
     (case given of (minRangeX, maxRangeX, minRangeY, maxRangeY) \<Rightarrow>
        let (lo, hi) = floors_seen multifloor (getZ center) in
        \<lparr>minX = (if minRangeX = 0 then - maxViewportX else - minRangeX), maxX = (if maxRangeX = 0 then maxViewportX else maxRangeX),
         minY = (if minRangeY = 0 then - maxViewportY else - minRangeY), maxY = (if maxRangeY = 0 then maxViewportY else maxRangeY),
         minZ = lo, maxZ = hi\<rparr>)"

definition cacheable :: "bool \<Rightarrow> range \<Rightarrow> bool" where
  "cacheable multifloor r \<longleftrightarrow>
     minX r = - maxViewportX \<and> maxX r = maxViewportX \<and> minY r = - maxViewportY \<and> maxY r = maxViewportY \<and> multifloor"

definition cached_list :: "(nat \<Rightarrow> bool) \<Rightarrow> Position \<Rightarrow> bool \<Rightarrow> 't world \<Rightarrow> nat set option" where
  "cached_list isPlayer center onlyPlayers w =
     (case (if onlyPlayers then playersSpectatorCache w center else None) of
        Some cs \<Rightarrow> Some cs
      | None \<Rightarrow> map_option (\<lambda>cs. if onlyPlayers then Set.filter isPlayer cs else cs) (spectatorCache w center))"

text \<open>\<open>getSpectators\<close> adds to a list, and what it stores in a cache is that list.\<close>

definition getSpectators :: "(nat \<Rightarrow> bool) \<Rightarrow> Position \<Rightarrow> bool \<Rightarrow> bool \<Rightarrow> int \<times> int \<times> int \<times> int \<Rightarrow> nat set \<Rightarrow> 't world \<Rightarrow> nat set \<times> 't world" where
  "getSpectators isPlayer center multifloor onlyPlayers given found w =
     (if unat (posz center) \<ge> MAP_MAX_LAYERS then (found, w)
      else
        let r = range_of center multifloor given
        in case (if cacheable multifloor r then cached_list isPlayer center onlyPlayers w else None) of
             Some cs \<Rightarrow> (found \<union> cs, w)
           | None \<Rightarrow>
               let found = getSpectatorsInternal w center r onlyPlayers found
               in (found,
                   if \<not> cacheable multifloor r then w
                   else if onlyPlayers then w\<lparr>playersSpectatorCache := (playersSpectatorCache w)(center \<mapsto> found)\<rparr>
                   else w\<lparr>spectatorCache := (spectatorCache w)(center \<mapsto> found)\<rparr>))"

subsection \<open>Placing, moving and removing\<close>

record 't place_env =
  pe_queryAdd :: "'t \<Rightarrow> nat \<Rightarrow> ReturnValue"
  pe_protectionZone :: "'t \<Rightarrow> bool"
  pe_sightClear :: "Position \<Rightarrow> Position \<Rightarrow> bool"
  pe_shuffle :: "(int \<times> int) list \<Rightarrow> (int \<times> int) list"
  pe_destination :: "Position \<Rightarrow> Position"

definition FLAG_IGNOREBLOCKITEM :: nat where
  "FLAG_IGNOREBLOCKITEM = 2"

definition extendedRelList :: "(int \<times> int) list" where
  "extendedRelList = [(0, -2), (-1, -1), (0, -1), (1, -1), (-2, 0), (-1, 0), (1, 0), (2, 0), (-1, 1), (0, 1), (1, 1), (0, 2)]"

definition normalRelList :: "(int \<times> int) list" where
  "normalRelList = [(-1, -1), (0, -1), (1, -1), (-1, 0), (1, 0), (-1, 1), (0, 1), (1, 1)]"

definition tile_at :: "'t world \<Rightarrow> Position \<Rightarrow> 't option" where
  "tile_at w p = getTile (tiles w) (posx p) (posy p) (posz p)"

definition rel_pos :: "Position \<Rightarrow> int \<times> int \<Rightarrow> Position" where
  "rel_pos p d = Position (posx p + word_of_int (fst d)) (posy p + word_of_int (snd d)) (posz p)"

definition place_ok :: "'t place_env \<Rightarrow> 't world \<Rightarrow> Position \<Rightarrow> bool \<Rightarrow> bool \<Rightarrow> Position \<Rightarrow> bool" where
  "place_ok e w centerPos extendedPos placeInPZ tryPos \<longleftrightarrow>
     (case tile_at w tryPos of
        None \<Rightarrow> False
      | Some tile \<Rightarrow> \<not> (placeInPZ \<and> \<not> pe_protectionZone e tile) \<and> pe_queryAdd e tile 0 = RETURNVALUE_NOERROR
          \<and> (\<not> extendedPos \<or> pe_sightClear e centerPos tryPos))"

definition find_place :: "'t place_env \<Rightarrow> Position \<Rightarrow> bool \<Rightarrow> bool \<Rightarrow> 't world \<Rightarrow> Position option" where
  "find_place e centerPos extendedPos forceLogin w =
     (let (placeInPZ, foundTile) =
        (case tile_at w centerPos of
           Some tile \<Rightarrow> (pe_protectionZone e tile,
             let ret = pe_queryAdd e tile FLAG_IGNOREBLOCKITEM
             in forceLogin \<or> ret = RETURNVALUE_NOERROR \<or> ret = RETURNVALUE_PLAYERISNOTINVITED)
         | None \<Rightarrow> (False, False))
      in if foundTile then Some centerPos
         else let relList = (if extendedPos then pe_shuffle e (take 4 extendedRelList) @ pe_shuffle e (drop 4 extendedRelList)
                             else pe_shuffle e normalRelList)
              in find (place_ok e w centerPos extendedPos placeInPZ) (map (rel_pos centerPos) relList))"

definition node_addCreature :: "(nat \<Rightarrow> bool) \<Rightarrow> nat \<Rightarrow> Position \<Rightarrow> 't world \<Rightarrow> 't world option" where
  "node_addCreature isPlayer c p w =
     map_option (\<lambda>l. w\<lparr>tiles := map_leaf l (leaf_add isPlayer c) (tiles w)\<rparr>) (getQTNode w p)"

definition node_removeCreature :: "(nat \<Rightarrow> bool) \<Rightarrow> nat \<Rightarrow> Position \<Rightarrow> 't world \<Rightarrow> 't world option" where
  "node_removeCreature isPlayer c p w =
     Option.bind (getQTNode w p) (\<lambda>l.
       map_option (\<lambda>n. w\<lparr>tiles := map_leaf l (\<lambda>_. n) (tiles w)\<rparr>) (leaf_remove isPlayer c (leaves (tiles w) ! l)))"

definition placeCreature :: "'t place_env \<Rightarrow> (nat \<Rightarrow> bool) \<Rightarrow> Position \<Rightarrow> nat \<Rightarrow> bool \<Rightarrow> bool \<Rightarrow> 't world \<Rightarrow> (bool \<times> 't world) option" where
  "placeCreature e isPlayer centerPos c extendedPos forceLogin w =
     (case find_place e centerPos extendedPos forceLogin w of
        None \<Rightarrow> Some (False, w)
      | Some p \<Rightarrow>
          let dest = pe_destination e p;
              w = clearSpectatorCache w;
              w = w\<lparr>position := (position w)(c := dest)\<rparr>
          in map_option (Pair True) (node_addCreature isPlayer c dest w))"

definition turned :: "Position \<Rightarrow> Position \<Rightarrow> Direction \<Rightarrow> Direction" where
  "turned oldPos newPos d =
     (let d = (if posy oldPos > posy newPos then DIRECTION_NORTH else if posy oldPos < posy newPos then DIRECTION_SOUTH else d)
      in if posx oldPos < posx newPos then DIRECTION_EAST else if posx oldPos > posx newPos then DIRECTION_WEST else d)"

text \<open>\<open>moveCreature\<close> returns those who are told of the move, and whether it was a teleport; \<open>ground\<close> is \<open>newTile.getGround()\<close>.\<close>

definition moveCreature :: "(nat \<Rightarrow> bool) \<Rightarrow> ('t \<Rightarrow> bool) \<Rightarrow> nat \<Rightarrow> Position \<Rightarrow> 't \<Rightarrow> bool \<Rightarrow> 't world \<Rightarrow> (nat set \<times> bool \<times> 't world) option" where
  "moveCreature isPlayer ground c newPos newTile forceTeleport w =
     (let oldPos = position w c;
          teleport = (forceTeleport \<or> \<not> ground newTile \<or> \<not> areInRange3 1 1 0 oldPos newPos);
          (found, w) = getSpectators isPlayer oldPos True False (0, 0, 0, 0) {} w;
          (found, w) = getSpectators isPlayer newPos True False (0, 0, 0, 0) found w;
          w = clearSpectatorCache w
      in Option.bind (if getQTNode w oldPos \<noteq> getQTNode w newPos
                      then Option.bind (node_removeCreature isPlayer c oldPos w) (node_addCreature isPlayer c newPos)
                      else Some w) (\<lambda>w.
           let w = clearSpectatorCache w;
               w = w\<lparr>position := (position w)(c := newPos)\<rparr>;
               w = (if teleport then w else w\<lparr>direction := (direction w)(c := turned oldPos newPos (direction w c))\<rparr>)
           in Some (found, teleport, w)))"

definition tile_removeCreature :: "(nat \<Rightarrow> bool) \<Rightarrow> nat \<Rightarrow> 't world \<Rightarrow> 't world option" where
  "tile_removeCreature isPlayer c w = map_option clearSpectatorCache (node_removeCreature isPlayer c (position w c) w)"

definition set_tile :: "('t \<Rightarrow> 't \<Rightarrow> 't) \<Rightarrow> Position \<Rightarrow> 't \<Rightarrow> 't world \<Rightarrow> 't world option" where
  "set_tile merge p t w = map_option (\<lambda>m. w\<lparr>tiles := m\<rparr>) (setTile merge (posx p) (posy p) (posz p) t (tiles w))"

subsection \<open>The search finds the creatures in view\<close>

definition leaf_of :: "'t world \<Rightarrow> Position \<Rightarrow> nat option" where
  "leaf_of w p = getLeaf (root (tiles w)) (ucast (posx p)) (ucast (posy p))"

definition on_map :: "'t world \<Rightarrow> nat \<Rightarrow> bool" where
  "on_map w c \<longleftrightarrow> (\<exists>l. leaf_of w (position w c) = Some l \<and> c \<in> set (creature_list (leaves (tiles w) ! l)))"

definition list_ok :: "(nat \<Rightarrow> bool) \<Rightarrow> 't world \<Rightarrow> nat \<Rightarrow> bool" where
  "list_ok isPlayer w l \<longleftrightarrow> (let n = leaves (tiles w) ! l in
     distinct (creature_list n) \<and> distinct (player_list n) \<and> set (player_list n) = {c \<in> set (creature_list n). isPlayer c}
     \<and> (\<forall>c\<in>set (creature_list n). leaf_of w (position w c) = Some l \<and> unat (posz (position w c)) < MAP_MAX_LAYERS))"

definition placed_ok :: "(nat \<Rightarrow> bool) \<Rightarrow> 't world \<Rightarrow> bool" where
  "placed_ok isPlayer w \<longleftrightarrow> map_ok (tiles w) \<and> (\<forall>l<length (leaves (tiles w)). list_ok isPlayer w l)"

text \<open>The reference: everyone on the map who is in view.\<close>

definition viewers :: "(nat \<Rightarrow> bool) \<Rightarrow> 't world \<Rightarrow> bool \<Rightarrow> Position \<Rightarrow> range \<Rightarrow> nat set" where
  "viewers isPlayer w onlyPlayers center r = {c. on_map w c \<and> (onlyPlayers \<longrightarrow> isPlayer c) \<and> in_view w center r c}"

definition leaf_finds :: "'t world \<Rightarrow> bool \<Rightarrow> Position \<Rightarrow> range \<Rightarrow> int \<Rightarrow> int \<Rightarrow> nat set" where
  "leaf_finds w onlyPlayers center r nx ny =
     (case getLeaf (root (tiles w)) (word_of_int nx) (word_of_int ny) of
        None \<Rightarrow> {}
      | Some l \<Rightarrow> {c \<in> set (node_list onlyPlayers (leaves (tiles w) ! l)). in_view w center r c})"

lemma getQTNode_eq: "map_ok (tiles w) \<Longrightarrow> getQTNode w p = leaf_of w p"
  by (simp add: getQTNode_def leaf_of_def getLeafStatic_eq map_ok_node)

lemma woi_8: "word_of_int (i + 8) = (word_of_int i + 8 :: 32 word)"
  by (simp add: wi_hom_add [symmetric])

lemma map_ok_links:
  "map_ok m \<Longrightarrow> getLeaf (root m) x y = Some l \<Longrightarrow>
     leafE (leaves m ! l) = getLeaf (root m) (x + 8) y \<and> leafS (leaves m ! l) = getLeaf (root m) x (y + 8) \<and> l < length (leaves m)"
  by (simp add: map_ok_def links_ok_def)

lemma scan_row_eq:
  assumes "map_ok (tiles w)" and "leaf = getLeaf (root (tiles w)) (word_of_int nx) (word_of_int ny)"
  shows "scan_row w only center r ny endx nx leaf found =
    found \<union> (\<Union>k\<in>{k. nx + 8 * int k \<le> endx}. leaf_finds w only center r (nx + 8 * int k) ny)"
  using assms(2)
proof (induction "nat (endx + 1 - nx)" arbitrary: nx leaf found rule: less_induct)
  case less
  show ?case
  proof (cases "nx > endx")
    case True
    then have "{k. nx + 8 * int k \<le> endx} = {}" by auto
    then show ?thesis using True by (simp add: scan_row.simps)
  next
    case False
    let ?next = "getLeaf (root (tiles w)) (word_of_int (nx + 8)) (word_of_int ny)"
    have split: "{k. nx + 8 * int k \<le> endx} = insert 0 (Suc ` {k. (nx + 8) + 8 * int k \<le> endx})"
    proof (intro set_eqI iffI)
      fix k assume "k \<in> {k. nx + 8 * int k \<le> endx}"
      then show "k \<in> insert 0 (Suc ` {k. (nx + 8) + 8 * int k \<le> endx})" by (cases k) (auto simp: algebra_simps)
    qed (use False in \<open>auto simp: algebra_simps\<close>)
    have ih: "scan_row w only center r ny endx (nx + 8) ?next found' =
        found' \<union> (\<Union>k\<in>{k. nx + 8 + 8 * int k \<le> endx}. leaf_finds w only center r (nx + 8 + 8 * int k) ny)" for found'
      by (rule less.hyps) (use False in auto)
    have step: "scan_row w only center r ny endx nx leaf found =
        scan_row w only center r ny endx (nx + 8) ?next (found \<union> leaf_finds w only center r nx ny)"
    proof (cases leaf)
      case None
      then show ?thesis
        using False less.prems map_ok_node [OF assms(1)]
        by (subst scan_row.simps) (simp add: getLeafStatic_eq leaf_finds_def split: option.splits)
    next
      case (Some l)
      then have g: "getLeaf (root (tiles w)) (word_of_int nx) (word_of_int ny) = Some l" using less.prems by simp
      then have "leafE (leaves (tiles w) ! l) = ?next"
        using map_ok_links [OF assms(1)] by (metis woi_8)
      then show ?thesis
        using False g Some by (subst scan_row.simps) (simp add: leaf_finds_def Int_def conj_commute split: option.splits)
    qed
    show ?thesis unfolding step ih split by (simp add: algebra_simps Un_assoc)
  qed
qed

lemma scan_rows_eq:
  assumes "map_ok (tiles w)" and "leaf = getLeaf (root (tiles w)) (word_of_int startx) (word_of_int ny)"
  shows "scan_rows w only center r startx endx endy ny leaf found =
    found \<union> (\<Union>j\<in>{j. ny + 8 * int j \<le> endy}. \<Union>k\<in>{k. startx + 8 * int k \<le> endx}. leaf_finds w only center r (startx + 8 * int k) (ny + 8 * int j))"
  using assms(2)
proof (induction "nat (endy + 1 - ny)" arbitrary: ny leaf found rule: less_induct)
  case less
  let ?row = "\<lambda>y. \<Union>k\<in>{k. startx + 8 * int k \<le> endx}. leaf_finds w only center r (startx + 8 * int k) y"
  show ?case
  proof (cases "ny > endy")
    case True
    then have "{j. ny + 8 * int j \<le> endy} = {}" by auto
    then show ?thesis using True by (simp add: scan_rows.simps)
  next
    case False
    let ?next = "getLeaf (root (tiles w)) (word_of_int startx) (word_of_int (ny + 8))"
    have split: "{j. ny + 8 * int j \<le> endy} = insert 0 (Suc ` {j. (ny + 8) + 8 * int j \<le> endy})"
    proof (intro set_eqI iffI)
      fix j assume "j \<in> {j. ny + 8 * int j \<le> endy}"
      then show "j \<in> insert 0 (Suc ` {j. (ny + 8) + 8 * int j \<le> endy})" by (cases j) (auto simp: algebra_simps)
    qed (use False in \<open>auto simp: algebra_simps\<close>)
    have ih: "scan_rows w only center r startx endx endy (ny + 8) ?next found' =
        found' \<union> (\<Union>j\<in>{j. ny + 8 + 8 * int j \<le> endy}. ?row (ny + 8 + 8 * int j))" for found'
      by (rule less.hyps) (use False in auto)
    have "(case leaf of Some l \<Rightarrow> leafS (leaves (tiles w) ! l)
        | None \<Rightarrow> getLeafStatic (root (tiles w)) (word_of_int startx) (word_of_int (ny + 8))) = ?next"
    proof (cases leaf)
      case None
      then show ?thesis using map_ok_node [OF assms(1)] by (simp add: getLeafStatic_eq)
    next
      case (Some l)
      then show ?thesis using map_ok_links [OF assms(1)] less.prems by (metis option.case(2) woi_8)
    qed
    then have step: "scan_rows w only center r startx endx endy ny leaf found =
        scan_rows w only center r startx endx endy (ny + 8) ?next (found \<union> ?row ny)"
      using False scan_row_eq [OF assms(1) less.prems] by (subst scan_rows.simps) simp
    show ?thesis unfolding step ih split by (simp add: algebra_simps Un_assoc)
  qed
qed

lemma block_woi: "0 \<le> i \<Longrightarrow> i < 65536 \<Longrightarrow> block (word_of_int i) = nat i div 8"
proof -
  assume "0 \<le> i" "i < 65536"
  then obtain n where "i = int n" "n < 65536" by (metis nat_0_le nat_less_iff zless_nat_eq_int_zless of_nat_numeral)
  then show ?thesis by (simp add: block_def unat_of_nat)
qed

lemma block_ucast: "block (ucast x) = nat (uint x) div 8" for x :: "16 word"
proof -
  have "unat x < 2 ^ LENGTH(16)" by (rule unsigned_less)
  then show ?thesis by (simp add: block_def unsigned_ucast_eq take_bit_eq_mod)
qed

text \<open>A coordinate in the clamped span lies in a block that the loop visits.\<close>

lemma span_block:
  fixes x :: "16 word"
  assumes "lo \<le> uint x" and "uint x \<le> hi"
  obtains k where "clamp16 lo - clamp16 lo mod 8 + 8 * int k \<le> clamp16 hi - clamp16 hi mod 8"
    "block (word_of_int (clamp16 lo - clamp16 lo mod 8 + 8 * int k)) = block (ucast x)"
proof -
  let ?x = "uint x" and ?a = "clamp16 lo" and ?b = "clamp16 hi"
  have x: "0 \<le> ?x" "?x < 65536" using uint_bounded [of x] by simp_all
  have ab: "0 \<le> ?a" "?a \<le> ?x" "?x \<le> ?b" using assms x by (auto simp: clamp16_def)
  define k where "k = nat (?x div 8 - ?a div 8)"
  have "?a div 8 \<le> ?x div 8" "?x div 8 \<le> ?b div 8" using ab by (simp_all add: zdiv_mono1)
  then have e: "?a - ?a mod 8 + 8 * int k = 8 * (?x div 8)" and "8 * (?x div 8) \<le> ?b - ?b mod 8"
    by (simp_all add: k_def minus_mod_eq_mult_div)
  moreover have "block (word_of_int (8 * (?x div 8))) = block (ucast x)"
    using x by (subst block_woi) (auto simp: block_ucast nat_mult_distrib nat_div_distrib pos_imp_zdiv_nonneg_iff)
  ultimately show thesis using that [of k] by simp
qed

lemma node_list_ok:
  "list_ok isPlayer w l \<Longrightarrow> set (node_list only (leaves (tiles w) ! l)) = {c \<in> set (creature_list (leaves (tiles w) ! l)). only \<longrightarrow> isPlayer c}"
  by (auto simp: list_ok_def node_list_def Let_def)

lemma leaf_finds_viewers:
  assumes "placed_ok isPlayer w"
  shows "leaf_finds w only center r nx ny \<subseteq> viewers isPlayer w only center r"
proof
  fix c assume "c \<in> leaf_finds w only center r nx ny"
  then obtain l where l: "getLeaf (root (tiles w)) (word_of_int nx) (word_of_int ny) = Some l"
    "c \<in> set (node_list only (leaves (tiles w) ! l))" "in_view w center r c"
    by (auto simp: leaf_finds_def split: option.splits)
  then have lok: "list_ok isPlayer w l" using assms map_ok_links [OF _ l(1)] unfolding placed_ok_def by blast
  then have "leaf_of w (position w c) = Some l" "c \<in> set (creature_list (leaves (tiles w) ! l))" "only \<longrightarrow> isPlayer c"
    using l(2) node_list_ok [OF lok] by (auto simp: list_ok_def Let_def)
  then show "c \<in> viewers isPlayer w only center r" using l(3) by (auto simp: viewers_def on_map_def)
qed

lemma getSpectatorsInternal_eq:
  assumes "placed_ok isPlayer w"
  shows "getSpectatorsInternal w center r only found = found \<union> viewers isPlayer w only center r"
proof -
  have m: "map_ok (tiles w)" using assms by (simp add: placed_ok_def)
  define x1 x2 y1 y2 where d: "x1 = clamp16 (getX center + minX r + (getZ center - maxZ r))" "x2 = clamp16 (getX center + maxX r + (getZ center - minZ r))"
    "y1 = clamp16 (getY center + minY r + (getZ center - maxZ r))" "y2 = clamp16 (getY center + maxY r + (getZ center - minZ r))"
  let ?sx = "x1 - x1 mod 8" and ?sy = "y1 - y1 mod 8" and ?ex = "x2 - x2 mod 8" and ?ey = "y2 - y2 mod 8"
  let ?U = "\<Union>j\<in>{j. ?sy + 8 * int j \<le> ?ey}. \<Union>k\<in>{k. ?sx + 8 * int k \<le> ?ex}. leaf_finds w only center r (?sx + 8 * int k) (?sy + 8 * int j)"
  have "getSpectatorsInternal w center r only found = found \<union> ?U"
    unfolding getSpectatorsInternal_def Let_def d [symmetric]
    by (rule scan_rows_eq [OF m]) (simp add: getLeafStatic_eq map_ok_node [OF m])
  also have "?U = viewers isPlayer w only center r"
  proof (intro equalityI subsetI)
    fix c assume "c \<in> ?U"
    then show "c \<in> viewers isPlayer w only center r" using leaf_finds_viewers [OF assms] by blast
  next
    fix c assume c: "c \<in> viewers isPlayer w only center r"
    let ?p = "position w c"
    obtain l where l: "leaf_of w ?p = Some l" "c \<in> set (creature_list (leaves (tiles w) ! l))" and v: "only \<longrightarrow> isPlayer c" "in_view w center r c"
      using c by (auto simp: viewers_def on_map_def)
    have "getX center + minX r + (getZ center - maxZ r) \<le> uint (posx ?p)" "uint (posx ?p) \<le> getX center + maxX r + (getZ center - minZ r)"
      "getY center + minY r + (getZ center - maxZ r) \<le> uint (posy ?p)" "uint (posy ?p) \<le> getY center + maxY r + (getZ center - minZ r)"
      using v(2) by (auto simp: in_view_def Let_def getOffsetZ_def getX_def getY_def)
    then obtain k j where k: "?sx + 8 * int k \<le> ?ex" "block (word_of_int (?sx + 8 * int k)) = block (ucast (posx ?p))"
      and j: "?sy + 8 * int j \<le> ?ey" "block (word_of_int (?sy + 8 * int j)) = block (ucast (posy ?p))"
      unfolding d by (metis span_block)
    have "getLeaf (root (tiles w)) (word_of_int (?sx + 8 * int k)) (word_of_int (?sy + 8 * int j)) = Some l"
      using getLeaf_block [OF m k(2) j(2)] l(1) by (simp add: leaf_of_def)
    moreover have lok: "list_ok isPlayer w l"
      using assms l(1) map_ok_links [OF m] unfolding placed_ok_def leaf_of_def by blast
    ultimately have "c \<in> leaf_finds w only center r (?sx + 8 * int k) (?sy + 8 * int j)"
      using l(2) v node_list_ok [OF lok, of only] by (auto simp: leaf_finds_def)
    then show "c \<in> ?U" using k(1) j(1) by blast
  qed
  finally show ?thesis .
qed

subsection \<open>The caches\<close>

definition default_range :: "Position \<Rightarrow> range" where
  "default_range p = (let (lo, hi) = floors_seen True (getZ p) in
     \<lparr>minX = - maxViewportX, maxX = maxViewportX, minY = - maxViewportY, maxY = maxViewportY, minZ = lo, maxZ = hi\<rparr>)"

definition caches_ok :: "(nat \<Rightarrow> bool) \<Rightarrow> 't world \<Rightarrow> bool" where
  "caches_ok isPlayer w \<longleftrightarrow>
     (\<forall>p cs. spectatorCache w p = Some cs \<longrightarrow> cs = viewers isPlayer w False p (default_range p))
   \<and> (\<forall>p cs. playersSpectatorCache w p = Some cs \<longrightarrow> cs = viewers isPlayer w True p (default_range p))"

definition world_ok :: "(nat \<Rightarrow> bool) \<Rightarrow> 't world \<Rightarrow> bool" where
  "world_ok isPlayer w \<longleftrightarrow> placed_ok isPlayer w \<and> caches_ok isPlayer w"

lemma viewers_cong:
  "tiles w' = tiles w \<Longrightarrow> position w' = position w \<Longrightarrow> viewers isPlayer w' = viewers isPlayer w \<and> placed_ok isPlayer w' = placed_ok isPlayer w"
  by (simp add: viewers_def on_map_def leaf_of_def in_view_def placed_ok_def list_ok_def fun_eq_iff)

lemma players_viewers: "Set.filter isPlayer (viewers isPlayer w False p r) = viewers isPlayer w True p r"
  by (auto simp: viewers_def)

lemma getSpectators_eq:
  assumes "world_ok isPlayer w" and "getSpectators isPlayer center multifloor only given found w = (cs, w')" and "unat (posz center) < MAP_MAX_LAYERS"
  shows "cs = found \<union> viewers isPlayer w only center (range_of center multifloor given)"
    and "tiles w' = tiles w" "position w' = position w" "direction w' = direction w"
    and "found \<subseteq> viewers isPlayer w only center (range_of center multifloor given) \<Longrightarrow> world_ok isPlayer w'"
proof -
  have p: "placed_ok isPlayer w" and c: "caches_ok isPlayer w" using assms(1) by (simp_all add: world_ok_def)
  let ?r = "range_of center multifloor given" and ?v = "viewers isPlayer w only center (range_of center multifloor given)"
  define cached where "cached = (if cacheable multifloor ?r then cached_list isPlayer center only w else None)"
  have dr: "?r = default_range center" if "cacheable multifloor ?r"
  proof -
    obtain a b c d lo hi where "given = (a, b, c, d)" "floors_seen multifloor (getZ center) = (lo, hi)"
      by (metis prod_cases4 surj_pair)
    with that show ?thesis by (simp add: cacheable_def range_of_def default_range_def)
  qed
  have hit: "cs = ?v" if "cached = Some cs" for cs
  proof -
    have "cacheable multifloor ?r" using that by (auto simp: cached_def split: if_splits)
    then show ?thesis
      using that c dr players_viewers [of isPlayer w center "default_range center"]
      by (auto simp: cached_def cached_list_def caches_ok_def split: if_splits option.splits)
  qed
  have run: "(cs, w') = (case cached of Some cs \<Rightarrow> (found \<union> cs, w)
      | None \<Rightarrow> (found \<union> ?v, if \<not> cacheable multifloor ?r then w
          else if only then w\<lparr>playersSpectatorCache := (playersSpectatorCache w)(center \<mapsto> found \<union> ?v)\<rparr>
          else w\<lparr>spectatorCache := (spectatorCache w)(center \<mapsto> found \<union> ?v)\<rparr>))"
    using assms(2,3) unfolding getSpectators_def getSpectatorsInternal_eq [OF p] Let_def cached_def by (simp add: not_le)
  show "cs = found \<union> ?v" using run hit by (auto split: option.splits)
  show same: "tiles w' = tiles w" "position w' = position w" "direction w' = direction w"
    using run by (auto split: option.splits if_splits)
  show "world_ok isPlayer w'" if "found \<subseteq> ?v"
  proof -
    have f: "found \<union> ?v = ?v" using that by blast
    note v = viewers_cong [OF same(1,2), of isPlayer]
    have "caches_ok isPlayer w'"
    proof (cases "cached = None \<and> cacheable multifloor ?r")
      case False
      then have "w' = w" using run by (auto split: option.splits if_splits)
      then show ?thesis using c by simp
    next
      case True
      have "spectatorCache w' = (if only then spectatorCache w else (spectatorCache w)(center \<mapsto> ?v))"
        "playersSpectatorCache w' = (if only then (playersSpectatorCache w)(center \<mapsto> ?v) else playersSpectatorCache w)"
        using run True f by (auto split: if_splits)
      then show ?thesis using c dr True v by (cases only) (simp_all add: caches_ok_def)
    qed
    then show ?thesis using p v by (simp add: world_ok_def)
  qed
qed

subsection \<open>Creatures come, move and go\<close>

definition listed :: "'t world \<Rightarrow> nat \<Rightarrow> bool" where
  "listed w c \<longleftrightarrow> (\<exists>l<length (leaves (tiles w)). c \<in> set (creature_list (leaves (tiles w) ! l)))"

lemma listed_on_map: "placed_ok isPlayer w \<Longrightarrow> listed w c \<longleftrightarrow> on_map w c"
  unfolding listed_def on_map_def placed_ok_def list_ok_def Let_def leaf_of_def by (metis map_ok_links)

lemma swap_remove_set:
  assumes "distinct xs" and "c \<in> set xs"
  obtains ys where "swap_remove c xs = Some ys" "set ys = set xs - {c}" "distinct ys"
proof -
  obtain as bs where xs: "xs = as @ c # bs" "c \<notin> set as" using split_list_first [OF assms(2)] by blast
  have t: "length (takeWhile (\<lambda>x. x \<noteq> c) (as @ c # bs)) = length as"
    using xs(2) by (subst takeWhile_append2) auto
  have "swap_remove c xs = Some (butlast (as @ last xs # bs))"
    unfolding swap_remove_def Let_def xs(1) t by (simp add: list_update_append)
  moreover have "butlast (as @ last xs # bs) = (if bs = [] then as else as @ last bs # butlast bs)"
    using xs by (simp add: butlast_append)
  moreover have "set bs = insert (last bs) (set (butlast bs)) \<and> distinct (butlast bs) \<and> last bs \<notin> set (butlast bs)" if "bs \<noteq> []"
    using that assms(1) xs by (cases bs rule: rev_cases) auto
  ultimately show thesis using that assms(1) xs in_set_butlastD [of _ bs]
    by (cases "bs = []") (auto dest: in_set_butlastD)
qed

lemma map_leaf_list_ok:
  assumes "map_ok m" and "\<And>n. leafE (f n) = leafE n \<and> leafS (f n) = leafS n \<and> length (floors (f n)) = length (floors n)"
  shows "map_ok (map_leaf l f m)"
  by (rule map_leaf_ok) (use assms in auto)

lemma add_ok:
  assumes w: "placed_ok isPlayer w" and c: "\<not> listed w c" and p: "leaf_of w p = Some l" "unat (posz p) < MAP_MAX_LAYERS"
    and w': "tiles w' = map_leaf l (leaf_add isPlayer c) (tiles w)" "position w' = (position w)(c := p)"
  shows "placed_ok isPlayer w'" and "on_map w' d \<longleftrightarrow> d = c \<or> on_map w d"
proof -
  have m: "map_ok (tiles w)" using w by (simp add: placed_ok_def)
  have l: "l < length (leaves (tiles w))" using p(1) map_ok_links [OF m] by (auto simp: leaf_of_def)
  have m': "map_ok (tiles w')" unfolding w' by (rule map_leaf_list_ok [OF m]) (simp add: leaf_add_def)
  have lf: "leaf_of w' q = leaf_of w q" for q by (simp add: leaf_of_def w')
  have nth: "leaves (tiles w') ! i = (if i = l then leaf_add isPlayer c (leaves (tiles w) ! l) else leaves (tiles w) ! i)"
    if "i < length (leaves (tiles w))" for i using that by (simp add: w')
  have "list_ok isPlayer w' i" if i: "i < length (leaves (tiles w))" for i
  proof -
    have "list_ok isPlayer w i" using w i by (simp add: placed_ok_def)
    moreover have "c \<notin> set (creature_list (leaves (tiles w) ! i))" using c i by (auto simp: listed_def)
    ultimately show ?thesis
      using p by (cases "i = l") (auto simp: list_ok_def Let_def nth [OF i] nth [OF l] lf w'(2) leaf_add_def)
  qed
  then show ok: "placed_ok isPlayer w'" using m' by (simp add: placed_ok_def w'(1))
  have "listed w' d \<longleftrightarrow> d = c \<or> listed w d"
    using l nth by (auto simp: listed_def w'(1) leaf_add_def split: if_splits)
  then show "on_map w' d \<longleftrightarrow> d = c \<or> on_map w d" using listed_on_map [OF ok] listed_on_map [OF w] by metis
qed

lemma remove_ok:
  assumes w: "placed_ok isPlayer w" and c: "on_map w c"
  obtains w' where "node_removeCreature isPlayer c (position w c) w = Some w'" "placed_ok isPlayer w'" "\<not> listed w' c"
    "\<And>d. on_map w' d \<longleftrightarrow> d \<noteq> c \<and> on_map w d" "\<And>q. leaf_of w' q = leaf_of w q" "position w' = position w" "direction w' = direction w"
    "\<And>p. tile_at w' p = tile_at w p"
proof -
  have m: "map_ok (tiles w)" using w by (simp add: placed_ok_def)
  obtain l where l: "leaf_of w (position w c) = Some l" "c \<in> set (creature_list (leaves (tiles w) ! l))"
    using c by (auto simp: on_map_def)
  have lt: "l < length (leaves (tiles w))" using l(1) map_ok_links [OF m] by (auto simp: leaf_of_def)
  let ?n = "leaves (tiles w) ! l"
  have lok: "list_ok isPlayer w l" using w lt by (simp add: placed_ok_def)
  obtain cs where cs: "swap_remove c (creature_list ?n) = Some cs" "set cs = set (creature_list ?n) - {c}" "distinct cs"
    using swap_remove_set [OF _ l(2)] lok by (auto simp: list_ok_def Let_def)
  obtain ps where ps: "isPlayer c \<Longrightarrow> swap_remove c (player_list ?n) = Some ps" "set ps = set (player_list ?n) - {c}" "distinct ps"
  proof (cases "isPlayer c")
    case True
    then show thesis using swap_remove_set [of "player_list ?n" c] lok l(2) that by (auto simp: list_ok_def Let_def)
  next
    case False
    then have "set (player_list ?n) = set (player_list ?n) - {c}" using lok by (auto simp: list_ok_def Let_def)
    then show thesis using that [of "player_list ?n"] lok False by (auto simp: list_ok_def Let_def)
  qed
  define n' where "n' = ?n\<lparr>creature_list := cs, player_list := (if isPlayer c then ps else player_list ?n)\<rparr>"
  define w' where "w' = w\<lparr>tiles := map_leaf l (\<lambda>_. n') (tiles w)\<rparr>"
  have r: "node_removeCreature isPlayer c (position w c) w = Some w'"
    using cs ps l(1) by (simp add: node_removeCreature_def getQTNode_eq [OF m] leaf_remove_def w'_def n'_def)
  have sel: "position w' = position w" "direction w' = direction w" "length (leaves (tiles w')) = length (leaves (tiles w))"
    "root (tiles w') = root (tiles w)" by (simp_all add: w'_def)
  have lf: "leaf_of w' q = leaf_of w q" for q by (simp add: leaf_of_def sel)
  have nth: "leaves (tiles w') ! i = (if i = l then n' else leaves (tiles w) ! i)"
    if "i < length (leaves (tiles w))" for i using that by (simp add: w'_def)
  have "tiles w' = map_leaf l (\<lambda>n. n\<lparr>creature_list := cs, player_list := (if isPlayer c then ps else player_list ?n)\<rparr>) (tiles w)"
    by (simp add: map_leaf_def w'_def n'_def)
  then have m': "map_ok (tiles w')" using map_leaf_list_ok [OF m] by simp
  have n': "creature_list n' = cs" "set (player_list n') = set (player_list ?n) - {c}" "distinct (player_list n')" "floors n' = floors ?n"
    using ps lok by (auto simp: list_ok_def Let_def n'_def)
  have "list_ok isPlayer w' i" if i: "i < length (leaves (tiles w))" for i
  proof (cases "i = l")
    case True
    then have "leaves (tiles w') ! i = n'" using nth [OF lt] by simp
    then show ?thesis using lok cs n' True by (auto simp: list_ok_def Let_def lf sel)
  next
    case False
    then have "leaves (tiles w') ! i = leaves (tiles w) ! i" using nth [OF i] by simp
    then show ?thesis using w i by (simp add: placed_ok_def list_ok_def Let_def lf sel)
  qed
  then have ok: "placed_ok isPlayer w'" using m' by (simp add: placed_ok_def sel)
  have li: "listed w' d \<longleftrightarrow> d \<noteq> c \<and> listed w d" for d
  proof -
    have "c \<notin> set (creature_list (leaves (tiles w) ! i))" if "i < length (leaves (tiles w))" "i \<noteq> l" for i
      using that l(1) w by (auto simp: placed_ok_def list_ok_def Let_def)
    then show ?thesis
      using lt cs(2) nth n'(1) unfolding listed_def sel by (auto split: if_splits)
  qed
  have t: "getTile (tiles w') x y z = getTile (tiles w) x y z" for x y z
  proof -
    have "floors (leaves (tiles w') ! i) = floors (leaves (tiles w) ! i)" if "getLeaf (root (tiles w)) (ucast x) (ucast y) = Some i" for i
      using map_ok_links [OF m that] nth [of i] n'(4) by auto
    then show ?thesis unfolding getTile_leaf [OF m'] getTile_leaf [OF m] sel
      by (cases "getLeaf (root (tiles w)) (ucast x) (ucast y)") (auto simp: leaf_tile_def)
  qed
  show thesis
  proof (rule that [OF r ok])
    show "\<not> listed w' c" using li by blast
    show "on_map w' d \<longleftrightarrow> d \<noteq> c \<and> on_map w d" for d using li listed_on_map [OF ok] listed_on_map [OF w] by metis
  qed (simp_all add: lf sel t tile_at_def)
qed

lemma setTile_leaves:
  assumes "map_ok m" and "setTile merge x y z t m = Some m'"
  shows "map_ok m'" and "length (leaves m) \<le> length (leaves m')"
    and "getLeaf (root m) a b = Some i \<Longrightarrow> getLeaf (root m') a b = Some i"
    and "i < length (leaves m) \<Longrightarrow> creature_list (leaves m' ! i) = creature_list (leaves m ! i) \<and> player_list (leaves m' ! i) = player_list (leaves m ! i)"
    and "length (leaves m) \<le> i \<Longrightarrow> i < length (leaves m') \<Longrightarrow> creature_list (leaves m' ! i) = [] \<and> player_list (leaves m' ! i) = []"
proof -
  have all: "map_ok m' \<and> length (leaves m) \<le> length (leaves m') \<and> (\<forall>a b i. getLeaf (root m) a b = Some i \<longrightarrow> getLeaf (root m') a b = Some i)
    \<and> (\<forall>i<length (leaves m). creature_list (leaves m' ! i) = creature_list (leaves m ! i) \<and> player_list (leaves m' ! i) = player_list (leaves m ! i))
    \<and> (\<forall>i<length (leaves m'). length (leaves m) \<le> i \<longrightarrow> creature_list (leaves m' ! i) = [] \<and> player_list (leaves m' ! i) = [])"
  proof (cases "unat z < MAP_MAX_LAYERS")
    case False
    then show ?thesis using assms by (simp add: setTile_def)
  next
    case True
    let ?x = "ucast x :: 32 word" and ?y = "ucast y :: 32 word"
    obtain m1 l where a: "after_leaf x y m = Some (m1, l)" and la: "leaf_added x y m m1 l"
      using after_leaf_ok [OF assms(1), of x y] by blast
    define f where "f = put_tile merge (unat z) (unat x mod 8, unat y mod 8) t"
    have m': "m' = map_leaf l f m1" using assms(2) a True by (simp add: setTile_after f_def)
    have f: "creature_list (f n) = creature_list n" "player_list (f n) = player_list n" for n by (simp_all add: f_def)
    have l: "l < length (leaves m1)" and len: "length (leaves m) \<le> length (leaves m1)" and m1: "map_ok m1"
      and old: "\<forall>i<length (leaves m). creature_list (leaves m1 ! i) = creature_list (leaves m ! i) \<and> player_list (leaves m1 ! i) = player_list (leaves m ! i)"
      and eq: "\<forall>x' y'. getLeaf (root m1) x' y' = (if block ?x = block x' \<and> block ?y = block y' then Some l else getLeaf (root m) x' y')"
      using la unfolding leaf_added_def by simp_all
    have new: "if getLeaf (root m) ?x ?y = None then l = length (leaves m) \<and> length (leaves m1) = Suc l
        \<and> creature_list (leaves m1 ! l) = [] \<and> player_list (leaves m1 ! l) = []
      else length (leaves m1) = length (leaves m) \<and> getLeaf (root m) ?x ?y = Some l"
      using la unfolding leaf_added_def by (simp split: if_split_asm)
    have nth: "creature_list (leaves m' ! i) = creature_list (leaves m1 ! i)" "player_list (leaves m' ! i) = player_list (leaves m1 ! i)"
      if "i < length (leaves m1)" for i using that by (simp_all add: m' f)
    have ok: "map_ok m'" unfolding m' by (rule map_leaf_ok [OF m1]) (simp_all add: f_def)
    have keep: "getLeaf (root m') a b = Some i" if g: "getLeaf (root m) a b = Some i" for a b i
    proof (cases "block ?x = block a \<and> block ?y = block b")
      case True
      then have "getLeaf (root m) ?x ?y = Some i" using getLeaf_block [OF assms(1)] g by metis
      then have "l = i" using new by simp
      then show ?thesis using eq True by (simp add: m')
    next
      case False
      then show ?thesis using eq g unfolding m' map_leaf_simps by metis
    qed
    have fresh: "creature_list (leaves m' ! i) = [] \<and> player_list (leaves m' ! i) = []" if "i < length (leaves m')" "length (leaves m) \<le> i" for i
    proof -
      have "i < length (leaves m1)" using that(1) by (simp add: m')
      moreover from this that(2) new have "i = l \<and> creature_list (leaves m1 ! l) = [] \<and> player_list (leaves m1 ! l) = []"
        by (auto split: if_split_asm)
      ultimately show ?thesis using nth by simp
    qed
    have len': "length (leaves m) \<le> length (leaves m')" using len by (simp add: m')
    have old': "\<forall>i<length (leaves m). creature_list (leaves m' ! i) = creature_list (leaves m ! i) \<and> player_list (leaves m' ! i) = player_list (leaves m ! i)"
      using old nth order_less_le_trans [OF _ len] by simp
    show ?thesis by (intro conjI ok len' old') (use keep fresh in blast)+
  qed
  then show "map_ok m'" "length (leaves m) \<le> length (leaves m')"
    "getLeaf (root m) a b = Some i \<Longrightarrow> getLeaf (root m') a b = Some i"
    "i < length (leaves m) \<Longrightarrow> creature_list (leaves m' ! i) = creature_list (leaves m ! i) \<and> player_list (leaves m' ! i) = player_list (leaves m ! i)"
    "length (leaves m) \<le> i \<Longrightarrow> i < length (leaves m') \<Longrightarrow> creature_list (leaves m' ! i) = [] \<and> player_list (leaves m' ! i) = []"
    by blast+
qed

lemma set_tile_ok:
  assumes w: "world_ok isPlayer w" and s: "set_tile merge p t w = Some w'"
  shows "world_ok isPlayer w'" and "on_map w' c \<longleftrightarrow> on_map w c" and "position w' = position w"
proof -
  obtain m' where m': "setTile merge (posx p) (posy p) (posz p) t (tiles w) = Some m'" and w': "w' = w\<lparr>tiles := m'\<rparr>"
    using s by (auto simp: set_tile_def)
  have p: "placed_ok isPlayer w" and m: "map_ok (tiles w)" using w by (simp_all add: world_ok_def placed_ok_def)
  note sl = setTile_leaves [OF m m']
  have pos: "position w' = position w" and ti: "tiles w' = m'" by (simp_all add: w')
  have "list_ok isPlayer w' i" if i: "i < length (leaves m')" for i
  proof (cases "i < length (leaves (tiles w))")
    case True
    then have "list_ok isPlayer w i" using p by (simp add: placed_ok_def)
    then show ?thesis using sl(3,4) True unfolding list_ok_def Let_def pos ti leaf_of_def by simp
  next
    case False
    then show ?thesis using sl(5) i unfolding list_ok_def Let_def ti by simp
  qed
  then have p': "placed_ok isPlayer w'" using sl(1) by (simp add: placed_ok_def ti)
  have "listed w' d \<longleftrightarrow> listed w d" for d
  proof
    assume "listed w' d"
    then obtain i where "i < length (leaves m')" "d \<in> set (creature_list (leaves m' ! i))" by (auto simp: listed_def ti)
    then show "listed w d" using sl(4,5) by (cases "i < length (leaves (tiles w))") (auto simp: listed_def)
  next
    assume "listed w d"
    then show "listed w' d" using sl(2,4) by (auto simp: listed_def ti intro: order_less_le_trans)
  qed
  then show om: "on_map w' d \<longleftrightarrow> on_map w d" for d using listed_on_map [OF p'] listed_on_map [OF p] by metis
  have "viewers isPlayer w' = viewers isPlayer w" by (simp add: viewers_def om in_view_def pos fun_eq_iff)
  then show "world_ok isPlayer w'" using w p' by (simp add: world_ok_def caches_ok_def w')
  show "position w' = position w" by (rule pos)
qed

lemma cleared_ok: "placed_ok isPlayer w \<Longrightarrow> world_ok isPlayer (clearSpectatorCache w)"
  using viewers_cong [of "clearSpectatorCache w" w isPlayer] by (simp add: world_ok_def caches_ok_def clearSpectatorCache_def)

lemma tile_at_leaf:
  assumes "map_ok (tiles w)" and "tile_at w p \<noteq> None"
  obtains l where "leaf_of w p = Some l" "unat (posz p) < MAP_MAX_LAYERS"
  using assms(2) by (cases "leaf_of w p") (auto simp: tile_at_def getTile_leaf [OF assms(1)] leaf_of_def split: if_splits)

subsection \<open>Reachable worlds\<close>

lemma placeCreature_ok:
  assumes w: "world_ok isPlayer w" and c: "\<not> on_map w c"
    and dest: "\<forall>p. tile_at w p \<noteq> None \<longrightarrow> tile_at w (pe_destination e p) \<noteq> None"
  shows "\<exists>ok w'. placeCreature e isPlayer centerPos c extendedPos forceLogin w = Some (ok, w') \<and> world_ok isPlayer w'
    \<and> (\<forall>d. on_map w' d \<longleftrightarrow> on_map w d \<or> ok \<and> d = c)
    \<and> (\<forall>p. find_place e centerPos extendedPos forceLogin w = Some p \<longrightarrow> ok \<and> position w' c = pe_destination e p)"
proof (cases "find_place e centerPos extendedPos forceLogin w")
  case None
  then show ?thesis using w by (intro exI [of _ False] exI [of _ w]) (simp add: placeCreature_def)
next
  case (Some p)
  have p: "placed_ok isPlayer w" and m: "map_ok (tiles w)" using w by (simp_all add: world_ok_def placed_ok_def)
  have "tile_at w p \<noteq> None"
    using Some unfolding find_place_def Let_def
    by (auto simp: place_ok_def find_Some_iff split: prod.splits option.splits if_splits)
  then have "tile_at w (pe_destination e p) \<noteq> None" using dest [rule_format, of p] by simp
  then obtain l where l: "leaf_of w (pe_destination e p) = Some l" "unat (posz (pe_destination e p)) < MAP_MAX_LAYERS"
    by (rule tile_at_leaf [OF m])
  define w0 where "w0 = (clearSpectatorCache w)\<lparr>position := (position w)(c := pe_destination e p)\<rparr>"
  define w' where "w' = w0\<lparr>tiles := map_leaf l (leaf_add isPlayer c) (tiles w)\<rparr>"
  have sel: "tiles w0 = tiles w" by (simp add: w0_def clearSpectatorCache_def)
  have q: "getQTNode w0 (pe_destination e p) = Some l" using l(1) m by (simp add: getQTNode_eq sel) (simp add: leaf_of_def sel)
  have run: "placeCreature e isPlayer centerPos c extendedPos forceLogin w = Some (True, w')"
  proof -
    have "placeCreature e isPlayer centerPos c extendedPos forceLogin w = map_option (Pair True) (node_addCreature isPlayer c (pe_destination e p) w0)"
      unfolding placeCreature_def Some Let_def option.case w0_def by (simp add: clearSpectatorCache_def)
    then show ?thesis by (simp only: node_addCreature_def q option.map sel w'_def)
  qed
  have t: "tiles w' = map_leaf l (leaf_add isPlayer c) (tiles w)" "position w' = (position w)(c := pe_destination e p)"
    by (simp_all add: w'_def w0_def)
  have nl: "\<not> listed w c" using c listed_on_map [OF p] by blast
  note a = add_ok [OF p nl l t]
  have "clearSpectatorCache w' = w'" by (simp add: w'_def w0_def clearSpectatorCache_def)
  then have "world_ok isPlayer w'" using cleared_ok [OF a(1)] by simp
  then show ?thesis using run a(2) Some t(2) by (intro exI [of _ True] exI [of _ w']) auto
qed

lemma moveCreature_ok:
  fixes w :: "'t world"
  assumes w: "world_ok isPlayer w" and c: "on_map w c" and t: "tile_at w newPos = Some newTile"
  shows "\<exists>teleport w'. moveCreature isPlayer ground c newPos newTile forceTeleport w =
      Some (viewers isPlayer w False (position w c) (default_range (position w c)) \<union> viewers isPlayer w False newPos (default_range newPos), teleport, w')
    \<and> world_ok isPlayer w' \<and> (\<forall>d. on_map w' d \<longleftrightarrow> on_map w d) \<and> position w' = (position w)(c := newPos)
    \<and> (\<not> forceTeleport \<and> ground newTile \<and> areInRange3 1 1 0 (position w c) newPos \<longrightarrow> direction w' c = turned (position w c) newPos (direction w c))"
proof -
  have p: "placed_ok isPlayer w" and m: "map_ok (tiles w)" using w by (simp_all add: world_ok_def placed_ok_def)
  obtain ln where ln: "leaf_of w newPos = Some ln" "unat (posz newPos) < MAP_MAX_LAYERS" using tile_at_leaf [OF m] t by blast
  obtain lo where lo: "leaf_of w (position w c) = Some lo" "c \<in> set (creature_list (leaves (tiles w) ! lo))"
    using c by (auto simp: on_map_def)
  have lt: "lo < length (leaves (tiles w))" using lo(1) map_ok_links [OF m] by (auto simp: leaf_of_def)
  then have lok: "list_ok isPlayer w lo" using p by (simp add: placed_ok_def)
  then have zo: "unat (posz (position w c)) < MAP_MAX_LAYERS" using lo(2) by (simp add: list_ok_def Let_def)
  have dr: "range_of q True (0, 0, 0, 0) = default_range q" for q
    by (simp add: range_of_def default_range_def split: prod.splits)
  obtain s1 w1 where g1: "getSpectators isPlayer (position w c) True False (0, 0, 0, 0) {} w = (s1, w1)" by (cases "getSpectators isPlayer (position w c) True False (0, 0, 0, 0) {} w")
  note e1 = getSpectators_eq [OF w g1 zo, unfolded dr]
  have w1: "world_ok isPlayer w1" by (rule e1(5)) simp
  obtain s2 w2 where g2: "getSpectators isPlayer newPos True False (0, 0, 0, 0) s1 w1 = (s2, w2)" by (cases "getSpectators isPlayer newPos True False (0, 0, 0, 0) s1 w1")
  note e2 = getSpectators_eq [OF w1 g2 ln(2), unfolded dr]
  note v1 = viewers_cong [OF e1(2,3), of isPlayer]
  have s2: "s2 = viewers isPlayer w False (position w c) (default_range (position w c)) \<union> viewers isPlayer w False newPos (default_range newPos)"
    using e1(1) e2(1) v1 by simp
  define w3 where "w3 = clearSpectatorCache w2"
  have e3: "tiles w3 = tiles w" "position w3 = position w" "direction w3 = direction w"
    using e1 e2 by (simp_all add: w3_def clearSpectatorCache_def)
  have p3: "placed_ok isPlayer w3" and om3: "on_map w3 d \<longleftrightarrow> on_map w d" and lf3: "leaf_of w3 q = leaf_of w q" for d q
    using viewers_cong [OF e3(1,2), of isPlayer] p by (simp_all add: on_map_def leaf_of_def e3)
  have qt: "getQTNode w3 q = leaf_of w q" for q using m by (simp add: getQTNode_eq e3 lf3)
  define finish :: "'t world \<Rightarrow> 't world" where "finish = (\<lambda>v. (if forceTeleport \<or> \<not> ground newTile \<or> \<not> areInRange3 1 1 0 (position w c) newPos then id
      else direction_update (\<lambda>d. d(c := turned (position w c) newPos (d c)))) ((clearSpectatorCache v)\<lparr>position := (position v)(c := newPos)\<rparr>))"
  have run: "moveCreature isPlayer ground c newPos newTile forceTeleport w =
      map_option (\<lambda>v. (s2, forceTeleport \<or> \<not> ground newTile \<or> \<not> areInRange3 1 1 0 (position w c) newPos, finish v))
        (if lo \<noteq> ln then Option.bind (node_removeCreature isPlayer c (position w c) w3) (node_addCreature isPlayer c newPos) else Some w3)"
    unfolding moveCreature_def Let_def g1 g2 prod.case w3_def [symmetric] qt lo(1) ln(1)
    by (cases "if lo \<noteq> ln then Option.bind (node_removeCreature isPlayer c (position w c) w3) (node_addCreature isPlayer c newPos) else Some w3")
      (auto simp: finish_def clearSpectatorCache_def fun_upd_def)
  have fin: "tiles (finish v) = tiles v" "position (finish v) = (position v)(c := newPos)" "clearSpectatorCache (finish v) = finish v" for v
    by (simp_all add: finish_def clearSpectatorCache_def)
  have dir: "\<not> forceTeleport \<and> ground newTile \<and> areInRange3 1 1 0 (position w c) newPos \<longrightarrow>
      direction (finish v) c = turned (position w c) newPos (direction v c)" for v
    by (simp add: finish_def clearSpectatorCache_def)
  show ?thesis
  proof (cases "lo = ln")
    case True
    define w' where "w' = finish w3"
    have f: "tiles w' = tiles w" "position w' = (position w)(c := newPos)" using fin [of w3] e3 by (simp_all add: w'_def)
    have lf: "leaf_of w' q = leaf_of w q" for q by (simp add: leaf_of_def f)
    have "list_ok isPlayer w' i" if i: "i < length (leaves (tiles w))" for i
    proof -
      have "list_ok isPlayer w i" using p i by (simp add: placed_ok_def)
      then show ?thesis using lo(1) ln True lok lo(2) by (auto simp: list_ok_def Let_def lf f)
    qed
    then have p': "placed_ok isPlayer w'" using p by (simp add: placed_ok_def f)
    have om: "on_map w' d \<longleftrightarrow> on_map w d" for d
      using listed_on_map [OF p', of d] listed_on_map [OF p, of d] by (simp add: listed_def f)
    have "world_ok isPlayer w'" using cleared_ok [OF p'] fin(3) by (simp add: w'_def)
    then show ?thesis using run True s2 om f(2) dir [of w3] e3(3) by (simp add: w'_def [symmetric])
  next
    case False
    have c3: "on_map w3 c" using c om3 by simp
    obtain w4 where w4: "node_removeCreature isPlayer c (position w3 c) w3 = Some w4" "placed_ok isPlayer w4" "\<not> listed w4 c"
      "\<And>d. on_map w4 d \<longleftrightarrow> d \<noteq> c \<and> on_map w3 d" "\<And>q. leaf_of w4 q = leaf_of w3 q" "position w4 = position w3" "direction w4 = direction w3"
      using remove_ok [OF p3 c3] by metis
    define w5 where "w5 = w4\<lparr>tiles := map_leaf ln (leaf_add isPlayer c) (tiles w4)\<rparr>"
    have l4: "leaf_of w4 newPos = Some ln" using w4(5) lf3 ln(1) by simp
    have "node_addCreature isPlayer c newPos w4 = Some w5"
      using l4 w4(2) by (simp add: node_addCreature_def getQTNode_eq placed_ok_def w5_def)
    define w' where "w' = finish w5"
    have f: "tiles w' = map_leaf ln (leaf_add isPlayer c) (tiles w4)" "position w' = (position w4)(c := newPos)"
      using fin [of w5] by (simp_all add: w'_def w5_def)
    note a = add_ok [OF w4(2,3) l4 ln(2) f]
    have om: "on_map w' d \<longleftrightarrow> on_map w d" for d using a(2) [of d] w4(4) [of d] om3 [of d] c by auto
    have "world_ok isPlayer w'" using cleared_ok [OF a(1)] fin(3) by (simp add: w'_def)
    moreover have "position w' = (position w)(c := newPos)" using f(2) w4(6) e3(2) by simp
    moreover have "direction w5 c = direction w c" using w4(7) e3(3) by (simp add: w5_def)
    moreover have "moveCreature isPlayer ground c newPos newTile forceTeleport w =
        Some (s2, forceTeleport \<or> \<not> ground newTile \<or> \<not> areInRange3 1 1 0 (position w c) newPos, w')"
      unfolding run w'_def using False w4(1) \<open>node_addCreature isPlayer c newPos w4 = Some w5\<close>
      by (simp only: e3(2) if_True bind.bind_lunit option.map not_False_eq_True)
    ultimately show ?thesis
      using om dir [of w5] unfolding s2 w'_def [symmetric] by metis
  qed
qed

text \<open>What happens to the map: tiles are set, creatures placed (on a tile that \<open>queryDestination\<close> finds), moved to a tile and removed, the
  dispatcher clears the caches after a task, and spectators are asked for with an empty list.\<close>

inductive map_reach :: "(nat \<Rightarrow> bool) \<Rightarrow> 't world \<Rightarrow> bool" for isPlayer where
  start: "map_reach isPlayer new_world"
| tiled: "map_reach isPlayer w \<Longrightarrow> set_tile merge p t w = Some w' \<Longrightarrow> map_reach isPlayer w'"
| placed: "map_reach isPlayer w \<Longrightarrow> \<not> on_map w c \<Longrightarrow> \<forall>p. tile_at w p \<noteq> None \<longrightarrow> tile_at w (pe_destination e p) \<noteq> None \<Longrightarrow>
    placeCreature e isPlayer centerPos c extendedPos forceLogin w = Some (ok, w') \<Longrightarrow> map_reach isPlayer w'"
| moved: "map_reach isPlayer w \<Longrightarrow> on_map w c \<Longrightarrow> tile_at w newPos = Some newTile \<Longrightarrow>
    moveCreature isPlayer ground c newPos newTile forceTeleport w = Some (told, teleport, w') \<Longrightarrow> map_reach isPlayer w'"
| removed: "map_reach isPlayer w \<Longrightarrow> on_map w c \<Longrightarrow> tile_removeCreature isPlayer c w = Some w' \<Longrightarrow> map_reach isPlayer w'"
| cleared: "map_reach isPlayer w \<Longrightarrow> map_reach isPlayer (clearSpectatorCache w)"
| asked: "map_reach isPlayer w \<Longrightarrow> getSpectators isPlayer center multifloor onlyPlayers given {} w = (cs, w') \<Longrightarrow> map_reach isPlayer w'"

lemma new_world_ok: "world_ok isPlayer (new_world :: 't world)"
proof -
  have "placed_ok isPlayer (new_world :: 't world)"
    using empty_map_ok [where 'a = 't] by (simp add: placed_ok_def new_world_def) (simp add: empty_map_def)
  then show ?thesis by (simp add: world_ok_def caches_ok_def) (simp add: new_world_def)
qed

lemma map_reach_ok: "map_reach isPlayer w \<Longrightarrow> world_ok isPlayer w"
proof (induction rule: map_reach.induct)
  case start
  show ?case by (rule new_world_ok)
next
  case (tiled w merge p t w')
  show ?case by (rule set_tile_ok(1) [OF tiled.IH tiled.hyps(2)])
next
  case (placed w c e centerPos extendedPos forceLogin ok w')
  from placeCreature_ok [OF placed.IH placed.hyps(2,3), of centerPos extendedPos forceLogin] placed.hyps(4) show ?case by auto
next
  case (moved w c newPos newTile ground forceTeleport told teleport w')
  from moveCreature_ok [OF moved.IH moved.hyps(2,3), of ground forceTeleport] moved.hyps(4) show ?case by auto
next
  case (removed w c w')
  have p: "placed_ok isPlayer w" using removed.IH by (simp add: world_ok_def)
  obtain w1 where "node_removeCreature isPlayer c (position w c) w = Some w1" "placed_ok isPlayer w1"
    by (rule remove_ok [OF p removed.hyps(2)])
  then show ?case using removed.hyps(3) cleared_ok by (auto simp: tile_removeCreature_def)
next
  case (cleared w)
  then show ?case by (intro cleared_ok) (simp add: world_ok_def)
next
  case (asked w center multifloor onlyPlayers given cs w')
  show ?case
  proof (cases "unat (posz center) < MAP_MAX_LAYERS")
    case True
    show ?thesis by (rule getSpectators_eq(5) [OF asked.IH asked.hyps(2) True]) simp
  next
    case False
    then show ?thesis using asked by (simp add: getSpectators_def not_less)
  qed
qed

text \<open>C27: the search for spectators is exact. In every reachable world, walking the leaves by their links, clamped to the map, and answering
  from the two caches gives the creatures on the map that are in view, and no others: those of the right kind whose floor lies in the range and
  whose coordinates lie in the rectangle shifted by the difference of floors.\<close>

theorem spectators_exact:
  assumes "map_reach isPlayer w" and "unat (posz center) < MAP_MAX_LAYERS"
  shows "fst (getSpectators isPlayer center multifloor onlyPlayers given {} w) =
    {c. on_map w c \<and> (onlyPlayers \<longrightarrow> isPlayer c) \<and> in_view w center (range_of center multifloor given) c}"
proof -
  obtain cs w' where g: "getSpectators isPlayer center multifloor onlyPlayers given {} w = (cs, w')" by fastforce
  show ?thesis using getSpectators_eq(1) [OF map_reach_ok [OF assms(1)] g assms(2)] g by (simp add: viewers_def)
qed

text \<open>C28: a creature moves. From every reachable world the move of a creature on the map to a tile returns (no leaf is missing, the creature is
  found in its leaf's list), tells exactly those who see the old or the new position, changes the position of this creature and of no other,
  keeps everybody on the map, and turns the creature the way it stepped, sideways first.\<close>

theorem move_reaches_all_viewers:
  assumes "map_reach isPlayer w" and "on_map w c" and "tile_at w newPos = Some newTile"
  shows "\<exists>teleport w'. moveCreature isPlayer ground c newPos newTile forceTeleport w =
      Some ({d. on_map w d \<and> (in_view w (position w c) (default_range (position w c)) d \<or> in_view w newPos (default_range newPos) d)}, teleport, w')
    \<and> map_reach isPlayer w' \<and> (\<forall>d. on_map w' d \<longleftrightarrow> on_map w d) \<and> position w' = (position w)(c := newPos)
    \<and> (\<not> forceTeleport \<and> ground newTile \<and> areInRange3 1 1 0 (position w c) newPos \<longrightarrow> direction w' c = turned (position w c) newPos (direction w c))"
proof -
  have "viewers isPlayer w False (position w c) (default_range (position w c)) \<union> viewers isPlayer w False newPos (default_range newPos) =
      {d. on_map w d \<and> (in_view w (position w c) (default_range (position w c)) d \<or> in_view w newPos (default_range newPos) d)}"
    by (auto simp: viewers_def)
  moreover obtain teleport w' where "moveCreature isPlayer ground c newPos newTile forceTeleport w =
      Some (viewers isPlayer w False (position w c) (default_range (position w c)) \<union> viewers isPlayer w False newPos (default_range newPos), teleport, w')"
    and rest: "\<forall>d. on_map w' d \<longleftrightarrow> on_map w d" "position w' = (position w)(c := newPos)"
      "\<not> forceTeleport \<and> ground newTile \<and> areInRange3 1 1 0 (position w c) newPos \<longrightarrow> direction w' c = turned (position w c) newPos (direction w c)"
    using moveCreature_ok [OF map_reach_ok [OF assms(1)] assms(2,3), of ground forceTeleport] by blast
  ultimately have m: "moveCreature isPlayer ground c newPos newTile forceTeleport w =
      Some ({d. on_map w d \<and> (in_view w (position w c) (default_range (position w c)) d \<or> in_view w newPos (default_range newPos) d)}, teleport, w')"
    by simp
  show ?thesis
    by (intro exI [of _ teleport] exI [of _ w'] conjI m map_reach.moved [OF assms m] rest)
qed

text \<open>A list that is not empty is stored as it is: the cache then answers with creatures that do not see the position. \<open>moveCreature\<close>, which
  collects two positions in one list, clears the caches right afterwards; \<open>Monster::convinceCreature\<close> does not.\<close>

lemma second_position_pollutes:
  assumes "world_ok isPlayer w" and "unat (posz p) < MAP_MAX_LAYERS" and "spectatorCache w p = None"
    and "getSpectators isPlayer p True False (0, 0, 0, 0) found w = (cs, w')"
  shows "fst (getSpectators isPlayer p True False (0, 0, 0, 0) {} w') = found \<union> viewers isPlayer w False p (default_range p)"
proof -
  have r: "range_of p True (0, 0, 0, 0) = default_range p" by (simp add: range_of_def default_range_def split: prod.splits)
  have c: "cacheable True (default_range p)" by (simp add: cacheable_def default_range_def split: prod.splits)
  have "w' = w\<lparr>spectatorCache := (spectatorCache w)(p \<mapsto> found \<union> viewers isPlayer w False p (default_range p))\<rparr>"
    using assms getSpectatorsInternal_eq [of isPlayer w p "default_range p" False found]
    by (auto simp: getSpectators_def r c cached_list_def world_ok_def Let_def)
  then show ?thesis using assms(2) by (simp add: getSpectators_def r c cached_list_def Let_def)
qed

text \<open>A player steps from one stone to the next, across the border of two leaves.\<close>

definition easy :: "string place_env" where
  "easy = \<lparr>pe_queryAdd = \<lambda>_ _. RETURNVALUE_NOERROR, pe_protectionZone = \<lambda>_. False, pe_sightClear = \<lambda>_ _. True, pe_shuffle = id,
     pe_destination = id\<rparr>"

lemma set_tile_returns:
  assumes "world_ok isPlayer w" and "unat (posz p) < MAP_MAX_LAYERS"
  obtains w' where "set_tile merge p t w = Some w'" "tile_at w' p = Some (case tile_at w p of None \<Rightarrow> t | Some old \<Rightarrow> merge old t)" "\<And>q. tile_at w q \<noteq> None \<Longrightarrow> tile_at w' q \<noteq> None"
proof -
  have "map_ok (tiles w)" using assms by (simp add: world_ok_def placed_ok_def)
  from setTile_refines_update [OF this, of merge "posx p" "posy p" "posz p" t]
  obtain m' where m': "setTile merge (posx p) (posy p) (posz p) t (tiles w) = Some m'"
    "\<And>x y z. getTile m' x y z = (if unat (posz p) < MAP_MAX_LAYERS \<and> (x, y, z) = (posx p, posy p, posz p)
      then Some (case getTile (tiles w) (posx p) (posy p) (posz p) of None \<Rightarrow> t | Some old \<Rightarrow> merge old t) else getTile (tiles w) x y z)"
    by blast
  show thesis
    by (rule that [of "w\<lparr>tiles := m'\<rparr>"]) (use m' assms(2) in \<open>auto simp: set_tile_def tile_at_def\<close>)
qed

lemma stepping_stones:
  obtains w :: "string world" where "map_reach (\<lambda>_. True) w" "on_map w 5" "position w 5 = Position 103 99 7" "tile_at w (Position 104 99 7) = Some ''stone''"
proof -
  let ?a = "Position 103 99 7" and ?b = "Position 104 99 7" and ?P = "\<lambda>_ :: nat. True"
  have z: "unat (posz ?a) < MAP_MAX_LAYERS" "unat (posz ?b) < MAP_MAX_LAYERS" by (simp_all add: MAP_MAX_LAYERS_def)
  have r0: "map_reach ?P (new_world :: string world)" by (rule map_reach.start)
  obtain w1 :: "string world" where w1: "set_tile (\<lambda>a b. a) ?a ''stone'' new_world = Some w1" "tile_at w1 ?a = Some (case tile_at new_world ?a of None \<Rightarrow> ''stone'' | Some old \<Rightarrow> old)"
    by (rule set_tile_returns [OF new_world_ok [of ?P] z(1)])
  have r1: "map_reach ?P w1" by (rule map_reach.tiled [OF r0 w1(1)])
  obtain w2 where w2: "set_tile (\<lambda>a b. a) ?b ''stone'' w1 = Some w2" "tile_at w2 ?a \<noteq> None"
    by (rule set_tile_returns [OF map_reach_ok [OF r1] z(2), of "\<lambda>a b. a" "''stone''"]) (use w1(2) in blast)
  have r2: "map_reach ?P w2" by (rule map_reach.tiled [OF r1 w2(1)])
  have "\<not> on_map (new_world :: string world) 5"
    using listed_on_map [of ?P "new_world :: string world" 5] new_world_ok [of ?P] by (auto simp: world_ok_def listed_def new_world_def empty_map_def)
  then have n: "\<not> on_map w2 5"
    using set_tile_ok(2) [OF new_world_ok [of ?P] w1(1)] set_tile_ok(2) [OF map_reach_ok [OF r1] w2(1)] by blast
  have d: "\<forall>p. tile_at w2 p \<noteq> None \<longrightarrow> tile_at w2 (pe_destination easy p) \<noteq> None" by (simp add: easy_def)
  have f: "find_place easy ?a False False w2 = Some ?a" using w2(2) by (auto simp: find_place_def easy_def)
  obtain ok w3 where w3: "placeCreature easy ?P ?a 5 False False w2 = Some (ok, w3)" "on_map w3 5" "position w3 5 = ?a"
    using placeCreature_ok [OF map_reach_ok [OF r2] n d, of ?a False False] f by (auto simp: easy_def)
  have r3: "map_reach ?P w3" by (rule map_reach.placed [OF r2 n d w3(1)])
  obtain w4 where w4: "set_tile (\<lambda>a b. b) ?b ''stone'' w3 = Some w4" "tile_at w4 ?b = Some ''stone''"
    by (rule set_tile_returns [OF map_reach_ok [OF r3] z(2), of "\<lambda>a b. b" "''stone''"]) (auto split: option.splits)
  have "map_reach ?P w4" by (rule map_reach.tiled [OF r3 w4(1)])
  then show thesis
    using that set_tile_ok(2,3) [OF map_reach_ok [OF r3] w4(1)] w3(2,3) w4(2) by metis
qed

theorem spectators_exact_witness:
  "\<exists>w :: string world. 5 \<in> fst (getSpectators (\<lambda>_. True) (Position 110 99 7) True True (0, 0, 0, 0) {} w)
     \<and> 5 \<notin> fst (getSpectators (\<lambda>_. True) (Position 115 99 7) True True (0, 0, 0, 0) {} w)"
proof -
  obtain w :: "string world" where w: "map_reach (\<lambda>_. True) w" "on_map w 5" "position w 5 = Position 103 99 7" by (rule stepping_stones)
  have z: "unat (posz (Position x 99 7)) < MAP_MAX_LAYERS" for x by (simp add: MAP_MAX_LAYERS_def)
  have v: "in_view w (Position 110 99 7) (range_of (Position 110 99 7) True (0, 0, 0, 0)) 5"
    "\<not> in_view w (Position 115 99 7) (range_of (Position 115 99 7) True (0, 0, 0, 0)) 5"
    by (simp_all add: in_view_def w(3) range_of_def floors_seen_def getX_def getY_def getZ_def getOffsetZ_def maxViewportX_def maxViewportY_def)
  show ?thesis
    by (intro exI [of _ w]) (simp add: spectators_exact [OF w(1) z] v w(2))
qed

theorem move_reaches_all_viewers_witness:
  "\<exists>(w :: string world) teleport w'. moveCreature (\<lambda>_. True) (\<lambda>_. True) 5 (Position 104 99 7) ''stone'' False w =
      Some ({d. on_map w d \<and> (in_view w (position w 5) (default_range (position w 5)) d
        \<or> in_view w (Position 104 99 7) (default_range (Position 104 99 7)) d)}, teleport, w')
    \<and> direction w' 5 = DIRECTION_EAST"
proof -
  let ?P = "\<lambda>_ :: nat. True"
  obtain w :: "string world" where w: "map_reach ?P w" "on_map w 5" "position w 5 = Position 103 99 7" "tile_at w (Position 104 99 7) = Some ''stone''"
    by (rule stepping_stones)
  obtain teleport w' where m: "moveCreature ?P (\<lambda>_. True) 5 (Position 104 99 7) ''stone'' False w =
      Some ({d. on_map w d \<and> (in_view w (position w 5) (default_range (position w 5)) d
        \<or> in_view w (Position 104 99 7) (default_range (Position 104 99 7)) d)}, teleport, w')"
    "\<not> False \<and> True \<and> areInRange3 1 1 0 (position w 5) (Position 104 99 7) \<longrightarrow>
       direction w' 5 = turned (position w 5) (Position 104 99 7) (direction w 5)"
    using move_reaches_all_viewers [OF w(1,2,4), of "\<lambda>_. True" False] by blast
  moreover have "areInRange3 1 1 0 (position w 5) (Position 104 99 7)"
    by (simp add: w(3) areInRange3_def getDistanceX_def getDistanceY_def getDistanceZ_def getOffsetX_def getOffsetY_def getOffsetZ_def
        getX_def getY_def getZ_def)
  moreover have "turned (position w 5) (Position 104 99 7) d = DIRECTION_EAST" for d by (simp add: w(3) turned_def)
  ultimately show ?thesis by (intro exI [of _ w] exI [of _ teleport] exI [of _ w']) simp
qed

end
