(* ===== verification/Map_Sight.thy ===== *)
theory Map_Sight
  imports Map_Spectators
begin

section \<open>Lines of sight\<close>

text \<open>
  \<open>Map::canThrowObjectTo\<close>, \<open>checkSightLine\<close> and \<open>isSightClear\<close> (src/src/map.cpp). A sight line is a walk from one square to the other that
  stays close to the straight line \<open>A x + B y + C = 0\<close>; both loops are partial functions, shown to return. The coordinates are integers: the
  walk stays between the two end points, so the 16-bit fields do not wrap. The products are 32-bit integers in the code; they do not overflow
  for squares less than 8192 apart (\<open>sight_no_overflow\<close>), and the callers' ranges are the screen's.
\<close>

definition sight_next :: "int \<Rightarrow> int \<Rightarrow> int \<Rightarrow> int \<Rightarrow> int \<Rightarrow> int \<times> int \<Rightarrow> int \<times> int \<Rightarrow> int \<times> int" where
  "sight_next mx my A B C d s =
     (case s of (x, y) \<Rightarrow>
      let move_hor = \<bar>A * (x + mx) + B * y + C\<bar>;
          move_ver = \<bar>A * x + B * (y + my) + C\<bar>;
          move_cross = \<bar>A * (x + mx) + B * (y + my) + C\<bar>;
          y = (if y \<noteq> snd d \<and> (x = fst d \<or> move_hor > move_ver \<or> move_hor > move_cross) then y + my else y);
          x = (if x \<noteq> fst d \<and> (y = snd d \<or> move_ver > move_hor \<or> move_ver > move_cross) then x + mx else x)
      in (x, y))"

partial_function (option) sight_steps :: "(int \<times> int \<Rightarrow> bool) \<Rightarrow> (int \<times> int \<Rightarrow> int \<times> int) \<Rightarrow> int \<times> int \<Rightarrow> int \<times> int \<Rightarrow> bool option" where
  "sight_steps blocked step d s =
     (if s = d then Some True
      else let s = step s in if blocked s then Some False else sight_steps blocked step d s)"

partial_function (option) sight_floors :: "(nat \<Rightarrow> bool) \<Rightarrow> nat \<Rightarrow> nat \<Rightarrow> bool option" where
  "sight_floors full z zend =
     (if z = zend then Some True else if full z then Some False else sight_floors full (Suc z) zend)"

definition tile_xy :: "'t tile_map \<Rightarrow> int \<times> int \<Rightarrow> nat \<Rightarrow> 't option" where
  "tile_xy m s z = getTile m (word_of_int (fst s)) (word_of_int (snd s)) (of_nat z)"

text \<open>\<open>stops\<close> is \<open>hasProperty(CONST_PROP_BLOCKPROJECTILE)\<close> and \<open>full\<close> is \<open>getThingCount() > 0\<close>.\<close>

definition checkSightLine :: "('t \<Rightarrow> bool) \<Rightarrow> ('t \<Rightarrow> bool) \<Rightarrow> 't tile_map \<Rightarrow> Position \<Rightarrow> Position \<Rightarrow> bool option" where
  "checkSightLine stops full m fromPos toPos =
     (if fromPos = toPos then Some True
      else
        let start = (if getZ fromPos > getZ toPos then toPos else fromPos);
            destination = (if getZ fromPos > getZ toPos then fromPos else toPos);
            mx = (if getX start < getX destination then 1 else if getX start = getX destination then 0 else -1);
            my = (if getY start < getY destination then 1 else if getY start = getY destination then 0 else -1);
            A = getOffsetY destination start;
            B = getOffsetX start destination;
            C = - (A * getX destination + B * getY destination);
            d = (getX destination, getY destination)
        in Option.bind (sight_steps (\<lambda>s. case tile_xy m s (unat (posz start)) of None \<Rightarrow> False | Some t \<Rightarrow> stops t)
               (sight_next mx my A B C d) d (getX start, getY start))
             (\<lambda>ok. if ok then sight_floors (\<lambda>z. case tile_xy m d z of None \<Rightarrow> False | Some t \<Rightarrow> full t)
                            (unat (posz start)) (unat (posz destination))
                   else Some False))"

definition isSightClear :: "('t \<Rightarrow> bool) \<Rightarrow> ('t \<Rightarrow> bool) \<Rightarrow> 't tile_map \<Rightarrow> bool \<Rightarrow> Position \<Rightarrow> Position \<Rightarrow> bool option" where
  "isSightClear stops full m floorCheck fromPos toPos =
     (if floorCheck \<and> getZ fromPos \<noteq> getZ toPos then Some False
      else Option.bind (checkSightLine stops full m fromPos toPos) (\<lambda>ok.
        if ok then Some True else checkSightLine stops full m toPos fromPos))"

definition canThrowObjectTo :: "('t \<Rightarrow> bool) \<Rightarrow> ('t \<Rightarrow> bool) \<Rightarrow> 't tile_map \<Rightarrow> bool \<Rightarrow> int \<Rightarrow> int \<Rightarrow> Position \<Rightarrow> Position \<Rightarrow> bool option" where
  "canThrowObjectTo stops full m checkLineOfSight rangex rangey fromPos toPos =
     (if getZ fromPos \<ge> 8 \<and> getZ toPos < 8 \<or> getZ toPos \<ge> 8 \<and> getZ fromPos < 8 then Some False
      else
        let deltaz = getDistanceZ fromPos toPos
        in if deltaz > 2 then Some False
           else if getDistanceX fromPos toPos - deltaz > rangex then Some False
           else if getDistanceY fromPos toPos - deltaz > rangey then Some False
           else if \<not> checkLineOfSight then Some True
           else isSightClear stops full m False fromPos toPos)"

subsection \<open>The walk\<close>

text \<open>The line's parameters, for the two end points.\<close>

definition dir_sgn :: "int \<Rightarrow> int \<Rightarrow> int" where
  "dir_sgn a b = (if a < b then 1 else if a = b then 0 else -1)"

definition walk_next :: "int \<times> int \<Rightarrow> int \<times> int \<Rightarrow> int \<times> int \<Rightarrow> int \<times> int" where
  "walk_next s d = sight_next (dir_sgn (fst s) (fst d)) (dir_sgn (snd s) (snd d)) (snd d - snd s) (fst s - fst d)
     (- ((snd d - snd s) * fst d + (fst s - fst d) * snd d)) d"

definition between :: "int \<Rightarrow> int \<Rightarrow> int \<Rightarrow> bool" where
  "between a b c \<longleftrightarrow> a \<le> b \<and> b \<le> c \<or> c \<le> b \<and> b \<le> a"

text \<open>When both coordinates differ from the destination's, the step never leaves both unchanged: if moving along either axis misses the line
  by the same amount, moving along both misses it by less.\<close>

lemma walk_progress:
  fixes f u v :: int
  assumes "0 < u \<and> v < 0 \<or> u < 0 \<and> 0 < v" and "\<bar>f + u\<bar> = \<bar>f + v\<bar>"
  shows "\<bar>f + (u + v)\<bar> < \<bar>f + u\<bar>"
  using assms by linarith

definition span :: "int \<times> int \<Rightarrow> int \<times> int \<Rightarrow> nat" where
  "span d p = nat (\<bar>fst d - fst p\<bar> + \<bar>snd d - snd p\<bar>)"

lemma walk_next_step:
  assumes "between (fst s) (fst p) (fst d)" and "between (snd s) (snd p) (snd d)" and "p \<noteq> d"
  defines "q \<equiv> walk_next s d p"
  shows "between (fst p) (fst q) (fst d)" and "between (snd p) (snd q) (snd d)" and "q \<noteq> p"
    and "\<bar>fst q - fst p\<bar> \<le> 1" and "\<bar>snd q - snd p\<bar> \<le> 1"
proof -
  obtain x y where p: "p = (x, y)" by (cases p)
  obtain x1 y1 where d: "d = (x1, y1)" by (cases d)
  obtain x0 y0 where s: "s = (x0, y0)" by (cases s)
  let ?mx = "dir_sgn x0 x1" and ?my = "dir_sgn y0 y1"
  define A B where "A = y1 - y0" and "B = x0 - x1"
  define f where "f = A * x + B * y - (A * x1 + B * y1)"
  have e: "A * (x + ?mx) + B * y + - (A * x1 + B * y1) = f + A * ?mx" "A * x + B * (y + ?my) + - (A * x1 + B * y1) = f + B * ?my"
    "A * (x + ?mx) + B * (y + ?my) + - (A * x1 + B * y1) = f + (A * ?mx + B * ?my)"
    by (simp_all add: f_def algebra_simps)
  define gy gx where "gy \<longleftrightarrow> y \<noteq> y1 \<and> (x = x1 \<or> \<bar>f + A * ?mx\<bar> > \<bar>f + B * ?my\<bar> \<or> \<bar>f + A * ?mx\<bar> > \<bar>f + (A * ?mx + B * ?my)\<bar>)"
    and "gx \<longleftrightarrow> x \<noteq> x1 \<and> ((if gy then y + ?my else y) = y1 \<or> \<bar>f + B * ?my\<bar> > \<bar>f + A * ?mx\<bar> \<or> \<bar>f + B * ?my\<bar> > \<bar>f + (A * ?mx + B * ?my)\<bar>)"
  have q: "q = (if gx then x + ?mx else x, if gy then y + ?my else y)"
    unfolding q_def walk_next_def s d p sight_next_def fst_conv snd_conv prod.case Let_def A_def [symmetric] B_def [symmetric] e
    by (simp add: gy_def gx_def)
  have bx: "between x0 x x1" and b_y: "between y0 y y1" using assms(1,2) by (simp_all add: s p d)
  have mx: "between x (x + ?mx) x1 \<and> ?mx \<noteq> 0 \<and> \<bar>?mx\<bar> = 1" if "x \<noteq> x1" using bx that by (auto simp: between_def dir_sgn_def)
  have my: "between y (y + ?my) y1 \<and> ?my \<noteq> 0 \<and> \<bar>?my\<bar> = 1" if "y \<noteq> y1" using b_y that by (auto simp: between_def dir_sgn_def)
  have "gx \<or> gy"
  proof (cases "x = x1 \<or> y = y1")
    case True
    then show ?thesis using assms(3) by (auto simp: gx_def gy_def p d)
  next
    case False
    then have ne: "x0 \<noteq> x1" "y0 \<noteq> y1" using bx b_y by (auto simp: between_def)
    have "0 < A * ?mx \<and> B * ?my < 0 \<or> A * ?mx < 0 \<and> 0 < B * ?my"
      using ne by (auto simp: A_def B_def dir_sgn_def)
    then have "\<bar>f + A * ?mx\<bar> = \<bar>f + B * ?my\<bar> \<Longrightarrow> \<bar>f + (A * ?mx + B * ?my)\<bar> < \<bar>f + A * ?mx\<bar>"
      by (rule walk_progress)
    then show ?thesis using False unfolding gx_def gy_def by linarith
  qed
  then show "q \<noteq> p" using mx my by (auto simp: q p gx_def gy_def)
  have refl: "between x x x1" "between y y y1" by (auto simp: between_def)
  show "between (fst p) (fst q) (fst d)" using mx refl by (auto simp: q p d gx_def)
  show "between (snd p) (snd q) (snd d)" using my refl by (auto simp: q p d gy_def)
  show "\<bar>fst q - fst p\<bar> \<le> 1" using mx by (auto simp: q p gx_def)
  show "\<bar>snd q - snd p\<bar> \<le> 1" using my by (auto simp: q p gy_def)
qed

lemma span_less: "between (fst p) (fst q) (fst d) \<Longrightarrow> between (snd p) (snd q) (snd d) \<Longrightarrow> q \<noteq> p \<Longrightarrow> span d q < span d p"
  unfolding span_def between_def by (cases p; cases q; cases d) auto

definition king_walk :: "(int \<times> int) list \<Rightarrow> bool" where
  "king_walk ps \<longleftrightarrow> (\<forall>i. Suc i < length ps \<longrightarrow> \<bar>fst (ps ! Suc i) - fst (ps ! i)\<bar> \<le> 1 \<and> \<bar>snd (ps ! Suc i) - snd (ps ! i)\<bar> \<le> 1)"

lemma king_walk_Cons:
  "king_walk (p # q # ps) \<longleftrightarrow> \<bar>fst q - fst p\<bar> \<le> 1 \<and> \<bar>snd q - snd p\<bar> \<le> 1 \<and> king_walk (q # ps)"
  unfolding king_walk_def by (auto simp: less_Suc_eq_0_disj)

lemma between_trans: "between a b c \<Longrightarrow> between b e c \<Longrightarrow> between a e c"
  by (auto simp: between_def)

lemma sight_steps_walk:
  assumes "between (fst s) (fst p) (fst d)" and "between (snd s) (snd p) (snd d)"
  shows "\<exists>ps. (\<forall>blocked. sight_steps blocked (walk_next s d) d p = Some (\<forall>q\<in>set ps. \<not> blocked q))
    \<and> king_walk (p # ps) \<and> last (p # ps) = d \<and> length ps \<le> span d p
    \<and> (\<forall>q\<in>set ps. between (fst p) (fst q) (fst d) \<and> between (snd p) (snd q) (snd d))"
  using assms
proof (induction "span d p" arbitrary: p rule: less_induct)
  case less
  show ?case
  proof (cases "p = d")
    case True
    then show ?thesis by (intro exI [of _ "[]"]) (simp add: sight_steps.simps king_walk_def)
  next
    case False
    let ?q = "walk_next s d p"
    note st = walk_next_step [OF less.prems False]
    have sp: "span d ?q < span d p" by (rule span_less [OF st(1-3)])
    obtain ps where ps: "\<forall>blocked. sight_steps blocked (walk_next s d) d ?q = Some (\<forall>q\<in>set ps. \<not> blocked q)"
      "king_walk (?q # ps)" "last (?q # ps) = d" "length ps \<le> span d ?q"
      "\<forall>q\<in>set ps. between (fst ?q) (fst q) (fst d) \<and> between (snd ?q) (snd q) (snd d)"
      using less.hyps [OF sp between_trans [OF less.prems(1) st(1)] between_trans [OF less.prems(2) st(2)]] by blast
    show ?thesis
    proof (intro exI [of _ "?q # ps"] conjI allI)
      show "sight_steps blocked (walk_next s d) d p = Some (\<forall>q\<in>set (?q # ps). \<not> blocked q)" for blocked
        using ps(1) False by (subst sight_steps.simps) (simp add: Let_def)
      show "king_walk (p # ?q # ps)" using ps(2) st(4,5) by (simp add: king_walk_Cons)
      show "\<forall>q\<in>set (?q # ps). between (fst p) (fst q) (fst d) \<and> between (snd p) (snd q) (snd d)"
        using ps(5) st(1,2) between_trans by (metis set_ConsD)
    qed (use ps(3,4) sp in simp_all)
  qed
qed

lemma sight_floors_eq: "z \<le> zend \<Longrightarrow> sight_floors full z zend = Some (\<forall>i. z \<le> i \<and> i < zend \<longrightarrow> \<not> full i)"
proof (induction "zend - z" arbitrary: z)
  case 0
  then have "z = zend" by simp
  then show ?case by (subst sight_floors.simps) auto
next
  case (Suc n)
  then have "sight_floors full (Suc z) zend = Some (\<forall>i. Suc z \<le> i \<and> i < zend \<longrightarrow> \<not> full i)" by auto
  moreover have "(\<forall>i. z \<le> i \<and> i < zend \<longrightarrow> \<not> full i) \<longleftrightarrow> \<not> full z \<and> (\<forall>i. Suc z \<le> i \<and> i < zend \<longrightarrow> \<not> full i)"
  proof -
    have "z \<le> i \<longleftrightarrow> i = z \<or> Suc z \<le> i" for i by linarith
    moreover have "z < zend" using Suc by linarith
    ultimately show ?thesis by metis
  qed
  moreover have "z \<noteq> zend" using Suc by auto
  ultimately show ?case by (subst sight_floors.simps) simp
qed

lemma sight_no_overflow:
  fixes x y :: int
  assumes "0 \<le> x" "x \<le> 65536" "0 \<le> y" "y \<le> 65536" "0 \<le> x1" "x1 \<le> 65536" "0 \<le> y1" "y1 \<le> 65536" "\<bar>A\<bar> < 8192" "\<bar>B\<bar> < 8192"
  shows "\<bar>A * x + B * y\<bar> < 2 ^ 31" and "\<bar>A * x1 + B * y1\<bar> < 2 ^ 31" and "\<bar>A * x + B * y - (A * x1 + B * y1)\<bar> < 2 ^ 31"
proof -
  have m: "\<bar>a * u\<bar> \<le> 8191 * 65536" if "\<bar>a\<bar> < 8192" "\<bar>u\<bar> \<le> 65536" for a u :: int
    unfolding abs_mult by (rule mult_mono) (use that in auto)
  have "\<bar>A * x\<bar> \<le> 8191 * 65536" "\<bar>B * y\<bar> \<le> 8191 * 65536" "\<bar>A * x1\<bar> \<le> 8191 * 65536" "\<bar>B * y1\<bar> \<le> 8191 * 65536"
    using m assms by auto
  then show "\<bar>A * x + B * y\<bar> < 2 ^ 31" "\<bar>A * x1 + B * y1\<bar> < 2 ^ 31" "\<bar>A * x + B * y - (A * x1 + B * y1)\<bar> < 2 ^ 31"
    by (simp_all add: abs_le_iff abs_less_iff)
qed

definition xy :: "Position \<Rightarrow> int \<times> int" where
  "xy p = (getX p, getY p)"

lemma checkSightLine_walk:
  fixes fromPos toPos :: Position
  defines "start \<equiv> (if getZ fromPos > getZ toPos then toPos else fromPos)"
  defines "dest \<equiv> (if getZ fromPos > getZ toPos then fromPos else toPos)"
  shows "\<exists>ps. king_walk (xy start # ps) \<and> last (xy start # ps) = xy dest
    \<and> int (length ps) \<le> getDistanceX fromPos toPos + getDistanceY fromPos toPos
    \<and> (\<forall>q\<in>set ps. between (getX start) (fst q) (getX dest) \<and> between (getY start) (snd q) (getY dest))
    \<and> (\<forall>(stops :: 't \<Rightarrow> bool) full m. checkSightLine stops full m fromPos toPos =
        Some ((\<forall>q\<in>set ps. \<not> (\<exists>t. tile_xy m q (unat (posz start)) = Some t \<and> stops t))
          \<and> (\<forall>z. unat (posz start) \<le> z \<and> z < unat (posz dest) \<longrightarrow> \<not> (\<exists>t. tile_xy m (xy dest) z = Some t \<and> full t))))"
proof (cases "fromPos = toPos")
  case True
  then show ?thesis
    by (intro exI [of _ "[]"]) (auto simp: checkSightLine_def king_walk_def start_def dest_def getDistanceX_def getDistanceY_def getOffsetX_def getOffsetY_def)
next
  case False
  have b: "between (fst (xy start)) (fst (xy start)) (fst (xy dest))" "between (snd (xy start)) (snd (xy start)) (snd (xy dest))"
    by (auto simp: between_def)
  obtain ps where ps: "\<forall>blocked. sight_steps blocked (walk_next (xy start) (xy dest)) (xy dest) (xy start) = Some (\<forall>q\<in>set ps. \<not> blocked q)"
    "king_walk (xy start # ps)" "last (xy start # ps) = xy dest" "length ps \<le> span (xy dest) (xy start)"
    "\<forall>q\<in>set ps. between (fst (xy start)) (fst q) (fst (xy dest)) \<and> between (snd (xy start)) (snd q) (snd (xy dest))"
    using sight_steps_walk [OF b] by blast
  have z: "unat (posz start) \<le> unat (posz dest)"
    by (auto simp: start_def dest_def getZ_def word_le_nat_alt [symmetric] word_less_def word_le_def)
  have "checkSightLine stops full m fromPos toPos =
      Some ((\<forall>q\<in>set ps. \<not> (\<exists>t. tile_xy m q (unat (posz start)) = Some t \<and> stops t))
          \<and> (\<forall>z. unat (posz start) \<le> z \<and> z < unat (posz dest) \<longrightarrow> \<not> (\<exists>t. tile_xy m (xy dest) z = Some t \<and> full t)))" for stops :: "'t \<Rightarrow> bool" and full m
  proof -
    have w: "sight_next (if getX start < getX dest then 1 else if getX start = getX dest then 0 else -1)
        (if getY start < getY dest then 1 else if getY start = getY dest then 0 else -1)
        (getOffsetY dest start) (getOffsetX start dest) (- (getOffsetY dest start * getX dest + getOffsetX start dest * getY dest)) (xy dest)
      = walk_next (xy start) (xy dest)"
      by (simp add: walk_next_def dir_sgn_def xy_def getOffsetX_def getOffsetY_def)
    have s: "(case tile_xy m q z of None \<Rightarrow> False | Some t \<Rightarrow> P t) \<longleftrightarrow> (\<exists>t. tile_xy m q z = Some t \<and> P t)" for q z P
      by (simp split: option.splits)
    show ?thesis
      unfolding checkSightLine_def Let_def start_def [symmetric] dest_def [symmetric] xy_def [symmetric] w s if_not_P [OF False]
      by (simp add: ps(1) sight_floors_eq [OF z])
  qed
  moreover have "int (length ps) \<le> getDistanceX fromPos toPos + getDistanceY fromPos toPos"
    using ps(4) by (auto simp: span_def xy_def start_def dest_def getDistanceX_def getDistanceY_def getOffsetX_def getOffsetY_def split: if_splits)
  ultimately show ?thesis using ps(2,3,5) by (intro exI [of _ ps] conjI allI) (simp_all add: xy_def)
qed

lemma checkSightLine_returns: "\<exists>b. checkSightLine stops full m fromPos toPos = Some b"
  using checkSightLine_walk [where fromPos = fromPos and toPos = toPos] by blast

lemma isSightClear_returns: "\<exists>b. isSightClear stops full m floorCheck fromPos toPos = Some b"
  using checkSightLine_returns [of stops full m fromPos toPos] checkSightLine_returns [of stops full m toPos fromPos]
  by (auto simp: isSightClear_def)

text \<open>C29: a line of sight is a walk. \<open>checkSightLine\<close> returns for all positions: there are squares, fixed by the two positions alone, that lead
  from the higher position's square to the other one in steps of at most one square per axis, never leave the rectangle between them, end at
  the destination and are at most as many as the two distances together; the answer is whether no tile on them stops projectiles and no tile
  at the destination's column, from the upper floor to the lower, carries anything.\<close>

theorem sight_line_is_a_walk:
  "let start = (if getZ fromPos > getZ toPos then toPos else fromPos); dest = (if getZ fromPos > getZ toPos then fromPos else toPos) in
     \<exists>ps. king_walk (xy start # ps) \<and> last (xy start # ps) = xy dest
       \<and> int (length ps) \<le> getDistanceX fromPos toPos + getDistanceY fromPos toPos
       \<and> (\<forall>q\<in>set ps. between (getX start) (fst q) (getX dest) \<and> between (getY start) (snd q) (getY dest))
       \<and> (\<forall>(stops :: 't \<Rightarrow> bool) full m. checkSightLine stops full m fromPos toPos =
           Some ((\<forall>q\<in>set ps. \<not> (\<exists>t. tile_xy m q (unat (posz start)) = Some t \<and> stops t))
             \<and> (\<forall>z. unat (posz start) \<le> z \<and> z < unat (posz dest) \<longrightarrow> \<not> (\<exists>t. tile_xy m (xy dest) z = Some t \<and> full t))))"
  unfolding Let_def by (rule checkSightLine_walk)

theorem sight_line_is_a_walk_witness:
  "(\<exists>ps. king_walk ((100, 100) # ps) \<and> last ((100, 100) # ps) = (103, 101) \<and> length ps \<le> 4)
   \<and> checkSightLine (\<lambda>_ :: unit. True) (\<lambda>_. True) empty_map (Position 100 100 7) (Position 103 101 7) = Some True"
proof -
  have none: "tile_xy empty_map q z = None" for q z
    by (simp add: tile_xy_def empty_map_def getTile_def getLeafStatic.simps)
  have d: "getX (Position 100 100 7) = 100" "getY (Position 100 100 7) = 100" "getZ (Position 100 100 7) = 7"
    "getX (Position 103 101 7) = 103" "getY (Position 103 101 7) = 101" "getZ (Position 103 101 7) = 7"
    "getDistanceX (Position 100 100 7) (Position 103 101 7) = 3" "getDistanceY (Position 100 100 7) (Position 103 101 7) = 1"
    by (simp_all add: getX_def getY_def getZ_def getDistanceX_def getDistanceY_def getOffsetX_def getOffsetY_def)
  let ?s = "Position 100 100 7" and ?d = "Position 103 101 7"
  have e: "(if getZ ?s > getZ ?d then ?d else ?s) = ?s" "(if getZ ?s > getZ ?d then ?s else ?d) = ?d" by (simp_all add: d)
  from sight_line_is_a_walk [where fromPos = ?s and toPos = ?d and 't = unit, unfolded Let_def e]
  obtain ps where ps: "king_walk (xy ?s # ps)" "last (xy ?s # ps) = xy ?d" "int (length ps) \<le> getDistanceX ?s ?d + getDistanceY ?s ?d"
    and line: "\<forall>(stops :: unit \<Rightarrow> bool) full m. checkSightLine stops full m ?s ?d =
        Some ((\<forall>q\<in>set ps. \<not> (\<exists>t. tile_xy m q (unat (posz ?s)) = Some t \<and> stops t))
          \<and> (\<forall>z. unat (posz ?s) \<le> z \<and> z < unat (posz ?d) \<longrightarrow> \<not> (\<exists>t. tile_xy m (xy ?d) z = Some t \<and> full t)))"
    by blast
  have "checkSightLine (\<lambda>_ :: unit. True) (\<lambda>_. True) empty_map ?s ?d = Some True" unfolding line [rule_format] none by simp
  moreover have "king_walk ((100, 100) # ps)" "last ((100, 100) # ps) = (103, 101)" "length ps \<le> 4" using ps by (simp_all add: d xy_def)
  ultimately show ?thesis by blast
qed

text \<open>Seeing and throwing are mutual. Whatever the tiles are, if one square is clear in sight of another, so is the other of it, with or
  without the test for the same floor; and an object can be thrown from one position to another exactly if it can be thrown back.\<close>

lemma sight_is_mutual:
  "isSightClear stops full m floorCheck fromPos toPos = isSightClear stops full m floorCheck toPos fromPos \<and>
   canThrowObjectTo stops full m checkLineOfSight rangex rangey fromPos toPos =
   canThrowObjectTo stops full m checkLineOfSight rangex rangey toPos fromPos"
proof -
  obtain a b where "checkSightLine stops full m fromPos toPos = Some a" "checkSightLine stops full m toPos fromPos = Some b"
    using checkSightLine_returns by metis
  then have s: "isSightClear stops full m fc fromPos toPos = isSightClear stops full m fc toPos fromPos" for fc
    by (auto simp: isSightClear_def)
  have "getDistanceX fromPos toPos = getDistanceX toPos fromPos" "getDistanceY fromPos toPos = getDistanceY toPos fromPos"
    "getDistanceZ fromPos toPos = getDistanceZ toPos fromPos"
    by (simp_all add: getDistanceX_def getDistanceY_def getDistanceZ_def getOffsetX_def getOffsetY_def getOffsetZ_def abs_minus_commute)
  then show ?thesis using s by (auto simp: canThrowObjectTo_def Let_def)
qed

end
