(* ===== verification/Map_Path.thy ===== *)
theory Map_Path
  imports Map_Sight
begin

section \<open>Path finding\<close>

text \<open>
  The A* search (src/src/map.cpp: class \<open>AStarNodes\<close>, \<open>Map::canWalkTo\<close>, \<open>Map::getPathMatching\<close>; src/src/creature.cpp:
  \<open>FrozenPathingConditionCall\<close>). A node's parent is its index in the array of nodes; \<open>curNode\<close> is the length of the list of nodes. What the
  search asks the walking creature and its tiles is the record \<open>walker\<close>: the walk cache, \<open>queryAdd\<close>, whether a tile is the creature's own, its
  \<open>canPushCreatures\<close> (\<open>None\<close>: not a monster), a tile's top visible creature (\<open>Some None\<close>: not a monster; else \<open>isPushable\<close>), and
  whether the tile has a field to whose damage the creature is neither immune nor already subject. \<open>int_fast32_t\<close> is an integer here: a node's cost is at most 512 steps' worth.
\<close>

definition MAX_NODES :: nat where
  "MAX_NODES = 512"

definition MAP_NORMALWALKCOST :: int where
  "MAP_NORMALWALKCOST = 10"

definition MAP_DIAGONALWALKCOST :: int where
  "MAP_DIAGONALWALKCOST = 25"

record AStarNode =
  node_parent :: "nat option"
  node_f :: int
  node_x :: "16 word"
  node_y :: "16 word"

record AStarNodes =
  nodes :: "AStarNode list"
  openNodes :: "bool list"
  nodeTable :: "32 word \<rightharpoonup> nat"
  closedNodes :: int

definition node_key :: "16 word \<Rightarrow> 16 word \<Rightarrow> 32 word" where
  "node_key x y = push_bit 16 (ucast x) OR ucast y"

definition new_AStarNodes :: "16 word \<Rightarrow> 16 word \<Rightarrow> AStarNodes" where
  "new_AStarNodes x y =
     \<lparr>nodes = [\<lparr>node_parent = None, node_f = 0, node_x = x, node_y = y\<rparr>], openNodes = [True],
      nodeTable = [node_key x y \<mapsto> 0], closedNodes = 0\<rparr>"

definition createOpenNode :: "nat \<Rightarrow> 16 word \<Rightarrow> 16 word \<Rightarrow> int \<Rightarrow> AStarNodes \<Rightarrow> AStarNodes option" where
  "createOpenNode parent x y f s =
     (if length (nodes s) \<ge> MAX_NODES then None
      else Some (s\<lparr>nodes := nodes s @ [\<lparr>node_parent = Some parent, node_f = f, node_x = x, node_y = y\<rparr>],
                   openNodes := openNodes s @ [True], nodeTable := (nodeTable s)(node_key x y \<mapsto> length (nodes s))\<rparr>))"

definition getBestNode :: "AStarNodes \<Rightarrow> nat option" where
  "getBestNode s =
     snd (fold (\<lambda>i (best_f, best). if openNodes s ! i \<and> node_f (nodes s ! i) < best_f then (node_f (nodes s ! i), Some i) else (best_f, best))
            [0..<length (nodes s)] (2147483647, None))"

definition closeNode :: "nat \<Rightarrow> AStarNodes \<Rightarrow> AStarNodes" where
  "closeNode i s = s\<lparr>openNodes := (openNodes s)[i := False], closedNodes := closedNodes s + 1\<rparr>"

definition openNode :: "nat \<Rightarrow> AStarNodes \<Rightarrow> AStarNodes" where
  "openNode i s = (if openNodes s ! i then s else s\<lparr>openNodes := (openNodes s)[i := True], closedNodes := closedNodes s - 1\<rparr>)"

definition getNodeByPosition :: "16 word \<Rightarrow> 16 word \<Rightarrow> AStarNodes \<Rightarrow> nat option" where
  "getNodeByPosition x y s = nodeTable s (node_key x y)"

definition getMapWalkCost :: "AStarNode \<Rightarrow> Position \<Rightarrow> int" where
  "getMapWalkCost n p =
     (if \<bar>uint (node_x n) - getX p\<bar> = \<bar>uint (node_y n) - getY p\<bar> then MAP_DIAGONALWALKCOST else MAP_NORMALWALKCOST)"

subsection \<open>What is searched\<close>

record FindPathParams =
  fullPathSearch :: bool
  clearSight :: bool
  allowDiagonal :: bool
  keepDistance :: bool
  maxSearchDist :: int
  minTargetDist :: int
  maxTargetDist :: int

definition default_FindPathParams :: FindPathParams where
  "default_FindPathParams = \<lparr>fullPathSearch = True, clearSight = True, allowDiagonal = True, keepDistance = False,
     maxSearchDist = 0, minTargetDist = -1, maxTargetDist = -1\<rparr>"

definition isInRange :: "Position \<Rightarrow> FindPathParams \<Rightarrow> Position \<Rightarrow> Position \<Rightarrow> bool" where
  "isInRange targetPos fpp startPos testPos \<longleftrightarrow>
     (if fullPathSearch fpp
      then \<not> getX testPos > getX targetPos + maxTargetDist fpp \<and> \<not> getX testPos < getX targetPos - maxTargetDist fpp
         \<and> \<not> getY testPos > getY targetPos + maxTargetDist fpp \<and> \<not> getY testPos < getY targetPos - maxTargetDist fpp
      else
        let dx = getOffsetX startPos targetPos; dxMax = (if dx \<ge> 0 then maxTargetDist fpp else 0); dxMin = (if dx \<le> 0 then maxTargetDist fpp else 0);
            dy = getOffsetY startPos targetPos; dyMax = (if dy \<ge> 0 then maxTargetDist fpp else 0); dyMin = (if dy \<le> 0 then maxTargetDist fpp else 0)
        in \<not> getX testPos > getX targetPos + dxMax \<and> \<not> getX testPos < getX targetPos - dxMin
         \<and> \<not> getY testPos > getY targetPos + dyMax \<and> \<not> getY testPos < getY targetPos - dyMin)"

text \<open>The call operator returns its answer and the new best match; \<open>sight\<close> is \<open>Game::isSightClear(testPos, targetPos, true)\<close>.\<close>

definition pathing_condition :: "(Position \<Rightarrow> Position \<Rightarrow> bool) \<Rightarrow> Position \<Rightarrow> FindPathParams \<Rightarrow> Position \<Rightarrow> Position \<Rightarrow> int \<Rightarrow> bool \<times> int" where
  "pathing_condition sight targetPos fpp startPos testPos bestMatchDist =
     (if \<not> isInRange targetPos fpp startPos testPos then (False, bestMatchDist)
      else if clearSight fpp \<and> \<not> sight testPos targetPos then (False, bestMatchDist)
      else
        let testDist = max (getDistanceX targetPos testPos) (getDistanceY targetPos testPos)
        in if maxTargetDist fpp = 1 then (\<not> (testDist < minTargetDist fpp \<or> testDist > maxTargetDist fpp), bestMatchDist)
           else if testDist \<le> maxTargetDist fpp
           then if testDist < minTargetDist fpp then (False, bestMatchDist)
                else if testDist = maxTargetDist fpp then (True, 0)
                else if testDist > bestMatchDist then (True, testDist)
                else (False, bestMatchDist)
           else (False, bestMatchDist))"

record 't walker =
  wk_tile :: "Position \<Rightarrow> 't option"
  wk_walkCache :: "Position \<Rightarrow> int"
  wk_ownTile :: "'t \<Rightarrow> bool"
  wk_queryAdd :: "'t \<Rightarrow> bool"
  wk_canPush :: "bool option"
  wk_blocking :: "'t \<Rightarrow> bool option option"
  wk_fieldHurts :: "'t \<Rightarrow> bool"

definition getTileWalkCost :: "'t walker \<Rightarrow> 't \<Rightarrow> int" where
  "getTileWalkCost wk t =
     (case wk_blocking wk t of
        None \<Rightarrow> 0
      | Some pushable \<Rightarrow> if wk_canPush wk \<noteq> Some True \<or> pushable \<noteq> Some True then MAP_NORMALWALKCOST * 3 else 0)
   + (if wk_fieldHurts wk t then MAP_NORMALWALKCOST * 18 else 0)"

definition canWalkTo :: "'t walker \<Rightarrow> Position \<Rightarrow> 't option" where
  "canWalkTo wk p =
     (if wk_walkCache wk p = 0 then None
      else if wk_walkCache wk p = 1 then wk_tile wk p
      else case wk_tile wk p of
        None \<Rightarrow> None
      | Some t \<Rightarrow> if \<not> wk_ownTile wk t \<and> \<not> wk_queryAdd wk t then None else Some t)"

definition dirNeighbors :: "Direction \<Rightarrow> (int \<times> int) list" where
  "dirNeighbors d =
     (case d of
        DIRECTION_NORTH \<Rightarrow> [(-1, 0), (0, 1), (1, 0), (1, 1), (-1, 1)]
      | DIRECTION_EAST \<Rightarrow> [(-1, 0), (0, 1), (0, -1), (-1, -1), (-1, 1)]
      | DIRECTION_SOUTH \<Rightarrow> [(-1, 0), (1, 0), (0, -1), (-1, -1), (1, -1)]
      | DIRECTION_WEST \<Rightarrow> [(0, 1), (1, 0), (0, -1), (1, -1), (1, 1)]
      | DIRECTION_SOUTHWEST \<Rightarrow> [(1, 0), (0, -1), (-1, -1), (1, -1), (1, 1)]
      | DIRECTION_SOUTHEAST \<Rightarrow> [(-1, 0), (0, -1), (-1, -1), (1, -1), (-1, 1)]
      | DIRECTION_NORTHWEST \<Rightarrow> [(0, 1), (1, 0), (1, -1), (1, 1), (-1, 1)]
      | _ \<Rightarrow> [(-1, 0), (0, 1), (-1, -1), (1, 1), (-1, 1)])"

definition allNeighbors :: "(int \<times> int) list" where
  "allNeighbors = [(-1, 0), (0, 1), (1, 0), (0, -1), (-1, -1), (1, -1), (1, 1), (-1, 1)]"

definition neighbors_of :: "FindPathParams \<Rightarrow> AStarNode list \<Rightarrow> AStarNode \<Rightarrow> (int \<times> int) list" where
  "neighbors_of fpp ns n =
     (case node_parent n of
        None \<Rightarrow> allNeighbors
      | Some p \<Rightarrow>
          let offset_x = uint (node_x (ns ! p)) - uint (node_x n);
              offset_y = uint (node_y (ns ! p)) - uint (node_y n);
              neighbors =
                (if offset_y = 0
                 then if offset_x = -1 then dirNeighbors DIRECTION_WEST else dirNeighbors DIRECTION_EAST
                 else if \<not> allowDiagonal fpp \<or> offset_x = 0
                 then if offset_y = -1 then dirNeighbors DIRECTION_NORTH else dirNeighbors DIRECTION_SOUTH
                 else if offset_y = -1
                 then if offset_x = -1 then dirNeighbors DIRECTION_NORTHWEST else dirNeighbors DIRECTION_NORTHEAST
                 else if offset_x = -1 then dirNeighbors DIRECTION_SOUTHWEST else dirNeighbors DIRECTION_SOUTHEAST)
          in take (if allowDiagonal fpp then 5 else 3) neighbors)"

subsection \<open>The search\<close>

text \<open>The neighbours of node \<open>i\<close>. The second result says that the nodes ran out (the \<open>break\<close>); \<open>None\<close> is a null tile.\<close>

definition update_node :: "nat \<Rightarrow> nat \<Rightarrow> int \<Rightarrow> AStarNodes \<Rightarrow> AStarNodes" where
  "update_node j i f s = openNode j (s\<lparr>nodes := (nodes s)[j := (nodes s ! j)\<lparr>node_f := f, node_parent := Some i\<rparr>]\<rparr>)"

fun visit_neighbors :: "'t walker \<Rightarrow> (Position \<Rightarrow> bool) \<Rightarrow> FindPathParams \<Rightarrow> Position \<Rightarrow> nat \<Rightarrow> int \<Rightarrow> (int \<times> int) list \<Rightarrow> AStarNodes \<Rightarrow>
    (AStarNodes \<times> bool) option" where
  "visit_neighbors wk inRange fpp startPos i f [] s = Some (s, False)"
| "visit_neighbors wk inRange fpp startPos i f (d # ds) s =
     (let n = nodes s ! i;
          p = Position (node_x n + word_of_int (fst d)) (node_y n + word_of_int (snd d)) (posz startPos)
      in if maxSearchDist fpp \<noteq> 0 \<and> (getDistanceX startPos p > maxSearchDist fpp \<or> getDistanceY startPos p > maxSearchDist fpp)
         then visit_neighbors wk inRange fpp startPos i f ds s
         else if keepDistance fpp \<and> \<not> inRange p then visit_neighbors wk inRange fpp startPos i f ds s
         else case getNodeByPosition (posx p) (posy p) s of
           Some j \<Rightarrow>
             (case wk_tile wk p of
                None \<Rightarrow> None
              | Some t \<Rightarrow>
                  let newf = f + getMapWalkCost n p + getTileWalkCost wk t
                  in if node_f (nodes s ! j) \<le> newf then visit_neighbors wk inRange fpp startPos i f ds s
                     else visit_neighbors wk inRange fpp startPos i f ds (update_node j i newf s))
         | None \<Rightarrow>
             (case canWalkTo wk p of
                None \<Rightarrow> visit_neighbors wk inRange fpp startPos i f ds s
              | Some t \<Rightarrow>
                  (case createOpenNode i (posx p) (posy p) (f + getMapWalkCost n p + getTileWalkCost wk t) s of
                     None \<Rightarrow> Some (s, True)
                   | Some s \<Rightarrow> visit_neighbors wk inRange fpp startPos i f ds s)))"

definition node_pos :: "Position \<Rightarrow> AStarNode \<Rightarrow> Position" where
  "node_pos startPos n = Position (node_x n) (node_y n) (posz startPos)"

partial_function (option) search :: "'t walker \<Rightarrow> (Position \<Rightarrow> bool) \<Rightarrow> (Position \<Rightarrow> int \<Rightarrow> bool \<times> int) \<Rightarrow> FindPathParams \<Rightarrow> Position \<Rightarrow>
    AStarNodes \<Rightarrow> nat option \<Rightarrow> int \<Rightarrow> (AStarNodes \<times> nat option) option" where
  "search wk inRange pathCondition fpp startPos s found bestMatch =
     (if maxSearchDist fpp \<noteq> 0 \<or> closedNodes s < 100
      then case getBestNode s of
             None \<Rightarrow> Some (s, found)
           | Some i \<Rightarrow>
               let n = nodes s ! i;
                   (hit, bestMatch) = pathCondition (node_pos startPos n) bestMatch;
                   found = (if hit then Some i else found)
               in if hit \<and> bestMatch = 0 then Some (s, found)
                  else Option.bind (visit_neighbors wk inRange fpp startPos i (node_f n) (neighbors_of fpp (nodes s) n) s) (\<lambda>(s, full).
                    if full \<and> found = None then Some (s, None)
                    else search wk inRange pathCondition fpp startPos (closeNode i s) found bestMatch)
      else Some (s, found))"

definition step_dir :: "int \<Rightarrow> int \<Rightarrow> Direction option" where
  "step_dir dx dy =
     (if dx = 1 \<and> dy = 1 then Some DIRECTION_NORTHWEST
      else if dx = -1 \<and> dy = 1 then Some DIRECTION_NORTHEAST
      else if dx = 1 \<and> dy = -1 then Some DIRECTION_SOUTHWEST
      else if dx = -1 \<and> dy = -1 then Some DIRECTION_SOUTHEAST
      else if dx = 1 then Some DIRECTION_WEST
      else if dx = -1 then Some DIRECTION_EAST
      else if dy = 1 then Some DIRECTION_NORTH
      else if dy = -1 then Some DIRECTION_SOUTH
      else None)"

partial_function (option) trace_back :: "AStarNode list \<Rightarrow> 16 word \<times> 16 word \<Rightarrow> nat option \<Rightarrow> Direction list \<Rightarrow> Direction list option" where
  "trace_back ns prev found dirList =
     (case found of
        None \<Rightarrow> Some dirList
      | Some j \<Rightarrow>
          let n = ns ! j; dx = uint (node_x n) - uint (fst prev); dy = uint (node_y n) - uint (snd prev)
          in trace_back ns (node_x n, node_y n) (node_parent n)
               (case step_dir dx dy of None \<Rightarrow> dirList | Some d \<Rightarrow> d # dirList))"

text \<open>The result is the list of directions, or \<open>None\<close> inside for the answer false.\<close>

definition getPathMatching :: "'t walker \<Rightarrow> (Position \<Rightarrow> bool) \<Rightarrow> (Position \<Rightarrow> int \<Rightarrow> bool \<times> int) \<Rightarrow> FindPathParams \<Rightarrow> Position \<Rightarrow>
    Direction list option option" where
  "getPathMatching wk inRange pathCondition fpp startPos =
     Option.bind (search wk inRange pathCondition fpp startPos (new_AStarNodes (posx startPos) (posy startPos)) None 0) (\<lambda>(s, found).
       case found of
         None \<Rightarrow> Some None
       | Some j \<Rightarrow> let n = nodes s ! j
                   in map_option Some (trace_back (nodes s) (node_x n, node_y n) (node_parent n) []))"

definition getPathTo :: "('t \<Rightarrow> bool) \<Rightarrow> ('t \<Rightarrow> bool) \<Rightarrow> 't tile_map \<Rightarrow> 't walker \<Rightarrow> Position \<Rightarrow> FindPathParams \<Rightarrow> Position \<Rightarrow>
    Direction list option option" where
  "getPathTo stops full m wk targetPos fpp startPos =
     getPathMatching wk (isInRange targetPos fpp startPos)
       (pathing_condition (\<lambda>a b. isSightClear stops full m True a b = Some True) targetPos fpp startPos) fpp startPos"

subsection \<open>The invariant of the search\<close>

definition on_tile :: "'t walker \<Rightarrow> Position \<Rightarrow> bool" where
  "on_tile wk startPos \<longleftrightarrow> wk_tile wk startPos \<noteq> None"

text \<open>No tile lies on the last column or row of coordinates, so no step from a tile to a tile wraps.\<close>

definition edge_free :: "'t walker \<Rightarrow> bool" where
  "edge_free wk \<longleftrightarrow> (\<forall>p. wk_tile wk p \<noteq> None \<longrightarrow> posx p \<noteq> -1 \<and> posy p \<noteq> -1)"

definition reached :: "'t walker \<Rightarrow> FindPathParams \<Rightarrow> Position \<Rightarrow> Position \<Rightarrow> bool" where
  "reached wk fpp startPos p \<longleftrightarrow> canWalkTo wk p \<noteq> None
     \<and> (maxSearchDist fpp \<noteq> 0 \<longrightarrow> getDistanceX startPos p \<le> maxSearchDist fpp \<and> getDistanceY startPos p \<le> maxSearchDist fpp)"

definition linked :: "'t walker \<Rightarrow> FindPathParams \<Rightarrow> Position \<Rightarrow> AStarNode list \<Rightarrow> nat \<Rightarrow> bool" where
  "linked wk fpp startPos ns i \<longleftrightarrow> (\<exists>p d. node_parent (ns ! i) = Some p \<and> p < length ns \<and> node_f (ns ! p) + 10 \<le> node_f (ns ! i)
     \<and> d \<in> set allNeighbors \<and> node_x (ns ! i) = node_x (ns ! p) + word_of_int (fst d) \<and> node_y (ns ! i) = node_y (ns ! p) + word_of_int (snd d)
     \<and> reached wk fpp startPos (node_pos startPos (ns ! i)))"

definition path_ok :: "'t walker \<Rightarrow> FindPathParams \<Rightarrow> Position \<Rightarrow> AStarNodes \<Rightarrow> bool" where
  "path_ok wk fpp startPos s \<longleftrightarrow> length (openNodes s) = length (nodes s) \<and> 0 < length (nodes s) \<and> length (nodes s) \<le> MAX_NODES
     \<and> nodes s ! 0 = \<lparr>node_parent = None, node_f = 0, node_x = posx startPos, node_y = posy startPos\<rparr>
     \<and> (\<forall>i<length (nodes s). i \<noteq> 0 \<longrightarrow> linked wk fpp startPos (nodes s) i)
     \<and> (\<forall>i<length (nodes s). 0 \<le> node_f (nodes s ! i))
     \<and> (\<forall>k i. nodeTable s k = Some i \<longrightarrow> i < length (nodes s) \<and> k = node_key (node_x (nodes s ! i)) (node_y (nodes s ! i)))"

lemma node_key_inj: "node_key x y = node_key x' y' \<longleftrightarrow> x = x' \<and> y = y'"
proof
  assume k: "node_key x y = node_key x' y'"
  have b: "bit (node_key a c) n = (if n < 16 then bit c n else n < 32 \<and> bit a (n - 16))" for a c :: "16 word" and n
    unfolding node_key_def
    by (auto simp: bit_or_iff bit_push_bit_iff bit_ucast_iff dest: bit_imp_le_length)
  have "bit x n = bit x' n" if "n < 16" for n using b [of x y "n + 16"] b [of x' y' "n + 16"] k that by simp
  moreover have "bit y n = bit y' n" if "n < 16" for n using b [of x y n] b [of x' y' n] k that by simp
  ultimately show "x = x' \<and> y = y'" by (auto intro: bit_word_eqI)
qed simp

lemma map_cost_ge: "10 \<le> getMapWalkCost n p"
  by (simp add: getMapWalkCost_def MAP_DIAGONALWALKCOST_def MAP_NORMALWALKCOST_def)

lemma tile_cost_ge: "0 \<le> getTileWalkCost wk t"
  by (simp add: getTileWalkCost_def MAP_NORMALWALKCOST_def split: option.split)

lemma canWalkTo_tile: "canWalkTo wk p \<noteq> None \<Longrightarrow> wk_tile wk p \<noteq> None"
  by (auto simp: canWalkTo_def split: if_splits option.splits)

lemma dirNeighbors_sub: "set (dirNeighbors d) \<subseteq> set allNeighbors"
  by (cases d) (simp_all add: dirNeighbors_def allNeighbors_def)

lemma neighbors_sub: "set (neighbors_of fpp ns n) \<subseteq> set allNeighbors"
proof (cases "node_parent n")
  case (Some p)
  have "set (take k (dirNeighbors d)) \<subseteq> set allNeighbors" for k d
    using set_take_subset [of k "dirNeighbors d"] dirNeighbors_sub [of d] by blast
  then show ?thesis using Some by (simp add: neighbors_of_def Let_def)
qed (simp add: neighbors_of_def)

text \<open>The two updates of the search.\<close>

lemma create_ok:
  assumes "path_ok wk fpp startPos s" and "createOpenNode i x y f s = Some s'" and "i < length (nodes s)" and "node_f (nodes s ! i) + 10 \<le> f"
    and "d \<in> set allNeighbors" "x = node_x (nodes s ! i) + word_of_int (fst d)" "y = node_y (nodes s ! i) + word_of_int (snd d)"
    and "reached wk fpp startPos (Position x y (posz startPos))"
  shows "path_ok wk fpp startPos s'" and "length (nodes s') = Suc (length (nodes s))" and "nodes s' ! k = (if k < length (nodes s) then nodes s ! k else nodes s' ! k)"
proof -
  let ?n = "\<lparr>node_parent = Some i, node_f = f, node_x = x, node_y = y\<rparr>" and ?l = "length (nodes s)"
  have s': "nodes s' = nodes s @ [?n]" "openNodes s' = openNodes s @ [True]" "nodeTable s' = (nodeTable s)(node_key x y \<mapsto> ?l)" "?l < MAX_NODES"
    using assms(2) by (auto simp: createOpenNode_def split: if_splits)
  then show "length (nodes s') = Suc (length (nodes s))" "nodes s' ! k = (if k < length (nodes s) then nodes s ! k else nodes s' ! k)"
    by (simp_all add: nth_append)
  have old: "nodes s' ! k = nodes s ! k" if "k < ?l" for k using that s'(1) by (simp add: nth_append)
  have new: "nodes s' ! ?l = ?n" and len: "length (nodes s') = Suc ?l" by (simp_all add: s'(1))
  have "linked wk fpp startPos (nodes s') k" if k: "k < length (nodes s')" "k \<noteq> 0" for k
  proof (cases "k < ?l")
    case True
    then have "linked wk fpp startPos (nodes s) k" using assms(1) k(2) by (simp add: path_ok_def)
    then obtain p d where p: "node_parent (nodes s ! k) = Some p" "p < ?l" "node_f (nodes s ! p) + 10 \<le> node_f (nodes s ! k)"
      "d \<in> set allNeighbors" "node_x (nodes s ! k) = node_x (nodes s ! p) + word_of_int (fst d)"
      "node_y (nodes s ! k) = node_y (nodes s ! p) + word_of_int (snd d)" "reached wk fpp startPos (node_pos startPos (nodes s ! k))"
      unfolding linked_def by blast
    then show ?thesis unfolding linked_def by (intro exI [of _ p] exI [of _ d]) (use p in \<open>simp add: old [OF True] old [OF p(2)] len\<close>)
  next
    case False
    then have "k = ?l" using k(1) len by simp
    then show ?thesis
      unfolding linked_def using assms(3-8) by (intro exI [of _ i] exI [of _ d]) (simp add: new old len node_pos_def)
  qed
  moreover have "0 \<le> node_f (nodes s' ! k)" if "k < length (nodes s')" for k
  proof (cases "k < ?l")
    case True
    then show ?thesis using assms(1) old by (simp add: path_ok_def)
  next
    case False
    then have "k = ?l" using that len by simp
    moreover have "0 \<le> node_f (nodes s ! i)" using assms(1,3) by (simp add: path_ok_def)
    ultimately show ?thesis using assms(4) new by simp
  qed
  moreover have "j < length (nodes s') \<and> k = node_key (node_x (nodes s' ! j)) (node_y (nodes s' ! j))" if "nodeTable s' k = Some j" for k j
  proof (cases "k = node_key x y")
    case True
    then have "j = ?l" using that by (simp add: s'(3))
    then show ?thesis using True new len by simp
  next
    case False
    then have "nodeTable s k = Some j" using that by (simp add: s'(3))
    then have "j < ?l" "k = node_key (node_x (nodes s ! j)) (node_y (nodes s ! j))" using assms(1) by (simp_all add: path_ok_def)
    then show ?thesis using old len by simp
  qed
  moreover have "nodes s' ! 0 = nodes s ! 0" using old assms(1) by (simp add: path_ok_def)
  ultimately show "path_ok wk fpp startPos s'"
    using assms(1) s'(2,4) len unfolding path_ok_def by simp
qed

lemma update_ok:
  assumes "path_ok wk fpp startPos s" and "j < length (nodes s)" "i < length (nodes s)" "0 \<le> node_f (nodes s ! i)"
    and "node_f (nodes s ! i) + 10 \<le> f" "f < node_f (nodes s ! j)"
    and "d \<in> set allNeighbors" "node_x (nodes s ! j) = node_x (nodes s ! i) + word_of_int (fst d)"
      "node_y (nodes s ! j) = node_y (nodes s ! i) + word_of_int (snd d)"
  shows "path_ok wk fpp startPos (update_node j i f s)" and "nodes (update_node j i f s) = (nodes s)[j := (nodes s ! j)\<lparr>node_f := f, node_parent := Some i\<rparr>]"
    and "i \<noteq> j" and "j \<noteq> 0"
proof -
  let ?s = "update_node j i f s" and ?l = "length (nodes s)"
  show ij: "i \<noteq> j" using assms(5,6) by auto
  show j0: "j \<noteq> 0"
  proof
    assume "j = 0"
    then have "node_f (nodes s ! j) = 0" using assms(1) by (simp add: path_ok_def)
    then show False using assms(4-6) by linarith
  qed
  show ns: "nodes ?s = (nodes s)[j := (nodes s ! j)\<lparr>node_f := f, node_parent := Some i\<rparr>]"
    by (simp add: update_node_def openNode_def)
  have o: "length (openNodes ?s) = length (openNodes s)" "nodeTable ?s = nodeTable s" by (simp_all add: update_node_def openNode_def)
  have len: "length (nodes ?s) = ?l" by (simp add: ns)
  have sel: "node_x (nodes ?s ! k) = node_x (nodes s ! k)" "node_y (nodes ?s ! k) = node_y (nodes s ! k)"
    "node_f (nodes ?s ! k) = (if k = j then f else node_f (nodes s ! k))"
    "node_parent (nodes ?s ! k) = (if k = j then Some i else node_parent (nodes s ! k))" if "k < ?l" for k
    using that assms(2) by (auto simp: ns nth_list_update)
  have "linked wk fpp startPos (nodes ?s) k" if k: "k < ?l" "k \<noteq> 0" for k
  proof -
    have "linked wk fpp startPos (nodes s) k" using assms(1) k by (simp add: path_ok_def)
    then obtain p d' where p: "node_parent (nodes s ! k) = Some p" "p < ?l" "node_f (nodes s ! p) + 10 \<le> node_f (nodes s ! k)"
      "d' \<in> set allNeighbors" "node_x (nodes s ! k) = node_x (nodes s ! p) + word_of_int (fst d')"
      "node_y (nodes s ! k) = node_y (nodes s ! p) + word_of_int (snd d')" "reached wk fpp startPos (node_pos startPos (nodes s ! k))"
      unfolding linked_def by blast
    have np: "node_pos startPos (nodes ?s ! k) = node_pos startPos (nodes s ! k)" using sel [OF k(1)] by (simp add: node_pos_def)
    show ?thesis
    proof (cases "k = j")
      case True
      then show ?thesis
        unfolding linked_def using assms(3,5,7-9) p(7) ij np
        by (intro exI [of _ i] exI [of _ d]) (simp add: sel [OF assms(2)] sel [OF assms(3)] len)
    next
      case False
      have "node_f (nodes ?s ! p) \<le> node_f (nodes s ! p)" using sel(3) [OF p(2)] assms(6) by simp
      then show ?thesis
        unfolding linked_def using p np False
        by (intro exI [of _ p] exI [of _ d']) (simp add: sel(1,2,4) [OF k(1)] sel(1,2) [OF p(2)] sel(3) [OF k(1)] len)
    qed
  qed
  moreover have "0 \<le> node_f (nodes ?s ! k)" if "k < ?l" for k
    using that assms(1,4,5) sel(3) [OF that] by (simp add: path_ok_def)
  moreover have "nodes ?s ! 0 = nodes s ! 0" using j0 by (simp add: ns)
  moreover have "m < ?l \<and> k = node_key (node_x (nodes ?s ! m)) (node_y (nodes ?s ! m))" if "nodeTable ?s k = Some m" for k m
    using that assms(1) sel by (simp add: path_ok_def o)
  ultimately show "path_ok wk fpp startPos ?s"
    using assms(1) o unfolding path_ok_def by (simp add: len)
qed

definition costs_total :: "AStarNode list \<Rightarrow> nat" where
  "costs_total ns = sum_list (map (\<lambda>n. nat (node_f n)) ns)"

text \<open>How the search comes closer to its end: more nodes, or as many nodes at lower costs, or nothing changed.\<close>

definition advances :: "AStarNodes \<Rightarrow> AStarNodes \<Rightarrow> bool" where
  "advances s s' \<longleftrightarrow> s' = s \<or> length (nodes s) < length (nodes s')
     \<or> length (nodes s') = length (nodes s) \<and> costs_total (nodes s') < costs_total (nodes s)"

lemma advances_trans: "advances s t \<Longrightarrow> advances t u \<Longrightarrow> advances s u"
  by (auto simp: advances_def)

lemma costs_total_update:
  assumes "j < length ns" and "0 \<le> f" "f < node_f (ns ! j)"
  shows "costs_total (ns[j := (ns ! j)\<lparr>node_f := f, node_parent := p\<rparr>]) < costs_total ns"
proof -
  have "ns = take j ns @ ns ! j # drop (Suc j) ns" using assms(1) by (rule id_take_nth_drop)
  then have "costs_total ns = costs_total (take j ns) + nat (node_f (ns ! j)) + costs_total (drop (Suc j) ns)"
    unfolding costs_total_def by (metis (no_types, lifting) add.assoc list.simps(9) map_append sum_list.Cons sum_list_append)
  moreover have "costs_total (ns[j := (ns ! j)\<lparr>node_f := f, node_parent := p\<rparr>]) = costs_total (take j ns) + nat f + costs_total (drop (Suc j) ns)"
    unfolding upd_conv_take_nth_drop [OF assms(1)] by (simp add: costs_total_def)
  ultimately show ?thesis using assms(2,3) by simp
qed

lemma visit_ok:
  assumes "path_ok wk fpp startPos s" and "on_tile wk startPos" and "i < length (nodes s)" and "f = node_f (nodes s ! i)"
    and "set ds \<subseteq> set allNeighbors"
  obtains s' full where "visit_neighbors wk inRange fpp startPos i f ds s = Some (s', full)" "path_ok wk fpp startPos s'" "advances s s'"
    "length (nodes s) \<le> length (nodes s')"
    "\<And>k. k < length (nodes s) \<Longrightarrow> node_x (nodes s' ! k) = node_x (nodes s ! k) \<and> node_y (nodes s' ! k) = node_y (nodes s ! k)"
proof -
  have "\<exists>s' full. visit_neighbors wk inRange fpp startPos i f ds s = Some (s', full) \<and> path_ok wk fpp startPos s' \<and> advances s s'
    \<and> length (nodes s) \<le> length (nodes s')
    \<and> (\<forall>k<length (nodes s). node_x (nodes s' ! k) = node_x (nodes s ! k) \<and> node_y (nodes s' ! k) = node_y (nodes s ! k))"
    using assms
  proof (induction ds arbitrary: s)
    case Nil
    then show ?case by (intro exI [of _ s] exI [of _ False]) (simp add: advances_def)
  next
    case (Cons d ds)
    let ?n = "nodes s ! i"
    let ?p = "Position (node_x ?n + word_of_int (fst d)) (node_y ?n + word_of_int (snd d)) (posz startPos)"
    have ds: "set ds \<subseteq> set allNeighbors" "d \<in> set allNeighbors" using Cons.prems(5) by simp_all
    have f0: "0 \<le> f" using Cons.prems(1,3,4) by (simp add: path_ok_def)
    note skip = Cons.IH [OF Cons.prems(1-4) ds(1)]
    consider "maxSearchDist fpp \<noteq> 0 \<and> (getDistanceX startPos ?p > maxSearchDist fpp \<or> getDistanceY startPos ?p > maxSearchDist fpp)
        \<or> keepDistance fpp \<and> \<not> inRange ?p"
      | j where "\<not> (maxSearchDist fpp \<noteq> 0 \<and> (getDistanceX startPos ?p > maxSearchDist fpp \<or> getDistanceY startPos ?p > maxSearchDist fpp))"
        "\<not> (keepDistance fpp \<and> \<not> inRange ?p)" "getNodeByPosition (posx ?p) (posy ?p) s = Some j"
      | "\<not> (maxSearchDist fpp \<noteq> 0 \<and> (getDistanceX startPos ?p > maxSearchDist fpp \<or> getDistanceY startPos ?p > maxSearchDist fpp))"
        "\<not> (keepDistance fpp \<and> \<not> inRange ?p)" "getNodeByPosition (posx ?p) (posy ?p) s = None"
      by (cases "getNodeByPosition (posx ?p) (posy ?p) s") blast+
    then show ?case
    proof cases
      case 1
      then have "visit_neighbors wk inRange fpp startPos i f (d # ds) s = visit_neighbors wk inRange fpp startPos i f ds s" by (auto simp: Let_def)
      then show ?thesis using skip by simp
    next
      case (2 j)
      have j: "j < length (nodes s)" "node_x (nodes s ! j) = posx ?p" "node_y (nodes s ! j) = posy ?p"
        using 2(3) Cons.prems(1) node_key_inj unfolding getNodeByPosition_def path_ok_def by metis+
      have pj: "node_pos startPos (nodes s ! j) = ?p" using j by (simp add: node_pos_def)
      have "wk_tile wk ?p \<noteq> None"
      proof (cases "j = 0")
        case True
        then have "?p = startPos" using pj Cons.prems(1) by (cases startPos) (simp add: path_ok_def node_pos_def)
        then show ?thesis using Cons.prems(2) by (simp add: on_tile_def)
      next
        case False
        then have "linked wk fpp startPos (nodes s) j" using Cons.prems(1) j(1) by (simp add: path_ok_def)
        then have "canWalkTo wk ?p \<noteq> None" using pj unfolding linked_def reached_def by metis
        then show ?thesis by (rule canWalkTo_tile)
      qed
      then obtain t where t: "wk_tile wk ?p = Some t" by blast
      let ?f = "f + getMapWalkCost ?n ?p + getTileWalkCost wk t"
      have ge: "f + 10 \<le> ?f" using map_cost_ge [of ?n ?p] tile_cost_ge [of wk t] by linarith
      show ?thesis
      proof (cases "node_f (nodes s ! j) \<le> ?f")
        case True
        then have "visit_neighbors wk inRange fpp startPos i f (d # ds) s = visit_neighbors wk inRange fpp startPos i f ds s"
          unfolding visit_neighbors.simps Let_def if_not_P [OF 2(1)] if_not_P [OF 2(2)] by (simp add: 2(3) [unfolded Position.sel] t)
        then show ?thesis using skip by simp
      next
        case False
        let ?s = "update_node j i ?f s"
        have v: "visit_neighbors wk inRange fpp startPos i f (d # ds) s = visit_neighbors wk inRange fpp startPos i f ds ?s"
          unfolding visit_neighbors.simps Let_def if_not_P [OF 2(1)] if_not_P [OF 2(2)] by (simp add: 2(3) [unfolded Position.sel] t False)
        have lt: "?f < node_f (nodes s ! j)" using False by simp
        note u = update_ok [OF Cons.prems(1) j(1) Cons.prems(3) f0 [unfolded Cons.prems(4)] ge [unfolded Cons.prems(4)] lt [unfolded Cons.prems(4)] ds(2)
            j(2) [unfolded Position.sel] j(3) [unfolded Position.sel], folded Cons.prems(4)]
        have len: "length (nodes ?s) = length (nodes s)" by (simp add: u(2))
        have fi: "f = node_f (nodes ?s ! i)" using u(2,3) Cons.prems(4) by simp
        have xy: "node_x (nodes ?s ! k) = node_x (nodes s ! k) \<and> node_y (nodes ?s ! k) = node_y (nodes s ! k)" if "k < length (nodes s)" for k
          using that j(1) by (cases "k = j") (simp_all add: u(2))
        have "costs_total (nodes ?s) < costs_total (nodes s)"
          unfolding u(2) by (rule costs_total_update [OF j(1) _ lt]) (use f0 ge in linarith)
        then have adv: "advances s ?s" using len by (simp add: advances_def)
        have i': "i < length (nodes ?s)" using Cons.prems(3) len by simp
        show ?thesis
          using Cons.IH [OF u(1) Cons.prems(2) i' fi ds(1)] v xy len advances_trans [OF adv] by fastforce
      qed
    next
      case 3
      show ?thesis
      proof (cases "canWalkTo wk ?p")
        case None
        then have "visit_neighbors wk inRange fpp startPos i f (d # ds) s = visit_neighbors wk inRange fpp startPos i f ds s"
          unfolding visit_neighbors.simps Let_def if_not_P [OF 3(1)] if_not_P [OF 3(2)] by (simp add: 3(3) [unfolded Position.sel])
        then show ?thesis using skip by simp
      next
        case (Some t)
        let ?f = "f + getMapWalkCost ?n ?p + getTileWalkCost wk t"
        have ge: "f + 10 \<le> ?f" using map_cost_ge [of ?n ?p] tile_cost_ge [of wk t] by linarith
        show ?thesis
        proof (cases "createOpenNode i (posx ?p) (posy ?p) ?f s")
          case None
          then have "visit_neighbors wk inRange fpp startPos i f (d # ds) s = Some (s, True)"
          unfolding visit_neighbors.simps Let_def if_not_P [OF 3(1)] if_not_P [OF 3(2)] by (simp add: 3(3) [unfolded Position.sel] Some)
          then show ?thesis using Cons.prems(1) by (auto simp: advances_def)
        next
          case c: (Some s1)
          have v: "visit_neighbors wk inRange fpp startPos i f (d # ds) s = visit_neighbors wk inRange fpp startPos i f ds s1"
          unfolding visit_neighbors.simps Let_def if_not_P [OF 3(1)] if_not_P [OF 3(2)] by (simp add: 3(3) [unfolded Position.sel] Some c [unfolded Position.sel])
          have r: "reached wk fpp startPos (Position (posx ?p) (posy ?p) (posz startPos))" using 3(1) Some by (auto simp: reached_def)
          have ge': "node_f ?n + 10 \<le> ?f" using ge Cons.prems(4) by simp
          note u = create_ok [OF Cons.prems(1) c Cons.prems(3) ge' ds(2) Position.sel(1) Position.sel(2) r]
          have u1: "path_ok wk fpp startPos s1" and len: "length (nodes s1) = Suc (length (nodes s))"
            and nth: "k < length (nodes s) \<Longrightarrow> nodes s1 ! k = nodes s ! k" for k
            using u(1,2) c by (auto simp: createOpenNode_def nth_append split: if_splits)
          have adv: "advances s s1" using len by (simp add: advances_def)
          have i': "i < length (nodes s1)" "f = node_f (nodes s1 ! i)" using Cons.prems(3,4) len nth by simp_all
          show ?thesis
            using Cons.IH [OF u1 Cons.prems(2) i' ds(1)] v nth len advances_trans [OF adv] by fastforce
        qed
      qed
    qed
  qed
  then show thesis using that by blast
qed

subsection \<open>The search ends\<close>

lemma getBestNode_open: "getBestNode s = Some i \<Longrightarrow> i < length (nodes s) \<and> openNodes s ! i"
proof -
  have "\<forall>b i. snd (fold (\<lambda>i (best_f, best). if openNodes s ! i \<and> node_f (nodes s ! i) < best_f then (node_f (nodes s ! i), Some i) else (best_f, best))
      is b) = Some i \<longrightarrow> snd b = Some i \<or> i \<in> set is \<and> openNodes s ! i" for "is"
    by (induction "is") (auto split: if_splits)
  then show "getBestNode s = Some i \<Longrightarrow> i < length (nodes s) \<and> openNodes s ! i"
    unfolding getBestNode_def by fastforce
qed

definition open_count :: "AStarNodes \<Rightarrow> nat" where
  "open_count s = length (filter id (openNodes s))"

lemma closeNode_simps [simp]: "nodes (closeNode i s) = nodes s" "nodeTable (closeNode i s) = nodeTable s" "length (openNodes (closeNode i s)) = length (openNodes s)"
  by (simp_all add: closeNode_def)

lemma closeNode_ok: "path_ok wk fpp startPos s \<Longrightarrow> path_ok wk fpp startPos (closeNode i s)"
  by (simp add: path_ok_def)

lemma closeNode_count: "i < length (openNodes s) \<Longrightarrow> openNodes s ! i \<Longrightarrow> open_count (closeNode i s) < open_count s"
proof -
  assume i: "i < length (openNodes s)" "openNodes s ! i"
  let ?os = "openNodes s"
  have "filter id ?os = filter id (take i ?os) @ True # filter id (drop (Suc i) ?os)"
    by (subst id_take_nth_drop [OF i(1)]) (simp add: i(2) del: append_take_drop_id)
  moreover have "filter id (?os[i := False]) = filter id (take i ?os) @ filter id (drop (Suc i) ?os)"
    by (simp add: upd_conv_take_nth_drop [OF i(1)])
  ultimately show ?thesis by (simp add: open_count_def closeNode_def)
qed

definition search_order :: "(AStarNodes \<times> AStarNodes) set" where
  "search_order = inv_image (less_than <*lex*> less_than <*lex*> less_than) (\<lambda>s. (MAX_NODES - length (nodes s), costs_total (nodes s), open_count s))"

lemma wf_search_order: "wf search_order"
  by (simp add: search_order_def wf_lex_prod)

definition found_ok :: "(Position \<Rightarrow> int \<Rightarrow> bool \<times> int) \<Rightarrow> Position \<Rightarrow> AStarNodes \<Rightarrow> nat option \<Rightarrow> bool" where
  "found_ok pathCondition startPos s found \<longleftrightarrow>
     (\<forall>j. found = Some j \<longrightarrow> j < length (nodes s) \<and> (\<exists>b. fst (pathCondition (node_pos startPos (nodes s ! j)) b)))"

lemma search_returns:
  assumes "path_ok wk fpp startPos s" and "on_tile wk startPos" and "found_ok pathCondition startPos s found"
  shows "\<exists>s' found'. search wk inRange pathCondition fpp startPos s found bestMatch = Some (s', found') \<and> path_ok wk fpp startPos s'
    \<and> found_ok pathCondition startPos s' found'"
  using wf_search_order assms(1,3)
proof (induction s arbitrary: found bestMatch rule: wf_induct_rule)
  case (less s)
  note unfold = search.simps [of wk inRange pathCondition fpp startPos s found bestMatch]
  show ?case
  proof (cases "maxSearchDist fpp \<noteq> 0 \<or> closedNodes s < 100")
    case False
    then show ?thesis using less.prems by (subst unfold) auto
  next
    case go: True
    show ?thesis
    proof (cases "getBestNode s")
      case None
      then show ?thesis using less.prems go by (subst unfold) auto
    next
      case (Some i)
      let ?n = "nodes s ! i"
      have i: "i < length (nodes s)" "openNodes s ! i" using getBestNode_open [OF Some] by simp_all
      obtain hit best where pc: "pathCondition (node_pos startPos ?n) bestMatch = (hit, best)" by (cases "pathCondition (node_pos startPos ?n) bestMatch")
      define found1 where "found1 = (if hit then Some i else found)"
      have f1: "found_ok pathCondition startPos s found1"
        using less.prems(2) i(1) pc unfolding found_ok_def found1_def by (metis fst_conv option.inject)
      obtain s1 full where v: "visit_neighbors wk inRange fpp startPos i (node_f ?n) (neighbors_of fpp (nodes s) ?n) s = Some (s1, full)"
        "path_ok wk fpp startPos s1" "advances s s1" "length (nodes s) \<le> length (nodes s1)"
        and xy: "\<And>k. k < length (nodes s) \<Longrightarrow> node_x (nodes s1 ! k) = node_x (nodes s ! k) \<and> node_y (nodes s1 ! k) = node_y (nodes s ! k)"
        using visit_ok [OF less.prems(1) assms(2) i(1) refl neighbors_sub, of inRange fpp "nodes s" ?n] by metis
      have run: "search wk inRange pathCondition fpp startPos s found bestMatch =
          (if hit \<and> best = 0 then Some (s, found1)
           else if full \<and> found1 = None then Some (s1, None)
           else search wk inRange pathCondition fpp startPos (closeNode i s1) found1 best)"
        using go by (subst unfold) (auto simp: Some pc v(1) Let_def found1_def)
      have pos: "node_pos startPos (nodes s1 ! k) = node_pos startPos (nodes s ! k)" if "k < length (nodes s)" for k
        using xy [OF that] by (simp add: node_pos_def)
      have f2: "found_ok pathCondition startPos (closeNode i s1) found1"
        using f1 v(4) pos unfolding found_ok_def closeNode_simps by fastforce
      have "(closeNode i s1, s) \<in> search_order"
      proof -
        have "length (nodes s1) \<le> MAX_NODES" using v(2) by (simp add: path_ok_def)
        moreover have "open_count (closeNode i s) < open_count s"
          using closeNode_count i less.prems(1) by (simp add: path_ok_def)
        ultimately show ?thesis using v(3) by (auto simp: search_order_def advances_def)
      qed
      from less.IH [OF this closeNode_ok [OF v(2)] f2] have ih: "\<exists>s' found'.
          search wk inRange pathCondition fpp startPos (closeNode i s1) found1 best = Some (s', found')
          \<and> path_ok wk fpp startPos s' \<and> found_ok pathCondition startPos s' found'" by blast
      have none: "found_ok pathCondition startPos s1 None" by (simp add: found_ok_def)
      show ?thesis unfolding run using less.prems(1) f1 v(2) none ih by simp
    qed
  qed
qed

subsection \<open>The path\<close>

fun visits :: "Position \<Rightarrow> Direction list \<Rightarrow> Position list" where
  "visits p [] = []"
| "visits p (d # ds) = getNextPosition d p # visits (getNextPosition d p) ds"

lemma visits_append: "visits p (ds @ es) = visits p ds @ visits (fold getNextPosition ds p) es"
  by (induction ds arbitrary: p) simp_all

lemma step_offset:
  fixes a a' :: "16 word"
  assumes "k \<in> {-1, 0, 1}" and "a' = a + word_of_int k" and "a \<noteq> -1" "a' \<noteq> -1"
  shows "uint a - uint a' = - k"
proof -
  have up: "uint (b + 1) = uint b + 1" if "b \<noteq> -1" for b :: "16 word"
  proof -
    have "1 + b \<noteq> 0" using that by (metis add.commute eq_neg_iff_add_eq_0)
    from unatSuc [OF this] have "int (unat (1 + b)) = int (unat b) + 1" by linarith
    then show ?thesis unfolding uint_nat by (metis add.commute)
  qed
  from assms(1) consider "k = -1" | "k = 0" | "k = 1" by blast
  then show ?thesis
  proof cases
    case 1
    then have "a = a' + 1" using assms(2) by simp
    then show ?thesis using up [OF assms(4)] 1 by simp
  next
    case 3
    then have "a' = a + 1" using assms(2) by simp
    then show ?thesis using up [OF assms(3)] 3 by simp
  qed (simp add: assms(2))
qed

lemma step_back:
  assumes "d \<in> set allNeighbors" and "x' = x + word_of_int (fst d)" "y' = y + word_of_int (snd d)"
    and "x \<noteq> -1" "y \<noteq> -1" "x' \<noteq> -1" "y' \<noteq> -1"
  shows "\<exists>e. step_dir (uint x - uint x') (uint y - uint y') = Some e \<and> getNextPosition e (Position x y z) = Position x' y' z"
proof -
  have k: "fst d \<in> {-1, 0, 1}" "snd d \<in> {-1, 0, 1}" "d \<noteq> (0, 0)" using assms(1) by (auto simp: allNeighbors_def)
  have "step_dir (uint x - uint x') (uint y - uint y') = step_dir (- fst d) (- snd d)"
    using step_offset [OF k(1) assms(2,4,6)] step_offset [OF k(2) assms(3,5,7)] by simp
  moreover have "\<exists>e. step_dir (- fst d) (- snd d) = Some e \<and> getNextPosition e (Position x y z) = Position (x + word_of_int (fst d)) (y + word_of_int (snd d)) z"
    using assms(1) unfolding allNeighbors_def by (auto simp: step_dir_def)
  ultimately show ?thesis using assms(2,3) by simp
qed

lemma node_has_tile:
  assumes "path_ok wk fpp startPos s" and "on_tile wk startPos" and "i < length (nodes s)"
  shows "wk_tile wk (node_pos startPos (nodes s ! i)) \<noteq> None"
proof (cases "i = 0")
  case True
  then have "node_pos startPos (nodes s ! i) = startPos"
    using assms(1) by (cases startPos) (simp add: path_ok_def node_pos_def)
  then show ?thesis using assms(2) by (simp add: on_tile_def)
next
  case False
  then have "linked wk fpp startPos (nodes s) i" using assms(1,3) by (simp add: path_ok_def)
  then have "canWalkTo wk (node_pos startPos (nodes s ! i)) \<noteq> None" unfolding linked_def reached_def by blast
  then show ?thesis by (rule canWalkTo_tile)
qed

lemma trace_back_ok:
  assumes "path_ok wk fpp startPos s" and "on_tile wk startPos" and "edge_free wk" and "j < length (nodes s)"
  shows "\<exists>ds. (\<forall>rest. trace_back (nodes s) (node_x (nodes s ! j), node_y (nodes s ! j)) (node_parent (nodes s ! j)) rest = Some (ds @ rest))
    \<and> fold getNextPosition ds startPos = node_pos startPos (nodes s ! j)
    \<and> (\<forall>p\<in>set (visits startPos ds). reached wk fpp startPos p)"
  using assms(4)
proof (induction "nat (node_f (nodes s ! j))" arbitrary: j rule: less_induct)
  case less
  let ?ns = "nodes s"
  have free: "node_x (?ns ! i) \<noteq> -1 \<and> node_y (?ns ! i) \<noteq> -1" if "i < length ?ns" for i
    using node_has_tile [OF assms(1,2) that] assms(3) unfolding edge_free_def node_pos_def by fastforce
  show ?case
  proof (cases "j = 0")
    case True
    then have "?ns ! j = \<lparr>node_parent = None, node_f = 0, node_x = posx startPos, node_y = posy startPos\<rparr>"
      using assms(1) by (simp add: path_ok_def)
    then have "node_parent (?ns ! j) = None" "node_pos startPos (?ns ! j) = startPos" by (simp_all add: node_pos_def)
    then show ?thesis by (intro exI [of _ "[]"]) (subst trace_back.simps, simp)
  next
    case False
    then have "linked wk fpp startPos ?ns j" using assms(1) less.prems by (simp add: path_ok_def)
    then obtain p d where p: "node_parent (?ns ! j) = Some p" "p < length ?ns" "node_f (?ns ! p) + 10 \<le> node_f (?ns ! j)"
      and d: "d \<in> set allNeighbors" "node_x (?ns ! j) = node_x (?ns ! p) + word_of_int (fst d)"
        "node_y (?ns ! j) = node_y (?ns ! p) + word_of_int (snd d)"
      and r: "reached wk fpp startPos (node_pos startPos (?ns ! j))"
      unfolding linked_def by blast
    have "0 \<le> node_f (?ns ! p)" using assms(1) p(2) by (simp add: path_ok_def)
    then have "nat (node_f (?ns ! p)) < nat (node_f (?ns ! j))" using p(3) by linarith
    from less.hyps [OF this p(2)] obtain ds where
      ds: "\<And>rest. trace_back ?ns (node_x (?ns ! p), node_y (?ns ! p)) (node_parent (?ns ! p)) rest = Some (ds @ rest)"
        "fold getNextPosition ds startPos = node_pos startPos (?ns ! p)" "\<forall>q\<in>set (visits startPos ds). reached wk fpp startPos q"
      by blast
    obtain e where e: "step_dir (uint (node_x (?ns ! p)) - uint (node_x (?ns ! j))) (uint (node_y (?ns ! p)) - uint (node_y (?ns ! j))) = Some e"
      "getNextPosition e (node_pos startPos (?ns ! p)) = node_pos startPos (?ns ! j)"
      using step_back [OF d, of "posz startPos"] free [OF p(2)] free [OF less.prems] unfolding node_pos_def by blast
    have "trace_back ?ns (node_x (?ns ! j), node_y (?ns ! j)) (node_parent (?ns ! j)) rest = Some ((ds @ [e]) @ rest)" for rest
      by (subst trace_back.simps) (simp add: p(1) e(1) ds(1))
    then show ?thesis
      by (intro exI [of _ "ds @ [e]"]) (use ds(2,3) e(2) r in \<open>auto simp: visits_append\<close>)
  qed
qed

lemma new_AStarNodes_ok: "path_ok wk fpp startPos (new_AStarNodes (posx startPos) (posy startPos))"
  by (simp add: path_ok_def new_AStarNodes_def MAX_NODES_def)

text \<open>C30: The A* search (\<open>Map::getPathMatching\<close>) always answers: the loop over the open nodes ends, and so does the loop that follows the parents
  back. When it answers with a list of directions, each step of the walk from the start is to a tile the creature can walk to, within the
  search distance when there is one, and the walk ends where the pathing condition holds. Asked are a tile under the creature
  and no tile on the last column or row of coordinates.
\<close>

theorem path_is_walkable:
  assumes "on_tile wk startPos" and "edge_free wk"
  shows "\<exists>r. getPathMatching wk inRange pathCondition fpp startPos = Some r
    \<and> (\<forall>ds. r = Some ds \<longrightarrow> (\<forall>p\<in>set (visits startPos ds). reached wk fpp startPos p)
        \<and> (\<exists>b. fst (pathCondition (fold getNextPosition ds startPos) b)))"
proof -
  have "found_ok pathCondition startPos (new_AStarNodes (posx startPos) (posy startPos)) None" by (simp add: found_ok_def)
  from search_returns [OF new_AStarNodes_ok assms(1) this, where fpp = fpp and inRange = inRange and bestMatch = 0] obtain s found
    where s: "search wk inRange pathCondition fpp startPos (new_AStarNodes (posx startPos) (posy startPos)) None 0 = Some (s, found)"
      "path_ok wk fpp startPos s" "found_ok pathCondition startPos s found" by blast
  show ?thesis
  proof (cases found)
    case None
    then show ?thesis by (simp add: getPathMatching_def s(1))
  next
    case (Some j)
    then have j: "j < length (nodes s)" "\<exists>b. fst (pathCondition (node_pos startPos (nodes s ! j)) b)"
      using s(3) by (simp_all add: found_ok_def)
    from trace_back_ok [OF s(2) assms j(1)] obtain ds where
      "\<And>rest. trace_back (nodes s) (node_x (nodes s ! j), node_y (nodes s ! j)) (node_parent (nodes s ! j)) rest = Some (ds @ rest)"
      "fold getNextPosition ds startPos = node_pos startPos (nodes s ! j)" "\<forall>p\<in>set (visits startPos ds). reached wk fpp startPos p" by blast
    then show ?thesis using j(2) by (intro exI [of _ "Some ds"]) (simp add: getPathMatching_def s(1) Some Let_def)
  qed
qed

lemma search_step:
  assumes "maxSearchDist fpp \<noteq> 0 \<or> closedNodes s < 100" and "getBestNode s = Some i"
    and "pathCondition (node_pos startPos (nodes s ! i)) bestMatch = (False, best)"
    and "visit_neighbors wk inRange fpp startPos i (node_f (nodes s ! i)) (neighbors_of fpp (nodes s) (nodes s ! i)) s = Some (t, False)"
  shows "search wk inRange pathCondition fpp startPos s found bestMatch
    = search wk inRange pathCondition fpp startPos (closeNode i t) found best"
  by (subst search.simps) (use assms in \<open>simp add: Let_def\<close>)

lemma search_hit:
  assumes "maxSearchDist fpp \<noteq> 0 \<or> closedNodes s < 100" and "getBestNode s = Some i"
    and "pathCondition (node_pos startPos (nodes s ! i)) bestMatch = (True, 0)"
  shows "search wk inRange pathCondition fpp startPos s found bestMatch = Some (s, Some i)"
  by (subst search.simps) (use assms in \<open>simp add: Let_def\<close>)

definition corridor :: "unit walker" where
  "corridor = \<lparr>wk_tile = (\<lambda>p. if posx p \<in> {100, 101} \<and> posy p = 100 \<and> posz p = 7 then Some () else None), wk_walkCache = (\<lambda>p. 2),
     wk_ownTile = (\<lambda>t. False), wk_queryAdd = (\<lambda>t. True), wk_canPush = None, wk_blocking = (\<lambda>t. None), wk_fieldHurts = (\<lambda>t. False)\<rparr>"

definition corridor_end :: "Position \<Rightarrow> int \<Rightarrow> bool \<times> int" where
  "corridor_end p b = (posx p = 101, 0)"

lemma corridor_path:
  "getPathMatching corridor (\<lambda>p. True) corridor_end default_FindPathParams (Position 100 100 7) = Some (Some [DIRECTION_EAST])"
proof -
  let ?s = "new_AStarNodes 100 100" and ?p = "Position 100 100 7" and ?f = default_FindPathParams
  let ?n = "\<lparr>node_parent = Some 0, node_f = 10, node_x = 101, node_y = 100\<rparr>"
  let ?s1 = "\<lparr>nodes = nodes ?s @ [?n], openNodes = [True, True], nodeTable = (nodeTable ?s)(node_key 101 100 \<mapsto> 1), closedNodes = 0\<rparr>"
  have "visit_neighbors corridor (\<lambda>p. True) ?f ?p 0 0 allNeighbors ?s = Some (?s1, False)"
    by (simp add: allNeighbors_def default_FindPathParams_def corridor_def canWalkTo_def getNodeByPosition_def new_AStarNodes_def node_key_inj
        createOpenNode_def MAX_NODES_def getMapWalkCost_def getTileWalkCost_def MAP_NORMALWALKCOST_def getX_def getY_def)
  then have "search corridor (\<lambda>p. True) corridor_end ?f ?p ?s None 0 = search corridor (\<lambda>p. True) corridor_end ?f ?p (closeNode 0 ?s1) None 0"
    by (intro search_step [where t = ?s1])
      (simp_all add: default_FindPathParams_def new_AStarNodes_def getBestNode_def corridor_end_def node_pos_def neighbors_of_def)
  also have "... = Some (closeNode 0 ?s1, Some 1)"
    by (intro search_hit) (simp_all add: closeNode_def default_FindPathParams_def new_AStarNodes_def getBestNode_def corridor_end_def node_pos_def)
  finally show ?thesis
    by (simp add: getPathMatching_def new_AStarNodes_def trace_back.simps [of _ _ "Some 0"] trace_back.simps [of _ _ None] step_dir_def)
qed

theorem path_is_walkable_witness:
  "getPathMatching corridor (\<lambda>p. True) corridor_end default_FindPathParams (Position 100 100 7) = Some (Some [DIRECTION_EAST])
   \<and> reached corridor default_FindPathParams (Position 100 100 7) (Position 101 100 7)"
proof -
  have "on_tile corridor (Position 100 100 7)" and "edge_free corridor"
    by (auto simp: on_tile_def edge_free_def corridor_def split: if_splits)
  from path_is_walkable [OF this, of "\<lambda>p. True" corridor_end default_FindPathParams]
  show ?thesis by (simp add: corridor_path)
qed

end
