(* ===== verification/Tile_Model.thy ===== *)
theory Tile_Model
  imports Item_Attributes Tools_Model Position_Model
begin

section \<open>Tiles\<close>

text \<open>
  The things on a tile (src/src/tile.cpp, \<open>tile.h\<close>): the ground, the vector of items (down items first, then the items that are always on top),
  the creatures, and the flags that sum up what lies there. Things are indices; what an item is (id, count, attributes) is in \<open>things\<close>, and its C++
  class (teleport, field, mailbox, ...) and the item table come from \<open>tile_env\<close>. \<open>owned\<close> is the set of things whose parent is this tile. A null
  vector of a \<open>StaticTile\<close> is an empty list here: every operation treats them alike. What a tile tells the clients, the map and the game is a list of
  messages, \<open>sent\<close>, newest first; movement scripts are not run.
\<close>

datatype thing_class = CItem | CTeleport | CMagicField | CMailbox | CTrashHolder | CBed | CDepotLocker

datatype thing = TItem nat | TCreature nat

datatype ITEMPROPERTY =
    CONST_PROP_BLOCKSOLID | CONST_PROP_HASHEIGHT | CONST_PROP_BLOCKPROJECTILE | CONST_PROP_BLOCKPATH | CONST_PROP_ISVERTICAL
  | CONST_PROP_ISHORIZONTAL | CONST_PROP_MOVEABLE | CONST_PROP_IMMOVABLEBLOCKSOLID | CONST_PROP_IMMOVABLEBLOCKPATH
  | CONST_PROP_IMMOVABLENOFIELDBLOCKPATH | CONST_PROP_NOFIELDBLOCKPATH | CONST_PROP_SUPPORTHANGABLE

record tile_type = ItemType +
  tt_ground :: bool
  tt_splash :: bool
  tt_magicField :: bool
  tt_bed :: bool
  tt_floorChange :: "8 word"
  tt_alwaysOnTopOrder :: "8 word"
  tt_alwaysOnTop :: bool
  tt_blockSolid :: bool
  tt_blockPathFind :: bool
  tt_blockProjectile :: bool
  tt_hasHeight :: bool
  tt_allowPickupable :: bool
  tt_isVertical :: bool
  tt_isHorizontal :: bool
  tt_isHangable :: bool
  tt_lookThrough :: bool
  tt_forceUse :: bool
  tt_replaceable :: bool
  tt_combatType :: nat

definition TILESTATE_FLOORCHANGE_DOWN :: u32 where "TILESTATE_FLOORCHANGE_DOWN = push_bit 0 1"
definition TILESTATE_FLOORCHANGE_NORTH :: u32 where "TILESTATE_FLOORCHANGE_NORTH = push_bit 1 1"
definition TILESTATE_FLOORCHANGE_SOUTH :: u32 where "TILESTATE_FLOORCHANGE_SOUTH = push_bit 2 1"
definition TILESTATE_FLOORCHANGE_EAST :: u32 where "TILESTATE_FLOORCHANGE_EAST = push_bit 3 1"
definition TILESTATE_FLOORCHANGE_WEST :: u32 where "TILESTATE_FLOORCHANGE_WEST = push_bit 4 1"
definition TILESTATE_FLOORCHANGE_SOUTH_ALT :: u32 where "TILESTATE_FLOORCHANGE_SOUTH_ALT = push_bit 5 1"
definition TILESTATE_FLOORCHANGE_EAST_ALT :: u32 where "TILESTATE_FLOORCHANGE_EAST_ALT = push_bit 6 1"
definition TILESTATE_PROTECTIONZONE :: u32 where "TILESTATE_PROTECTIONZONE = push_bit 7 1"
definition TILESTATE_NOPVPZONE :: u32 where "TILESTATE_NOPVPZONE = push_bit 8 1"
definition TILESTATE_NOLOGOUT :: u32 where "TILESTATE_NOLOGOUT = push_bit 9 1"
definition TILESTATE_PVPZONE :: u32 where "TILESTATE_PVPZONE = push_bit 10 1"
definition TILESTATE_TELEPORT :: u32 where "TILESTATE_TELEPORT = push_bit 11 1"
definition TILESTATE_MAGICFIELD :: u32 where "TILESTATE_MAGICFIELD = push_bit 12 1"
definition TILESTATE_MAILBOX :: u32 where "TILESTATE_MAILBOX = push_bit 13 1"
definition TILESTATE_TRASHHOLDER :: u32 where "TILESTATE_TRASHHOLDER = push_bit 14 1"
definition TILESTATE_BED :: u32 where "TILESTATE_BED = push_bit 15 1"
definition TILESTATE_DEPOT :: u32 where "TILESTATE_DEPOT = push_bit 16 1"
definition TILESTATE_BLOCKSOLID :: u32 where "TILESTATE_BLOCKSOLID = push_bit 17 1"
definition TILESTATE_BLOCKPATH :: u32 where "TILESTATE_BLOCKPATH = push_bit 18 1"
definition TILESTATE_IMMOVABLEBLOCKSOLID :: u32 where "TILESTATE_IMMOVABLEBLOCKSOLID = push_bit 19 1"
definition TILESTATE_IMMOVABLEBLOCKPATH :: u32 where "TILESTATE_IMMOVABLEBLOCKPATH = push_bit 20 1"
definition TILESTATE_IMMOVABLENOFIELDBLOCKPATH :: u32 where "TILESTATE_IMMOVABLENOFIELDBLOCKPATH = push_bit 21 1"
definition TILESTATE_NOFIELDBLOCKPATH :: u32 where "TILESTATE_NOFIELDBLOCKPATH = push_bit 22 1"
definition TILESTATE_SUPPORTS_HANGABLE :: u32 where "TILESTATE_SUPPORTS_HANGABLE = push_bit 23 1"
definition TILESTATE_FLOORCHANGE :: u32 where "TILESTATE_FLOORCHANGE = mask 7"

definition hasBitSet :: "u32 \<Rightarrow> u32 \<Rightarrow> bool" where
  "hasBitSet flag fs \<longleftrightarrow> fs AND flag \<noteq> 0"

datatype creature_kind = KMonster | KPlayer | KNpc

record tile_creature =
  tc_kind :: creature_kind
  tc_ghost :: bool
  tc_pushable :: bool
  tc_canPushCreatures :: bool
  tc_canPushItems :: bool
  tc_summon :: bool
  tc_ofPlayer :: bool
  tc_access :: bool
  tc_placed :: bool
  tc_pzLocked :: bool
  tc_tileFlags :: "u32 option"
  tc_immune :: "nat \<Rightarrow> bool"
  tc_afflicted :: "nat \<Rightarrow> bool"

record tile_env =
  te_types :: "16 word \<Rightarrow> tile_type"
  te_class :: "nat \<Rightarrow> thing_class"
  te_creature :: "nat \<Rightarrow> tile_creature"

datatype tile_out =
    Out_Add nat | Out_Update nat nat | Out_Remove nat "(nat \<Rightarrow> bool) \<Rightarrow> int" | Out_PostRemove nat bool | Out_Release nat | Out_ClearCache

record tile =
  ground :: "nat option"
  tileItems :: "nat list"
  downItemCount :: nat
  creatures :: "nat list"
  flags :: u32
  tilePos :: Position
  things :: "nat \<Rightarrow> item"
  owned :: "thing set"
  sent :: "tile_out list"

definition item_types :: "tile_env \<Rightarrow> item_table" where
  "item_types e = (\<lambda>n. ItemType.truncate (te_types e n))"

definition type_of :: "tile_env \<Rightarrow> tile \<Rightarrow> nat \<Rightarrow> tile_type" where
  "type_of e t i = te_types e (i_id (things t i))"

definition onTop :: "tile_env \<Rightarrow> tile \<Rightarrow> nat \<Rightarrow> bool" where
  "onTop e t i = tt_alwaysOnTop (type_of e t i)"

definition item_hasProperty :: "tile_env \<Rightarrow> item \<Rightarrow> ITEMPROPERTY \<Rightarrow> bool" where
  "item_hasProperty e i prop =
     (let it = te_types e (i_id i) in
      case prop of
        CONST_PROP_BLOCKSOLID \<Rightarrow> tt_blockSolid it
      | CONST_PROP_MOVEABLE \<Rightarrow> it_moveable it \<and> \<not> item_has i ITEM_ATTRIBUTE_UNIQUEID
      | CONST_PROP_HASHEIGHT \<Rightarrow> tt_hasHeight it
      | CONST_PROP_BLOCKPROJECTILE \<Rightarrow> tt_blockProjectile it
      | CONST_PROP_BLOCKPATH \<Rightarrow> tt_blockPathFind it
      | CONST_PROP_ISVERTICAL \<Rightarrow> tt_isVertical it
      | CONST_PROP_ISHORIZONTAL \<Rightarrow> tt_isHorizontal it
      | CONST_PROP_IMMOVABLEBLOCKSOLID \<Rightarrow> tt_blockSolid it \<and> (\<not> it_moveable it \<or> item_has i ITEM_ATTRIBUTE_UNIQUEID)
      | CONST_PROP_IMMOVABLEBLOCKPATH \<Rightarrow> tt_blockPathFind it \<and> (\<not> it_moveable it \<or> item_has i ITEM_ATTRIBUTE_UNIQUEID)
      | CONST_PROP_IMMOVABLENOFIELDBLOCKPATH \<Rightarrow>
          \<not> tt_magicField it \<and> tt_blockPathFind it \<and> (\<not> it_moveable it \<or> item_has i ITEM_ATTRIBUTE_UNIQUEID)
      | CONST_PROP_NOFIELDBLOCKPATH \<Rightarrow> \<not> tt_magicField it \<and> tt_blockPathFind it
      | CONST_PROP_SUPPORTHANGABLE \<Rightarrow> tt_isHorizontal it \<or> tt_isVertical it)"

definition has_prop :: "tile_env \<Rightarrow> tile \<Rightarrow> ITEMPROPERTY \<Rightarrow> nat \<Rightarrow> bool" where
  "has_prop e t prop i = item_hasProperty e (things t i) prop"

definition tile_hasProperty :: "tile_env \<Rightarrow> tile \<Rightarrow> ITEMPROPERTY \<Rightarrow> bool" where
  "tile_hasProperty e t prop \<longleftrightarrow>
     (case ground t of Some g \<Rightarrow> has_prop e t prop g | None \<Rightarrow> False) \<or> list_ex (has_prop e t prop) (tileItems t)"

definition tile_hasPropertyBut :: "tile_env \<Rightarrow> tile \<Rightarrow> nat \<Rightarrow> ITEMPROPERTY \<Rightarrow> bool" where
  "tile_hasPropertyBut e t exclude prop \<longleftrightarrow>
     (case ground t of Some g \<Rightarrow> exclude \<noteq> g \<and> has_prop e t prop g | None \<Rightarrow> False)
     \<or> list_ex (\<lambda>i. i \<noteq> exclude \<and> has_prop e t prop i) (tileItems t)"

definition hasFlag :: "u32 \<Rightarrow> tile \<Rightarrow> bool" where
  "hasFlag flag t = hasBitSet flag (flags t)"

definition setFlag :: "u32 \<Rightarrow> tile \<Rightarrow> tile" where
  "setFlag flag t = t\<lparr>flags := flags t OR flag\<rparr>"

definition resetFlag :: "u32 \<Rightarrow> tile \<Rightarrow> tile" where
  "resetFlag flag t = t\<lparr>flags := flags t AND NOT flag\<rparr>"

definition flag_if :: "bool \<Rightarrow> u32 \<Rightarrow> tile \<Rightarrow> tile" where
  "flag_if c flag t = (if c then setFlag flag t else t)"

definition unflag_if :: "bool \<Rightarrow> u32 \<Rightarrow> tile \<Rightarrow> tile" where
  "unflag_if c flag t = (if c then resetFlag flag t else t)"

definition setTileFlags :: "tile_env \<Rightarrow> nat \<Rightarrow> tile \<Rightarrow> tile" where
  "setTileFlags e i t =
     (let t = (if \<not> hasFlag TILESTATE_FLOORCHANGE t
               then flag_if (tt_floorChange (type_of e t i) \<noteq> 0) (ucast (tt_floorChange (type_of e t i))) t else t);
          t = flag_if (has_prop e t CONST_PROP_IMMOVABLEBLOCKSOLID i) TILESTATE_IMMOVABLEBLOCKSOLID t;
          t = flag_if (has_prop e t CONST_PROP_BLOCKPATH i) TILESTATE_BLOCKPATH t;
          t = flag_if (has_prop e t CONST_PROP_NOFIELDBLOCKPATH i) TILESTATE_NOFIELDBLOCKPATH t;
          t = flag_if (has_prop e t CONST_PROP_IMMOVABLENOFIELDBLOCKPATH i) TILESTATE_IMMOVABLENOFIELDBLOCKPATH t;
          t = flag_if (te_class e i = CTeleport) TILESTATE_TELEPORT t;
          t = flag_if (te_class e i = CMagicField) TILESTATE_MAGICFIELD t;
          t = flag_if (te_class e i = CMailbox) TILESTATE_MAILBOX t;
          t = flag_if (te_class e i = CTrashHolder) TILESTATE_TRASHHOLDER t;
          t = flag_if (has_prop e t CONST_PROP_BLOCKSOLID i) TILESTATE_BLOCKSOLID t;
          t = flag_if (te_class e i = CBed) TILESTATE_BED t;
          t = flag_if (te_class e i = CDepotLocker) TILESTATE_DEPOT t
      in flag_if (has_prop e t CONST_PROP_SUPPORTHANGABLE i) TILESTATE_SUPPORTS_HANGABLE t)"

definition last_with :: "tile_env \<Rightarrow> ITEMPROPERTY \<Rightarrow> nat \<Rightarrow> tile \<Rightarrow> bool" where
  "last_with e prop i t \<longleftrightarrow> has_prop e t prop i \<and> \<not> tile_hasPropertyBut e t i prop"

definition resetTileFlags :: "tile_env \<Rightarrow> nat \<Rightarrow> tile \<Rightarrow> tile" where
  "resetTileFlags e i t =
     (let t = unflag_if (tt_floorChange (type_of e t i) \<noteq> 0) TILESTATE_FLOORCHANGE t;
          t = unflag_if (last_with e CONST_PROP_BLOCKSOLID i t) TILESTATE_BLOCKSOLID t;
          t = unflag_if (last_with e CONST_PROP_IMMOVABLEBLOCKSOLID i t) TILESTATE_IMMOVABLEBLOCKSOLID t;
          t = unflag_if (last_with e CONST_PROP_BLOCKPATH i t) TILESTATE_BLOCKPATH t;
          t = unflag_if (last_with e CONST_PROP_NOFIELDBLOCKPATH i t) TILESTATE_NOFIELDBLOCKPATH t;
          t = unflag_if (last_with e CONST_PROP_IMMOVABLEBLOCKPATH i t) TILESTATE_IMMOVABLEBLOCKPATH t;
          t = unflag_if (last_with e CONST_PROP_IMMOVABLENOFIELDBLOCKPATH i t) TILESTATE_IMMOVABLENOFIELDBLOCKPATH t;
          t = unflag_if (te_class e i = CTeleport) TILESTATE_TELEPORT t;
          t = unflag_if (te_class e i = CMagicField) TILESTATE_MAGICFIELD t;
          t = unflag_if (te_class e i = CMailbox) TILESTATE_MAILBOX t;
          t = unflag_if (te_class e i = CTrashHolder) TILESTATE_TRASHHOLDER t;
          t = unflag_if (te_class e i = CBed) TILESTATE_BED t;
          t = unflag_if (te_class e i = CDepotLocker) TILESTATE_DEPOT t
      in unflag_if (has_prop e t CONST_PROP_SUPPORTHANGABLE i) TILESTATE_SUPPORTS_HANGABLE t)"

subsection \<open>Looking things up\<close>

definition downs :: "tile \<Rightarrow> nat list" where
  "downs t = take (downItemCount t) (tileItems t)"

definition tops :: "tile \<Rightarrow> nat list" where
  "tops t = drop (downItemCount t) (tileItems t)"

definition groundCount :: "tile \<Rightarrow> nat" where
  "groundCount t = (if ground t = None then 0 else 1)"

definition getThingCount :: "tile \<Rightarrow> nat" where
  "getThingCount t = length (creatures t) + length (tileItems t) + groundCount t"

fun index_of :: "'a \<Rightarrow> 'a list \<Rightarrow> nat option" where
  "index_of x [] = None"
| "index_of x (y # ys) = (if y = x then Some 0 else map_option Suc (index_of x ys))"

definition getThingIndex :: "tile_env \<Rightarrow> tile \<Rightarrow> thing \<Rightarrow> nat option" where
  "getThingIndex e t x =
     (case x of
        TItem i \<Rightarrow>
          if ground t = Some i then Some 0
          else if onTop e t i then map_option (\<lambda>k. groundCount t + k) (index_of i (tops t))
          else map_option (\<lambda>k. groundCount t + length (tops t) + length (creatures t) + k) (index_of i (downs t))
      | TCreature c \<Rightarrow> map_option (\<lambda>k. groundCount t + length (tops t) + k) (index_of c (creatures t)))"

definition getThing :: "tile \<Rightarrow> nat \<Rightarrow> thing option" where
  "getThing t index =
     (if ground t \<noteq> None \<and> index = 0 then map_option TItem (ground t)
      else
        let index = index - groundCount t
        in if index < length (tops t) then Some (TItem (tops t ! index))
           else
             let index = index - length (tops t)
             in if index < length (creatures t) then Some (TCreature (creatures t ! index))
                else
                  let index = index - length (creatures t)
                  in if index < length (downs t) then Some (TItem (downs t ! index)) else None)"

text \<open>The stack positions told to a client who sees the creatures \<open>sees\<close>. A loop ends with an answer (\<open>Inl\<close>) or with the count so far (\<open>Inr\<close>).\<close>

fun scan_items :: "nat \<Rightarrow> nat list \<Rightarrow> nat \<Rightarrow> int + nat" where
  "scan_items i [] n = Inr n"
| "scan_items i (y # ys) n = (if y = i then Inl (int n) else if Suc n \<ge> 10 then Inl (-1) else scan_items i ys (Suc n))"

fun scan_creatures :: "(nat \<Rightarrow> bool) \<Rightarrow> nat list \<Rightarrow> nat \<Rightarrow> int + nat" where
  "scan_creatures sees [] n = Inr n"
| "scan_creatures sees (c # cs) n =
     (if sees c then if Suc n \<ge> 10 then Inl (-1) else scan_creatures sees cs (Suc n) else scan_creatures sees cs n)"

definition getStackposOfItem :: "tile_env \<Rightarrow> tile \<Rightarrow> (nat \<Rightarrow> bool) \<Rightarrow> nat \<Rightarrow> int" where
  "getStackposOfItem e t sees i =
     (if ground t = Some i then 0
      else
        case (if onTop e t i then scan_items i (tops t) (groundCount t)
              else if groundCount t + length (tops t) \<ge> 10 then Inl (-1) else Inr (groundCount t + length (tops t))) of
          Inl r \<Rightarrow> r
        | Inr n \<Rightarrow>
            (case scan_creatures sees (creatures t) n of
               Inl r \<Rightarrow> r
             | Inr n \<Rightarrow> if onTop e t i then -1 else (case scan_items i (downs t) n of Inl r \<Rightarrow> r | Inr _ \<Rightarrow> -1)))"

fun client_scan :: "(nat \<Rightarrow> bool) \<Rightarrow> nat \<Rightarrow> nat option \<Rightarrow> nat list \<Rightarrow> nat \<Rightarrow> int" where
  "client_scan sees creature limit [] n = -1"
| "client_scan sees creature limit (c # cs) n =
     (if c = creature then int n
      else if sees c
      then if (case limit of None \<Rightarrow> False | Some l \<Rightarrow> Suc n \<ge> l) then -1 else client_scan sees creature limit cs (Suc n)
      else client_scan sees creature limit cs n)"

definition getClientIndexOfCreature :: "tile \<Rightarrow> (nat \<Rightarrow> bool) \<Rightarrow> nat \<Rightarrow> int" where
  "getClientIndexOfCreature t sees creature = client_scan sees creature None (rev (creatures t)) (groundCount t + length (tops t))"

definition getStackposOfCreature :: "tile \<Rightarrow> (nat \<Rightarrow> bool) \<Rightarrow> nat \<Rightarrow> int" where
  "getStackposOfCreature t sees creature =
     (if groundCount t + length (tops t) \<ge> 10 then -1
      else client_scan sees creature (Some 10) (rev (creatures t)) (groundCount t + length (tops t)))"

definition getTopCreature :: "tile \<Rightarrow> nat option" where
  "getTopCreature t = (case creatures t of [] \<Rightarrow> None | c # _ \<Rightarrow> Some c)"

definition getBottomCreature :: "tile \<Rightarrow> nat option" where
  "getBottomCreature t = (case rev (creatures t) of [] \<Rightarrow> None | c # _ \<Rightarrow> Some c)"

text \<open>The viewer is \<open>Some (access, sees)\<close>, or nobody: then everybody visible and not in ghost mode is seen (\<open>plain\<close>).\<close>

definition getTopVisibleCreature :: "(nat \<Rightarrow> bool) \<Rightarrow> (bool \<times> (nat \<Rightarrow> bool)) option \<Rightarrow> tile \<Rightarrow> nat option" where
  "getTopVisibleCreature plain viewer t =
     (case viewer of
        Some (access, sees) \<Rightarrow> if access then getTopCreature t else find sees (creatures t)
      | None \<Rightarrow> find plain (creatures t))"

definition getBottomVisibleCreature :: "(nat \<Rightarrow> bool) \<Rightarrow> (bool \<times> (nat \<Rightarrow> bool)) option \<Rightarrow> tile \<Rightarrow> nat option" where
  "getBottomVisibleCreature plain viewer t =
     (case viewer of
        Some (access, sees) \<Rightarrow> if access then getBottomCreature t else find sees (rev (creatures t))
      | None \<Rightarrow> find plain (rev (creatures t)))"

definition getTopDownItem :: "tile \<Rightarrow> nat option" where
  "getTopDownItem t = (if downItemCount t = 0 then None else Some (hd (tileItems t)))"

definition getTopTopItem :: "tile \<Rightarrow> nat option" where
  "getTopTopItem t = (if length (tops t) = 0 then None else Some (last (tops t)))"

definition getItemByTopOrder :: "tile_env \<Rightarrow> 8 word \<Rightarrow> tile \<Rightarrow> nat option" where
  "getItemByTopOrder e topOrder t = find (\<lambda>i. tt_alwaysOnTopOrder (type_of e t i) = topOrder) (rev (tops t))"

definition getTopVisibleThing :: "tile_env \<Rightarrow> (nat \<Rightarrow> bool) \<Rightarrow> (bool \<times> (nat \<Rightarrow> bool)) option \<Rightarrow> tile \<Rightarrow> thing option" where
  "getTopVisibleThing e plain viewer t =
     (case getTopVisibleCreature plain viewer t of
        Some c \<Rightarrow> Some (TCreature c)
      | None \<Rightarrow>
          (case find (\<lambda>i. \<not> tt_lookThrough (type_of e t i)) (downs t) of
             Some i \<Rightarrow> Some (TItem i)
           | None \<Rightarrow>
               (case find (\<lambda>i. \<not> tt_lookThrough (type_of e t i)) (rev (tops t)) of
                  Some i \<Rightarrow> Some (TItem i)
                | None \<Rightarrow> map_option TItem (ground t))))"

definition getUseItem :: "tile_env \<Rightarrow> tile \<Rightarrow> nat option" where
  "getUseItem e t =
     (if tileItems t = [] then ground t
      else
        case find (\<lambda>i. tt_forceUse (type_of e t i)) (rev (tileItems t)) of
          Some i \<Rightarrow> Some i
        | None \<Rightarrow> (case getTopDownItem t of Some i \<Rightarrow> Some i | None \<Rightarrow> getTopTopItem t))"

text \<open>The special things of a tile: nothing without the flag, else the ground (not for teleports) or the last item of the class.\<close>

definition getSpecialItem :: "tile_env \<Rightarrow> u32 \<Rightarrow> thing_class \<Rightarrow> tile \<Rightarrow> nat option" where
  "getSpecialItem e flag cls t =
     (if \<not> hasFlag flag t then None
      else
        case (case ground t of Some g \<Rightarrow> if te_class e g = cls then Some g else None | None \<Rightarrow> None) of
          Some g \<Rightarrow> Some g
        | None \<Rightarrow> find (\<lambda>i. te_class e i = cls) (rev (tileItems t)))"

definition getTeleportItem :: "tile_env \<Rightarrow> tile \<Rightarrow> nat option" where
  "getTeleportItem e t = (if \<not> hasFlag TILESTATE_TELEPORT t then None else find (\<lambda>i. te_class e i = CTeleport) (rev (tileItems t)))"

definition getFieldItem :: "tile_env \<Rightarrow> tile \<Rightarrow> nat option" where
  "getFieldItem e = getSpecialItem e TILESTATE_MAGICFIELD CMagicField"

definition getTrashHolder :: "tile_env \<Rightarrow> tile \<Rightarrow> nat option" where
  "getTrashHolder e = getSpecialItem e TILESTATE_TRASHHOLDER CTrashHolder"

definition getMailbox :: "tile_env \<Rightarrow> tile \<Rightarrow> nat option" where
  "getMailbox e = getSpecialItem e TILESTATE_MAILBOX CMailbox"

definition getBedItem :: "tile_env \<Rightarrow> tile \<Rightarrow> nat option" where
  "getBedItem e = getSpecialItem e TILESTATE_BED CBed"

definition isMoveableBlocking :: "tile \<Rightarrow> bool" where
  "isMoveableBlocking t \<longleftrightarrow> ground t = None \<or> hasFlag TILESTATE_BLOCKSOLID t"

fun height_reached :: "nat \<Rightarrow> nat \<Rightarrow> bool list \<Rightarrow> bool" where
  "height_reached n height [] \<longleftrightarrow> False"
| "height_reached n height (h # hs) \<longleftrightarrow> (let height = (if h then Suc height else height) in n = height \<or> height_reached n height hs)"

definition hasHeight :: "tile_env \<Rightarrow> nat \<Rightarrow> tile \<Rightarrow> bool" where
  "hasHeight e n t =
     height_reached n 0 (map (has_prop e t CONST_PROP_HASHEIGHT) ((case ground t of None \<Rightarrow> [] | Some g \<Rightarrow> [g]) @ tileItems t))"

definition getHeight :: "tile_env \<Rightarrow> tile \<Rightarrow> nat" where
  "getHeight e t = length (filter (has_prop e t CONST_PROP_HASHEIGHT) (tileItems t))"

datatype ZoneType_t = ZONE_PROTECTION | ZONE_NOPVP | ZONE_PVP | ZONE_NOLOGOUT | ZONE_NORMAL

definition getZone :: "tile \<Rightarrow> ZoneType_t" where
  "getZone t =
     (if hasFlag TILESTATE_PROTECTIONZONE t then ZONE_PROTECTION
      else if hasFlag TILESTATE_NOPVPZONE t then ZONE_NOPVP
      else if hasFlag TILESTATE_PVPZONE t then ZONE_PVP
      else ZONE_NORMAL)"

subsection \<open>Adding and removing\<close>

definition send :: "tile_out \<Rightarrow> tile \<Rightarrow> tile" where
  "send o1 t = t\<lparr>sent := o1 # sent t\<rparr>"

definition setParent :: "bool \<Rightarrow> thing \<Rightarrow> tile \<Rightarrow> tile" where
  "setParent here x t = t\<lparr>owned := (if here then insert x (owned t) else owned t - {x})\<rparr>"

definition setThing :: "nat \<Rightarrow> item \<Rightarrow> tile \<Rightarrow> tile" where
  "setThing i it t = t\<lparr>things := (things t)(i := it)\<rparr>"

definition onAddTileItem :: "tile_env \<Rightarrow> nat \<Rightarrow> tile \<Rightarrow> tile" where
  "onAddTileItem e i t = send (Out_Add i) (setTileFlags e i t)"

definition onRemoveTileItem :: "tile_env \<Rightarrow> nat \<Rightarrow> ((nat \<Rightarrow> bool) \<Rightarrow> int) \<Rightarrow> tile \<Rightarrow> tile" where
  "onRemoveTileItem e i oldStackPos t = send (Out_Remove i oldStackPos) (resetTileFlags e i t)"

definition postRemoveNotification :: "nat \<Rightarrow> tile \<Rightarrow> tile" where
  "postRemoveNotification i t = send (Out_PostRemove i (getThingCount t > 8)) t"

definition removeItem :: "tile_env \<Rightarrow> nat \<Rightarrow> u32 \<Rightarrow> tile \<Rightarrow> tile" where
  "removeItem e i count t =
     (if getThingIndex e t (TItem i) = None then t
      else if ground t = Some i
      then onRemoveTileItem e i (\<lambda>_. 0) ((setParent False (TItem i) t)\<lparr>ground := None\<rparr>)
      else if onTop e t i
      then if i \<notin> set (tops t) then t
           else onRemoveTileItem e i (\<lambda>sees. getStackposOfItem e t sees i)
                  ((setParent False (TItem i) t)\<lparr>tileItems := downs t @ remove1 i (tops t)\<rparr>)
      else if i \<notin> set (downs t) then t
      else if it_stackable (type_of e t i) \<and> count \<noteq> ucast (i_count (things t i))
      then let rest = ucast (i_count (things t i)) - count;
               newCount = (if sint rest < 0 then 0 else ucast rest)
           in send (Out_Update i i) (setThing i ((things t i)\<lparr>i_count := newCount\<rparr>) t)
      else onRemoveTileItem e i (\<lambda>sees. getStackposOfItem e t sees i)
             ((setParent False (TItem i) t)\<lparr>tileItems := remove1 i (downs t) @ tops t, downItemCount := downItemCount t - 1\<rparr>))"

definition removeThing :: "tile_env \<Rightarrow> thing \<Rightarrow> u32 \<Rightarrow> tile \<Rightarrow> tile" where
  "removeThing e x count t =
     (case x of
        TCreature c \<Rightarrow> if c \<in> set (creatures t) then (send Out_ClearCache t)\<lparr>creatures := remove1 c (creatures t)\<rparr> else t
      | TItem i \<Rightarrow> removeItem e i count t)"

definition drop_thing :: "tile_env \<Rightarrow> nat \<Rightarrow> tile \<Rightarrow> tile" where
  "drop_thing e i t = postRemoveNotification i (send (Out_Release i) (setParent False (TItem i) (removeItem e i 1 t)))"

fun insert_before :: "('a \<Rightarrow> bool) \<Rightarrow> 'a \<Rightarrow> 'a list \<Rightarrow> 'a list" where
  "insert_before P x [] = [x]"
| "insert_before P x (y # ys) = (if P y then x # y # ys else y # insert_before P x ys)"

definition insert_top :: "(nat \<Rightarrow> bool) \<Rightarrow> nat \<Rightarrow> tile \<Rightarrow> tile" where
  "insert_top P i t = t\<lparr>tileItems := downs t @ insert_before P i (tops t)\<rparr>"

definition insert_down :: "nat \<Rightarrow> tile \<Rightarrow> tile" where
  "insert_down i t = t\<lparr>tileItems := i # tileItems t, downItemCount := downItemCount t + 1\<rparr>"

text \<open>The loop over the down items that removes the old fields: the second result says whether the new field may be placed. After a removal it
  starts again.\<close>

partial_function (option) replace_fields :: "tile_env \<Rightarrow> tile \<Rightarrow> (tile \<times> bool) option" where
  "replace_fields e t =
     (case find (\<lambda>i. te_class e i = CMagicField) (downs t) of
        None \<Rightarrow> Some (t, True)
      | Some i \<Rightarrow> if tt_replaceable (type_of e t i) then replace_fields e (drop_thing e i t) else Some (t, False))"

definition addThing :: "tile_env \<Rightarrow> thing \<Rightarrow> tile \<Rightarrow> tile option" where
  "addThing e x t =
     (case x of
        TCreature c \<Rightarrow> Some ((setParent True x (send Out_ClearCache t))\<lparr>creatures := creatures t @ [c]\<rparr>)
      | TItem i \<Rightarrow>
          if length (tileItems t) \<ge> 65535 then Some t
          else
            let t = setParent True x t; it = type_of e t i
            in if tt_ground it
               then (case ground t of
                       None \<Rightarrow> Some (onAddTileItem e i (t\<lparr>ground := Some i\<rparr>))
                     | Some old \<Rightarrow>
                         let t = (send (Out_Release old) (setParent False (TItem old) t))\<lparr>ground := Some i\<rparr>;
                             t = setTileFlags e i (resetTileFlags e old t)
                         in Some (postRemoveNotification old (send (Out_Update old i) t)))
               else if tt_alwaysOnTop it
               then let t = (if tt_splash it
                             then case find (\<lambda>j. tt_splash (type_of e t j)) (tops t) of None \<Rightarrow> t | Some old \<Rightarrow> drop_thing e old t
                             else t)
                    in Some (onAddTileItem e i (insert_top (\<lambda>j. tt_alwaysOnTopOrder it \<le> tt_alwaysOnTopOrder (type_of e t j)) i t))
               else Option.bind (if tt_magicField it then replace_fields e t else Some (t, True)) (\<lambda>(t, ok).
                      if ok then Some (onAddTileItem e i (insert_down i t))
                      else Some (send (Out_Release i) (setParent False x t))))"

definition internalAddThing :: "tile_env \<Rightarrow> thing \<Rightarrow> tile \<Rightarrow> tile" where
  "internalAddThing e x t =
     (let t = setParent True x t in
      case x of
        TCreature c \<Rightarrow> (send Out_ClearCache t)\<lparr>creatures := creatures t @ [c]\<rparr>
      | TItem i \<Rightarrow>
          let it = type_of e t i
          in if tt_ground it then (if ground t = None then setTileFlags e i (t\<lparr>ground := Some i\<rparr>) else t)
             else if length (tileItems t) \<ge> 65535 then t
             else if tt_alwaysOnTop it
             then setTileFlags e i (insert_top (\<lambda>j. tt_alwaysOnTopOrder (type_of e t j) > tt_alwaysOnTopOrder it) i t)
             else setTileFlags e i (insert_down i t))"

definition updateThing :: "tile_env \<Rightarrow> thing \<Rightarrow> 16 word \<Rightarrow> u32 \<Rightarrow> tile \<Rightarrow> tile" where
  "updateThing e x itemId count t =
     (case x of
        TCreature c \<Rightarrow> t
      | TItem i \<Rightarrow>
          if getThingIndex e t x = None then t
          else
            let t = resetTileFlags e i t;
                t = setThing i (setSubType (item_types e) (ucast count) (setID (item_types e) itemId (things t i))) t
            in send (Out_Update i i) (setTileFlags e i t))"

definition replace_slot :: "nat \<Rightarrow> nat \<Rightarrow> tile \<Rightarrow> (nat \<times> tile) option" where
  "replace_slot index i t =
     (if ground t \<noteq> None \<and> index = 0 then Some (the (ground t), t\<lparr>ground := Some i\<rparr>)
      else
        let pos = index - groundCount t
        in if pos < length (tops t) then Some (tops t ! pos, t\<lparr>tileItems := (tileItems t)[downItemCount t + pos := i]\<rparr>)
           else
             let pos = pos - length (tops t)
             in if pos < length (creatures t) then None
                else
                  let pos = pos - length (creatures t)
                  in if pos < length (downs t) then Some (downs t ! pos, t\<lparr>tileItems := (tileItems t)[pos := i]\<rparr>) else None)"

definition replaceThing :: "tile_env \<Rightarrow> nat \<Rightarrow> nat \<Rightarrow> tile \<Rightarrow> tile" where
  "replaceThing e index i t =
     (case replace_slot index i t of
        None \<Rightarrow> t
      | Some (old, t) \<Rightarrow>
          let t = setTileFlags e i (resetTileFlags e old (setParent True (TItem i) t))
          in setParent False (TItem old) (send (Out_Update old i) t))"

end
