(* ===== verification/Tile_Invariant.thy ===== *)
theory Tile_Invariant
  imports Tile_Model
begin

section \<open>The state of a tile\<close>

text \<open>
  What every operation of a tile keeps: the two halves of the item vector and the flags that sum them up. Each operation is an insertion, a removal or a swap
  of one entry, and the lemmas are about these three; \<open>tile_reach\<close> collects the operations.
\<close>

subsection \<open>The flags sum up the things\<close>

definition things_on :: "tile \<Rightarrow> nat list" where
  "things_on t = (case ground t of None \<Rightarrow> [] | Some g \<Rightarrow> [g]) @ tileItems t"

text \<open>The flags that are kept exact, with the properties they stand for.\<close>

definition watched :: "(ITEMPROPERTY \<times> nat) list" where
  "watched = [(CONST_PROP_BLOCKSOLID, 17), (CONST_PROP_BLOCKPATH, 18), (CONST_PROP_IMMOVABLEBLOCKSOLID, 19),
     (CONST_PROP_IMMOVABLENOFIELDBLOCKPATH, 21), (CONST_PROP_NOFIELDBLOCKPATH, 22)]"

definition watch :: "tile_env \<Rightarrow> tile \<Rightarrow> nat set \<Rightarrow> bool" where
  "watch e t S \<longleftrightarrow> (\<forall>(p, k)\<in>set watched. bit (flags t) k \<longleftrightarrow> (\<exists>j\<in>S. has_prop e t p j))"


lemma flag_if_simps [simp]: "ground (flag_if c f t) = ground t" "tileItems (flag_if c f t) = tileItems t" "things (flag_if c f t) = things t"
  "downItemCount (flag_if c f t) = downItemCount t" "creatures (flag_if c f t) = creatures t" "tilePos (flag_if c f t) = tilePos t"
  "owned (flag_if c f t) = owned t" "sent (flag_if c f t) = sent t"
  by (simp_all add: flag_if_def setFlag_def)

lemma unflag_if_simps [simp]: "ground (unflag_if c f t) = ground t" "tileItems (unflag_if c f t) = tileItems t" "things (unflag_if c f t) = things t"
  "downItemCount (unflag_if c f t) = downItemCount t" "creatures (unflag_if c f t) = creatures t" "tilePos (unflag_if c f t) = tilePos t"
  "owned (unflag_if c f t) = owned t" "sent (unflag_if c f t) = sent t"
  by (simp_all add: unflag_if_def resetFlag_def)

lemma set_reset_simps [simp]:
  "ground (setTileFlags e i t) = ground t" "tileItems (setTileFlags e i t) = tileItems t" "things (setTileFlags e i t) = things t"
  "downItemCount (setTileFlags e i t) = downItemCount t" "creatures (setTileFlags e i t) = creatures t" "tilePos (setTileFlags e i t) = tilePos t"
  "owned (setTileFlags e i t) = owned t"
  "ground (resetTileFlags e i t) = ground t" "tileItems (resetTileFlags e i t) = tileItems t" "things (resetTileFlags e i t) = things t"
  "downItemCount (resetTileFlags e i t) = downItemCount t" "creatures (resetTileFlags e i t) = creatures t" "tilePos (resetTileFlags e i t) = tilePos t"
  "owned (resetTileFlags e i t) = owned t"
  by (simp_all add: setTileFlags_def resetTileFlags_def Let_def)

lemma helper_simps [simp]:
  "ground (send o1 t) = ground t" "tileItems (send o1 t) = tileItems t" "things (send o1 t) = things t"
  "downItemCount (send o1 t) = downItemCount t" "creatures (send o1 t) = creatures t" "flags (send o1 t) = flags t"
  "ground (setParent b x t) = ground t" "tileItems (setParent b x t) = tileItems t" "things (setParent b x t) = things t"
  "downItemCount (setParent b x t) = downItemCount t" "creatures (setParent b x t) = creatures t" "flags (setParent b x t) = flags t"
  "ground (setThing i it t) = ground t" "tileItems (setThing i it t) = tileItems t" "things (setThing i it t) = (things t)(i := it)"
  "downItemCount (setThing i it t) = downItemCount t" "creatures (setThing i it t) = creatures t" "flags (setThing i it t) = flags t"
  by (simp_all add: send_def setParent_def setThing_def)

lemma type_of_cong [simp]: "type_of e (t\<lparr>ground := g\<rparr>) = type_of e t" "type_of e (t\<lparr>tileItems := xs\<rparr>) = type_of e t"
  "type_of e (t\<lparr>downItemCount := n\<rparr>) = type_of e t" "type_of e (t\<lparr>creatures := cs\<rparr>) = type_of e t" "type_of e (send o1 t) = type_of e t"
  "type_of e (setParent b x t) = type_of e t" "type_of e (setTileFlags e' i t) = type_of e t" "type_of e (resetTileFlags e' i t) = type_of e t"
  "type_of e (flag_if c f t) = type_of e t" "type_of e (unflag_if c f t) = type_of e t"
  by (simp_all add: type_of_def fun_eq_iff)

lemma has_prop_cong [simp]: "has_prop e (t\<lparr>ground := g\<rparr>) = has_prop e t" "has_prop e (t\<lparr>tileItems := xs\<rparr>) = has_prop e t"
  "has_prop e (t\<lparr>downItemCount := n\<rparr>) = has_prop e t" "has_prop e (t\<lparr>creatures := cs\<rparr>) = has_prop e t" "has_prop e (send o1 t) = has_prop e t"
  "has_prop e (setParent b x t) = has_prop e t" "has_prop e (setTileFlags e' i t) = has_prop e t" "has_prop e (resetTileFlags e' i t) = has_prop e t"
  "has_prop e (flag_if c f t) = has_prop e t" "has_prop e (unflag_if c f t) = has_prop e t"
  by (simp_all add: has_prop_def fun_eq_iff)

lemma tile_hasProperty_iff: "tile_hasProperty e t p \<longleftrightarrow> (\<exists>j\<in>set (things_on t). has_prop e t p j)"
  by (auto simp: tile_hasProperty_def things_on_def list_ex_iff split: option.splits)

lemma tile_hasPropertyBut_iff: "tile_hasPropertyBut e t x p \<longleftrightarrow> (\<exists>j\<in>set (things_on t) - {x}. has_prop e t p j)"
  by (auto simp: tile_hasPropertyBut_def things_on_def list_ex_iff split: option.splits)

lemma hasFlag_bit: "k < 32 \<Longrightarrow> hasFlag (push_bit k 1) t \<longleftrightarrow> bit (flags t) k"
  unfolding hasFlag_def hasBitSet_def
  by (metis and_exp_eq_0_iff_not_bit push_bit_of_1)

lemma flag_if_bit: "bit (flags (flag_if c f t)) k \<longleftrightarrow> bit (flags t) k \<or> c \<and> bit f k"
  by (auto simp: flag_if_def setFlag_def bit_or_iff)

lemma unflag_if_bit: "bit (flags (unflag_if c f t)) k \<longleftrightarrow> bit (flags t) k \<and> \<not> (c \<and> bit f k)"
  by (auto simp: unflag_if_def resetFlag_def bit_and_iff bit_not_iff dest: bit_imp_le_length)

lemma exp_bit: "n < 32 \<Longrightarrow> bit (push_bit n (1 :: u32)) k \<longleftrightarrow> k = n"
  by (auto simp: bit_exp_iff)

lemma flag_bits:
  "bit TILESTATE_TELEPORT k \<longleftrightarrow> k = 11" "bit TILESTATE_MAGICFIELD k \<longleftrightarrow> k = 12" "bit TILESTATE_MAILBOX k \<longleftrightarrow> k = 13"
  "bit TILESTATE_TRASHHOLDER k \<longleftrightarrow> k = 14" "bit TILESTATE_BED k \<longleftrightarrow> k = 15" "bit TILESTATE_DEPOT k \<longleftrightarrow> k = 16"
  "bit TILESTATE_BLOCKSOLID k \<longleftrightarrow> k = 17" "bit TILESTATE_BLOCKPATH k \<longleftrightarrow> k = 18" "bit TILESTATE_IMMOVABLEBLOCKSOLID k \<longleftrightarrow> k = 19"
  "bit TILESTATE_IMMOVABLEBLOCKPATH k \<longleftrightarrow> k = 20" "bit TILESTATE_IMMOVABLENOFIELDBLOCKPATH k \<longleftrightarrow> k = 21"
  "bit TILESTATE_NOFIELDBLOCKPATH k \<longleftrightarrow> k = 22" "bit TILESTATE_SUPPORTS_HANGABLE k \<longleftrightarrow> k = 23" "bit TILESTATE_FLOORCHANGE k \<longleftrightarrow> k < 7"
  unfolding TILESTATE_TELEPORT_def TILESTATE_MAGICFIELD_def TILESTATE_MAILBOX_def TILESTATE_TRASHHOLDER_def TILESTATE_BED_def
    TILESTATE_DEPOT_def TILESTATE_BLOCKSOLID_def TILESTATE_BLOCKPATH_def TILESTATE_IMMOVABLEBLOCKSOLID_def TILESTATE_IMMOVABLEBLOCKPATH_def
    TILESTATE_IMMOVABLENOFIELDBLOCKPATH_def TILESTATE_NOFIELDBLOCKPATH_def TILESTATE_SUPPORTS_HANGABLE_def TILESTATE_FLOORCHANGE_def
  by (simp_all only: exp_bit) (auto simp: bit_mask_iff)

lemma floorChange_bits: "8 \<le> k \<Longrightarrow> \<not> bit (ucast (f :: 8 word) :: u32) k"
  by (auto simp: bit_ucast_iff dest: bit_imp_le_length)

lemma set_bits:
  assumes "(p, k) \<in> set watched"
  shows "bit (flags (setTileFlags e i t)) k \<longleftrightarrow> bit (flags t) k \<or> has_prop e t p i"
proof -
  from assms consider "p = CONST_PROP_BLOCKSOLID" "k = 17" | "p = CONST_PROP_BLOCKPATH" "k = 18" | "p = CONST_PROP_IMMOVABLEBLOCKSOLID" "k = 19"
    | "p = CONST_PROP_IMMOVABLENOFIELDBLOCKPATH" "k = 21" | "p = CONST_PROP_NOFIELDBLOCKPATH" "k = 22"
    by (auto simp: watched_def)
  then show ?thesis
    unfolding setTileFlags_def Let_def flag_if_bit has_prop_cong flag_bits by cases (simp_all add: flag_if_bit floorChange_bits)
qed

lemma last_with_cong [simp]: "last_with e p i (unflag_if c f t) = last_with e p i t"
  by (simp add: last_with_def tile_hasPropertyBut_iff things_on_def)

lemma reset_bits:
  assumes "(p, k) \<in> set watched"
  shows "bit (flags (resetTileFlags e i t)) k \<longleftrightarrow> bit (flags t) k \<and> \<not> last_with e p i t"
proof -
  from assms consider "p = CONST_PROP_BLOCKSOLID" "k = 17" | "p = CONST_PROP_BLOCKPATH" "k = 18" | "p = CONST_PROP_IMMOVABLEBLOCKSOLID" "k = 19"
    | "p = CONST_PROP_IMMOVABLENOFIELDBLOCKPATH" "k = 21" | "p = CONST_PROP_NOFIELDBLOCKPATH" "k = 22"
    by (auto simp: watched_def)
  then show ?thesis
    unfolding resetTileFlags_def Let_def unflag_if_bit has_prop_cong last_with_cong flag_bits by cases simp_all
qed

lemma watch_set: "watch e t S \<Longrightarrow> watch e (setTileFlags e i t) (insert i S)"
  unfolding watch_def using set_bits [of _ _ e i t] by fastforce

lemma watch_reset:
  assumes "watch e t S" and "set (things_on t) - {i} = S - {i}"
  shows "watch e (resetTileFlags e i t) (S - {i})"
  unfolding watch_def
proof clarify
  fix p k
  assume pk: "(p, k) \<in> set watched"
  have "bit (flags t) k \<longleftrightarrow> (\<exists>j\<in>S. has_prop e t p j)" using assms(1) pk unfolding watch_def by fastforce
  then show "bit (flags (resetTileFlags e i t)) k \<longleftrightarrow> (\<exists>j\<in>S - {i}. has_prop e (resetTileFlags e i t) p j)"
    unfolding reset_bits [OF pk] last_with_def tile_hasPropertyBut_iff assms(2) by auto
qed

lemma watch_cong: "watch e t S \<Longrightarrow> flags t' = flags t \<Longrightarrow> (\<And>p j. j \<in> S \<Longrightarrow> has_prop e t' p j = has_prop e t p j) \<Longrightarrow> watch e t' S"
  unfolding watch_def by fastforce

subsection \<open>The order of the things\<close>

definition order :: "tile_env \<Rightarrow> tile \<Rightarrow> nat \<Rightarrow> 8 word" where
  "order e t i = tt_alwaysOnTopOrder (type_of e t i)"

definition layout :: "tile_env \<Rightarrow> tile \<Rightarrow> bool" where
  "layout e t \<longleftrightarrow> distinct (things_on t) \<and> distinct (creatures t) \<and> downItemCount t \<le> length (tileItems t) \<and> length (tileItems t) \<le> 65535
     \<and> (\<forall>i\<in>set (downs t). \<not> onTop e t i) \<and> (\<forall>i\<in>set (tops t). onTop e t i)"

definition tile_ok :: "tile_env \<Rightarrow> tile \<Rightarrow> bool" where
  "tile_ok e t \<longleftrightarrow> layout e t \<and> watch e t (set (things_on t))"

lemma onTop_cong: "type_of e t' = type_of e t \<Longrightarrow> onTop e t' = onTop e t" "type_of e t' = type_of e t \<Longrightarrow> order e t' = order e t"
  by (simp_all add: onTop_def order_def fun_eq_iff)

lemma onTop_cong1: "type_of e t' i = type_of e t i \<Longrightarrow> onTop e t' i = onTop e t i" "type_of e t' i = type_of e t i \<Longrightarrow> order e t' i = order e t i"
  by (simp_all add: onTop_def order_def)

lemma parts_of: "tileItems t = ds @ ts \<Longrightarrow> downItemCount t = length ds \<Longrightarrow> downs t = ds \<and> tops t = ts"
  by (simp add: downs_def tops_def)

lemma parts: "tileItems t = downs t @ tops t"
  by (simp add: downs_def tops_def)

lemma length_downs: "layout e t \<Longrightarrow> length (downs t) = downItemCount t"
  by (simp add: layout_def downs_def)

definition gl :: "tile \<Rightarrow> nat list" where
  "gl t = (case ground t of None \<Rightarrow> [] | Some g \<Rightarrow> [g])"

lemma things_on_parts: "things_on t = gl t @ downs t @ tops t"
  by (simp add: things_on_def gl_def parts [symmetric])

lemma things_on_of: "tileItems t = ds @ ts \<Longrightarrow> things_on t = gl t @ ds @ ts"
  by (simp add: things_on_def gl_def)

lemma layoutI:
  assumes "tileItems t = ds @ ts" and "downItemCount t = length ds" and "distinct (gl t @ ds @ ts)" and "distinct (creatures t)"
    and "length ds + length ts \<le> 65535" and "\<forall>i\<in>set ds. \<not> onTop e t i" and "\<forall>i\<in>set ts. onTop e t i"
  shows "layout e t"
  unfolding layout_def things_on_of [OF assms(1)] using assms parts_of [OF assms(1,2)] by simp

lemma layoutD:
  assumes "layout e t"
  shows "distinct (gl t @ downs t @ tops t)" "distinct (creatures t)" "length (downs t) + length (tops t) \<le> 65535"
    "\<forall>i\<in>set (downs t). \<not> onTop e t i" "\<forall>i\<in>set (tops t). onTop e t i"
  using assms unfolding layout_def things_on_parts by (simp_all add: downs_def tops_def)

lemma set_index_of: "index_of x xs = None \<longleftrightarrow> x \<notin> set xs"
  by (induction xs) auto

lemma index_of_Some: "distinct xs \<Longrightarrow> index_of x xs = Some k \<longleftrightarrow> k < length xs \<and> xs ! k = x"
proof (induction xs arbitrary: k)
  case (Cons y ys)
  have IH: "index_of x ys = Some j \<longleftrightarrow> j < length ys \<and> ys ! j = x" for j using Cons by simp
  show ?case
  proof (cases "y = x")
    case True
    then have "\<not> (j < length ys \<and> ys ! j = x)" for j using Cons.prems nth_mem by fastforce
    then show ?thesis using True by (cases k) simp_all
  next
    case False
    then show ?thesis using IH by (cases k) simp_all
  qed
qed simp

lemma index_of_ex: "(\<exists>k. index_of x xs = Some k) \<longleftrightarrow> x \<in> set xs" "index_of x xs = Some k \<Longrightarrow> x \<in> set xs"
  using set_index_of [of x xs] by auto

lemma getThingIndex_item: "layout e t \<Longrightarrow> getThingIndex e t (TItem i) \<noteq> None \<longleftrightarrow> i \<in> set (things_on t)"
  using layoutD(4,5) [of e t] by (auto simp: getThingIndex_def things_on_parts gl_def index_of_ex(1) dest: index_of_ex(2) split: option.splits if_splits)

lemma set_insert_before [simp]: "set (insert_before P x ys) = insert x (set ys)"
  by (induction ys) auto

lemma length_insert_before [simp]: "length (insert_before P x ys) = Suc (length ys)"
  by (induction ys) auto

lemma distinct_insert_before [simp]: "distinct (insert_before P x ys) \<longleftrightarrow> x \<notin> set ys \<and> distinct ys"
  by (induction ys) auto

lemma sorted_insert_before:
  fixes f :: "'a \<Rightarrow> 'b :: linorder"
  assumes "\<And>y. P y \<Longrightarrow> f x \<le> f y" and "\<And>y. \<not> P y \<Longrightarrow> f y \<le> f x" and "sorted (map f ys)"
  shows "sorted (map f (insert_before P x ys))"
  using assms(3)
proof (induction ys)
  case (Cons y ys)
  then show ?case using assms(1,2) by (auto intro: order_trans)
qed simp

lemma sorted_map_remove1: "sorted (map f xs) \<Longrightarrow> sorted (map f (remove1 x xs))"
  by (induction xs) (auto dest: notin_set_remove1 set_remove1_subset [THEN subsetD])

lemma tile_ok_same:
  assumes "ground u = ground t" "tileItems u = tileItems t" "downItemCount u = downItemCount t" "creatures u = creatures t" "flags u = flags t"
    "things u = things t"
  shows "tile_ok e u \<longleftrightarrow> tile_ok e t" and "things_on u = things_on t"
proof -
  have ty: "type_of e u = type_of e t" and hp: "has_prop e u = has_prop e t" using assms(6) by (simp_all add: type_of_def has_prop_def fun_eq_iff)
  show "tile_ok e u \<longleftrightarrow> tile_ok e t"
    unfolding tile_ok_def layout_def watch_def things_on_def downs_def tops_def assms onTop_cong [OF ty] hp by (rule refl)
  show "things_on u = things_on t" by (simp add: things_on_def assms(1,2))
qed

lemma tile_ok_helpers [simp]: "tile_ok e (send o1 t) \<longleftrightarrow> tile_ok e t" "tile_ok e (setParent b x t) \<longleftrightarrow> tile_ok e t"
  "things_on (send o1 t) = things_on t" "things_on (setParent b x t) = things_on t"
  "downs (send o1 t) = downs t" "downs (setParent b x t) = downs t" "tops (send o1 t) = tops t" "tops (setParent b x t) = tops t"
  by (rule tile_ok_same; simp)+ (simp_all add: things_on_def downs_def tops_def)

text \<open>An item's entry on the tile leaves it; the flags follow.\<close>

lemma i_id_simps [simp]: "i_id (item_remove a i) = i_id i" "i_id (item_setInt a v i) = i_id i" "i_id (setID its n i) = n" "i_id (setSubType its m i) = i_id i"
proof -
  show r: "i_id (item_remove a i) = i_id i" for a i by (simp add: item_remove_def split: option.split)
  show s: "i_id (item_setInt a v i) = i_id i" for a v i by (simp add: item_setInt_def getAttributes_def)
  show "i_id (setID its n i) = n" by (simp add: setID_def Let_def r s)
  show "i_id (setSubType its m i) = i_id i" by (simp add: setSubType_def Let_def s)
qed

lemma removed_ok:
  assumes "tile_ok e t" and "flags u = flags t" and "things u = things t" and "creatures u = creatures t" and "tileItems u = ds @ ts"
    and "downItemCount u = length ds" and "set (gl u @ ds @ ts) = set (things_on t) - {i}" and "distinct (gl u @ ds @ ts)"
    and "length ds \<le> length (downs t)" "length ts \<le> length (tops t)" "set ds \<subseteq> set (downs t)" "set ts \<subseteq> set (tops t)"
  shows "tile_ok e (onRemoveTileItem e i f u)" and "set (things_on (onRemoveTileItem e i f u)) = set (things_on t) - {i}"
proof -
  let ?v = "onRemoveTileItem e i f u"
  have l: "layout e t" and w: "watch e t (set (things_on t))" using assms(1) by (simp_all add: tile_ok_def)
  have v: "tileItems ?v = ds @ ts" "downItemCount ?v = length ds" "gl ?v = gl u" "creatures ?v = creatures t" "things ?v = things t"
    using assms(3-6) by (simp_all add: onRemoveTileItem_def gl_def)
  have ty: "type_of e ?v = type_of e t" using v(5) by (simp add: type_of_def fun_eq_iff)
  note tt = onTop_cong [OF ty]
  have "layout e ?v"
    by (rule layoutI [OF v(1,2)])
      (use v layoutD [OF l] assms(8-12) in \<open>auto simp: tt\<close>)
  moreover have on: "set (things_on ?v) = set (things_on t) - {i}"
    unfolding things_on_of [OF v(1)] v(3) by (rule assms(7))
  moreover have "watch e ?v (set (things_on t) - {i})"
  proof -
    have "watch e u (set (things_on t))" by (rule watch_cong [OF w assms(2)]) (simp add: has_prop_def assms(3) fun_eq_iff)
    moreover have "set (things_on u) - {i} = set (things_on t) - {i}"
      unfolding things_on_of [OF assms(5)] using assms(7) by auto
    ultimately have "watch e (resetTileFlags e i u) (set (things_on t) - {i})" by (rule watch_reset)
    then show ?thesis by (rule watch_cong) (simp_all add: onRemoveTileItem_def)
  qed
  ultimately show "tile_ok e ?v" "set (things_on ?v) = set (things_on t) - {i}" by (simp_all add: tile_ok_def)
qed

lemma counted_ok: "tile_ok e t \<Longrightarrow> tile_ok e (setThing i ((things t i)\<lparr>i_count := n\<rparr>) t) \<and> type_of e (setThing i ((things t i)\<lparr>i_count := n\<rparr>) t) = type_of e t"
proof -
  assume t: "tile_ok e t"
  let ?u = "setThing i ((things t i)\<lparr>i_count := n\<rparr>) t"
  have ty: "type_of e ?u = type_of e t" by (simp add: type_of_def fun_eq_iff)
  have hp: "has_prop e ?u = has_prop e t"
    by (auto simp: has_prop_def fun_eq_iff item_hasProperty_def item_has_def Let_def split: ITEMPROPERTY.split)
  have on: "things_on ?u = things_on t" "downs ?u = downs t" "tops ?u = tops t" by (simp_all add: things_on_def downs_def tops_def)
  have "layout e ?u" using t unfolding tile_ok_def layout_def on onTop_cong [OF ty] by simp
  moreover have "watch e ?u (set (things_on ?u))" unfolding on by (rule watch_cong) (use t hp in \<open>simp_all add: tile_ok_def\<close>)
  ultimately show ?thesis using ty by (simp add: tile_ok_def)
qed

lemma removeItem_ok:
  assumes "tile_ok e t"
  shows "tile_ok e (removeItem e i c t)" and "type_of e (removeItem e i c t) = type_of e t" and "creatures (removeItem e i c t) = creatures t"
    and "set (things_on (removeItem e i c t)) \<subseteq> set (things_on t)"
    and "i \<in> set (things_on t) \<Longrightarrow> \<not> it_stackable (type_of e t i) \<Longrightarrow> set (things_on (removeItem e i c t)) = set (things_on t) - {i}"
proof -
  let ?u = "removeItem e i c t"
  have l: "layout e t" using assms by (simp add: tile_ok_def)
  note L = layoutD [OF l]
  have onr: "type_of e (onRemoveTileItem e i f u) = type_of e u" "creatures (onRemoveTileItem e i f u) = creatures u" for f u
    by (simp_all add: onRemoveTileItem_def)
  have "tile_ok e ?u \<and> type_of e ?u = type_of e t \<and> creatures ?u = creatures t \<and> set (things_on ?u) \<subseteq> set (things_on t)
    \<and> (i \<in> set (things_on t) \<and> \<not> it_stackable (type_of e t i) \<longrightarrow> set (things_on ?u) = set (things_on t) - {i})"
  proof (cases "i \<in> set (things_on t)")
    case False
    then have "getThingIndex e t (TItem i) = None" using getThingIndex_item [OF l] by blast
    then have "?u = t" by (simp add: removeItem_def)
    then show ?thesis using assms False by simp
  next
    case True
    then have idx: "getThingIndex e t (TItem i) \<noteq> None" using getThingIndex_item [OF l] by blast
    consider "ground t = Some i" | "ground t \<noteq> Some i" "onTop e t i" "i \<in> set (tops t)" | "ground t \<noteq> Some i" "\<not> onTop e t i" "i \<in> set (downs t)"
      using True L(4,5) unfolding things_on_parts gl_def by (auto split: option.splits)
    then show ?thesis
    proof cases
      case 1
      let ?v = "(setParent False (TItem i) t)\<lparr>ground := None\<rparr>"
      have u: "?u = onRemoveTileItem e i (\<lambda>_. 0) ?v" using idx 1 by (auto simp: removeItem_def)
      have "tile_ok e ?u \<and> set (things_on ?u) = set (things_on t) - {i}"
        unfolding u using L(1) 1 length_downs [OF l]
        by (intro conjI removed_ok [OF assms, where ds = "downs t" and ts = "tops t"]) (auto simp: parts [symmetric] gl_def things_on_parts)
      then show ?thesis unfolding u by (simp add: onr)
    next
      case 2
      let ?v = "(setParent False (TItem i) t)\<lparr>tileItems := downs t @ remove1 i (tops t)\<rparr>"
      have u: "?u = onRemoveTileItem e i (\<lambda>sees. getStackposOfItem e t sees i) ?v" using idx 2 by (auto simp: removeItem_def)
      have i: "i \<notin> set (gl t)" "i \<notin> set (downs t)" using 2 L(1) by (auto simp: gl_def split: option.splits)
      have "tile_ok e ?u \<and> set (things_on ?u) = set (things_on t) - {i}"
        unfolding u using L(1) 2 i length_downs [OF l]
        by (intro conjI removed_ok [OF assms, where ds = "downs t" and ts = "remove1 i (tops t)"])
          (auto simp: gl_def things_on_parts length_remove1 sorted_map_remove1 set_remove1_eq)
      then show ?thesis unfolding u by (simp add: onr)
    next
      case 3
      show ?thesis
      proof (cases "it_stackable (type_of e t i) \<and> c \<noteq> ucast (i_count (things t i))")
        case True
        obtain n where u: "?u = send (Out_Update i i) (setThing i ((things t i)\<lparr>i_count := n\<rparr>) t)"
          using idx 3 True by (auto simp: removeItem_def Let_def)
        have "things_on ?u = things_on t" by (simp add: u things_on_def)
        moreover have "tile_ok e ?u" "type_of e ?u = type_of e t" unfolding u type_of_cong tile_ok_helpers using counted_ok [OF assms, of i n] by simp_all
        ultimately show ?thesis using True by (simp add: u)
      next
        case False
        let ?v = "(setParent False (TItem i) t)\<lparr>tileItems := remove1 i (downs t) @ tops t, downItemCount := downItemCount t - 1\<rparr>"
        have u: "?u = onRemoveTileItem e i (\<lambda>sees. getStackposOfItem e t sees i) ?v" using idx 3 False by (auto simp: removeItem_def)
        have i: "i \<notin> set (gl t)" "i \<notin> set (tops t)" using 3 L(1) by (auto simp: gl_def split: option.splits)
        have "tile_ok e ?u \<and> set (things_on ?u) = set (things_on t) - {i}"
          unfolding u using L(1) 3 i length_downs [OF l]
          by (intro conjI removed_ok [OF assms, where ds = "remove1 i (downs t)" and ts = "tops t"])
            (auto simp: gl_def things_on_parts length_remove1 set_remove1_eq)
        then show ?thesis unfolding u by (simp add: onr)
      qed
    qed
  qed
  then show "tile_ok e ?u" "type_of e ?u = type_of e t" "creatures ?u = creatures t" "set (things_on ?u) \<subseteq> set (things_on t)"
    "i \<in> set (things_on t) \<Longrightarrow> \<not> it_stackable (type_of e t i) \<Longrightarrow> set (things_on ?u) = set (things_on t) - {i}" by blast+
qed

lemma tile_ok_set:
  assumes "layout e u" and "watch e u S" and "set (things_on u) = insert i S"
  shows "tile_ok e (setTileFlags e i u)"
proof -
  let ?v = "setTileFlags e i u"
  have ty: "type_of e ?v = type_of e u" by simp
  have on: "things_on ?v = things_on u" "downs ?v = downs u" "tops ?v = tops u" by (simp_all add: things_on_def downs_def tops_def)
  have "layout e ?v" using assms(1) unfolding layout_def on onTop_cong [OF ty] by simp
  moreover have "watch e ?v (insert i S)" using assms(2) by (rule watch_set)
  ultimately show ?thesis by (simp add: tile_ok_def on assms(3))
qed

lemma added_ok:
  assumes "tile_ok e t" and "flags u = flags t" "things u = things t" and "layout e u" and "set (things_on u) = insert i (set (things_on t))"
  shows "tile_ok e (setTileFlags e i u)"
proof (rule tile_ok_set [OF assms(4) _ assms(5)])
  show "watch e u (set (things_on t))"
    by (rule watch_cong [where t = t]) (use assms(1-3) in \<open>simp_all add: tile_ok_def has_prop_def fun_eq_iff\<close>)
qed

definition fresh :: "thing \<Rightarrow> tile \<Rightarrow> bool" where
  "fresh x t \<longleftrightarrow> (case x of TItem i \<Rightarrow> i \<notin> set (things_on t) | TCreature c \<Rightarrow> c \<notin> set (creatures t))"

lemma insert_top_ok:
  assumes "tile_ok e t" and "i \<notin> set (things_on t)" and "length (tileItems t) < 65535" and "onTop e t i"
  shows "tile_ok e (setTileFlags e i (insert_top P i t))"
proof (rule added_ok [OF assms(1)])
  let ?u = "insert_top P i t"
  have l: "layout e t" using assms(1) by (simp add: tile_ok_def)
  have u: "tileItems ?u = downs t @ insert_before P i (tops t)" "downItemCount ?u = length (downs t)" "gl ?u = gl t" "creatures ?u = creatures t"
    "flags ?u = flags t" "things ?u = things t"
    by (simp_all add: insert_top_def gl_def length_downs [OF l])
  then show "flags ?u = flags t" "things ?u = things t" by simp_all
  have ty: "type_of e ?u = type_of e t" by (simp add: type_of_def u(6) fun_eq_iff)
  have i: "i \<notin> set (gl t)" "i \<notin> set (downs t)" "i \<notin> set (tops t)" using assms(2) by (simp_all add: things_on_parts)
  have n: "length (downs t) + length (tops t) < 65535" using assms(3) by (simp add: parts)
  show "layout e ?u"
    by (rule layoutI [OF u(1,2)]) (use layoutD [OF l] u i n assms(4) in \<open>auto simp: onTop_cong [OF ty]\<close>)
  show "set (things_on ?u) = insert i (set (things_on t))"
    by (simp only: things_on_of [OF u(1)] u(3)) (auto simp: things_on_parts)
qed

lemma insert_down_ok:
  assumes "tile_ok e t" and "i \<notin> set (things_on t)" and "length (tileItems t) < 65535" and "\<not> onTop e t i"
  shows "tile_ok e (setTileFlags e i (insert_down i t))"
proof (rule added_ok [OF assms(1)])
  let ?u = "insert_down i t"
  have l: "layout e t" using assms(1) by (simp add: tile_ok_def)
  have u: "tileItems ?u = (i # downs t) @ tops t" "downItemCount ?u = length (i # downs t)" "gl ?u = gl t" "creatures ?u = creatures t"
    "flags ?u = flags t" "things ?u = things t"
    using parts [of t] by (simp_all add: insert_down_def gl_def length_downs [OF l])
  then show "flags ?u = flags t" "things ?u = things t" by simp_all
  have ty: "type_of e ?u = type_of e t" by (simp add: type_of_def u(6) fun_eq_iff)
  have i: "i \<notin> set (gl t)" "i \<notin> set (downs t)" "i \<notin> set (tops t)" using assms(2) by (simp_all add: things_on_parts)
  have n: "length (downs t) + length (tops t) < 65535" using assms(3) by (simp add: parts)
  show "layout e ?u"
    by (rule layoutI [OF u(1,2)]) (use layoutD [OF l] u i n assms(4) in \<open>auto simp: onTop_cong [OF ty]\<close>)
  show "set (things_on ?u) = insert i (set (things_on t))"
    by (simp only: things_on_of [OF u(1)] u(3)) (auto simp: things_on_parts)
qed

lemma ground_ok:
  assumes "tile_ok e t" and "i \<notin> set (things_on t)" and "ground t = None"
  shows "tile_ok e (setTileFlags e i (t\<lparr>ground := Some i\<rparr>))"
proof (rule added_ok [OF assms(1)])
  let ?u = "t\<lparr>ground := Some i\<rparr>"
  have l: "layout e t" using assms(1) by (simp add: tile_ok_def)
  have g: "gl ?u = [i]" "gl t = []" by (simp_all add: gl_def assms(3))
  have ty: "type_of e ?u = type_of e t" by simp
  have on: "downs ?u = downs t" "tops ?u = tops t" by (simp_all add: downs_def tops_def)
  show "layout e ?u"
    by (rule layoutI [of _ "downs t" "tops t"])
      (use layoutD [OF l] length_downs [OF l] assms(2) g parts [of t] in \<open>auto simp: things_on_parts onTop_cong [OF ty]\<close>)
  show "set (things_on ?u) = insert i (set (things_on t))" by (simp add: things_on_parts g on)
qed simp_all

lemma swapped_ok:
  assumes "tile_ok e t" and "flags u = flags t" "things u = things t" and "layout e u" and "i \<notin> set (things_on t)" and "old \<in> set (things_on t)"
    and "set (things_on u) = insert i (set (things_on t) - {old})"
  shows "tile_ok e (setTileFlags e i (resetTileFlags e old u))"
proof -
  let ?v = "setTileFlags e i (resetTileFlags e old u)" and ?S = "set (things_on t) - {old}"
  have hp: "has_prop e u = has_prop e t" by (simp add: has_prop_def fun_eq_iff assms(3))
  have wu: "watch e ?v (insert i ?S)"
    unfolding watch_def
  proof clarify
    fix p k
    assume pk: "(p, k) \<in> set watched"
    have "bit (flags t) k \<longleftrightarrow> (\<exists>j\<in>set (things_on t). has_prop e t p j)"
      using assms(1) pk unfolding tile_ok_def watch_def by fastforce
    moreover have "last_with e p old u \<longleftrightarrow> has_prop e t p old \<and> \<not> (\<exists>j\<in>insert i ?S - {old}. has_prop e t p j)"
      unfolding last_with_def tile_hasPropertyBut_iff assms(7) hp by (rule refl)
    ultimately show "bit (flags ?v) k \<longleftrightarrow> (\<exists>j\<in>insert i ?S. has_prop e ?v p j)"
      unfolding set_bits [OF pk] reset_bits [OF pk] has_prop_cong hp assms(2) using assms(5,6) by auto
  qed
  have tv: "type_of e ?v = type_of e u" by simp
  have onv: "things_on ?v = things_on u" "downs ?v = downs u" "tops ?v = tops u" by (simp_all add: things_on_def downs_def tops_def)
  have "layout e ?v" using assms(4) unfolding layout_def onv onTop_cong [OF tv] by simp
  then show ?thesis using wu by (simp add: tile_ok_def onv assms(7))
qed

lemma new_ground_ok:
  assumes "tile_ok e t" and "i \<notin> set (things_on t)" and "ground t = Some old" and "u = t\<lparr>ground := Some i\<rparr>"
  shows "tile_ok e (setTileFlags e i (resetTileFlags e old u))"
proof (rule swapped_ok [OF assms(1)])
  have l: "layout e t" using assms(1) by (simp add: tile_ok_def)
  have g: "gl u = [i]" "gl t = [old]" by (simp_all add: gl_def assms(3,4))
  have on: "downs u = downs t" "tops u = tops t" by (simp_all add: downs_def tops_def assms(4))
  have d: "old \<notin> set (downs t)" "old \<notin> set (tops t)" "i \<notin> set (downs t)" "i \<notin> set (tops t)"
    using layoutD(1) [OF l] g assms(2) by (auto simp: things_on_parts)
  have ty: "type_of e u = type_of e t" by (simp add: assms(4))
  show "layout e u"
    by (rule layoutI [of _ "downs t" "tops t"])
      (use layoutD [OF l] length_downs [OF l] d g parts [of t] in \<open>auto simp: assms(4) onTop_cong [OF ty [unfolded assms(4)]]\<close>)
  show "set (things_on u) = insert i (set (things_on t) - {old})"
    unfolding things_on_parts g on using d by auto
  show "old \<in> set (things_on t)" by (simp add: things_on_parts g)
qed (use assms(2,4) in simp_all)

lemma replace_slot_ok:
  assumes "tile_ok e t" and "i \<notin> set (things_on t)" and "replace_slot n i t = Some (old, u)"
    and "old \<in> set (tileItems t) \<Longrightarrow> onTop e t i = onTop e t old"
  shows "tile_ok e (setTileFlags e i (resetTileFlags e old u))" and "old \<in> set (things_on t)"
proof -
  have l: "layout e t" using assms(1) by (simp add: tile_ok_def)
  note L = layoutD [OF l]
  have i: "i \<notin> set (gl t)" "i \<notin> set (downs t)" "i \<notin> set (tops t)" using assms(2) by (simp_all add: things_on_parts)
  consider (g) "ground t = Some old" "u = t\<lparr>ground := Some i\<rparr>"
    | (tp) k where "k < length (tops t)" "old = tops t ! k" "u = t\<lparr>tileItems := (tileItems t)[downItemCount t + k := i]\<rparr>"
    | (dn) k where "k < length (downs t)" "old = downs t ! k" "u = t\<lparr>tileItems := (tileItems t)[k := i]\<rparr>"
    using assms(3) by (auto simp: replace_slot_def Let_def split: if_splits)
  then have "tile_ok e (setTileFlags e i (resetTileFlags e old u)) \<and> old \<in> set (things_on t)"
  proof cases
    case g
    then show ?thesis using new_ground_ok [OF assms(1,2) g] by (simp add: things_on_parts gl_def)
  next
    case (tp k)
    have u: "tileItems u = downs t @ (tops t)[k := i]" "downItemCount u = length (downs t)" "gl u = gl t" "creatures u = creatures t"
      using tp(3) parts [of t] length_downs [OF l] by (simp_all add: gl_def list_update_append)
    have ty: "type_of e u = type_of e t" by (simp add: tp(3))
    have old: "old \<in> set (tops t)" "old \<in> set (tileItems t)" using tp(1,2) parts [of t] by simp_all
    have st: "set ((tops t)[k := i]) = insert i (set (tops t) - {old})"
      using L(1) tp(1,2) by (simp add: set_update_distinct)
    have "layout e u"
      by (rule layoutI [OF u(1,2)])
        (use L u i assms(4) [OF old(2)] old st in \<open>auto simp: onTop_cong [OF ty] distinct_list_update\<close>)
    moreover have "set (things_on u) = insert i (set (things_on t) - {old})"
      using L(1) old(1) by (simp only: things_on_of [OF u(1)] u(3)) (auto simp: things_on_parts st)
    ultimately show ?thesis
      using swapped_ok [OF assms(1), of u i old] assms(2) old(1) by (simp add: tp(3) things_on_parts)
  next
    case (dn k)
    have u: "tileItems u = (downs t)[k := i] @ tops t" "downItemCount u = length ((downs t)[k := i])" "gl u = gl t" "creatures u = creatures t"
      using dn(1,3) parts [of t] length_downs [OF l] by (simp_all add: gl_def list_update_append)
    have ty: "type_of e u = type_of e t" by (simp add: dn(3))
    have old: "old \<in> set (downs t)" "old \<in> set (tileItems t)" using dn(1,2) parts [of t] by simp_all
    have st: "set ((downs t)[k := i]) = insert i (set (downs t) - {old})"
      using L(1) dn(1,2) by (simp add: set_update_distinct)
    have "layout e u"
      by (rule layoutI [OF u(1,2)])
        (use L u i assms(4) [OF old(2)] old st in \<open>auto simp: onTop_cong [OF ty] distinct_list_update\<close>)
    moreover have "set (things_on u) = insert i (set (things_on t) - {old})"
      using L(1) old(1) by (simp only: things_on_of [OF u(1)] u(3)) (auto simp: things_on_parts st)
    ultimately show ?thesis
      using swapped_ok [OF assms(1), of u i old] assms(2) old(1) by (simp add: dn(3) things_on_parts)
  qed
  then show "tile_ok e (setTileFlags e i (resetTileFlags e old u))" "old \<in> set (things_on t)" by simp_all
qed

lemma drop_thing_ok:
  assumes "tile_ok e t"
  shows "tile_ok e (drop_thing e i t)" and "type_of e (drop_thing e i t) = type_of e t" and "creatures (drop_thing e i t) = creatures t"
    and "set (things_on (drop_thing e i t)) \<subseteq> set (things_on t)" and "ground t \<noteq> Some i \<Longrightarrow> ground (drop_thing e i t) = ground t"
    and "length (tileItems (drop_thing e i t)) \<le> length (tileItems t)"
proof -
  note r = removeItem_ok [OF assms, of i 1]
  show "tile_ok e (drop_thing e i t)" "type_of e (drop_thing e i t) = type_of e t" "creatures (drop_thing e i t) = creatures t"
    "set (things_on (drop_thing e i t)) \<subseteq> set (things_on t)"
    using r(1-4) by (simp_all add: drop_thing_def postRemoveNotification_def)
  show "ground t \<noteq> Some i \<Longrightarrow> ground (drop_thing e i t) = ground t"
    by (simp add: drop_thing_def postRemoveNotification_def removeItem_def onRemoveTileItem_def Let_def)
  have "length (downs t @ remove1 i (tops t)) \<le> length (tileItems t)" "length (remove1 i (downs t) @ tops t) \<le> length (tileItems t)"
    using parts [of t] by (simp_all add: length_remove1)
  then show "length (tileItems (drop_thing e i t)) \<le> length (tileItems t)"
    by (simp add: drop_thing_def postRemoveNotification_def removeItem_def onRemoveTileItem_def Let_def)
qed

lemma drop_removes:
  assumes "tile_ok e t" and "i \<in> set (things_on t)" and "\<not> it_stackable (type_of e t i)"
  shows "set (things_on (drop_thing e i t)) = set (things_on t) - {i}"
  using removeItem_ok(5) [OF assms, of 1] by (simp add: drop_thing_def postRemoveNotification_def)

lemma replace_fields_ok:
  assumes "replace_fields e t = Some (t', ok)" and "tile_ok e t"
  shows "tile_ok e t' \<and> type_of e t' = type_of e t \<and> set (things_on t') \<subseteq> set (things_on t) \<and> length (tileItems t') \<le> length (tileItems t)
    \<and> (ok \<longrightarrow> (\<forall>i\<in>set (downs t'). te_class e i \<noteq> CMagicField))"
proof -
  let ?Q = "\<lambda>e t t' ok. tile_ok e t' \<and> type_of e t' = type_of e t \<and> set (things_on t') \<subseteq> set (things_on t)
    \<and> length (tileItems t') \<le> length (tileItems t) \<and> (ok \<longrightarrow> (\<forall>i\<in>set (downs t'). te_class e i \<noteq> CMagicField))"
  have "tile_ok e t \<longrightarrow> ?Q e t (fst (t', ok)) (snd (t', ok))"
    using assms(1)
  proof (rule replace_fields.raw_induct [where P = "\<lambda>e t r. tile_ok e t \<longrightarrow> ?Q e t (fst r) (snd r)", rotated])
    fix f e t r
    assume IH: "\<And>e t r. f e t = Some r \<Longrightarrow> tile_ok e t \<longrightarrow> ?Q e t (fst r) (snd r)"
      and eq: "(case find (\<lambda>i. te_class e i = CMagicField) (downs t) of None \<Rightarrow> Some (t, True)
        | Some i \<Rightarrow> if tt_replaceable (type_of e t i) then f e (drop_thing e i t) else Some (t, False)) = Some r"
    show "tile_ok e t \<longrightarrow> ?Q e t (fst r) (snd r)"
    proof
      assume t: "tile_ok e t"
      show "?Q e t (fst r) (snd r)"
      proof (cases "find (\<lambda>i. te_class e i = CMagicField) (downs t)")
        case None
        then have "r = (t, True)" using eq by simp
        then show ?thesis using t None by (auto simp: find_None_iff)
      next
        case (Some i)
        note d = drop_thing_ok [OF t, of i]
        show ?thesis
        proof (cases "tt_replaceable (type_of e t i)")
          case True
          then have "f e (drop_thing e i t) = Some r" using eq Some by simp
          from IH [OF this] d show ?thesis by (metis (no_types, lifting) order.trans)
        next
          case False
          then have "r = (t, False)" using eq Some by simp
          then show ?thesis using t by simp
        qed
      qed
    qed
  qed
  then show ?thesis using assms(2) by simp
qed

lemma field_gone: "tile_ok e t \<Longrightarrow> i \<in> set (downs t) \<Longrightarrow> \<not> it_stackable (type_of e t i) \<Longrightarrow> card (set (things_on (drop_thing e i t))) < card (set (things_on t))"
  using drop_removes [of e t i] card_Diff1_less [of "set (things_on t)" i] by (simp add: things_on_parts)

lemma replace_fields_returns:
  assumes "tile_ok e t" and "\<And>i. i \<in> set (downs t) \<Longrightarrow> te_class e i = CMagicField \<Longrightarrow> \<not> it_stackable (type_of e t i)"
  shows "\<exists>r. replace_fields e t = Some r"
  using assms
proof (induction "card (set (things_on t))" arbitrary: t rule: less_induct)
  case less
  show ?case
  proof (cases "find (\<lambda>i. te_class e i = CMagicField) (downs t)")
    case None
    then show ?thesis by (intro exI [of _ "(t, True)"]) (subst replace_fields.simps, simp)
  next
    case (Some i)
    then have i: "i \<in> set (downs t)" "te_class e i = CMagicField" by (auto simp: find_Some_iff)
    show ?thesis
    proof (cases "tt_replaceable (type_of e t i)")
      case False
      then show ?thesis using Some by (intro exI [of _ "(t, False)"]) (subst replace_fields.simps, simp)
    next
      case True
      let ?u = "drop_thing e i t"
      note d = drop_thing_ok [OF less.prems(1), of i]
      have "\<not> it_stackable (type_of e ?u j)" if "j \<in> set (downs ?u)" "te_class e j = CMagicField" for j
      proof -
        have "j \<in> set (things_on t)" using that(1) d(4) by (auto simp: things_on_parts)
        moreover have "\<not> onTop e t j"
          using that(1) layoutD(4) [of e ?u] d(1) onTop_cong(1) [OF d(2)] by (simp add: tile_ok_def)
        moreover have "ground ?u = ground t"
        proof (rule d(5))
          show "ground t \<noteq> Some i" using less.prems(1) i(1) layoutD(1) [of e t] by (auto simp: tile_ok_def gl_def)
        qed
        moreover have "j \<notin> set (gl ?u)" using that(1) d(1) layoutD(1) [of e ?u] by (auto simp: tile_ok_def)
        ultimately have "j \<in> set (downs t)"
          using layoutD(5) [of e t] less.prems(1) by (auto simp: things_on_parts tile_ok_def gl_def split: option.splits)
        then show ?thesis using less.prems(2) that(2) d(2) by simp
      qed
      then have "\<exists>r. replace_fields e ?u = Some r"
        using less.hyps [OF field_gone [OF less.prems(1) i(1) less.prems(2) [OF i]] d(1)] by blast
      then show ?thesis using Some True by (subst replace_fields.simps) simp
    qed
  qed
qed

lemma addThing_ok:
  assumes "tile_ok e t" and "fresh x t" and "addThing e x t = Some t'"
  shows "tile_ok e t'"
proof (cases x)
  case (TCreature c)
  have ty: "type_of e t' = type_of e t" and same: "flags t' = flags t" "things t' = things t" "things_on t' = things_on t" "downs t' = downs t" "tops t' = tops t"
    "downItemCount t' = downItemCount t" "tileItems t' = tileItems t"
    using assms(3) TCreature by (auto simp: addThing_def things_on_def downs_def tops_def)
  have "creatures t' = creatures t @ [c]" using assms(3) TCreature by (auto simp: addThing_def)
  moreover have "c \<notin> set (creatures t)" using assms(2) TCreature by (simp add: fresh_def)
  ultimately have "layout e t'"
    using assms(1) unfolding tile_ok_def layout_def same onTop_cong [OF ty] by simp
  moreover have "watch e t' (set (things_on t'))"
    unfolding same by (rule watch_cong [where t = t]) (use assms(1) same in \<open>simp_all add: tile_ok_def has_prop_def fun_eq_iff\<close>)
  ultimately show ?thesis by (simp add: tile_ok_def)
next
  case (TItem i)
  have new: "i \<notin> set (things_on t)" using assms(2) TItem by (simp add: fresh_def)
  let ?t = "setParent True (TItem i) t"
  have t: "tile_ok e ?t" "i \<notin> set (things_on ?t)" using assms(1) new by simp_all
  have add: "tile_ok e (setTileFlags e i u) \<Longrightarrow> tile_ok e (onAddTileItem e i u)" for u by (simp add: onAddTileItem_def)
  show ?thesis
  proof (cases "length (tileItems t) \<ge> 65535")
    case True
    then show ?thesis using assms(1,3) TItem by (simp add: addThing_def)
  next
    case False
    then have len: "length (tileItems ?t) < 65535" by simp
    let ?it = "type_of e ?t i"
    consider (g) "tt_ground ?it" | (tp) "\<not> tt_ground ?it" "tt_alwaysOnTop ?it" | (dn) "\<not> tt_ground ?it" "\<not> tt_alwaysOnTop ?it" by blast
    then show ?thesis
    proof cases
      case g
      show ?thesis
      proof (cases "ground t")
        case None
        then have "t' = onAddTileItem e i (?t\<lparr>ground := Some i\<rparr>)" using assms(3) TItem False g by (simp add: addThing_def Let_def)
        then show ?thesis using add ground_ok [OF t] None by simp
      next
        case (Some old)
        let ?v = "send (Out_Release old) (setParent False (TItem old) ?t)"
        have "t' = postRemoveNotification old (send (Out_Update old i) (setTileFlags e i (resetTileFlags e old (?v\<lparr>ground := Some i\<rparr>))))"
          using assms(3) TItem False g Some by (simp add: addThing_def Let_def)
        moreover have "tile_ok e (setTileFlags e i (resetTileFlags e old (?v\<lparr>ground := Some i\<rparr>)))"
          by (rule new_ground_ok [where t = ?v]) (use t Some in simp_all)
        ultimately show ?thesis by (simp add: postRemoveNotification_def)
      qed
    next
      case tp
      define u where "u = (if tt_splash ?it then case find (\<lambda>j. tt_splash (type_of e ?t j)) (tops ?t) of None \<Rightarrow> ?t | Some old \<Rightarrow> drop_thing e old ?t else ?t)"
      have t': "t' = onAddTileItem e i (insert_top (\<lambda>j. tt_alwaysOnTopOrder ?it \<le> tt_alwaysOnTopOrder (type_of e u j)) i u)"
        using assms(3) TItem False tp by (simp add: addThing_def Let_def u_def cong: if_cong option.case_cong)
      have u: "tile_ok e u" "type_of e u = type_of e ?t" "set (things_on u) \<subseteq> set (things_on ?t)" "length (tileItems u) \<le> length (tileItems ?t)"
        using t(1) drop_thing_ok [OF t(1)] unfolding u_def by (auto split: option.splits)
      have "tile_ok e (setTileFlags e i (insert_top (\<lambda>j. tt_alwaysOnTopOrder ?it \<le> tt_alwaysOnTopOrder (type_of e u j)) i u))"
        by (rule insert_top_ok [OF u(1)]) (use u t(2) len tp in \<open>auto simp: onTop_def order_def\<close>)
      then show ?thesis using add t' by simp
    next
      case dn
      then have b: "Option.bind (if tt_magicField ?it then replace_fields e ?t else Some (?t, True)) (\<lambda>(u, ok).
          if ok then Some (onAddTileItem e i (insert_down i u)) else Some (send (Out_Release i) (setParent False (TItem i) u))) = Some t'"
        using assms(3) TItem False by (simp add: addThing_def Let_def)
      obtain u ok where u: "(if tt_magicField ?it then replace_fields e ?t else Some (?t, True)) = Some (u, ok)"
        using b by (cases "if tt_magicField ?it then replace_fields e ?t else Some (?t, True)") auto
      have t': "t' = (if ok then onAddTileItem e i (insert_down i u) else send (Out_Release i) (setParent False (TItem i) u))"
        using b unfolding u by (cases ok) simp_all
      have v: "tile_ok e u" "type_of e u = type_of e ?t" "set (things_on u) \<subseteq> set (things_on ?t)" "length (tileItems u) \<le> length (tileItems ?t)"
        using u t(1) replace_fields_ok [of e ?t u ok] by (auto split: if_splits)
      have "tile_ok e (setTileFlags e i (insert_down i u))"
        by (rule insert_down_ok [OF v(1)]) (use v t(2) len dn in \<open>auto simp: onTop_def\<close>)
      then show ?thesis using add t' v(1) by simp
    qed
  qed
qed

lemma addThing_returns:
  assumes "tile_ok e t" and "\<And>i. i \<in> set (downs t) \<Longrightarrow> te_class e i = CMagicField \<Longrightarrow> \<not> it_stackable (type_of e t i)"
  shows "\<exists>t'. addThing e x t = Some t'"
proof -
  have "\<exists>r. replace_fields e (setParent True x t) = Some r" by (rule replace_fields_returns) (use assms in simp_all)
  then show ?thesis
    by (cases x) (auto simp: addThing_def Let_def split: option.split)
qed

lemma internalAddThing_ok:
  assumes "tile_ok e t" and "fresh x t"
  shows "tile_ok e (internalAddThing e x t)"
proof (cases x)
  case (TCreature c)
  have "addThing e x t = Some (internalAddThing e x t)"
    by (simp add: addThing_def internalAddThing_def TCreature setParent_def send_def)
  then show ?thesis by (rule addThing_ok [OF assms])
next
  case (TItem i)
  let ?t = "setParent True x t"
  have t: "tile_ok e ?t" "i \<notin> set (things_on ?t)" using assms TItem by (simp_all add: fresh_def)
  have top: "tile_ok e (setTileFlags e i (insert_top (\<lambda>j. tt_alwaysOnTopOrder (type_of e ?t i) < tt_alwaysOnTopOrder (type_of e ?t j)) i ?t))"
    if "tt_alwaysOnTop (type_of e ?t i)" "length (tileItems ?t) < 65535"
    by (rule insert_top_ok [OF t]) (use that in \<open>auto simp: onTop_def order_def\<close>)
  have dn: "tile_ok e (setTileFlags e i (insert_down i ?t))"
    if "\<not> tt_alwaysOnTop (type_of e ?t i)" "length (tileItems ?t) < 65535"
    by (rule insert_down_ok [OF t]) (use that in \<open>auto simp: onTop_def\<close>)
  have g: "tile_ok e (setTileFlags e i (?t\<lparr>ground := Some i\<rparr>))" if "ground t = None"
    by (rule ground_ok [OF t]) (use that in simp)
  show ?thesis
    using t(1) top dn g by (auto simp: internalAddThing_def TItem Let_def)
qed

lemma updateThing_ok:
  assumes "tile_ok e t"
    and "\<And>i. x = TItem i \<Longrightarrow> i \<in> set (tileItems t) \<Longrightarrow>
      tt_alwaysOnTop (te_types e n) = onTop e t i"
  shows "tile_ok e (updateThing e x n c t)"
proof (cases x)
  case (TCreature k)
  then show ?thesis using assms(1) by (simp add: updateThing_def)
next
  case (TItem i)
  have l: "layout e t" and w: "watch e t (set (things_on t))" using assms(1) by (simp_all add: tile_ok_def)
  show ?thesis
  proof (cases "i \<in> set (things_on t)")
    case False
    then have "getThingIndex e t x = None" using getThingIndex_item [OF l] TItem by blast
    then show ?thesis using assms(1) TItem by (simp add: updateThing_def)
  next
    case True
    then have idx: "getThingIndex e t (TItem i) \<noteq> None" using getThingIndex_item [OF l] by blast
    let ?r = "resetTileFlags e i t"
    let ?u = "setThing i (setSubType (item_types e) (ucast c) (setID (item_types e) n (things t i))) ?r"
    have v: "updateThing e x n c t = send (Out_Update i i) (setTileFlags e i ?u)"
      using idx TItem by (auto simp: updateThing_def Let_def)
    have on: "things_on ?u = things_on t" "downs ?u = downs t" "tops ?u = tops t" "creatures ?u = creatures t" "tileItems ?u = tileItems t"
      "downItemCount ?u = downItemCount t"
      by (simp_all add: things_on_def downs_def tops_def)
    have ty: "type_of e ?u j = (if j = i then te_types e n else type_of e t j)" for j by (simp add: type_of_def)
    have kinds: "onTop e ?u j = onTop e t j" if "j \<in> set (tileItems t)" for j
      using assms(2) [OF TItem] that by (cases "j = i") (simp_all add: onTop_def ty)
    have sub: "set (downs t) \<subseteq> set (tileItems t)" "set (tops t) \<subseteq> set (tileItems t)" using parts [of t] by auto
    have "layout e ?u"
      using l kinds sub unfolding layout_def on by blast
    moreover have "watch e ?u (set (things_on t) - {i})"
      by (rule watch_cong [OF watch_reset [OF w refl]]) (auto simp: has_prop_def fun_eq_iff)
    ultimately have "tile_ok e (setTileFlags e i ?u)"
      by (rule tile_ok_set) (use True on in auto)
    then show ?thesis by (simp add: v)
  qed
qed

lemma replaceThing_ok:
  assumes "tile_ok e t" and "i \<notin> set (things_on t)"
    and "\<And>old. getThing t n = Some (TItem old) \<Longrightarrow> old \<in> set (tileItems t) \<Longrightarrow> onTop e t i = onTop e t old"
  shows "tile_ok e (replaceThing e n i t)"
proof (cases "replace_slot n i t")
  case None
  then show ?thesis using assms(1) by (simp add: replaceThing_def)
next
  case (Some r)
  obtain old u where r: "r = (old, u)" by (cases r)
  have g: "getThing t n = Some (TItem old)"
    using Some r by (auto simp: replace_slot_def getThing_def Let_def split: if_splits)
  have "tile_ok e (setTileFlags e i (resetTileFlags e old u))"
    by (rule replace_slot_ok(1) [OF assms(1,2)]) (use Some r assms(3) [OF g] in simp_all)
  moreover have "tile_ok e (setTileFlags e i (resetTileFlags e old (setParent b x v))) \<longleftrightarrow> tile_ok e (setTileFlags e i (resetTileFlags e old v))" for b x v
  proof (rule tile_ok_same(1))
    have lw: "last_with e p j (setParent b x u) = last_with e p j u" for p j u by (simp add: last_with_def tile_hasPropertyBut_iff)
    have h: "hasFlag f (setParent b x u) = hasFlag f u"
      "setFlag f (setParent b x u) = setParent b x (setFlag f u)" "resetFlag f (setParent b x u) = setParent b x (resetFlag f u)" for f u
      by (simp_all add: hasFlag_def setFlag_def resetFlag_def setParent_def)
    have f: "flag_if q f (setParent b x u) = setParent b x (flag_if q f u)" "unflag_if q f (setParent b x u) = setParent b x (unflag_if q f u)" for q f u
      by (simp_all add: flag_if_def unflag_if_def h)
    have "setTileFlags e i (setParent b x u) = setParent b x (setTileFlags e i u)" "resetTileFlags e old (setParent b x u) = setParent b x (resetTileFlags e old u)" for u
      by (simp_all add: setTileFlags_def resetTileFlags_def Let_def f h lw)
    then show "flags (setTileFlags e i (resetTileFlags e old (setParent b x v))) = flags (setTileFlags e i (resetTileFlags e old v))" by simp
  qed simp_all
  ultimately show ?thesis by (simp add: replaceThing_def Some r Let_def)
qed

subsection \<open>The order of the things on top\<close>

definition tops_sorted :: "tile_env \<Rightarrow> tile \<Rightarrow> bool" where
  "tops_sorted e t \<longleftrightarrow> sorted (map (order e t) (tops t))"

lemma tops_sortedI: "type_of e u = type_of e t \<Longrightarrow> sorted (map (order e t) (tops u)) \<Longrightarrow> tops_sorted e u"
  unfolding tops_sorted_def by (drule onTop_cong(2)) simp

lemma tops_sorted_same: "tops_sorted e t \<Longrightarrow> things u = things t \<Longrightarrow> tops u = tops t \<Longrightarrow> tops_sorted e u"
  by (rule tops_sortedI [of _ _ t]) (simp_all add: tops_sorted_def type_of_def fun_eq_iff)

lemma tops_sorted_iff: "things u = things t \<Longrightarrow> tops u = tops t \<Longrightarrow> tops_sorted e u \<longleftrightarrow> tops_sorted e t"
  using tops_sorted_same [of e t u] tops_sorted_same [of e u t] by auto

lemma tops_send [simp]: "tops_sorted e (send o1 t) \<longleftrightarrow> tops_sorted e t" "tops_sorted e (setParent b x t) \<longleftrightarrow> tops_sorted e t"
  "tops_sorted e (setTileFlags e i t) \<longleftrightarrow> tops_sorted e t" "tops_sorted e (resetTileFlags e i t) \<longleftrightarrow> tops_sorted e t"
  "tops_sorted e (t\<lparr>ground := g\<rparr>) \<longleftrightarrow> tops_sorted e t" "tops_sorted e (t\<lparr>creatures := cs\<rparr>) \<longleftrightarrow> tops_sorted e t"
  by (rule tops_sorted_iff; simp add: tops_def)+

lemma removeItem_tops:
  assumes "layout e t"
  shows "tops (removeItem e i c t) \<in> {tops t, remove1 i (tops t)}"
proof -
  have "tops (onRemoveTileItem e i f u) = drop (downItemCount u) (tileItems u)" for f u by (simp add: onRemoveTileItem_def tops_def)
  moreover have "tops (send o1 (setThing i it t)) = tops t" for o1 it by (simp add: tops_def)
  moreover have "tops t = drop (downItemCount t) (tileItems t)" by (rule tops_def)
  moreover have "downItemCount t - 1 = length (remove1 i (downs t))" if "i \<in> set (downs t)"
    using that length_downs [OF assms] by (simp add: length_remove1)
  ultimately show ?thesis using length_downs [OF assms] unfolding removeItem_def Let_def by simp
qed

lemma removeItem_sorted: "tile_ok e t \<Longrightarrow> tops_sorted e t \<Longrightarrow> tops_sorted e (removeItem e i c t)"
  by (rule tops_sortedI [OF removeItem_ok(2)])
    (use removeItem_tops [of e t i c] sorted_map_remove1 in \<open>auto simp: tile_ok_def tops_sorted_def\<close>)

lemma drop_sorted: "tile_ok e t \<Longrightarrow> tops_sorted e t \<Longrightarrow> tops_sorted e (drop_thing e i t)"
  by (simp add: drop_thing_def postRemoveNotification_def removeItem_sorted)

lemma replace_fields_sorted:
  assumes "replace_fields e t = Some (t', ok)" and "tile_ok e t" and "tops_sorted e t"
  shows "tops_sorted e t'"
proof -
  have "tile_ok e t \<longrightarrow> tops_sorted e t \<longrightarrow> tops_sorted e (fst (t', ok))"
    using assms(1)
  proof (rule replace_fields.raw_induct [where P = "\<lambda>e t r. tile_ok e t \<longrightarrow> tops_sorted e t \<longrightarrow> tops_sorted e (fst r)", rotated])
    fix f e t r
    assume IH: "\<And>e t r. f e t = Some r \<Longrightarrow> tile_ok e t \<longrightarrow> tops_sorted e t \<longrightarrow> tops_sorted e (fst r)"
      and eq: "(case find (\<lambda>i. te_class e i = CMagicField) (downs t) of None \<Rightarrow> Some (t, True)
        | Some i \<Rightarrow> if tt_replaceable (type_of e t i) then f e (drop_thing e i t) else Some (t, False)) = Some r"
    show "tile_ok e t \<longrightarrow> tops_sorted e t \<longrightarrow> tops_sorted e (fst r)"
      using eq IH drop_thing_ok(1) drop_sorted by (auto split: option.splits if_splits)
  qed
  then show ?thesis using assms(2,3) by simp
qed

lemma insert_top_sorted:
  assumes "tops_sorted e t" and "downItemCount t \<le> length (tileItems t)"
    and "\<And>j. P j \<Longrightarrow> order e t i \<le> order e t j" and "\<And>j. \<not> P j \<Longrightarrow> order e t j \<le> order e t i"
  shows "tops_sorted e (insert_top P i t)"
proof (rule tops_sortedI [of _ _ t])
  have "tops (insert_top P i t) = insert_before P i (tops t)" using assms(2) by (simp add: insert_top_def tops_def downs_def)
  then show "sorted (map (order e t) (tops (insert_top P i t)))"
    using sorted_insert_before [of P "order e t" i "tops t"] assms(1,3,4) by (simp add: tops_sorted_def)
qed (simp add: insert_top_def)

lemma insert_down_sorted: "tops_sorted e t \<Longrightarrow> tops_sorted e (insert_down i t)"
  by (erule tops_sorted_same) (simp_all add: insert_down_def tops_def)

lemma ok_count: "tile_ok e t \<Longrightarrow> downItemCount t \<le> length (tileItems t)"
  by (simp add: tile_ok_def layout_def)

lemma internalAddThing_sorted:
  assumes "tile_ok e t" and "tops_sorted e t"
  shows "tops_sorted e (internalAddThing e x t)"
  using assms ok_count [OF assms(1)]
  by (auto simp: internalAddThing_def Let_def order_def insert_down_sorted split: thing.split intro!: insert_top_sorted)

lemma addThing_sorted:
  assumes "tile_ok e t" and "tops_sorted e t" and "addThing e x t = Some t'"
  shows "tops_sorted e t'"
proof (cases x)
  case (TCreature c)
  then show ?thesis using assms by (auto simp: addThing_def)
next
  case (TItem i)
  let ?t = "setParent True (TItem i) t" and ?it = "type_of e t i"
  have t: "tile_ok e ?t" "tops_sorted e ?t" using assms(1,2) by simp_all
  show ?thesis
  proof (cases "tt_ground ?it \<or> length (tileItems t) \<ge> 65535")
    case True
    then show ?thesis
      using assms t TItem
      by (cases "length (tileItems t) \<ge> 65535") (auto simp: addThing_def Let_def onAddTileItem_def postRemoveNotification_def split: option.splits)
  next
    case False
    show ?thesis
    proof (cases "tt_alwaysOnTop ?it")
      case True
      define u where "u = (if tt_splash ?it then case find (\<lambda>j. tt_splash (type_of e t j)) (tops ?t) of None \<Rightarrow> ?t | Some old \<Rightarrow> drop_thing e old ?t else ?t)"
      have t': "t' = onAddTileItem e i (insert_top (\<lambda>j. tt_alwaysOnTopOrder ?it \<le> tt_alwaysOnTopOrder (type_of e u j)) i u)"
        using assms(3) TItem False True by (simp add: addThing_def Let_def u_def cong: if_cong option.case_cong)
      have u: "tile_ok e u" "tops_sorted e u" "type_of e u = type_of e t"
        using t drop_thing_ok(1,2) [OF t(1)] drop_sorted [OF t] unfolding u_def by (auto split: option.splits)
      show ?thesis
        unfolding t' onAddTileItem_def tops_send
        by (rule insert_top_sorted [OF u(2) ok_count [OF u(1)]]) (auto simp: order_def u(3))
    next
      case dn: False
      then have b: "Option.bind (if tt_magicField ?it then replace_fields e ?t else Some (?t, True)) (\<lambda>(u, ok).
          if ok then Some (onAddTileItem e i (insert_down i u)) else Some (send (Out_Release i) (setParent False (TItem i) u))) = Some t'"
        using assms(3) TItem False by (simp add: addThing_def Let_def)
      obtain u ok where u: "(if tt_magicField ?it then replace_fields e ?t else Some (?t, True)) = Some (u, ok)"
        using b by (cases "if tt_magicField ?it then replace_fields e ?t else Some (?t, True)") auto
      have "tops_sorted e u" using u t replace_fields_sorted [of e ?t u ok] by (auto split: if_splits)
      then show ?thesis using b u by (auto simp: onAddTileItem_def insert_down_sorted split: if_splits)
    qed
  qed
qed

subsection \<open>Reachable tiles\<close>

definition new_tile :: "Position \<Rightarrow> u32 \<Rightarrow> (nat \<Rightarrow> item) \<Rightarrow> tile" where
  "new_tile p zone h = \<lparr>ground = None, tileItems = [], downItemCount = 0, creatures = [], flags = zone, tilePos = p, things = h, owned = {}, sent = []\<rparr>"

text \<open>A tile starts empty, with zone flags; it changes by the operations, applied to things that are not on it, and the items that lie elsewhere
  may change as they like. An update or a replacement in the item vector keeps \<open>alwaysOnTop\<close>, which decides the half of the vector the item
  belongs to: \<open>Game::transformItem\<close> compares the two types and takes the item out and puts it in again when they differ. It does not compare
  \<open>alwaysOnTopOrder\<close>, and neither do the rules. (The one replacement \<open>transformItem\<close> does without a look at the type, by the \<open>decayTo\<close> of an item
  whose charges have run out, is covered as far as that type is in the same half.)\<close>

inductive tile_reach :: "tile_env \<Rightarrow> tile \<Rightarrow> bool" for e where
  start: "zone AND NOT (TILESTATE_PROTECTIONZONE OR TILESTATE_NOPVPZONE OR TILESTATE_NOLOGOUT OR TILESTATE_PVPZONE) = 0 \<Longrightarrow>
    tile_reach e (new_tile p zone h)"
| internal: "tile_reach e t \<Longrightarrow> fresh x t \<Longrightarrow> tile_reach e (internalAddThing e x t)"
| add: "tile_reach e t \<Longrightarrow> fresh x t \<Longrightarrow> addThing e x t = Some t' \<Longrightarrow> tile_reach e t'"
| remove: "tile_reach e t \<Longrightarrow> tile_reach e (removeThing e x c t)"
| update: "tile_reach e t \<Longrightarrow>
    (\<And>i. x = TItem i \<Longrightarrow> i \<in> set (tileItems t) \<Longrightarrow>
      tt_alwaysOnTop (te_types e n) = onTop e t i) \<Longrightarrow>
    tile_reach e (updateThing e x n c t)"
| replace: "tile_reach e t \<Longrightarrow> fresh (TItem i) t \<Longrightarrow>
    (\<And>old. getThing t k = Some (TItem old) \<Longrightarrow> old \<in> set (tileItems t) \<Longrightarrow> onTop e t i = onTop e t old) \<Longrightarrow>
    tile_reach e (replaceThing e k i t)"
| elsewhere: "tile_reach e t \<Longrightarrow> (\<And>i. i \<in> set (things_on t) \<Longrightarrow> h i = things t i) \<Longrightarrow> tile_reach e (t\<lparr>things := h\<rparr>)"

lemma zone_bits:
  assumes "zone AND NOT (TILESTATE_PROTECTIONZONE OR TILESTATE_NOPVPZONE OR TILESTATE_NOLOGOUT OR TILESTATE_PVPZONE) = 0" and "(p, k) \<in> set watched"
  shows "\<not> bit zone k"
proof
  assume z: "bit zone k"
  then have "k < 32" using bit_imp_le_length by fastforce
  moreover have "\<not> bit (TILESTATE_PROTECTIONZONE OR TILESTATE_NOPVPZONE OR TILESTATE_NOLOGOUT OR TILESTATE_PVPZONE) k"
    using assms(2) unfolding watched_def TILESTATE_PROTECTIONZONE_def TILESTATE_NOPVPZONE_def TILESTATE_NOLOGOUT_def TILESTATE_PVPZONE_def bit_or_iff
    by (auto simp: bit_exp_iff)
  ultimately have "bit (zone AND NOT (TILESTATE_PROTECTIONZONE OR TILESTATE_NOPVPZONE OR TILESTATE_NOLOGOUT OR TILESTATE_PVPZONE)) k"
    using z by (simp add: bit_and_iff bit_not_iff bit_or_iff)
  then show False unfolding assms(1) by simp
qed

lemma removeThing_ok: "tile_ok e t \<Longrightarrow> tile_ok e (removeThing e x c t)"
proof (cases x)
  case (TItem i)
  then show "tile_ok e t \<Longrightarrow> tile_ok e (removeThing e x c t)" using removeItem_ok(1) by (simp add: removeThing_def)
next
  case (TCreature k)
  assume t: "tile_ok e t"
  let ?u = "(send Out_ClearCache t)\<lparr>creatures := remove1 k (creatures t)\<rparr>"
  have ty: "type_of e ?u = type_of e t" and same: "things_on ?u = things_on t" "downs ?u = downs t" "tops ?u = tops t"
    by (simp_all add: things_on_def downs_def tops_def)
  have "layout e ?u" using t unfolding tile_ok_def layout_def same onTop_cong [OF ty] by simp
  moreover have "watch e ?u (set (things_on ?u))" unfolding same by (rule watch_cong [where t = t]) (use t in \<open>simp_all add: tile_ok_def\<close>)
  ultimately show ?thesis using t TCreature by (simp add: removeThing_def tile_ok_def)
qed

lemma tile_reach_ok: "tile_reach e t \<Longrightarrow> tile_ok e t"
proof (induction rule: tile_reach.induct)
  case (start zone p h)
  then show ?case using zone_bits [OF start]
    by (auto simp: tile_ok_def layout_def watch_def new_tile_def things_on_def downs_def tops_def)
next
  case (elsewhere t h)
  let ?u = "t\<lparr>things := h\<rparr>"
  have on: "things_on ?u = things_on t" "downs ?u = downs t" "tops ?u = tops t" by (simp_all add: things_on_def downs_def tops_def)
  have ty: "type_of e ?u j = type_of e t j" if "j \<in> set (things_on t)" for j using elsewhere.hyps(2) [OF that] by (simp add: type_of_def)
  have kinds: "onTop e ?u j = onTop e t j" if "j \<in> set (things_on t)" for j using onTop_cong1 [OF ty [OF that]] by simp
  have sub: "set (downs t) \<subseteq> set (things_on t)" "set (tops t) \<subseteq> set (things_on t)" by (auto simp: things_on_parts)
  have l: "layout e t" using elsewhere.IH by (simp add: tile_ok_def)
  have "downItemCount ?u = downItemCount t" "tileItems ?u = tileItems t" "creatures ?u = creatures t" by simp_all
  then have "layout e ?u" using l kinds sub unfolding layout_def on by (simp only:) blast
  moreover have "watch e ?u (set (things_on t))"
    using elsewhere.IH elsewhere.hyps(2) unfolding tile_ok_def watch_def has_prop_def by simp
  ultimately show ?case by (simp add: tile_ok_def on)
next
  case (replace t i k)
  show ?case by (rule replaceThing_ok) (use replace in \<open>simp_all add: fresh_def\<close>)
next
  case (update t x n c)
  show ?case by (rule updateThing_ok) (use update in simp_all)
qed (simp_all add: internalAddThing_ok addThing_ok removeThing_ok)

lemma flag_bit: "(p, k) \<in> set watched \<Longrightarrow> k < 32 \<and> bit (push_bit k (1 :: u32)) k"
  by (auto simp: watched_def bit_exp_iff)

text \<open>C31: the flags of a tile sum up what lies there. On every reachable tile each of the five flags that walking and throwing ask for
  (\<open>BLOCKSOLID\<close>, \<open>BLOCKPATH\<close>, \<open>IMMOVABLEBLOCKSOLID\<close>, \<open>IMMOVABLENOFIELDBLOCKPATH\<close>, \<open>NOFIELDBLOCKPATH\<close>) is set exactly if the ground or some
  item has the property, however things were added, transformed, replaced and removed before.\<close>

theorem tile_flags_exact:
  assumes "tile_reach e t"
  shows "(hasFlag TILESTATE_BLOCKSOLID t \<longleftrightarrow> tile_hasProperty e t CONST_PROP_BLOCKSOLID)
    \<and> (hasFlag TILESTATE_BLOCKPATH t \<longleftrightarrow> tile_hasProperty e t CONST_PROP_BLOCKPATH)
    \<and> (hasFlag TILESTATE_IMMOVABLEBLOCKSOLID t \<longleftrightarrow> tile_hasProperty e t CONST_PROP_IMMOVABLEBLOCKSOLID)
    \<and> (hasFlag TILESTATE_IMMOVABLENOFIELDBLOCKPATH t \<longleftrightarrow> tile_hasProperty e t CONST_PROP_IMMOVABLENOFIELDBLOCKPATH)
    \<and> (hasFlag TILESTATE_NOFIELDBLOCKPATH t \<longleftrightarrow> tile_hasProperty e t CONST_PROP_NOFIELDBLOCKPATH)"
proof -
  have w: "watch e t (set (things_on t))" using tile_reach_ok [OF assms] by (simp add: tile_ok_def)
  have f: "hasFlag (push_bit k 1) t \<longleftrightarrow> tile_hasProperty e t p" if "(p, k) \<in> set watched" for p k
    using w that flag_bit [OF that] hasFlag_bit [of k t] unfolding watch_def tile_hasProperty_iff by fastforce
  show ?thesis
    unfolding TILESTATE_BLOCKSOLID_def TILESTATE_BLOCKPATH_def TILESTATE_IMMOVABLEBLOCKSOLID_def TILESTATE_IMMOVABLENOFIELDBLOCKPATH_def
      TILESTATE_NOFIELDBLOCKPATH_def
    by (intro conjI f) (simp_all add: watched_def)
qed

text \<open>C32: the order of a tile. On every reachable tile the vector holds the items that are not always on top first, as many as the counter says,
  then the items that are; no thing lies there twice, the vector never outgrows the 16 bits of the counter, and \<open>addThing\<close> returns when no field
  on the tile is stackable. The items on top lie in rising \<open>alwaysOnTopOrder\<close> after \<open>addThing\<close>, \<open>internalAddThing\<close> and \<open>removeThing\<close> whenever they
  did before. (A transformation in place can break that order: \<open>transform_unsorts\<close> below.)\<close>

theorem tile_stack_ordered:
  assumes "tile_reach e t"
  shows "distinct (things_on t) \<and> distinct (creatures t) \<and> length (tileItems t) < 2 ^ 16 \<and> downItemCount t \<le> length (tileItems t)
    \<and> (\<forall>k<length (tileItems t). tt_alwaysOnTop (type_of e t (tileItems t ! k)) \<longleftrightarrow> downItemCount t \<le> k)
    \<and> ((\<forall>i\<in>set (tileItems t). te_class e i = CMagicField \<longrightarrow> \<not> it_stackable (type_of e t i)) \<longrightarrow> (\<exists>t'. addThing e x t = Some t'))
    \<and> (tops_sorted e t \<longrightarrow> tops_sorted e (removeThing e x c t) \<and> tops_sorted e (internalAddThing e x t)
        \<and> (\<forall>t'. addThing e x t = Some t' \<longrightarrow> tops_sorted e t'))"
proof -
  have ok: "tile_ok e t" using tile_reach_ok [OF assms] .
  then have l: "layout e t" by (simp add: tile_ok_def)
  note L = layoutD [OF l]
  let ?n = "downItemCount t"
  have dn: "tileItems t ! k = downs t ! k" "k < length (downs t)" if "k < ?n" for k
    using that l by (simp_all add: downs_def layout_def)
  have tp: "tileItems t ! k = tops t ! (k - ?n)" "k - ?n < length (tops t)" if "?n \<le> k" "k < length (tileItems t)" for k
    using that by (simp_all add: tops_def)
  have "tt_alwaysOnTop (type_of e t (tileItems t ! k)) \<longleftrightarrow> ?n \<le> k" if "k < length (tileItems t)" for k
    using that L(4,5) dn [of k] tp [of k] nth_mem [of k "downs t"] nth_mem [of "k - ?n" "tops t"] unfolding onTop_def
    by (cases "?n \<le> k") force+
  moreover have "\<exists>t'. addThing e x t = Some t'" if "\<forall>i\<in>set (tileItems t). te_class e i = CMagicField \<longrightarrow> \<not> it_stackable (type_of e t i)"
    by (rule addThing_returns [OF ok]) (use that parts [of t] in auto)
  moreover have "tops_sorted e (removeThing e x c t)" if "tops_sorted e t"
    using that removeItem_sorted [OF ok] by (cases x) (simp_all add: removeThing_def)
  moreover note internalAddThing_sorted [OF ok] addThing_sorted [OF ok]
  ultimately show ?thesis using l by (simp add: layout_def)
qed

subsection \<open>A stretch of wall\<close>

definition plain_type :: tile_type where
  "plain_type = \<lparr>it_stackable = False, it_fluid = False, it_charges = 0, it_moveable = True, it_pickupable = True, it_weight = 100, it_decayTime = 0,
     it_stopTime = False, it_decayTo = -1, tt_ground = False, tt_splash = False, tt_magicField = False, tt_bed = False, tt_floorChange = 0,
     tt_alwaysOnTopOrder = 0, tt_alwaysOnTop = False, tt_blockSolid = False, tt_blockPathFind = False, tt_blockProjectile = False,
     tt_hasHeight = False, tt_allowPickupable = False, tt_isVertical = False, tt_isHorizontal = False, tt_isHangable = False, tt_lookThrough = False,
     tt_forceUse = False, tt_replaceable = False, tt_combatType = 0\<rparr>"

definition demo_npc :: tile_creature where
  "demo_npc = \<lparr>tc_kind = KNpc, tc_ghost = False, tc_pushable = False, tc_canPushCreatures = False, tc_canPushItems = False, tc_summon = False,
     tc_ofPlayer = False, tc_access = False, tc_placed = True, tc_pzLocked = False, tc_tileFlags = None, tc_immune = (\<lambda>_. False), tc_afflicted = (\<lambda>_. False)\<rparr>"

text \<open>Item type 2 is grass, 3 a vertical and 4 a horizontal piece of wall, 5 is gold, 6 an open door, everything else is a plain item.\<close>

definition demo_types :: "16 word \<Rightarrow> tile_type" where
  "demo_types n =
     (if n = 2 then plain_type\<lparr>tt_ground := True\<rparr>
      else if n = 3 then plain_type\<lparr>it_moveable := False, tt_blockSolid := True, tt_alwaysOnTop := True, tt_alwaysOnTopOrder := 2, tt_isVertical := True\<rparr>
      else if n = 4 then plain_type\<lparr>it_moveable := False, tt_blockSolid := True, tt_alwaysOnTop := True, tt_alwaysOnTopOrder := 3, tt_isHorizontal := True\<rparr>
      else if n = 5 then plain_type\<lparr>it_stackable := True\<rparr>
      else if n = 6 then plain_type\<lparr>it_moveable := False, tt_alwaysOnTop := True, tt_alwaysOnTopOrder := 4\<rparr>
      else plain_type)"

definition demo_env :: tile_env where
  "demo_env = \<lparr>te_types = demo_types, te_class = (\<lambda>_. CItem), te_creature = (\<lambda>_. demo_npc)\<rparr>"

definition demo_item :: "nat \<Rightarrow> item" where
  "demo_item n = \<lparr>i_id = of_nat n, i_count = 10, i_attrs = None\<rparr>"

definition demo_wall :: tile where
  "demo_wall = internalAddThing demo_env (TItem 3) (internalAddThing demo_env (TItem 4) (internalAddThing demo_env (TItem 2)
     (new_tile (Position 100 100 7) 0 demo_item)))"

lemmas demo_defs = demo_wall_def demo_env_def demo_types_def plain_type_def demo_item_def new_tile_def internalAddThing_def setParent_def
  insert_top_def downs_def tops_def type_of_def

lemma demo_wall_reach: "tile_reach demo_env demo_wall"
proof -
  have "tile_reach demo_env (new_tile (Position 100 100 7) 0 demo_item)" by (rule tile_reach.start) simp
  then show ?thesis
    unfolding demo_wall_def
    by (intro tile_reach.internal) (simp_all add: fresh_def things_on_def demo_defs Let_def)
qed

lemma demo_wall_parts: "ground demo_wall = Some 2" "tileItems demo_wall = [3, 4]" "downItemCount demo_wall = 0" "creatures demo_wall = []"
  "things demo_wall = demo_item"
  by (simp_all add: demo_defs Let_def)

theorem tile_flags_exact_witness:
  "hasFlag TILESTATE_BLOCKSOLID demo_wall \<and> \<not> hasFlag TILESTATE_BLOCKPATH demo_wall"
  unfolding tile_flags_exact [OF demo_wall_reach, THEN conjunct1] tile_flags_exact [OF demo_wall_reach, THEN conjunct2, THEN conjunct1]
  by (simp add: tile_hasProperty_def demo_wall_parts has_prop_def item_hasProperty_def demo_env_def demo_types_def demo_item_def plain_type_def)

theorem tile_stack_ordered_witness:
  "distinct (things_on demo_wall) \<and> (\<exists>t'. addThing demo_env (TItem 9) demo_wall = Some t') \<and> tops_sorted demo_env (removeThing demo_env (TItem 9) 1 demo_wall)"
proof -
  have "tops_sorted demo_env demo_wall"
    by (simp add: tops_sorted_def order_def tops_def type_of_def demo_wall_parts demo_env_def demo_types_def demo_item_def plain_type_def)
  then show ?thesis using tile_stack_ordered [OF demo_wall_reach, of "TItem 9" 1] by (simp add: demo_env_def)
qed

text \<open>The order of the items on top is lost when one of them is transformed in place: the wall turned into a door, of a higher order, stays below
  the other piece. With the items of the server this happens with doors: 1209 has order 1, and the open door 1211 has order 2.\<close>

lemma transform_unsorts:
  "tile_reach demo_env demo_wall \<and> tops_sorted demo_env demo_wall
   \<and> tile_reach demo_env (updateThing demo_env (TItem 3) 6 10 demo_wall) \<and> \<not> tops_sorted demo_env (updateThing demo_env (TItem 3) 6 10 demo_wall)"
proof (intro conjI demo_wall_reach tile_reach.update)
  let ?u = "updateThing demo_env (TItem 3) 6 10 demo_wall"
  show "tops_sorted demo_env demo_wall"
    by (simp add: tops_sorted_def order_def tops_def type_of_def demo_wall_parts demo_env_def demo_types_def demo_item_def plain_type_def)
  show "tt_alwaysOnTop (te_types demo_env 6) = onTop demo_env demo_wall i" if "TItem 3 = TItem i" for i
    using that by (auto simp: onTop_def type_of_def demo_wall_parts demo_env_def demo_types_def demo_item_def plain_type_def)
  have idx: "getThingIndex demo_env demo_wall (TItem 3) \<noteq> None"
    by (simp add: getThingIndex_def onTop_def type_of_def demo_wall_parts downs_def tops_def groundCount_def demo_env_def demo_types_def demo_item_def
        plain_type_def)
  have "tops ?u = [3, 4]" "type_of demo_env ?u 3 = demo_types 6" "type_of demo_env ?u 4 = demo_types 4"
    using idx by (auto simp: updateThing_def Let_def tops_def type_of_def demo_wall_parts demo_env_def demo_item_def send_def setThing_def)
  then show "\<not> tops_sorted demo_env ?u" by (simp add: tops_sorted_def order_def demo_types_def plain_type_def)
qed

text \<open>Other flags are reset with the first thing of their kind that leaves: of a corner of two pieces of wall one is removed, the other still
  supports hangable items, and the flag says that none does.\<close>

lemma hangable_flag_lost:
  "\<exists>t. tile_reach demo_env t \<and> tile_hasProperty demo_env t CONST_PROP_SUPPORTHANGABLE \<and> \<not> hasFlag TILESTATE_SUPPORTS_HANGABLE t"
proof (intro exI conjI)
  let ?t = "removeThing demo_env (TItem 3) 1 demo_wall"
  show "tile_reach demo_env ?t" using demo_wall_reach by (rule tile_reach.remove)
  have r: "?t = onRemoveTileItem demo_env 3 (\<lambda>sees. getStackposOfItem demo_env demo_wall sees 3) ((setParent False (TItem 3) demo_wall)\<lparr>tileItems := [4]\<rparr>)"
    by (simp add: removeThing_def removeItem_def getThingIndex_def onTop_def type_of_def demo_wall_parts downs_def tops_def groundCount_def
        demo_env_def demo_types_def demo_item_def plain_type_def)
  show "tile_hasProperty demo_env ?t CONST_PROP_SUPPORTHANGABLE"
    unfolding r onRemoveTileItem_def
    by (simp add: tile_hasProperty_def demo_wall_parts has_prop_def item_hasProperty_def demo_env_def demo_types_def demo_item_def plain_type_def)
  have "\<not> bit (flags ?t) 23"
    unfolding r onRemoveTileItem_def helper_simps resetTileFlags_def Let_def unflag_if_bit
    by (simp add: flag_bits has_prop_def item_hasProperty_def demo_wall_parts demo_env_def demo_types_def demo_item_def plain_type_def)
  then show "\<not> hasFlag TILESTATE_SUPPORTS_HANGABLE ?t" unfolding TILESTATE_SUPPORTS_HANGABLE_def by (subst hasFlag_bit) simp_all
qed

end
