(* ===== verification/Tile_Queries.thy ===== *)
theory Tile_Queries
  imports Tile_Invariant
begin

section \<open>What a tile answers\<close>

text \<open>
  The queries of a tile (src/src/tile.cpp: \<open>queryAdd\<close>, \<open>queryRemove\<close>, \<open>queryMaxCount\<close>, \<open>queryDestination\<close>) and the description of a tile a
  client gets (src/src/protocolgame.cpp: \<open>GetTileDescription\<close>). Shown: indices and things are inverse; the stack positions told to a client are the
  places in the description it has; the client can follow a removal; and what \<open>queryAdd\<close> and \<open>queryRemove\<close> promise holds.
\<close>

definition FLAG_NOLIMIT :: u32 where "FLAG_NOLIMIT = 1"
definition FLAG_IGNOREBLOCKITEM :: u32 where "FLAG_IGNOREBLOCKITEM = 2"
definition FLAG_IGNOREBLOCKCREATURE :: u32 where "FLAG_IGNOREBLOCKCREATURE = 4"
definition FLAG_PATHFINDING :: u32 where "FLAG_PATHFINDING = 16"
definition FLAG_IGNOREFIELDDAMAGE :: u32 where "FLAG_IGNOREFIELDDAMAGE = 32"
definition FLAG_IGNORENOTMOVEABLE :: u32 where "FLAG_IGNORENOTMOVEABLE = 64"

definition pushed_aside :: "tile_creature \<Rightarrow> bool" where
  "pushed_aside k \<longleftrightarrow> tc_kind k = KPlayer \<and> tc_ghost k \<or> tc_kind k = KMonster \<and> tc_pushable k \<and> \<not> (tc_summon k \<and> tc_ofPlayer k)"

definition field_stops :: "tile_env \<Rightarrow> tile \<Rightarrow> tile_creature \<Rightarrow> u32 \<Rightarrow> bool" where
  "field_stops e t k fl \<longleftrightarrow>
     (case getFieldItem e t of
        None \<Rightarrow> False
      | Some f \<Rightarrow>
          \<not> tt_blockSolid (type_of e t f) \<and> \<not> tc_immune k (tt_combatType (type_of e t f))
          \<and> (if hasBitSet FLAG_IGNOREFIELDDAMAGE fl then \<not> (tc_canPushItems k \<or> tc_afflicted k (tt_combatType (type_of e t f))) else True))"

definition queryAdd_monster :: "tile_env \<Rightarrow> tile \<Rightarrow> tile_creature \<Rightarrow> u32 \<Rightarrow> ReturnValue" where
  "queryAdd_monster e t k fl =
     (if hasFlag (TILESTATE_PROTECTIONZONE OR TILESTATE_FLOORCHANGE OR TILESTATE_TELEPORT) t then RETURNVALUE_NOTPOSSIBLE
      else if tc_canPushCreatures k \<and> \<not> tc_summon k \<and> list_ex (\<lambda>c. \<not> pushed_aside (te_creature e c)) (creatures t) then RETURNVALUE_NOTPOSSIBLE
      else if \<not> (tc_canPushCreatures k \<and> \<not> tc_summon k) \<and> list_ex (\<lambda>c. \<not> tc_ghost (te_creature e c)) (creatures t) then RETURNVALUE_NOTENOUGHROOM
      else if hasFlag TILESTATE_IMMOVABLEBLOCKSOLID t then RETURNVALUE_NOTPOSSIBLE
      else if hasBitSet FLAG_PATHFINDING fl \<and> hasFlag TILESTATE_IMMOVABLENOFIELDBLOCKPATH t then RETURNVALUE_NOTPOSSIBLE
      else if (hasFlag TILESTATE_BLOCKSOLID t \<or> hasBitSet FLAG_PATHFINDING fl \<and> hasFlag TILESTATE_NOFIELDBLOCKPATH t)
          \<and> \<not> (tc_canPushItems k \<or> hasBitSet FLAG_IGNOREBLOCKITEM fl) then RETURNVALUE_NOTPOSSIBLE
      else if field_stops e t k fl then RETURNVALUE_NOTPOSSIBLE
      else RETURNVALUE_NOERROR)"

definition pz_check :: "tile \<Rightarrow> tile_creature \<Rightarrow> ReturnValue" where
  "pz_check t k =
     (case tc_tileFlags k of
        None \<Rightarrow> RETURNVALUE_NOERROR
      | Some pf \<Rightarrow>
          if \<not> tc_pzLocked k then RETURNVALUE_NOERROR
          else if \<not> hasBitSet TILESTATE_PVPZONE pf \<and> hasFlag TILESTATE_PVPZONE t then RETURNVALUE_PLAYERISPZLOCKEDENTERPVPZONE
          else if hasBitSet TILESTATE_PVPZONE pf \<and> \<not> hasFlag TILESTATE_PVPZONE t then RETURNVALUE_PLAYERISPZLOCKEDLEAVEPVPZONE
          else if \<not> hasBitSet TILESTATE_NOPVPZONE pf \<and> hasFlag TILESTATE_NOPVPZONE t
              \<or> \<not> hasBitSet TILESTATE_PROTECTIONZONE pf \<and> hasFlag TILESTATE_PROTECTIONZONE t then RETURNVALUE_PLAYERISPZLOCKED
          else RETURNVALUE_NOERROR)"

definition crowd_check :: "tile_env \<Rightarrow> tile \<Rightarrow> tile_creature \<Rightarrow> u32 \<Rightarrow> ReturnValue" where
  "crowd_check e t k fl =
     (let crowded = (\<not> hasBitSet FLAG_IGNOREBLOCKCREATURE fl \<and> list_ex (\<lambda>c. \<not> tc_ghost (te_creature e c)) (creatures t))
      in if tc_kind k = KPlayer
         then if crowded \<and> \<not> tc_access k then RETURNVALUE_NOTPOSSIBLE
              else if \<not> tc_placed k \<and> hasFlag TILESTATE_NOLOGOUT t then RETURNVALUE_NOTPOSSIBLE
              else pz_check t k
         else if crowded then RETURNVALUE_NOTENOUGHROOM
         else RETURNVALUE_NOERROR)"

definition stands_fast :: "tile_env \<Rightarrow> tile \<Rightarrow> nat \<Rightarrow> bool" where
  "stands_fast e t i \<longleftrightarrow> tt_blockSolid (type_of e t i) \<and> (\<not> it_moveable (type_of e t i) \<or> item_has (things t i) ITEM_ATTRIBUTE_UNIQUEID)"

definition queryAdd_creature :: "tile_env \<Rightarrow> tile \<Rightarrow> tile_creature \<Rightarrow> u32 \<Rightarrow> ReturnValue" where
  "queryAdd_creature e t k fl =
     (if hasBitSet FLAG_NOLIMIT fl then RETURNVALUE_NOERROR
      else if hasBitSet FLAG_PATHFINDING fl \<and> hasFlag (TILESTATE_FLOORCHANGE OR TILESTATE_TELEPORT) t then RETURNVALUE_NOTPOSSIBLE
      else if ground t = None then RETURNVALUE_NOTPOSSIBLE
      else if tc_kind k = KMonster then queryAdd_monster e t k fl
      else if crowd_check e t k fl \<noteq> RETURNVALUE_NOERROR then crowd_check e t k fl
      else if \<not> hasBitSet FLAG_IGNOREBLOCKITEM fl
      then (if hasFlag TILESTATE_BLOCKSOLID t then RETURNVALUE_NOTENOUGHROOM else RETURNVALUE_NOERROR)
      else if (case ground t of None \<Rightarrow> False | Some g \<Rightarrow> stands_fast e t g) \<or> list_ex (stands_fast e t) (tileItems t)
      then RETURNVALUE_NOTPOSSIBLE
      else RETURNVALUE_NOERROR)"

text \<open>\<open>no_room\<close> is what a blocking thing does to a new item; the ground and the items are tested alike.\<close>

definition no_room :: "tile_type \<Rightarrow> tile_type \<Rightarrow> bool" where
  "no_room it new \<longleftrightarrow> tt_blockSolid it \<and> (\<not> tt_allowPickupable it \<or> tt_magicField new \<or> tt_blockSolid new)
     \<and> (\<not> it_pickupable new \<or> (\<not> tt_hasHeight it \<or> it_pickupable it \<or> tt_bed it))"

definition queryAdd_item :: "tile_env \<Rightarrow> tile \<Rightarrow> tile_type \<Rightarrow> u32 \<Rightarrow> ReturnValue" where
  "queryAdd_item e t new fl =
     (if length (tileItems t) \<ge> 65535 then RETURNVALUE_NOTPOSSIBLE
      else if hasBitSet FLAG_NOLIMIT fl then RETURNVALUE_NOERROR
      else if ground t = None \<and> \<not> tt_isHangable new then RETURNVALUE_NOTPOSSIBLE
      else if tt_blockSolid new \<and> \<not> hasBitSet FLAG_IGNOREBLOCKCREATURE fl \<and> list_ex (\<lambda>c. \<not> tc_ghost (te_creature e c)) (creatures t)
      then RETURNVALUE_NOTENOUGHROOM
      else if tt_isHangable new \<and> hasFlag TILESTATE_SUPPORTS_HANGABLE t
      then (if list_ex (\<lambda>i. tt_isHangable (type_of e t i)) (tileItems t) then RETURNVALUE_NEEDEXCHANGE else RETURNVALUE_NOERROR)
      else if (case ground t of None \<Rightarrow> False | Some g \<Rightarrow> no_room (type_of e t g) new) then RETURNVALUE_NOTENOUGHROOM
      else if list_ex (\<lambda>i. no_room (type_of e t i) new) (tileItems t) then RETURNVALUE_NOTENOUGHROOM
      else RETURNVALUE_NOERROR)"

definition tile_queryAdd :: "tile_env \<Rightarrow> tile \<Rightarrow> thing \<Rightarrow> u32 \<Rightarrow> ReturnValue" where
  "tile_queryAdd e t x fl =
     (case x of TCreature c \<Rightarrow> queryAdd_creature e t (te_creature e c) fl | TItem i \<Rightarrow> queryAdd_item e t (type_of e t i) fl)"

definition tile_queryMaxCount :: "u32 \<Rightarrow> ReturnValue \<times> u32" where
  "tile_queryMaxCount count = (RETURNVALUE_NOERROR, max 1 count)"

definition tile_queryRemove :: "tile_env \<Rightarrow> tile \<Rightarrow> thing \<Rightarrow> u32 \<Rightarrow> u32 \<Rightarrow> ReturnValue" where
  "tile_queryRemove e t x count fl =
     (if getThingIndex e t x = None then RETURNVALUE_NOTPOSSIBLE
      else
        case x of
          TCreature c \<Rightarrow> RETURNVALUE_NOTPOSSIBLE
        | TItem i \<Rightarrow>
            if count = 0 \<or> it_stackable (type_of e t i) \<and> count > ucast (i_count (things t i)) then RETURNVALUE_NOTPOSSIBLE
            else if \<not> it_moveable (type_of e t i) \<and> \<not> hasBitSet FLAG_IGNORENOTMOVEABLE fl then RETURNVALUE_NOTMOVEABLE
            else RETURNVALUE_NOERROR)"

text \<open>Where something that is put on the tile ends up: \<open>None\<close> is this tile. \<open>getTile\<close> is the map's.\<close>

definition step_if :: "bool \<Rightarrow> 16 word \<Rightarrow> 16 word \<Rightarrow> 16 word" where
  "step_if c d v = (if c then v + d else v)"

definition has_at :: "(16 word \<Rightarrow> 16 word \<Rightarrow> 8 word \<Rightarrow> tile option) \<Rightarrow> u32 \<Rightarrow> 16 word \<Rightarrow> 16 word \<Rightarrow> 8 word \<Rightarrow> bool" where
  "has_at getTile f x y z = (case getTile x y z of None \<Rightarrow> False | Some t \<Rightarrow> hasFlag f t)"

definition destination_of :: "(16 word \<Rightarrow> 16 word \<Rightarrow> 8 word \<Rightarrow> tile option) \<Rightarrow> tile \<Rightarrow> tile option" where
  "destination_of getTile t =
     (let x = posx (tilePos t); y = posy (tilePos t) in
      if hasFlag TILESTATE_FLOORCHANGE_DOWN t
      then
        let z = posz (tilePos t) + 1
        in if has_at getTile TILESTATE_FLOORCHANGE_SOUTH_ALT x (y - 1) z then getTile x (y - 2) z
           else if has_at getTile TILESTATE_FLOORCHANGE_EAST_ALT (x - 1) y z then getTile (x - 2) y z
           else
             case getTile x y z of
               None \<Rightarrow> None
             | Some down \<Rightarrow>
                 let dy = step_if (hasFlag TILESTATE_FLOORCHANGE_SOUTH_ALT down) (-2)
                            (step_if (hasFlag TILESTATE_FLOORCHANGE_SOUTH down) (-1) (step_if (hasFlag TILESTATE_FLOORCHANGE_NORTH down) 1 y));
                     dx = step_if (hasFlag TILESTATE_FLOORCHANGE_WEST down) 1
                            (step_if (hasFlag TILESTATE_FLOORCHANGE_EAST_ALT down) (-2) (step_if (hasFlag TILESTATE_FLOORCHANGE_EAST down) (-1) x))
                 in getTile dx dy z
      else if hasFlag TILESTATE_FLOORCHANGE t
      then
        let z = posz (tilePos t) - 1;
            dy = step_if (hasFlag TILESTATE_FLOORCHANGE_SOUTH_ALT t) 2
                   (step_if (hasFlag TILESTATE_FLOORCHANGE_SOUTH t) 1 (step_if (hasFlag TILESTATE_FLOORCHANGE_NORTH t) (-1) y));
            dx = step_if (hasFlag TILESTATE_FLOORCHANGE_EAST_ALT t) 2
                   (step_if (hasFlag TILESTATE_FLOORCHANGE_WEST t) (-1) (step_if (hasFlag TILESTATE_FLOORCHANGE_EAST t) 1 x))
        in getTile dx dy z
      else None)"

definition tile_queryDestination :: "(16 word \<Rightarrow> 16 word \<Rightarrow> 8 word \<Rightarrow> tile option) \<Rightarrow> tile \<Rightarrow> u32 \<Rightarrow> tile \<times> nat option \<times> u32" where
  "tile_queryDestination getTile t fl =
     (let dest = destination_of getTile t
      in (case dest of None \<Rightarrow> (t, getTopDownItem t, fl) | Some d \<Rightarrow> (d, getTopDownItem d, fl OR FLAG_NOLIMIT)))"

subsection \<open>What the client is shown\<close>

definition full_view :: "(nat \<Rightarrow> bool) \<Rightarrow> tile \<Rightarrow> thing list" where
  "full_view sees t =
     map TItem ((case ground t of None \<Rightarrow> [] | Some g \<Rightarrow> [g]) @ tops t) @ map TCreature (filter sees (rev (creatures t))) @ map TItem (downs t)"

definition GetTileDescription :: "(nat \<Rightarrow> bool) \<Rightarrow> tile \<Rightarrow> thing list" where
  "GetTileDescription sees t = take 10 (full_view sees t)"

subsection \<open>Indices and stack positions\<close>

lemma index_of_append: "index_of x (xs @ ys) = (case index_of x xs of Some k \<Rightarrow> Some k | None \<Rightarrow> map_option (\<lambda>k. length xs + k) (index_of x ys))"
  by (induction xs; cases "index_of x ys") (auto split: option.splits)

lemma index_of_take: "index_of x (take n xs) = (case index_of x xs of Some k \<Rightarrow> if k < n then Some k else None | None \<Rightarrow> None)"
  by (induction xs arbitrary: n) (auto simp: take_Cons' split: option.splits)

lemma index_of_map: "inj f \<Longrightarrow> index_of (f x) (map f xs) = index_of x xs"
  by (induction xs) (auto dest: injD)

lemma index_of_lt: "index_of x xs = Some k \<Longrightarrow> k < length xs"
  by (induction xs arbitrary: k) (auto split: if_splits)

lemma index_of_other [simp]: "index_of (TItem i) (map TCreature cs) = None" "index_of (TCreature c) (map TItem is) = None"
  by (auto simp: set_index_of)

lemma inj_things [simp]: "inj TItem" "inj TCreature"
  by (auto simp: inj_def)

lemma index_view_item:
  "index_of (TItem i) (full_view sees t) =
     (case index_of i (gl t @ tops t) of Some k \<Rightarrow> Some k
      | None \<Rightarrow> map_option (\<lambda>k. length (gl t) + length (tops t) + length (filter sees (creatures t)) + k) (index_of i (downs t)))"
  by (simp add: full_view_def gl_def [symmetric] index_of_append index_of_map option.map_comp comp_def rev_filter [symmetric] add.assoc del: map_append
      split: option.split)

lemma scan_items_eq:
  "n < 10 \<Longrightarrow> scan_items i ys n = (case index_of i ys of Some k \<Rightarrow> Inl (if n + k < 10 then int (n + k) else -1)
     | None \<Rightarrow> if n + length ys < 10 then Inr (n + length ys) else Inl (-1))"
  by (induction ys arbitrary: n) (auto split: option.splits)

lemma scan_creatures_eq:
  "n < 10 \<Longrightarrow> scan_creatures sees cs n = (if n + length (filter sees cs) < 10 then Inr (n + length (filter sees cs)) else Inl (-1))"
  by (induction cs arbitrary: n) auto

lemma client_scan_eq:
  "n < 10 \<Longrightarrow> client_scan sees c (Some 10) cs n = (case index_of c cs of None \<Rightarrow> -1
     | Some k \<Rightarrow> if n + length (filter sees (take k cs)) < 10 then int (n + length (filter sees (take k cs))) else -1)"
  by (induction cs arbitrary: n) (auto split: option.splits)

lemma index_of_filter: "P x \<Longrightarrow> index_of x (filter P xs) = map_option (\<lambda>k. length (filter P (take k xs))) (index_of x xs)"
  by (induction xs) (auto simp: option.map_comp comp_def)

lemma gl_count: "length (gl t) = groundCount t" "groundCount t \<le> 1"
  by (auto simp: gl_def groundCount_def)

lemma stackpos_item:
  assumes "layout e t"
  shows "getStackposOfItem e t sees i = (case index_of (TItem i) (GetTileDescription sees t) of None \<Rightarrow> -1 | Some k \<Rightarrow> int k)"
proof (cases "ground t = Some i")
  case True
  then show ?thesis by (simp add: getStackposOfItem_def GetTileDescription_def full_view_def take_Cons')
next
  case False
  let ?n = "groundCount t" and ?f = "length (filter sees (creatures t))"
  have g: "index_of i (gl t) = None" "?n < 10" using False gl_count [of t] by (auto simp: gl_def set_index_of split: option.splits)
  have o: "onTop e t i \<Longrightarrow> index_of i (downs t) = None" "\<not> onTop e t i \<Longrightarrow> index_of i (tops t) = None"
    using layoutD(4,5) [OF assms] by (auto simp: set_index_of)
  show ?thesis
  proof (cases "onTop e t i")
    case True
    show ?thesis
      unfolding GetTileDescription_def index_of_take index_view_item index_of_append g(1) o(1) [OF True]
      using False True g(2) by (auto simp: getStackposOfItem_def scan_items_eq scan_creatures_eq gl_count split: option.split)
  next
    case down: False
    show ?thesis
      unfolding GetTileDescription_def index_of_take index_view_item index_of_append g(1) o(2) [OF down]
      using False down by (auto simp: getStackposOfItem_def scan_items_eq scan_creatures_eq gl_count split: option.split dest: index_of_lt)
  qed
qed

lemma stackpos_creature:
  assumes "sees c"
  shows "getStackposOfCreature t sees c = (case index_of (TCreature c) (GetTileDescription sees t) of None \<Rightarrow> -1 | Some k \<Rightarrow> int k)"
proof -
  let ?n = "groundCount t + length (tops t)"
  have v: "index_of (TCreature c) (full_view sees t) = map_option (\<lambda>k. ?n + length (filter sees (take k (rev (creatures t))))) (index_of c (rev (creatures t)))"
    unfolding full_view_def gl_def [symmetric] index_of_append index_of_other
    by (simp add: index_of_map index_of_filter [of sees, OF assms] gl_count option.map_comp comp_def split: option.split)
  show ?thesis
    unfolding GetTileDescription_def index_of_take v
    by (auto simp: getStackposOfCreature_def client_scan_eq split: option.split)
qed

definition all_things :: "tile \<Rightarrow> thing list" where
  "all_things t = map TItem (gl t @ tops t) @ map TCreature (creatures t) @ map TItem (downs t)"

lemma all_things_count: "length (all_things t) = getThingCount t"
  using arg_cong [OF parts [of t], of length] by (simp add: all_things_def getThingCount_def gl_count)

lemma getThing_nth: "getThing t n = (if n < getThingCount t then Some (all_things t ! n) else None)"
proof (cases "ground t")
  case None
  then show ?thesis
    unfolding all_things_count [symmetric] by (simp add: all_things_def getThing_def Let_def gl_def groundCount_def nth_append, auto)
next
  case (Some g)
  then show ?thesis
    unfolding all_things_count [symmetric] by (cases n) (simp_all add: all_things_def getThing_def Let_def gl_def groundCount_def nth_append, auto)
qed

lemma getThing_index:
  assumes "tile_ok e t"
  shows "getThingIndex e t x = Some n \<longleftrightarrow> getThing t n = Some x"
proof -
  let ?all = "map TItem (gl t @ tops t) @ map TCreature (creatures t) @ map TItem (downs t)"
  have l: "layout e t" using assms by (simp add: tile_ok_def)
  note L = layoutD [OF l]
  have idx: "getThingIndex e t x = index_of x ?all"
  proof (cases x)
    case (TItem i)
    have o: "onTop e t i \<Longrightarrow> index_of i (downs t) = None" "\<not> onTop e t i \<Longrightarrow> index_of i (tops t) = None" using L(4,5) by (auto simp: set_index_of)
    have a: "index_of x ?all = (case index_of i (gl t @ tops t) of Some k \<Rightarrow> Some k
        | None \<Rightarrow> map_option (\<lambda>k. groundCount t + length (tops t) + length (creatures t) + k) (index_of i (downs t)))"
      unfolding TItem index_of_append [of "TItem i" "map TItem (gl t @ tops t)"] index_of_append [of "TItem i" "map TCreature (creatures t)"]
      by (simp add: index_of_map gl_count option.map_comp comp_def add.assoc del: map_append split: option.split)
    show ?thesis
      unfolding a using o by (auto simp: getThingIndex_def TItem gl_def groundCount_def index_of_append split: option.splits)
  next
    case (TCreature c)
    have "index_of x ?all = map_option (\<lambda>k. groundCount t + length (tops t) + k) (index_of c (creatures t))"
      unfolding TCreature index_of_append [of "TCreature c" "map TItem (gl t @ tops t)"] index_of_append [of "TCreature c" "map TCreature (creatures t)"]
      by (simp add: index_of_map gl_count option.map_comp comp_def del: map_append split: option.split)
    then show ?thesis by (simp add: getThingIndex_def TCreature)
  qed
  have d: "distinct ?all" using L(1,2) by (auto simp: distinct_map inj_on_def)
  show ?thesis
    unfolding idx index_of_Some [OF d] getThing_nth all_things_count [symmetric] all_things_def by auto
qed

text \<open>Indices and things. On every reachable tile the index of a thing is the place where \<open>getThing\<close> finds it, a thing that is not there has
  no index, and the indices in use are those below the number of things.\<close>

lemma thing_index_roundtrip:
  assumes "tile_reach e t"
  shows "(getThingIndex e t x = Some n \<longleftrightarrow> getThing t n = Some x) \<and> (getThing t n \<noteq> None \<longleftrightarrow> n < getThingCount t)"
  using getThing_index [OF tile_reach_ok [OF assms]] getThing_nth [of t n] by simp

text \<open>C33: the stack position told to a client (\<open>getStackposOfItem\<close>, \<open>getStackposOfCreature\<close>) is the place of the thing among the at most ten that
  \<open>GetTileDescription\<close> sends, and -1 when it is not among them, for every item and every creature the client sees.\<close>

theorem stackpos_is_place_in_description:
  assumes "tile_reach e t" and "sees c"
  shows "getStackposOfItem e t sees i = (case index_of (TItem i) (GetTileDescription sees t) of None \<Rightarrow> -1 | Some k \<Rightarrow> int k)
    \<and> getStackposOfCreature t sees c = (case index_of (TCreature c) (GetTileDescription sees t) of None \<Rightarrow> -1 | Some k \<Rightarrow> int k)"
  using stackpos_item [of e t sees i] stackpos_creature [of sees, OF assms(2), of t] tile_reach_ok [OF assms(1)] by (simp add: tile_ok_def)

definition stackpos :: "tile_env \<Rightarrow> tile \<Rightarrow> (nat \<Rightarrow> bool) \<Rightarrow> thing \<Rightarrow> int" where
  "stackpos e t sees x = (case x of TItem i \<Rightarrow> getStackposOfItem e t sees i | TCreature c \<Rightarrow> getStackposOfCreature t sees c)"

definition remove_at :: "nat \<Rightarrow> 'a list \<Rightarrow> 'a list" where
  "remove_at k xs = take k xs @ drop (Suc k) xs"

lemma remove_at_index: "index_of x xs = Some k \<Longrightarrow> remove_at k xs = remove1 x xs"
  by (induction xs arbitrary: k) (auto simp: remove_at_def split: if_splits)

lemma remove1_map: "inj f \<Longrightarrow> remove1 (f x) (map f xs) = map f (remove1 x xs)"
  by (induction xs) (auto dest: injD)

lemma remove1_filter_rev: "distinct cs \<Longrightarrow> sees c \<Longrightarrow> remove1 c (filter sees (rev cs)) = filter sees (rev (remove1 c cs))"
  by (simp add: distinct_remove1_removeAll filter_remove1 [symmetric] remove1_filter_not removeAll_filter_not_eq rev_filter)

lemma view_after_item:
  assumes "tile_ok e t" and "i \<in> set (things_on t)" and "\<not> it_stackable (type_of e t i) \<or> c = ucast (i_count (things t i))"
  shows "full_view sees (removeItem e i c t) = remove1 (TItem i) (full_view sees t)"
    and "Suc (getThingCount (removeItem e i c t)) = getThingCount t"
proof -
  have l: "layout e t" using assms(1) by (simp add: tile_ok_def)
  note L = layoutD [OF l]
  have idx: "getThingIndex e t (TItem i) \<noteq> None" using getThingIndex_item [OF l] assms(2) by blast
  have len: "length (tileItems t) = length (downs t) + length (tops t)" using arg_cong [OF parts [of t], of length] by simp
  let ?u = "removeItem e i c t"
  have tc: "TItem i \<notin> set (map TCreature cs)" for cs by auto
  have fv: "full_view sees u = map TItem (gl u @ tops u) @ map TCreature (filter sees (rev (creatures u))) @ map TItem (downs u)" for u
    by (simp add: full_view_def gl_def)
  have r: "remove1 (TItem i) (full_view sees t) =
      (if i \<in> set (gl t @ tops t) then map TItem (remove1 i (gl t @ tops t)) @ map TCreature (filter sees (rev (creatures t))) @ map TItem (downs t)
       else map TItem (gl t @ tops t) @ map TCreature (filter sees (rev (creatures t))) @ map TItem (remove1 i (downs t)))"
    unfolding fv remove1_append remove1_map [OF inj_things(1)] using tc by (auto simp: remove1_idem)
  consider "ground t = Some i" | "ground t \<noteq> Some i" "onTop e t i" "i \<in> set (tops t)" | "ground t \<noteq> Some i" "\<not> onTop e t i" "i \<in> set (downs t)"
    using assms(2) L(4,5) unfolding things_on_parts gl_def by (auto split: option.splits)
  then have "full_view sees ?u = remove1 (TItem i) (full_view sees t) \<and> Suc (getThingCount ?u) = getThingCount t"
  proof cases
    case 1
    have u: "gl ?u = []" "tops ?u = tops t" "downs ?u = downs t" "creatures ?u = creatures t" "tileItems ?u = tileItems t" "ground ?u = None"
      using idx 1 by (auto simp: removeItem_def onRemoveTileItem_def gl_def tops_def downs_def)
    have "gl t = [i]" using 1 by (simp add: gl_def)
    then show ?thesis unfolding r unfolding fv u using 1 by (simp add: getThingCount_def groundCount_def u)
  next
    case 2
    have u: "gl ?u = gl t" "tileItems ?u = downs t @ remove1 i (tops t)" "downItemCount ?u = downItemCount t" "creatures ?u = creatures t" "ground ?u = ground t"
      using idx 2 by (auto simp: removeItem_def onRemoveTileItem_def gl_def)
    have p: "downs ?u = downs t" "tops ?u = remove1 i (tops t)" using parts_of [OF u(2)] u(3) length_downs [OF l] by simp_all
    have g: "i \<notin> set (gl t)" using 2(1) by (auto simp: gl_def split: option.splits)
    have "0 < length (tops t)" using 2(3) by (auto simp: length_pos_if_in_set)
    moreover have "remove1 i (gl t @ tops t) = gl t @ remove1 i (tops t)" using g by (simp add: remove1_append)
    moreover have "i \<in> set (gl t @ tops t)" using 2(3) by simp
    ultimately show ?thesis
      unfolding r unfolding fv p u(1,4) by (simp add: getThingCount_def groundCount_def u length_remove1 len 2(3))
  next
    case 3
    have u: "gl ?u = gl t" "tileItems ?u = remove1 i (downs t) @ tops t" "downItemCount ?u = downItemCount t - 1" "creatures ?u = creatures t" "ground ?u = ground t"
      using idx 3 assms(3) by (auto simp: removeItem_def onRemoveTileItem_def gl_def)
    have p: "downs ?u = remove1 i (downs t)" "tops ?u = tops t"
      using parts_of [OF u(2)] u(3) length_downs [OF l] 3(3) by (simp_all add: length_remove1)
    have g: "i \<notin> set (gl t)" "i \<notin> set (tops t)" using 3(1,3) L(1) by (auto simp: gl_def split: option.splits)
    have "0 < length (downs t)" using 3(3) by (auto simp: length_pos_if_in_set)
    then show ?thesis
      unfolding r unfolding fv p u(1,4) using 3(3) g by (simp add: getThingCount_def groundCount_def u length_remove1 len)
  qed
  then show "full_view sees ?u = remove1 (TItem i) (full_view sees t)" "Suc (getThingCount ?u) = getThingCount t" by simp_all
qed

text \<open>C34: clients can follow a removal. When a thing the client sees leaves a reachable tile (a creature, or an item that is not a stack or whose
  whole count goes), then either more than eight things remain, and \<open>postRemoveNotification\<close> has the tile described anew, or the stack position
  that was told names the thing in the client's description, and deleting that entry gives exactly the new description.\<close>

theorem client_follows_removal:
  assumes "tile_reach e t" and "getThingIndex e t x \<noteq> None"
    and "\<And>c. x = TCreature c \<Longrightarrow> sees c" and "\<And>i. x = TItem i \<Longrightarrow> it_stackable (type_of e t i) \<Longrightarrow> count = ucast (i_count (things t i))"
  defines "u \<equiv> removeThing e x count t"
  shows "(\<exists>b. sent (postRemoveNotification 0 u) = Out_PostRemove 0 b # sent u \<and> (b \<longleftrightarrow> getThingCount u > 8))
    \<and> (getThingCount u > 8 \<or>
        0 \<le> stackpos e t sees x \<and> GetTileDescription sees u = remove_at (nat (stackpos e t sees x)) (GetTileDescription sees t))"
proof -
  have ok: "tile_ok e t" using tile_reach_ok [OF assms(1)] .
  then have l: "layout e t" by (simp add: tile_ok_def)
  have len: "length (full_view sees v) \<le> getThingCount v" for v
    using arg_cong [OF parts [of v], of length] length_filter_le [of sees "rev (creatures v)"] by (simp add: full_view_def getThingCount_def groundCount_def split: option.split)
  have after: "full_view sees u = remove1 x (full_view sees t) \<and> Suc (getThingCount u) = getThingCount t \<and> x \<in> set (full_view sees t)"
  proof (cases x)
    case (TItem i)
    have i: "i \<in> set (things_on t)" using getThingIndex_item [OF l] assms(2) TItem by blast
    have s: "\<not> it_stackable (type_of e t i) \<or> count = ucast (i_count (things t i))" using assms(4) [OF TItem] by blast
    have "x \<in> set (full_view sees t)" using i TItem by (auto simp: full_view_def things_on_parts gl_def split: option.splits)
    then show ?thesis using view_after_item [OF ok i s] TItem by (simp add: u_def removeThing_def)
  next
    case (TCreature c)
    have c: "c \<in> set (creatures t)" using assms(2) TCreature by (auto simp: getThingIndex_def set_index_of)
    then have u: "u = (send Out_ClearCache t)\<lparr>creatures := remove1 c (creatures t)\<rparr>" by (simp add: u_def removeThing_def TCreature)
    have s: "sees c" using assms(3) TCreature by simp
    have d: "distinct (creatures t)" using l by (simp add: layout_def)
    have ti: "TCreature c \<notin> set (map TItem xs)" for xs by auto
    have same: "downs u = downs t" "tops u = tops t" "ground u = ground t" "creatures u = remove1 c (creatures t)" "tileItems u = tileItems t"
      by (simp_all add: u downs_def tops_def)
    have "full_view sees u = remove1 x (full_view sees t)"
      unfolding full_view_def same TCreature remove1_append remove1_map [OF inj_things(2)]
      using ti c s by (auto simp: remove1_filter_rev [where sees = sees, OF d s] del: map_append)
    moreover have "Suc (getThingCount u) = getThingCount t"
      using c length_pos_if_in_set [OF c] by (simp add: getThingCount_def groundCount_def same length_remove1)
    moreover have "x \<in> set (full_view sees t)" using c s TCreature by (simp add: full_view_def)
    ultimately show ?thesis by simp
  qed
  have pos: "stackpos e t sees x = (case index_of x (GetTileDescription sees t) of None \<Rightarrow> -1 | Some k \<Rightarrow> int k)"
    using stackpos_item [OF l] stackpos_creature assms(3) by (auto simp: stackpos_def split: thing.split)
  have "0 \<le> stackpos e t sees x \<and> GetTileDescription sees u = remove_at (nat (stackpos e t sees x)) (GetTileDescription sees t)"
    if "getThingCount u \<le> 8"
  proof -
    have full: "GetTileDescription sees t = full_view sees t" "GetTileDescription sees u = full_view sees u"
      using len [of t] len [of u] after that by (simp_all add: GetTileDescription_def)
    obtain k where k: "index_of x (full_view sees t) = Some k" using after index_of_ex(1) by metis
    show ?thesis using after remove_at_index [OF k] by (simp add: pos full k)
  qed
  then show ?thesis by (cases "getThingCount u > 8") (auto simp: postRemoveNotification_def send_def)
qed

subsection \<open>The promises of the queries\<close>

lemma hasFlag_or: "\<not> hasFlag (a OR b) t \<Longrightarrow> \<not> hasFlag a t \<and> \<not> hasFlag b t"
proof -
  assume "\<not> hasFlag (a OR b) t"
  then have "flags t AND (a OR b) = 0" by (simp add: hasFlag_def hasBitSet_def)
  then have "\<not> bit (flags t) k \<or> \<not> bit a k \<and> \<not> bit b k" for k
    by (metis bit_0_eq bit_and_iff bit_or_iff bot_apply bot_bool_def)
  then show ?thesis by (auto simp: hasFlag_def hasBitSet_def bit_eq_iff bit_and_iff)
qed

text \<open>C35: whom \<open>queryAdd\<close> lets in. Without the flags that lift the checks, a creature is admitted to a reachable tile only if there is ground and,
  a player, if nothing on the tile blocks and no creature that is not a ghost stands there (unless the player has access), a player whose protection
  zone is locked never steps into one, and a monster never enters a protection zone, a floor change or a teleport, and nothing immovable
  blocks it.\<close>

theorem queryAdd_admits_safely:
  assumes "tile_reach e t" and "queryAdd_creature e t k fl = RETURNVALUE_NOERROR"
    and "\<not> hasBitSet FLAG_NOLIMIT fl" and "\<not> hasBitSet FLAG_IGNOREBLOCKITEM fl" and "\<not> hasBitSet FLAG_IGNOREBLOCKCREATURE fl"
  shows "ground t \<noteq> None
    \<and> (tc_kind k = KPlayer \<longrightarrow> \<not> tile_hasProperty e t CONST_PROP_BLOCKSOLID \<and> (tc_access k \<or> (\<forall>c\<in>set (creatures t). tc_ghost (te_creature e c)))
        \<and> (tc_pzLocked k \<and> (\<exists>pf. tc_tileFlags k = Some pf \<and> \<not> hasBitSet TILESTATE_PROTECTIONZONE pf) \<longrightarrow> \<not> hasFlag TILESTATE_PROTECTIONZONE t))
    \<and> (tc_kind k = KMonster \<longrightarrow> \<not> hasFlag TILESTATE_PROTECTIONZONE t \<and> \<not> hasFlag TILESTATE_FLOORCHANGE t \<and> \<not> hasFlag TILESTATE_TELEPORT t
        \<and> \<not> tile_hasProperty e t CONST_PROP_IMMOVABLEBLOCKSOLID \<and> (tc_canPushItems k \<or> \<not> tile_hasProperty e t CONST_PROP_BLOCKSOLID))"
proof -
  have w: "watch e t (set (things_on t))" using tile_reach_ok [OF assms(1)] by (simp add: tile_ok_def)
  have f: "hasFlag (push_bit n 1) t \<longleftrightarrow> tile_hasProperty e t p" if "(p, n) \<in> set watched" for p n
    using w that flag_bit [OF that] hasFlag_bit [of n t] unfolding watch_def tile_hasProperty_iff by fastforce
  have solid: "hasFlag TILESTATE_BLOCKSOLID t \<longleftrightarrow> tile_hasProperty e t CONST_PROP_BLOCKSOLID"
    "hasFlag TILESTATE_IMMOVABLEBLOCKSOLID t \<longleftrightarrow> tile_hasProperty e t CONST_PROP_IMMOVABLEBLOCKSOLID"
    unfolding TILESTATE_BLOCKSOLID_def TILESTATE_IMMOVABLEBLOCKSOLID_def by (rule f; simp add: watched_def)+
  note q = assms(2) [unfolded queryAdd_creature_def]
  have g: "ground t \<noteq> None" using q assms(3) by (auto split: if_splits)
  show ?thesis
  proof (cases "tc_kind k")
    case KMonster
    then have m: "queryAdd_monster e t k fl = RETURNVALUE_NOERROR" using q assms(3) g by (auto split: if_splits)
    then have "\<not> hasFlag (TILESTATE_PROTECTIONZONE OR TILESTATE_FLOORCHANGE OR TILESTATE_TELEPORT) t"
      by (auto simp: queryAdd_monster_def split: if_splits)
    then have z: "\<not> hasFlag TILESTATE_PROTECTIONZONE t" "\<not> hasFlag TILESTATE_FLOORCHANGE t" "\<not> hasFlag TILESTATE_TELEPORT t"
      using hasFlag_or by blast+
    moreover have "\<not> hasFlag TILESTATE_IMMOVABLEBLOCKSOLID t" "\<not> hasFlag TILESTATE_BLOCKSOLID t \<or> tc_canPushItems k"
      using m assms(4) by (auto simp: queryAdd_monster_def split: if_splits)
    ultimately show ?thesis using g KMonster solid by auto
  next
    case KPlayer
    have c: "crowd_check e t k fl = RETURNVALUE_NOERROR" and b: "\<not> hasFlag TILESTATE_BLOCKSOLID t"
      using q assms(3,4) g KPlayer by (auto split: if_splits)
    have crowd: "tc_access k \<or> (\<forall>c\<in>set (creatures t). tc_ghost (te_creature e c))" and pz: "pz_check t k = RETURNVALUE_NOERROR"
      using c assms(5) KPlayer by (auto simp: crowd_check_def Let_def list_ex_iff split: if_splits)
    have "\<not> hasFlag TILESTATE_PROTECTIONZONE t" if "tc_pzLocked k" "tc_tileFlags k = Some pf" "\<not> hasBitSet TILESTATE_PROTECTIONZONE pf" for pf
      using pz that by (auto simp: pz_check_def split: if_splits)
    then show ?thesis using g KPlayer solid b crowd by auto
  next
    case KNpc
    then show ?thesis using g by simp
  qed
qed

text \<open>C36: \<open>queryRemove\<close> keeps its word. When it allows \<open>count\<close> of an item, \<open>removeThing\<close> takes exactly that: a stack that holds more keeps the rest and
  its place, and otherwise the item leaves the tile; nothing else on the tile goes or comes.\<close>

theorem queryRemove_keeps_word:
  assumes "tile_reach e t" and "tile_queryRemove e t (TItem i) count fl = RETURNVALUE_NOERROR" and "i \<in> set (downs t)"
  shows "if it_stackable (type_of e t i) \<and> count < ucast (i_count (things t i))
    then unat (i_count (things (removeThing e (TItem i) count t) i)) = unat (i_count (things t i)) - unat count
      \<and> things_on (removeThing e (TItem i) count t) = things_on t
    else set (things_on (removeThing e (TItem i) count t)) = set (things_on t) - {i}"
proof -
  have ok: "tile_ok e t" using tile_reach_ok [OF assms(1)] .
  then have l: "layout e t" by (simp add: tile_ok_def)
  have q: "count \<noteq> 0" "it_stackable (type_of e t i) \<Longrightarrow> count \<le> ucast (i_count (things t i))"
    using assms(2) by (auto simp: tile_queryRemove_def split: if_splits)
  have on: "i \<in> set (things_on t)" using assms(3) by (simp add: things_on_parts)
  have idx: "getThingIndex e t (TItem i) \<noteq> None" using getThingIndex_item [OF l] on by blast
  have d: "ground t \<noteq> Some i" "\<not> onTop e t i" using assms(3) layoutD(1,4) [OF l] by (auto simp: gl_def)
  show ?thesis
  proof (cases "it_stackable (type_of e t i) \<and> count < ucast (i_count (things t i))")
    case True
    let ?n = "ucast (i_count (things t i)) :: u32"
    have "unat (i_count (things t i)) < 2 ^ LENGTH(8)" by (rule unsigned_less)
    then have b: "unat (i_count (things t i)) < 256" by simp
    have n: "unat ?n = unat (i_count (things t i))"
      using b by (simp add: unsigned_ucast_eq take_bit_nat_eq_self_iff)
    have lt: "unat count < unat ?n" using True by (simp add: word_less_nat_alt)
    have diff: "unat (?n - count) = unat ?n - unat count" using lt by (simp add: unat_sub word_le_nat_alt)
    have small: "unat (?n - count) < 256" using diff n b by simp
    then have "int (unat (?n - count)) < 2147483648" by linarith
    then have "uint (?n - count) < 2147483648" unfolding uint_nat [of "?n - count"] .
    moreover have "- 2147483648 \<le> uint (?n - count)" using uint_ge_0 [of "?n - count"] by linarith
    ultimately have "sint (?n - count) = uint (?n - count)" unfolding sint_uint by (intro signed_take_bit_int_eq_self) simp_all
    then have "\<not> sint (?n - count) < 0" by simp
    moreover have "unat (ucast (?n - count) :: byte) = unat (?n - count)"
      using small by (simp add: unsigned_ucast_eq take_bit_nat_eq_self_iff)
    ultimately have "removeThing e (TItem i) count t = send (Out_Update i i) (setThing i ((things t i)\<lparr>i_count := ucast (?n - count)\<rparr>) t)"
      "unat (ucast (?n - count) :: byte) = unat (i_count (things t i)) - unat count"
      using idx d True assms(3) diff n by (auto simp: removeThing_def removeItem_def Let_def)
    then show ?thesis using True by (simp add: things_on_def)
  next
    case False
    show ?thesis
    proof (cases "it_stackable (type_of e t i)")
      case True
      then have c: "count = ucast (i_count (things t i))" using q(2) False by simp
      have "set (things_on (removeItem e i count t)) = set (things_on t) - {i}"
      proof -
        have g: "i \<notin> set (gl t)" "i \<notin> set (tops t)" using assms(3) layoutD(1) [OF l] by auto
        have u: "gl (removeItem e i count t) = gl t" "tileItems (removeItem e i count t) = remove1 i (downs t) @ tops t"
          using idx d assms(3) c by (auto simp: removeItem_def onRemoveTileItem_def gl_def)
        show ?thesis unfolding things_on_of [OF u(2)] u(1) using g layoutD(1) [OF l] by (auto simp: things_on_parts)
      qed
      then show ?thesis unfolding if_not_P [OF False] by (simp add: removeThing_def)
    next
      case nst: False
      then show ?thesis unfolding if_not_P [OF False] using removeItem_ok(5) [OF ok on nst, of count] by (simp add: removeThing_def)
    qed
  qed
qed

subsection \<open>A room with gold in it\<close>

definition demo_grass :: tile where
  "demo_grass = internalAddThing demo_env (TItem 2) (new_tile (Position 100 100 7) 0 demo_item)"

definition demo_room :: tile where
  "demo_room = internalAddThing demo_env (TCreature 7) (internalAddThing demo_env (TItem 5) demo_grass)"

lemmas room_defs = demo_room_def demo_grass_def demo_env_def demo_types_def plain_type_def demo_item_def new_tile_def internalAddThing_def setParent_def
  insert_down_def type_of_def

lemma demo_reach: "tile_reach demo_env demo_grass" "tile_reach demo_env demo_room"
proof -
  have "tile_reach demo_env (new_tile (Position 100 100 7) 0 demo_item)" by (rule tile_reach.start) simp
  then show g: "tile_reach demo_env demo_grass"
    unfolding demo_grass_def by (rule tile_reach.internal) (simp add: fresh_def things_on_def new_tile_def)
  then show "tile_reach demo_env demo_room"
    unfolding demo_room_def by (intro tile_reach.internal) (simp_all add: fresh_def things_on_def room_defs Let_def)
qed

lemma demo_room_parts: "ground demo_room = Some 2" "tileItems demo_room = [5]" "downItemCount demo_room = 1" "creatures demo_room = [7]"
  "things demo_room = demo_item" "downs demo_room = [5]" "tops demo_room = []" "type_of demo_env demo_room 5 = demo_types 5"
  by (simp_all add: room_defs downs_def tops_def Let_def)

lemma demo_room_index: "getThingIndex demo_env demo_room (TItem 5) = Some 2" "getThingIndex demo_env demo_room (TCreature 7) = Some 1"
  by (simp_all add: getThingIndex_def onTop_def demo_room_parts demo_types_def plain_type_def groundCount_def)

lemma thing_index_roundtrip_witness: "getThing demo_room 2 = Some (TItem 5) \<and> getThing demo_room 1 = Some (TCreature 7)"
  using thing_index_roundtrip [OF demo_reach(2), of "TItem 5" 2] thing_index_roundtrip [OF demo_reach(2), of "TCreature 7" 1] demo_room_index by simp

theorem stackpos_is_place_in_description_witness:
  "getStackposOfItem demo_env demo_room (\<lambda>_. True) 5 = 2 \<and> getStackposOfCreature demo_room (\<lambda>_. True) 7 = 1"
  using stackpos_is_place_in_description [OF demo_reach(2), of "\<lambda>_. True" 7 5]
  by (simp add: GetTileDescription_def full_view_def demo_room_parts)

theorem client_follows_removal_witness:
  "GetTileDescription (\<lambda>_. True) demo_room = [TItem 2, TCreature 7, TItem 5]
   \<and> GetTileDescription (\<lambda>_. True) (removeThing demo_env (TCreature 7) 1 demo_room) = [TItem 2, TItem 5]"
proof -
  let ?u = "removeThing demo_env (TCreature 7) 1 demo_room"
  have d: "GetTileDescription (\<lambda>_. True) demo_room = [TItem 2, TCreature 7, TItem 5]"
    by (simp add: GetTileDescription_def full_view_def demo_room_parts)
  have s: "stackpos demo_env demo_room (\<lambda>_. True) (TCreature 7) = 1"
    by (simp add: stackpos_def getStackposOfCreature_def demo_room_parts groundCount_def)
  have n: "getThingCount ?u = 2" by (simp add: removeThing_def demo_room_parts getThingCount_def groundCount_def)
  from client_follows_removal [OF demo_reach(2), of "TCreature 7" "\<lambda>_. True" 1] demo_room_index(2)
  have "getThingCount ?u > 8 \<or> 0 \<le> stackpos demo_env demo_room (\<lambda>_. True) (TCreature 7)
      \<and> GetTileDescription (\<lambda>_. True) ?u
        = remove_at (nat (stackpos demo_env demo_room (\<lambda>_. True) (TCreature 7))) (GetTileDescription (\<lambda>_. True) demo_room)" by simp
  then show ?thesis unfolding d s n by (simp add: remove_at_def)
qed

theorem queryAdd_admits_safely_witness:
  "queryAdd_creature demo_env demo_grass (demo_npc\<lparr>tc_kind := KPlayer\<rparr>) 0 = RETURNVALUE_NOERROR
   \<and> ground demo_grass \<noteq> None \<and> \<not> tile_hasProperty demo_env demo_grass CONST_PROP_BLOCKSOLID"
proof -
  have g: "ground demo_grass = Some 2" "creatures demo_grass = []" by (simp_all add: room_defs Let_def)
  have f: "\<not> hasFlag TILESTATE_BLOCKSOLID demo_grass"
    using tile_reach_ok [OF demo_reach(1)] g(1)
    by (simp add: TILESTATE_BLOCKSOLID_def hasFlag_bit [of 17] tile_ok_def watch_def watched_def things_on_def has_prop_def item_hasProperty_def
        room_defs Let_def del: push_bit_of_1)
  have fl: "\<not> hasBitSet FLAG_NOLIMIT 0" "\<not> hasBitSet FLAG_IGNOREBLOCKITEM 0" "\<not> hasBitSet FLAG_IGNOREBLOCKCREATURE 0" "\<not> hasBitSet FLAG_PATHFINDING 0"
    by (simp_all add: hasBitSet_def)
  have q: "queryAdd_creature demo_env demo_grass (demo_npc\<lparr>tc_kind := KPlayer\<rparr>) 0 = RETURNVALUE_NOERROR"
    by (simp add: queryAdd_creature_def fl g f crowd_check_def pz_check_def demo_npc_def)
  from queryAdd_admits_safely [OF demo_reach(1) q fl(1-3)] q show ?thesis by simp
qed

theorem queryRemove_keeps_word_witness:
  "tile_queryRemove demo_env demo_room (TItem 5) 4 0 = RETURNVALUE_NOERROR
   \<and> unat (i_count (things (removeThing demo_env (TItem 5) 4 demo_room) 5)) = 6"
proof -
  have t: "it_stackable (type_of demo_env demo_room 5)" "it_moveable (type_of demo_env demo_room 5)"
    by (simp_all add: demo_room_parts demo_types_def plain_type_def)
  have q: "tile_queryRemove demo_env demo_room (TItem 5) 4 0 = RETURNVALUE_NOERROR"
    by (simp add: tile_queryRemove_def demo_room_index t demo_room_parts(5) demo_item_def)
  from queryRemove_keeps_word [OF demo_reach(2) q] q t(1) show ?thesis by (simp add: demo_room_parts(5,6) demo_item_def)
qed

end
