(* ===== verification/Map_View.thy ===== *)
theory Map_View
  imports Position_Model
begin

section \<open>What a client is sent of the map\<close>

text \<open>
  The part of the game protocol that keeps a client's picture of the map (src/src/protocolgame.cpp: \<open>GetMapDescription\<close>, \<open>GetFloorDescription\<close>,
  \<open>canSee\<close>, \<open>checkCreatureAsKnown\<close>, \<open>sendMoveCreature\<close>, \<open>MoveUpCreature\<close>, \<open>MoveDownCreature\<close>). A description is the list of the squares described,
  in order, and its bytes: the described tiles (here a type parameter, their bytes are \<open>GetTileDescription\<close>'s) between skips of two bytes
  (a count and 255). Coordinates are the signed integers of the code; \<open>getTile\<close> reads them modulo the width of a map coordinate.
\<close>

type_synonym square = "int \<times> int \<times> int"

datatype 't token = Tile_Bytes 't | Skip nat

definition floor_squares :: "int \<Rightarrow> int \<Rightarrow> int \<Rightarrow> int \<Rightarrow> int \<Rightarrow> int \<Rightarrow> square list" where
  "floor_squares x y z width height offset =
     concat (map (\<lambda>nx. map (\<lambda>ny. (x + nx + offset, y + ny + offset, z)) [0..height - 1]) [0..width - 1])"

text \<open>The skip is -1, or the number of missing tiles to tell before the next tile.\<close>

fun floor_tokens :: "'t option list \<Rightarrow> int \<Rightarrow> 't token list \<times> int" where
  "floor_tokens [] skip = ([], skip)"
| "floor_tokens (Some t # ts) skip =
     (let (msg, s) = floor_tokens ts 0 in ((if skip \<ge> 0 then [Skip (nat skip)] else []) @ Tile_Bytes t # msg, s))"
| "floor_tokens (None # ts) skip =
     (if skip = 0xFE then let (msg, s) = floor_tokens ts (-1) in (Skip 0xFF # msg, s) else floor_tokens ts (skip + 1))"

definition GetFloorDescription :: "(square \<Rightarrow> 't option) \<Rightarrow> int \<Rightarrow> int \<Rightarrow> int \<Rightarrow> int \<Rightarrow> int \<Rightarrow> int \<Rightarrow> int \<Rightarrow> 't token list \<times> int" where
  "GetFloorDescription getTile x y z width height offset skip = floor_tokens (map getTile (floor_squares x y z width height offset)) skip"

definition floors_described :: "int \<Rightarrow> int list" where
  "floors_described z = (if z > 7 then [z - 2..min 15 (z + 2)] else rev [0..7])"

definition map_squares :: "int \<Rightarrow> int \<Rightarrow> int \<Rightarrow> int \<Rightarrow> int \<Rightarrow> square list" where
  "map_squares x y z width height = concat (map (\<lambda>nz. floor_squares x y nz width height (z - nz)) (floors_described z))"

definition last_skip :: "int \<Rightarrow> 't token list" where
  "last_skip skip = (if skip \<ge> 0 then [Skip (nat skip)] else [])"

fun floors_tokens :: "(square \<Rightarrow> 't option) \<Rightarrow> int \<Rightarrow> int \<Rightarrow> int \<Rightarrow> int \<Rightarrow> int \<Rightarrow> int list \<Rightarrow> int \<Rightarrow> 't token list" where
  "floors_tokens getTile x y z width height [] skip = last_skip skip"
| "floors_tokens getTile x y z width height (nz # nzs) skip =
     (let (msg, skip) = GetFloorDescription getTile x y nz width height (z - nz) skip
      in msg @ floors_tokens getTile x y z width height nzs skip)"

definition GetMapDescription :: "(square \<Rightarrow> 't option) \<Rightarrow> int \<Rightarrow> int \<Rightarrow> int \<Rightarrow> int \<Rightarrow> int \<Rightarrow> 't token list" where
  "GetMapDescription getTile x y z width height = floors_tokens getTile x y z width height (floors_described z) (-1)"

definition canSee :: "Position \<Rightarrow> square \<Rightarrow> bool" where
  "canSee myPos p =
     (case p of (x, y, z) \<Rightarrow>
        let offsetz = getZ myPos - z
        in (if getZ myPos \<le> 7 then z \<le> 7 else \<bar>getZ myPos - z\<bar> \<le> 2)
           \<and> x \<ge> getX myPos - 8 + offsetz \<and> x \<le> getX myPos + 9 + offsetz
           \<and> y \<ge> getY myPos - 6 + offsetz \<and> y \<le> getY myPos + 7 + offsetz)"

definition square_of :: "Position \<Rightarrow> square" where
  "square_of p = (getX p, getY p, getZ p)"

subsection \<open>Moves\<close>

text \<open>A move's messages: the map described anew, slices and floors with their byte, a thing removed from a stack position, added, or moved.\<close>

datatype part =
    Full_Map "square list" | Slice nat "square list" | Floors nat "square list" | Remove_Thing Position int
  | Add_Creature Position | Move_Thing Position int Position

definition sendMapDescription :: "Position \<Rightarrow> part" where
  "sendMapDescription pos = Full_Map (map_squares (getX pos - 8) (getY pos - 6) (getZ pos) 18 14)"

text \<open>The stack position is an unsigned number here: -1, the position of a thing that is not among those described, is not below 10.\<close>

definition RemoveTileThing :: "Position \<Rightarrow> int \<Rightarrow> part list" where
  "RemoveTileThing pos stackpos = (if (word_of_int stackpos :: u32) \<ge> 10 then [] else [Remove_Thing pos stackpos])"

definition MoveUpCreature :: "Position \<Rightarrow> Position \<Rightarrow> part list" where
  "MoveUpCreature newPos oldPos =
     (let x = getX oldPos - 8; y = getY oldPos - 6 in
      Floors 0xBE
        (if getZ newPos = 7
         then floor_squares x y 5 18 14 3 @ floor_squares x y 4 18 14 4 @ floor_squares x y 3 18 14 5
            @ floor_squares x y 2 18 14 6 @ floor_squares x y 1 18 14 7 @ floor_squares x y 0 18 14 8
         else if getZ newPos > 7 then floor_squares x y (getZ oldPos - 3) 18 14 3
         else [])
      # [Slice 0x68 (map_squares x (getY oldPos - 5) (getZ newPos) 1 14), Slice 0x65 (map_squares x y (getZ newPos) 18 1)])"

definition MoveDownCreature :: "Position \<Rightarrow> Position \<Rightarrow> part list" where
  "MoveDownCreature newPos oldPos =
     (let x = getX oldPos - 8; y = getY oldPos - 6; z = getZ newPos in
      Floors 0xBF
        (if z = 8
         then floor_squares x y z 18 14 (-1) @ floor_squares x y (z + 1) 18 14 (-2) @ floor_squares x y (z + 2) 18 14 (-3)
         else if z > getZ oldPos \<and> z > 8 \<and> z < 14 then floor_squares x y (z + 2) 18 14 (-3)
         else [])
      # [Slice 0x66 (map_squares (getX oldPos + 9) (getY oldPos - 7) z 1 14), Slice 0x67 (map_squares x (getY oldPos + 7) z 18 1)])"

definition moveSelf :: "Position \<Rightarrow> Position \<Rightarrow> int \<Rightarrow> bool \<Rightarrow> part list" where
  "moveSelf newPos oldPos oldStackPos teleport =
     (if oldStackPos \<ge> 10 then [sendMapDescription newPos]
      else if teleport then RemoveTileThing oldPos oldStackPos @ [sendMapDescription newPos]
      else
        (if getZ oldPos = 7 \<and> getZ newPos \<ge> 8 then RemoveTileThing oldPos oldStackPos else [Move_Thing oldPos oldStackPos newPos])
        @ (if getZ newPos > getZ oldPos then MoveDownCreature newPos oldPos
           else if getZ newPos < getZ oldPos then MoveUpCreature newPos oldPos else [])
        @ (if getY oldPos > getY newPos then [Slice 0x65 (map_squares (getX oldPos - 8) (getY newPos - 6) (getZ newPos) 18 1)]
           else if getY oldPos < getY newPos then [Slice 0x67 (map_squares (getX oldPos - 8) (getY newPos + 7) (getZ newPos) 18 1)] else [])
        @ (if getX oldPos < getX newPos then [Slice 0x66 (map_squares (getX newPos + 9) (getY newPos - 6) (getZ newPos) 1 14)]
           else if getX oldPos > getX newPos then [Slice 0x68 (map_squares (getX newPos - 8) (getY newPos - 6) (getZ newPos) 1 14)] else []))"

definition sendRemoveTileThing :: "Position \<Rightarrow> Position \<Rightarrow> int \<Rightarrow> part list" where
  "sendRemoveTileThing myPos pos stackpos = (if \<not> canSee myPos (square_of pos) then [] else RemoveTileThing pos stackpos)"

definition addOther :: "Position \<Rightarrow> Position \<Rightarrow> int \<Rightarrow> part list" where
  "addOther myPos pos stackpos = (if \<not> canSee myPos (square_of pos) then [] else if stackpos \<noteq> -1 then [Add_Creature pos] else [])"

text \<open>Of a creature that is not the client's player; \<open>creaturePos\<close> is the position the creature has when the message is made.\<close>

definition moveOther :: "Position \<Rightarrow> Position \<Rightarrow> Position \<Rightarrow> int \<Rightarrow> Position \<Rightarrow> int \<Rightarrow> bool \<Rightarrow> part list" where
  "moveOther myPos creaturePos newPos newStackPos oldPos oldStackPos teleport =
     (if canSee myPos (square_of oldPos) \<and> canSee myPos (square_of creaturePos)
      then if teleport \<or> getZ oldPos = 7 \<and> getZ newPos \<ge> 8 \<or> oldStackPos \<ge> 10
           then sendRemoveTileThing myPos oldPos oldStackPos @ addOther myPos newPos newStackPos
           else [Move_Thing oldPos oldStackPos creaturePos]
      else if canSee myPos (square_of oldPos) then sendRemoveTileThing myPos oldPos oldStackPos
      else if canSee myPos (square_of creaturePos) then addOther myPos newPos newStackPos
      else [])"

definition sendMoveCreature :: "bool \<Rightarrow> Position \<Rightarrow> Position \<Rightarrow> Position \<Rightarrow> int \<Rightarrow> Position \<Rightarrow> int \<Rightarrow> bool \<Rightarrow> part list" where
  "sendMoveCreature self myPos creaturePos newPos newStackPos oldPos oldStackPos teleport =
     (if self then moveSelf newPos oldPos oldStackPos teleport else moveOther myPos creaturePos newPos newStackPos oldPos oldStackPos teleport)"

subsection \<open>Known creatures\<close>

text \<open>\<open>ord\<close> is the order in which the unordered set is walked. The answer: was it known, and else which creature the client shall forget.\<close>

definition checkCreatureAsKnown :: "(nat \<Rightarrow> bool) \<Rightarrow> nat list \<Rightarrow> nat \<Rightarrow> nat set \<Rightarrow> nat option \<times> nat set" where
  "checkCreatureAsKnown visible ord i known =
     (if i \<in> known then (None, known)
      else
        let known = insert i known
        in if card known > 150
           then case find (\<lambda>c. \<not> visible c) ord of
                  Some c \<Rightarrow> (Some c, known - {c})
                | None \<Rightarrow> let c = (if hd ord = i then ord ! 1 else hd ord) in (Some c, known - {c})
           else (Some 0, known))"

subsection \<open>The bytes of a description\<close>

text \<open>How a client reads a description: at a square, a skip of \<open>n\<close> says that this square and \<open>n\<close> more are empty; a tile is followed by a skip
  that says how many empty squares follow it.\<close>

fun decode :: "'t token list \<Rightarrow> 't option list option" where
  "decode [] = Some []"
| "decode (Skip n # r) = map_option (\<lambda>ts. replicate (Suc n) None @ ts) (decode r)"
| "decode (Tile_Bytes t # Skip n # r) = map_option (\<lambda>ts. Some t # replicate n None @ ts) (decode r)"
| "decode _ = None"

lemma floor_tokens_append:
  "floor_tokens (xs @ ys) s = (let (m1, s1) = floor_tokens xs s; (m2, s2) = floor_tokens ys s1 in (m1 @ m2, s2))"
  by (induction xs s rule: floor_tokens.induct) (auto simp: Let_def split: prod.splits)

lemma floors_tokens_eq:
  "floors_tokens getTile x y z w h nzs s =
     (let (m, s1) = floor_tokens (map getTile (concat (map (\<lambda>nz. floor_squares x y nz w h (z - nz)) nzs))) s in m @ last_skip s1)"
  by (induction nzs arbitrary: s) (auto simp: GetFloorDescription_def floor_tokens_append Let_def split: prod.splits)

definition stream :: "'t option list \<Rightarrow> int \<Rightarrow> 't token list" where
  "stream ts s = fst (floor_tokens ts s) @ last_skip (snd (floor_tokens ts s))"

lemma stream_simps:
  "stream [] s = last_skip s" "stream (Some t # ts) s = last_skip s @ Tile_Bytes t # stream ts 0"
  "stream (None # ts) s = (if s = 254 then Skip 255 # stream ts (-1) else stream ts (s + 1))"
  by (auto simp: stream_def last_skip_def Let_def split: prod.splits)

lemma decode_stream:
  "(s = -1 \<longrightarrow> decode (stream ts s) = Some ts)
   \<and> (0 \<le> s \<and> s \<le> 254 \<longrightarrow> decode (stream ts s) = Some (replicate (Suc (nat s)) None @ ts)
        \<and> (\<forall>t. decode (Tile_Bytes t # stream ts s) = Some (Some t # replicate (nat s) None @ ts)))"
proof (induction ts arbitrary: s)
  case Nil
  then show ?case by (simp add: stream_simps last_skip_def)
next
  case (Cons u ts)
  show ?case
  proof (cases u)
    case (Some t)
    have "decode (Tile_Bytes t # stream ts 0) = Some (Some t # ts)" using Cons.IH [of 0] by simp
    then show ?thesis by (simp add: Some stream_simps last_skip_def)
  next
    case None
    have r: "replicate (Suc (nat (s + 1))) (None :: 'a option) @ ts = replicate (Suc (nat s)) None @ None # ts"
      "replicate (nat (s + 1)) (None :: 'a option) @ ts = replicate (nat s) None @ None # ts" if "0 \<le> s"
    proof -
      have "nat (s + 1) = Suc (nat s)" using that by simp
      then show "replicate (Suc (nat (s + 1))) (None :: 'a option) @ ts = replicate (Suc (nat s)) None @ None # ts"
        "replicate (nat (s + 1)) (None :: 'a option) @ ts = replicate (nat s) None @ None # ts"
        by (simp_all add: replicate_app_Cons_same)
    qed
    consider "s = -1" | "s = 254" | "0 \<le> s" "s < 254" | "s < -1 \<or> 254 < s" by linarith
    then show ?thesis
    proof cases
      case 1
      then show ?thesis using Cons.IH [of 0] by (simp add: None stream_simps)
    next
      case 2
      have "decode (stream ts (-1)) = Some ts" using Cons.IH [of "-1"] by simp
      moreover have "replicate 256 (None :: 'a option) @ ts = replicate 255 None @ None # ts"
        "replicate 255 (None :: 'a option) @ ts = replicate 254 None @ None # ts" using r [unfolded 2] by simp_all
      ultimately show ?thesis using 2 by (simp add: None stream_simps)
    next
      case 3
      then have "decode (stream ts (s + 1)) = Some (replicate (Suc (nat (s + 1))) None @ ts)"
        "decode (Tile_Bytes t # stream ts (s + 1)) = Some (Some t # replicate (nat (s + 1)) None @ ts)" for t
        using Cons.IH [of "s + 1"] by auto
      then show ?thesis using 3 unfolding r [OF 3(1)] by (simp add: None stream_simps)
    qed auto
  qed
qed

lemma skips_are_bytes: "-1 \<le> s \<Longrightarrow> s \<le> 254 \<Longrightarrow> Skip n \<in> set (stream ts s) \<Longrightarrow> n < 256"
proof (induction ts arbitrary: s)
  case (Cons u ts)
  note prems = Cons.prems
  show ?case
  proof (cases u)
    case None
    show ?thesis
    proof (cases "s = 254")
      case True
      then have "n = 255 \<or> Skip n \<in> set (stream ts (-1))" using prems(3) by (simp add: None stream_simps)
      then show ?thesis using Cons.IH [of "-1"] by auto
    next
      case False
      then show ?thesis using Cons.IH [of "s + 1"] prems by (simp add: None stream_simps)
    qed
  next
    case (Some t)
    then have "s \<ge> 0 \<and> n = nat s \<or> Skip n \<in> set (stream ts 0)" using prems(3) by (auto simp: stream_simps last_skip_def split: if_splits)
    then show ?thesis using Cons.IH [of 0] prems(2) by auto
  qed
qed (auto simp: stream_simps last_skip_def split: if_splits)

text \<open>C37: a map description can be read back. Whatever tiles exist, reading the bytes of \<open>GetMapDescription\<close> gives each square of the described
  area its tile or none, in order, across the borders of columns and floors; and every count fits its byte.\<close>

theorem map_description_roundtrip:
  "decode (GetMapDescription getTile x y z width height) = Some (map getTile (map_squares x y z width height))
   \<and> {n. Skip n \<in> set (GetMapDescription getTile x y z width height)} \<subseteq> {..<256}"
proof -
  have "GetMapDescription getTile x y z width height = stream (map getTile (map_squares x y z width height)) (-1)"
    by (simp add: GetMapDescription_def floors_tokens_eq stream_def map_squares_def Let_def case_prod_beta)
  then show ?thesis using decode_stream [of "-1" "map getTile (map_squares x y z width height)"] skips_are_bytes [of "-1"] by auto
qed

subsection \<open>The window\<close>

lemma floor_squares_mem:
  "(a, b, c) \<in> set (floor_squares x y z w h off) \<longleftrightarrow> c = z \<and> x + off \<le> a \<and> a < x + off + w \<and> y + off \<le> b \<and> b < y + off + h"
proof -
  have "(a, b, c) \<in> set (floor_squares x y z w h off) \<longleftrightarrow> (\<exists>nx ny. 0 \<le> nx \<and> nx < w \<and> 0 \<le> ny \<and> ny < h \<and> a = x + nx + off \<and> b = y + ny + off \<and> c = z)"
    unfolding floor_squares_def by force
  also have "... \<longleftrightarrow> c = z \<and> x + off \<le> a \<and> a < x + off + w \<and> y + off \<le> b \<and> b < y + off + h"
  proof
    assume "c = z \<and> x + off \<le> a \<and> a < x + off + w \<and> y + off \<le> b \<and> b < y + off + h"
    then show "\<exists>nx ny. 0 \<le> nx \<and> nx < w \<and> 0 \<le> ny \<and> ny < h \<and> a = x + nx + off \<and> b = y + ny + off \<and> c = z"
      by (intro exI [of _ "a - x - off"] exI [of _ "b - y - off"]) auto
  qed auto
  finally show ?thesis .
qed

lemma floors_mem: "c \<in> set (floors_described z) \<longleftrightarrow> (if z > 7 then z - 2 \<le> c \<and> c \<le> min 15 (z + 2) else 0 \<le> c \<and> c \<le> 7)"
  by (auto simp: floors_described_def)

lemma map_squares_mem:
  "(a, b, c) \<in> set (map_squares x y z w h) \<longleftrightarrow>
     c \<in> set (floors_described z) \<and> x + (z - c) \<le> a \<and> a < x + (z - c) + w \<and> y + (z - c) \<le> b \<and> b < y + (z - c) + h"
  unfolding map_squares_def by (auto simp: floor_squares_mem)

lemma z_range: "0 \<le> getZ p"
  by (simp add: getZ_def)

text \<open>C38: a client is described what it sees. The squares of a full map description are exactly those on floors 0 to 15 that \<open>canSee\<close> holds of,
  so each later message about a square in sight finds it described.\<close>

theorem description_covers_sight:
  assumes "getZ pos \<le> 15"
  shows "p \<in> set (map_squares (getX pos - 8) (getY pos - 6) (getZ pos) 18 14) \<longleftrightarrow> canSee pos p \<and> 0 \<le> snd (snd p) \<and> snd (snd p) \<le> 15"
proof (cases p)
  case (fields a b c)
  have z: "0 \<le> getZ pos" by (rule z_range)
  show ?thesis
    using z assms unfolding fields map_squares_mem floors_mem canSee_def Let_def by (simp add: abs_le_iff) linarith
qed

definition described :: "part list \<Rightarrow> square set" where
  "described parts = (\<Union>q\<in>set parts. case q of Full_Map s \<Rightarrow> set s | Slice b s \<Rightarrow> set s | Floors b s \<Rightarrow> set s | _ \<Rightarrow> {})"

lemma described_simps [simp]:
  "described [] = {}" "described (Full_Map s # r) = set s \<union> described r" "described (Slice b s # r) = set s \<union> described r"
  "described (Floors b s # r) = set s \<union> described r" "described (Remove_Thing p k # r) = described r" "described (Move_Thing p k p' # r) = described r"
  "described (xs @ ys) = described xs \<union> described ys" "described (RemoveTileThing p k) = {}"
  by (auto simp: described_def RemoveTileThing_def)

lemma described_if: "described (if c then a else b) = (if c then described a else described b)"
  by simp

definition win :: "int \<Rightarrow> int \<Rightarrow> int \<Rightarrow> int \<Rightarrow> int \<Rightarrow> bool" where
  "win x y d a b \<longleftrightarrow> x - 8 + d \<le> a \<and> a \<le> x + 9 + d \<and> y - 6 + d \<le> b \<and> b \<le> y + 7 + d"

definition seen_floor :: "int \<Rightarrow> int \<Rightarrow> bool" where
  "seen_floor z c \<longleftrightarrow> (if z \<le> 7 then c \<le> 7 else \<bar>z - c\<bar> \<le> 2)"

lemma canSee_win: "canSee pos (a, b, c) \<longleftrightarrow> seen_floor (getZ pos) c \<and> win (getX pos) (getY pos) (getZ pos - c) a b"
  by (simp add: canSee_def win_def seen_floor_def Let_def)

definition side_slices :: "Position \<Rightarrow> Position \<Rightarrow> part list" where
  "side_slices newPos oldPos =
     (if getY oldPos > getY newPos then [Slice 0x65 (map_squares (getX oldPos - 8) (getY newPos - 6) (getZ newPos) 18 1)]
      else if getY oldPos < getY newPos then [Slice 0x67 (map_squares (getX oldPos - 8) (getY newPos + 7) (getZ newPos) 18 1)] else [])
     @ (if getX oldPos < getX newPos then [Slice 0x66 (map_squares (getX newPos + 9) (getY newPos - 6) (getZ newPos) 1 14)]
        else if getX oldPos > getX newPos then [Slice 0x68 (map_squares (getX newPos - 8) (getY newPos - 6) (getZ newPos) 1 14)] else [])"

lemma side_slices_cover:
  assumes "\<bar>getX newPos - getX oldPos\<bar> \<le> 1" "\<bar>getY newPos - getY oldPos\<bar> \<le> 1" and "c \<in> set (floors_described (getZ newPos))"
    and "win (getX newPos) (getY newPos) (getZ newPos - c) a b"
  shows "(a, b, c) \<in> described (side_slices newPos oldPos) \<or> win (getX oldPos) (getY oldPos) (getZ newPos - c) a b"
proof -
  let ?d = "getZ newPos - c"
  note w = assms(4) [unfolded win_def]
  consider "a < getX oldPos - 8 + ?d" | "a > getX oldPos + 9 + ?d" | "getX oldPos - 8 + ?d \<le> a" "a \<le> getX oldPos + 9 + ?d" "b < getY oldPos - 6 + ?d"
    | "getX oldPos - 8 + ?d \<le> a" "a \<le> getX oldPos + 9 + ?d" "b > getY oldPos + 7 + ?d" | "win (getX oldPos) (getY oldPos) ?d a b"
    unfolding win_def by linarith
  then show ?thesis
  proof cases
    case 1
    then have "getX oldPos > getX newPos" "a = getX newPos - 8 + ?d" using w assms(1) by linarith+
    then have "(a, b, c) \<in> described (side_slices newPos oldPos)" using w assms(3) by (simp add: side_slices_def map_squares_mem)
    then show ?thesis ..
  next
    case 2
    then have "getX oldPos < getX newPos" "a = getX newPos + 9 + ?d" using w assms(1) by linarith+
    then have "(a, b, c) \<in> described (side_slices newPos oldPos)" using w assms(3) by (simp add: side_slices_def map_squares_mem)
    then show ?thesis ..
  next
    case 3
    then have "getY oldPos > getY newPos" "b = getY newPos - 6 + ?d" using w assms(2) by linarith+
    then have "(a, b, c) \<in> described (side_slices newPos oldPos)" using 3(1,2) assms(3) by (simp add: side_slices_def map_squares_mem)
    then show ?thesis ..
  next
    case 4
    then have "getY oldPos < getY newPos" "b = getY newPos + 7 + ?d" using w assms(2) by linarith+
    then have "(a, b, c) \<in> described (side_slices newPos oldPos)" using 4(1,2) assms(3) by (simp add: side_slices_def map_squares_mem)
    then show ?thesis ..
  qed simp
qed

lemma up_covers:
  assumes "getZ newPos = getZ oldPos - 1" and "getZ oldPos \<le> 15" and c: "c \<in> set (floors_described (getZ newPos))"
    and "win (getX oldPos) (getY oldPos) (getZ newPos - c) a b"
  shows "(a, b, c) \<in> described (MoveUpCreature newPos oldPos) \<or> canSee oldPos (a, b, c)"
proof -
  let ?d = "getZ newPos - c"
  note w = assms(4) [unfolded win_def]
  consider "b = getY oldPos - 6 + ?d" | "a = getX oldPos - 8 + ?d" "getY oldPos - 5 + ?d \<le> b" | "win (getX oldPos) (getY oldPos) (?d + 1) a b"
    using w unfolding win_def by linarith
  then show ?thesis
  proof cases
    case 1
    then have "(a, b, c) \<in> described (MoveUpCreature newPos oldPos)" using w c by (simp add: MoveUpCreature_def Let_def map_squares_mem)
    then show ?thesis ..
  next
    case 2
    then have "(a, b, c) \<in> described (MoveUpCreature newPos oldPos)" using w c by (simp add: MoveUpCreature_def Let_def map_squares_mem)
    then show ?thesis ..
  next
    case 3
    have off: "getZ oldPos - c = ?d + 1" using assms(1) by simp
    show ?thesis
    proof (cases "seen_floor (getZ oldPos) c")
      case True
      then show ?thesis using 3 by (simp add: canSee_win off)
    next
      case False
      then consider "getZ newPos = 7" "getZ oldPos = 8" "0 \<le> c" "c \<le> 5" | "getZ newPos > 7" "c = getZ oldPos - 3"
        using c assms(1) z_range [of newPos] unfolding floors_mem seen_floor_def by (auto split: if_splits)
      then have "(a, b, c) \<in> described (MoveUpCreature newPos oldPos)"
      proof cases
        case 1
        then have "c = 0 \<or> c = 1 \<or> c = 2 \<or> c = 3 \<or> c = 4 \<or> c = 5" by linarith
        then show ?thesis by (elim disjE) (use 3 1 in \<open>simp_all add: win_def MoveUpCreature_def Let_def floor_squares_mem\<close>)
      next
        case 2
        then show ?thesis using 3 assms(1) unfolding win_def by (simp add: MoveUpCreature_def Let_def floor_squares_mem)
      qed
      then show ?thesis ..
    qed
  qed
qed

lemma down_covers:
  assumes "getZ newPos = getZ oldPos + 1" and "getZ newPos \<le> 15" and c: "c \<in> set (floors_described (getZ newPos))"
    and "win (getX oldPos) (getY oldPos) (getZ newPos - c) a b"
  shows "(a, b, c) \<in> described (MoveDownCreature newPos oldPos) \<or> canSee oldPos (a, b, c)"
proof -
  let ?d = "getZ newPos - c"
  note w = assms(4) [unfolded win_def]
  consider "b = getY oldPos + 7 + ?d" | "a = getX oldPos + 9 + ?d" "b \<le> getY oldPos + 6 + ?d" | "win (getX oldPos) (getY oldPos) (?d - 1) a b"
    using w unfolding win_def by linarith
  then show ?thesis
  proof cases
    case 1
    then have "(a, b, c) \<in> described (MoveDownCreature newPos oldPos)" using w c by (simp add: MoveDownCreature_def Let_def map_squares_mem)
    then show ?thesis ..
  next
    case 2
    then have "(a, b, c) \<in> described (MoveDownCreature newPos oldPos)" using w c by (simp add: MoveDownCreature_def Let_def map_squares_mem)
    then show ?thesis ..
  next
    case 3
    have off: "getZ oldPos - c = ?d - 1" using assms(1) by simp
    show ?thesis
    proof (cases "seen_floor (getZ oldPos) c")
      case True
      then show ?thesis using 3 by (simp add: canSee_win off)
    next
      case False
      then consider "getZ newPos = 8" "8 \<le> c" "c \<le> 10" | "getZ newPos > 8" "getZ newPos < 14" "c = getZ newPos + 2"
        using c assms(1) z_range [of oldPos] unfolding floors_mem seen_floor_def by (auto split: if_splits)
      then have "(a, b, c) \<in> described (MoveDownCreature newPos oldPos)"
      proof cases
        case 1
        then have "c = 8 \<or> c = 9 \<or> c = 10" by linarith
        then show ?thesis by (elim disjE) (use 3 1 in \<open>simp_all add: win_def MoveDownCreature_def Let_def floor_squares_mem\<close>)
      next
        case 2
        then show ?thesis using 3 assms(1) unfolding win_def by (simp add: MoveDownCreature_def Let_def floor_squares_mem)
      qed
      then show ?thesis ..
    qed
  qed
qed

text \<open>C39: a client's picture stays complete when its player moves. After any step (at most one square in each direction, floor changes included) the
  squares the player now sees are described by the messages of \<open>sendMoveCreature\<close> or were in sight before; after a teleport, and when the old stack
  position was out of reach, all of them are described.\<close>

theorem move_completes_view:
  assumes "getZ newPos \<le> 15" "getZ oldPos \<le> 15" and "canSee newPos p" "0 \<le> snd (snd p)" "snd (snd p) \<le> 15"
    and "\<bar>getX newPos - getX oldPos\<bar> \<le> 1 \<and> \<bar>getY newPos - getY oldPos\<bar> \<le> 1 \<and> \<bar>getZ newPos - getZ oldPos\<bar> \<le> 1 \<or> teleport \<or> oldStackPos \<ge> 10"
  shows "p \<in> described (sendMoveCreature True myPos creaturePos newPos newStackPos oldPos oldStackPos teleport)
    \<or> canSee oldPos p \<and> \<not> teleport \<and> oldStackPos < 10"
proof -
  have full: "p \<in> described [sendMapDescription newPos]"
    using description_covers_sight [OF assms(1), of p] assms(3-5) by (simp add: sendMapDescription_def)
  show ?thesis
  proof (cases "teleport \<or> oldStackPos \<ge> 10")
    case True
    then show ?thesis using full by (auto simp: sendMoveCreature_def moveSelf_def)
  next
    case False
    obtain a b c where p: "p = (a, b, c)" by (cases p)
    have step: "\<bar>getX newPos - getX oldPos\<bar> \<le> 1" "\<bar>getY newPos - getY oldPos\<bar> \<le> 1" "\<bar>getZ newPos - getZ oldPos\<bar> \<le> 1" using assms(6) False by auto
    have c: "c \<in> set (floors_described (getZ newPos))" and w: "win (getX newPos) (getY newPos) (getZ newPos - c) a b"
      using assms(3-5) by (auto simp: p canSee_win seen_floor_def floors_mem split: if_splits)
    have parts: "described (side_slices newPos oldPos) \<subseteq> described (sendMoveCreature True myPos creaturePos newPos newStackPos oldPos oldStackPos teleport)"
      "getZ newPos < getZ oldPos \<Longrightarrow> described (MoveUpCreature newPos oldPos) \<subseteq> described (sendMoveCreature True myPos creaturePos newPos newStackPos oldPos oldStackPos teleport)"
      "getZ newPos > getZ oldPos \<Longrightarrow> described (MoveDownCreature newPos oldPos) \<subseteq> described (sendMoveCreature True myPos creaturePos newPos newStackPos oldPos oldStackPos teleport)"
      using False by (auto simp: sendMoveCreature_def moveSelf_def side_slices_def)
    from side_slices_cover [OF step(1,2) c w] show ?thesis
    proof
      assume "(a, b, c) \<in> described (side_slices newPos oldPos)"
      then show ?thesis using parts(1) p by blast
    next
      assume old: "win (getX oldPos) (getY oldPos) (getZ newPos - c) a b"
      consider "getZ newPos = getZ oldPos" | "getZ newPos = getZ oldPos - 1" | "getZ newPos = getZ oldPos + 1" using step(3) by linarith
      then show ?thesis
      proof cases
        case 1
        then show ?thesis using old assms(3) False by (simp add: p canSee_win)
      next
        case 2
        then have "getZ newPos < getZ oldPos" by simp
        then show ?thesis using up_covers [OF 2 assms(2) c old] parts(2) p False by auto
      next
        case 3
        then have "getZ newPos > getZ oldPos" by simp
        then show ?thesis using down_covers [OF 3 assms(1) c old] parts(3) p False by auto
      qed
    qed
  qed
qed

subsection \<open>Other creatures\<close>

text \<open>Where a client shows a creature, after the messages about it.\<close>

fun shown :: "Position option \<Rightarrow> part list \<Rightarrow> Position option" where
  "shown at [] = at"
| "shown at (Remove_Thing p k # r) = shown (if at = Some p then None else at) r"
| "shown at (Add_Creature p # r) = shown (Some p) r"
| "shown at (Move_Thing p k q # r) = shown (if at = Some p then Some q else at) r"
| "shown at (_ # r) = shown at r"

text \<open>A client keeps track of the others. When a creature moves, a client that showed it in its old place exactly if that was in sight and
  within the ten things described (which is when its old stack position is 0 to 9) shows it after the messages of \<open>sendMoveCreature\<close> in its new place
  if that is in sight, and nowhere if not. The messages are sent after the creature has been put on its new tile.\<close>

lemma others_are_tracked:
  assumes "newStackPos \<noteq> -1" and "0 \<le> oldStackPos" "oldStackPos < 2 ^ 31" and "at = (if canSee myPos (square_of oldPos) \<and> oldStackPos < 10 then Some oldPos else None)"
  shows "shown at (sendMoveCreature False myPos newPos newPos newStackPos oldPos oldStackPos teleport)
    = (if canSee myPos (square_of newPos) then Some newPos else None)"
proof -
  have "(word_of_int oldStackPos :: u32) \<ge> 10 \<longleftrightarrow> oldStackPos \<ge> 10"
    using assms(2,3) by (simp add: word_le_def uint_word_of_int take_bit_int_eq_self)
  then show ?thesis using assms by (auto simp: sendMoveCreature_def moveOther_def sendRemoveTileThing_def RemoveTileThing_def addOther_def)
qed

text \<open>C40: server and client agree on the creatures the client knows. A client that forgets the creature it is told to forget and remembers the one it
  is told of holds, after \<open>checkCreatureAsKnown\<close> for a creature in sight, the same creatures as the server's set, never more than 150, and the new one
  is among them; this for every order in which the set may be walked.\<close>

theorem known_creatures_agree:
  assumes "finite known" "card known \<le> 150" "0 \<notin> known" and "visible i" and "distinct ord" "set ord = insert i known"
    and "checkCreatureAsKnown visible ord i known = (answer, known')"
  shows "known' = (case answer of None \<Rightarrow> known | Some c \<Rightarrow> insert i (known - {c})) \<and> i \<in> known' \<and> finite known' \<and> card known' \<le> 150"
proof (cases "i \<in> known \<or> card (insert i known) \<le> 150")
  case True
  then show ?thesis using assms(1-3,7) by (auto simp: checkCreatureAsKnown_def split: if_splits)
next
  case False
  then have new: "i \<notin> known" and full: "card (insert i known) > 150" by auto
  have card: "card (insert i known) = 151" using new full assms(1,2) by simp
  have len: "length ord = 151" using distinct_card [OF assms(5)] assms(6) card by simp
  obtain c where c: "c \<in> known" "answer = Some c" "known' = insert i known - {c}"
  proof (cases "find (\<lambda>c. \<not> visible c) ord")
    case (Some d)
    then have "d \<in> set ord" "\<not> visible d" by (auto simp: find_Some_iff)
    then have "d \<in> known" using assms(4,6) by auto
    then show ?thesis using that [of d] assms(7) new full Some by (simp add: checkCreatureAsKnown_def)
  next
    case None
    define d where "d = (if hd ord = i then ord ! 1 else hd ord)"
    obtain a b r where ord: "ord = a # b # r" using len by (cases ord; cases "tl ord") auto
    have "d \<in> set ord" "d \<noteq> i" using assms(5) by (auto simp: d_def ord)
    then have "d \<in> known" using assms(6) by simp
    then show ?thesis using that [of d] assms(7) new full None by (simp add: checkCreatureAsKnown_def d_def Let_def)
  qed
  have "card known' = 150" using c card assms(1) by (simp add: card_Diff_singleton)
  then show ?thesis using c new assms(1) by auto
qed

subsection \<open>A walk to the east\<close>

theorem map_description_roundtrip_witness:
  "decode (GetMapDescription (\<lambda>p. if p = (2, 0, 7) then Some ''stone'' else None) 0 0 7 3 1) = Some ([None, None, Some ''stone''] @ replicate 21 None)"
proof -
  have "map (\<lambda>p. if p = (2, 0, 7) then Some ''stone'' else None) (map_squares 0 0 7 3 1) = [None, None, Some ''stone''] @ replicate 21 None"
    by (simp add: map_squares_def floors_described_def floor_squares_def upto.simps numeral_eq_Suc)
  then show ?thesis
    using map_description_roundtrip [of "\<lambda>p. if p = (2, 0, 7) then Some ''stone'' else None" 0 0 7 3 1] by simp
qed

lemma demo_positions:
  "getX (Position 100 100 7) = 100" "getY (Position 100 100 7) = 100" "getZ (Position 100 100 7) = 7"
  "getX (Position 101 100 7) = 101" "getY (Position 101 100 7) = 100" "getZ (Position 101 100 7) = 7"
  by (simp_all add: getX_def getY_def getZ_def)

theorem description_covers_sight_witness:
  "(109, 100, 7) \<in> set (map_squares 92 94 7 18 14) \<and> (110, 100, 7) \<notin> set (map_squares 92 94 7 18 14)"
  using description_covers_sight [of "Position 100 100 7" "(109, 100, 7)"] description_covers_sight [of "Position 100 100 7" "(110, 100, 7)"]
  by (simp add: demo_positions canSee_def)

theorem move_completes_view_witness:
  "(110, 100, 7) \<in> described (sendMoveCreature True (Position 101 100 7) (Position 101 100 7) (Position 101 100 7) 1 (Position 100 100 7) 1 False)"
  using move_completes_view [of "Position 101 100 7" "Position 100 100 7" "(110, 100, 7)" False 1 "Position 101 100 7" "Position 101 100 7" 1]
  by (simp add: demo_positions canSee_def)

lemma others_are_tracked_witness:
  "shown (Some (Position 100 100 7)) (sendMoveCreature False (Position 101 100 7) (Position 101 100 7) (Position 101 100 7) 2 (Position 100 100 7) 1 False) = Some (Position 101 100 7)"
  using others_are_tracked [of 2 1 "Some (Position 100 100 7)" "Position 101 100 7" "Position 100 100 7" "Position 101 100 7" False]
  by (simp add: canSee_def square_of_def demo_positions)

theorem known_creatures_agree_witness:
  "checkCreatureAsKnown (\<lambda>c. c \<noteq> 1) [1..<152] 151 {1..150} = (Some 1, {2..151}) \<and> card {2 :: nat..151} \<le> 150"
proof -
  have "find (\<lambda>c. \<not> c \<noteq> 1) [1 :: nat..<152] = Some 1" by (simp add: upt_conv_Cons)
  moreover have "insert 151 {1 :: nat..150} - {1} = {2..151}" by auto
  ultimately have e: "checkCreatureAsKnown (\<lambda>c. c \<noteq> 1) [1..<152] 151 {1..150} = (Some 1, {2..151})"
    by (simp add: checkCreatureAsKnown_def)
  have "set [1..<152] = insert 151 {1 :: nat..150}" by auto
  from known_creatures_agree [OF _ _ _ _ _ this e] e show ?thesis by simp
qed

end
