(* ===== verification/Spec2Isabelle.thy ===== *)
theory Spec2Isabelle
  imports Connection_Model Wildcard_Tree File_Loader Prop_Stream Login_Gate Scheduler_Model Party_Model Hash_Model Growth_Training
    Item_Serialization Trade_Model Condition_Damage Condition_Saving Map_Path Tile_Queries Map_View
begin

text \<open>
  The Forgotten Server 7.4, a game server in C++ (src/src). This library models the parts of the server that carry its own logic and can be stated
  without scripts, SQL and sockets, and proves what makes them correct. This root theory imports all the others; each theory opens with a text of its
  own that says what it holds and how it reads the code.

  \<^bold>\<open>The program.\<close> One thread, the dispatcher, runs the game: network connections and the scheduler thread post tasks to it. A
  connection collects packets, a protocol decrypts them and calls operations of the class \<open>Game\<close>; \<open>Game\<close> owns the map (a
  quad tree of tiles), the players, parties and trades; tiles and containers are cylinders that hold items; creatures have conditions that change them
  while they last. What changes is told to the clients in sight, and players with their items and conditions are stored through property streams.

  \<^bold>\<open>Network.\<close> \<open>Network_Message\<close> (networkmessage.cpp, outputmessage.h): the message buffer with its 16-bit cursor; a
  write outside the buffer is \<open>None\<close>. \<open>Protocol_Crypto\<close> (protocol.cpp): XTEA and the framing.
  \<open>Connection_Model\<close> (connection.cpp): a connection as a state machine of completion handlers; what is sent arrives, packets are written
  in order, bodies fit the buffer.

  \<^bold>\<open>Services.\<close> \<open>Scheduler_Model\<close> (scheduler.cpp, tasks.cpp): the two threads as a step relation of mutex-protected
  regions; every event is fired or stopped once, none too early, and three races that the code has. \<open>Login_Gate\<close> (ban.cpp, waitlist.cpp):
  the connection throttle, bans, and the list of waiting clients. \<open>Wildcard_Tree\<close> (wildcardtree.cpp, and the register of names in
  game.cpp): the tree is a set of names and its answers are those of that set. \<open>Hash_Model\<close> (tools.cpp): SHA-1 against the padded
  specification. \<open>Tools_Model\<close> (tools.cpp, enums.h): string functions and result codes. \<open>File_Loader\<close> (fileloader.cpp) and
  \<open>Prop_Stream\<close> (fileloader.h): trees of nodes in a file and streams of properties.

  \<^bold>\<open>Players.\<close> \<open>Vocation_Model\<close> (vocation.cpp), \<open>Player_Growth\<close> and \<open>Growth_Training\<close>
  (player.cpp): experience, skills, magic level and death, with every counter at its width. \<open>Party_Model\<close> (party.cpp, and its callers in
  player.cpp and game.cpp): parties and players agree in every reachable world, and leaving refines an abstract operation.
  \<open>Condition_Model\<close>, \<open>Condition_Effects\<close>, \<open>Condition_Damage\<close>, \<open>Condition_Saving\<close> (condition.cpp,
  the condition functions of creature.cpp and iologindata.cpp): the condition classes, the balance of what they change, the course of a damage over
  time, and their storage.

  \<^bold>\<open>Items.\<close> \<open>Item_Attributes\<close> and \<open>Item_Serialization\<close> (item.cpp, item.h): attributes as tagged unions
  beside a bit field, and their storage. \<open>Container_Model\<close>, \<open>Container_Tree\<close>, \<open>Container_Iterator\<close>
  (container.cpp): an explicit store of items with parent pointers; the store stays a forest with exact cached weights. \<open>Trade_Model\<close>
  (game.cpp): requests, acceptance and exchange over that store.

  \<^bold>\<open>The map.\<close> \<open>Position_Model\<close> (position.h, tools.cpp). \<open>Map_Tree\<close> (map.cpp): the quad tree refines a
  function from coordinates to tiles. \<open>Map_Spectators\<close>: the creatures of a leaf, moving them, and the search for spectators with its
  caches. \<open>Map_Sight\<close>: lines of sight. \<open>Map_Path\<close>: the A* search. \<open>Tile_Model\<close>, \<open>Tile_Invariant\<close>,
  \<open>Tile_Queries\<close> (tile.cpp): the things of a tile, its flags, order and queries. \<open>Map_View\<close> (protocolgame.cpp): the
  description of the map a client gets and the messages that keep it up to date.

  \<^bold>\<open>How the code is read.\<close> A class is a record, a method a function from the state to the state; unsigned machine integers are
  words of their width where wrap-around can happen, and a theory says where signed ones are unbounded integers. Undefined behaviour (a write outside
  a buffer, a null pointer, an iterator of another list), an exception and an endless loop are \<open>None\<close>, or a fault in the state; a null
  pointer that the code tests is \<open>None\<close> too. Operations are composed into \<open>inductive\<close> relations of reachable states
  (\<open>conn_reach\<close>, \<open>sys_reach\<close>, \<open>wl_reach\<close>, \<open>map_reach\<close>, \<open>tile_reach\<close>,
  \<open>box_reach\<close> and the like), and the invariants are proved by induction on them. Loops whose end is not structural are
  \<open>partial_function\<close>s in the option type, with a lemma that they return: the growth loops because each turn uses up part of a finite
  amount (the results on experience are for levels up to 500000, some 2 * 10 ^ 18 points, below which no product of the formula wraps
  around), the loops over parent pointers because the store is a forest, the removal of fields because a tile loses one each time, the search because
  at most 512 nodes are ever created (\<open>MAX_NODES\<close>), the sight line because every step comes closer to its end.

  \<^bold>\<open>Parameters.\<close> What is not under src/src or is not modelled is an argument: the item table \<open>its\<close> and the classes of
  items and creatures (\<open>tile_env\<close>), what a trade asks of the rest of the server (\<open>trade_env\<close>), what a step of a condition
  sees (\<open>cond_env\<close>, with the random numbers and the three floating-point computations), a tile as the map sees it
  (\<open>place_env\<close>), the creature that walks (\<open>walker\<close>), the capacity check of the carrier (\<open>outQuery\<close>), the
  floating-point tables of a vocation, the RSA arithmetic, script handlers, the clock, and the orders in which unordered containers are walked.
  Assumptions on them are named in the theorems: \<open>sound_closer\<close> says of the comparison of two quotients in
  \<open>generateDamageList\<close> that past the target one more strike is no improvement, and short of it one more point is.

  \<^bold>\<open>Choices to know about.\<close> The error codes of the file loader are one failure, and its offsets are unbounded. In
  \<open>Map_View\<close> the bytes of one tile are a token, so that nothing is said about telling a tile's bytes from a skip;
  \<open>checkCreatureAsKnown\<close> answers \<open>None\<close> for a known creature where the code leaves \<open>removedKnown\<close> as it is.
  Histories of the map (\<open>map_reach\<close>) leave out the call of \<open>getSpectators\<close> with a list that is not empty (monster.cpp),
  which breaks the cache: \<open>second_position_pollutes\<close>. Sight lines are over unbounded coordinates, and \<open>sight_no_overflow\<close>
  says when the code's integers agree. In \<open>tile_reach\<close> an item changes in place only into a type on the same side of the vector, as
  \<open>Game::transformItem\<close> checks; that it does not check the order of the items on top is \<open>transform_unsorts\<close>.

  \<^bold>\<open>Locales.\<close> \<open>keyed_store\<close> is the contract of attribute stores, interpreted for the attribute object and for the
  item; \<open>prefix_index\<close> that of the tree of names, which the register of players uses.

  \<^bold>\<open>Not modelled.\<close> The script interface and all scripted events, spells and weapons; SQL and everything stored by it except
  conditions; the XML readers; monsters, NPCs and spawns, whose behaviour is random choices and scripts; the parsers of the game protocol and the
  bytes of single items and creatures; the rest of \<open>Game\<close> and \<open>Player\<close> (moving items between cylinders, inventory, combat,
  walking, decay); houses, chat, commands, mailboxes and depots; start-up, configuration and sockets. \<open>shareExperience\<close> of a party is
  left out because its amounts are in double precision.
\<close>

end
